(* ===== verification/Prelude.thy ===== *)
theory Prelude
  imports Main "HOL-Library.Word"
begin

text \<open>
  The shared vocabulary of the development: the machine integer types of the C sources, a byte
  memory with little-endian 32-bit access, the sum of a run of 32-bit words, and the generic
  lemmas on words and sums that the component theories use.

  A pointer is a \<^typ>\<open>nat\<close> address into a memory \<^typ>\<open>nat \<Rightarrow> 8 word\<close>. The two processors of the
  program (the ARM host and the Hexagon DSP) are both little endian.
\<close>

unbundle bit_operations_syntax

type_synonym u8 = "8 word"
type_synonym u16 = "16 word"
type_synonym u32 = "32 word"
type_synonym u64 = "64 word"
type_synonym i8 = "8 word"
type_synonym i32 = "32 word"
type_synonym mem = "nat \<Rightarrow> u8"

named_theorems mem_simps \<open>rewriting of loads, stores and word sums\<close>
named_theorems inv_intros \<open>preservation of the invariants of the components\<close>

subsection \<open>Little-endian 32-bit access\<close>

definition ld32 :: "mem \<Rightarrow> nat \<Rightarrow> u32" where
  "ld32 m a = ucast (m a) OR push_bit 8 (ucast (m (a + 1)))
     OR push_bit 16 (ucast (m (a + 2))) OR push_bit 24 (ucast (m (a + 3)))"

definition st32 :: "mem \<Rightarrow> nat \<Rightarrow> u32 \<Rightarrow> mem" where
  "st32 m a v = m(a := ucast v, a + 1 := ucast (drop_bit 8 v),
     a + 2 := ucast (drop_bit 16 v), a + 3 := ucast (drop_bit 24 v))"

lemma word32_bytes:
  fixes v :: u32
  shows "ucast (ucast v :: u8) OR push_bit 8 (ucast (ucast (drop_bit 8 v) :: u8))
    OR push_bit 16 (ucast (ucast (drop_bit 16 v) :: u8))
    OR push_bit 24 (ucast (ucast (drop_bit 24 v) :: u8)) = v" (is "?w = v")
proof (rule bit_word_eqI)
  fix n assume "n < LENGTH(32)"
  then consider "n < 8" | "8 \<le> n" "n < 16" | "16 \<le> n" "n < 24" | "24 \<le> n" "n < 32" by fastforce
  then show "bit ?w n = bit v n"
    by cases (auto simp: bit_or_iff bit_push_bit_iff bit_unsigned_iff bit_drop_bit_eq)
qed

lemma ld32_st32_same [mem_simps]: "ld32 (st32 m a v) a = v"
  using word32_bytes[of v] by (simp add: ld32_def st32_def)

lemma st32_outside [mem_simps]: "b < a \<or> a + 4 \<le> b \<Longrightarrow> st32 m a v b = m b"
  by (auto simp: st32_def)

lemma ld32_cong: "(\<And>k. k < 4 \<Longrightarrow> m (a + k) = m' (a' + k)) \<Longrightarrow> ld32 m a = ld32 m' a'"
proof -
  assume *: "\<And>k. k < 4 \<Longrightarrow> m (a + k) = m' (a' + k)"
  from *[of 0] *[of 1] *[of 2] *[of 3] show ?thesis by (simp add: ld32_def)
qed

lemma ld32_st32_other [mem_simps]: "b + 4 \<le> a \<or> a + 4 \<le> b \<Longrightarrow> ld32 (st32 m a v) b = ld32 m b"
  by (rule ld32_cong) (auto simp: st32_def)

subsection \<open>Sums of words\<close>

text \<open>\<open>sum_words m a n\<close> is the wrapping 32-bit sum of \<open>n\<close> words from address \<open>a\<close>.\<close>

definition sum_words :: "mem \<Rightarrow> nat \<Rightarrow> nat \<Rightarrow> u32" where
  "sum_words m a n = (\<Sum>i<n. ld32 m (a + 4 * i))"

lemma sum_words_0 [simp]: "sum_words m a 0 = 0"
  by (simp add: sum_words_def)

lemma sum_words_Suc: "sum_words m a (Suc n) = sum_words m a n + ld32 m (a + 4 * n)"
  by (simp add: sum_words_def)

lemma sum_words_add: "sum_words m a (n + k) = sum_words m a n + sum_words m (a + 4 * n) k"
proof (induction k)
  case 0
  show ?case by simp
next
  case (Suc k)
  have "sum_words m a (n + Suc k) = sum_words m a (n + k) + ld32 m (a + 4 * (n + k))"
    by (simp add: sum_words_Suc)
  also have "a + 4 * (n + k) = a + 4 * n + 4 * k" by simp
  finally show ?case using Suc by (simp add: sum_words_Suc add.assoc)
qed

lemma sum_words_cong:
  "(\<And>i. i < 4 * n \<Longrightarrow> m (a + i) = m' (a' + i)) \<Longrightarrow> sum_words m a n = sum_words m' a' n"
  unfolding sum_words_def
  by (rule sum.cong[OF refl]) (auto intro!: ld32_cong simp: add.assoc)

lemma sum_words_mult:
  "sum_words m a (n * k) = (\<Sum>j<n. sum_words m (a + 4 * (j * k)) k)"
proof (induction n)
  case 0
  show ?case by simp
next
  case (Suc n)
  have "sum_words m a (Suc n * k) = sum_words m a (n * k + k)" by (simp add: add.commute)
  also have "\<dots> = sum_words m a (n * k) + sum_words m (a + 4 * (n * k)) k"
    by (rule sum_words_add)
  finally show ?case using Suc by simp
qed

subsection \<open>Regular sums\<close>

lemma sum_lessThan_add:
  fixes f :: "nat \<Rightarrow> 'a::comm_monoid_add"
  shows "(\<Sum>i<n + k. f i) = (\<Sum>i<n. f i) + (\<Sum>i<k. f (n + i))"
  by (induction k) (simp_all add: add.assoc)

lemma sum_lessThan_mult:
  fixes f :: "nat \<Rightarrow> 'a::comm_monoid_add"
  shows "(\<Sum>i<n * k. f i) = (\<Sum>j<n. \<Sum>i<k. f (j * k + i))"
  by (induction n) (simp_all add: add.commute[of k] sum_lessThan_add)

lemma upt_append: "i \<le> j \<Longrightarrow> j \<le> k \<Longrightarrow> [i..<j] @ [j..<k] = [i..<k]"
  by (metis le_Suc_ex upt_add_eq_append)

subsection \<open>Words\<close>

lemma unat_lt2p: "unat (x :: 'a::len word) < 2 ^ LENGTH('a)"
  by (rule unsigned_less)

lemma unat_of_nat_less: "n < 2 ^ LENGTH('a) \<Longrightarrow> unat (of_nat n :: 'a::len word) = n"
  by (simp add: unat_of_nat)

lemma unat_ucast_up:
  fixes x :: "'a::len word"
  assumes "LENGTH('a) \<le> LENGTH('b::len)"
  shows "unat (ucast x :: 'b word) = unat x"
proof -
  have "unat x < 2 ^ LENGTH('a)" by (rule unat_lt2p)
  also have "\<dots> \<le> 2 ^ LENGTH('b)" using assms by (simp add: power_increasing)
  finally show ?thesis by (simp add: unsigned_ucast_eq take_bit_nat_eq_self_iff)
qed

lemma unat_mult_le:
  fixes a b :: "'a::len word"
  assumes "unat a * unat b < 2 ^ LENGTH('a)"
  shows "unat (a * b) = unat a * unat b"
  using assms by (simp add: unat_mult_lem[THEN iffD1])

lemma unat_add_le:
  fixes a b :: "'a::len word"
  assumes "unat a + unat b < 2 ^ LENGTH('a)"
  shows "unat (a + b) = unat a + unat b"
  using assms by (simp add: unat_add_lem[THEN iffD1])

end
