(* ===== verification/Buffers.thy ===== *)
theory Buffers
  imports Prelude
begin

text \<open>
  The read buffer of the DDR probe and its checksums (\<open>tools/ddrbw/host/ddrbw.c\<close>, the section
  "the buffer and its prefix sums"): \<open>mix32\<close>, \<open>fill_main\<close>, \<open>fill_buffer\<close>, \<open>sum_range\<close> and
  \<open>expected_sum\<close>.

  The fields \<open>data\<close> and \<open>pre\<close> are pointers to memory of the host. Here they are functions of the
  byte offset and of the index. \<open>size_t\<close> has 64 bits on the host and no value of this code comes
  near that width, thus the offsets are \<^typ>\<open>nat\<close>. The values that the code keeps in \<open>uint32_t\<close> and
  \<open>uint64_t\<close> variables are words, thus each product and each sum wraps as in C.
\<close>

subsection \<open>The state\<close>

record buffer =
  data :: mem
  size :: nat
  pre :: "nat \<Rightarrow> u32"
  fd :: int
  mapped :: bool

definition BLOCK :: nat where "BLOCK = 128"

definition mix32 :: "u32 \<Rightarrow> u32" where
  "mix32 x =
     (let x = x XOR drop_bit 16 x;
          x = x * 0x7feb352d;
          x = x XOR drop_bit 15 x;
          x = x * 0x846ca68b;
          x = x XOR drop_bit 16 x
      in x)"

subsection \<open>Fill and prefix sums\<close>

text \<open>
  One job of \<open>fill_buffer\<close>: the half-open range of blocks that one thread fills. The inner loop of
  \<open>fill_main\<close> writes the 32 words of a block and adds them.
\<close>

record fill_job =
  first :: nat
  last :: nat
  seed :: u32

fun fill_words :: "u32 \<Rightarrow> nat \<Rightarrow> nat \<Rightarrow> mem \<Rightarrow> u32 \<Rightarrow> mem \<times> u32" where
  "fill_words sd i 0 m s = (m, s)"
| "fill_words sd i (Suc n) m s =
     (let v = mix32 (of_nat i * 2 + sd) in fill_words sd (Suc i) n (st32 m (4 * i) v) (s + v))"

definition fill_block :: "u32 \<Rightarrow> nat \<Rightarrow> mem \<times> (nat \<Rightarrow> u32) \<Rightarrow> mem \<times> (nat \<Rightarrow> u32)" where
  "fill_block sd blk mp =
     (let (m', s) = fill_words sd (blk * 32) 32 (fst mp) 0 in (m', (snd mp)(blk + 1 := s)))"

fun fill_blocks :: "u32 \<Rightarrow> nat list \<Rightarrow> mem \<times> (nat \<Rightarrow> u32) \<Rightarrow> mem \<times> (nat \<Rightarrow> u32)" where
  "fill_blocks sd [] mp = mp"
| "fill_blocks sd (b # bs) mp = fill_blocks sd bs (fill_block sd b mp)"

definition fill_main :: "fill_job \<Rightarrow> mem \<times> (nat \<Rightarrow> u32) \<Rightarrow> mem \<times> (nat \<Rightarrow> u32)" where
  "fill_main j mp = fill_blocks (seed j) [first j..<last j] mp"

definition fill_jobs :: "nat \<Rightarrow> u32 \<Rightarrow> fill_job list" where
  "fill_jobs nblk sd =
     map (\<lambda>t. \<lparr>first = nblk * t div 8, last = nblk * (t + 1) div 8, seed = sd\<rparr>) [0..<8]"

fun prefix_loop :: "nat \<Rightarrow> nat \<Rightarrow> (nat \<Rightarrow> u32) \<Rightarrow> nat \<Rightarrow> u32" where
  "prefix_loop i 0 p = p"
| "prefix_loop i (Suc n) p = prefix_loop (Suc i) n (p(i + 1 := p (i + 1) + p i))"

text \<open>
  \<open>fill_buffer\<close>: \<open>alloc\<close> is the result of the \<open>malloc\<close> of the prefix sums (the uninitialised array,
  or \<^const>\<open>None\<close> for \<open>NULL\<close>). The return value is 0 or -1. The jobs run here in the order of the
  thread numbers. The theorem \<open>fill_order_irrelevant\<close> below shows that each other interleaving of
  the eight threads gives the same buffer, because no two blocks share a word or a prefix entry.
\<close>

definition fill_buffer :: "(nat \<Rightarrow> u32) option \<Rightarrow> buffer \<Rightarrow> u32 \<Rightarrow> int \<times> buffer" where
  "fill_buffer alloc b sd =
     (case alloc of
        None \<Rightarrow> (-1, b)
      | Some p0 \<Rightarrow>
          (let nblk = size b div BLOCK;
               (m, p) = fold fill_main (fill_jobs nblk sd) (data b, p0);
               p = prefix_loop 0 nblk (p(0 := 0))
           in (0, b\<lparr>data := m, pre := p\<rparr>)))"

definition sum_range :: "buffer \<Rightarrow> nat \<Rightarrow> nat \<Rightarrow> u32" where
  "sum_range b a e = pre b (e div BLOCK) - pre b (a div BLOCK)"

subsection \<open>The expected checksum\<close>

fun sample_loop :: "buffer \<Rightarrow> u32 \<Rightarrow> u32 \<Rightarrow> u64 \<Rightarrow> nat \<Rightarrow> nat \<Rightarrow> u32 \<Rightarrow> u32 \<Rightarrow> u32 \<times> u32" where
  "sample_loop b start chunk rm j 0 whole head = (whole, head)"
| "sample_loop b start chunk rm j (Suc n) whole head =
     (let a = unat start + j * unat chunk;
          s = sum_range b a (a + BLOCK)
      in sample_loop b start chunk rm (Suc j) n (whole + s)
           (if of_nat j < rm then head + s else head))"

text \<open>
  \<open>expected_sum\<close> divides by \<open>chunk\<close> and by the number of chunks of the part. \<^const>\<open>None\<close> is the
  division by zero, which C does not define.
\<close>

definition expected_sum :: "buffer \<Rightarrow> u32 \<Rightarrow> u32 \<Rightarrow> u32 \<Rightarrow> u64 \<Rightarrow> bool \<Rightarrow> u32 option" where
  "expected_sum b part_start part_len chunk chunks sample =
     (if chunk = 0 \<or> part_len div chunk = 0 then None
      else
        let per = ucast (part_len div chunk) :: u64;
            passes = chunks div per;
            rm = chunks mod per
        in if \<not> sample then
             (let whole = sum_range b (unat part_start) (unat part_start + unat part_len)
              in Some (ucast passes * whole
                   + sum_range b (unat part_start) (unat part_start + unat (rm * ucast chunk))))
           else
             (let (whole, head) = sample_loop b part_start chunk rm 0 (unat per) 0 0
              in Some (ucast passes * whole + head)))"

subsection \<open>What the fill computes\<close>

text \<open>The byte at offset \<open>a\<close> and the sum of block \<open>b\<close> after the fill, as functions of the seed.\<close>

definition hash_word :: "u32 \<Rightarrow> nat \<Rightarrow> u32" where
  "hash_word sd i = mix32 (of_nat i * 2 + sd)"

definition hash_byte :: "u32 \<Rightarrow> nat \<Rightarrow> u8" where
  "hash_byte sd a = ucast (drop_bit (8 * (a mod 4)) (hash_word sd (a div 4)))"

definition block_sum :: "u32 \<Rightarrow> nat \<Rightarrow> u32" where
  "block_sum sd b = (\<Sum>k<32. hash_word sd (32 * b + k))"

lemma st32_hash: "st32 m (4 * i) (hash_word sd i) = (\<lambda>a. if a div 4 = i then hash_byte sd a else m a)"
proof
  fix a
  have "a div 4 = i \<longleftrightarrow> a = 4 * i \<or> a = 4 * i + 1 \<or> a = 4 * i + 2 \<or> a = 4 * i + 3" by arith
  moreover have "(4 * i + 1) mod 4 = 1" "(4 * i + 2) mod 4 = 2" "(4 * i + 3) mod 4 = 3"
    "(4 * i + 1) div 4 = i" "(4 * i + 2) div 4 = i" "(4 * i + 3) div 4 = i" for i :: nat
    by arith+
  ultimately show "st32 m (4 * i) (hash_word sd i) a = (if a div 4 = i then hash_byte sd a else m a)"
    by (auto simp: st32_def hash_byte_def)
qed

lemma fill_words_eq:
  "fill_words sd i n m s =
     (\<lambda>a. if i \<le> a div 4 \<and> a div 4 < i + n then hash_byte sd a else m a,
      s + (\<Sum>k<n. hash_word sd (i + k)))"
proof (induction n arbitrary: i m s)
  case 0
  show ?case by (auto simp: fun_eq_iff)
next
  case (Suc n)
  have "mix32 (of_nat i * 2 + sd) = hash_word sd i" by (simp add: hash_word_def)
  then show ?case
    unfolding fill_words.simps Let_def Suc.IH
    by (auto simp: st32_hash fun_eq_iff sum.lessThan_Suc_shift add.assoc simp del: sum.lessThan_Suc)
qed

lemma fill_block_eq:
  "fill_block sd b (m, p) =
     (\<lambda>a. if a div 128 = b then hash_byte sd a else m a, p(b + 1 := block_sum sd b))"
proof -
  have "b * 32 \<le> a div 4 \<and> a div 4 < b * 32 + 32 \<longleftrightarrow> a div 128 = b" for a :: nat
    by (simp add: div_mult2_eq[of a 4 32, simplified] div_nat_eqI) (auto simp: algebra_simps; arith)
  then show ?thesis
    by (simp add: fill_block_def fill_words_eq block_sum_def mult.commute)
qed

lemma fill_blocks_eq:
  "fill_blocks sd bs (m, p) =
     (\<lambda>a. if a div 128 \<in> set bs then hash_byte sd a else m a,
      \<lambda>k. if k \<noteq> 0 \<and> k - 1 \<in> set bs then block_sum sd (k - 1) else p k)"
  by (induction bs arbitrary: m p) (auto simp: fill_block_eq fun_eq_iff)

lemma fill_blocks_append: "fill_blocks sd (xs @ ys) mp = fill_blocks sd ys (fill_blocks sd xs mp)"
  by (induction xs arbitrary: mp) auto

lemma fill_jobs_blocks:
  "fold fill_main (fill_jobs nblk sd) mp = fill_blocks sd [0..<nblk] mp"
proof -
  have upt: "[0..<nblk * t div 8] @ [nblk * t div 8..<nblk * Suc t div 8] = [0..<nblk * Suc t div 8]" for t
    by (rule upt_append) (auto intro: div_le_mono)
  have *: "fold fill_main (map (\<lambda>t. \<lparr>first = nblk * t div 8, last = nblk * (t + 1) div 8, seed = sd\<rparr>) [0..<n]) mp
      = fill_blocks sd [0..<nblk * n div 8] mp" for n
  proof (induction n)
    case 0
    show ?case by simp
  next
    case (Suc n)
    then show ?case
      by (simp add: fill_main_def fill_blocks_append[symmetric] upt[simplified])
  qed
  from *[of 8] show ?thesis by (simp add: fill_jobs_def)
qed

lemma prefix_loop_eq:
  "prefix_loop i n p k = (if i < k \<and> k \<le> i + n then p i + (\<Sum>j\<in>{i<..k}. p j) else p k)"
proof (induction n arbitrary: i p k)
  case 0
  show ?case by auto
next
  case (Suc n)
  let ?q = "p(i + 1 := p (i + 1) + p i)"
  consider "k \<le> i" | "k = Suc i" | "Suc i < k" by linarith
  then show ?case
  proof cases
    case 3
    have "{i<..k} = insert (Suc i) {Suc i<..k}" using 3 by auto
    moreover have "(\<Sum>j\<in>{Suc i<..k}. ?q j) = (\<Sum>j\<in>{Suc i<..k}. p j)" by (rule sum.cong) auto
    ultimately show ?thesis using 3 by (simp add: Suc.IH add_ac)
  qed (simp_all add: Suc.IH atLeastSucAtMost_greaterThanAtMost[symmetric] add.commute)
qed

lemma sum_words_block:
  assumes "\<And>a. a < 128 * n \<Longrightarrow> m a = hash_byte sd a"
  shows "sum_words m 0 (32 * n) = (\<Sum>b<n. block_sum sd b)"
proof -
  have byte: "m (4 * i + k) = ucast (drop_bit (8 * k) (hash_word sd i))" if "i < 32 * n" "k < 4" for i k
    using that assms[of "4 * i + k"] by (simp add: hash_byte_def)
  have "ld32 m (4 * i) = hash_word sd i" if "i < 32 * n" for i
  proof -
    have "ld32 m (4 * i) = ld32 (st32 m (4 * i) (hash_word sd i)) (4 * i)"
      using byte[OF that, of 0] byte[OF that, of 1] byte[OF that, of 2] byte[OF that, of 3]
      by (simp add: ld32_def st32_def)
    then show ?thesis by (simp add: mem_simps)
  qed
  then have "sum_words m 0 (32 * n) = (\<Sum>i<n * 32. hash_word sd i)"
    by (simp add: sum_words_def mult.commute)
  also have "\<dots> = (\<Sum>b<n. block_sum sd b)"
    by (simp add: sum_lessThan_mult block_sum_def mult.commute)
  finally show ?thesis .
qed

definition prefix_ok :: "buffer \<Rightarrow> bool" where
  "prefix_ok b \<longleftrightarrow> (\<forall>k \<le> size b div BLOCK. pre b k = sum_words (data b) 0 (32 * k))"

lemma fill_buffer_cases:
  assumes "fill_buffer (Some p0) b sd = (r, b')"
  shows "r = 0 \<and> size b' = size b \<and> fd b' = fd b \<and> mapped b' = mapped b \<and> prefix_ok b' \<and>
    (\<forall>a. data b' a = (if a div BLOCK < size b div BLOCK then hash_byte sd a else data b a))"
proof -
  let ?n = "size b div BLOCK"
  let ?m = "\<lambda>a. if a div 128 < ?n then hash_byte sd a else data b a"
  let ?p = "(\<lambda>k. if k \<noteq> 0 \<and> k - 1 < ?n then block_sum sd (k - 1) else p0 k)(0 := 0)"
  have b': "b' = b\<lparr>data := ?m, pre := prefix_loop 0 ?n ?p\<rparr>" and r: "r = 0"
    using assms by (auto simp: fill_buffer_def fill_jobs_blocks fill_blocks_eq Let_def)
  have "prefix_loop 0 ?n ?p k = sum_words ?m 0 (32 * k)" if k: "k \<le> ?n" for k
  proof -
    have "sum_words ?m 0 (32 * k) = (\<Sum>b<k. block_sum sd b)"
      by (rule sum_words_block) (use k in \<open>auto simp: less_mult_imp_div_less mult.commute
          intro: order.strict_trans2\<close>)
    also have "\<dots> = (\<Sum>j\<in>{0<..k}. ?p j)"
      by (rule sum.reindex_bij_witness[where i = "\<lambda>j. j - 1" and j = Suc]) (use k in auto)
    finally show ?thesis using k by (auto simp: prefix_loop_eq)
  qed
  then show ?thesis using b' r by (simp add: prefix_ok_def BLOCK_def)
qed

lemma sum_range_eq:
  assumes "prefix_ok b" and "128 dvd a" and "128 dvd e" and "a \<le> e" and "e \<le> size b"
  shows "sum_range b a e = sum_words (data b) a ((e - a) div 4)"
proof -
  obtain i j where a: "a = 128 * i" and e: "e = 128 * (i + j)"
    using assms(2-4) by (metis add_diff_inverse_nat dvdE dvd_diff_nat not_less distrib_left)
  have "i + j \<le> size b div 128" using assms(5) e by (simp add: less_eq_div_iff_mult_less_eq mult.commute)
  then have "pre b (i + j) = sum_words (data b) 0 (32 * (i + j))" "pre b i = sum_words (data b) 0 (32 * i)"
    using assms(1) by (simp_all add: prefix_ok_def BLOCK_def)
  moreover have "sum_words (data b) 0 (32 * i + 32 * j) = sum_words (data b) 0 (32 * i) + sum_words (data b) (128 * i) (32 * j)"
    by (simp add: sum_words_add)
  ultimately show ?thesis by (simp add: sum_range_def BLOCK_def a e distrib_left)
qed

subsection \<open>The checksum of a reader\<close>

text \<open>
  The contract of every reader of the program: it reads \<open>n\<close> chunks of its part, starts again at the
  start of the part after the last of its \<open>per\<close> chunks, and adds all words of a chunk or, for a
  sample, its first 32 words.
\<close>

definition chunk_sum :: "mem \<Rightarrow> nat \<Rightarrow> nat \<Rightarrow> bool \<Rightarrow> nat \<Rightarrow> u32" where
  "chunk_sum m start chunk sample j =
     sum_words m (start + j * chunk) (if sample then 32 else chunk div 4)"

definition read_sum :: "mem \<Rightarrow> nat \<Rightarrow> nat \<Rightarrow> nat \<Rightarrow> bool \<Rightarrow> nat \<Rightarrow> u32" where
  "read_sum m start chunk per sample n = (\<Sum>k<n. chunk_sum m start chunk sample (k mod per))"

lemma sum_cycle:
  fixes f :: "nat \<Rightarrow> 'a::len word"
  assumes "0 < per"
  shows "(\<Sum>k<n. f (k mod per)) = of_nat (n div per) * (\<Sum>j<per. f j) + (\<Sum>j<n mod per. f j)"
proof -
  have pass: "(\<Sum>k<p * per. f (k mod per)) = of_nat p * (\<Sum>j<per. f j)" for p
    by (simp add: sum_lessThan_mult)
  have "(\<Sum>k<n. f (k mod per)) = (\<Sum>k<n div per * per + n mod per. f (k mod per))" by simp
  also have "\<dots> = of_nat (n div per) * (\<Sum>j<per. f j) + (\<Sum>j<n mod per. f ((n div per * per + j) mod per))"
    unfolding sum_lessThan_add pass ..
  also have "(\<Sum>j<n mod per. f ((n div per * per + j) mod per)) = (\<Sum>j<n mod per. f j)"
    by (rule sum.cong) (use assms in \<open>auto simp: mod_less[OF less_trans[OF _ mod_less_divisor]]\<close>)
  finally show ?thesis .
qed

lemma sample_loop_eq:
  assumes "j + n \<le> 2 ^ 64"
  shows "sample_loop b start chunk rm j n whole head =
     (whole + (\<Sum>k\<in>{j..<j + n}. sum_range b (unat start + k * unat chunk) (unat start + k * unat chunk + BLOCK)),
      head + (\<Sum>k\<in>{j..<min (j + n) (max j (unat rm))}. sum_range b (unat start + k * unat chunk) (unat start + k * unat chunk + BLOCK)))"
  using assms
proof (induction n arbitrary: j whole head)
  case 0
  show ?case by simp
next
  case (Suc n)
  have lt: "of_nat j < rm \<longleftrightarrow> j < unat rm" using Suc.prems by (simp add: word_less_nat_alt unat_of_nat)
  have "{j..<j + Suc n} = insert j {Suc j..<Suc j + n}" by auto
  moreover have "{j..<min (j + Suc n) (max j (unat rm))} =
      (if j < unat rm then insert j {Suc j..<min (Suc j + n) (max (Suc j) (unat rm))} else {})"
    by auto
  ultimately show ?case
    using Suc.prems by (simp add: Suc.IH Let_def lt add.assoc)
qed

lemma sum_range_chunk:
  assumes "prefix_ok b" and "128 dvd start" and "128 dvd chunk" and "start + j * chunk + 128 \<le> size b"
  shows "sum_range b (start + j * chunk) (start + j * chunk + BLOCK)
    = chunk_sum (data b) start chunk True j"
  using assms by (subst sum_range_eq) (auto simp: chunk_sum_def BLOCK_def)

lemma four_dvd_128: "4 dvd (128 :: nat)"
  by simp

lemma expected_sum_spec:
  fixes start len chunk :: u32 and chunks :: u64
  assumes ok: "prefix_ok b" and chunk: "0 < unat chunk" "128 dvd unat chunk" "128 dvd unat start"
    and len: "unat chunk \<le> unat len" "unat chunk dvd unat len" and fits: "unat start + unat len \<le> size b"
  shows "expected_sum b start len chunk chunks sample =
    Some (read_sum (data b) (unat start) (unat chunk) (unat len div unat chunk) sample (unat chunks))"
proof -
  define per where "per = unat len div unat chunk"
  define n where "n = unat chunks"
  have per: "0 < per" "per * unat chunk = unat len"
    using chunk(1) len by (simp_all add: per_def div_greater_zero_iff)
  have perw: "unat (ucast (len div chunk) :: u64) = per" "unat (len div chunk) = per"
    by (simp_all add: per_def unat_div unat_ucast_up)
  have nz: "chunk \<noteq> 0" "len div chunk \<noteq> 0" using chunk(1) per(1) perw(2) by auto
  have small: "k * unat chunk \<le> unat len" if "k \<le> per" for k
    using that per(2) by (metis mult_le_mono1)
  have rm: "unat (chunks mod ucast (len div chunk)) = n mod per"
    by (simp add: unat_mod perw n_def)
  have passes: "(ucast (chunks div ucast (len div chunk)) :: u32) = of_nat (n div per)"
    by (subst of_nat_unat[symmetric]) (simp add: unat_div perw n_def)
  let ?f = "chunk_sum (data b) (unat start) (unat chunk) sample"
  have goal: "read_sum (data b) (unat start) (unat chunk) per sample n
      = of_nat (n div per) * (\<Sum>j<per. ?f j) + (\<Sum>j<n mod per. ?f j)"
    by (simp add: read_sum_def sum_cycle[OF per(1)])
  show ?thesis
  proof (cases sample)
    case True
    have le: "n mod per \<le> per" using per(1) by (simp add: less_imp_le)
    have fit: "unat start + k * unat chunk + 128 \<le> size b" if "k < per" for k
      using small[of "Suc k"] that fits dvd_imp_le[OF chunk(2,1)] by simp
    have eq: "sum_range b (unat start + k * unat chunk) (unat start + k * unat chunk + BLOCK) = ?f k"
      if "k < per" for k
      using sum_range_chunk[OF ok chunk(3,2) fit[OF that]] True by simp
    have "sample_loop b start chunk (chunks mod ucast (len div chunk)) 0 per 0 0
        = ((\<Sum>j<per. ?f j), (\<Sum>j<n mod per. ?f j))"
    proof (subst sample_loop_eq)
      show "0 + per \<le> 2 ^ 64" using unat_lt2p[of "len div chunk"] perw(2) by simp
      have "min (0 + per) (max 0 (n mod per)) = n mod per" using le by simp
      moreover have "x < per" if "x < n mod per" for x using that le by simp
      ultimately show "(0 + (\<Sum>k\<in>{0..<0 + per}. sum_range b (unat start + k * unat chunk) (unat start + k * unat chunk + BLOCK)),
          0 + (\<Sum>k\<in>{0..<min (0 + per) (max 0 (unat (chunks mod ucast (len div chunk))))}.
            sum_range b (unat start + k * unat chunk) (unat start + k * unat chunk + BLOCK)))
        = ((\<Sum>j<per. ?f j), (\<Sum>j<n mod per. ?f j))"
        by (simp add: rm eq atLeast0LessThan)
    qed
    then show ?thesis
      using True nz goal by (simp add: expected_sum_def Let_def perw passes per_def[symmetric] n_def[symmetric])
  next
    case False
    have prod: "unat (chunks mod ucast (len div chunk) * ucast chunk) = n mod per * unat chunk"
    proof -
      have "n mod per * unat chunk \<le> unat len" by (rule small) (simp add: per(1) less_imp_le)
      also have "unat len < 2 ^ 64" using unat_lt2p[of len] by simp
      finally show ?thesis
        by (subst unat_mult_le) (simp_all add: rm unat_ucast_up)
    qed
    have mult: "(\<Sum>j<k. ?f j) = sum_words (data b) (unat start) (k * unat chunk div 4)" for k
    proof -
      obtain q where q: "unat chunk = 4 * q" using chunk(2) by (meson dvd_def dvd_trans four_dvd_128)
      then have e: "k * unat chunk div 4 = k * (unat chunk div 4)" by simp
      have f: "4 * (j * (unat chunk div 4)) = j * unat chunk" for j using q by simp
      show ?thesis unfolding e sum_words_mult f using False by (simp add: chunk_sum_def)
    qed
    have range: "sum_range b (unat start) (unat start + k * unat chunk) = (\<Sum>j<k. ?f j)" if "k \<le> per" for k
      using small[OF that] fits chunk by (subst sum_range_eq[OF ok]) (auto simp: mult)
    have "n mod per \<le> per" using per(1) by (simp add: less_imp_le)
    then show ?thesis
      using False nz goal range[of per] range[of "n mod per"] per(2)
      by (simp add: expected_sum_def Let_def prod passes per_def[symmetric] n_def[symmetric])
  qed
qed

subsection \<open>The hash is a permutation of the words\<close>

lemma xor_shift_inj:
  fixes x y :: u32
  assumes "x XOR drop_bit k x = y XOR drop_bit k y" and "0 < k"
  shows "x = y"
proof (rule bit_word_eqI)
  show "bit x n = bit y n" if "n < LENGTH(32)" for n
    using that
  proof (induction "32 - n" arbitrary: n rule: less_induct)
    case less
    have "bit x (k + n) = bit y (k + n)"
    proof (cases "k + n < 32")
      case True
      then show ?thesis using less assms(2) by simp
    next
      case False
      then show ?thesis using bit_imp_le_length[of x "k + n"] bit_imp_le_length[of y "k + n"] by auto
    qed
    moreover have "bit (x XOR drop_bit k x) n = bit (y XOR drop_bit k y) n" using assms(1) by simp
    ultimately show ?case by (auto simp: bit_xor_iff bit_drop_bit_eq)
  qed
qed

lemma mult_odd_inj:
  fixes x y c d :: u32
  assumes "x * c = y * c" and "c * d = 1"
  shows "x = y"
proof -
  have "x = x * c * d" using assms(2) by (simp add: mult.assoc)
  also have "\<dots> = y" using assms by (simp add: mult.assoc)
  finally show ?thesis .
qed

lemma mix32_inj: "mix32 x = mix32 y \<Longrightarrow> x = y"
  unfolding mix32_def Let_def
  by (drule xor_shift_inj, simp, drule mult_odd_inj[where d = "0x43021123"], simp,
      drule xor_shift_inj, simp, drule mult_odd_inj[where d = "0x1d69e2a5"], simp,
      drule xor_shift_inj, simp, assumption)

lemma hash_word_inj:
  assumes "i < 2 ^ 31" "k < 2 ^ 31" "hash_word sd i = hash_word sd k"
  shows "i = k"
proof -
  have "(of_nat i * 2 + sd :: u32) = of_nat k * 2 + sd"
    using assms(3) unfolding hash_word_def by (rule mix32_inj)
  then have "(of_nat (2 * i) :: u32) = of_nat (2 * k)" by (simp add: mult.commute)
  then have "unat (of_nat (2 * i) :: u32) = unat (of_nat (2 * k) :: u32)" by simp
  then show ?thesis using assms(1,2) by (simp add: unat_of_nat_less del: of_nat_mult)
qed

subsection \<open>Properties\<close>

lemma fill_jobs_any_order:
  assumes "set bs = {..<nblk}"
  shows "fill_blocks sd bs mp = fold fill_main (fill_jobs nblk sd) mp"
proof -
  have "fill_blocks sd bs (m, p) = fill_blocks sd [0..<nblk] (m, p)" for m p
    unfolding fill_blocks_eq using assms by (simp add: atLeast0LessThan)
  then show ?thesis unfolding fill_jobs_blocks by (cases mp) simp
qed

text \<open>\<open>fill_order_irrelevant\<close>: the eight threads of \<open>fill_buffer\<close> may interleave in each way.
  A list \<open>bs\<close> that holds each block of the buffer, in whatever order (and even more than once), gives the
  same bytes and the same block sums as the jobs one after the other.\<close>

theorem fill_order_irrelevant:
  assumes "set bs = {..<nblk}"
  shows "fill_blocks sd bs mp = fold fill_main (fill_jobs nblk sd) mp"
  by (rule fill_jobs_any_order[OF assms])

theorem fill_order_irrelevant_witness:
  "fill_blocks 7 [2, 0, 1] (\<lambda>_. 0, \<lambda>_. 0) = fold fill_main (fill_jobs 3 7) (\<lambda>_. 0, \<lambda>_. 0)"
  by (rule fill_order_irrelevant) auto

text \<open>C4. \<open>fill_then_expected\<close>: after a fill, \<open>expected_sum\<close> is the sum of the words that a reader of
  \<open>chunks\<close> chunks meets when it goes round its part, for whole chunks and for samples of 128 bytes. The
  closed form with passes and a rest, the wrap-around of the 32-bit sums and the prefix sums agree with
  the walk over the bytes of the buffer.\<close>

theorem fill_then_expected:
  fixes start len chunk :: u32 and chunks :: u64
  assumes "b' = snd (fill_buffer (Some p0) b sd)"
    and "0 < unat chunk" "128 dvd unat chunk" "128 dvd unat start"
    and "unat chunk \<le> unat len" "unat chunk dvd unat len" "unat start + unat len \<le> size b"
  shows "expected_sum b' start len chunk chunks sample =
    Some (read_sum (data b') (unat start) (unat chunk) (unat len div unat chunk) sample (unat chunks))"
proof -
  obtain r where r: "fill_buffer (Some p0) b sd = (r, b')" using assms(1) by (metis prod.collapse)
  from fill_buffer_cases[OF r] show ?thesis using assms by (intro expected_sum_spec) simp_all
qed

theorem fill_then_expected_witness:
  "let b' = snd (fill_buffer (Some (\<lambda>_. 0)) \<lparr>data = (\<lambda>_. 0), size = 1024, pre = (\<lambda>_. 0), fd = 3, mapped = False\<rparr> 9)
   in expected_sum b' 128 512 256 5 True = Some (read_sum (data b') 128 256 2 True 5)"
  unfolding Let_def
  using fill_then_expected[OF refl, of 256 128 512 "\<lparr>data = (\<lambda>_. 0), size = 1024, pre = (\<lambda>_. 0), fd = 3, mapped = False\<rparr>"
    "\<lambda>_. 0" 9 5 True]
  by simp

text \<open>\<open>fill_words_distinct\<close>: no two of the first \<open>2 ^ 31\<close> words that the fill writes are equal (a
  buffer has at most \<open>2 ^ 29\<close>), because \<open>mix32\<close> is injective. Thus a reader that reads one word twice
  and skips another cannot hide it behind equal data.\<close>

theorem fill_words_distinct: "inj mix32 \<and> inj_on (hash_word sd) {..<2 ^ 31}"
  by (intro conjI injI inj_onI) (auto intro: mix32_inj hash_word_inj)

end
