(* ===== verification/DmaQueue.thy ===== *)
theory DmaQueue
  imports Prelude
begin

text \<open>
  The interface of the DMA queue that the DSP library of the DDR probe uses. The queue itself
  (\<open>htp/dma-queue.h\<close> of the llama.cpp backend) is not in this repository, thus the reader of
  \<open>ddrbw_dsp.c\<close> takes it as a parameter. The locale \<open>dma_engine\<close> states what the reader relies on,
  in the words of \<open>tools/htp-lab/lab/lab-dma.h\<close>: a pop returns the descriptors in the order of the
  pushes, and the rows of a popped descriptor are in its destination. \<open>LabDma\<close> interprets the
  locale on the model of the shim of that header.
\<close>

subsection \<open>Descriptors\<close>

record dma_desc =
  ddst :: nat
  dsrc :: nat
  dst_stride :: nat
  src_stride :: nat
  row_size :: nat
  nrows :: nat

definition dst_span :: "dma_desc \<Rightarrow> nat set" where
  "dst_span d = {ddst d..<ddst d + nrows d * dst_stride d}"

definition src_span :: "dma_desc \<Rightarrow> nat set" where
  "src_span d = {dsrc d..<dsrc d + nrows d * src_stride d}"

text \<open>The rows of the descriptor are in the destination.\<close>

definition landed :: "dma_desc \<Rightarrow> mem \<Rightarrow> bool" where
  "landed d m \<longleftrightarrow> (\<forall>r < nrows d. \<forall>k < row_size d.
     m (ddst d + r * dst_stride d + k) = m (dsrc d + r * src_stride d + k))"

text \<open>
  A descriptor that a client may push while \<open>fl\<close> is in flight: its rows fit in their strides, and no
  destination overlaps another destination or a source.
\<close>

definition fresh :: "dma_desc \<Rightarrow> dma_desc list \<Rightarrow> bool" where
  "fresh d fl \<longleftrightarrow> row_size d \<le> dst_stride d \<and> row_size d \<le> src_stride d \<and>
     (\<forall>e \<in> set fl. dst_span d \<inter> dst_span e = {}) \<and>
     (\<forall>e \<in> set (d # fl). dst_span d \<inter> src_span e = {} \<and> src_span d \<inter> dst_span e = {})"

definition untouched :: "dma_desc list \<Rightarrow> mem \<Rightarrow> mem \<Rightarrow> bool" where
  "untouched fl m m' \<longleftrightarrow> (\<forall>a. a \<notin> (\<Union>e \<in> set fl. dst_span e) \<longrightarrow> m' a = m a)"

lemma row_in_span:
  fixes r n s k w :: nat
  assumes "r < n" "k < w" "w \<le> s"
  shows "r * s + k < n * s"
proof -
  have "r * s + k < Suc r * s" using assms(2,3) by simp
  also have "\<dots> \<le> n * s" using assms(1) by (intro mult_le_mono1) simp
  finally show ?thesis .
qed

lemma dst_row_in_span:
  "r < nrows d \<Longrightarrow> k < row_size d \<Longrightarrow> row_size d \<le> dst_stride d \<Longrightarrow> ddst d + r * dst_stride d + k \<in> dst_span d"
  using row_in_span[of r "nrows d" k "row_size d" "dst_stride d"] by (auto simp: dst_span_def)

lemma src_row_in_span:
  "r < nrows d \<Longrightarrow> k < row_size d \<Longrightarrow> row_size d \<le> src_stride d \<Longrightarrow> dsrc d + r * src_stride d + k \<in> src_span d"
  using row_in_span[of r "nrows d" k "row_size d" "src_stride d"] by (auto simp: src_span_def)

lemma landed_untouched:
  assumes "landed d m" and "row_size d \<le> dst_stride d" and "row_size d \<le> src_stride d"
    and "\<And>a. a \<in> dst_span d \<union> src_span d \<Longrightarrow> m' a = m a"
  shows "landed d m'"
  using assms dst_row_in_span[of _ d] src_row_in_span[of _ d] by (auto simp: landed_def)

text \<open>A burst: push each descriptor of a list, then pop as many.\<close>

fun push_all :: "(dma_desc \<Rightarrow> 's \<Rightarrow> bool \<times> 's) \<Rightarrow> dma_desc list \<Rightarrow> 's \<Rightarrow> bool \<times> 's" where
  "push_all push [] s = (True, s)"
| "push_all push (d # ds) s =
     (let (ok, s) = push d s; (oks, s) = push_all push ds s in (ok \<and> oks, s))"

fun pop_all :: "('s \<Rightarrow> (nat \<times> nat) \<times> 's) \<Rightarrow> nat \<Rightarrow> 's \<Rightarrow> (nat \<times> nat) list \<times> 's" where
  "pop_all pop 0 s = ([], s)"
| "pop_all pop (Suc n) s = (let (p, s) = pop s; (ps, s) = pop_all pop n s in (p # ps, s))"

fun fresh_all :: "dma_desc list \<Rightarrow> dma_desc list \<Rightarrow> bool" where
  "fresh_all [] fl \<longleftrightarrow> True"
| "fresh_all (d # ds) fl \<longleftrightarrow> fresh d fl \<and> fresh_all ds (fl @ [d])"

subsection \<open>The contract\<close>

locale dma_engine =
  fixes push :: "dma_desc \<Rightarrow> 's \<Rightarrow> bool \<times> 's"
    and pop :: "'s \<Rightarrow> (nat \<times> nat) \<times> 's"
    and vmem :: "'s \<Rightarrow> mem"
    and rep :: "'s \<Rightarrow> dma_desc list \<Rightarrow> bool"
    and cap :: nat
  assumes push_law: "rep s fl \<Longrightarrow> length fl < cap \<Longrightarrow> fresh d fl \<Longrightarrow>
      \<exists>s'. push d s = (True, s') \<and> rep s' (fl @ [d]) \<and> untouched (fl @ [d]) (vmem s) (vmem s')"
    and pop_law: "rep s (d # fl) \<Longrightarrow>
      \<exists>s'. pop s = ((ddst d, dsrc d), s') \<and> rep s' fl \<and> landed d (vmem s')
        \<and> untouched (d # fl) (vmem s) (vmem s')"
begin

lemma push_rep:
  assumes "rep s fl" "length fl < cap" "fresh d fl" "push d s = (ok, s')"
  shows "ok" "rep s' (fl @ [d])" "untouched (fl @ [d]) (vmem s) (vmem s')"
  using push_law[OF assms(1-3)] assms(4) by auto

lemma pop_rep:
  assumes "rep s (d # fl)" "pop s = (p, s')"
  shows "p = (ddst d, dsrc d)" "rep s' fl" "landed d (vmem s')" "untouched (d # fl) (vmem s) (vmem s')"
  using pop_law[OF assms(1)] assms(2) by auto

lemma push_all_rep:
  assumes "rep s fl" "length fl + length ds \<le> cap" "fresh_all ds fl"
  shows "fst (push_all push ds s) \<and> rep (snd (push_all push ds s)) (fl @ ds)"
  using assms
proof (induction ds arbitrary: s fl)
  case Nil
  then show ?case by simp
next
  case (Cons d ds)
  obtain ok s' where p: "push d s = (ok, s')" by fastforce
  have len: "length fl < cap" and fr: "fresh d fl" using Cons.prems by simp_all
  note r = push_rep[OF Cons.prems(1) len fr p]
  show ?case
    using Cons.IH[OF r(2)] Cons.prems r(1) by (simp add: p case_prod_beta Let_def)
qed

lemma pop_all_rep:
  assumes "rep s fl"
  shows "fst (pop_all pop (length fl) s) = map (\<lambda>d. (ddst d, dsrc d)) fl \<and> rep (snd (pop_all pop (length fl) s)) []"
  using assms
proof (induction fl arbitrary: s)
  case Nil
  then show ?case by simp
next
  case (Cons d fl)
  obtain p s' where p: "pop s = (p, s')" by fastforce
  show ?case
    using Cons.IH[OF pop_rep(2)[OF Cons.prems p]] pop_rep(1)[OF Cons.prems p]
    by (simp add: p case_prod_beta Let_def)
qed

lemma burst:
  assumes "rep s []" "length ds \<le> cap" "fresh_all ds []" "push_all push ds s = (ok, s')"
  shows "ok \<and> fst (pop_all pop (length ds) s') = map (\<lambda>d. (ddst d, dsrc d)) ds"
  using push_all_rep[OF assms(1) _ assms(3)] assms(2,4) pop_all_rep[of s' ds] by simp

end

end
