(* ===== verification/LabDma.thy ===== *)
theory LabDma
  imports DmaQueue
begin

text \<open>
  The DMA shim of the kernel lab (\<open>tools/htp-lab/lab/lab-dma.h\<close>): the queue of descriptors as a ring
  of \<open>LAB_DMA_CAPACITY\<close> entries, the push that copies the rows at once, the pop, the counters of the
  hardware threads with the fault of a second ring, and the line cache of a mask. The last part
  interprets the locale \<open>dma_engine\<close> on this queue.

  A queue has an identity (its address in C), thus the state maps identities to queues. The
  messages that the shim prints are not modelled.
\<close>

subsection \<open>The state\<close>

definition LAB_DMA_CAPACITY :: u32 where "LAB_DMA_CAPACITY = 256"
definition LAB_DMA_THREADS :: u32 where "LAB_DMA_THREADS = 32"
definition DMA_CACHE_MAX_SIZE :: u32 where "DMA_CACHE_MAX_SIZE = 128"

record dma_queue =
  ptr :: "nat \<Rightarrow> nat \<times> nat"
  push_idx :: u32
  pop_idx :: u32

record lab_dma =
  queues :: "nat \<Rightarrow> dma_queue"
  lab_last :: "nat \<Rightarrow> nat option"
  ring_violations :: u32
  push_count :: "nat \<Rightarrow> u64"
  row_count :: "nat \<Rightarrow> u64"
  dma_copy :: bool
  lmem :: mem

definition dma_queue_depth :: "dma_queue \<Rightarrow> u32" where
  "dma_queue_depth q = push_idx q - pop_idx q"

definition dma_queue_init :: "nat \<Rightarrow> lab_dma \<Rightarrow> lab_dma" where
  "dma_queue_init q st = st\<lparr>queues := (queues st)(q := \<lparr>ptr = (\<lambda>_. (0, 0)), push_idx = 0, pop_idx = 0\<rparr>)\<rparr>"

subsection \<open>One ring for each hardware thread\<close>

definition lab_dma_note_push :: "u32 \<Rightarrow> nat \<Rightarrow> nat \<Rightarrow> lab_dma \<Rightarrow> lab_dma" where
  "lab_dma_note_push tnum q nr st =
     (let tid = unat (tnum AND (LAB_DMA_THREADS - 1));
          st = (if lab_last st tid \<noteq> Some q
            then (case lab_last st tid of
                None \<Rightarrow> st
              | Some l \<Rightarrow> if dma_queue_depth (queues st l) > 0
                  then st\<lparr>ring_violations := ring_violations st + 1\<rparr> else st)
              \<lparr>lab_last := (lab_last st)(tid := Some q)\<rparr>
            else st)
      in st\<lparr>push_count := (push_count st)(tid := push_count st tid + 1),
            row_count := (row_count st)(tid := row_count st tid + of_nat nr)\<rparr>)"

definition lab_dma_pushes :: "lab_dma \<Rightarrow> u64" where
  "lab_dma_pushes st = (\<Sum>i<unat LAB_DMA_THREADS. push_count st i)"

definition lab_dma_rows :: "lab_dma \<Rightarrow> u64" where
  "lab_dma_rows st = (\<Sum>i<unat LAB_DMA_THREADS. row_count st i)"

definition lab_dma_reset :: "lab_dma \<Rightarrow> lab_dma" where
  "lab_dma_reset st =
     st\<lparr>lab_last := (\<lambda>i. if i < unat LAB_DMA_THREADS then None else lab_last st i),
        push_count := (\<lambda>i. if i < unat LAB_DMA_THREADS then 0 else push_count st i),
        row_count := (\<lambda>i. if i < unat LAB_DMA_THREADS then 0 else row_count st i),
        ring_violations := 0\<rparr>"

subsection \<open>Push and pop\<close>

definition memcpy :: "mem \<Rightarrow> nat \<Rightarrow> nat \<Rightarrow> nat \<Rightarrow> mem" where
  "memcpy m dst src n = (\<lambda>a. if dst \<le> a \<and> a < dst + n then m (src + (a - dst)) else m a)"

fun copy_rows :: "dma_desc \<Rightarrow> nat \<Rightarrow> nat \<Rightarrow> mem \<Rightarrow> mem" where
  "copy_rows d r 0 m = m"
| "copy_rows d r (Suc n) m =
     copy_rows d (Suc r) n (memcpy m (ddst d + r * dst_stride d) (dsrc d + r * src_stride d) (row_size d))"

definition dma_queue_push :: "u32 \<Rightarrow> nat \<Rightarrow> dma_desc \<Rightarrow> lab_dma \<Rightarrow> bool \<times> lab_dma" where
  "dma_queue_push tnum qid d st =
     (if dma_queue_depth (queues st qid) \<ge> LAB_DMA_CAPACITY then (False, st)
      else
        let st = lab_dma_note_push tnum qid (nrows d) st;
            st = (if dma_copy st then st\<lparr>lmem := copy_rows d 0 (nrows d) (lmem st)\<rparr> else st);
            q = queues st qid;
            q = q\<lparr>ptr := (ptr q)(unat (push_idx q AND (LAB_DMA_CAPACITY - 1)) := (ddst d, dsrc d)),
                  push_idx := push_idx q + 1\<rparr>
        in (True, st\<lparr>queues := (queues st)(qid := q)\<rparr>))"

definition dma_queue_pop :: "nat \<Rightarrow> lab_dma \<Rightarrow> (nat \<times> nat) \<times> lab_dma" where
  "dma_queue_pop qid st =
     (let q = queues st qid in
      if pop_idx q = push_idx q then ((0, 0), st)
      else (ptr q (unat (pop_idx q AND (LAB_DMA_CAPACITY - 1))),
            st\<lparr>queues := (queues st)(qid := q\<lparr>pop_idx := pop_idx q + 1\<rparr>)\<rparr>))"

definition dma_queue_empty :: "nat \<Rightarrow> lab_dma \<Rightarrow> bool" where
  "dma_queue_empty qid st \<longleftrightarrow> push_idx (queues st qid) = pop_idx (queues st qid)"

definition dma_queue_flush :: "nat \<Rightarrow> lab_dma \<Rightarrow> lab_dma" where
  "dma_queue_flush qid st =
     st\<lparr>queues := (queues st)(qid := (queues st qid)\<lparr>pop_idx := push_idx (queues st qid)\<rparr>)\<rparr>"

subsection \<open>The line cache\<close>

record dma_cache =
  cbase :: nat
  line_size :: u32
  capacity :: u32
  csrc :: "nat \<Rightarrow> u32"
  age :: "nat \<Rightarrow> u16"

definition dma_cache_init :: "dma_cache \<Rightarrow> nat \<Rightarrow> u32 \<Rightarrow> u32 \<Rightarrow> dma_cache" where
  "dma_cache_init c base ls cp =
     (let cp = (if cp > DMA_CACHE_MAX_SIZE then DMA_CACHE_MAX_SIZE else cp)
      in c\<lparr>capacity := cp, cbase := base, line_size := ls,
           csrc := (\<lambda>i. if i < unat cp then 0 else csrc c i),
           age := (\<lambda>i. if i < unat cp then 0 else age c i)\<rparr>)"

text \<open>
  The scan of \<open>dma_cache_push\<close> from line \<open>i\<close>, \<open>n\<close> lines: a hit clears the age and gives the line, a
  miss ages the line and keeps the oldest one. The result is the hit line and the oldest line with
  its age.
\<close>

fun cache_scan :: "u32 \<Rightarrow> nat \<Rightarrow> nat \<Rightarrow> dma_cache \<Rightarrow> nat option \<Rightarrow> nat \<Rightarrow> u16 \<Rightarrow> dma_cache \<times> nat option \<times> nat" where
  "cache_scan src i 0 c hit o_idx o_age = (c, hit, o_idx)"
| "cache_scan src i (Suc n) c hit o_idx o_age =
     (if csrc c i = src
      then cache_scan src (Suc i) n (c\<lparr>age := (age c)(i := 0)\<rparr>) (Some i) o_idx o_age
      else
        let a = age c i + 1; c = c\<lparr>age := (age c)(i := a)\<rparr>
        in if a > o_age then cache_scan src (Suc i) n c hit i a
           else cache_scan src (Suc i) n c hit o_idx o_age)"

text \<open>
  \<open>dma_cache_push\<close>: the null test of the C code on \<open>dst\<close> is the test for a hit (the base of a cache
  is not null). The pointer \<open>src\<close> has 32 bits on the DSP.
\<close>

definition dma_cache_push ::
  "u32 \<Rightarrow> nat \<Rightarrow> dma_cache \<Rightarrow> u32 \<Rightarrow> nat \<Rightarrow> nat \<Rightarrow> nat \<Rightarrow> nat \<Rightarrow> lab_dma \<Rightarrow> bool \<times> dma_cache \<times> lab_dma" where
  "dma_cache_push tnum qid c src ds ss rs nr st =
     (let (c, hit, o_idx) = cache_scan src 0 (unat (capacity c)) c None 0 0;
          (line, nr, c) = (case hit of
             Some i \<Rightarrow> (i, 0, c)
           | None \<Rightarrow> (o_idx, nr, c\<lparr>age := (age c)(o_idx := 0), csrc := (csrc c)(o_idx := src)\<rparr>));
          (ok, st) = dma_queue_push tnum qid
             \<lparr>ddst = cbase c + unat (of_nat line * line_size c), dsrc = unat src,
              dst_stride = ds, src_stride = ss, row_size = rs, nrows = nr\<rparr> st
      in (ok, c, st))"

subsection \<open>The ring holds its descriptors in order\<close>

definition contents :: "dma_queue \<Rightarrow> (nat \<times> nat) list" where
  "contents q = map (\<lambda>k. ptr q (unat ((pop_idx q + of_nat k) AND (LAB_DMA_CAPACITY - 1))))
     [0..<unat (dma_queue_depth q)]"

lemma slot_eq: "unat ((p + of_nat k) AND (LAB_DMA_CAPACITY - 1)) = (unat p + k) mod 256"
proof -
  have "LAB_DMA_CAPACITY - 1 = mask 8" by (simp add: LAB_DMA_CAPACITY_def mask_eq_exp_minus_1)
  then have "unat ((p + of_nat k) AND (LAB_DMA_CAPACITY - 1)) = unat (p + of_nat k) mod 256"
    by (simp add: take_bit_eq_mask[symmetric] unsigned_take_bit_eq take_bit_eq_mod unat_mod)
  also have "\<dots> = (unat p + k) mod 256"
    by (simp add: unat_word_ariths unat_of_nat mod_mod_cancel mod_simps)
  finally show ?thesis .
qed

lemma depth_push:
  assumes "dma_queue_depth q < LAB_DMA_CAPACITY"
  shows "unat (push_idx q + 1 - pop_idx q) = Suc (unat (dma_queue_depth q))"
proof -
  have "push_idx q + 1 - pop_idx q = dma_queue_depth q + 1" by (simp add: dma_queue_depth_def)
  moreover have "unat (dma_queue_depth q) < 256" using assms by (simp add: LAB_DMA_CAPACITY_def word_less_nat_alt)
  ultimately show ?thesis by (simp only:) (subst unat_add_le, simp_all)
qed

lemma mod_256_neq:
  fixes p k n :: nat
  assumes "k < n" "n < 256"
  shows "(p + k) mod 256 \<noteq> (p + n) mod 256"
proof
  assume "(p + k) mod 256 = (p + n) mod 256"
  then have "256 dvd n - k" using assms(1) mod_eq_dvd_iff_nat[of "p + k" "p + n" 256] by simp
  then show False using assms by (auto dest: dvd_imp_le)
qed

lemma contents_push:
  assumes "dma_queue_depth q < LAB_DMA_CAPACITY"
  shows "contents (q\<lparr>ptr := (ptr q)(unat (push_idx q AND (LAB_DMA_CAPACITY - 1)) := x), push_idx := push_idx q + 1\<rparr>)
    = contents q @ [x]"
proof -
  let ?n = "unat (dma_queue_depth q)"
  have n: "?n < 256" using assms by (simp add: LAB_DMA_CAPACITY_def word_less_nat_alt)
  have push: "push_idx q = pop_idx q + of_nat ?n" by (simp add: dma_queue_depth_def)
  have last: "unat (push_idx q AND (LAB_DMA_CAPACITY - 1)) = (unat (pop_idx q) + ?n) mod 256"
    unfolding push by (rule slot_eq)
  have d: "dma_queue_depth (q\<lparr>ptr := f, push_idx := push_idx q + 1\<rparr>) = push_idx q + 1 - pop_idx q" for f
    by (simp add: dma_queue_depth_def)
  show ?thesis
    unfolding contents_def d depth_push[OF assms] last
    using mod_256_neq[OF _ n, of _ "unat (pop_idx q)"] by (simp add: slot_eq)
qed

lemma contents_pop:
  assumes "pop_idx q \<noteq> push_idx q"
  shows "contents q = ptr q (unat (pop_idx q AND (LAB_DMA_CAPACITY - 1))) # contents (q\<lparr>pop_idx := pop_idx q + 1\<rparr>)"
proof -
  have "dma_queue_depth q \<noteq> 0" using assms by (simp add: dma_queue_depth_def)
  then obtain n where n: "unat (dma_queue_depth q) = Suc n" by (metis not0_implies_Suc unat_eq_zero)
  have "unat (dma_queue_depth (q\<lparr>pop_idx := pop_idx q + 1\<rparr>)) = n"
  proof -
    have "dma_queue_depth (q\<lparr>pop_idx := pop_idx q + 1\<rparr>) = dma_queue_depth q - 1"
      by (simp add: dma_queue_depth_def)
    then show ?thesis using n by (simp add: unat_minus_one[OF \<open>dma_queue_depth q \<noteq> 0\<close>])
  qed
  then show ?thesis
    by (simp add: contents_def n upt_conv_Cons map_Suc_upt[symmetric] del: upt_Suc)
       (simp add: add_ac comp_def)
qed

subsection \<open>The copy of a push\<close>

lemma copy_rows_frame:
  assumes "row_size d \<le> dst_stride d"
    and "a < ddst d + r * dst_stride d \<or> ddst d + (r + n) * dst_stride d \<le> a"
  shows "copy_rows d r n m a = m a"
  using assms
proof (induction n arbitrary: r m)
  case 0
  show ?case by simp
next
  case (Suc n)
  have "copy_rows d r (Suc n) m a = memcpy m (ddst d + r * dst_stride d) (dsrc d + r * src_stride d) (row_size d) a"
    using Suc.prems by (simp only: copy_rows.simps, intro Suc.IH) auto
  also have "\<dots> = m a" using Suc.prems by (auto simp: memcpy_def add_mult_distrib)
  finally show ?case .
qed

lemma copy_rows_data:
  assumes "row_size d \<le> dst_stride d" "row_size d \<le> src_stride d" "src_span d \<inter> dst_span d = {}"
    and "r + n \<le> nrows d" "r \<le> j" "j < r + n" "k < row_size d"
  shows "copy_rows d r n m (ddst d + j * dst_stride d + k) = m (dsrc d + j * src_stride d + k)"
  using assms(4-6)
proof (induction n arbitrary: r m)
  case 0
  then show ?case by simp
next
  case (Suc n)
  let ?m = "memcpy m (ddst d + r * dst_stride d) (dsrc d + r * src_stride d) (row_size d)"
  show ?case
  proof (cases "j = r")
    case True
    have "copy_rows d (Suc r) n ?m (ddst d + j * dst_stride d + k) = ?m (ddst d + j * dst_stride d + k)"
      using assms(1,7) True by (intro copy_rows_frame) auto
    then show ?thesis using True assms(7) by (simp add: memcpy_def)
  next
    case False
    have row: "ddst d + r * dst_stride d + i \<in> dst_span d" if "i < row_size d" for i
      using that Suc.prems assms(1) by (intro dst_row_in_span) auto
    have src: "dsrc d + j * src_stride d + k \<in> src_span d"
      using Suc.prems assms(2,7) by (intro src_row_in_span) auto
    have "copy_rows d (Suc r) n ?m (ddst d + j * dst_stride d + k) = ?m (dsrc d + j * src_stride d + k)"
      using False Suc.prems by (intro Suc.IH) auto
    moreover have "\<not> (ddst d + r * dst_stride d \<le> dsrc d + j * src_stride d + k \<and>
        dsrc d + j * src_stride d + k < ddst d + r * dst_stride d + row_size d)"
      using row[of "dsrc d + j * src_stride d + k - (ddst d + r * dst_stride d)"] src assms(3) by auto
    ultimately show ?thesis by (simp add: memcpy_def)
  qed
qed

subsection \<open>The shim keeps the contract\<close>

definition lab_rep :: "nat \<Rightarrow> lab_dma \<Rightarrow> dma_desc list \<Rightarrow> bool" where
  "lab_rep qid st fl \<longleftrightarrow> dma_copy st \<and> contents (queues st qid) = map (\<lambda>d. (ddst d, dsrc d)) fl \<and>
     (\<forall>d \<in> set fl. landed d (lmem st) \<and> row_size d \<le> dst_stride d \<and> row_size d \<le> src_stride d)"

lemma note_push_frame [simp]:
  "queues (lab_dma_note_push t q n st) = queues st" "dma_copy (lab_dma_note_push t q n st) = dma_copy st"
  "lmem (lab_dma_note_push t q n st) = lmem st"
  by (auto simp: lab_dma_note_push_def Let_def split: option.split)

lemma lab_push_law:
  assumes rep: "lab_rep qid st fl" and len: "length fl < 256" and fresh: "fresh d fl"
  shows "\<exists>st'. dma_queue_push t qid d st = (True, st') \<and> lab_rep qid st' (fl @ [d]) \<and>
    untouched (fl @ [d]) (lmem st) (lmem st')"
proof -
  let ?m = "copy_rows d 0 (nrows d) (lmem st)"
  have strides: "row_size d \<le> dst_stride d" "row_size d \<le> src_stride d" "src_span d \<inter> dst_span d = {}"
    using fresh by (auto simp: fresh_def)
  have "length (contents (queues st qid)) = length fl" using rep by (simp add: lab_rep_def)
  then have depth: "dma_queue_depth (queues st qid) < LAB_DMA_CAPACITY"
    using len by (simp add: contents_def LAB_DMA_CAPACITY_def word_less_nat_alt)
  have frame: "?m a = lmem st a" if "a \<notin> dst_span d" for a
    using that strides(1) by (intro copy_rows_frame) (auto simp: dst_span_def)
  have "landed d ?m"
    unfolding landed_def
  proof (intro allI impI)
    fix r k assume rk: "r < nrows d" "k < row_size d"
    have "?m (ddst d + r * dst_stride d + k) = lmem st (dsrc d + r * src_stride d + k)"
      using rk strides by (intro copy_rows_data) simp_all
    also have "\<dots> = ?m (dsrc d + r * src_stride d + k)"
      using src_row_in_span[OF rk strides(2)] strides(3) by (intro frame[symmetric]) blast
    finally show "?m (ddst d + r * dst_stride d + k) = ?m (dsrc d + r * src_stride d + k)" .
  qed
  moreover have "landed e ?m" if e: "e \<in> set fl" for e
  proof (rule landed_untouched)
    show "landed e (lmem st)" "row_size e \<le> dst_stride e" "row_size e \<le> src_stride e"
      using rep e by (simp_all add: lab_rep_def)
    fix a assume "a \<in> dst_span e \<union> src_span e"
    moreover have "dst_span d \<inter> dst_span e = {}" "dst_span d \<inter> src_span e = {}"
      using fresh e by (simp_all add: fresh_def)
    ultimately show "?m a = lmem st a" by (intro frame) blast
  qed
  moreover define q where "q = queues st qid"
  define st' where "st' = (lab_dma_note_push t qid (nrows d) st)\<lparr>lmem := ?m,
    queues := (queues st)(qid := q\<lparr>ptr := (ptr q)(unat (push_idx q AND (LAB_DMA_CAPACITY - 1)) := (ddst d, dsrc d)),
      push_idx := push_idx q + 1\<rparr>)\<rparr>"
  have "dma_queue_push t qid d st = (True, st')"
  proof -
    have "\<not> LAB_DMA_CAPACITY \<le> dma_queue_depth (queues st qid)" using depth by (simp add: not_le)
    moreover have "dma_copy st" using rep by (simp add: lab_rep_def)
    ultimately show ?thesis by (simp add: dma_queue_push_def Let_def st'_def q_def)
  qed
  moreover have "contents (queues st' qid) = contents q @ [(ddst d, dsrc d)]"
    using contents_push[of q "(ddst d, dsrc d)"] depth by (simp add: st'_def q_def)
  ultimately show ?thesis
    using rep strides(1,2) frame by (intro exI[of _ st']) (simp add: lab_rep_def untouched_def st'_def q_def)
qed

lemma lab_pop_law:
  assumes rep: "lab_rep qid st (d # fl)"
  shows "\<exists>st'. dma_queue_pop qid st = ((ddst d, dsrc d), st') \<and> lab_rep qid st' fl \<and>
    landed d (lmem st') \<and> untouched (d # fl) (lmem st) (lmem st')"
proof -
  have ne: "pop_idx (queues st qid) \<noteq> push_idx (queues st qid)"
    using rep by (auto simp: lab_rep_def contents_def dma_queue_depth_def)
  show ?thesis
    using rep ne contents_pop[OF ne]
    by (auto simp: dma_queue_pop_def Let_def lab_rep_def untouched_def)
qed

interpretation lab: dma_engine "dma_queue_push t qid" "dma_queue_pop qid" lmem "lab_rep qid" 256
  for t qid
  by unfold_locales (blast intro: lab_push_law lab_pop_law)+

lemma lab_rep_init:
  "dma_copy st \<Longrightarrow> lab_rep qid (dma_queue_init qid st) []"
  by (simp add: lab_rep_def dma_queue_init_def contents_def dma_queue_depth_def)

subsection \<open>The line cache finds and replaces lines\<close>

lemma cache_scan_step:
  "\<exists>x o1 a1. (o1 = o_idx \<or> o1 = i) \<and> cache_scan src i (Suc n) c hit o_idx o_age =
     cache_scan src (Suc i) n (c\<lparr>age := (age c)(i := x)\<rparr>) (if csrc c i = src then Some i else hit) o1 a1"
proof (cases "csrc c i = src")
  case True
  then have "cache_scan src i (Suc n) c hit o_idx o_age =
     cache_scan src (Suc i) n (c\<lparr>age := (age c)(i := 0)\<rparr>) (if csrc c i = src then Some i else hit) o_idx o_age" by simp
  then show ?thesis by blast
next
  case False
  then have "cache_scan src i (Suc n) c hit o_idx o_age =
     cache_scan src (Suc i) n (c\<lparr>age := (age c)(i := age c i + 1)\<rparr>) (if csrc c i = src then Some i else hit)
       (if age c i + 1 > o_age then i else o_idx) (if age c i + 1 > o_age then age c i + 1 else o_age)"
    by (simp add: Let_def)
  then show ?thesis
    by (intro exI[of _ "age c i + 1"] exI[of _ "if age c i + 1 > o_age then i else o_idx"]
        exI[of _ "if age c i + 1 > o_age then age c i + 1 else o_age"]) simp
qed

lemma cache_scan_result:
  assumes "cache_scan src i n c hit o_idx o_age = (c', hit', o')"
  shows "csrc c' = csrc c \<and> cbase c' = cbase c \<and> line_size c' = line_size c \<and> capacity c' = capacity c \<and>
    (o' = o_idx \<or> i \<le> o' \<and> o' < i + n) \<and>
    ((hit' = hit \<and> (\<forall>k. i \<le> k \<and> k < i + n \<longrightarrow> csrc c k \<noteq> src)) \<or>
     (\<exists>k. hit' = Some k \<and> i \<le> k \<and> k < i + n \<and> csrc c k = src))"
  using assms
proof (induction n arbitrary: i c hit o_idx o_age)
  case 0
  then show ?case by auto
next
  case (Suc n)
  have range: "i \<le> k \<and> k < i + Suc n \<longleftrightarrow> k = i \<or> Suc i \<le> k \<and> k < Suc i + n" for k by auto
  obtain x o1 a1 where "o1 = o_idx \<or> o1 = i" and
    step: "cache_scan src (Suc i) n (c\<lparr>age := (age c)(i := x)\<rparr>) (if csrc c i = src then Some i else hit) o1 a1 = (c', hit', o')"
    using cache_scan_step[of o_idx i src n c hit o_age] unfolding Suc.prems by metis
  then show ?case using Suc.IH[OF step] unfolding range by (cases "csrc c i = src") auto
qed

lemma cache_scan_frame:
  assumes "cache_scan src i n c hit o_idx o_age = (c', hit', o')"
  shows "csrc c' = csrc c" "cbase c' = cbase c" "line_size c' = line_size c" "capacity c' = capacity c"
  using cache_scan_result[OF assms] by blast+

lemma cache_scan_hit:
  assumes "cache_scan src i n c hit o_idx o_age = (c', hit', o')"
  shows "(hit' = hit \<and> (\<forall>k. i \<le> k \<and> k < i + n \<longrightarrow> csrc c k \<noteq> src)) \<or>
    (\<exists>k. hit' = Some k \<and> i \<le> k \<and> k < i + n \<and> csrc c k = src)"
  using cache_scan_result[OF assms] by blast

lemma cache_scan_old:
  assumes "cache_scan src i n c hit o_idx o_age = (c', hit', o')"
  shows "o' = o_idx \<or> i \<le> o' \<and> o' < i + n"
  using cache_scan_result[OF assms] by blast

text \<open>The lines of a cache hold different sources, but for the lines not yet used.\<close>

definition cache_ok :: "dma_cache \<Rightarrow> bool" where
  "cache_ok c \<longleftrightarrow> (\<forall>i < unat (capacity c). \<forall>k < unat (capacity c).
     i \<noteq> k \<longrightarrow> csrc c i = csrc c k \<longrightarrow> csrc c i = 0)"

definition cached :: "dma_cache \<Rightarrow> u32 \<Rightarrow> bool" where
  "cached c src \<longleftrightarrow> (\<exists>i < unat (capacity c). csrc c i = src)"

lemma cache_ok_update:
  assumes "cache_ok c" "\<not> cached c src" "capacity c' = capacity c" "csrc c' = (csrc c)(k := src)"
  shows "cache_ok c'"
  using assms by (auto simp: cache_ok_def cached_def)

lemma dma_queue_push_contents:
  assumes "dma_queue_depth (queues st qid) < LAB_DMA_CAPACITY"
  shows "fst (dma_queue_push t qid d st) \<and>
    contents (queues (snd (dma_queue_push t qid d st)) qid) = contents (queues st qid) @ [(ddst d, dsrc d)] \<and>
    (nrows d = 0 \<longrightarrow> lmem (snd (dma_queue_push t qid d st)) = lmem st)"
  using assms contents_push[OF assms, of "(ddst d, dsrc d)"] by (simp add: dma_queue_push_def Let_def not_le)

lemma dma_cache_push_line:
  assumes ok: "cache_ok c" and cap: "0 < unat (capacity c)" and room: "dma_queue_depth (queues st qid) < LAB_DMA_CAPACITY"
    and push: "dma_cache_push t qid c src ds ss rs nr st = (r, c', st')"
  shows "r \<and> cache_ok c' \<and> capacity c' = capacity c \<and> (cached c src \<longrightarrow> lmem st' = lmem st \<and> csrc c' = csrc c) \<and>
    (\<exists>line < unat (capacity c). csrc c' line = src \<and> contents (queues st' qid)
        = contents (queues st qid) @ [(cbase c + unat (of_nat line * line_size c), unat src)])"
proof -
  obtain c1 hit o1 where scan: "cache_scan src 0 (unat (capacity c)) c None 0 0 = (c1, hit, o1)" by (metis prod_cases3)
  note fr = cache_scan_frame[OF scan]
  show ?thesis
  proof (cases hit)
    case None
    then have new: "\<not> cached c src"
      using cache_scan_hit[OF scan] by (auto simp: cached_def)
    have o1: "o1 < unat (capacity c)" using cache_scan_old[OF scan] cap by auto
    let ?d = "\<lparr>ddst = cbase c + unat (of_nat o1 * line_size c), dsrc = unat src, dst_stride = ds, src_stride = ss,
      row_size = rs, nrows = nr\<rparr>"
    have c': "c' = c1\<lparr>age := (age c1)(o1 := 0), csrc := (csrc c1)(o1 := src)\<rparr>"
      and q: "dma_queue_push t qid ?d st = (r, st')"
      using push by (auto simp: dma_cache_push_def scan None Let_def fr split: prod.splits)
    have "cache_ok c'" using ok new by (rule cache_ok_update[where k = o1]) (simp_all add: c' fr)
    then show ?thesis
      using dma_queue_push_contents[OF room, of t ?d] new o1 q by (auto simp: c' fr)
  next
    case (Some k)
    then have k: "k < unat (capacity c)" "csrc c k = src" using cache_scan_hit[OF scan] by auto
    let ?d = "\<lparr>ddst = cbase c + unat (of_nat k * line_size c), dsrc = unat src, dst_stride = ds, src_stride = ss,
      row_size = rs, nrows = 0\<rparr>"
    have c': "c' = c1" and q: "dma_queue_push t qid ?d st = (r, st')"
      using push by (auto simp: dma_cache_push_def scan Some Let_def fr split: prod.splits)
    have "cache_ok c'" using ok by (simp add: cache_ok_def c' fr)
    then show ?thesis
      using dma_queue_push_contents[OF room, of t ?d] k q by (auto simp: c' fr)
  qed
qed

lemma dma_cache_init_ok: "cache_ok (dma_cache_init c base ls cp)"
  by (simp add: cache_ok_def dma_cache_init_def Let_def)

subsection \<open>Properties\<close>

definition lab_example :: "nat \<Rightarrow> lab_dma" where
  "lab_example qid = dma_queue_init qid \<lparr>queues = (\<lambda>_. \<lparr>ptr = \<lambda>_. (0, 0), push_idx = 0, pop_idx = 0\<rparr>),
     lab_last = (\<lambda>_. None), ring_violations = 0, push_count = (\<lambda>_. 0), row_count = (\<lambda>_. 0), dma_copy = True,
     lmem = of_nat\<rparr>"

lemma lab_rep_example: "lab_rep qid (lab_example qid) []"
  unfolding lab_example_def by (rule lab_rep_init) simp



text \<open>C37. \<open>dma_cache_line\<close>: a push through the line cache leaves the source in exactly one line and queues
  the descriptor of that line. A source that a line holds already moves no row and replaces no line.\<close>

theorem dma_cache_line:
  assumes "cache_ok c" "0 < unat (capacity c)" "dma_queue_depth (queues st qid) < LAB_DMA_CAPACITY"
    and "dma_cache_push t qid c src ds ss rs nr st = (r, c', st')"
  shows "r \<and> cache_ok c' \<and> capacity c' = capacity c \<and> (cached c src \<longrightarrow> lmem st' = lmem st \<and> csrc c' = csrc c) \<and>
    (\<exists>line < unat (capacity c). csrc c' line = src \<and> contents (queues st' qid)
        = contents (queues st qid) @ [(cbase c + unat (of_nat line * line_size c), unat src)])"
  using assms by (rule dma_cache_push_line)

theorem dma_cache_line_witness:
  "let c = dma_cache_init \<lparr>cbase = 0, line_size = 0, capacity = 0, csrc = (\<lambda>_. 1), age = (\<lambda>_. 1)\<rparr> 4096 256 4;
       c' = fst (snd (dma_cache_push 0 1 c 77 256 256 256 1 (lab_example 1)))
   in cache_ok c' \<and> (\<exists>line < 4. csrc c' line = 77)"
proof -
  let ?c = "dma_cache_init \<lparr>cbase = 0, line_size = 0, capacity = 0, csrc = (\<lambda>_. 1), age = (\<lambda>_. 1)\<rparr> 4096 256 4"
  obtain r c' st' where p: "dma_cache_push 0 1 ?c 77 256 256 256 1 (lab_example 1) = (r, c', st')" by (metis prod_cases3)
  have cap: "capacity ?c = 4" by (simp add: dma_cache_init_def DMA_CACHE_MAX_SIZE_def)
  have room: "dma_queue_depth (queues (lab_example 1) 1) < LAB_DMA_CAPACITY"
    by (simp add: lab_example_def dma_queue_init_def dma_queue_depth_def LAB_DMA_CAPACITY_def)
  from dma_cache_line[OF dma_cache_init_ok _ room p] show ?thesis unfolding Let_def p fst_conv snd_conv
    by (auto simp: cap)
qed

end
