(* ===== verification/Readers.thy ===== *)
theory Readers
  imports Buffers DmaQueue
begin

text \<open>
  The readers of the DDR probe on the DSP: the HVX loads (\<open>run_hvx\<close>) and the DMA reader (\<open>run_dma\<close> with
  \<open>sum_slot\<close>) of \<open>tools/ddrbw/dsp/ddrbw_dsp.c\<close>.

  A vector register is a function from the lane to a 32-bit word. A clock is the sequence of the
  values that the thread reads after the start. A loop that stops at the deadline need not stop for
  each clock, thus the loops are \<^theory_text>\<open>partial_function (option)\<close>: \<^const>\<open>None\<close> is a loop that does not
  return, and the lemmas show that a loop returns when its clock reaches the deadline.
\<close>

subsection \<open>Vectors\<close>

type_synonym vec = "nat \<Rightarrow> u32"

definition vzero :: vec where "vzero = (\<lambda>_. 0)"

definition vadd :: "vec \<Rightarrow> vec \<Rightarrow> vec" where
  "vadd a b = (\<lambda>i. a i + b i)"

definition ldv :: "mem \<Rightarrow> nat \<Rightarrow> vec" where
  "ldv m a = (\<lambda>i. ld32 m (a + 4 * i))"

text \<open>
  \<open>Q6_V_vmux_QVV(Q6_Q_vsetq_R(tail), v, 0)\<close>: the first \<open>tail\<close> bytes of the vector, zero after them.
\<close>

definition tail_mask :: "u32 \<Rightarrow> vec" where
  "tail_mask tail = (\<lambda>i. (if 4 * i < unat tail then 0xFF else 0) OR (if 4 * i + 1 < unat tail then 0xFF00 else 0)
     OR (if 4 * i + 2 < unat tail then 0xFF0000 else 0) OR (if 4 * i + 3 < unat tail then 0xFF000000 else 0))"

definition vmux_zero :: "u32 \<Rightarrow> vec \<Rightarrow> vec" where
  "vmux_zero tail v = (\<lambda>i. v i AND tail_mask tail i)"

definition reduce4 :: "vec \<Rightarrow> vec \<Rightarrow> vec \<Rightarrow> vec \<Rightarrow> u32" where
  "reduce4 a0 a1 a2 a3 =
     (let v = vadd (vadd a0 a1) (vadd a2 a3) in fold (\<lambda>i s. s + v i) [0..<32] 0)"

subsection \<open>The job and the thread of a run\<close>

record job =
  j_chunk :: u32
  j_row :: u32
  j_dst_row :: u32
  j_rows :: u32
  j_slot :: u32
  j_depth :: u32
  j_pf :: u32
  j_flags :: u32
  j_box_w :: u32
  j_box_h :: u32
  j_deadline :: u64

record worker =
  w_dma :: bool
  w_part :: nat
  w_part_start :: u32
  w_part_len :: u32
  w_nchunks :: u32
  w_vtcm :: nat

text \<open>What a reader leaves in its \<open>struct worker\<close>, without the time stamps.\<close>

record outcome =
  o_chunks :: u64
  o_sum :: u32

definition DDRBW_FLAG_SUM :: u32 where "DDRBW_FLAG_SUM = 1"
definition DDRBW_FLAG_CACHED :: u32 where "DDRBW_FLAG_CACHED = 2"

definition next_chunk :: "u32 \<Rightarrow> u32 \<Rightarrow> u32" where
  "next_chunk nchunks c = (let c = c + 1 in if c = nchunks then 0 else c)"

subsection \<open>HVX loads\<close>

text \<open>The loop over the vectors of one chunk, four accumulators per step.\<close>

fun hvx_chunk :: "mem \<Rightarrow> nat \<Rightarrow> nat \<Rightarrow> vec \<times> vec \<times> vec \<times> vec \<Rightarrow> vec \<times> vec \<times> vec \<times> vec" where
  "hvx_chunk m v 0 acc = acc"
| "hvx_chunk m v (Suc n) (a0, a1, a2, a3) =
     hvx_chunk m (v + 512) n
       (vadd a0 (ldv m v), vadd a1 (ldv m (v + 128)), vadd a2 (ldv m (v + 256)), vadd a3 (ldv m (v + 384)))"

text \<open>One l2fetch box: the address, the bytes of a row and the rows.\<close>

type_synonym box = "nat \<times> u32 \<times> u32"

definition hvx_box :: "job \<Rightarrow> worker \<Rightarrow> u32 \<Rightarrow> box" where
  "hvx_box j w c =
     (let pf = j_pf j; nchunks = w_nchunks w; nxt = c + 1 in
      if nxt < nchunks then
        let left = nchunks - nxt
        in (w_part w + unat (nxt * j_chunk j), j_box_w j, (if pf < left then pf else left) * j_box_h j)
      else (w_part w, j_box_w j, (if pf < nchunks then pf else nchunks) * j_box_h j))"

partial_function (option) hvx_loop ::
  "mem \<Rightarrow> job \<Rightarrow> worker \<Rightarrow> (nat \<Rightarrow> u64) \<Rightarrow> nat \<Rightarrow> u32 \<Rightarrow> u64 \<Rightarrow> box list
    \<Rightarrow> vec \<times> vec \<times> vec \<times> vec \<Rightarrow> (outcome \<times> box list) option" where
  "hvx_loop m j w clk k c n boxes acc =
     (let boxes = (if j_pf j \<noteq> 0 then boxes @ [hvx_box j w c] else boxes);
          nvec = j_chunk j div 128;
          acc = hvx_chunk m (w_part w + unat (c * j_chunk j)) ((unat nvec + 3) div 4) acc;
          n = n + 1;
          c = next_chunk (w_nchunks w) c
      in if clk k \<ge> j_deadline j
         then (case acc of (a0, a1, a2, a3) \<Rightarrow>
                Some (\<lparr>o_chunks = n, o_sum = reduce4 a0 a1 a2 a3\<rparr>, boxes))
         else hvx_loop m j w clk (Suc k) c n boxes acc)"

definition run_hvx :: "mem \<Rightarrow> job \<Rightarrow> worker \<Rightarrow> (nat \<Rightarrow> u64) \<Rightarrow> (outcome \<times> box list) option" where
  "run_hvx m j w clk =
     (let boxes = (if j_pf j \<noteq> 0
            then [(w_part w, j_box_w j,
                   (if j_pf j < w_nchunks w then j_pf j else w_nchunks w) * j_box_h j)]
            else [])
      in hvx_loop m j w clk 0 0 0 boxes (vzero, vzero, vzero, vzero))"

subsection \<open>The DMA reader\<close>

text \<open>The pairs of vectors of one row, from vector \<open>i\<close>. The result is the first vector not read.\<close>

function row_pairs :: "mem \<Rightarrow> nat \<Rightarrow> nat \<Rightarrow> nat \<Rightarrow> vec \<Rightarrow> vec \<Rightarrow> nat \<times> vec \<times> vec" where
  "row_pairs m v full i a0 a1 =
     (if i + 1 < full
      then row_pairs m v full (i + 2) (vadd a0 (ldv m (v + 128 * i))) (vadd a1 (ldv m (v + 128 * (i + 1))))
      else (i, a0, a1))"
  by pat_completeness auto
termination
  by (relation "measure (\<lambda>(m, v, full, i, a0, a1). full - i)") auto

declare row_pairs.simps [simp del]

definition sum_row :: "mem \<Rightarrow> nat \<Rightarrow> u32 \<Rightarrow> vec \<times> vec \<Rightarrow> vec \<times> vec" where
  "sum_row m v row acc =
     (let full = unat (row div 128); tail = row mod 128;
          (i, a0, a1) = row_pairs m v full 0 (fst acc) (snd acc);
          a0 = (if i < full then vadd a0 (ldv m (v + 128 * i)) else a0);
          a1 = (if tail \<noteq> 0 then vadd a1 (vmux_zero tail (ldv m (v + 128 * full))) else a1)
      in (a0, a1))"

fun sum_rows :: "mem \<Rightarrow> nat \<Rightarrow> u32 \<Rightarrow> u32 \<Rightarrow> nat \<Rightarrow> nat \<Rightarrow> vec \<times> vec \<Rightarrow> vec \<times> vec" where
  "sum_rows m slot row pitch r 0 acc = acc"
| "sum_rows m slot row pitch r (Suc n) acc =
     sum_rows m slot row pitch (Suc r) n (sum_row m (slot + unat (of_nat r * pitch)) row acc)"

definition sum_slot :: "mem \<Rightarrow> nat \<Rightarrow> u32 \<Rightarrow> u32 \<Rightarrow> u32 \<Rightarrow> vec \<times> vec \<Rightarrow> vec \<times> vec" where
  "sum_slot m slot rows row pitch acc = sum_rows m slot row pitch 0 (unat rows) acc"

definition read_desc :: "job \<Rightarrow> worker \<Rightarrow> nat \<Rightarrow> u32 \<Rightarrow> dma_desc" where
  "read_desc j w dst c =
     \<lparr>ddst = dst, dsrc = w_part w + unat (c * j_chunk j), dst_stride = unat (j_dst_row j),
      src_stride = unat (j_row j), row_size = unat (j_row j), nrows = unat (j_rows j)\<rparr>"

text \<open>
  The first loop of \<open>run_dma\<close> pushes \<open>depth\<close> descriptors. The code ignores the result of a push.
\<close>

fun dma_prime :: "(dma_desc \<Rightarrow> 's \<Rightarrow> bool \<times> 's) \<Rightarrow> job \<Rightarrow> worker \<Rightarrow> nat \<Rightarrow> nat \<Rightarrow> u32 \<Rightarrow> u64 \<Rightarrow> 's \<Rightarrow> u32 \<times> u64 \<times> 's" where
  "dma_prime push j w d 0 c pushed s = (c, pushed, s)"
| "dma_prime push j w d (Suc n) c pushed s =
     (let (_, s) = push (read_desc j w (w_vtcm w + unat (of_nat d * j_slot j)) c) s
      in dma_prime push j w (Suc d) n (next_chunk (w_nchunks w) c) (pushed + 1) s)"

partial_function (option) dma_loop ::
  "(dma_desc \<Rightarrow> 's \<Rightarrow> bool \<times> 's) \<Rightarrow> ('s \<Rightarrow> (nat \<times> nat) \<times> 's) \<Rightarrow> ('s \<Rightarrow> mem) \<Rightarrow> job \<Rightarrow> worker \<Rightarrow> (nat \<Rightarrow> u64)
    \<Rightarrow> nat \<Rightarrow> bool \<Rightarrow> u32 \<Rightarrow> u64 \<Rightarrow> u64 \<Rightarrow> vec \<times> vec \<Rightarrow> 's \<Rightarrow> (u64 \<times> (vec \<times> vec) \<times> 's) option" where
  "dma_loop push pop vmem j w clk k stop c pushed popped acc s =
     (if popped < pushed then
        let ((dst, _), s) = pop s;
            popped = popped + 1;
            acc = (if j_flags j AND DDRBW_FLAG_SUM \<noteq> 0
                   then sum_slot (vmem s) dst (j_rows j) (j_row j) (j_dst_row j) acc
                   else (vadd (fst acc) (ldv (vmem s) dst), snd acc));
            (stop, k) = (if \<not> stop then (clk k \<ge> j_deadline j, Suc k) else (stop, k))
        in if \<not> stop then
             let (_, s) = push (read_desc j w dst c) s
             in dma_loop push pop vmem j w clk k stop (next_chunk (w_nchunks w) c) (pushed + 1) popped acc s
           else dma_loop push pop vmem j w clk k stop c pushed popped acc s
      else Some (popped, acc, s))"

definition run_dma ::
  "(dma_desc \<Rightarrow> 's \<Rightarrow> bool \<times> 's) \<Rightarrow> ('s \<Rightarrow> (nat \<times> nat) \<times> 's) \<Rightarrow> ('s \<Rightarrow> mem) \<Rightarrow> job \<Rightarrow> worker \<Rightarrow> (nat \<Rightarrow> u64)
    \<Rightarrow> 's \<Rightarrow> (outcome \<times> 's) option" where
  "run_dma push pop vmem j w clk s =
     (let (c, pushed, s) = dma_prime push j w 0 (unat (j_depth j)) 0 0 s
      in map_option (\<lambda>(popped, acc, s).
           (\<lparr>o_chunks = popped, o_sum = reduce4 (fst acc) (snd acc) vzero vzero\<rparr>, s))
         (dma_loop push pop vmem j w clk 0 False c pushed 0 (vzero, vzero) s))"

subsection \<open>Sums of lanes\<close>

definition lanesum :: "vec \<Rightarrow> u32" where
  "lanesum v = (\<Sum>i<32. v i)"

lemma lanesum_vadd [simp]: "lanesum (vadd a b) = lanesum a + lanesum b"
  by (simp add: lanesum_def vadd_def sum.distrib)

lemma lanesum_vzero [simp]: "lanesum vzero = 0"
  by (simp add: lanesum_def vzero_def)

lemma lanesum_ldv [simp]: "lanesum (ldv m a) = sum_words m a 32"
  by (simp add: lanesum_def ldv_def sum_words_def)

lemma fold_plus: "fold (\<lambda>i s. s + v i) [0..<n] (s::u32) = s + (\<Sum>i<n. v i)"
  by (induction n) (simp_all add: add.assoc)

lemma reduce4_eq: "reduce4 a0 a1 a2 a3 = lanesum a0 + lanesum a1 + (lanesum a2 + lanesum a3)"
  by (simp add: reduce4_def fold_plus lanesum_def[symmetric] Let_def)

definition accsum :: "vec \<times> vec \<times> vec \<times> vec \<Rightarrow> u32" where
  "accsum acc = (case acc of (a0, a1, a2, a3) \<Rightarrow> reduce4 a0 a1 a2 a3)"

lemma hvx_chunk_sum: "accsum (hvx_chunk m v n acc) = accsum acc + sum_words m v (128 * n)"
proof (induction m v n acc rule: hvx_chunk.induct)
  case (1 m v acc)
  show ?case by simp
next
  case (2 m v n a0 a1 a2 a3)
  have "sum_words m v (128 * Suc n) = sum_words m v (32 + (32 + (32 + (32 + 128 * n))))" by simp
  also have "\<dots> = sum_words m v 32 + (sum_words m (v + 128) 32 + (sum_words m (v + 256) 32
      + (sum_words m (v + 384) 32 + sum_words m (v + 512) (128 * n))))"
    by (simp only: sum_words_add) (simp add: add_ac)
  finally show ?case using 2 by (simp add: accsum_def reduce4_eq)
qed

lemma row_pairs_sum:
  assumes "row_pairs m v full i a0 a1 = (i', b0, b1)" and "i \<le> full"
  shows "i \<le> i' \<and> i' \<le> full \<and> full \<le> i' + 1 \<and>
    lanesum b0 + lanesum b1 = lanesum a0 + lanesum a1 + sum_words m (v + 128 * i) (32 * (i' - i))"
  using assms
proof (induction m v full i a0 a1 rule: row_pairs.induct)
  case (1 m v full i a0 a1)
  show ?case
  proof (cases "i + 1 < full")
    case True
    then have rec: "row_pairs m v full (i + 2) (vadd a0 (ldv m (v + 128 * i))) (vadd a1 (ldv m (v + 128 * (i + 1)))) = (i', b0, b1)"
      using "1.prems"(1) by (subst (asm) row_pairs.simps) simp
    from "1.IH"[OF True rec] True have IH: "i + 2 \<le> i'" "i' \<le> full" "full \<le> i' + 1"
      "lanesum b0 + lanesum b1 = lanesum a0 + sum_words m (v + 128 * i) 32 +
         (lanesum a1 + sum_words m (v + 128 * (i + 1)) 32) + sum_words m (v + 128 * (i + 2)) (32 * (i' - (i + 2)))"
      by simp_all
    have "32 * (i' - i) = 32 + (32 + 32 * (i' - (i + 2)))" using IH(1) by simp
    then have "sum_words m (v + 128 * i) (32 * (i' - i)) = sum_words m (v + 128 * i) 32 +
        (sum_words m (v + 128 * (i + 1)) 32 + sum_words m (v + 128 * (i + 2)) (32 * (i' - (i + 2))))"
      by (simp only: sum_words_add) (simp add: algebra_simps)
    with IH show ?thesis by (simp add: add_ac)
  next
    case False
    then show ?thesis using "1.prems" by (subst (asm) row_pairs.simps) auto
  qed
qed

lemma and_full_mask: "(x :: u32) AND 0xFFFFFFFF = x"
proof -
  have "(0xFFFFFFFF :: u32) = -1" by simp
  then show ?thesis by (simp only: and.right_neutral)
qed

lemma lanesum_tail:
  assumes "4 dvd unat tail" "unat tail < 128"
  shows "lanesum (vmux_zero tail (ldv m a)) = sum_words m a (unat tail div 4)"
proof -
  obtain q where q: "unat tail = 4 * q" using assms(1) by (rule dvdE)
  have *: "ld32 m (a + 4 * i) AND tail_mask tail i = (if i < q then ld32 m (a + 4 * i) else 0)" for i
    by (auto simp: tail_mask_def q and_full_mask)
  have "lanesum (vmux_zero tail (ldv m a)) = (\<Sum>i<32. if i < q then ld32 m (a + 4 * i) else 0)"
    by (simp add: lanesum_def vmux_zero_def ldv_def *)
  also have "\<dots> = (\<Sum>i<q. ld32 m (a + 4 * i))"
    using assms(2) by (intro sum.mono_neutral_cong_right) (auto simp: q)
  finally show ?thesis by (simp add: sum_words_def q)
qed

lemma sum_row_sum:
  assumes "4 dvd unat row"
  shows "lanesum (fst (sum_row m v row acc)) + lanesum (snd (sum_row m v row acc))
    = lanesum (fst acc) + lanesum (snd acc) + sum_words m v (unat row div 4)"
proof -
  define full where "full = unat (row div 128)"
  define tail where "tail = row mod 128"
  obtain i a0 a1 where rp: "row_pairs m v full 0 (fst acc) (snd acc) = (i, a0, a1)" by (metis prod_cases3)
  from row_pairs_sum[OF rp] have i: "i \<le> full" "full \<le> i + 1"
    "lanesum a0 + lanesum a1 = lanesum (fst acc) + lanesum (snd acc) + sum_words m v (32 * i)" by simp_all
  obtain k where k: "unat row = 4 * k" using assms by (rule dvdE)
  have "unat row div 128 = k div 32" by (simp add: k div_mult2_eq[of _ 4 32, simplified])
  then have full: "full = k div 32" by (simp add: full_def unat_div)
  have t: "unat tail = 4 * (k mod 32)" by (simp add: tail_def unat_mod k mult_mod_right)
  have t4: "4 dvd unat tail" "unat tail < 128" by (simp_all add: t)
  have "unat row div 4 = 32 * full + unat tail div 4" by (simp add: k full t)
  then have total: "sum_words m v (unat row div 4) = sum_words m v (32 * full) + sum_words m (v + 128 * full) (unat tail div 4)"
    by (simp add: sum_words_add)
  have last: "sum_words m v (32 * full) = sum_words m v (32 * i) + (if i < full then sum_words m (v + 128 * i) 32 else 0)"
  proof (cases "i < full")
    case True
    then have "32 * full = 32 * i + 32" using i by simp
    then show ?thesis using True by (simp only: sum_words_add) simp
  qed (use i in simp)
  have "tail = 0 \<Longrightarrow> unat tail = 0" by simp
  then show ?thesis
    using i(3) by (simp add: sum_row_def Let_def full_def[symmetric] tail_def[symmetric] rp total last
        lanesum_tail[OF t4] add_ac)
qed

lemma sum_rows_sum:
  assumes "4 dvd unat row" and "\<And>i. i < r + n \<Longrightarrow> unat (of_nat i * pitch) = i * unat pitch"
  shows "lanesum (fst (sum_rows m slot row pitch r n acc)) + lanesum (snd (sum_rows m slot row pitch r n acc))
    = lanesum (fst acc) + lanesum (snd acc) + (\<Sum>i<n. sum_words m (slot + (r + i) * unat pitch) (unat row div 4))"
  using assms(2)
proof (induction n arbitrary: r acc)
  case 0
  show ?case by simp
next
  case (Suc n)
  have "(\<Sum>i<Suc n. sum_words m (slot + (r + i) * unat pitch) (unat row div 4))
    = sum_words m (slot + r * unat pitch) (unat row div 4)
      + (\<Sum>i<n. sum_words m (slot + (Suc r + i) * unat pitch) (unat row div 4))"
    by (simp add: sum.lessThan_Suc_shift del: sum.lessThan_Suc)
  then show ?case
    using Suc.IH[of "Suc r"] Suc.prems sum_row_sum[OF assms(1)] by (simp add: add_ac)
qed

subsection \<open>The part of a thread\<close>

definition wf_part :: "job \<Rightarrow> worker \<Rightarrow> bool" where
  "wf_part j w \<longleftrightarrow> 0 < unat (w_nchunks w) \<and> 0 < unat (j_chunk j) \<and> 128 dvd unat (j_chunk j) \<and>
     unat (w_nchunks w) * unat (j_chunk j) = unat (w_part_len w)"

lemma next_chunk_mod:
  assumes "c < nchunks"
  shows "unat (next_chunk nchunks c) = (unat c + 1) mod unat nchunks" "next_chunk nchunks c < nchunks"
proof -
  have lt: "unat c + 1 \<le> unat nchunks" using assms by (simp add: word_less_nat_alt)
  then have c1: "unat (c + 1) = unat c + 1" using unat_lt2p[of nchunks] by (subst unat_add_le) simp_all
  have "c + 1 = nchunks \<longleftrightarrow> unat c + 1 = unat nchunks" using c1 by (metis word_unat_eq_iff)
  then show "unat (next_chunk nchunks c) = (unat c + 1) mod unat nchunks"
    using lt c1 by (auto simp: next_chunk_def Let_def)
  then show "next_chunk nchunks c < nchunks"
    using assms by (simp add: word_less_nat_alt)
qed

lemma chunk_offset:
  assumes "wf_part j w" and "c < w_nchunks w"
  shows "unat (c * j_chunk j) = unat c * unat (j_chunk j)"
    "unat c * unat (j_chunk j) + unat (j_chunk j) \<le> unat (w_part_len w)"
proof -
  have "Suc (unat c) * unat (j_chunk j) \<le> unat (w_nchunks w) * unat (j_chunk j)"
    using assms(2) by (intro mult_le_mono1) (simp add: word_less_nat_alt)
  then show le: "unat c * unat (j_chunk j) + unat (j_chunk j) \<le> unat (w_part_len w)"
    using assms(1) by (simp add: wf_part_def add.commute)
  then show "unat (c * j_chunk j) = unat c * unat (j_chunk j)"
    using unat_lt2p[of "w_part_len w"] by (intro unat_mult_le) simp
qed

subsection \<open>The HVX reader returns the checksum of its chunks\<close>

lemma mod_shift: "(Suc ((c + i) mod n)) mod n = (c + Suc i) mod (n::nat)"
  by (simp add: mod_Suc_eq)

lemma hvx_chunk_acc:
  assumes wf: "wf_part j w" "512 dvd unat (j_chunk j)" and c: "c < w_nchunks w"
  shows "accsum (hvx_chunk m (w_part w + unat (c * j_chunk j)) ((unat (j_chunk j div 128) + 3) div 4) acc)
    = accsum acc + chunk_sum m (w_part w) (unat (j_chunk j)) False (unat c)"
proof -
  obtain q where q: "unat (j_chunk j) = 512 * q" using wf(2) by (rule dvdE)
  have "(unat (j_chunk j div 128) + 3) div 4 = q" by (simp add: unat_div q)
  moreover have "unat (j_chunk j) div 4 = 128 * q" by (simp add: q)
  ultimately show ?thesis
    using chunk_offset(1)[OF wf(1) c] by (simp add: hvx_chunk_sum chunk_sum_def)
qed

lemma hvx_loop_result:
  assumes wf: "wf_part j w" "512 dvd unat (j_chunk j)"
    and c: "c < w_nchunks w" and stop: "clk (k + d) \<ge> j_deadline j" and go: "\<And>i. i < d \<Longrightarrow> clk (k + i) < j_deadline j"
  shows "\<exists>boxes'. hvx_loop m j w clk k c n boxes acc = Some
    (\<lparr>o_chunks = n + of_nat (Suc d),
      o_sum = accsum acc + (\<Sum>i<Suc d. chunk_sum m (w_part w) (unat (j_chunk j)) False ((unat c + i) mod unat (w_nchunks w)))\<rparr>, boxes')"
  using c stop go
proof (induction d arbitrary: k c n boxes acc)
  case 0
  have "unat c mod unat (w_nchunks w) = unat c" using 0(1) by (simp add: word_less_nat_alt)
  then show ?case
    using 0(2) hvx_chunk_acc[OF wf 0(1), of m acc]
    by (subst hvx_loop.simps) (simp add: Let_def accsum_def split: prod.splits)
next
  case (Suc d)
  let ?f = "\<lambda>i. chunk_sum m (w_part w) (unat (j_chunk j)) False (i mod unat (w_nchunks w))"
  let ?acc = "hvx_chunk m (w_part w + unat (c * j_chunk j)) ((unat (j_chunk j div 128) + 3) div 4) acc"
  have clk: "\<not> j_deadline j \<le> clk k" using Suc.prems(3)[of 0] by simp
  have cmod: "unat c mod unat (w_nchunks w) = unat c" using Suc.prems(1) by (simp add: word_less_nat_alt)
  have go': "i < d \<Longrightarrow> clk (Suc k + i) < j_deadline j" for i using Suc.prems(3)[of "Suc i"] by simp
  have idx: "(unat (next_chunk (w_nchunks w) c) + i) mod unat (w_nchunks w) = (unat c + Suc i) mod unat (w_nchunks w)" for i
    using next_chunk_mod(1)[OF Suc.prems(1)] by (simp add: mod_add_left_eq)
  have sum: "(\<Sum>i<Suc (Suc d). ?f (unat c + i)) = ?f (unat c) + (\<Sum>i<Suc d. ?f (unat c + Suc i))"
    by (subst sum.lessThan_Suc_shift) simp
  let ?boxes = "if j_pf j \<noteq> 0 then boxes @ [hvx_box j w c] else boxes"
  have stop': "j_deadline j \<le> clk (Suc k + d)" using Suc.prems(2) by simp
  obtain boxes' where rec: "hvx_loop m j w clk (Suc k) (next_chunk (w_nchunks w) c) (n + 1) ?boxes ?acc
      = Some (\<lparr>o_chunks = n + 1 + of_nat (Suc d), o_sum = accsum ?acc + (\<Sum>i<Suc d. ?f (unat c + Suc i))\<rparr>, boxes')"
    using Suc.IH[OF next_chunk_mod(2)[OF Suc.prems(1)] stop' go'] unfolding idx by blast
  have "hvx_loop m j w clk k c n boxes acc = hvx_loop m j w clk (Suc k) (next_chunk (w_nchunks w) c) (n + 1) ?boxes ?acc"
    using clk by (subst hvx_loop.simps) (simp add: Let_def)
  moreover have "accsum ?acc + (\<Sum>i<Suc d. ?f (unat c + Suc i)) = accsum acc + (\<Sum>i<Suc (Suc d). ?f (unat c + i))"
    unfolding sum hvx_chunk_acc[OF wf Suc.prems(1)] cmod by (simp only: add.assoc)
  moreover have "n + 1 + of_nat (Suc d) = n + of_nat (Suc (Suc d))" by simp
  ultimately show ?case using rec by (simp only:) blast
qed

lemma run_hvx_result:
  assumes wf: "wf_part j w" "512 dvd unat (j_chunk j)"
    and stop: "clk d \<ge> j_deadline j" and go: "\<And>i. i < d \<Longrightarrow> clk i < j_deadline j"
  shows "\<exists>boxes. run_hvx m j w clk = Some
    (\<lparr>o_chunks = of_nat (Suc d),
      o_sum = read_sum m (w_part w) (unat (j_chunk j)) (unat (w_nchunks w)) False (Suc d)\<rparr>, boxes)"
proof -
  have "(0::u32) < w_nchunks w" using wf(1) by (simp add: wf_part_def word_less_nat_alt)
  moreover have "accsum (vzero, vzero, vzero, vzero) = 0" by (simp add: accsum_def reduce4_eq)
  ultimately show ?thesis
    using hvx_loop_result[OF wf, of 0 clk 0 d m 0 _ "(vzero, vzero, vzero, vzero)"] stop go
    by (simp add: run_hvx_def read_sum_def Let_def del: sum.lessThan_Suc)
qed

subsection \<open>The prefetch boxes stay in the part\<close>

definition box_ok :: "worker \<Rightarrow> box \<Rightarrow> bool" where
  "box_ok w b = (case b of (a, width, h) \<Rightarrow>
     w_part w \<le> a \<and> a + unat width * unat h \<le> w_part w + unat (w_part_len w))"

lemma box_rows_ok:
  assumes wf: "wf_part j w" "unat (j_box_w j) * unat (j_box_h j) = unat (j_chunk j)"
    and h: "unat c0 + unat rows \<le> unat (w_nchunks w)"
  shows "box_ok w (w_part w + unat c0 * unat (j_chunk j), j_box_w j, rows * j_box_h j)"
proof -
  have w0: "0 < unat (j_box_w j)" using wf by (cases "unat (j_box_w j)") (auto simp: wf_part_def)
  have "(unat c0 + unat rows) * unat (j_chunk j) \<le> unat (w_nchunks w) * unat (j_chunk j)"
    by (rule mult_le_mono1) (rule h)
  then have le: "unat c0 * unat (j_chunk j) + unat rows * unat (j_chunk j) \<le> unat (w_part_len w)"
    using wf(1) by (simp add: wf_part_def add_mult_distrib)
  have prod: "unat (j_box_w j) * (unat rows * unat (j_box_h j)) = unat rows * unat (j_chunk j)"
    by (simp add: wf(2)[symmetric] mult_ac)
  have "unat rows * unat (j_box_h j) \<le> unat (j_box_w j) * (unat rows * unat (j_box_h j))"
    using w0 by simp
  also have "\<dots> < 2 ^ 32" using le unat_lt2p[of "w_part_len w"] unfolding prod by simp
  finally have "unat (rows * j_box_h j) = unat rows * unat (j_box_h j)" by (intro unat_mult_le) simp
  then show ?thesis using le unfolding box_ok_def by (simp only: prod split) simp
qed

lemma hvx_box_ok:
  assumes wf: "wf_part j w" "unat (j_box_w j) * unat (j_box_h j) = unat (j_chunk j)" and c: "c < w_nchunks w"
  shows "box_ok w (hvx_box j w c)"
proof (cases "c + 1 < w_nchunks w")
  case True
  let ?rows = "if j_pf j < w_nchunks w - (c + 1) then j_pf j else w_nchunks w - (c + 1)"
  have "unat (c + 1) + unat ?rows \<le> unat (w_nchunks w)"
    using True by (auto simp: word_less_nat_alt unat_sub word_le_nat_alt less_imp_le)
  from box_rows_ok[OF wf this] show ?thesis
    using True chunk_offset(1)[OF wf(1) True] by (simp add: hvx_box_def Let_def)
next
  case False
  have "unat (0::u32) + unat (if j_pf j < w_nchunks w then j_pf j else w_nchunks w) \<le> unat (w_nchunks w)"
    by (auto simp: word_less_nat_alt)
  from box_rows_ok[OF wf this] show ?thesis using False by (simp add: hvx_box_def Let_def)
qed

lemma hvx_loop_boxes:
  assumes wf: "wf_part j w" "unat (j_box_w j) * unat (j_box_h j) = unat (j_chunk j)"
    and res: "hvx_loop m j w clk k c n boxes acc = Some r"
    and c: "c < w_nchunks w" and ok: "list_all (box_ok w) boxes"
  shows "list_all (box_ok w) (snd r)"
proof -
  have "c < w_nchunks w \<longrightarrow> list_all (box_ok w) boxes \<longrightarrow> wf_part j w \<longrightarrow>
      unat (j_box_w j) * unat (j_box_h j) = unat (j_chunk j) \<longrightarrow> list_all (box_ok w) (snd r)"
  proof (rule hvx_loop.raw_induct[OF _ res, where P = "\<lambda>m j w clk k c n boxes acc r.
      c < w_nchunks w \<longrightarrow> list_all (box_ok w) boxes \<longrightarrow> wf_part j w \<longrightarrow>
      unat (j_box_w j) * unat (j_box_h j) = unat (j_chunk j) \<longrightarrow> list_all (box_ok w) (snd r)"], goal_cases)
    case (1 rec m j w clk k c n boxes acc r)
    then show ?case
      using hvx_box_ok[of j w c] next_chunk_mod(2)[of c "w_nchunks w"]
      by (auto simp: Let_def split: if_splits prod.splits)
  qed
  then show ?thesis using assms by blast
qed

lemma run_hvx_spec:
  assumes wf: "wf_part j w" "512 dvd unat (j_chunk j)" "unat (j_box_w j) * unat (j_box_h j) = unat (j_chunk j)"
    and stop: "clk d \<ge> j_deadline j" and go: "\<And>i. i < d \<Longrightarrow> clk i < j_deadline j"
  shows "\<exists>boxes. run_hvx m j w clk = Some
      (\<lparr>o_chunks = of_nat (Suc d), o_sum = read_sum m (w_part w) (unat (j_chunk j)) (unat (w_nchunks w)) False (Suc d)\<rparr>, boxes)
    \<and> list_all (box_ok w) boxes"
proof -
  obtain boxes where r: "run_hvx m j w clk = Some (\<lparr>o_chunks = of_nat (Suc d),
      o_sum = read_sum m (w_part w) (unat (j_chunk j)) (unat (w_nchunks w)) False (Suc d)\<rparr>, boxes)"
    using run_hvx_result[where clk = clk and d = d, OF wf(1,2) stop go] by blast
  have c: "(0::u32) < w_nchunks w" using wf(1) by (simp add: wf_part_def word_less_nat_alt)
  have "unat (0::u32) + unat (if j_pf j < w_nchunks w then j_pf j else w_nchunks w) \<le> unat (w_nchunks w)"
    by (auto simp: word_less_nat_alt)
  from box_rows_ok[OF wf(1,3) this] have "list_all (box_ok w) (if j_pf j \<noteq> 0
      then [(w_part w, j_box_w j, (if j_pf j < w_nchunks w then j_pf j else w_nchunks w) * j_box_h j)] else [])" by simp
  from hvx_loop_boxes[OF wf(1,3) r[unfolded run_hvx_def Let_def] c this] r show ?thesis by simp
qed

end
