(* ===== verification/DmaReader.thy ===== *)
theory DmaReader
  imports Readers LabDma
begin

text \<open>
  The DMA reader of \<open>ddrbw_dsp.c\<close> on any queue that keeps the contract \<open>dma_engine\<close>: \<open>depth\<close>
  descriptors stay in flight, the slot of a chunk is free when its descriptor is popped, and the
  checksum is that of the chunks in the order of the part, for each clock that reaches the deadline.
\<close>

subsection \<open>The descriptors of a run\<close>

text \<open>The \<open>p\<close>-th descriptor of a run: the slots and the chunks each go round.\<close>

definition nth_desc :: "job \<Rightarrow> worker \<Rightarrow> nat \<Rightarrow> dma_desc" where
  "nth_desc j w p = read_desc j w (w_vtcm w + p mod unat (j_depth j) * unat (j_slot j))
     (of_nat (p mod unat (w_nchunks w)))"

definition vtcm_region :: "job \<Rightarrow> worker \<Rightarrow> nat set" where
  "vtcm_region j w = {w_vtcm w..<w_vtcm w + unat (j_depth j) * unat (j_slot j)}"

definition part_region :: "worker \<Rightarrow> nat set" where
  "part_region w = {w_part w..<w_part w + unat (w_part_len w)}"

definition sampled :: "job \<Rightarrow> bool" where
  "sampled j \<longleftrightarrow> j_flags j AND DDRBW_FLAG_SUM = 0"

text \<open>What \<open>check_run\<close> and \<open>ddrbw_read\<close> establish for a DMA thread.\<close>

definition wf_dma :: "job \<Rightarrow> worker \<Rightarrow> bool" where
  "wf_dma j w \<longleftrightarrow> wf_part j w \<and> unat (j_rows j) * unat (j_row j) = unat (j_chunk j) \<and>
     unat (j_row j) \<le> unat (j_dst_row j) \<and> 4 dvd unat (j_row j) \<and> (sampled j \<longrightarrow> 128 \<le> unat (j_row j)) \<and>
     unat (j_slot j) = unat (j_rows j) * unat (j_dst_row j) \<and> 0 < unat (j_depth j) \<and>
     unat (j_depth j) * unat (j_slot j) < 2 ^ 32 \<and> vtcm_region j w \<inter> part_region w = {}"

lemma wf_dma_room: "wf_dma j w \<Longrightarrow> unat (j_depth j) * unat (j_slot j) < 2 ^ 32"
  unfolding wf_dma_def by blast

lemma mod_window:
  fixes a b d :: nat
  assumes "a < b" "b < a + d"
  shows "a mod d \<noteq> b mod d"
proof
  assume "a mod d = b mod d"
  then have "d dvd b - a" using assms(1) by (simp add: mod_eq_dvd_iff_nat[symmetric])
  then show False using assms by (auto dest!: dvd_imp_le)
qed

lemma slots_disjoint:
  fixes a b s v :: nat
  assumes "a \<noteq> b"
  shows "{v + a * s..<v + a * s + s} \<inter> {v + b * s..<v + b * s + s} = {}"
proof -
  have *: "{v + a * s..<v + a * s + s} \<inter> {v + b * s..<v + b * s + s} = {}" if "a < b" for a b
  proof -
    have "Suc a * s \<le> b * s" using that by (intro mult_le_mono1) simp
    then show ?thesis by auto
  qed
  from assms show ?thesis using *[of a b] *[of b a] by (cases "a < b") auto
qed

lemma nth_desc_dst:
  assumes "wf_dma j w"
  shows "dst_span (nth_desc j w p) =
      {w_vtcm w + p mod unat (j_depth j) * unat (j_slot j)..<
       w_vtcm w + p mod unat (j_depth j) * unat (j_slot j) + unat (j_slot j)}"
    "dst_span (nth_desc j w p) \<subseteq> vtcm_region j w"
proof -
  show *: "dst_span (nth_desc j w p) =
      {w_vtcm w + p mod unat (j_depth j) * unat (j_slot j)..<
       w_vtcm w + p mod unat (j_depth j) * unat (j_slot j) + unat (j_slot j)}"
    using assms by (simp add: dst_span_def nth_desc_def read_desc_def wf_dma_def)
  have "Suc (p mod unat (j_depth j)) * unat (j_slot j) \<le> unat (j_depth j) * unat (j_slot j)"
    using assms by (intro mult_le_mono1) (simp add: wf_dma_def Suc_leI)
  then show "dst_span (nth_desc j w p) \<subseteq> vtcm_region j w"
    unfolding * vtcm_region_def by auto
qed

lemma nth_chunk:
  assumes "wf_part j w"
  shows "(of_nat (p mod unat (w_nchunks w)) :: u32) < w_nchunks w"
    "unat (of_nat (p mod unat (w_nchunks w)) :: u32) = p mod unat (w_nchunks w)"
proof -
  have lt: "p mod unat (w_nchunks w) < unat (w_nchunks w)" using assms by (simp add: wf_part_def)
  then show eq: "unat (of_nat (p mod unat (w_nchunks w)) :: u32) = p mod unat (w_nchunks w)"
    using unat_lt2p[of "w_nchunks w"] by (intro unat_of_nat_less) simp
  show "(of_nat (p mod unat (w_nchunks w)) :: u32) < w_nchunks w"
    unfolding word_less_nat_alt eq by (rule lt)
qed

lemma nth_desc_src:
  assumes "wf_dma j w"
  shows "dsrc (nth_desc j w p) = w_part w + p mod unat (w_nchunks w) * unat (j_chunk j)"
    "src_span (nth_desc j w p) \<subseteq> part_region w"
proof -
  have wf: "wf_part j w" using assms by (simp add: wf_dma_def)
  note c = nth_chunk[OF wf, of p] chunk_offset[OF wf nth_chunk(1)[OF wf, of p]]
  show src: "dsrc (nth_desc j w p) = w_part w + p mod unat (w_nchunks w) * unat (j_chunk j)"
    using c by (simp add: nth_desc_def read_desc_def)
  have len: "nrows (nth_desc j w p) * src_stride (nth_desc j w p) = unat (j_chunk j)"
    using assms by (simp add: nth_desc_def read_desc_def wf_dma_def)
  show "src_span (nth_desc j w p) \<subseteq> part_region w"
    using c(2,4) unfolding src_span_def src len part_region_def by auto
qed

lemma nth_desc_next:
  assumes "wf_part j w"
  shows "next_chunk (w_nchunks w) (of_nat (p mod unat (w_nchunks w))) = of_nat (Suc p mod unat (w_nchunks w))"
  using next_chunk_mod(1)[OF nth_chunk(1)[OF assms, of p]] nth_chunk(2)[OF assms, of p] nth_chunk(2)[OF assms, of "Suc p"]
  by (intro word_unat_eq_iff[THEN iffD2]) (simp add: mod_Suc_eq)

lemma nth_desc_fresh:
  assumes wf: "wf_dma j w" and q: "q - p < unat (j_depth j)"
  shows "fresh (nth_desc j w q) (map (nth_desc j w) [p..<q])"
proof -
  have disj: "vtcm_region j w \<inter> part_region w = {}" using wf by (simp add: wf_dma_def)
  have cross: "dst_span (nth_desc j w a) \<inter> src_span (nth_desc j w b) = {}" for a b
    using nth_desc_dst(2)[OF wf, of a] nth_desc_src(2)[OF wf, of b] disj by blast
  have slots: "dst_span (nth_desc j w q) \<inter> dst_span (nth_desc j w e) = {}" if "p \<le> e" "e < q" for e
  proof -
    have "q < e + unat (j_depth j)" using that q by linarith
    then show ?thesis
      using mod_window[OF that(2)] unfolding nth_desc_dst(1)[OF wf] by (intro slots_disjoint) (rule not_sym)
  qed
  have "row_size (nth_desc j w q) \<le> dst_stride (nth_desc j w q)"
    "row_size (nth_desc j w q) \<le> src_stride (nth_desc j w q)"
    using wf by (simp_all add: nth_desc_def read_desc_def wf_dma_def)
  then show ?thesis using cross slots by (auto simp: fresh_def Int_commute)
qed

subsection \<open>The sum of one slot\<close>

definition lanesum2 :: "vec \<times> vec \<Rightarrow> u32" where
  "lanesum2 acc = lanesum (fst acc) + lanesum (snd acc)"

definition add_slot :: "job \<Rightarrow> mem \<Rightarrow> nat \<Rightarrow> vec \<times> vec \<Rightarrow> vec \<times> vec" where
  "add_slot j m dst acc = (if j_flags j AND DDRBW_FLAG_SUM \<noteq> 0
     then sum_slot m dst (j_rows j) (j_row j) (j_dst_row j) acc
     else (vadd (fst acc) (ldv m dst), snd acc))"

lemma add_slot_sum:
  assumes wf: "wf_dma j w" and land: "landed (nth_desc j w p) m"
    and part: "\<And>a. a \<in> part_region w \<Longrightarrow> m a = m0 a"
  shows "lanesum2 (add_slot j m (ddst (nth_desc j w p)) acc)
    = lanesum2 acc + chunk_sum m0 (w_part w) (unat (j_chunk j)) (sampled j) (p mod unat (w_nchunks w))"
proof -
  let ?d = "nth_desc j w p" let ?src = "dsrc (nth_desc j w p)"
  let ?row = "unat (j_row j)" let ?dst = "unat (j_dst_row j)" let ?rows = "unat (j_rows j)"
  have f: "?row \<le> ?dst" "4 dvd ?row" "?rows * ?row = unat (j_chunk j)" "unat (j_slot j) = ?rows * ?dst"
    "sampled j \<Longrightarrow> 128 \<le> ?row" "0 < unat (j_chunk j)"
    using wf by (simp_all add: wf_dma_def wf_part_def)
  have d: "nrows ?d = ?rows" "row_size ?d = ?row" "dst_stride ?d = ?dst" "src_stride ?d = ?row"
    by (simp_all add: nth_desc_def read_desc_def)
  have byte: "m (ddst ?d + r * ?dst + k) = m0 (?src + r * ?row + k)" if "r < ?rows" "k < ?row" for r k
  proof -
    have "m (ddst ?d + r * ?dst + k) = m (?src + r * ?row + k)"
      using land that by (auto simp: landed_def d)
    moreover have "?src + r * ?row + k \<in> part_region w"
      using src_row_in_span[of r ?d k] that nth_desc_src(2)[OF wf, of p] by (auto simp: d)
    ultimately show ?thesis using part by simp
  qed
  show ?thesis
  proof (cases "sampled j")
    case True
    have rows: "0 < ?rows" using f(3,6) by (cases ?rows) auto
    have "sum_words m (ddst ?d) 32 = sum_words m0 ?src 32"
      using byte[of 0] rows f(5)[OF True] by (intro sum_words_cong) simp
    then show ?thesis
      using True nth_desc_src(1)[OF wf, of p]
      by (simp add: add_slot_def sampled_def lanesum2_def chunk_sum_def add_ac)
  next
    case False
    obtain k where k: "?row = 4 * k" using f(2) by (rule dvdE)
    have pitch: "unat (of_nat i * j_dst_row j) = i * ?dst" if "i < 0 + ?rows" for i
    proof -
      have i: "unat (of_nat i :: u32) = i"
        using that unat_lt2p[of "j_rows j"] by (intro unat_of_nat_less) simp
      have "i * ?dst \<le> ?rows * ?dst" using that by (intro mult_le_mono1) simp
      also have "\<dots> < 2 ^ LENGTH(32)" using unat_lt2p[of "j_slot j"] f(4) by simp
      finally show ?thesis using i by (subst unat_mult_le) simp_all
    qed
    have "lanesum2 (sum_slot m (ddst ?d) (j_rows j) (j_row j) (j_dst_row j) acc)
        = lanesum2 acc + (\<Sum>i<?rows. sum_words m (ddst ?d + (0 + i) * ?dst) (?row div 4))"
      unfolding lanesum2_def sum_slot_def using f(2) pitch by (rule sum_rows_sum)
    also have "(\<Sum>i<?rows. sum_words m (ddst ?d + (0 + i) * ?dst) (?row div 4))
        = (\<Sum>i<?rows. sum_words m0 (?src + 4 * (i * k)) k)"
      using byte by (intro sum.cong[OF refl] ) (auto simp: k mult_ac intro!: sum_words_cong)
    also have "\<dots> = sum_words m0 ?src (?rows * k)" by (rule sum_words_mult[symmetric])
    also have "?rows * k = unat (j_chunk j) div 4" using f(3) by (simp add: k flip: f(3))
    finally show ?thesis
      using False nth_desc_src(1)[OF wf, of p] by (simp add: add_slot_def sampled_def chunk_sum_def)
  qed
qed

subsection \<open>The loop\<close>

text \<open>
  The invariant of the loop: the descriptors from \<open>q\<close> to \<open>p\<close> are in flight, at most \<open>depth\<close> of them,
  and the memory outside the slots is that of the start.
\<close>

definition dma_inv :: "('s \<Rightarrow> dma_desc list \<Rightarrow> bool) \<Rightarrow> ('s \<Rightarrow> mem) \<Rightarrow> job \<Rightarrow> worker \<Rightarrow> mem \<Rightarrow> nat \<Rightarrow> nat \<Rightarrow> 's \<Rightarrow> bool" where
  "dma_inv rep vmem j w m0 p q s \<longleftrightarrow> rep s (map (nth_desc j w) [q..<p]) \<and> q \<le> p \<and> p \<le> q + unat (j_depth j) \<and>
     (\<forall>a. a \<notin> vtcm_region j w \<longrightarrow> vmem s a = m0 a)"

lemma untouched_region:
  assumes "wf_dma j w" "untouched (map (nth_desc j w) ps) m m'" "a \<notin> vtcm_region j w"
  shows "m' a = m a"
proof -
  have "a \<notin> (\<Union>e \<in> set (map (nth_desc j w) ps). dst_span e)"
    using nth_desc_dst(2)[OF assms(1)] assms(3) by auto
  then show ?thesis using assms(2) by (simp add: untouched_def)
qed

context dma_engine
begin

lemma inv_push:
  assumes wf: "wf_dma j w" and cap: "unat (j_depth j) \<le> cap"
    and inv: "dma_inv rep vmem j w m0 p q s" and room: "p < q + unat (j_depth j)"
  shows "dma_inv rep vmem j w m0 (Suc p) q (snd (push (nth_desc j w p) s))"
proof -
  obtain ok s' where push: "push (nth_desc j w p) s = (ok, s')" by fastforce
  have rep: "rep s (map (nth_desc j w) [q..<p])" and qp: "q \<le> p" using inv by (simp_all add: dma_inv_def)
  have len: "length (map (nth_desc j w) [q..<p]) < cap" using room cap qp by simp
  have new: "map (nth_desc j w) [q..<p] @ [nth_desc j w p] = map (nth_desc j w) [q..<Suc p]"
    using qp by simp
  have "fresh (nth_desc j w p) (map (nth_desc j w) [q..<p])"
    using room qp by (intro nth_desc_fresh[OF wf]) simp
  note r = push_rep[OF rep len this push, unfolded new]
  then show ?thesis
    using inv room untouched_region[OF wf r(3)] by (simp add: dma_inv_def push del: upt_Suc)
qed

lemma inv_pop:
  assumes wf: "wf_dma j w" and inv: "dma_inv rep vmem j w m0 p q s" and ne: "q < p"
  shows "\<exists>s'. pop s = ((ddst (nth_desc j w q), dsrc (nth_desc j w q)), s') \<and>
    dma_inv rep vmem j w m0 p (Suc q) s' \<and>
    (\<forall>acc. lanesum2 (add_slot j (vmem s') (ddst (nth_desc j w q)) acc) = lanesum2 acc
      + chunk_sum m0 (w_part w) (unat (j_chunk j)) (sampled j) (q mod unat (w_nchunks w)))"
proof -
  obtain dp s' where pop: "pop s = (dp, s')" by fastforce
  have split: "map (nth_desc j w) [q..<p] = nth_desc j w q # map (nth_desc j w) [Suc q..<p]"
    using ne by (simp add: upt_conv_Cons)
  have "rep s (nth_desc j w q # map (nth_desc j w) [Suc q..<p])"
    using inv by (simp add: dma_inv_def split)
  note r = pop_rep[OF this pop, folded split]
  have keep: "vmem s' a = m0 a" if "a \<notin> vtcm_region j w" for a
    using untouched_region[OF wf r(4) that] inv that by (simp add: dma_inv_def)
  have part: "vmem s' a = m0 a" if "a \<in> part_region w" for a
    using wf that by (intro keep) (auto simp: wf_dma_def)
  have "dma_inv rep vmem j w m0 p (Suc q) s'" using r(2) keep ne inv by (simp add: dma_inv_def)
  then show ?thesis using pop r(1) add_slot_sum[OF wf r(3) part] by simp
qed

lemma prime_result:
  assumes wf: "wf_dma j w" and cap: "unat (j_depth j) \<le> cap"
    and inv: "dma_inv rep vmem j w m0 d 0 s" and dn: "d + n = unat (j_depth j)"
  shows "\<exists>s'. dma_prime push j w d n (of_nat (d mod unat (w_nchunks w))) (of_nat d) s
      = (of_nat (unat (j_depth j) mod unat (w_nchunks w)), of_nat (unat (j_depth j)), s') \<and>
    dma_inv rep vmem j w m0 (unat (j_depth j)) 0 s'"
  using inv dn
proof (induction n arbitrary: d s)
  case 0
  then show ?case by simp
next
  case (Suc n)
  have wfp: "wf_part j w" using wf by (simp add: wf_dma_def)
  have d: "d < unat (j_depth j)" using Suc.prems(2) by simp
  have u: "unat (of_nat d :: u32) = d" using d unat_lt2p[of "j_depth j"] by (intro unat_of_nat_less) simp
  have "d * unat (j_slot j) \<le> unat (j_depth j) * unat (j_slot j)" using d by (intro mult_le_mono1) simp
  also have "\<dots> < 2 ^ LENGTH(32)" using wf_dma_room[OF wf] by simp
  finally have "unat (of_nat d * j_slot j) = d * unat (j_slot j)"
    using u by (subst unat_mult_le) simp_all
  then have desc: "read_desc j w (w_vtcm w + unat (of_nat d * j_slot j)) (of_nat (d mod unat (w_nchunks w)))
      = nth_desc j w d" using d by (simp add: nth_desc_def)
  have "dma_inv rep vmem j w m0 (Suc d) 0 (snd (push (nth_desc j w d) s))"
    using d by (intro inv_push[OF wf cap Suc.prems(1)]) simp
  from Suc.IH[OF this] Suc.prems(2) show ?case
    by (simp add: desc nth_desc_next[OF wfp] Let_def case_prod_beta add.commute)
qed

lemma drain_result:
  assumes wf: "wf_dma j w" and inv: "dma_inv rep vmem j w m0 p q s" and p: "p < 2 ^ 64"
  shows "\<exists>acc' s'. dma_loop push pop vmem j w clk k True c (of_nat p) (of_nat q) acc s = Some (of_nat p, acc', s') \<and>
    dma_inv rep vmem j w m0 p p s' \<and> lanesum2 acc' = lanesum2 acc
      + (\<Sum>i<p - q. chunk_sum m0 (w_part w) (unat (j_chunk j)) (sampled j) ((q + i) mod unat (w_nchunks w)))"
  using inv
proof (induction "p - q" arbitrary: q acc s)
  case 0
  then have "q = p" by (simp add: dma_inv_def)
  then show ?case using 0 by (subst dma_loop.simps) simp
next
  case (Suc n)
  let ?f = "\<lambda>i. chunk_sum m0 (w_part w) (unat (j_chunk j)) (sampled j) (i mod unat (w_nchunks w))"
  have q: "q < p" using Suc.hyps(2) by simp
  from inv_pop[OF wf Suc.prems q] obtain s' where s': "pop s = ((ddst (nth_desc j w q), dsrc (nth_desc j w q)), s')"
    "dma_inv rep vmem j w m0 p (Suc q) s'"
    "\<And>acc. lanesum2 (add_slot j (vmem s') (ddst (nth_desc j w q)) acc) = lanesum2 acc + ?f q" by blast
  have lt: "(of_nat q :: u64) < of_nat p" using q p by (simp add: word_less_nat_alt unat_of_nat_less)
  have "n = p - Suc q" using Suc.hyps(2) by simp
  from Suc.hyps(1)[OF this s'(2), of "add_slot j (vmem s') (ddst (nth_desc j w q)) acc"]
  obtain acc' s'' where rec: "dma_loop push pop vmem j w clk k True c (of_nat p) (of_nat (Suc q))
      (add_slot j (vmem s') (ddst (nth_desc j w q)) acc) s' = Some (of_nat p, acc', s'')"
    "dma_inv rep vmem j w m0 p p s''"
    "lanesum2 acc' = lanesum2 acc + ?f q + (\<Sum>i<p - Suc q. ?f (Suc q + i))"
    unfolding s'(3) by blast
  have "p - q = Suc (p - Suc q)" using q by simp
  then have sum: "(\<Sum>i<p - q. ?f (q + i)) = ?f q + (\<Sum>i<p - Suc q. ?f (Suc q + i))"
    by (simp add: sum.lessThan_Suc_shift del: sum.lessThan_Suc)
  have "dma_loop push pop vmem j w clk k True c (of_nat p) (of_nat q) acc s = Some (of_nat p, acc', s'')"
    using lt s'(1) rec(1) by (subst dma_loop.simps) (simp add: add_slot_def add.commute)
  then show ?case using rec(2,3) unfolding sum by (auto simp: add.assoc)
qed

lemma dma_loop_result:
  assumes wf: "wf_dma j w" and cap: "unat (j_depth j) \<le> cap"
    and inv: "dma_inv rep vmem j w m0 (q + unat (j_depth j)) q s" and p: "q + unat (j_depth j) + d < 2 ^ 64"
    and stop: "clk (k + d) \<ge> j_deadline j" and go: "\<And>i. i < d \<Longrightarrow> clk (k + i) < j_deadline j"
  shows "\<exists>acc' s'. dma_loop push pop vmem j w clk k False (of_nat ((q + unat (j_depth j)) mod unat (w_nchunks w)))
        (of_nat (q + unat (j_depth j))) (of_nat q) acc s = Some (of_nat (q + unat (j_depth j) + d), acc', s') \<and>
    dma_inv rep vmem j w m0 (q + unat (j_depth j) + d) (q + unat (j_depth j) + d) s' \<and> lanesum2 acc' = lanesum2 acc
      + (\<Sum>i<unat (j_depth j) + d. chunk_sum m0 (w_part w) (unat (j_chunk j)) (sampled j) ((q + i) mod unat (w_nchunks w)))"
  using inv p stop go
proof (induction d arbitrary: k q acc s)
  case 0
  let ?D = "unat (j_depth j)"
  let ?f = "\<lambda>i. chunk_sum m0 (w_part w) (unat (j_chunk j)) (sampled j) (i mod unat (w_nchunks w))"
  have D: "0 < ?D" using wf by (simp add: wf_dma_def)
  then have q: "q < q + ?D" by simp
  from inv_pop[OF wf 0(1) q] obtain s' where s': "pop s = ((ddst (nth_desc j w q), dsrc (nth_desc j w q)), s')"
    "dma_inv rep vmem j w m0 (q + ?D) (Suc q) s'"
    "\<And>acc. lanesum2 (add_slot j (vmem s') (ddst (nth_desc j w q)) acc) = lanesum2 acc + ?f q" by blast
  have lt: "(of_nat q :: u64) < of_nat (q + ?D)"
    using 0(2) D by (simp add: word_less_nat_alt unat_of_nat_less del: of_nat_add)
  have p: "q + ?D < 2 ^ 64" using 0(2) by simp
  obtain acc' s'' where rec: "dma_loop push pop vmem j w clk (Suc k) True (of_nat ((q + ?D) mod unat (w_nchunks w)))
      (of_nat (q + ?D)) (of_nat (Suc q)) (add_slot j (vmem s') (ddst (nth_desc j w q)) acc) s'
      = Some (of_nat (q + ?D), acc', s'')" "dma_inv rep vmem j w m0 (q + ?D) (q + ?D) s''"
    "lanesum2 acc' = lanesum2 acc + ?f q + (\<Sum>i<q + ?D - Suc q. ?f (Suc q + i))"
    using drain_result[OF wf s'(2) p, of clk "Suc k" _ "add_slot j (vmem s') (ddst (nth_desc j w q)) acc"]
    unfolding s'(3) by blast
  have sum: "(\<Sum>i<?D + 0. ?f (q + i)) = ?f q + (\<Sum>i<q + ?D - Suc q. ?f (Suc q + i))"
    using D by (cases ?D) (simp_all add: sum.lessThan_Suc_shift del: sum.lessThan_Suc)
  have "dma_loop push pop vmem j w clk k False (of_nat ((q + ?D) mod unat (w_nchunks w))) (of_nat (q + ?D)) (of_nat q) acc s
      = Some (of_nat (q + ?D), acc', s'')"
    using lt s'(1) rec(1) 0(3) by (subst dma_loop.simps) (simp add: add_slot_def add.commute)
  then show ?case using rec(2,3) unfolding sum by (auto simp: add.assoc)
next
  case (Suc d)
  let ?D = "unat (j_depth j)"
  let ?f = "\<lambda>i. chunk_sum m0 (w_part w) (unat (j_chunk j)) (sampled j) (i mod unat (w_nchunks w))"
  have wfp: "wf_part j w" and D: "0 < ?D" using wf by (simp_all add: wf_dma_def)
  then have q: "q < q + ?D" by simp
  from inv_pop[OF wf Suc.prems(1) q] obtain s' where s': "pop s = ((ddst (nth_desc j w q), dsrc (nth_desc j w q)), s')"
    "dma_inv rep vmem j w m0 (q + ?D) (Suc q) s'"
    "\<And>acc. lanesum2 (add_slot j (vmem s') (ddst (nth_desc j w q)) acc) = lanesum2 acc + ?f q" by blast
  let ?acc = "add_slot j (vmem s') (ddst (nth_desc j w q)) acc"
  have lt: "(of_nat q :: u64) < of_nat (q + ?D)"
    using Suc.prems(2) D by (simp add: word_less_nat_alt unat_of_nat_less del: of_nat_add)
  have desc: "read_desc j w (ddst (nth_desc j w q)) (of_nat ((q + ?D) mod unat (w_nchunks w))) = nth_desc j w (q + ?D)"
    by (simp add: nth_desc_def read_desc_def)
  have "dma_inv rep vmem j w m0 (Suc (q + ?D)) (Suc q) (snd (push (nth_desc j w (q + ?D)) s'))"
    by (rule inv_push[OF wf cap s'(2)]) simp
  then have inv': "dma_inv rep vmem j w m0 (Suc q + ?D) (Suc q) (snd (push (nth_desc j w (q + ?D)) s'))" by simp
  have p': "Suc q + ?D + d < 2 ^ 64" using Suc.prems(2) by simp
  have stop': "j_deadline j \<le> clk (Suc k + d)" using Suc.prems(3) by simp
  have go': "clk (Suc k + i) < j_deadline j" if "i < d" for i using Suc.prems(4)[of "Suc i"] that by simp
  obtain acc' s'' where rec: "dma_loop push pop vmem j w clk (Suc k) False (of_nat ((Suc q + ?D) mod unat (w_nchunks w)))
      (of_nat (Suc q + ?D)) (of_nat (Suc q)) ?acc (snd (push (nth_desc j w (q + ?D)) s'))
      = Some (of_nat (Suc q + ?D + d), acc', s'')"
    "dma_inv rep vmem j w m0 (Suc q + ?D + d) (Suc q + ?D + d) s''"
    "lanesum2 acc' = lanesum2 acc + ?f q + (\<Sum>i<?D + d. ?f (Suc q + i))"
    using Suc.IH[OF inv' p' stop' go', of ?acc] unfolding s'(3) by blast
  have sum: "(\<Sum>i<?D + Suc d. ?f (q + i)) = ?f q + (\<Sum>i<?D + d. ?f (Suc q + i))"
    by (simp add: sum.lessThan_Suc_shift del: sum.lessThan_Suc)
  have clk: "\<not> j_deadline j \<le> clk k" using Suc.prems(4)[of 0] by simp
  have step: "of_nat (q + ?D) + 1 = (of_nat (Suc q + ?D) :: u64)" "of_nat q + 1 = (of_nat (Suc q) :: u64)" by simp_all
  have "dma_loop push pop vmem j w clk k False (of_nat ((q + ?D) mod unat (w_nchunks w))) (of_nat (q + ?D)) (of_nat q) acc s
      = dma_loop push pop vmem j w clk (Suc k) False (of_nat ((Suc q + ?D) mod unat (w_nchunks w)))
      (of_nat (Suc q + ?D)) (of_nat (Suc q)) ?acc (snd (push (nth_desc j w (q + ?D)) s'))"
    by (subst dma_loop.simps)
       (simp add: lt s'(1) clk desc nth_desc_next[OF wfp] add_slot_def[symmetric] step case_prod_beta Let_def del: of_nat_add of_nat_Suc)
  then show ?case using rec unfolding sum by (auto simp: add.assoc)
qed

lemma run_dma_result:
  assumes wf: "wf_dma j w" and cap: "unat (j_depth j) \<le> cap" and s: "rep s []"
    and p: "unat (j_depth j) + d < 2 ^ 64"
    and stop: "clk d \<ge> j_deadline j" and go: "\<And>i. i < d \<Longrightarrow> clk i < j_deadline j"
  shows "\<exists>s'. run_dma push pop vmem j w clk s = Some
      (\<lparr>o_chunks = of_nat (unat (j_depth j) + d), o_sum = read_sum (vmem s) (w_part w) (unat (j_chunk j))
          (unat (w_nchunks w)) (sampled j) (unat (j_depth j) + d)\<rparr>, s') \<and>
    rep s' [] \<and> (\<forall>a. a \<notin> vtcm_region j w \<longrightarrow> vmem s' a = vmem s a)"
proof -
  let ?D = "unat (j_depth j)"
  have "dma_inv rep vmem j w (vmem s) 0 0 s" using s by (simp add: dma_inv_def)
  from prime_result[OF wf cap this, of ?D] obtain s1 where
    s1: "dma_prime push j w 0 ?D 0 0 s = (of_nat (?D mod unat (w_nchunks w)), of_nat ?D, s1)"
    "dma_inv rep vmem j w (vmem s) (0 + ?D) 0 s1" by auto
  obtain acc' s' where r: "dma_loop push pop vmem j w clk 0 False (of_nat (?D mod unat (w_nchunks w))) (of_nat ?D) 0
      (vzero, vzero) s1 = Some (of_nat (?D + d), acc', s')"
    "dma_inv rep vmem j w (vmem s) (?D + d) (?D + d) s'"
    "lanesum2 acc' = read_sum (vmem s) (w_part w) (unat (j_chunk j)) (unat (w_nchunks w)) (sampled j) (?D + d)"
    using dma_loop_result[OF wf cap s1(2), of d clk 0 "(vzero, vzero)"] p stop go
    by (auto simp: read_sum_def lanesum2_def)
  then show ?thesis
    by (intro exI[of _ s']) (simp add: run_dma_def s1(1) reduce4_eq lanesum2_def dma_inv_def)
qed

end

subsection \<open>Example runs\<close>

definition clock_at :: "nat \<Rightarrow> u64 \<Rightarrow> nat \<Rightarrow> u64" where
  "clock_at n t i = (if i < n then 0 else t)"

definition hvx_job :: job where
  "hvx_job = \<lparr>j_chunk = 1024, j_row = 0, j_dst_row = 0, j_rows = 0, j_slot = 0, j_depth = 1, j_pf = 2,
     j_flags = 0, j_box_w = 128, j_box_h = 8, j_deadline = 10\<rparr>"

definition hvx_worker :: worker where
  "hvx_worker = \<lparr>w_dma = False, w_part = 4096, w_part_start = 0, w_part_len = 4096, w_nchunks = 4, w_vtcm = 0\<rparr>"

definition dma_job :: job where
  "dma_job = \<lparr>j_chunk = 1024, j_row = 512, j_dst_row = 640, j_rows = 2, j_slot = 1280, j_depth = 2, j_pf = 0,
     j_flags = 1, j_box_w = 0, j_box_h = 0, j_deadline = 10\<rparr>"

definition dma_worker :: worker where
  "dma_worker = \<lparr>w_dma = True, w_part = 65536, w_part_start = 0, w_part_len = 4096, w_nchunks = 4, w_vtcm = 0\<rparr>"

definition dma_start :: lab_dma where
  "dma_start = (lab_example 1)\<lparr>lmem := hash_byte 7\<rparr>"

subsection \<open>Properties\<close>

text \<open>C6. \<open>hvx_reader_checksum\<close>: when the clock passes the deadline at its \<open>d\<close>-th reading, the HVX
  reader returns, it has read \<open>d + 1\<close> chunks, and its sum is that of all words of these chunks. Each
  l2fetch box that it issued lies in its part.\<close>

theorem hvx_reader_checksum:
  assumes "wf_part j w" "512 dvd unat (j_chunk j)" "unat (j_box_w j) * unat (j_box_h j) = unat (j_chunk j)"
    and "clk d \<ge> j_deadline j" "\<And>i. i < d \<Longrightarrow> clk i < j_deadline j"
  shows "\<exists>boxes. run_hvx m j w clk = Some
      (\<lparr>o_chunks = of_nat (Suc d), o_sum = read_sum m (w_part w) (unat (j_chunk j)) (unat (w_nchunks w)) False (Suc d)\<rparr>, boxes)
    \<and> list_all (box_ok w) boxes"
  using assms by (intro run_hvx_spec)

theorem hvx_reader_checksum_witness:
  "\<exists>boxes. run_hvx (hash_byte 7) hvx_job hvx_worker (clock_at 4 10) =
      Some (\<lparr>o_chunks = of_nat (Suc 4), o_sum = read_sum (hash_byte 7) 4096 1024 4 False (Suc 4)\<rparr>, boxes)
    \<and> list_all (box_ok hvx_worker) boxes"
  using hvx_reader_checksum[of hvx_job hvx_worker "clock_at 4 10" 4 "hash_byte 7"]
  by (simp add: wf_part_def hvx_job_def hvx_worker_def clock_at_def)

text \<open>C5. \<open>dma_reader_checksum\<close>: on the queue of the shim, whose capacity is 256 descriptors, the DMA
  reader with \<open>depth\<close> slots returns. It has popped each descriptor that it pushed (the queue is empty
  again), it has read \<open>depth + d\<close> chunks, its sum is that of these chunks in the order of the part, and
  no byte outside its slots has changed.\<close>

theorem dma_reader_checksum:
  assumes "wf_dma j w" "unat (j_depth j) \<le> 256" "lab_rep qid s []" "unat (j_depth j) + d < 2 ^ 64"
    and "clk d \<ge> j_deadline j" "\<And>i. i < d \<Longrightarrow> clk i < j_deadline j"
  shows "\<exists>s'. run_dma (dma_queue_push t qid) (dma_queue_pop qid) lmem j w clk s = Some
      (\<lparr>o_chunks = of_nat (unat (j_depth j) + d), o_sum = read_sum (lmem s) (w_part w) (unat (j_chunk j))
          (unat (w_nchunks w)) (sampled j) (unat (j_depth j) + d)\<rparr>, s') \<and>
    lab_rep qid s' [] \<and> (\<forall>a. a \<notin> vtcm_region j w \<longrightarrow> lmem s' a = lmem s a)"
  using assms by (intro lab.run_dma_result)

theorem dma_reader_checksum_witness:
  "\<exists>s'. run_dma (dma_queue_push 5 1) (dma_queue_pop 1) lmem dma_job dma_worker (clock_at 4 10) dma_start =
      Some (\<lparr>o_chunks = of_nat (2 + 4), o_sum = read_sum (hash_byte 7) 65536 1024 4 False (2 + 4)\<rparr>, s') \<and> lab_rep 1 s' []"
proof -
  have wf: "wf_dma dma_job dma_worker"
    by (simp add: wf_dma_def wf_part_def dma_job_def dma_worker_def vtcm_region_def part_region_def sampled_def DDRBW_FLAG_SUM_def)
  have rep: "lab_rep 1 dma_start []" using lab_rep_example[of 1] by (simp add: dma_start_def lab_rep_def)
  have mem: "lmem dma_start = hash_byte 7" by (simp add: dma_start_def)
  have "\<not> sampled dma_job" by (simp add: sampled_def dma_job_def DDRBW_FLAG_SUM_def)
  then show ?thesis
    using dma_reader_checksum[OF wf _ rep, of 4 "clock_at 4 10" 5] mem
    by (auto simp: clock_at_def dma_job_def dma_worker_def)
qed

end
