(* ===== verification/DspEnv.thy ===== *)
theory DspEnv
  imports DmaQueue
begin

text \<open>
  The state of the DSP library of the DDR probe (the static structure \<open>g\<close> of
  \<open>tools/ddrbw/dsp/ddrbw_dsp.c\<close>), the constants that it shares with the host
  (\<open>ddrbw_common.h\<close>), and its environment.

  The environment is the operating system of the DSP: QuRT, the HAP services and \<open>dspqueue\<close>. They are
  not in the repository. Each call of a service is a field of the record \<open>os\<close>, a function on a world
  of an arbitrary type \<open>'w\<close>, and the operations of the library are functions of this record. The
  lemmas hold for each environment.
\<close>

subsection \<open>Codes\<close>

type_synonym aee = u32

definition AEE_SUCCESS :: aee where "AEE_SUCCESS = 0"
definition AEE_EFAILED :: aee where "AEE_EFAILED = 0x80000401"
definition AEE_ENOMEMORY :: aee where "AEE_ENOMEMORY = 0x80000402"
definition AEE_EEXPIRED :: aee where "AEE_EEXPIRED = 0x8000040C"
definition AEE_EBADPARM :: aee where "AEE_EBADPARM = 0x8000040E"
definition AEE_EITEMBUSY :: aee where "AEE_EITEMBUSY = 0x80000420"
definition AEE_EWOULDBLOCK :: aee where "AEE_EWOULDBLOCK = 516"

lemmas aee_codes = AEE_SUCCESS_def AEE_EFAILED_def AEE_ENOMEMORY_def AEE_EEXPIRED_def AEE_EBADPARM_def
  AEE_EITEMBUSY_def AEE_EWOULDBLOCK_def

definition DDRBW_VOTE_BACKEND :: u32 where "DDRBW_VOTE_BACKEND = 0x01"
definition DDRBW_VOTE_DDRPERF :: u32 where "DDRBW_VOTE_DDRPERF = 0x02"
definition DDRBW_VOTE_BUSPERF :: u32 where "DDRBW_VOTE_BUSPERF = 0x04"
definition DDRBW_VOTE_EXPV :: u32 where "DDRBW_VOTE_EXPV = 0x08"
definition DDRBW_VOTE_CENG :: u32 where "DDRBW_VOTE_CENG = 0x10"
definition DDRBW_VOTE_BW :: u32 where "DDRBW_VOTE_BW = 0x20"
definition DDRBW_VOTE_ALL :: u32 where "DDRBW_VOTE_ALL = 0x3F"

definition DDRBW_OK :: u32 where "DDRBW_OK = 0"
definition DDRBW_E_PARAM :: u32 where "DDRBW_E_PARAM = 1"
definition DDRBW_E_NOMAP :: u32 where "DDRBW_E_NOMAP = 2"
definition DDRBW_E_VTCM :: u32 where "DDRBW_E_VTCM = 3"
definition DDRBW_E_THREAD :: u32 where "DDRBW_E_THREAD = 4"
definition DDRBW_E_NOMEM :: u32 where "DDRBW_E_NOMEM = 5"
definition DDRBW_E_TIMEOUT :: u32 where "DDRBW_E_TIMEOUT = 6"

lemmas status_codes = DDRBW_OK_def DDRBW_E_PARAM_def DDRBW_E_NOMAP_def DDRBW_E_VTCM_def DDRBW_E_THREAD_def
  DDRBW_E_NOMEM_def DDRBW_E_TIMEOUT_def

text \<open>The indices of the return codes and of the facts, in the order of the enumerations.\<close>

datatype ddrbw_rc = RC_APPTYPE | RC_PROTECTED | RC_DDRPERF | RC_COREPERF | RC_BUSPERF | RC_EXPV | RC_DCVS
  | RC_HVX | RC_HMX | RC_CENG | RC_MIPSBW | RC_CAPS | RC_VTCM

definition DDRBW_RC_COUNT :: nat where "DDRBW_RC_COUNT = 13"
definition DDRBW_RC_NOT_SENT :: u32 where "DDRBW_RC_NOT_SENT = 0x7fffffff"

fun rc_index :: "ddrbw_rc \<Rightarrow> nat" where
  "rc_index RC_APPTYPE = 0" | "rc_index RC_PROTECTED = 1" | "rc_index RC_DDRPERF = 2"
| "rc_index RC_COREPERF = 3" | "rc_index RC_BUSPERF = 4" | "rc_index RC_EXPV = 5" | "rc_index RC_DCVS = 6"
| "rc_index RC_HVX = 7" | "rc_index RC_HMX = 8" | "rc_index RC_CENG = 9" | "rc_index RC_MIPSBW = 10"
| "rc_index RC_CAPS = 11" | "rc_index RC_VTCM = 12"

datatype ddrbw_fact = FACT_ARCH | FACT_HVX | FACT_VTCM | FACT_MAX_MIPS | FACT_MAX_BUS_BW | FACT_CORE_HZ
  | FACT_HMX_HZ | FACT_DCVS | FACT_CAPS | FACT_PRIO

definition DDRBW_FACT_COUNT :: nat where "DDRBW_FACT_COUNT = 10"

fun fact_index :: "ddrbw_fact \<Rightarrow> nat" where
  "fact_index FACT_ARCH = 0" | "fact_index FACT_HVX = 1" | "fact_index FACT_VTCM = 2"
| "fact_index FACT_MAX_MIPS = 3" | "fact_index FACT_MAX_BUS_BW = 4" | "fact_index FACT_CORE_HZ = 5"
| "fact_index FACT_HMX_HZ = 6" | "fact_index FACT_DCVS = 7" | "fact_index FACT_CAPS = 8" | "fact_index FACT_PRIO = 9"

lemma rc_index_inj [simp]: "rc_index a = rc_index b \<longleftrightarrow> a = b"
  by (cases a; cases b) simp_all

lemma rc_index_less [simp]: "rc_index a < DDRBW_RC_COUNT"
  by (cases a) (simp_all add: DDRBW_RC_COUNT_def)

lemma fact_index_inj [simp]: "fact_index a = fact_index b \<longleftrightarrow> a = b"
  by (cases a; cases b) simp_all

lemma fact_index_less [simp]: "fact_index a < DDRBW_FACT_COUNT"
  by (cases a) (simp_all add: DDRBW_FACT_COUNT_def)

definition DDRBW_QMODE_PEEK :: u32 where "DDRBW_QMODE_PEEK = 0"
definition DDRBW_QMODE_BACKEND :: u32 where "DDRBW_QMODE_BACKEND = 1"
definition DDRBW_QMODE_SPIN :: u32 where "DDRBW_QMODE_SPIN = 2"
definition DDRBW_QMODE_MASK :: u32 where "DDRBW_QMODE_MASK = 0x0F"
definition DDRBW_QCMD_ECHO :: u32 where "DDRBW_QCMD_ECHO = 1"
definition DDRBW_QCMD_STOP :: u32 where "DDRBW_QCMD_STOP = 2"

record ddrbw_qmsg =
  q_seq :: u32
  q_cmd :: u32
  q_tdsp :: u64

definition DDRBW_FENCE_DSP :: nat where "DDRBW_FENCE_DSP = 128"
definition DDRBW_FENCE_BYTES :: u32 where "DDRBW_FENCE_BYTES = 65536"

subsection \<open>The power requests\<close>

text \<open>
  The requests with the fields that the library sets. The other fields are 0. The corners and the
  clock levels are the symbols of the HAP headers.
\<close>

datatype vcorner = HAP_DCVS_VCORNER_MAX | HAP_DCVS_EXP_VCORNER_MAX

record dcvs_v3 =
  d_set_dcvs_enable :: bool
  d_dcvs_enable :: bool
  d_bus :: "vcorner option"
  d_core :: "vcorner option"
  d_sleep_disable :: "bool option"
  d_helpers :: "u32 list"

datatype power_request =
    HAP_power_set_apptype
  | HAP_power_set_DCVS_v3 dcvs_v3
  | HAP_power_set_HVX bool
  | HAP_power_set_HMX_v2 bool bool vcorner
  | HAP_power_set_CENG_bus vcorner
  | HAP_power_set_mips_bw u32 u32 u64 nat nat

datatype power_query = HAP_power_get_max_mips | HAP_power_get_max_bus_bw | HAP_power_get_clk_Freq
  | HAP_power_get_hmx_core_clk_Freq | HAP_power_get_dcvsEnabled

datatype power_client = Client_backend | Client_ceng | Client_bw

subsection \<open>The environment\<close>

text \<open>
  \<open>AEE_ERESOURCENOTFOUND\<close> is a constant of the SDK that no file of the repository gives. \<open>os_alloc\<close> is \<open>calloc\<close> and \<open>memalign\<close> (0 is \<open>NULL\<close>). \<open>os_mmap2\<close> gives a pointer of 32 bits, where 0
  and \<open>(void *) -1\<close> are failures. \<open>os_protected\<close>, \<open>os_ddr_perf\<close>, \<open>os_core_perf\<close> and \<open>os_bus_perf\<close> are the
  helpers of the DSP that extend a DCVS request.
\<close>

record 'w os =
  hvx_arch :: nat
  AEE_ERESOURCENOTFOUND :: aee
  os_qtimer :: "'w \<Rightarrow> u64 \<times> 'w"
  os_pcycles :: "'w \<Rightarrow> u64 \<times> 'w"
  os_sleep :: "nat \<Rightarrow> 'w \<Rightarrow> 'w"
  os_alloc :: "nat \<Rightarrow> 'w \<Rightarrow> nat \<times> 'w"
  os_free :: "nat \<Rightarrow> 'w \<Rightarrow> 'w"
  os_mmap2 :: "u32 \<Rightarrow> i32 \<Rightarrow> 'w \<Rightarrow> u32 \<times> 'w"
  os_munmap2 :: "u32 \<Rightarrow> u32 \<Rightarrow> 'w \<Rightarrow> 'w"
  os_power_set :: "power_client \<Rightarrow> power_request \<Rightarrow> 'w \<Rightarrow> u32 \<times> 'w"
  os_power_get :: "power_query \<Rightarrow> 'w \<Rightarrow> (u32 \<times> u64) \<times> 'w"
  os_protected :: "dcvs_v3 \<Rightarrow> 'w \<Rightarrow> (u32 \<times> dcvs_v3) \<times> 'w"
  os_ddr_perf :: "dcvs_v3 \<Rightarrow> 'w \<Rightarrow> (u32 \<times> dcvs_v3) \<times> 'w"
  os_core_perf :: "dcvs_v3 \<Rightarrow> 'w \<Rightarrow> (u32 \<times> dcvs_v3) \<times> 'w"
  os_bus_perf :: "dcvs_v3 \<Rightarrow> 'w \<Rightarrow> (u32 \<times> dcvs_v3) \<times> 'w"
  os_exp_vcorners :: "dcvs_v3 \<Rightarrow> vcorner \<Rightarrow> 'w \<Rightarrow> (u32 \<times> dcvs_v3) \<times> 'w"
  os_dcvs_caps :: "'w \<Rightarrow> (u32 \<times> u64) \<times> 'w"
  os_query_vtcm :: "'w \<Rightarrow> (u32 \<times> u32) \<times> 'w"
  os_acquire :: "u32 \<Rightarrow> 'w \<Rightarrow> u32 \<times> 'w"
  os_vtcm_ptr :: "u32 \<Rightarrow> 'w \<Rightarrow> (u32 \<times> u32 \<times> u32) \<times> 'w"
  os_release :: "u32 \<Rightarrow> 'w \<Rightarrow> 'w"
  os_hvx_units :: "'w \<Rightarrow> u32 \<times> 'w"
  os_priority :: "'w \<Rightarrow> i32 \<times> 'w"
  os_thread_create :: "nat \<Rightarrow> i32 \<Rightarrow> 'w \<Rightarrow> bool \<times> 'w"
  os_dma_size :: "u32 \<Rightarrow> nat"
  os_queue_import :: "u64 \<Rightarrow> 'w \<Rightarrow> (aee \<times> nat) \<times> 'w"
  os_queue_close :: "nat \<Rightarrow> 'w \<Rightarrow> 'w"
  os_queue_read :: "nat \<Rightarrow> 'w \<Rightarrow> (aee \<times> u32 \<times> ddrbw_qmsg) \<times> 'w"
  os_queue_write :: "nat \<Rightarrow> u32 \<Rightarrow> ddrbw_qmsg \<Rightarrow> 'w \<Rightarrow> aee \<times> 'w"
  os_queue_peek :: "nat \<Rightarrow> 'w \<Rightarrow> aee \<times> 'w"
  os_thread_join :: "nat \<Rightarrow> 'w \<Rightarrow> 'w"

subsection \<open>The state of the library\<close>

definition DDRBW_MAX_THREADS :: u32 where "DDRBW_MAX_THREADS = 8"
definition DDRBW_MAX_MAPS :: nat where "DDRBW_MAX_MAPS = 8"
definition DDRBW_STACK_BYTES :: nat where "DDRBW_STACK_BYTES = 32 * 1024"
definition DDRBW_BARRIER_US :: u64 where "DDRBW_BARRIER_US = 1000000"

record map_entry =
  mfd :: i32
  va :: u32
  msize :: u32

record lib =
  setup_done :: bool
  rctx :: u32
  vtcm :: u32
  vtcm_size :: u32
  n_hvx :: u32
  maps :: "map_entry list"
  queue :: nat
  qthread :: nat
  qstack :: nat
  qmode :: u32
  qserved :: u32
  qerr :: aee

text \<open>The state after the load of the library: the static structure is zero.\<close>

definition lib_init :: lib where
  "lib_init = \<lparr>setup_done = False, rctx = 0, vtcm = 0, vtcm_size = 0, n_hvx = 0,
     maps = replicate DDRBW_MAX_MAPS \<lparr>mfd = 0, va = 0, msize = 0\<rparr>, queue = 0, qthread = 0, qstack = 0,
     qmode = 0, qserved = 0, qerr = 0\<rparr>"

definition us_to_ticks :: "u64 \<Rightarrow> u64" where
  "us_to_ticks us = us * 192 div 10"

text \<open>The conversion does not wrap for each time of 32 bits in microseconds, and it is monotone there.\<close>

lemma us_to_ticks_u32:
  "unat (us_to_ticks (ucast (us :: u32))) = unat us * 192 div 10"
proof -
  have "unat us * 192 < 2 ^ 64" using unat_lt2p[of us] by simp
  then show ?thesis
    by (simp add: us_to_ticks_def unat_div unat_mult_le unat_ucast_up)
qed

end
