(* ===== verification/DspMaps.thy ===== *)
theory DspMaps
  imports DspEnv
begin

text \<open>
  The mappings of the DSP library: \<open>find_map\<close>, \<open>ddrbw_map\<close> and \<open>ddrbw_unmap\<close> of
  \<open>tools/ddrbw/dsp/ddrbw_dsp.c\<close>. The table has \<open>DDRBW_MAX_MAPS\<close> entries, and an entry is free when its
  address is null. The abstract view of the table is a partial map from file descriptors to
  (address, size), and the lemmas show that the two operations are the update and the removal of it.
\<close>

subsection \<open>Operations\<close>

fun find_from :: "(map_entry \<Rightarrow> bool) \<Rightarrow> nat \<Rightarrow> map_entry list \<Rightarrow> nat option" where
  "find_from P i [] = None"
| "find_from P i (m # ms) = (if P m then Some i else find_from P (Suc i) ms)"

definition find_map :: "lib \<Rightarrow> i32 \<Rightarrow> nat option" where
  "find_map g f = find_from (\<lambda>m. va m \<noteq> 0 \<and> mfd m = f) 0 (maps g)"

definition bad_va :: "u32 \<Rightarrow> bool" where
  "bad_va p \<longleftrightarrow> p = -1 \<or> p = 0"

fun map_retry :: "'w os \<Rightarrow> u32 \<Rightarrow> i32 \<Rightarrow> nat \<Rightarrow> u32 \<Rightarrow> 'w \<Rightarrow> u32 \<times> 'w" where
  "map_retry os sz f 0 p w = (p, w)"
| "map_retry os sz f (Suc n) p w =
     (if bad_va p then let (p, w) = os_mmap2 os sz f w in map_retry os sz f n p w else (p, w))"

definition ddrbw_map :: "'w os \<Rightarrow> i32 \<Rightarrow> u32 \<Rightarrow> lib \<Rightarrow> 'w \<Rightarrow> (aee \<times> u64) \<times> lib \<times> 'w" where
  "ddrbw_map os f sz g w =
     (if find_map g f \<noteq> None then ((AEE_SUCCESS, 0), g, w)
      else case find_from (\<lambda>m. va m = 0) 0 (maps g) of
        None \<Rightarrow> ((AEE_ENOMEMORY, 0), g, w)
      | Some i \<Rightarrow>
          let (t0, w) = os_qtimer os w;
              (p, w) = map_retry os sz f 2 (-1) w;
              (t1, w) = os_qtimer os w
          in if bad_va p then ((AEE_EFAILED, t1 - t0), g, w)
             else ((AEE_SUCCESS, t1 - t0), g\<lparr>maps := (maps g)[i := \<lparr>mfd = f, va = p, msize = sz\<rparr>]\<rparr>, w))"

definition ddrbw_unmap :: "'w os \<Rightarrow> i32 \<Rightarrow> lib \<Rightarrow> 'w \<Rightarrow> (aee \<times> u64) \<times> lib \<times> 'w" where
  "ddrbw_unmap os f g w =
     (case find_map g f of
        None \<Rightarrow> ((AEE_EBADPARM, 0), g, w)
      | Some i \<Rightarrow>
          let (t0, w) = os_qtimer os w;
              w = os_munmap2 os (va (maps g ! i)) (msize (maps g ! i)) w;
              (t1, w) = os_qtimer os w
          in ((AEE_SUCCESS, t1 - t0), g\<lparr>maps := (maps g)[i := (maps g ! i)\<lparr>va := 0\<rparr>]\<rparr>, w))"

subsection \<open>The search\<close>

lemma find_from_None: "find_from P i ms = None \<longleftrightarrow> (\<forall>m \<in> set ms. \<not> P m)"
  by (induction ms arbitrary: i) auto

lemma find_from_Some:
  "find_from P i ms = Some k \<Longrightarrow> i \<le> k \<and> k - i < length ms \<and> P (ms ! (k - i)) \<and> (\<forall>l < k - i. \<not> P (ms ! l))"
proof (induction ms arbitrary: i)
  case (Cons m ms)
  show ?case
  proof (cases "P m")
    case True
    then show ?thesis using Cons.prems by auto
  next
    case False
    then have r: "find_from P (Suc i) ms = Some k" using Cons.prems by simp
    note ih = Cons.IH[OF r]
    have "\<not> P ((m # ms) ! l)" if "l < k - i" for l using that ih False by (cases l) auto
    then show ?thesis using ih by (auto simp: nth_Cons')
  qed
qed simp

subsection \<open>The abstract table\<close>

definition live :: "map_entry \<Rightarrow> bool" where "live m \<longleftrightarrow> va m \<noteq> 0"

definition fd_map :: "lib \<Rightarrow> i32 \<rightharpoonup> u32 \<times> u32" where
  "fd_map g f = map_option (\<lambda>i. (va (maps g ! i), msize (maps g ! i))) (find_map g f)"

definition maps_ok :: "lib \<Rightarrow> bool" where
  "maps_ok g \<longleftrightarrow> length (maps g) = DDRBW_MAX_MAPS \<and> distinct (map mfd (filter live (maps g)))"

lemma fd_distinct:
  assumes "maps_ok g" "i < length (maps g)" "k < length (maps g)" "live (maps g ! i)" "live (maps g ! k)"
    and "mfd (maps g ! i) = mfd (maps g ! k)"
  shows "i = k"
proof -
  have *: "distinct (map mfd (filter live ms)) \<Longrightarrow> i < k \<Longrightarrow> k < length ms \<Longrightarrow> live (ms ! i) \<Longrightarrow> live (ms ! k) \<Longrightarrow>
      mfd (ms ! i) \<noteq> mfd (ms ! k)" for ms i k
  proof (induction ms arbitrary: i k)
    case (Cons m ms)
    then show ?case by (cases i; cases k) (auto simp: in_set_conv_nth image_iff split: if_splits)
  qed simp
  show ?thesis
  proof (rule ccontr)
    assume "i \<noteq> k"
    then have "i < k \<or> k < i" by auto
    moreover have "distinct (map mfd (filter live (maps g)))" using assms(1) by (simp add: maps_ok_def)
    ultimately show False using *[of "maps g" i k] *[of "maps g" k i] assms(2-6) by auto
  qed
qed

lemma find_map_iff:
  assumes "maps_ok g"
  shows "find_map g f = Some i \<longleftrightarrow> i < length (maps g) \<and> live (maps g ! i) \<and> mfd (maps g ! i) = f"
proof
  assume "find_map g f = Some i"
  then show "i < length (maps g) \<and> live (maps g ! i) \<and> mfd (maps g ! i) = f"
    unfolding find_map_def by (auto dest: find_from_Some simp: live_def)
next
  assume i: "i < length (maps g) \<and> live (maps g ! i) \<and> mfd (maps g ! i) = f"
  then have "find_map g f \<noteq> None"
    unfolding find_map_def by (auto simp: find_from_None live_def dest!: bspec[of _ _ "maps g ! i"])
  then obtain k where k: "find_map g f = Some k" by auto
  then have "k < length (maps g) \<and> live (maps g ! k) \<and> mfd (maps g ! k) = f"
    unfolding find_map_def by (auto dest: find_from_Some simp: live_def)
  then have "k = i" using i fd_distinct[OF assms, of k i] by simp
  then show "find_map g f = Some i" using k by simp
qed

lemma find_map_None:
  "find_map g f = None \<longleftrightarrow> (\<forall>m \<in> set (maps g). live m \<longrightarrow> mfd m \<noteq> f)"
  by (auto simp: find_map_def find_from_None live_def)

lemma fd_map_None: "fd_map g f = None \<longleftrightarrow> find_map g f = None"
  by (simp add: fd_map_def)

lemma fd_map_Some:
  assumes "maps_ok g"
  shows "fd_map g f = Some (p, s) \<longleftrightarrow> (\<exists>i < length (maps g). maps g ! i = \<lparr>mfd = f, va = p, msize = s\<rparr> \<and> p \<noteq> 0)"
  using find_map_iff[OF assms] by (auto simp: fd_map_def live_def)

text \<open>Writing one entry keeps the invariant when no other live entry has its descriptor.\<close>

lemma maps_ok_update:
  assumes ok: "maps_ok g" and i: "i < length (maps g)"
    and new: "live m \<Longrightarrow> \<forall>k < length (maps g). k \<noteq> i \<longrightarrow> live (maps g ! k) \<longrightarrow> mfd (maps g ! k) \<noteq> mfd m"
  shows "maps_ok (g\<lparr>maps := (maps g)[i := m]\<rparr>)"
proof -
  let ?ms = "(maps g)[i := m]"
  have split: "maps g = take i (maps g) @ maps g ! i # drop (Suc i) (maps g)" using i by (rule id_take_nth_drop)
  have upd: "?ms = take i (maps g) @ m # drop (Suc i) (maps g)" using i by (rule upd_conv_take_nth_drop)
  have "distinct (map mfd (filter live (take i (maps g) @ maps g ! i # drop (Suc i) (maps g))))"
    using ok split by (simp add: maps_ok_def)
  then have d: "distinct (map mfd (filter live (take i (maps g)))) \<and> distinct (map mfd (filter live (drop (Suc i) (maps g))))
      \<and> set (map mfd (filter live (take i (maps g)))) \<inter> set (map mfd (filter live (drop (Suc i) (maps g)))) = {}"
    by (auto split: if_splits)
  have "mfd x \<noteq> mfd m" if lm: "live m" and xs: "x \<in> set (take i (maps g)) \<union> set (drop (Suc i) (maps g))" and lx: "live x" for x
  proof -
    obtain k where "k < length (maps g)" "k \<noteq> i" "x = maps g ! k"
      using xs
    proof
      assume "x \<in> set (take i (maps g))"
      then obtain k where "k < i" "x = maps g ! k" using i by (auto simp: in_set_conv_nth)
      then show thesis using i by (intro that[of k]) auto
    next
      assume "x \<in> set (drop (Suc i) (maps g))"
      then obtain k where "k < length (maps g) - Suc i" "x = maps g ! (Suc i + k)" using i by (auto simp: in_set_conv_nth)
      then show thesis by (intro that[of "Suc i + k"]) auto
    qed
    then show ?thesis using new[OF lm] lx by auto
  qed
  then have "live m \<Longrightarrow> mfd m \<notin> mfd ` {x \<in> set (take i (maps g)). live x} \<union> mfd ` {x \<in> set (drop (Suc i) (maps g)). live x}"
    by force
  then have "distinct (map mfd (filter live ?ms))"
    unfolding upd using d by (cases "live m") auto
  then show ?thesis using ok by (simp add: maps_ok_def)
qed

lemma fd_map_update:
  assumes ok: "maps_ok g" and i: "i < length (maps g)" and ok': "maps_ok (g\<lparr>maps := (maps g)[i := m]\<rparr>)"
    and f: "live m \<or> live (maps g ! i) \<Longrightarrow> mfd m = f" "live (maps g ! i) \<Longrightarrow> mfd (maps g ! i) = f"
  shows "fd_map (g\<lparr>maps := (maps g)[i := m]\<rparr>) x =
    (if x = f \<and> (live m \<or> live (maps g ! i)) then (if live m then Some (va m, msize m) else None) else fd_map g x)"
proof -
  let ?g = "g\<lparr>maps := (maps g)[i := m]\<rparr>"
  have other: "find_map ?g x = Some k \<longleftrightarrow> find_map g x = Some k" if "k \<noteq> i" for k
    using that unfolding find_map_iff[OF ok] find_map_iff[OF ok'] by simp
  have this_new: "find_map ?g x = Some i \<longleftrightarrow> live m \<and> mfd m = x" using i unfolding find_map_iff[OF ok'] by simp
  have this_old: "find_map g x = Some i \<longleftrightarrow> live (maps g ! i) \<and> mfd (maps g ! i) = x"
    using i unfolding find_map_iff[OF ok] by simp
  show ?thesis
  proof (cases "find_map ?g x")
    case None
    then have "\<not> (live m \<and> mfd m = x)" using this_new by simp
    moreover have "find_map g x = None \<or> find_map g x = Some i" using None other by (cases "find_map g x") auto
    ultimately show ?thesis using None this_old f by (auto simp: fd_map_def)
  next
    case (Some k)
    show ?thesis
    proof (cases "k = i")
      case True
      then show ?thesis using Some this_new f i by (auto simp: fd_map_def)
    next
      case False
      then have "find_map g x = Some k" using other[OF False] Some by simp
      moreover have "\<not> (live m \<and> mfd m = x)" "\<not> (live (maps g ! i) \<and> mfd (maps g ! i) = x)"
        using False Some this_new this_old calculation by auto
      ultimately show ?thesis using Some False f by (auto simp: fd_map_def)
    qed
  qed
qed

subsection \<open>The operations on the abstract table\<close>

lemma find_free:
  assumes "maps_ok g" "find_from (\<lambda>m. va m = 0) 0 (maps g) = Some i"
  shows "i < length (maps g)" "\<not> live (maps g ! i)"
  using find_from_Some[OF assms(2)] by (auto simp: live_def)

lemma map_refines:
  assumes ok: "maps_ok g" and r: "ddrbw_map os f sz g w = ((rc, t), g', w')"
  shows "maps_ok g' \<and> g' = g\<lparr>maps := maps g'\<rparr> \<and>
    (if fd_map g f \<noteq> None then rc = AEE_SUCCESS \<and> g' = g
     else if \<forall>m \<in> set (maps g). live m then rc = AEE_ENOMEMORY \<and> g' = g
     else rc = AEE_EFAILED \<and> g' = g \<or>
       rc = AEE_SUCCESS \<and> (\<exists>p. \<not> bad_va p \<and> fd_map g' = (fd_map g)(f \<mapsto> (p, sz))))"
proof (cases "find_map g f")
  case (Some k)
  then show ?thesis using r ok by (auto simp: ddrbw_map_def fd_map_def)
next
  case none: None
  show ?thesis
  proof (cases "find_from (\<lambda>m. va m = 0) 0 (maps g)")
    case None
    then have "\<forall>m \<in> set (maps g). live m" by (simp add: find_from_None live_def)
    then show ?thesis using r ok none None by (simp add: ddrbw_map_def fd_map_def)
  next
    case (Some i)
    note free = find_free[OF ok Some]
    have full: "\<not> (\<forall>m \<in> set (maps g). live m)" using free nth_mem by blast
    obtain t0 w0 where w0: "os_qtimer os w = (t0, w0)" by fastforce
    obtain p w1 where w1: "map_retry os sz f 2 (-1) w0 = (p, w1)" by fastforce
    obtain t1 w2 where w2: "os_qtimer os w1 = (t1, w2)" by fastforce
    show ?thesis
    proof (cases "bad_va p")
      case True
      then show ?thesis using r ok none full Some w0 w1 w2 by (auto simp: ddrbw_map_def fd_map_def)
    next
      case False
      let ?m = "\<lparr>mfd = f, va = p, msize = sz\<rparr>"
      have g': "g' = g\<lparr>maps := (maps g)[i := ?m]\<rparr>" "rc = AEE_SUCCESS"
        using r none Some w0 w1 w2 False by (auto simp: ddrbw_map_def)
      have live: "live ?m" using False by (simp add: live_def bad_va_def)
      have ok': "maps_ok (g\<lparr>maps := (maps g)[i := ?m]\<rparr>)"
        using none free by (intro maps_ok_update[OF ok]) (auto simp: find_map_None)
      have "fd_map (g\<lparr>maps := (maps g)[i := ?m]\<rparr>) x = ((fd_map g)(f \<mapsto> (p, sz))) x" for x
        by (subst fd_map_update[OF ok free(1) ok', where f = f]) (use free live in auto)
      then have "fd_map g' = (fd_map g)(f \<mapsto> (p, sz))" unfolding g' by blast
      then show ?thesis using g' ok' False none full by (auto simp: fd_map_def)
    qed
  qed
qed

lemma unmap_refines:
  assumes ok: "maps_ok g" and r: "ddrbw_unmap os f g w = ((rc, t), g', w')"
  shows "maps_ok g' \<and> g' = g\<lparr>maps := maps g'\<rparr> \<and> fd_map g' = (fd_map g)(f := None) \<and>
    rc = (if fd_map g f = None then AEE_EBADPARM else AEE_SUCCESS)"
proof (cases "find_map g f")
  case None
  then show ?thesis using r ok by (auto simp: ddrbw_unmap_def fd_map_def)
next
  case (Some i)
  have i: "i < length (maps g)" "live (maps g ! i)" "mfd (maps g ! i) = f" using Some find_map_iff[OF ok] by auto
  let ?m = "(maps g ! i)\<lparr>va := 0\<rparr>"
  have g': "g' = g\<lparr>maps := (maps g)[i := ?m]\<rparr>" "rc = AEE_SUCCESS"
    using r Some by (auto simp: ddrbw_unmap_def Let_def split: prod.splits)
  have ok': "maps_ok (g\<lparr>maps := (maps g)[i := ?m]\<rparr>)"
    by (intro maps_ok_update[OF ok i(1)]) (simp add: live_def)
  have "fd_map (g\<lparr>maps := (maps g)[i := ?m]\<rparr>) x = ((fd_map g)(f := None)) x" for x
    by (subst fd_map_update[OF ok i(1) ok', where f = f]) (use i in \<open>auto simp: live_def\<close>)
  then have "fd_map g' = (fd_map g)(f := None)" unfolding g' by blast
  then show ?thesis using g' ok' Some by (auto simp: fd_map_def)
qed

lemma maps_ok_init: "maps_ok lib_init"
  by (simp add: maps_ok_def lib_init_def live_def)

subsection \<open>Properties\<close>

text \<open>An environment whose mappings succeed, for the examples.\<close>

definition quiet_os :: "nat os" where
  "quiet_os = \<lparr>hvx_arch = 81, AEE_ERESOURCENOTFOUND = 0x80000440, os_qtimer = (\<lambda>w. (of_nat w, Suc w)), os_pcycles = (\<lambda>w. (of_nat w, w)),
     os_sleep = (\<lambda>_ w. Suc w), os_alloc = (\<lambda>_ w. (Suc w, Suc w)), os_free = (\<lambda>_ w. w),
     os_mmap2 = (\<lambda>_ f w. (0x10000000 + 0x1000000 * f, w)), os_munmap2 = (\<lambda>_ _ w. w),
     os_power_set = (\<lambda>_ _ w. (0, w)), os_power_get = (\<lambda>_ w. ((0, 100), w)),
     os_protected = (\<lambda>r w. ((0, r), w)), os_ddr_perf = (\<lambda>r w. ((0, r), w)), os_core_perf = (\<lambda>r w. ((0, r), w)),
     os_bus_perf = (\<lambda>r w. ((0, r), w)), os_exp_vcorners = (\<lambda>r _ w. ((0, r), w)), os_dcvs_caps = (\<lambda>w. ((0, 7), w)),
     os_query_vtcm = (\<lambda>w. ((0, 0x800000), w)), os_acquire = (\<lambda>_ w. (1, w)),
     os_vtcm_ptr = (\<lambda>_ w. ((0, 0xFF000000, 0x800000), w)), os_release = (\<lambda>_ w. w), os_hvx_units = (\<lambda>w. (0x800, w)),
     os_priority = (\<lambda>w. (100, w)), os_thread_create = (\<lambda>_ _ w. (True, w)), os_dma_size = (\<lambda>n. 64 + 64 * unat n),
     os_queue_import = (\<lambda>_ w. ((0, 1), w)), os_queue_close = (\<lambda>_ w. w),
     os_queue_read = (\<lambda>_ w. ((AEE_EWOULDBLOCK, 0, \<lparr>q_seq = 0, q_cmd = 0, q_tdsp = 0\<rparr>), w)),
     os_queue_write = (\<lambda>_ _ _ w. (0, w)), os_queue_peek = (\<lambda>_ w. (0, w)), os_thread_join = (\<lambda>_ w. w)\<rparr>"

text \<open>\<open>map_table\<close>: \<open>ddrbw_map\<close> on a table whose live entries have different descriptors keeps this
  invariant and touches nothing else of the library. A descriptor that is mapped already gives success
  and changes nothing, a full table gives \<open>AEE_ENOMEMORY\<close>, and else the call fails without a change or
  the abstract table gets the new entry with an address that is not null and not -1.\<close>

theorem map_table:
  assumes "maps_ok g" "ddrbw_map os f sz g w = ((rc, t), g', w')"
  shows "maps_ok g' \<and> g' = g\<lparr>maps := maps g'\<rparr> \<and>
    (if fd_map g f \<noteq> None then rc = AEE_SUCCESS \<and> g' = g
     else if \<forall>m \<in> set (maps g). live m then rc = AEE_ENOMEMORY \<and> g' = g
     else rc = AEE_EFAILED \<and> g' = g \<or>
       rc = AEE_SUCCESS \<and> (\<exists>p. \<not> bad_va p \<and> fd_map g' = (fd_map g)(f \<mapsto> (p, sz))))"
  using assms by (rule map_refines)

theorem map_table_witness:
  "maps_ok (fst (snd (ddrbw_map quiet_os 5 4096 lib_init 0)))"
  using map_table[OF maps_ok_init surjective_pairing[THEN trans, OF arg_cong2[where f = Pair, OF surjective_pairing surjective_pairing]],
      of quiet_os 5 4096 0]
  by simp

text \<open>\<open>unmap_table\<close>: \<open>ddrbw_unmap\<close> removes the descriptor from the abstract table, keeps the invariant
  and all other entries, and gives \<open>AEE_EBADPARM\<close> exactly for a descriptor that has no mapping.\<close>

theorem unmap_table:
  assumes "maps_ok g" "ddrbw_unmap os f g w = ((rc, t), g', w')"
  shows "maps_ok g' \<and> g' = g\<lparr>maps := maps g'\<rparr> \<and> fd_map g' = (fd_map g)(f := None) \<and>
    rc = (if fd_map g f = None then AEE_EBADPARM else AEE_SUCCESS)"
  using assms by (rule unmap_refines)

theorem unmap_table_witness:
  "let g = fst (snd (ddrbw_map quiet_os 5 4096 lib_init 0)); g' = fst (snd (ddrbw_unmap quiet_os 5 g 2))
   in fd_map g' 5 = None"
proof -
  define g where "g = fst (snd (ddrbw_map quiet_os 5 4096 lib_init 0))"
  obtain rc t g1 w1 where m: "ddrbw_map quiet_os 5 4096 lib_init 0 = ((rc, t), g1, w1)" by (metis surj_pair)
  have ok: "maps_ok g" using map_refines[OF maps_ok_init m] by (simp add: g_def m)
  obtain rc' t' g' w' where u: "ddrbw_unmap quiet_os 5 g 2 = ((rc', t'), g', w')" by (metis surj_pair)
  from unmap_table[OF ok u] show ?thesis by (simp add: Let_def g_def[symmetric] u)
qed

end
