(* ===== verification/DspPower.thy ===== *)
theory DspPower
  imports DspMaps
begin

text \<open>
  The power votes of the DSP library: \<open>get_facts\<close>, \<open>vote_dcvs\<close>, \<open>vote_units\<close>, \<open>vote_ceng\<close>, \<open>vote_bw\<close>,
  \<open>hold_vtcm\<close>, \<open>ddrbw_setup\<close> and \<open>ddrbw_query\<close> of \<open>tools/ddrbw/dsp/ddrbw_dsp.c\<close>. The arrays \<open>rc\<close> and
  \<open>facts\<close> of FastRPC are lists, and their lengths are the length parameters.
\<close>

subsection \<open>The facts\<close>

definition set_fact :: "ddrbw_fact \<Rightarrow> u64 \<Rightarrow> u64 list \<Rightarrow> u64 list" where
  "set_fact f v fs = fs[fact_index f := v]"

definition set_rc :: "ddrbw_rc \<Rightarrow> u32 \<Rightarrow> u32 list \<Rightarrow> u32 list" where
  "set_rc c v rc = rc[rc_index c := v]"

definition power_fact :: "'w os \<Rightarrow> power_query \<Rightarrow> ddrbw_fact \<Rightarrow> u64 list \<times> 'w \<Rightarrow> u64 list \<times> 'w" where
  "power_fact os q f st =
     (let ((err, v), w) = os_power_get os q (snd st)
      in (if err = 0 then set_fact f v (fst st) else fst st, w))"

definition get_facts :: "'w os \<Rightarrow> lib \<Rightarrow> u64 list \<Rightarrow> 'w \<Rightarrow> u64 list \<times> 'w" where
  "get_facts os g facts w =
     (if length facts < DDRBW_FACT_COUNT then (facts, w)
      else
        let facts = replicate (length facts) 0;
            facts = set_fact FACT_ARCH (of_nat (hvx_arch os)) facts;
            facts = set_fact FACT_HVX (ucast (n_hvx g)) facts;
            facts = set_fact FACT_VTCM (ucast (vtcm_size g)) facts;
            st = power_fact os HAP_power_get_max_mips FACT_MAX_MIPS (facts, w);
            st = power_fact os HAP_power_get_max_bus_bw FACT_MAX_BUS_BW st;
            st = power_fact os HAP_power_get_clk_Freq FACT_CORE_HZ st;
            st = power_fact os HAP_power_get_hmx_core_clk_Freq FACT_HMX_HZ st;
            (facts, w) = power_fact os HAP_power_get_dcvsEnabled FACT_DCVS st;
            (prio, w) = os_priority os w
        in (set_fact FACT_PRIO (scast prio) facts, w))"

subsection \<open>The votes\<close>

definition dcvs_request :: dcvs_v3 where
  "dcvs_request = \<lparr>d_set_dcvs_enable = True, d_dcvs_enable = False, d_bus = Some HAP_DCVS_VCORNER_MAX,
     d_core = Some HAP_DCVS_VCORNER_MAX, d_sleep_disable = Some True, d_helpers = []\<rparr>"

text \<open>
  One helper of \<open>vote_dcvs\<close>: when the vote is in the mask, the helper extends the request and its return
  code goes to the array.
\<close>

type_synonym 'w dcvs_state = "u32 list \<times> dcvs_v3 \<times> 'w"

fun dcvs_helper :: "bool \<Rightarrow> ddrbw_rc \<Rightarrow> (dcvs_v3 \<Rightarrow> 'w \<Rightarrow> (u32 \<times> dcvs_v3) \<times> 'w) \<Rightarrow> 'w dcvs_state \<Rightarrow> 'w dcvs_state" where
  "dcvs_helper vote c helper (rc, req, w) =
     (if vote then let ((e, req), w) = helper req w in (set_rc c e rc, req, w) else (rc, req, w))"

definition vote_dcvs :: "'w os \<Rightarrow> u32 \<Rightarrow> u32 list \<Rightarrow> 'w \<Rightarrow> u32 list \<times> 'w" where
  "vote_dcvs os votes rc w =
     (let st = (rc, dcvs_request, w);
          st = dcvs_helper (hvx_arch os \<ge> 79) RC_PROTECTED (os_protected os) st;
          st = dcvs_helper (votes AND DDRBW_VOTE_DDRPERF \<noteq> 0) RC_DDRPERF (os_ddr_perf os) st;
          st = dcvs_helper (votes AND DDRBW_VOTE_BUSPERF \<noteq> 0) RC_COREPERF (os_core_perf os) st;
          st = dcvs_helper (votes AND DDRBW_VOTE_BUSPERF \<noteq> 0) RC_BUSPERF (os_bus_perf os) st;
          (rc, req, w) = dcvs_helper (votes AND DDRBW_VOTE_EXPV \<noteq> 0) RC_EXPV
            (\<lambda>req. os_exp_vcorners os req HAP_DCVS_EXP_VCORNER_MAX) st;
          (e, w) = os_power_set os Client_backend (HAP_power_set_DCVS_v3 req) w
      in (set_rc RC_DCVS e rc, w))"

definition vote_units :: "'w os \<Rightarrow> u32 list \<Rightarrow> 'w \<Rightarrow> u32 list \<times> 'w" where
  "vote_units os rc w =
     (let (e, w) = os_power_set os Client_backend (HAP_power_set_HVX True) w;
          rc = set_rc RC_HVX e rc;
          (e, w) = os_power_set os Client_backend (HAP_power_set_HMX_v2 True True HAP_DCVS_EXP_VCORNER_MAX) w
      in (set_rc RC_HMX e rc, w))"

definition vote_ceng :: "'w os \<Rightarrow> u32 list \<Rightarrow> 'w \<Rightarrow> u32 list \<times> 'w" where
  "vote_ceng os rc w =
     (let (e, w) = os_power_set os Client_ceng (HAP_power_set_CENG_bus HAP_DCVS_VCORNER_MAX) w
      in (set_rc RC_CENG e rc, w))"

definition vote_bw :: "'w os \<Rightarrow> lib \<Rightarrow> u64 list \<Rightarrow> u32 list \<Rightarrow> 'w \<Rightarrow> u32 list \<times> 'w" where
  "vote_bw os g facts rc w =
     (let mips = facts ! fact_index FACT_MAX_MIPS;
          total = (if mips \<noteq> 0 then ucast mips else 0xFFFF) :: u32;
          per_thread = (if n_hvx g \<noteq> 0 then total div n_hvx g else total);
          bus = facts ! fact_index FACT_MAX_BUS_BW;
          bytes = (if bus \<noteq> 0 then bus else 85000000000);
          (e, w) = os_power_set os Client_bw (HAP_power_set_mips_bw total per_thread bytes 100 1) w
      in (set_rc RC_MIPSBW e rc, w))"

definition hold_vtcm :: "'w os \<Rightarrow> lib \<Rightarrow> 'w \<Rightarrow> aee \<times> lib \<times> 'w" where
  "hold_vtcm os g w =
     (let ((err, size0), w) = os_query_vtcm os w in
      if err \<noteq> 0 \<or> size0 = 0 then (if err \<noteq> 0 then err else AEE_ENOMEMORY, g, w)
      else
        let (ctx, w) = os_acquire os size0 w in
        if ctx = 0 then (AEE_ERESOURCENOTFOUND os, g, w)
        else
          let ((err, p, size1), w) = os_vtcm_ptr os size0 w in
          if err \<noteq> 0 \<or> p = 0 then (if err \<noteq> 0 then err else AEE_ENOMEMORY, g, os_release os ctx w)
          else (0, g\<lparr>rctx := ctx, vtcm := p, vtcm_size := size1\<rparr>, w))"

definition vote_backend :: "'w os \<Rightarrow> u32 \<Rightarrow> u32 list \<Rightarrow> 'w \<Rightarrow> u32 list \<times> 'w" where
  "vote_backend os votes rc w =
     (let (e, w) = os_power_set os Client_backend HAP_power_set_apptype w;
          rc = set_rc RC_APPTYPE e rc;
          (rc, w) = vote_dcvs os votes rc w
      in vote_units os rc w)"

definition send_votes :: "'w os \<Rightarrow> u32 \<Rightarrow> lib \<Rightarrow> u64 list \<Rightarrow> u32 list \<Rightarrow> 'w \<Rightarrow> u32 list \<times> 'w" where
  "send_votes os votes g facts rc w =
     (let (rc, w) = (if votes AND DDRBW_VOTE_BACKEND \<noteq> 0 then vote_backend os votes rc w else (rc, w));
          (rc, w) = (if votes AND DDRBW_VOTE_CENG \<noteq> 0 then vote_ceng os rc w else (rc, w))
      in if votes AND DDRBW_VOTE_BW \<noteq> 0 then vote_bw os g facts rc w else (rc, w))"

definition ddrbw_setup ::
  "'w os \<Rightarrow> u32 \<Rightarrow> u32 list \<Rightarrow> u64 list \<Rightarrow> lib \<Rightarrow> 'w \<Rightarrow> (aee \<times> u32 list \<times> u64 list) \<times> lib \<times> 'w" where
  "ddrbw_setup os votes rc facts g w =
     (if length rc < DDRBW_RC_COUNT \<or> length facts < DDRBW_FACT_COUNT then ((AEE_EBADPARM, rc, facts), g, w)
      else if setup_done g then ((AEE_EITEMBUSY, rc, facts), g, w)
      else
        let rc = replicate (length rc) DDRBW_RC_NOT_SENT;
            (units, w) = os_hvx_units os w;
            g = g\<lparr>n_hvx := drop_bit 8 units AND 0xFF\<rparr>;
            (facts, w) = get_facts os g facts w;
            (rc, w) = send_votes os votes g facts rc w;
            ((caps_rc, caps), w) = os_dcvs_caps os w;
            rc = set_rc RC_CAPS caps_rc rc;
            (e, g, w) = hold_vtcm os g w;
            rc = set_rc RC_VTCM e rc;
            g = g\<lparr>setup_done := True\<rparr>;
            (facts, w) = get_facts os g facts w;
            facts = set_fact FACT_CAPS (if caps_rc = 0 then caps else 0) facts
        in ((AEE_SUCCESS, rc, facts), g, w))"

definition ddrbw_query :: "'w os \<Rightarrow> u64 list \<Rightarrow> lib \<Rightarrow> 'w \<Rightarrow> (aee \<times> u64 list) \<times> 'w" where
  "ddrbw_query os facts g w =
     (if length facts < DDRBW_FACT_COUNT then ((AEE_EBADPARM, facts), w)
      else let (facts, w) = get_facts os g facts w in ((AEE_SUCCESS, facts), w))"

subsection \<open>Which codes are sent\<close>

text \<open>The return codes that a mask of votes fills, from the documentation of the votes.\<close>

definition sent :: "nat \<Rightarrow> u32 \<Rightarrow> ddrbw_rc \<Rightarrow> bool" where
  "sent arch votes c =
     (let backend = votes AND DDRBW_VOTE_BACKEND \<noteq> 0 in
      case c of
        RC_APPTYPE \<Rightarrow> backend | RC_DCVS \<Rightarrow> backend | RC_HVX \<Rightarrow> backend | RC_HMX \<Rightarrow> backend
      | RC_PROTECTED \<Rightarrow> backend \<and> arch \<ge> 79
      | RC_DDRPERF \<Rightarrow> backend \<and> votes AND DDRBW_VOTE_DDRPERF \<noteq> 0
      | RC_COREPERF \<Rightarrow> backend \<and> votes AND DDRBW_VOTE_BUSPERF \<noteq> 0
      | RC_BUSPERF \<Rightarrow> backend \<and> votes AND DDRBW_VOTE_BUSPERF \<noteq> 0
      | RC_EXPV \<Rightarrow> backend \<and> votes AND DDRBW_VOTE_EXPV \<noteq> 0
      | RC_CENG \<Rightarrow> votes AND DDRBW_VOTE_CENG \<noteq> 0
      | RC_MIPSBW \<Rightarrow> votes AND DDRBW_VOTE_BW \<noteq> 0
      | RC_CAPS \<Rightarrow> True | RC_VTCM \<Rightarrow> True)"

lemma length_set_rc [simp]: "length (set_rc c v rc) = length rc"
  by (simp add: set_rc_def)

definition rc_at :: "u32 list \<Rightarrow> ddrbw_rc \<Rightarrow> u32" where
  "rc_at rc c = rc ! rc_index c"

lemma rc_at_set:
  assumes "DDRBW_RC_COUNT \<le> length rc"
  shows "rc_at (set_rc c v rc) d = (if c = d then v else rc_at rc d)"
  using less_le_trans[OF rc_index_less[of c] assms] by (simp add: set_rc_def rc_at_def nth_list_update)

text \<open>\<open>keeps c rc rc'\<close>: the code \<open>c\<close> of \<open>rc'\<close> is that of \<open>rc\<close>, and the arrays have one length.\<close>

definition keeps :: "ddrbw_rc \<Rightarrow> u32 list \<Rightarrow> u32 list \<Rightarrow> bool" where
  "keeps c rc rc' \<longleftrightarrow> length rc' = length rc \<and> (DDRBW_RC_COUNT \<le> length rc \<longrightarrow> rc_at rc' c = rc_at rc c)"

lemma keeps_refl: "keeps c rc rc" by (simp add: keeps_def)

lemma keeps_trans: "keeps c a b \<Longrightarrow> keeps c b d \<Longrightarrow> keeps c a d" by (simp add: keeps_def)

lemma keeps_set: "c \<noteq> d \<Longrightarrow> keeps c rc (set_rc d v rc)" by (simp add: keeps_def rc_at_set)

lemma length_set_fact [simp]: "length (set_fact f v fs) = length fs"
  by (simp add: set_fact_def)

lemma length_get_facts [simp]: "length (fst (get_facts os g facts w)) = length facts"
  by (auto simp: get_facts_def power_fact_def Let_def split: prod.splits if_splits)

lemma keeps_helper: "\<not> vote \<or> c \<noteq> d \<Longrightarrow> keeps c (fst st) (fst (dcvs_helper vote d h st))"
  by (cases st) (auto simp: keeps_refl keeps_set split: prod.splits)

lemma length_keeps: "keeps c rc rc' \<Longrightarrow> length rc' = length rc" by (simp add: keeps_def)

lemma keeps_vote_dcvs:
  assumes "\<not> (hvx_arch os \<ge> 79 \<and> c = RC_PROTECTED)" "\<not> (votes AND DDRBW_VOTE_DDRPERF \<noteq> 0 \<and> c = RC_DDRPERF)"
    and "\<not> (votes AND DDRBW_VOTE_BUSPERF \<noteq> 0 \<and> (c = RC_COREPERF \<or> c = RC_BUSPERF))"
    and "\<not> (votes AND DDRBW_VOTE_EXPV \<noteq> 0 \<and> c = RC_EXPV)" "c \<noteq> RC_DCVS"
  shows "keeps c rc (fst (vote_dcvs os votes rc w))"
proof -
  let ?s1 = "dcvs_helper (hvx_arch os \<ge> 79) RC_PROTECTED (os_protected os) (rc, dcvs_request, w)"
  let ?s2 = "dcvs_helper (votes AND DDRBW_VOTE_DDRPERF \<noteq> 0) RC_DDRPERF (os_ddr_perf os) ?s1"
  let ?s3 = "dcvs_helper (votes AND DDRBW_VOTE_BUSPERF \<noteq> 0) RC_COREPERF (os_core_perf os) ?s2"
  let ?s4 = "dcvs_helper (votes AND DDRBW_VOTE_BUSPERF \<noteq> 0) RC_BUSPERF (os_bus_perf os) ?s3"
  let ?s5 = "dcvs_helper (votes AND DDRBW_VOTE_EXPV \<noteq> 0) RC_EXPV
    (\<lambda>req. os_exp_vcorners os req HAP_DCVS_EXP_VCORNER_MAX) ?s4"
  have "keeps c rc (fst ?s1)" using keeps_helper[of _ c RC_PROTECTED "(rc, dcvs_request, w)"] assms(1) by auto
  moreover have "keeps c (fst ?s1) (fst ?s2)" using assms(2) by (intro keeps_helper) auto
  moreover have "keeps c (fst ?s2) (fst ?s3)" using assms(3) by (intro keeps_helper) auto
  moreover have "keeps c (fst ?s3) (fst ?s4)" using assms(3) by (intro keeps_helper) auto
  moreover have "keeps c (fst ?s4) (fst ?s5)" using assms(4) by (intro keeps_helper) auto
  ultimately have s5: "keeps c rc (fst ?s5)" by (blast intro: keeps_trans)
  obtain rc' req w' where e: "?s5 = (rc', req, w')" by (metis prod_cases3)
  have "keeps c rc' (fst (vote_dcvs os votes rc w))"
    unfolding vote_dcvs_def Let_def e using assms(5) by (auto simp: case_prod_beta keeps_set)
  then show ?thesis using s5 e by (auto intro: keeps_trans)
qed

lemma keeps_vote_units: "c \<notin> {RC_HVX, RC_HMX} \<Longrightarrow> keeps c rc (fst (vote_units os rc w))"
  by (auto simp: vote_units_def Let_def case_prod_beta intro!: keeps_trans[OF keeps_set keeps_set])

lemma keeps_vote_ceng: "c \<noteq> RC_CENG \<Longrightarrow> keeps c rc (fst (vote_ceng os rc w))"
  by (simp add: vote_ceng_def Let_def case_prod_beta keeps_set)

lemma keeps_vote_bw: "c \<noteq> RC_MIPSBW \<Longrightarrow> keeps c rc (fst (vote_bw os g facts rc w))"
  by (simp add: vote_bw_def Let_def case_prod_beta keeps_set)

lemma hold_vtcm_result:
  assumes "hold_vtcm os g w = (e, g', w')"
  shows "e \<noteq> 0 \<and> g' = g \<or> e = AEE_ERESOURCENOTFOUND os \<and> g' = g \<or>
    e = 0 \<and> rctx g' \<noteq> 0 \<and> vtcm g' \<noteq> 0 \<and> g' = g\<lparr>rctx := rctx g', vtcm := vtcm g', vtcm_size := vtcm_size g'\<rparr>"
  using assms by (auto simp: hold_vtcm_def Let_def aee_codes split: prod.splits if_splits)

lemma keeps_vote_backend:
  assumes "votes AND DDRBW_VOTE_BACKEND \<noteq> 0" "\<not> sent (hvx_arch os) votes c"
    "c \<notin> {RC_CENG, RC_MIPSBW, RC_CAPS, RC_VTCM}"
  shows "keeps c rc (fst (vote_backend os votes rc w))"
proof -
  obtain e w1 where p: "os_power_set os Client_backend HAP_power_set_apptype w = (e, w1)" by fastforce
  obtain rc2 w2 where d: "vote_dcvs os votes (set_rc RC_APPTYPE e rc) w1 = (rc2, w2)" by fastforce
  have c: "c \<notin> {RC_APPTYPE, RC_DCVS, RC_HVX, RC_HMX}" using assms by (auto simp: sent_def)
  have "keeps c rc (set_rc RC_APPTYPE e rc)" using c by (intro keeps_set) auto
  moreover have "keeps c (set_rc RC_APPTYPE e rc) rc2"
    using keeps_vote_dcvs[of os c votes "set_rc RC_APPTYPE e rc" w1] assms c
    by (cases c) (simp_all add: d sent_def)
  moreover have "keeps c rc2 (fst (vote_units os rc2 w2))" using c by (intro keeps_vote_units) auto
  ultimately show ?thesis by (auto simp: vote_backend_def p d Let_def intro: keeps_trans)
qed

lemma keeps_send_votes:
  assumes "\<not> sent (hvx_arch os) votes c"
  shows "keeps c rc (fst (send_votes os votes g facts rc w))"
proof -
  have sys: "c \<notin> {RC_CAPS, RC_VTCM}" using assms by (auto simp: sent_def)
  obtain rc1 w1 where b: "(if votes AND DDRBW_VOTE_BACKEND \<noteq> 0 then vote_backend os votes rc w else (rc, w)) = (rc1, w1)"
    by fastforce
  obtain rc2 w2 where c: "(if votes AND DDRBW_VOTE_CENG \<noteq> 0 then vote_ceng os rc1 w1 else (rc1, w1)) = (rc2, w2)" by fastforce
  have "keeps c rc rc1"
  proof (cases "votes AND DDRBW_VOTE_BACKEND \<noteq> 0")
    case True
    show ?thesis
    proof (cases "c \<in> {RC_CENG, RC_MIPSBW}")
      case False
      then show ?thesis using keeps_vote_backend[OF True assms, of rc w] b True sys by simp
    next
      case ce: True
      have "keeps c rc (fst (vote_backend os votes rc w))"
        unfolding vote_backend_def Let_def case_prod_beta using ce
        by (intro keeps_trans[OF _ keeps_vote_units] keeps_trans[OF keeps_set keeps_vote_dcvs]) auto
      then show ?thesis using b True by simp
    qed
  next
    case False
    then show ?thesis using b by (simp add: keeps_refl)
  qed
  moreover have "keeps c rc1 rc2"
    using keeps_vote_ceng[of c rc1 os w1] c assms by (cases "c = RC_CENG") (auto simp: sent_def keeps_refl split: if_splits)
  moreover have "keeps c rc2 (fst (if votes AND DDRBW_VOTE_BW \<noteq> 0 then vote_bw os g facts rc2 w2 else (rc2, w2)))"
    using keeps_vote_bw[of c rc2 os g facts w2] assms by (cases "c = RC_MIPSBW") (auto simp: sent_def keeps_refl)
  ultimately have "keeps c rc (fst (if votes AND DDRBW_VOTE_BW \<noteq> 0 then vote_bw os g facts rc2 w2 else (rc2, w2)))"
    by (blast intro: keeps_trans)
  then show ?thesis by (simp add: send_votes_def Let_def b c)
qed

lemma length_send_votes: "length (fst (send_votes os votes g facts rc w)) = length rc"
proof -
  have "length (fst (vote_dcvs os votes rc w)) = length rc" for rc w
    by (auto simp: vote_dcvs_def Let_def case_prod_beta dcvs_helper.simps[abs_def] split: prod.splits)
  then show ?thesis
    by (simp add: send_votes_def vote_backend_def vote_units_def vote_ceng_def vote_bw_def Let_def case_prod_beta)
qed

lemma setup_result:
  assumes len: "DDRBW_RC_COUNT \<le> length rc" "DDRBW_FACT_COUNT \<le> length facts" and fresh: "\<not> setup_done g"
    and run: "ddrbw_setup os votes rc facts g w = ((r, rc', facts'), g', w')"
  shows "r = AEE_SUCCESS \<and> length rc' = length rc \<and> length facts' = length facts \<and> setup_done g' \<and>
    (\<forall>c. \<not> sent (hvx_arch os) votes c \<longrightarrow> rc_at rc' c = DDRBW_RC_NOT_SENT) \<and>
    (rc_at rc' RC_VTCM = 0 \<and> AEE_ERESOURCENOTFOUND os \<noteq> 0 \<longrightarrow> rctx g' \<noteq> 0 \<and> vtcm g' \<noteq> 0) \<and>
    (rc_at rc' RC_VTCM \<noteq> 0 \<longrightarrow> rctx g' = rctx g \<and> vtcm g' = vtcm g \<and> vtcm_size g' = vtcm_size g) \<and> maps g' = maps g"
proof -
  let ?rc0 = "replicate (length rc) DDRBW_RC_NOT_SENT"
  obtain u w0 where hvx: "os_hvx_units os w = (u, w0)" by fastforce
  let ?g1 = "g\<lparr>n_hvx := drop_bit 8 u AND 0xFF\<rparr>"
  obtain facts1 w1 where f: "get_facts os ?g1 facts w0 = (facts1, w1)" by fastforce
  obtain rc1 w2 where v: "send_votes os votes ?g1 facts1 ?rc0 w1 = (rc1, w2)" by fastforce
  obtain caps cv w5 where q: "os_dcvs_caps os w2 = ((caps, cv), w5)" by (metis surj_pair)
  obtain e g2 w6 where h: "hold_vtcm os ?g1 w5 = (e, g2, w6)" by (metis prod_cases3)
  obtain facts2 w7 where f2: "get_facts os (g2\<lparr>setup_done := True\<rparr>) facts1 w6 = (facts2, w7)" by fastforce
  have res: "r = AEE_SUCCESS" "rc' = set_rc RC_VTCM e (set_rc RC_CAPS caps rc1)" "g' = g2\<lparr>setup_done := True\<rparr>"
    "facts' = set_fact FACT_CAPS (if caps = 0 then cv else 0) facts2"
    using run len fresh by (simp_all add: ddrbw_setup_def hvx f v q h f2 Let_def)
  have len1: "length rc1 = length rc" using length_send_votes[of os votes ?g1 facts1 ?rc0 w1] v by simp
  have lenf: "length facts' = length facts"
    using length_get_facts[of os ?g1 facts w0] length_get_facts[of os "g2\<lparr>setup_done := True\<rparr>" facts1 w6] res(4)
    by (simp add: f f2)
  have "rc_at rc' c = DDRBW_RC_NOT_SENT" if c: "\<not> sent (hvx_arch os) votes c" for c
  proof -
    have "c \<noteq> RC_VTCM" "c \<noteq> RC_CAPS" using c by (auto simp: sent_def)
    then have "rc_at rc' c = rc_at rc1 c" using len len1 by (simp add: res rc_at_set)
    also have "\<dots> = rc_at ?rc0 c"
      using keeps_send_votes[OF c, of ?rc0 ?g1 facts1 w1] v len by (simp add: keeps_def)
    also have "\<dots> = DDRBW_RC_NOT_SENT"
      using less_le_trans[OF rc_index_less[of c] len(1)] by (simp add: rc_at_def)
    finally show ?thesis .
  qed
  moreover have "rc_at rc' RC_VTCM = e" using len len1 by (simp add: res rc_at_set)
  ultimately show ?thesis
    using res len1 lenf hold_vtcm_result[OF h] by (auto simp: res) (cases g2; simp)+
qed

subsection \<open>Properties\<close>

definition first_setup :: "(aee \<times> u32 list \<times> u64 list) \<times> lib \<times> nat" where
  "first_setup = ddrbw_setup quiet_os DDRBW_VOTE_BACKEND (replicate 13 0) (replicate 10 0) lib_init 0"

lemma first_setup_parts:
  "ddrbw_setup quiet_os DDRBW_VOTE_BACKEND (replicate 13 0) (replicate 10 0) lib_init 0 =
    ((fst (fst first_setup), fst (snd (fst first_setup)), snd (snd (fst first_setup))), fst (snd first_setup), snd (snd first_setup))"
  by (simp add: first_setup_def)

text \<open>\<open>setup_codes\<close>: the first \<open>ddrbw_setup\<close> succeeds, keeps the lengths of the arrays and marks the
  library. Each return code whose vote is not in the mask stays \<open>DDRBW_RC_NOT_SENT\<close>: the DDR, clock and
  corner votes are sent only with the backend vote. A VTCM code of 0 means that the library holds a
  resource context and a VTCM address, and each other code leaves these as they were.\<close>

theorem setup_codes:
  assumes "DDRBW_RC_COUNT \<le> length rc" "DDRBW_FACT_COUNT \<le> length facts" "\<not> setup_done g"
    and "ddrbw_setup os votes rc facts g w = ((r, rc', facts'), g', w')"
  shows "r = AEE_SUCCESS \<and> length rc' = length rc \<and> length facts' = length facts \<and> setup_done g' \<and>
    (\<forall>c. \<not> sent (hvx_arch os) votes c \<longrightarrow> rc_at rc' c = DDRBW_RC_NOT_SENT) \<and>
    (rc_at rc' RC_VTCM = 0 \<and> AEE_ERESOURCENOTFOUND os \<noteq> 0 \<longrightarrow> rctx g' \<noteq> 0 \<and> vtcm g' \<noteq> 0) \<and>
    (rc_at rc' RC_VTCM \<noteq> 0 \<longrightarrow> rctx g' = rctx g \<and> vtcm g' = vtcm g \<and> vtcm_size g' = vtcm_size g) \<and> maps g' = maps g"
  using assms by (rule setup_result)

theorem setup_codes_witness:
  "fst (fst first_setup) = AEE_SUCCESS \<and> rc_at (fst (snd (fst first_setup))) RC_CENG = DDRBW_RC_NOT_SENT \<and>
    rc_at (fst (snd (fst first_setup))) RC_DDRPERF = DDRBW_RC_NOT_SENT"
  using setup_codes[OF _ _ _ first_setup_parts]
  by (simp add: DDRBW_RC_COUNT_def DDRBW_FACT_COUNT_def lib_init_def sent_def DDRBW_VOTE_BACKEND_def DDRBW_VOTE_CENG_def
      DDRBW_VOTE_DDRPERF_def)

text \<open>\<open>setup_once\<close>: after a setup each further setup is refused with \<open>AEE_EITEMBUSY\<close> (or
  \<open>AEE_EBADPARM\<close> for short arrays), sends no request, and changes neither the arrays nor the state.\<close>

theorem setup_once:
  assumes "ddrbw_setup os votes rc facts g w = ((AEE_SUCCESS, rc', facts'), g', w')"
  shows "ddrbw_setup os votes2 rc2 facts2 g' w2 =
    ((if length rc2 < DDRBW_RC_COUNT \<or> length facts2 < DDRBW_FACT_COUNT then AEE_EBADPARM else AEE_EITEMBUSY, rc2, facts2), g', w2)"
proof -
  have ok: "DDRBW_RC_COUNT \<le> length rc" "DDRBW_FACT_COUNT \<le> length facts" "\<not> setup_done g"
    using assms by (auto simp: ddrbw_setup_def aee_codes not_less split: if_splits)
  have "setup_done g'" using setup_result[OF ok assms] by simp
  then show ?thesis by (simp add: ddrbw_setup_def)
qed

theorem setup_once_witness:
  "ddrbw_setup quiet_os DDRBW_VOTE_ALL (replicate 13 0) (replicate 10 0) (fst (snd first_setup)) 7 =
    ((AEE_EITEMBUSY, replicate 13 0, replicate 10 0), fst (snd first_setup), 7)"
proof -
  have "fst (fst first_setup) = AEE_SUCCESS"
    using setup_result[OF _ _ _ first_setup_parts]
    by (simp add: DDRBW_RC_COUNT_def DDRBW_FACT_COUNT_def lib_init_def)
  then have "ddrbw_setup quiet_os DDRBW_VOTE_BACKEND (replicate 13 0) (replicate 10 0) lib_init 0 =
    ((AEE_SUCCESS, fst (snd (fst first_setup)), snd (snd (fst first_setup))), fst (snd first_setup), snd (snd first_setup))"
    using first_setup_parts by simp
  from setup_once[OF this] show ?thesis by (simp add: DDRBW_RC_COUNT_def DDRBW_FACT_COUNT_def)
qed

end
