(* ===== verification/DspQueue.thy ===== *)
theory DspQueue
  imports DspPower
begin

text \<open>
  The queue test and the handle of the DSP library: \<open>serve_one\<close>, \<open>peek_wait\<close>, \<open>queue_main\<close>,
  \<open>ddrbw_queue_start\<close>, \<open>queue_shutdown\<close>, \<open>ddrbw_queue_stop\<close>, \<open>ddrbw_open\<close> and \<open>ddrbw_close\<close> of
  \<open>tools/ddrbw/dsp/ddrbw_dsp.c\<close>. The loops wait for packets of the host, thus they are
  \<^theory_text>\<open>partial_function (option)\<close>, and the lemmas show that the thread returns when a stop packet comes.
\<close>

subsection \<open>The queue thread\<close>

datatype q_result = Q_SERVED | Q_EMPTY | Q_STOP | Q_ERROR

definition serve_one :: "'w os \<Rightarrow> lib \<Rightarrow> 'w \<Rightarrow> q_result \<times> lib \<times> 'w" where
  "serve_one os g w =
     (let ((err, nbufs, msg), w) = os_queue_read os (queue g) w in
      if err = AEE_EWOULDBLOCK then (Q_EMPTY, g, w)
      else if err \<noteq> 0 then (Q_ERROR, g\<lparr>qerr := err\<rparr>, w)
      else
        let (t, w) = os_qtimer os w;
            msg = msg\<lparr>q_tdsp := t\<rparr>;
            (err, w) = os_queue_write os (queue g) nbufs msg w
        in if err \<noteq> 0 then (Q_ERROR, g\<lparr>qerr := err\<rparr>, w)
           else (if q_cmd msg = DDRBW_QCMD_STOP then Q_STOP else Q_SERVED, g\<lparr>qserved := qserved g + 1\<rparr>, w))"

text \<open>\<open>peek_wait\<close>: the result is true when the thread must stop.\<close>

partial_function (option) peek_wait :: "'w os \<Rightarrow> lib \<Rightarrow> 'w \<Rightarrow> (bool \<times> lib \<times> 'w) option" where
  "peek_wait os g w =
     (let (err, w) = os_queue_peek os (queue g) w in
      if err = 0 then Some (False, g, w)
      else if err \<noteq> AEE_EWOULDBLOCK \<and> err \<noteq> AEE_EEXPIRED then Some (True, g\<lparr>qerr := err\<rparr>, w)
      else peek_wait os g w)"

partial_function (option) poll_loop :: "'w os \<Rightarrow> u32 \<Rightarrow> u32 \<Rightarrow> q_result \<Rightarrow> lib \<Rightarrow> 'w \<Rightarrow> (q_result \<times> lib \<times> 'w) option" where
  "poll_loop os mode poll r g w =
     (if mode = DDRBW_QMODE_BACKEND \<and> (r = Q_SERVED \<or> r = Q_EMPTY) then
        if r = Q_SERVED then
          let (r, g, w) = serve_one os g w in poll_loop os mode 100 r g w
        else if poll - 1 = 0 then Some (r, g, w)
        else
          let w = os_sleep os 100 w; (r', g, w) = serve_one os g w
          in poll_loop os mode (poll - 1) r' g w
      else Some (r, g, w))"

partial_function (option) queue_loop :: "'w os \<Rightarrow> u32 \<Rightarrow> lib \<Rightarrow> 'w \<Rightarrow> (lib \<times> 'w) option" where
  "queue_loop os mode g w =
     (if mode = DDRBW_QMODE_SPIN then
        let (r, g, w) = serve_one os g w
        in if r = Q_EMPTY then queue_loop os mode g w
           else if r = Q_STOP \<or> r = Q_ERROR then Some (g, w)
           else queue_loop os mode g w
      else
        Option.bind (peek_wait os g w) (\<lambda>(stop, g, w).
          if stop then Some (g, w)
          else
            let (r, g, w) = serve_one os g w in
            Option.bind (poll_loop os mode 100 r g w) (\<lambda>(r, g, w).
              if r = Q_STOP \<or> r = Q_ERROR then Some (g, w) else queue_loop os mode g w)))"

definition queue_main :: "'w os \<Rightarrow> lib \<Rightarrow> 'w \<Rightarrow> (lib \<times> 'w) option" where
  "queue_main os g w = queue_loop os (qmode g) g w"

subsection \<open>Start and stop\<close>

definition ddrbw_queue_start :: "'w os \<Rightarrow> u64 \<Rightarrow> u32 \<Rightarrow> lib \<Rightarrow> 'w \<Rightarrow> aee \<times> lib \<times> 'w" where
  "ddrbw_queue_start os queue_id mode g w =
     (if queue g \<noteq> 0 \<or> (mode AND DDRBW_QMODE_MASK) > DDRBW_QMODE_SPIN then (AEE_EBADPARM, g, w)
      else
        let ((err, q), w) = os_queue_import os queue_id w in
        if err \<noteq> 0 then (err, g\<lparr>queue := 0\<rparr>, w)
        else
          let g = g\<lparr>queue := q, qmode := mode AND DDRBW_QMODE_MASK, qserved := 0, qerr := 0\<rparr>;
              (st, w) = os_alloc os DDRBW_STACK_BYTES w
          in if st = 0 then (AEE_ENOMEMORY, g\<lparr>qstack := 0, queue := 0\<rparr>, os_queue_close os q w)
             else
               let (prio, w) = os_priority os w;
                   prio = (if prio - 10 <s 1 then 1 else prio - 10);
                   (ok, w) = os_thread_create os st prio w
               in if \<not> ok then (AEE_EFAILED, g\<lparr>qstack := 0, queue := 0\<rparr>, os_queue_close os q (os_free os st w))
                  else (AEE_SUCCESS, g\<lparr>qstack := st, qthread := st\<rparr>, w))"

text \<open>
  The join of the thread waits until \<open>queue_main\<close> returns. \<open>os_thread_join\<close> is the effect of the rest of
  the thread on the world, and \<open>thread\<close> its effect on the state of the library.
\<close>

definition queue_shutdown :: "'w os \<Rightarrow> (lib \<Rightarrow> lib) \<Rightarrow> lib \<Rightarrow> 'w \<Rightarrow> lib \<times> 'w" where
  "queue_shutdown os thread g w =
     (if queue g = 0 then (g, w)
      else
        let w = os_thread_join os (qthread g) w; g = thread g;
            w = os_queue_close os (queue g) w;
            w = os_free os (qstack g) w
        in (g\<lparr>queue := 0, qstack := 0\<rparr>, w))"

definition ddrbw_queue_stop :: "'w os \<Rightarrow> (lib \<Rightarrow> lib) \<Rightarrow> lib \<Rightarrow> 'w \<Rightarrow> (aee \<times> u32 option) \<times> lib \<times> 'w" where
  "ddrbw_queue_stop os thread g w =
     (if queue g = 0 then ((AEE_EBADPARM, None), g, w)
      else let (g, w) = queue_shutdown os thread g w in ((qerr g, Some (qserved g)), g, w))"

definition ddrbw_nop :: aee where
  "ddrbw_nop = AEE_SUCCESS"

definition ddrbw_open :: "'w os \<Rightarrow> 'w \<Rightarrow> (aee \<times> nat option) \<times> 'w" where
  "ddrbw_open os w =
     (let (h, w) = os_alloc os 8 w in if h = 0 then ((AEE_ENOMEMORY, None), w) else ((AEE_SUCCESS, Some h), w))"

fun unmap_all :: "'w os \<Rightarrow> map_entry list \<Rightarrow> 'w \<Rightarrow> map_entry list \<times> 'w" where
  "unmap_all os [] w = ([], w)"
| "unmap_all os (m # ms) w =
     (if va m \<noteq> 0 then
        let w = os_munmap2 os (va m) (msize m) w; (ms, w) = unmap_all os ms w in (m\<lparr>va := 0\<rparr> # ms, w)
      else let (ms, w) = unmap_all os ms w in (m # ms, w))"

definition ddrbw_close :: "'w os \<Rightarrow> (lib \<Rightarrow> lib) \<Rightarrow> nat \<Rightarrow> lib \<Rightarrow> 'w \<Rightarrow> aee \<times> lib \<times> 'w" where
  "ddrbw_close os thread h g w =
     (let (g, w) = queue_shutdown os thread g w;
          (ms, w) = unmap_all os (maps g) w;
          g = g\<lparr>maps := ms\<rparr>;
          (g, w) = (if rctx g \<noteq> 0 then (g\<lparr>rctx := 0, vtcm := 0\<rparr>, os_release os (rctx g) w) else (g, w));
          g = g\<lparr>setup_done := False\<rparr>
      in (AEE_SUCCESS, g, os_free os h w))"

subsection \<open>The queue of the host\<close>

text \<open>
  What the thread relies on of \<open>dspqueue\<close>, from its documentation: a read takes the oldest packet of
  the inbox, or says that there is none. A write sends a packet. A peek succeeds while a packet is
  there. The clock does not touch the queue. \<open>inbox\<close> and \<open>outbox\<close> observe the world.
\<close>

type_synonym packet = "u32 \<times> ddrbw_qmsg"

definition dspqueue_laws :: "'w os \<Rightarrow> nat \<Rightarrow> ('w \<Rightarrow> packet list) \<Rightarrow> ('w \<Rightarrow> packet list) \<Rightarrow> bool" where
  "dspqueue_laws os q inbox outbox \<longleftrightarrow>
     (\<forall>w p ps. inbox w = p # ps \<longrightarrow>
        (\<exists>w'. os_queue_read os q w = ((0, p), w') \<and> inbox w' = ps \<and> outbox w' = outbox w)) \<and>
     (\<forall>w p ps. inbox w = p # ps \<longrightarrow>
        (\<exists>w'. os_queue_peek os q w = (0, w') \<and> inbox w' = inbox w \<and> outbox w' = outbox w)) \<and>
     (\<forall>w n m. \<exists>w'. os_queue_write os q n m w = (0, w') \<and> inbox w' = inbox w \<and> outbox w' = outbox w @ [(n, m)]) \<and>
     (\<forall>w. \<exists>t w'. os_qtimer os w = (t, w') \<and> inbox w' = inbox w \<and> outbox w' = outbox w)"

text \<open>An answer has the sequence number, the command and the buffers of its request.\<close>

definition answers :: "packet \<Rightarrow> packet \<Rightarrow> bool" where
  "answers req ans \<longleftrightarrow> fst ans = fst req \<and> q_seq (snd ans) = q_seq (snd req) \<and> q_cmd (snd ans) = q_cmd (snd req)"

lemma serve_one_law:
  assumes laws: "dspqueue_laws os (queue g) inbox outbox" and p: "inbox w = p # ps"
  shows "\<exists>w' a. serve_one os g w =
      (if q_cmd (snd p) = DDRBW_QCMD_STOP then Q_STOP else Q_SERVED, g\<lparr>qserved := qserved g + 1\<rparr>, w') \<and>
    answers p a \<and> inbox w' = ps \<and> outbox w' = outbox w @ [a]"
proof -
  obtain w1 where r: "os_queue_read os (queue g) w = ((0, p), w1)" "inbox w1 = ps" "outbox w1 = outbox w"
    using laws p unfolding dspqueue_laws_def by blast
  obtain t w2 where q: "os_qtimer os w1 = (t, w2)" "inbox w2 = ps" "outbox w2 = outbox w"
    using laws r unfolding dspqueue_laws_def by metis
  obtain n m where pn: "p = (n, m)" by fastforce
  obtain w3 where s: "os_queue_write os (queue g) n (m\<lparr>q_tdsp := t\<rparr>) w2 = (0, w3)" "inbox w3 = ps"
    "outbox w3 = outbox w @ [(n, m\<lparr>q_tdsp := t\<rparr>)]"
    using laws q unfolding dspqueue_laws_def by metis
  show ?thesis
    using r q s by (intro exI[of _ w3] exI[of _ "(n, m\<lparr>q_tdsp := t\<rparr>)"])
      (simp add: serve_one_def pn answers_def AEE_EWOULDBLOCK_def Let_def)
qed

lemma peek_wait_law:
  assumes laws: "dspqueue_laws os (queue g) inbox outbox" and p: "inbox w = p # ps"
  shows "\<exists>w'. peek_wait os g w = Some (False, g, w') \<and> inbox w' = inbox w \<and> outbox w' = outbox w"
proof -
  obtain w' where "os_queue_peek os (queue g) w = (0, w')" "inbox w' = inbox w" "outbox w' = outbox w"
    using laws p unfolding dspqueue_laws_def by blast
  then show ?thesis by (subst peek_wait.simps) simp
qed

text \<open>The result of a part of the thread that serves the packets \<open>pre\<close> and then the packet \<open>s\<close>.\<close>

definition served :: "('w \<Rightarrow> packet list) \<Rightarrow> ('w \<Rightarrow> packet list) \<Rightarrow> packet list \<Rightarrow> packet list \<Rightarrow> lib \<Rightarrow> 'w \<Rightarrow> lib \<Rightarrow> 'w \<Rightarrow> bool" where
  "served inbox outbox ps rest g w g' w' \<longleftrightarrow>
     g' = g\<lparr>qserved := qserved g + of_nat (length ps)\<rparr> \<and> inbox w' = rest \<and>
     (\<exists>as. outbox w' = outbox w @ as \<and> list_all2 answers ps as)"

lemma served_step:
  assumes "answers p a" "outbox w1 = outbox w @ [a]"
    and "served inbox outbox ps rest (g\<lparr>qserved := qserved g + 1\<rparr>) w1 g' w'"
  shows "served inbox outbox (p # ps) rest g w g' w'"
proof -
  obtain as where "outbox w' = outbox w1 @ as" "list_all2 answers ps as" using assms(3) by (auto simp: served_def)
  then show ?thesis
    using assms by (auto simp: served_def add.assoc intro!: exI[of _ "a # as"])
qed

lemma served_one:
  assumes "answers p a" "outbox w1 = outbox w @ [a]" "inbox w1 = rest"
  shows "served inbox outbox [p] rest g w (g\<lparr>qserved := qserved g + 1\<rparr>) w1"
  using assms by (auto simp: served_def)

definition no_stop :: "packet list \<Rightarrow> bool" where
  "no_stop ps \<longleftrightarrow> (\<forall>p \<in> set ps. q_cmd (snd p) \<noteq> DDRBW_QCMD_STOP)"

lemma poll_loop_law:
  assumes "dspqueue_laws os (queue g) inbox outbox" "inbox w = pre @ s # rest" "no_stop pre"
    and "q_cmd (snd s) = DDRBW_QCMD_STOP"
  shows "\<exists>g' w'. poll_loop os DDRBW_QMODE_BACKEND poll Q_SERVED g w = Some (Q_STOP, g', w') \<and>
    served inbox outbox (pre @ [s]) rest g w g' w'"
  using assms
proof (induction pre arbitrary: g w poll)
  case Nil
  then obtain w1 a where a: "serve_one os g w = (Q_STOP, g\<lparr>qserved := qserved g + 1\<rparr>, w1)" "answers s a" "inbox w1 = rest"
    "outbox w1 = outbox w @ [a]" using serve_one_law[of os g inbox outbox w s rest] by auto
  have "poll_loop os DDRBW_QMODE_BACKEND poll Q_SERVED g w = Some (Q_STOP, g\<lparr>qserved := qserved g + 1\<rparr>, w1)"
    by (subst poll_loop.simps) (simp add: a(1), subst poll_loop.simps, simp)
  then show ?case using served_one[of s a outbox w1 w inbox rest g] a by auto
next
  case (Cons p pre)
  then obtain w1 a where a: "serve_one os g w = (Q_SERVED, g\<lparr>qserved := qserved g + 1\<rparr>, w1)" "answers p a"
    "inbox w1 = pre @ s # rest" "outbox w1 = outbox w @ [a]"
    using serve_one_law[of os g inbox outbox w p "pre @ s # rest"] by (auto simp: no_stop_def)
  have "\<exists>g' w'. poll_loop os DDRBW_QMODE_BACKEND 100 Q_SERVED (g\<lparr>qserved := qserved g + 1\<rparr>) w1 = Some (Q_STOP, g', w') \<and>
      served inbox outbox (pre @ [s]) rest (g\<lparr>qserved := qserved g + 1\<rparr>) w1 g' w'"
    using Cons.prems a(3) by (intro Cons.IH) (simp_all add: no_stop_def)
  then obtain g' w' where r: "poll_loop os DDRBW_QMODE_BACKEND 100 Q_SERVED (g\<lparr>qserved := qserved g + 1\<rparr>) w1 = Some (Q_STOP, g', w')"
    "served inbox outbox (pre @ [s]) rest (g\<lparr>qserved := qserved g + 1\<rparr>) w1 g' w'" by blast
  have "poll_loop os DDRBW_QMODE_BACKEND poll Q_SERVED g w = Some (Q_STOP, g', w')"
    by (subst poll_loop.simps) (simp add: a(1) r(1))
  then show ?case using served_step[of p a outbox w1 w inbox "pre @ [s]" rest g g' w'] a r by auto
qed

lemma poll_loop_other: "mode \<noteq> DDRBW_QMODE_BACKEND \<Longrightarrow> poll_loop os mode poll r g w = Some (r, g, w)"
  by (subst poll_loop.simps) simp

lemma poll_loop_stop: "poll_loop os mode poll Q_STOP g w = Some (Q_STOP, g, w)"
  by (subst poll_loop.simps) simp

lemma queue_loop_step:
  assumes laws: "dspqueue_laws os (queue g) inbox outbox" and p: "inbox w = p # ps"
  shows "\<exists>w1 a. queue_loop os mode g w =
      (if mode = DDRBW_QMODE_SPIN \<or> mode \<noteq> DDRBW_QMODE_BACKEND then
         (if q_cmd (snd p) = DDRBW_QCMD_STOP then Some (g\<lparr>qserved := qserved g + 1\<rparr>, w1)
          else queue_loop os mode (g\<lparr>qserved := qserved g + 1\<rparr>) w1)
       else Option.bind (poll_loop os mode 100 (if q_cmd (snd p) = DDRBW_QCMD_STOP then Q_STOP else Q_SERVED)
             (g\<lparr>qserved := qserved g + 1\<rparr>) w1)
           (\<lambda>(r, g, w). if r = Q_STOP \<or> r = Q_ERROR then Some (g, w) else queue_loop os mode g w)) \<and>
    answers p a \<and> inbox w1 = ps \<and> outbox w1 = outbox w @ [a]"
proof (cases "mode = DDRBW_QMODE_SPIN")
  case True
  from serve_one_law[OF laws p] obtain w1 a where a: "serve_one os g w =
      (if q_cmd (snd p) = DDRBW_QCMD_STOP then Q_STOP else Q_SERVED, g\<lparr>qserved := qserved g + 1\<rparr>, w1)"
    "answers p a" "inbox w1 = ps" "outbox w1 = outbox w @ [a]" by blast
  then show ?thesis using True by (intro exI[of _ w1] exI[of _ a]) (subst queue_loop.simps, simp)
next
  case False
  from peek_wait_law[OF laws p] obtain w0 where w0: "peek_wait os g w = Some (False, g, w0)" "inbox w0 = p # ps" "outbox w0 = outbox w"
    using p by auto
  from serve_one_law[OF laws w0(2)] obtain w1 a where a: "serve_one os g w0 =
      (if q_cmd (snd p) = DDRBW_QCMD_STOP then Q_STOP else Q_SERVED, g\<lparr>qserved := qserved g + 1\<rparr>, w1)"
    "answers p a" "inbox w1 = ps" "outbox w1 = outbox w @ [a]" using w0(3) by auto
  have "queue_loop os mode g w = Option.bind (poll_loop os mode 100 (if q_cmd (snd p) = DDRBW_QCMD_STOP then Q_STOP else Q_SERVED)
             (g\<lparr>qserved := qserved g + 1\<rparr>) w1)
           (\<lambda>(r, g, w). if r = Q_STOP \<or> r = Q_ERROR then Some (g, w) else queue_loop os mode g w)"
    by (subst queue_loop.simps) (simp only: False if_False w0(1) a(1) Option.bind.bind_lunit prod.case Let_def)
  then show ?thesis using a False by (intro exI[of _ w1] exI[of _ a]) (simp add: poll_loop_other)
qed

lemma queue_loop_serves:
  assumes "dspqueue_laws os (queue g) inbox outbox" "inbox w = pre @ s # rest" "no_stop pre"
    and "q_cmd (snd s) = DDRBW_QCMD_STOP"
  shows "\<exists>g' w'. queue_loop os mode g w = Some (g', w') \<and> served inbox outbox (pre @ [s]) rest g w g' w'"
  using assms
proof (induction pre arbitrary: g w)
  case Nil
  then obtain w1 a where a: "queue_loop os mode g w = Some (g\<lparr>qserved := qserved g + 1\<rparr>, w1)"
    "answers s a" "inbox w1 = rest" "outbox w1 = outbox w @ [a]"
    using queue_loop_step[of os g inbox outbox w s rest mode]
    by (cases "mode = DDRBW_QMODE_SPIN \<or> mode \<noteq> DDRBW_QMODE_BACKEND") (auto simp: poll_loop_stop)
  then show ?case using served_one[of s a outbox w1 w inbox rest g] a by auto
next
  case (Cons p pre)
  let ?g = "g\<lparr>qserved := qserved g + 1\<rparr>"
  have p: "q_cmd (snd p) \<noteq> DDRBW_QCMD_STOP" "no_stop pre" using Cons.prems(3) by (auto simp: no_stop_def)
  have laws: "dspqueue_laws os (queue ?g) inbox outbox" using Cons.prems(1) by simp
  show ?case
  proof (cases "mode = DDRBW_QMODE_SPIN \<or> mode \<noteq> DDRBW_QMODE_BACKEND")
    case True
    then obtain w1 a where a: "queue_loop os mode g w = queue_loop os mode ?g w1"
      "answers p a" "inbox w1 = pre @ s # rest" "outbox w1 = outbox w @ [a]"
      using queue_loop_step[OF Cons.prems(1), of w p "pre @ s # rest" mode] Cons.prems(2) p(1) by auto
    from Cons.IH[OF laws a(3) p(2) Cons.prems(4)] show ?thesis
      using served_step[of p a outbox w1 w inbox "pre @ [s]" rest g] a by fastforce
  next
    case False
    then obtain w1 a where a: "queue_loop os mode g w = Option.bind (poll_loop os mode 100 Q_SERVED ?g w1)
           (\<lambda>(r, g, w). if r = Q_STOP \<or> r = Q_ERROR then Some (g, w) else queue_loop os mode g w)"
      "answers p a" "inbox w1 = pre @ s # rest" "outbox w1 = outbox w @ [a]"
      using queue_loop_step[OF Cons.prems(1), of w p "pre @ s # rest" mode] Cons.prems(2) p(1) by auto
    obtain g' w' where r: "poll_loop os DDRBW_QMODE_BACKEND 100 Q_SERVED ?g w1 = Some (Q_STOP, g', w')"
      "served inbox outbox (pre @ [s]) rest ?g w1 g' w'"
      using poll_loop_law[OF laws a(3) p(2) Cons.prems(4)] by blast
    show ?thesis
      using served_step[OF a(2,4) r(2)] a(1) r(1) False by (intro exI[of _ g'] exI[of _ w']) simp
  qed
qed

subsection \<open>Start and close\<close>

lemma queue_start_result:
  assumes "ddrbw_queue_start os qid mode g w = (r, g', w')"
  shows "r = AEE_SUCCESS \<and> queue g = 0 \<and> qmode g' = mode AND DDRBW_QMODE_MASK \<and> qmode g' \<le> DDRBW_QMODE_SPIN \<and>
      qserved g' = 0 \<and> qerr g' = 0 \<and> qstack g' \<noteq> 0 \<and> queue g' = snd (fst (os_queue_import os qid w))
    \<or> r \<noteq> AEE_SUCCESS \<and> queue g' = queue g"
  using assms by (auto simp: ddrbw_queue_start_def Let_def aee_codes not_less split: prod.splits if_splits)

lemma unmap_all_fst: "fst (unmap_all os ms w) = map (\<lambda>m. if va m \<noteq> 0 then m\<lparr>va := 0\<rparr> else m) ms"
  by (induction ms arbitrary: w) (auto simp: case_prod_beta Let_def)

lemma unmap_all_dead:
  assumes "m \<in> set (fst (unmap_all os ms w))"
  shows "\<not> live m"
  using assms by (auto simp: unmap_all_fst live_def split: if_splits)

lemma close_result:
  assumes "ddrbw_close os thread h g w = (r, g', w')" "maps (thread g) = maps g" "length (maps g) = DDRBW_MAX_MAPS"
    and "rctx g = 0 \<longrightarrow> vtcm g = 0" "rctx (thread g) = rctx g" "vtcm (thread g) = vtcm g"
  shows "r = AEE_SUCCESS \<and> maps_ok g' \<and> fd_map g' = Map.empty \<and> rctx g' = 0 \<and> vtcm g' = 0 \<and> queue g' = 0 \<and> \<not> setup_done g'"
proof -
  obtain g1 w1 where q: "queue_shutdown os thread g w = (g1, w1)" by fastforce
  obtain ms w2 where u: "unmap_all os (maps g1) w1 = (ms, w2)" by fastforce
  have g1: "maps g1 = maps g" "rctx g1 = rctx g" "vtcm g1 = vtcm g" "queue g1 = 0"
    using q assms by (auto simp: queue_shutdown_def Let_def split: if_splits)
  have dead: "\<not> live m" if "m \<in> set ms" for m using unmap_all_dead[of m os "maps g1" w1] u that by simp
  have ms: "maps g' = ms" using assms(1) by (auto simp: ddrbw_close_def q u Let_def split: if_splits prod.splits)
  have "length ms = DDRBW_MAX_MAPS" using unmap_all_fst[of os "maps g1" w1] u g1 assms(3) by simp
  then have ok: "maps_ok g'" using dead by (simp add: maps_ok_def ms filter_False)
  have "fd_map g' f = None" for f
    using dead by (auto simp: fd_map_None find_map_None ms)
  then have "fd_map g' = Map.empty" by blast
  then show ?thesis
    using assms(1,4) ok g1 by (auto simp: ddrbw_close_def q u Let_def split: if_splits prod.splits)
qed

subsection \<open>Properties\<close>

text \<open>
  A world for the examples: two lists of packets. The clock stands still.
\<close>

definition queue_os :: "(packet list \<times> packet list) os" where
  "queue_os = \<lparr>hvx_arch = 81, AEE_ERESOURCENOTFOUND = 1, os_qtimer = (\<lambda>w. (5, w)), os_pcycles = (\<lambda>w. (0, w)),
     os_sleep = (\<lambda>_ w. w), os_alloc = (\<lambda>_ w. (64, w)), os_free = (\<lambda>_ w. w),
     os_mmap2 = (\<lambda>_ f w. (4096, w)), os_munmap2 = (\<lambda>_ _ w. w),
     os_power_set = (\<lambda>_ _ w. (0, w)), os_power_get = (\<lambda>_ w. ((0, 100), w)),
     os_protected = (\<lambda>r w. ((0, r), w)), os_ddr_perf = (\<lambda>r w. ((0, r), w)), os_core_perf = (\<lambda>r w. ((0, r), w)),
     os_bus_perf = (\<lambda>r w. ((0, r), w)), os_exp_vcorners = (\<lambda>r _ w. ((0, r), w)), os_dcvs_caps = (\<lambda>w. ((0, 7), w)),
     os_query_vtcm = (\<lambda>w. ((0, 0x800000), w)), os_acquire = (\<lambda>_ w. (1, w)),
     os_vtcm_ptr = (\<lambda>_ w. ((0, 0xFF000000, 0x800000), w)), os_release = (\<lambda>_ w. w), os_hvx_units = (\<lambda>w. (0x800, w)),
     os_priority = (\<lambda>w. (100, w)), os_thread_create = (\<lambda>_ _ w. (True, w)), os_dma_size = (\<lambda>n. 64 + 64 * unat n),
     os_queue_import = (\<lambda>_ w. ((0, 1), w)), os_queue_close = (\<lambda>_ w. w),
     os_queue_read = (\<lambda>_ w. case fst w of
        [] \<Rightarrow> ((AEE_EWOULDBLOCK, 0, \<lparr>q_seq = 0, q_cmd = 0, q_tdsp = 0\<rparr>), w) | p # ps \<Rightarrow> ((0, p), (ps, snd w))),
     os_queue_write = (\<lambda>_ n m w. (0, (fst w, snd w @ [(n, m)]))),
     os_queue_peek = (\<lambda>_ w. (if fst w = [] then AEE_EEXPIRED else 0, w)), os_thread_join = (\<lambda>_ w. w)\<rparr>"

lemma queue_os_laws: "dspqueue_laws queue_os q fst snd"
  by (auto simp: dspqueue_laws_def queue_os_def)





end
