(* ===== verification/DspRead.thy ===== *)
theory DspRead
  imports DspQueue DmaReader
begin

text \<open>
  The read run of the DSP library: \<open>check_run\<close>, \<open>free_workers\<close>, \<open>worker_main\<close> and \<open>ddrbw_read\<close> of
  \<open>tools/ddrbw/dsp/ddrbw_dsp.c\<close>, with the interface structures of \<open>ddrbw.idl\<close>.

  The threads of a run read disjoint parts and, with the DMA engine, write disjoint slots (theorem
  \<open>run_regions_disjoint\<close>). Thus the model gives each thread its own view \<open>view i\<close> of the memory and of
  its DMA queue, and its own clock. The time stamps of a thread come with its clock.
\<close>

subsection \<open>The interface\<close>

record ddrbw_run =
  r_fd :: i32
  r_region :: u32
  r_n_threads :: u32
  r_n_dma :: u32
  r_chunk :: u32
  r_row :: u32
  r_dst_row :: u32
  r_depth :: u32
  r_pf :: u32
  r_flags :: u32
  r_budget_us :: u32

record ddrbw_thread =
  t_start :: u64
  t_end :: u64
  t_chunks :: u64
  t_pcycles :: u64
  t_part_start :: u32
  t_part_len :: u32
  t_sum :: u32
  t_kind :: u32

definition DDRBW_KIND_HVX :: u32 where "DDRBW_KIND_HVX = 0"
definition DDRBW_KIND_DMA :: u32 where "DDRBW_KIND_DMA = 1"

definition zero_thread :: ddrbw_thread where
  "zero_thread = \<lparr>t_start = 0, t_end = 0, t_chunks = 0, t_pcycles = 0, t_part_start = 0, t_part_len = 0, t_sum = 0, t_kind = 0\<rparr>"

subsection \<open>The parameters of a run\<close>

definition run_row :: "ddrbw_run \<Rightarrow> u32" where
  "run_row run = (if r_row run \<noteq> 0 then r_row run else r_chunk run)"

definition run_dst :: "ddrbw_run \<Rightarrow> u32" where
  "run_dst run = (if r_dst_row run \<noteq> 0 then r_dst_row run else run_row run)"

text \<open>
  \<open>check_run\<close>. The divisions are safe: the number of threads is not 0 when the code divides by it, and
  a row is not 0 because the chunk is at least 512. \<open>(int) n_threads\<close> is positive after the test with
  \<open>DDRBW_MAX_THREADS\<close>.
\<close>

definition check_run :: "lib \<Rightarrow> ddrbw_run \<Rightarrow> map_entry \<Rightarrow> nat \<Rightarrow> u32" where
  "check_run g run m threadsLen =
     (let row = run_row run; dst = run_dst run;
          hvx = r_n_dma run < r_n_threads run; dma = r_n_dma run > 0
      in if r_n_threads run = 0 \<or> r_n_threads run > DDRBW_MAX_THREADS \<or> r_n_threads run > n_hvx g \<or>
            unat (r_n_threads run) > threadsLen \<or> r_n_dma run > r_n_threads run then DDRBW_E_PARAM
         else if r_chunk run < 512 \<or> r_chunk run mod 128 \<noteq> 0 \<or> r_region run > msize m \<or> r_budget_us run = 0 then DDRBW_E_PARAM
         else if r_region run div r_n_threads run < r_chunk run then DDRBW_E_PARAM
         else if hvx \<and> (r_chunk run mod 512 \<noteq> 0 \<or> r_pf run > 16) then DDRBW_E_PARAM
         else if dma \<and> (r_depth run = 0 \<or> r_chunk run mod row \<noteq> 0 \<or> row < 128 \<or> row mod 4 \<noteq> 0 \<or> row > 0xFFFFFF \<or>
            dst < row \<or> dst mod 128 \<noteq> 0 \<or> r_chunk run div row > 0xFFFF) then DDRBW_E_PARAM
         else DDRBW_OK)"

definition job_of :: "ddrbw_run \<Rightarrow> u64 \<Rightarrow> job" where
  "job_of run deadline =
     (let row = run_row run; dst = run_dst run; rows = r_chunk run div row;
          bw = (if r_chunk run mod 4096 = 0 then 4096 else 512)
      in \<lparr>j_chunk = r_chunk run, j_row = row, j_dst_row = dst, j_rows = rows, j_slot = rows * dst,
          j_depth = r_depth run, j_pf = r_pf run, j_flags = r_flags run, j_box_w = bw, j_box_h = r_chunk run div bw,
          j_deadline = deadline\<rparr>)"

definition part_len_of :: "ddrbw_run \<Rightarrow> u32" where
  "part_len_of run = r_region run div r_n_threads run div r_chunk run * r_chunk run"

definition vtcm_part_of :: "lib \<Rightarrow> ddrbw_run \<Rightarrow> u32" where
  "vtcm_part_of g run = vtcm_size g div r_n_threads run div 2048 * 2048"

definition worker_of :: "lib \<Rightarrow> map_entry \<Rightarrow> ddrbw_run \<Rightarrow> nat \<Rightarrow> worker" where
  "worker_of g m run i =
     (let start = of_nat i * part_len_of run; dma = of_nat i < r_n_dma run
      in \<lparr>w_dma = dma, w_part = unat (va m) + unat start, w_part_start = start, w_part_len = part_len_of run,
          w_nchunks = part_len_of run div r_chunk run,
          w_vtcm = (if dma then unat (vtcm g) + unat (of_nat i * vtcm_part_of g run) else 0)\<rparr>)"

subsection \<open>The threads\<close>

text \<open>The stacks and the queue memory of the threads, 0 for \<open>NULL\<close>.\<close>

fun free_workers :: "'w os \<Rightarrow> (nat \<times> nat) list \<Rightarrow> 'w \<Rightarrow> 'w" where
  "free_workers os [] w = w"
| "free_workers os ((st, qm) # as) w = free_workers os as (os_free os qm (os_free os st w))"

fun alloc_workers :: "'w os \<Rightarrow> ddrbw_run \<Rightarrow> nat \<Rightarrow> nat \<Rightarrow> (nat \<times> nat) list \<Rightarrow> 'w \<Rightarrow> bool \<times> (nat \<times> nat) list \<times> 'w" where
  "alloc_workers os run i 0 as w = (True, as, w)"
| "alloc_workers os run i (Suc n) as w =
     (let (st, w) = os_alloc os DDRBW_STACK_BYTES w in
      if st = 0 then (False, as, w)
      else if of_nat i < r_n_dma run then
        let (qm, w) = os_alloc os (os_dma_size os (r_depth run + 1)) w
        in if qm = 0 then (False, as[i := (st, 0)], w)
           else alloc_workers os run (Suc i) n (as[i := (st, qm)]) w
      else alloc_workers os run (Suc i) n (as[i := (st, 0)]) w)"

fun start_workers :: "'w os \<Rightarrow> i32 \<Rightarrow> (nat \<times> nat) list \<Rightarrow> nat \<Rightarrow> 'w \<Rightarrow> nat \<times> 'w" where
  "start_workers os prio [] k w = (k, w)"
| "start_workers os prio (a # as) k w =
     (let (ok, w) = os_thread_create os (fst a) prio w
      in if \<not> ok then (k, w) else start_workers os prio as (Suc k) w)"

text \<open>The wait for the threads. \<open>ready\<close> observes the counter that the threads add to.\<close>

partial_function (option) barrier_wait :: "'w os \<Rightarrow> ('w \<Rightarrow> nat) \<Rightarrow> nat \<Rightarrow> u64 \<Rightarrow> 'w \<Rightarrow> 'w option" where
  "barrier_wait os ready started limit w =
     (if ready w < started then
        let (t, w) = os_qtimer os w
        in if t < limit then barrier_wait os ready started limit (os_sleep os 20 w) else Some w
      else Some w)"

record thread_clock =
  tc_start :: u64
  tc_end :: u64
  tc_pcycles :: u64
  tc_clk :: "nat \<Rightarrow> u64"

definition worker_main ::
  "(dma_desc \<Rightarrow> 's \<Rightarrow> bool \<times> 's) \<Rightarrow> ('s \<Rightarrow> (nat \<times> nat) \<times> 's) \<Rightarrow> ('s \<Rightarrow> mem) \<Rightarrow> job \<Rightarrow> worker \<Rightarrow> (nat \<Rightarrow> u64) \<Rightarrow> 's
    \<Rightarrow> outcome option" where
  "worker_main push pop vmem j w clk s =
     (if w_dma w then map_option fst (run_dma push pop vmem j w clk s)
      else map_option fst (run_hvx (vmem s) j w clk))"

definition thread_result :: "worker \<Rightarrow> thread_clock \<Rightarrow> outcome \<Rightarrow> ddrbw_thread" where
  "thread_result w c out =
     \<lparr>t_start = tc_start c, t_end = tc_end c, t_chunks = o_chunks out, t_pcycles = tc_pcycles c,
      t_part_start = w_part_start w, t_part_len = w_part_len w, t_sum = o_sum out,
      t_kind = (if w_dma w then DDRBW_KIND_DMA else DDRBW_KIND_HVX)\<rparr>"

text \<open>A thread that did not start leaves zeros, but for the fields that \<open>ddrbw_read\<close> itself sets.\<close>

definition unstarted_result :: "worker \<Rightarrow> ddrbw_thread" where
  "unstarted_result w = zero_thread\<lparr>t_part_start := w_part_start w, t_part_len := w_part_len w,
     t_kind := (if w_dma w then DDRBW_KIND_DMA else DDRBW_KIND_HVX)\<rparr>"

fun run_workers ::
  "(nat \<Rightarrow> dma_desc \<Rightarrow> 's \<Rightarrow> bool \<times> 's) \<Rightarrow> (nat \<Rightarrow> 's \<Rightarrow> (nat \<times> nat) \<times> 's) \<Rightarrow> ('s \<Rightarrow> mem) \<Rightarrow> job \<Rightarrow> (nat \<Rightarrow> worker)
    \<Rightarrow> (nat \<Rightarrow> thread_clock) \<Rightarrow> (nat \<Rightarrow> 's) \<Rightarrow> nat \<Rightarrow> nat \<Rightarrow> nat \<Rightarrow> ddrbw_thread list option" where
  "run_workers push pop vmem j ws clks view started i 0 = Some []"
| "run_workers push pop vmem j ws clks view started i (Suc n) =
     (let rest = run_workers push pop vmem j ws clks view started (Suc i) n in
      if i < started then
        Option.bind (worker_main (push i) (pop i) vmem j (ws i) (tc_clk (clks i)) (view i))
          (\<lambda>out. map_option (\<lambda>r. thread_result (ws i) (clks i) out # r) rest)
      else map_option (\<lambda>r. unstarted_result (ws i) # r) rest)"

definition ddrbw_read ::
  "'w os \<Rightarrow> ('w \<Rightarrow> nat) \<Rightarrow> (nat \<Rightarrow> dma_desc \<Rightarrow> 's \<Rightarrow> bool \<times> 's) \<Rightarrow> (nat \<Rightarrow> 's \<Rightarrow> (nat \<times> nat) \<times> 's) \<Rightarrow> ('s \<Rightarrow> mem)
    \<Rightarrow> (nat \<Rightarrow> thread_clock) \<Rightarrow> (nat \<Rightarrow> 's) \<Rightarrow> ddrbw_run \<Rightarrow> nat \<Rightarrow> lib \<Rightarrow> 'w
    \<Rightarrow> ((u32 \<times> u64 \<times> ddrbw_thread list) \<times> 'w) option" where
  "ddrbw_read os ready push pop vmem clks view run threadsLen g w =
     (let zero = replicate threadsLen zero_thread in
      case find_map g (r_fd run) of
        None \<Rightarrow> Some ((DDRBW_E_NOMAP, 0, zero), w)
      | Some mi \<Rightarrow>
         let m = maps g ! mi; status = check_run g run m threadsLen in
         if status \<noteq> DDRBW_OK then Some ((status, 0, zero), w)
         else
           let n = unat (r_n_threads run) in
           if r_n_dma run > 0 \<and> (vtcm g = 0 \<or>
                (ucast (r_depth run) :: u64) * ucast (j_slot (job_of run 0)) > ucast (vtcm_part_of g run))
           then Some ((DDRBW_E_VTCM, 0, zero), w)
           else
             let (prio, w) = os_priority os w;
                 (ok, as, w) = alloc_workers os run 0 n (replicate n (0, 0)) w
             in if \<not> ok then Some ((DDRBW_E_NOMEM, 0, zero), free_workers os as w)
                else
                  let (started, w) = start_workers os prio as 0 w;
                      (t, w) = os_qtimer os w;
                      limit = t + us_to_ticks DDRBW_BARRIER_US
                  in Option.bind (barrier_wait os ready started limit w) (\<lambda>w.
                       let (go, w) = os_qtimer os w;
                           deadline = go + us_to_ticks (if started = n then ucast (r_budget_us run) else 1)
                       in Option.bind (run_workers push pop vmem (job_of run deadline) (worker_of g m run) clks view started 0 n)
                            (\<lambda>ths. Some ((if started \<noteq> n then DDRBW_E_THREAD else DDRBW_OK, go,
                               ths @ replicate (threadsLen - n) zero_thread), free_workers os as w))))"

subsection \<open>What an accepted run satisfies\<close>

lemma word_mod_0_dvd: "x mod y = 0 \<longleftrightarrow> unat y dvd unat x" for x y :: u32
  by (metis unat_mod unat_eq_zero dvd_eq_mod_eq_0)

lemma check_run_ok:
  assumes "check_run g run m len = DDRBW_OK"
  shows "0 < unat (r_n_threads run)" "unat (r_n_threads run) \<le> 8" "unat (r_n_threads run) \<le> len"
    "r_n_dma run \<le> r_n_threads run" "512 \<le> unat (r_chunk run)" "128 dvd unat (r_chunk run)"
    "unat (r_region run) \<le> unat (msize m)" "unat (r_chunk run) \<le> unat (r_region run) div unat (r_n_threads run)"
    "r_n_dma run < r_n_threads run \<Longrightarrow> 512 dvd unat (r_chunk run)"
    "0 < r_n_dma run \<Longrightarrow> 0 < unat (r_depth run) \<and> unat (run_row run) dvd unat (r_chunk run) \<and> 128 \<le> unat (run_row run) \<and>
       4 dvd unat (run_row run) \<and> unat (run_row run) \<le> unat (run_dst run) \<and> 128 dvd unat (run_dst run)"
proof -
  have *: "r_n_threads run \<noteq> 0" "r_n_threads run \<le> 8" "unat (r_n_threads run) \<le> len" "r_n_dma run \<le> r_n_threads run"
    "512 \<le> r_chunk run" "r_chunk run mod 128 = 0" "r_region run \<le> msize m" "r_chunk run \<le> r_region run div r_n_threads run"
    "r_n_dma run < r_n_threads run \<Longrightarrow> r_chunk run mod 512 = 0"
    "0 < r_n_dma run \<Longrightarrow> r_depth run \<noteq> 0 \<and> r_chunk run mod run_row run = 0 \<and> 128 \<le> run_row run \<and> run_row run mod 4 = 0 \<and>
       run_row run \<le> run_dst run \<and> run_dst run mod 128 = 0"
    using assms by (auto simp: check_run_def Let_def status_codes DDRBW_MAX_THREADS_def not_less not_le split: if_splits)
  note mod0 = word_mod_0_dvd
  show "0 < unat (r_n_threads run)" using *(1) by (simp add: unat_gt_0)
  show "unat (r_n_threads run) \<le> 8" using *(2) by (simp add: word_le_nat_alt)
  show "unat (r_n_threads run) \<le> len" "r_n_dma run \<le> r_n_threads run" by (rule *)+
  show "512 \<le> unat (r_chunk run)" using *(5) by (simp add: word_le_nat_alt)
  show "128 dvd unat (r_chunk run)" using *(6) by (simp add: mod0)
  show "unat (r_region run) \<le> unat (msize m)" using *(7) by (simp add: word_le_nat_alt)
  show "unat (r_chunk run) \<le> unat (r_region run) div unat (r_n_threads run)"
    using *(8) by (simp add: word_le_nat_alt unat_div)
  show "r_n_dma run < r_n_threads run \<Longrightarrow> 512 dvd unat (r_chunk run)" using *(9) by (simp add: mod0)
  show "0 < r_n_dma run \<Longrightarrow> 0 < unat (r_depth run) \<and> unat (run_row run) dvd unat (r_chunk run) \<and> 128 \<le> unat (run_row run) \<and>
       4 dvd unat (run_row run) \<and> unat (run_row run) \<le> unat (run_dst run) \<and> 128 dvd unat (run_dst run)"
    using *(10) by (simp add: mod0 unat_gt_0 word_le_nat_alt)
qed

lemma part_facts:
  assumes ok: "check_run g run m len = DDRBW_OK"
  defines "P \<equiv> unat (r_region run) div unat (r_n_threads run) div unat (r_chunk run)"
  shows "0 < P" "unat (part_len_of run) = P * unat (r_chunk run)"
    "unat (part_len_of run div r_chunk run) = P" "unat (r_n_threads run) * unat (part_len_of run) \<le> unat (r_region run)"
proof -
  note c = check_run_ok[OF ok]
  let ?q = "unat (r_region run) div unat (r_n_threads run)"
  show "0 < P" using c(5,8) by (simp add: P_def div_greater_zero_iff)
  have le: "P * unat (r_chunk run) \<le> ?q" by (simp add: P_def)
  also have "\<dots> \<le> unat (r_region run)" by simp
  also have "\<dots> < 2 ^ LENGTH(32)" by (rule unat_lt2p)
  finally show len: "unat (part_len_of run) = P * unat (r_chunk run)"
    unfolding part_len_of_def by (subst unat_mult_le) (simp_all add: unat_div P_def)
  show "unat (part_len_of run div r_chunk run) = P" using c(5) by (simp add: unat_div len)
  have "unat (r_n_threads run) * unat (part_len_of run) \<le> unat (r_n_threads run) * ?q"
    unfolding len using le by (rule mult_le_mono2)
  also have "\<dots> \<le> unat (r_region run)" by simp
  finally show "unat (r_n_threads run) * unat (part_len_of run) \<le> unat (r_region run)" .
qed

lemma part_start:
  assumes ok: "check_run g run m len = DDRBW_OK" and i: "i < unat (r_n_threads run)"
  shows "unat (of_nat i * part_len_of run) = i * unat (part_len_of run)"
    "i * unat (part_len_of run) + unat (part_len_of run) \<le> unat (r_region run)"
proof -
  have "Suc i * unat (part_len_of run) \<le> unat (r_n_threads run) * unat (part_len_of run)"
    using i by (intro mult_le_mono1) simp
  then show le: "i * unat (part_len_of run) + unat (part_len_of run) \<le> unat (r_region run)"
    using part_facts(4)[OF ok] by simp
  have "unat (of_nat i :: u32) = i" using i unat_lt2p[of "r_n_threads run"] by (intro unat_of_nat_less) simp
  then show "unat (of_nat i * part_len_of run) = i * unat (part_len_of run)"
    using le unat_lt2p[of "r_region run"] by (subst unat_mult_le) simp_all
qed

lemma wf_part_of:
  assumes ok: "check_run g run m len = DDRBW_OK"
  shows "wf_part (job_of run dl) (worker_of g m run i)"
  using part_facts[OF ok] check_run_ok(5,6)[OF ok]
  by (auto simp: wf_part_def job_of_def worker_of_def Let_def)

lemma box_of:
  assumes "512 dvd unat (r_chunk run)"
  shows "unat (j_box_w (job_of run dl)) * unat (j_box_h (job_of run dl)) = unat (j_chunk (job_of run dl))"
proof (cases "r_chunk run mod 4096 = 0")
  case True
  then have "4096 dvd unat (r_chunk run)" by (simp add: word_mod_0_dvd)
  then show ?thesis using True by (simp add: job_of_def Let_def unat_div)
next
  case False
  then show ?thesis using assms by (simp add: job_of_def Let_def unat_div)
qed

text \<open>The slots of the DMA threads, as the VTCM test of \<open>ddrbw_read\<close> accepts them.\<close>

definition slots_fit :: "lib \<Rightarrow> ddrbw_run \<Rightarrow> bool" where
  "slots_fit g run \<longleftrightarrow> \<not> (vtcm g = 0 \<or>
     (ucast (r_depth run) :: u64) * ucast (j_slot (job_of run 0)) > ucast (vtcm_part_of g run))"

lemma slots_fit_nat:
  assumes "slots_fit g run"
  shows "unat (r_depth run) * unat (j_slot (job_of run dl)) \<le> unat (vtcm_part_of g run)"
proof -
  have "unat (r_depth run) * unat (j_slot (job_of run 0)) \<le> (2 ^ 32 - 1) * (2 ^ 32 - 1)"
    using unat_lt2p[of "r_depth run"] unat_lt2p[of "j_slot (job_of run 0)"] by (intro mult_le_mono) simp_all
  then have "unat ((ucast (r_depth run) :: u64) * ucast (j_slot (job_of run 0))) = unat (r_depth run) * unat (j_slot (job_of run 0))"
    by (subst unat_mult_le) (simp_all add: unat_ucast_up)
  moreover have "j_slot (job_of run dl) = j_slot (job_of run 0)" by (simp add: job_of_def Let_def)
  ultimately show ?thesis
    using assms by (simp add: slots_fit_def not_less word_le_nat_alt unat_ucast_up)
qed

text \<open>The VTCM that the library holds and the mapping of the buffer do not overlap.\<close>

definition vtcm_separate :: "lib \<Rightarrow> map_entry \<Rightarrow> bool" where
  "vtcm_separate g m \<longleftrightarrow>
     {unat (vtcm g)..<unat (vtcm g) + unat (vtcm_size g)} \<inter> {unat (va m)..<unat (va m) + unat (msize m)} = {}"

lemma vtcm_part_facts:
  assumes "i < unat (r_n_threads run)"
  shows "unat (of_nat i * vtcm_part_of g run) = i * unat (vtcm_part_of g run)"
    "i * unat (vtcm_part_of g run) + unat (vtcm_part_of g run) \<le> unat (vtcm_size g)"
proof -
  let ?q = "unat (vtcm_size g) div unat (r_n_threads run)"
  have le: "?q div 2048 * 2048 \<le> ?q" by simp
  also have "\<dots> \<le> unat (vtcm_size g)" by simp
  also have "\<dots> < 2 ^ LENGTH(32)" by (rule unat_lt2p)
  finally have part: "unat (vtcm_part_of g run) = ?q div 2048 * 2048"
    unfolding vtcm_part_of_def by (subst unat_mult_le) (simp_all add: unat_div)
  have "Suc i * unat (vtcm_part_of g run) \<le> unat (r_n_threads run) * ?q"
    unfolding part using le assms by (intro mult_le_mono) simp_all
  also have "\<dots> \<le> unat (vtcm_size g)" by simp
  finally show le2: "i * unat (vtcm_part_of g run) + unat (vtcm_part_of g run) \<le> unat (vtcm_size g)" by simp
  have "unat (of_nat i :: u32) = i" using assms unat_lt2p[of "r_n_threads run"] by (intro unat_of_nat_less) simp
  then show "unat (of_nat i * vtcm_part_of g run) = i * unat (vtcm_part_of g run)"
    using le2 unat_lt2p[of "vtcm_size g"] by (subst unat_mult_le) simp_all
qed

lemma dma_index:
  assumes "check_run g run m len = DDRBW_OK" "i < unat (r_n_dma run)"
  shows "i < unat (r_n_threads run)" "w_dma (worker_of g m run i)" "0 < r_n_dma run"
proof -
  show "i < unat (r_n_threads run)" using assms check_run_ok(4)[OF assms(1)] by (simp add: word_le_nat_alt)
  have "unat (of_nat i :: u32) = i" using assms(2) unat_lt2p[of "r_n_dma run"] by (intro unat_of_nat_less) simp
  then show "w_dma (worker_of g m run i)" using assms(2) by (simp add: worker_of_def Let_def word_less_nat_alt)
  show "0 < r_n_dma run" using assms(2) by (simp add: word_less_nat_alt)
qed

lemma region_of:
  assumes ok: "check_run g run m len = DDRBW_OK" and i: "i < unat (r_n_threads run)"
  shows "part_region (worker_of g m run i) = {unat (va m) + i * unat (part_len_of run)..<unat (va m) + i * unat (part_len_of run) + unat (part_len_of run)}"
    "part_region (worker_of g m run i) \<subseteq> {unat (va m)..<unat (va m) + unat (msize m)}"
  using part_start[OF ok i] check_run_ok(7)[OF ok]
  by (auto simp: part_region_def worker_of_def Let_def)

lemma slots_of:
  assumes ok: "check_run g run m len = DDRBW_OK" and i: "i < unat (r_n_dma run)" and fit: "slots_fit g run"
  shows "vtcm_region (job_of run dl) (worker_of g m run i) \<subseteq>
      {unat (vtcm g) + i * unat (vtcm_part_of g run)..<unat (vtcm g) + i * unat (vtcm_part_of g run) + unat (vtcm_part_of g run)}"
    "vtcm_region (job_of run dl) (worker_of g m run i) \<subseteq> {unat (vtcm g)..<unat (vtcm g) + unat (vtcm_size g)}"
proof -
  note d = dma_index[OF ok i]
  have v: "w_vtcm (worker_of g m run i) = unat (vtcm g) + i * unat (vtcm_part_of g run)"
    using d(2) vtcm_part_facts(1)[OF d(1), of g] by (simp add: worker_of_def Let_def)
  have dep: "j_depth (job_of run dl) = r_depth run" by (simp add: job_of_def Let_def)
  show "vtcm_region (job_of run dl) (worker_of g m run i) \<subseteq>
      {unat (vtcm g) + i * unat (vtcm_part_of g run)..<unat (vtcm g) + i * unat (vtcm_part_of g run) + unat (vtcm_part_of g run)}"
    using slots_fit_nat[OF fit, of dl] by (auto simp: vtcm_region_def v dep)
  then show "vtcm_region (job_of run dl) (worker_of g m run i) \<subseteq> {unat (vtcm g)..<unat (vtcm g) + unat (vtcm_size g)}"
    using vtcm_part_facts(2)[OF d(1), of g] by auto
qed

definition no_slot_wrap :: "ddrbw_run \<Rightarrow> bool" where
  "no_slot_wrap run \<longleftrightarrow> unat (r_chunk run div run_row run) * unat (run_dst run) < 2 ^ 32"

lemma wf_dma_of:
  assumes ok: "check_run g run m len = DDRBW_OK" and i: "i < unat (r_n_dma run)" and fit: "slots_fit g run"
    and wrap: "no_slot_wrap run" and sep: "vtcm_separate g m"
  shows "wf_dma (job_of run dl) (worker_of g m run i)"
proof -
  note d = dma_index[OF ok i]
  note c = check_run_ok(10)[OF ok d(3)]
  have slot: "unat (j_slot (job_of run dl)) = unat (j_rows (job_of run dl)) * unat (j_dst_row (job_of run dl))"
    using wrap by (simp add: job_of_def Let_def no_slot_wrap_def unat_mult_le)
  have "unat (r_depth run) * unat (j_slot (job_of run dl)) < 2 ^ 32"
    using slots_fit_nat[OF fit, of dl] unat_lt2p[of "vtcm_part_of g run"] by simp
  moreover have "vtcm_region (job_of run dl) (worker_of g m run i) \<inter> part_region (worker_of g m run i) = {}"
    using slots_of(2)[OF ok i fit, of dl] region_of(2)[OF ok d(1)] sep unfolding vtcm_separate_def by blast
  moreover have "unat (r_chunk run div run_row run) * unat (run_row run) = unat (r_chunk run)"
    using c by (simp add: unat_div)
  ultimately show ?thesis
    unfolding wf_dma_def slot using wf_part_of[OF ok, of dl i] c
    by (simp add: job_of_def Let_def)
qed

subsection \<open>The checksum of one thread\<close>

lemma chunk_sum_cong:
  assumes "\<And>k. k < (j + 1) * chunk \<Longrightarrow> m (a + k) = m' (a' + k)" "sample \<Longrightarrow> 128 \<le> chunk"
  shows "chunk_sum m a chunk sample j = chunk_sum m' a' chunk sample j"
  unfolding chunk_sum_def
proof (rule sum_words_cong)
  fix i assume i: "i < 4 * (if sample then 32 else chunk div 4)"
  have "i < chunk" using i assms(2) by (cases sample) auto
  then show "m (a + j * chunk + i) = m' (a' + j * chunk + i)"
    using assms(1)[of "j * chunk + i"] by (simp add: add.assoc)
qed

lemma read_sum_cong:
  assumes "\<And>k. k < per * chunk \<Longrightarrow> m (a + k) = m' (a' + k)" "sample \<Longrightarrow> 128 \<le> chunk" "0 < per"
  shows "read_sum m a chunk per sample n = read_sum m' a' chunk per sample n"
  unfolding read_sum_def
proof (rule sum.cong[OF refl], rule chunk_sum_cong[OF _ assms(2)])
  fix x k assume "k < (x mod per + 1) * chunk"
  moreover have "(x mod per + 1) * chunk \<le> per * chunk" using assms(3) by (intro mult_le_mono1) (simp add: Suc_leI)
  ultimately show "m (a + k) = m' (a' + k)" using assms(1) by simp
qed

lemma expected_thread:
  assumes b: "prefix_ok b" "size b = unat (msize m)" and ok: "check_run g run m len = DDRBW_OK" and i: "i < unat (r_n_threads run)"
    and view: "\<And>k. k < unat (msize m) \<Longrightarrow> mm (unat (va m) + k) = data b k"
  shows "expected_sum b (w_part_start (worker_of g m run i)) (w_part_len (worker_of g m run i)) (r_chunk run) chunks sample =
    Some (read_sum mm (w_part (worker_of g m run i)) (unat (r_chunk run)) (unat (w_nchunks (worker_of g m run i))) sample (unat chunks))"
proof -
  let ?len = "unat (part_len_of run)" let ?chunk = "unat (r_chunk run)"
  note c = check_run_ok[OF ok] and p = part_facts[OF ok] and st = part_start[OF ok i]
  have per: "?len div ?chunk = unat (part_len_of run div r_chunk run)" "0 < unat (part_len_of run div r_chunk run)"
    using p by (simp_all add: unat_div)
  have wh: "unat (part_len_of run div r_chunk run) * ?chunk = ?len" using p(2,3) by simp
  have dvd: "128 dvd i * ?len" "?chunk dvd ?len" "?chunk \<le> ?len" using c(6) p(1,2) by auto
  have "expected_sum b (of_nat i * part_len_of run) (part_len_of run) (r_chunk run) chunks sample =
      Some (read_sum (data b) (i * ?len) ?chunk (?len div ?chunk) sample (unat chunks))"
    using expected_sum_spec[OF b(1), of "r_chunk run" "of_nat i * part_len_of run" "part_len_of run" chunks sample]
      c(5,6,7) dvd st b(2) by simp
  also have "read_sum (data b) (i * ?len) ?chunk (?len div ?chunk) sample (unat chunks)
      = read_sum mm (unat (va m) + i * ?len) ?chunk (?len div ?chunk) sample (unat chunks)"
  proof (rule read_sum_cong)
    fix k assume "k < ?len div ?chunk * ?chunk"
    then have "i * ?len + k < unat (msize m)" using st(2) c(7) wh per(1) by simp
    then show "data b (i * ?len + k) = mm (unat (va m) + i * ?len + k)" using view by (simp add: add.assoc)
  qed (use per c(5) in auto)
  finally show ?thesis using st(1) per(1) by (simp add: worker_of_def Let_def)
qed

text \<open>
  What the model asks of the DMA queue of a thread: it keeps the contract of a DMA engine for the
  \<open>depth\<close> descriptors of the run, and it is empty at the start.
\<close>

definition engine_ok ::
  "(dma_desc \<Rightarrow> 's \<Rightarrow> bool \<times> 's) \<Rightarrow> ('s \<Rightarrow> (nat \<times> nat) \<times> 's) \<Rightarrow> ('s \<Rightarrow> mem) \<Rightarrow> ('s \<Rightarrow> dma_desc list \<Rightarrow> bool) \<Rightarrow> ddrbw_run \<Rightarrow> 's \<Rightarrow> bool" where
  "engine_ok push pop vmem rep run s \<longleftrightarrow> dma_engine push pop vmem rep (unat (r_depth run)) \<and> rep s []"

definition sample_of :: "ddrbw_run \<Rightarrow> bool \<Rightarrow> bool" where
  "sample_of run dma \<longleftrightarrow> dma \<and> r_flags run AND DDRBW_FLAG_SUM = 0"

lemma worker_main_sum:
  assumes ok: "check_run g run m len = DDRBW_OK" and i: "i < unat (r_n_threads run)"
    and dma: "w_dma (worker_of g m run i) \<Longrightarrow> slots_fit g run \<and> no_slot_wrap run \<and> vtcm_separate g m \<and> engine_ok push pop vmem rep run s"
    and clk: "dl \<le> clk d" "unat (r_depth run) + d + 1 < 2 ^ 64"
  shows "\<exists>n. worker_main push pop vmem (job_of run dl) (worker_of g m run i) clk s =
    Some \<lparr>o_chunks = n, o_sum = read_sum (vmem s) (w_part (worker_of g m run i)) (unat (r_chunk run))
      (unat (w_nchunks (worker_of g m run i))) (sample_of run (w_dma (worker_of g m run i))) (unat n)\<rparr>"
proof -
  let ?w = "worker_of g m run i" let ?j = "job_of run dl"
  define d0 where "d0 = (LEAST d. dl \<le> clk d)"
  have d0: "dl \<le> clk d0" "d0 \<le> d" unfolding d0_def using clk(1) by (rule LeastI, rule Least_le)
  have go: "clk i < dl" if "i < d0" for i using not_less_Least[of i "\<lambda>d. dl \<le> clk d"] that by (simp add: d0_def)
  have j: "j_chunk ?j = r_chunk run" "j_deadline ?j = dl" "j_depth ?j = r_depth run" "sampled ?j \<longleftrightarrow> r_flags run AND DDRBW_FLAG_SUM = 0"
    by (simp_all add: job_of_def Let_def sampled_def)
  show ?thesis
  proof (cases "w_dma ?w")
    case True
    then have e: "slots_fit g run" "no_slot_wrap run" "vtcm_separate g m" "dma_engine push pop vmem rep (unat (r_depth run))" "rep s []"
      using dma by (simp_all add: engine_ok_def)
    have idma: "i < unat (r_n_dma run)"
    proof -
      have "unat (of_nat i :: u32) = i" using i unat_lt2p[of "r_n_threads run"] by (intro unat_of_nat_less) simp
      then show ?thesis using True by (simp add: worker_of_def Let_def word_less_nat_alt)
    qed
    have "\<exists>s'. run_dma push pop vmem ?j ?w clk s = Some
      (\<lparr>o_chunks = of_nat (unat (j_depth ?j) + d0), o_sum = read_sum (vmem s) (w_part ?w) (unat (j_chunk ?j))
          (unat (w_nchunks ?w)) (sampled ?j) (unat (j_depth ?j) + d0)\<rparr>, s') \<and> rep s' [] \<and> (\<forall>a. a \<notin> vtcm_region ?j ?w \<longrightarrow> vmem s' a = vmem s a)"
      using wf_dma_of[OF ok idma e(1-3)] e(5) d0 go clk(2)
      by (intro dma_engine.run_dma_result[OF e(4)]) (simp_all add: j)
    then obtain s' where r: "run_dma push pop vmem ?j ?w clk s = Some
      (\<lparr>o_chunks = of_nat (unat (r_depth run) + d0), o_sum = read_sum (vmem s) (w_part ?w) (unat (r_chunk run))
          (unat (w_nchunks ?w)) (sampled ?j) (unat (r_depth run) + d0)\<rparr>, s')" unfolding j by blast
    have "unat (of_nat (unat (r_depth run) + d0) :: u64) = unat (r_depth run) + d0"
      using d0(2) clk(2) by (intro unat_of_nat_less) simp
    then show ?thesis
      using r True j(4) by (intro exI[of _ "of_nat (unat (r_depth run) + d0)"]) (simp add: worker_main_def sample_of_def)
  next
    case False
    have "r_n_dma run < r_n_threads run"
    proof -
      have "unat (of_nat i :: u32) = i" using i unat_lt2p[of "r_n_threads run"] by (intro unat_of_nat_less) simp
      then show ?thesis using False i by (simp add: worker_of_def Let_def word_less_nat_alt)
    qed
    then have "512 dvd unat (r_chunk run)" by (rule check_run_ok(9)[OF ok])
    then obtain boxes where r: "run_hvx (vmem s) ?j ?w clk = Some
      (\<lparr>o_chunks = of_nat (Suc d0), o_sum = read_sum (vmem s) (w_part ?w) (unat (r_chunk run)) (unat (w_nchunks ?w)) False (Suc d0)\<rparr>, boxes)"
      using run_hvx_result[where clk = clk and d = d0, OF wf_part_of[OF ok, of dl i]] d0 go j by auto
    have "unat (of_nat (Suc d0) :: u64) = Suc d0" using d0(2) clk(2) by (intro unat_of_nat_less) simp
    then show ?thesis using r False by (intro exI[of _ "of_nat (Suc d0)"]) (simp add: worker_main_def sample_of_def)
  qed
qed

subsection \<open>The whole run\<close>

text \<open>An environment that gives the memory and the threads that the run asks for.\<close>

definition resources_ok :: "'w os \<Rightarrow> ('w \<Rightarrow> nat) \<Rightarrow> nat \<Rightarrow> bool" where
  "resources_ok os ready n \<longleftrightarrow> (\<forall>k w. fst (os_alloc os k w) \<noteq> 0) \<and> (\<forall>st p w. fst (os_thread_create os st p w)) \<and>
     (\<forall>w. n \<le> ready w)"

lemma alloc_workers_ok:
  assumes "resources_ok os ready n"
  shows "\<exists>as' w'. alloc_workers os run i k as w = (True, as', w') \<and> length as' = length as"
proof (induction k arbitrary: i as w)
  case (Suc k)
  obtain st w1 where a: "os_alloc os DDRBW_STACK_BYTES w = (st, w1)" by fastforce
  obtain qm w2 where q: "os_alloc os (os_dma_size os (r_depth run + 1)) w1 = (qm, w2)" by fastforce
  have "st \<noteq> 0" "qm \<noteq> 0" using assms a q unfolding resources_ok_def by (metis fst_conv)+
  then show ?case
    using Suc.IH[of "Suc i" "as[i := (st, qm)]" w2] Suc.IH[of "Suc i" "as[i := (st, 0)]" w1] by (simp add: a q Let_def)
qed simp

lemma start_workers_ok:
  assumes "resources_ok os ready n"
  shows "\<exists>w'. start_workers os prio as k w = (k + length as, w')"
proof (induction as arbitrary: k w)
  case (Cons a as)
  obtain ok w1 where c: "os_thread_create os (fst a) prio w = (ok, w1)" by fastforce
  have ok using assms c unfolding resources_ok_def by (metis fst_conv)
  then show ?case using Cons.IH[of "Suc k" w1] by (simp add: c)
qed simp

lemma run_workers_all:
  assumes "\<And>k. i \<le> k \<Longrightarrow> k < i + n \<Longrightarrow> worker_main (push k) (pop k) vmem j (ws k) (tc_clk (clks k)) (view k) = Some (out k)"
    and "i + n \<le> started"
  shows "run_workers push pop vmem j ws clks view started i n = Some (map (\<lambda>k. thread_result (ws k) (clks k) (out k)) [i..<i + n])"
  using assms
proof (induction n arbitrary: i)
  case (Suc n)
  have "run_workers push pop vmem j ws clks view started (Suc i) n
      = Some (map (\<lambda>k. thread_result (ws k) (clks k) (out k)) [Suc i..<Suc i + n])"
    using Suc.prems by (intro Suc.IH) auto
  then show ?case using Suc.prems(1)[of i] Suc.prems(2) by (simp add: upt_conv_Cons del: upt_Suc)
qed simp

text \<open>What a run needs, in one definition: see the property \<open>read_checksums\<close> below.\<close>

definition run_ready ::
  "'w os \<Rightarrow> ('w \<Rightarrow> nat) \<Rightarrow> (nat \<Rightarrow> dma_desc \<Rightarrow> 's \<Rightarrow> bool \<times> 's) \<Rightarrow> (nat \<Rightarrow> 's \<Rightarrow> (nat \<times> nat) \<times> 's) \<Rightarrow> ('s \<Rightarrow> mem)
    \<Rightarrow> (nat \<Rightarrow> 's \<Rightarrow> dma_desc list \<Rightarrow> bool) \<Rightarrow> (nat \<Rightarrow> thread_clock) \<Rightarrow> (nat \<Rightarrow> 's) \<Rightarrow> ddrbw_run \<Rightarrow> lib \<Rightarrow> map_entry \<Rightarrow> buffer \<Rightarrow> bool" where
  "run_ready os ready push pop vmem rep clks view run g m b \<longleftrightarrow>
     resources_ok os ready (unat (r_n_threads run)) \<and>
     (0 < r_n_dma run \<longrightarrow> slots_fit g run \<and> no_slot_wrap run \<and> vtcm_separate g m) \<and>
     (\<forall>i < unat (r_n_threads run).
        (\<forall>k < unat (msize m). vmem (view i) (unat (va m) + k) = data b k) \<and>
        (of_nat i < r_n_dma run \<longrightarrow> engine_ok (push i) (pop i) vmem (rep i) run (view i)) \<and>
        (\<forall>T. \<exists>d. T \<le> tc_clk (clks i) d \<and> unat (r_depth run) + d + 1 < 2 ^ 64))"

lemma read_run:
  assumes map: "find_map g (r_fd run) = Some mi" and m: "m = maps g ! mi"
    and ok: "check_run g run m len = DDRBW_OK" and b: "prefix_ok b" "size b = unat (msize m)"
    and env: "run_ready os ready push pop vmem rep clks view run g m b"
  shows "\<exists>go ths w'. ddrbw_read os ready push pop vmem clks view run len g w = Some ((DDRBW_OK, go, ths), w') \<and>
    length ths = len \<and> (\<forall>i < unat (r_n_threads run).
      expected_sum b (t_part_start (ths ! i)) (t_part_len (ths ! i)) (r_chunk run) (t_chunks (ths ! i))
        (sample_of run (t_kind (ths ! i) = DDRBW_KIND_DMA)) = Some (t_sum (ths ! i)))"
proof -
  let ?n = "unat (r_n_threads run)"
  obtain prio w1 where p: "os_priority os w = (prio, w1)" by fastforce
  have res: "resources_ok os ready ?n" using env by (simp add: run_ready_def)
  obtain as w2 where al: "alloc_workers os run 0 ?n (replicate ?n (0, 0)) w1 = (True, as, w2)" "length as = ?n"
    using alloc_workers_ok[OF res, of run 0 ?n "replicate ?n (0, 0)" w1] by auto
  obtain w3 where st: "start_workers os prio as 0 w2 = (?n, w3)" using start_workers_ok[OF res, of prio as 0 w2] al(2) by auto
  obtain t w4 where tq: "os_qtimer os w3 = (t, w4)" by fastforce
  obtain go w5 where gq: "os_qtimer os w4 = (go, w5)" by fastforce
  let ?dl = "go + us_to_ticks (ucast (r_budget_us run))"
  have "\<not> ready w4 < ?n" using res unfolding resources_ok_def by (metis not_less)
  then have bar: "barrier_wait os ready ?n limit w4 = Some w4" for limit
    by (subst barrier_wait.simps) simp
  have dmi: "0 < r_n_dma run" if "of_nat i < r_n_dma run" for i using le_less_trans[OF word_zero_le that] .
  have "\<exists>n. worker_main (push i) (pop i) vmem (job_of run ?dl) (worker_of g m run i) (tc_clk (clks i)) (view i) =
    Some \<lparr>o_chunks = n, o_sum = read_sum (vmem (view i)) (w_part (worker_of g m run i)) (unat (r_chunk run))
      (unat (w_nchunks (worker_of g m run i))) (sample_of run (w_dma (worker_of g m run i))) (unat n)\<rparr>" if i: "i < ?n" for i
  proof -
    obtain d where d: "?dl \<le> tc_clk (clks i) d" "unat (r_depth run) + d + 1 < 2 ^ 64"
      using env i unfolding run_ready_def by blast
    have dma: "slots_fit g run \<and> no_slot_wrap run \<and> vtcm_separate g m \<and> engine_ok (push i) (pop i) vmem (rep i) run (view i)"
      if "w_dma (worker_of g m run i)"
    proof -
      have "of_nat i < r_n_dma run" using that by (simp add: worker_of_def Let_def)
      then show ?thesis using env i dmi[of i] unfolding run_ready_def by blast
    qed
    from worker_main_sum[where clk = "tc_clk (clks i)" and d = d, OF ok i dma d] show ?thesis by blast
  qed
  then obtain cnt where out: "\<And>i. i < ?n \<Longrightarrow> worker_main (push i) (pop i) vmem (job_of run ?dl) (worker_of g m run i) (tc_clk (clks i)) (view i) =
    Some \<lparr>o_chunks = cnt i, o_sum = read_sum (vmem (view i)) (w_part (worker_of g m run i)) (unat (r_chunk run))
      (unat (w_nchunks (worker_of g m run i))) (sample_of run (w_dma (worker_of g m run i))) (unat (cnt i))\<rparr>" by metis
  let ?out = "\<lambda>i. \<lparr>o_chunks = cnt i, o_sum = read_sum (vmem (view i)) (w_part (worker_of g m run i)) (unat (r_chunk run))
      (unat (w_nchunks (worker_of g m run i))) (sample_of run (w_dma (worker_of g m run i))) (unat (cnt i))\<rparr>"
  let ?ths = "map (\<lambda>k. thread_result (worker_of g m run k) (clks k) (?out k)) [0..<?n]"
  have rw: "run_workers push pop vmem (job_of run ?dl) (worker_of g m run) clks view ?n 0 ?n = Some ?ths"
    using run_workers_all[of 0 ?n push pop vmem "job_of run ?dl" "worker_of g m run" clks view ?out ?n] out by simp
  have fit: "\<not> (r_n_dma run > 0 \<and> (vtcm g = 0 \<or>
      (ucast (r_depth run) :: u64) * ucast (j_slot (job_of run 0)) > ucast (vtcm_part_of g run)))"
    using env by (auto simp: run_ready_def slots_fit_def)
  have run: "ddrbw_read os ready push pop vmem clks view run len g w =
    Some ((DDRBW_OK, go, ?ths @ replicate (len - ?n) zero_thread), free_workers os as w5)"
    unfolding ddrbw_read_def Let_def map option.case m[symmetric] ok p prod.case al(1) st tq bar if_not_P[OF fit]
    using rw by (simp add: gq)
  have "expected_sum b (t_part_start (?ths ! i)) (t_part_len (?ths ! i)) (r_chunk run) (t_chunks (?ths ! i))
        (sample_of run (t_kind (?ths ! i) = DDRBW_KIND_DMA)) = Some (t_sum (?ths ! i))" if i: "i < ?n" for i
  proof -
    have kind: "(t_kind (?ths ! i) = DDRBW_KIND_DMA) = w_dma (worker_of g m run i)"
      using i by (simp add: thread_result_def DDRBW_KIND_DMA_def DDRBW_KIND_HVX_def)
    have "vmem (view i) (unat (va m) + k) = data b k" if "k < unat (msize m)" for k
      using env i that by (simp add: run_ready_def)
    from expected_thread[OF b ok i this] show ?thesis
      unfolding kind using i by (simp add: thread_result_def)
  qed
  moreover have "?n \<le> len" by (rule check_run_ok(3)[OF ok])
  ultimately show ?thesis
    by (intro exI[of _ go] exI[of _ "?ths @ replicate (len - ?n) zero_thread"] exI[of _ "free_workers os as w5"])
      (simp add: run nth_append)
qed

lemma read_error_status:
  assumes "ddrbw_read os ready push pop vmem clks view run len g w = Some ((st, go, ths), w')"
  shows "(find_map g (r_fd run) = None \<longrightarrow> st = DDRBW_E_NOMAP) \<and>
    (\<forall>mi. find_map g (r_fd run) = Some mi \<longrightarrow> check_run g run (maps g ! mi) len \<noteq> DDRBW_OK \<longrightarrow> st = DDRBW_E_PARAM) \<and>
    (st \<in> {DDRBW_E_NOMAP, DDRBW_E_PARAM, DDRBW_E_VTCM, DDRBW_E_NOMEM} \<longrightarrow> go = 0 \<and> ths = replicate len zero_thread) \<and>
    (st \<in> {DDRBW_E_NOMAP, DDRBW_E_PARAM, DDRBW_E_VTCM} \<longrightarrow> w' = w) \<and>
    (st = DDRBW_OK \<longrightarrow> (\<exists>mi. find_map g (r_fd run) = Some mi \<and> check_run g run (maps g ! mi) len = DDRBW_OK) \<and>
       (0 < r_n_dma run \<longrightarrow> slots_fit g run)) \<and> st \<noteq> DDRBW_E_TIMEOUT"
proof (cases "find_map g (r_fd run)")
  case None
  then show ?thesis using assms by (simp add: ddrbw_read_def status_codes)
next
  case (Some mi)
  show ?thesis
  proof (cases "check_run g run (maps g ! mi) len = DDRBW_OK")
    case False
    moreover from False have "check_run g run (maps g ! mi) len = DDRBW_E_PARAM"
      by (auto simp: check_run_def Let_def split: if_splits)
    ultimately show ?thesis using assms Some by (simp add: ddrbw_read_def Let_def status_codes)
  next
    case True
    show ?thesis
    proof (cases "0 < r_n_dma run \<longrightarrow> slots_fit g run")
      case False
      then show ?thesis using assms Some True by (auto simp: ddrbw_read_def Let_def status_codes slots_fit_def split: if_splits)
    next
      case fit: True
      obtain prio w1 where p: "os_priority os w = (prio, w1)" by fastforce
      obtain ok as w2 where al: "alloc_workers os run 0 (unat (r_n_threads run)) (replicate (unat (r_n_threads run)) (0, 0)) w1 = (ok, as, w2)"
        by (metis prod_cases3)
      have "st \<in> {DDRBW_E_NOMEM, DDRBW_E_THREAD, DDRBW_OK} \<and> (st = DDRBW_E_NOMEM \<longrightarrow> go = 0 \<and> ths = replicate len zero_thread)"
      proof (cases ok)
        case False
        then show ?thesis using assms Some True fit p al
          by (auto simp: ddrbw_read_def Let_def status_codes slots_fit_def split: if_splits)
      next
        case ok: True
        then show ?thesis using assms Some True fit p al
          by (auto simp: ddrbw_read_def Let_def status_codes slots_fit_def bind_eq_Some_conv case_prod_beta split: if_splits)
      qed
      then show ?thesis using Some True fit by (auto simp: status_codes)
    qed
  qed
qed

subsection \<open>Properties\<close>

definition run_example :: ddrbw_run where
  "run_example = \<lparr>r_fd = 3, r_region = 4096, r_n_threads = 2, r_n_dma = 1, r_chunk = 512, r_row = 128, r_dst_row = 0,
     r_depth = 2, r_pf = 2, r_flags = 1, r_budget_us = 10\<rparr>"

definition map_example :: map_entry where
  "map_example = \<lparr>mfd = 3, va = 0x10000000, msize = 4096\<rparr>"

definition lib_example :: lib where
  "lib_example = lib_init\<lparr>maps := map_example # replicate 7 \<lparr>mfd = 0, va = 0, msize = 0\<rparr>, vtcm := 0x1000000,
     vtcm_size := 0x800000, n_hvx := 8\<rparr>"

definition buffer_example :: buffer where
  "buffer_example = snd (fill_buffer (Some (\<lambda>_. 0)) \<lparr>data = (\<lambda>_. 0), size = 4096, pre = (\<lambda>_. 0), fd = 3, mapped = True\<rparr> 9)"

definition view_example :: lab_dma where
  "view_example = (lab_example 1)\<lparr>lmem := (\<lambda>a. data buffer_example (a - 0x10000000))\<rparr>"

definition clocks_example :: "nat \<Rightarrow> thread_clock" where
  "clocks_example i = \<lparr>tc_start = 0, tc_end = 9, tc_pcycles = 7, tc_clk = clock_at (3 + i) (- 1)\<rparr>"

lemma check_example: "check_run lib_example run_example map_example 8 = DDRBW_OK"
  by (simp add: check_run_def run_example_def lib_example_def map_example_def run_row_def run_dst_def status_codes
      DDRBW_MAX_THREADS_def Let_def)

lemma find_example: "find_map lib_example (r_fd run_example) = Some 0" "maps lib_example ! 0 = map_example"
  by (simp_all add: find_map_def lib_example_def run_example_def map_example_def)

lemma buffer_example: "prefix_ok buffer_example" "size buffer_example = 4096"
proof -
  obtain r where "fill_buffer (Some (\<lambda>_. 0)) \<lparr>data = (\<lambda>_. 0), size = 4096, pre = (\<lambda>_. 0), fd = 3, mapped = True\<rparr> 9
      = (r, buffer_example)" unfolding buffer_example_def by (metis prod.collapse)
  from fill_buffer_cases[OF this] show "prefix_ok buffer_example" "size buffer_example = 4096" by simp_all
qed

lemma run_ready_example:
  "run_ready quiet_os (\<lambda>_. 8) (\<lambda>_. dma_queue_push 0 1) (\<lambda>_. dma_queue_pop 1) lmem (\<lambda>_. lab_rep 1) clocks_example
     (\<lambda>_. view_example) run_example lib_example map_example buffer_example"
proof -
  have engine: "dma_engine (dma_queue_push 0 1) (dma_queue_pop 1) lmem (lab_rep 1) 2"
  proof
    fix s fl d assume "lab_rep 1 s fl" "length fl < 2" "fresh d fl"
    then show "\<exists>s'. dma_queue_push 0 1 d s = (True, s') \<and> lab_rep 1 s' (fl @ [d]) \<and> untouched (fl @ [d]) (lmem s) (lmem s')"
      by (intro lab_push_law) simp_all
  qed (rule lab_pop_law)
  have rep: "lab_rep 1 view_example []" using lab_rep_example[of 1] by (simp add: view_example_def lab_rep_def)
  have slot: "j_slot (job_of run_example 0) = 512" "vtcm_part_of lib_example run_example = 0x400000"
    by (simp_all add: job_of_def run_example_def run_row_def run_dst_def vtcm_part_of_def lib_example_def)
  have fit: "slots_fit lib_example run_example" "no_slot_wrap run_example" "vtcm_separate lib_example map_example"
    unfolding slots_fit_def slot no_slot_wrap_def vtcm_separate_def
    by (simp_all add: lib_example_def map_example_def run_example_def run_row_def run_dst_def)
  have clk: "\<exists>d. T \<le> tc_clk (clocks_example i) d \<and> unat (r_depth run_example) + d + 1 < 2 ^ 64" if "i < 2" for T i
    using that by (intro exI[of _ "3 + i"]) (simp add: clocks_example_def clock_at_def run_example_def)
  show ?thesis
    using engine rep fit clk
    by (simp add: run_ready_def resources_ok_def engine_ok_def quiet_os_def view_example_def map_example_def run_example_def)
qed



text \<open>C1. \<open>read_checksums\<close>: the contract between the host and the DSP. When the buffer on the DSP holds the
  bytes of the host buffer, an accepted run on working threads and DMA queues returns with status 0, and
  for each thread the checksum that the host computes from its prefix sums is the checksum that the
  thread computed from its loads, for the HVX and for the DMA threads. The hypothesis \<open>no_slot_wrap\<close> of
  \<open>run_ready\<close> is needed: \<open>check_run\<close> lets a row pitch through whose product with the rows wraps.\<close>

theorem read_checksums:
  assumes "find_map g (r_fd run) = Some mi" "m = maps g ! mi" "check_run g run m len = DDRBW_OK"
    and "prefix_ok b" "size b = unat (msize m)"
    and "run_ready os ready push pop vmem rep clks view run g m b"
  shows "\<exists>go ths w'. ddrbw_read os ready push pop vmem clks view run len g w = Some ((DDRBW_OK, go, ths), w') \<and>
    length ths = len \<and> (\<forall>i < unat (r_n_threads run).
      expected_sum b (t_part_start (ths ! i)) (t_part_len (ths ! i)) (r_chunk run) (t_chunks (ths ! i))
        (sample_of run (t_kind (ths ! i) = DDRBW_KIND_DMA)) = Some (t_sum (ths ! i)))"
  using assms by (rule read_run)

theorem read_checksums_witness:
  "\<exists>go ths w'. ddrbw_read quiet_os (\<lambda>_. 8) (\<lambda>_. dma_queue_push 0 1) (\<lambda>_. dma_queue_pop 1) lmem clocks_example
      (\<lambda>_. view_example) run_example 8 lib_example 0 = Some ((DDRBW_OK, go, ths), w') \<and> length ths = 8 \<and>
    (\<forall>i < 2. expected_sum buffer_example (t_part_start (ths ! i)) (t_part_len (ths ! i)) 512 (t_chunks (ths ! i)) False
       = Some (t_sum (ths ! i)))"
proof -
  have "sample_of run_example x = False" for x by (simp add: sample_of_def run_example_def DDRBW_FLAG_SUM_def)
  moreover have "size buffer_example = unat (msize map_example)" using buffer_example(2) by (simp add: map_example_def)
  ultimately show ?thesis
    using read_checksums[OF find_example(1) find_example(2)[symmetric] check_example buffer_example(1) _ run_ready_example, of 0]
    by (simp add: run_example_def)
qed

text \<open>\<open>read_status\<close>: the status of a run is \<open>DDRBW_E_NOMAP\<close> without a mapping and \<open>DDRBW_E_PARAM\<close> for
  rejected parameters. After such an error, a VTCM or an allocation error the results are all zero, and the
  first three touch nothing of the world. Status 0 means that the run was accepted and its slots fit. The
  library never gives \<open>DDRBW_E_TIMEOUT\<close>, although the header has this code.\<close>

theorem read_status:
  assumes "ddrbw_read os ready push pop vmem clks view run len g w = Some ((st, go, ths), w')"
  shows "(find_map g (r_fd run) = None \<longrightarrow> st = DDRBW_E_NOMAP) \<and>
    (\<forall>mi. find_map g (r_fd run) = Some mi \<longrightarrow> check_run g run (maps g ! mi) len \<noteq> DDRBW_OK \<longrightarrow> st = DDRBW_E_PARAM) \<and>
    (st \<in> {DDRBW_E_NOMAP, DDRBW_E_PARAM, DDRBW_E_VTCM, DDRBW_E_NOMEM} \<longrightarrow> go = 0 \<and> ths = replicate len zero_thread) \<and>
    (st \<in> {DDRBW_E_NOMAP, DDRBW_E_PARAM, DDRBW_E_VTCM} \<longrightarrow> w' = w) \<and>
    (st = DDRBW_OK \<longrightarrow> (\<exists>mi. find_map g (r_fd run) = Some mi \<and> check_run g run (maps g ! mi) len = DDRBW_OK) \<and>
       (0 < r_n_dma run \<longrightarrow> slots_fit g run)) \<and> st \<noteq> DDRBW_E_TIMEOUT"
  using assms by (rule read_error_status)

theorem read_status_witness:
  "\<exists>st go ths w'. ddrbw_read quiet_os (\<lambda>_. 8) (\<lambda>_. dma_queue_push 0 1) (\<lambda>_. dma_queue_pop 1) lmem clocks_example
      (\<lambda>_. view_example) run_example 8 lib_init 0 = Some ((st, go, ths), w') \<and> st = DDRBW_E_NOMAP \<and> ths = replicate 8 zero_thread"
proof -
  have none: "find_map lib_init (r_fd run_example) = None" by (simp add: find_map_None lib_init_def live_def)
  then have "ddrbw_read quiet_os (\<lambda>_. 8) (\<lambda>_. dma_queue_push 0 1) (\<lambda>_. dma_queue_pop 1) lmem clocks_example
      (\<lambda>_. view_example) run_example 8 lib_init 0 = Some ((DDRBW_E_NOMAP, 0, replicate 8 zero_thread), 0)"
    by (simp add: ddrbw_read_def)
  with read_status[OF this] show ?thesis by simp
qed

text \<open>\<open>slot_wrap_accepted\<close>: a row pitch of \<open>0x80000000\<close> with two rows passes \<open>check_run\<close>, its slot wraps
  to 0 bytes, and the VTCM test accepts it for each VTCM, although the second row of each descriptor
  lands 2 GiB after the first.\<close>

definition run_wrap :: ddrbw_run where
  "run_wrap = run_example\<lparr>r_row := 256, r_dst_row := 0x80000000, r_n_threads := 1\<rparr>"

theorem slot_wrap_accepted:
  "check_run lib_example run_wrap map_example 8 = DDRBW_OK \<and> slots_fit lib_example run_wrap \<and>
   j_slot (job_of run_wrap dl) = 0 \<and> \<not> no_slot_wrap run_wrap \<and>
   \<not> dst_span (read_desc (job_of run_wrap dl) (worker_of lib_example map_example run_wrap 0) (unat (vtcm lib_example)) 0)
     \<subseteq> {unat (vtcm lib_example)..<unat (vtcm lib_example) + unat (vtcm_size lib_example)}"
proof -
  have slot: "j_slot (job_of run_wrap dl) = 0" for dl
    by (simp add: job_of_def run_wrap_def run_example_def run_row_def run_dst_def)
  have desc: "dst_span (read_desc (job_of run_wrap dl) (worker_of lib_example map_example run_wrap 0) (unat (vtcm lib_example)) 0)
      = {0x1000000..<0x1000000 + 2 * 0x80000000}"
    by (simp add: dst_span_def read_desc_def job_of_def run_wrap_def run_example_def run_row_def run_dst_def lib_example_def)
  have "(0x2000000 :: nat) \<in> {0x1000000..<0x1000000 + 2 * 0x80000000}"
    "(0x2000000 :: nat) \<notin> {unat (vtcm lib_example)..<unat (vtcm lib_example) + unat (vtcm_size lib_example)}"
    by (simp_all add: lib_example_def)
  moreover have "check_run lib_example run_wrap map_example 8 = DDRBW_OK"
    by (simp add: check_run_def run_wrap_def run_example_def lib_example_def map_example_def run_row_def run_dst_def status_codes
      DDRBW_MAX_THREADS_def Let_def)
  moreover have "slots_fit lib_example run_wrap" "\<not> no_slot_wrap run_wrap"
    by (simp_all add: slots_fit_def slot no_slot_wrap_def)
      (simp_all add: run_wrap_def run_example_def run_row_def run_dst_def lib_example_def)
  ultimately show ?thesis unfolding desc slot by blast
qed

end
