(* ===== verification/Fence.thy ===== *)
theory Fence
  imports DspMaps
begin

text \<open>
  The fence test: two words in shared memory, the host half \<open>fence_host_main\<close> and \<open>rtt_fence\<close> of
  \<open>tools/ddrbw/host/ddrbw.c\<close>, and the DSP half \<open>ddrbw_fence\<close> with \<open>fence_read\<close> and \<open>fence_write\<close> of
  \<open>tools/ddrbw/dsp/ddrbw_dsp.c\<close>.

  The two halves run at the same time. Each has a program counter, and a step is one access to the
  shared memory or the end of a loop round. The relation \<open>fence_step\<close> interleaves the steps of the two
  halves in each way. A step takes the value of the clock that the code reads in it. The cache
  operations of the two sides make the words coherent, thus a word has one value.
\<close>

subsection \<open>The state\<close>

datatype host_pc = H_store | H_poll | H_ret

datatype dsp_pc = D_head | D_poll | D_write | D_ret

record fence =
  host_word :: u32
  dsp_word :: u32
  h_pc :: host_pc
  h_i :: u32
  h_t0 :: u64
  h_done :: u32
  h_us :: "u64 list"
  d_pc :: dsp_pc
  d_i :: u32
  d_t0 :: u64
  d_done :: u32
  d_first :: u64
  d_last :: u64

text \<open>\<open>rtt_fence\<close> clears the two words, then it starts the host thread and calls the DSP.\<close>

definition fence_start :: fence where
  "fence_start = \<lparr>host_word = 0, dsp_word = 0, h_pc = H_store, h_i = 1, h_t0 = 0, h_done = 0, h_us = [],
     d_pc = D_head, d_i = 1, d_t0 = 0, d_done = 0, d_first = 0, d_last = 0\<rparr>"

subsection \<open>The host half\<close>

text \<open>
  \<open>late d\<close> is the test \<open>ticks_to_s(d) > 0.2\<close> on the elapsed ticks. A sample is kept in ticks. The host
  keeps the samples of the rounds after the 16th.
\<close>

definition host_step :: "u32 \<Rightarrow> (u64 \<Rightarrow> bool) \<Rightarrow> u64 \<Rightarrow> fence \<Rightarrow> fence" where
  "host_step iters late t s =
     (case h_pc s of
        H_store \<Rightarrow> if h_i s \<le> iters then s\<lparr>h_t0 := t, host_word := h_i s, h_pc := H_poll\<rparr> else s\<lparr>h_pc := H_ret\<rparr>
      | H_poll \<Rightarrow>
          if dsp_word s = h_i s then
            s\<lparr>h_done := h_i s, h_us := (if h_i s > 16 then h_us s @ [t - h_t0 s] else h_us s), h_i := h_i s + 1, h_pc := H_store\<rparr>
          else if late (t - h_t0 s) then s\<lparr>h_pc := H_ret\<rparr> else s
      | H_ret \<Rightarrow> s)"

subsection \<open>The DSP half\<close>

definition dsp_step :: "u32 \<Rightarrow> u64 \<Rightarrow> u64 \<Rightarrow> fence \<Rightarrow> fence" where
  "dsp_step iters to t s =
     (case d_pc s of
        D_head \<Rightarrow> if d_i s \<le> iters then s\<lparr>d_t0 := t, d_pc := D_poll\<rparr> else s\<lparr>d_pc := D_ret\<rparr>
      | D_poll \<Rightarrow>
          if host_word s = d_i s then s\<lparr>d_pc := D_write\<rparr>
          else if t - d_t0 s > to then s\<lparr>d_pc := D_ret\<rparr> else s
      | D_write \<Rightarrow>
          s\<lparr>dsp_word := d_i s, d_first := (if d_i s = 1 then t else d_first s), d_last := t, d_done := d_i s,
            d_i := d_i s + 1, d_pc := D_head\<rparr>
      | D_ret \<Rightarrow> s)"

text \<open>
  The entry of \<open>ddrbw_fence\<close>: the buffer must be mapped with the size of a fence buffer. The state of
  the DSP half is then that of \<open>fence_start\<close> with this timeout in ticks, and else the call returns.
\<close>

definition ddrbw_fence :: "lib \<Rightarrow> i32 \<Rightarrow> u32 \<Rightarrow> aee \<times> (nat \<times> nat \<times> u64) option" where
  "ddrbw_fence g f timeout_us =
     (case find_map g f of
        None \<Rightarrow> (AEE_EBADPARM, None)
      | Some i \<Rightarrow>
          let m = maps g ! i in
          if msize m < DDRBW_FENCE_BYTES then (AEE_EBADPARM, None)
          else (AEE_SUCCESS, Some (unat (va m), unat (va m) + DDRBW_FENCE_DSP, us_to_ticks (ucast timeout_us))))"

inductive fence_step :: "u32 \<Rightarrow> (u64 \<Rightarrow> bool) \<Rightarrow> u64 \<Rightarrow> fence \<Rightarrow> fence \<Rightarrow> bool" for iters late to where
  host: "fence_step iters late to s (host_step iters late t s)"
| dsp: "fence_step iters late to s (dsp_step iters to t s)"

inductive_cases fence_stepE: "fence_step iters late to s s'"

inductive fence_reach :: "u32 \<Rightarrow> (u64 \<Rightarrow> bool) \<Rightarrow> u64 \<Rightarrow> fence \<Rightarrow> bool" for iters late to where
  start: "fence_reach iters late to fence_start"
| step: "fence_reach iters late to s \<Longrightarrow> fence_step iters late to s s' \<Longrightarrow> fence_reach iters late to s'"

subsection \<open>The invariant\<close>

text \<open>
  The host word is the round of the host while it polls, and the last round it finished before it
  stores. The DSP word is the last round of the DSP. The DSP is never ahead of the host and at most
  one round behind.
\<close>

definition host_word_ok :: "fence \<Rightarrow> bool" where
  "host_word_ok s \<longleftrightarrow> (h_pc s = H_store \<longrightarrow> unat (host_word s) + 1 = unat (h_i s)) \<and>
     (h_pc s = H_poll \<longrightarrow> host_word s = h_i s) \<and>
     (h_pc s = H_ret \<longrightarrow> unat (host_word s) + 1 = unat (h_i s) \<and> host_word s = dsp_word s \<or> host_word s = h_i s)"

definition host_ahead_ok :: "fence \<Rightarrow> bool" where
  "host_ahead_ok s \<longleftrightarrow> (h_pc s = H_store \<longrightarrow> host_word s = dsp_word s)"

definition dsp_pc_ok :: "u32 \<Rightarrow> fence \<Rightarrow> bool" where
  "dsp_pc_ok iters s \<longleftrightarrow> (d_pc s = D_write \<longrightarrow> host_word s = d_i s) \<and> (d_pc s \<in> {D_poll, D_write} \<longrightarrow> d_i s \<le> iters)"

definition fence_inv :: "u32 \<Rightarrow> fence \<Rightarrow> bool" where
  "fence_inv iters s \<longleftrightarrow> host_word_ok s \<and> host_ahead_ok s \<and> dsp_pc_ok iters s \<and>
     unat (dsp_word s) \<le> unat (host_word s) \<and> unat (host_word s) \<le> unat (dsp_word s) + 1 \<and>
     dsp_word s = d_done s \<and> unat (d_done s) + 1 = unat (d_i s) \<and> unat (h_done s) + 1 = unat (h_i s) \<and>
     host_word s \<le> iters \<and> d_done s \<le> iters \<and> length (h_us s) = unat (h_done s) - 16 \<and>
     (h_pc s = H_poll \<longrightarrow> h_i s \<le> iters)"

lemma unat_Suc_word:
  fixes x iters :: u32
  assumes "x \<le> iters" "unat iters + 1 < 2 ^ 32"
  shows "unat (x + 1) = unat x + 1"
proof -
  have "unat x + unat (1 :: u32) < 2 ^ LENGTH(32)" using assms by (simp add: word_le_nat_alt)
  then show ?thesis by (simp add: unat_add_le)
qed

lemma fence_inv_start: "fence_inv iters fence_start"
  by (simp add: fence_inv_def fence_start_def host_word_ok_def host_ahead_ok_def dsp_pc_ok_def)

lemma host_step_inv:
  assumes inv: "fence_inv iters s" and it: "unat iters + 1 < 2 ^ 32"
  shows "fence_inv iters (host_step iters late t s)"
proof (cases "h_pc s")
  case H_store
  have "unat (host_word s) + 1 = unat (h_i s)" "host_word s = dsp_word s"
    using inv H_store by (auto simp: fence_inv_def host_word_ok_def host_ahead_ok_def)
  moreover have "d_pc s \<noteq> D_write" using inv calculation by (auto simp: fence_inv_def dsp_pc_ok_def)
  ultimately show ?thesis
    using inv H_store by (auto simp: host_step_def fence_inv_def host_word_ok_def host_ahead_ok_def dsp_pc_ok_def)
next
  case H_poll
  show ?thesis
  proof (cases "dsp_word s = h_i s")
    case True
    have "h_i s \<le> iters" using inv H_poll by (simp add: fence_inv_def)
    then have "unat (h_i s + 1) = unat (h_i s) + 1" using it by (rule unat_Suc_word)
    moreover have "h_i s > 16 \<longleftrightarrow> unat (h_done s) - 16 < unat (h_i s) - 16"
      using inv by (auto simp: fence_inv_def word_less_nat_alt)
    ultimately show ?thesis
      using inv H_poll True
      by (auto simp: host_step_def fence_inv_def host_word_ok_def host_ahead_ok_def dsp_pc_ok_def word_less_nat_alt)
  next
    case False
    then show ?thesis
      using inv H_poll by (auto simp: host_step_def fence_inv_def host_word_ok_def host_ahead_ok_def dsp_pc_ok_def)
  qed
next
  case H_ret
  then show ?thesis using inv by (simp add: host_step_def)
qed

lemma dsp_step_inv:
  assumes inv: "fence_inv iters s" and it: "unat iters + 1 < 2 ^ 32"
  shows "fence_inv iters (dsp_step iters to t s)"
proof (cases "d_pc s")
  case D_head
  then show ?thesis using inv by (auto simp: dsp_step_def fence_inv_def host_word_ok_def host_ahead_ok_def dsp_pc_ok_def)
next
  case D_poll
  then show ?thesis using inv by (auto simp: dsp_step_def fence_inv_def host_word_ok_def host_ahead_ok_def dsp_pc_ok_def)
next
  case D_write
  have w: "host_word s = d_i s" "d_i s \<le> iters" using inv D_write by (auto simp: fence_inv_def dsp_pc_ok_def)
  from w(2) have "unat (d_i s + 1) = unat (d_i s) + 1" using it by (rule unat_Suc_word)
  moreover have ne: "host_word s \<noteq> dsp_word s"
  proof
    assume "host_word s = dsp_word s"
    then have "d_done s = d_i s" using inv w(1) by (simp add: fence_inv_def)
    moreover have "unat (d_done s) + 1 = unat (d_i s)" using inv by (simp add: fence_inv_def)
    ultimately show False by simp
  qed
  moreover have "h_pc s \<noteq> H_store" using inv ne by (auto simp: fence_inv_def host_ahead_ok_def)
  ultimately show ?thesis
    using inv D_write w by (auto simp: dsp_step_def fence_inv_def host_word_ok_def host_ahead_ok_def dsp_pc_ok_def)
next
  case D_ret
  then show ?thesis using inv by (simp add: dsp_step_def)
qed

lemma fence_reach_inv:
  assumes "fence_reach iters late to s" "unat iters + 1 < 2 ^ 32"
  shows "fence_inv iters s"
  using assms
  by (induction rule: fence_reach.induct) (auto intro: fence_inv_start host_step_inv dsp_step_inv elim!: fence_stepE)

subsection \<open>Completion\<close>

text \<open>A half that returned without a timeout has run past its last round.\<close>

definition complete :: "u32 \<Rightarrow> fence \<Rightarrow> bool" where
  "complete iters s \<longleftrightarrow> iters < h_i s \<and> iters < d_i s"

lemma fence_complete_counts:
  assumes "fence_inv iters s" "complete iters s"
  shows "h_done s = iters \<and> d_done s = iters"
proof -
  have "unat (h_done s) + 1 = unat (h_i s)" "unat (d_done s) + 1 = unat (d_i s)" "d_done s \<le> iters" "host_word s \<le> iters"
    using assms(1) by (simp_all add: fence_inv_def)
  moreover have "unat (h_done s) \<le> unat iters"
  proof (cases "h_pc s")
    case H_poll
    then show ?thesis using assms by (auto simp: fence_inv_def complete_def)
  qed (use assms in \<open>auto simp: fence_inv_def host_word_ok_def host_ahead_ok_def complete_def word_le_nat_alt word_less_nat_alt\<close>)
  ultimately have "unat (h_done s) = unat iters" "unat (d_done s) = unat iters"
    using assms(2) by (auto simp: complete_def word_less_nat_alt word_le_nat_alt)
  then show ?thesis by (simp add: word_unat_eq_iff)
qed

text \<open>
  Progress: while both halves run, one of them can take a step that is not a poll without a result.
\<close>

definition enabled :: "u32 \<Rightarrow> fence \<Rightarrow> bool" where
  "enabled iters s \<longleftrightarrow> h_pc s = H_store \<or> d_pc s = D_head \<or> d_pc s = D_write \<or>
     (h_pc s = H_poll \<and> dsp_word s = h_i s) \<or> (d_pc s = D_poll \<and> host_word s = d_i s)"

lemma fence_enabled:
  assumes inv: "fence_inv iters s" and run: "h_pc s \<noteq> H_ret" "d_pc s \<noteq> D_ret"
  shows "enabled iters s"
proof (rule ccontr)
  assume "\<not> enabled iters s"
  then have p: "h_pc s = H_poll" "d_pc s = D_poll" "dsp_word s \<noteq> h_i s" "host_word s \<noteq> d_i s"
    using run by (cases "h_pc s"; cases "d_pc s"; simp add: enabled_def)+
  then have "host_word s = h_i s" using inv by (simp add: fence_inv_def host_word_ok_def)
  then have "unat (host_word s) = unat (dsp_word s) + 1"
    using inv p(3) by (auto simp: fence_inv_def word_unat_eq_iff)
  then have "host_word s = d_i s" using inv by (simp add: fence_inv_def word_unat_eq_iff)
  then show False using p(4) by simp
qed

lemma fence_counts:
  assumes inv: "fence_inv iters s"
  shows "h_done s \<le> d_done s" "unat (d_done s) \<le> unat (h_done s) + 1"
proof -
  have e: "unat (h_done s) + 1 = unat (h_i s)" "dsp_word s = d_done s" "unat (dsp_word s) \<le> unat (host_word s)"
    "unat (host_word s) \<le> unat (dsp_word s) + 1" using inv unfolding fence_inv_def by blast+
  have "(unat (host_word s) + 1 = unat (h_i s) \<and> host_word s = dsp_word s) \<or> host_word s = h_i s"
    using inv by (cases "h_pc s") (auto simp: fence_inv_def host_word_ok_def host_ahead_ok_def)
  then have "unat (h_done s) \<le> unat (d_done s) \<and> unat (d_done s) \<le> unat (h_done s) + 1" using e by auto
  then show "h_done s \<le> d_done s" "unat (d_done s) \<le> unat (h_done s) + 1" by (simp_all add: word_le_nat_alt)
qed

subsection \<open>Properties\<close>

text \<open>C19. \<open>fence_lockstep\<close>: in each interleaving of the two halves, with timeouts at whatever moment, the
  DSP word is the host word or one less, the DSP has answered the rounds that the host has finished
  and at most one more, and the host has one sample for each finished round after the 16th.\<close>

theorem fence_lockstep:
  assumes "fence_reach iters late to s" "unat iters + 1 < 2 ^ 32"
  shows "unat (dsp_word s) \<le> unat (host_word s) \<and> unat (host_word s) \<le> unat (dsp_word s) + 1 \<and>
    h_done s \<le> d_done s \<and> unat (d_done s) \<le> unat (h_done s) + 1 \<and> d_done s \<le> iters \<and>
    length (h_us s) = unat (h_done s) - 16"
  using fence_reach_inv[OF assms] fence_counts[OF fence_reach_inv[OF assms]] unfolding fence_inv_def by blast

theorem fence_lockstep_witness:
  "let s = dsp_step 3 100 2 (dsp_step 3 100 1 (host_step 3 (\<lambda>_. False) 0 fence_start))
   in unat (dsp_word s) \<le> unat (host_word s) \<and> host_word s = 1"
proof -
  let ?s1 = "host_step 3 (\<lambda>_. False) 0 fence_start" let ?s = "dsp_step 3 100 2 (dsp_step 3 100 1 ?s1)"
  have "fence_reach 3 (\<lambda>_. False) 100 ?s" by (intro fence_reach.step[OF _ fence_step.dsp] fence_reach.step[OF _ fence_step.host] fence_reach.start)
  from fence_lockstep[OF this] have "unat (dsp_word ?s) \<le> unat (host_word ?s)" by simp
  moreover have "host_word ?s = 1" by (simp add: host_step_def dsp_step_def fence_start_def)
  ultimately show ?thesis by (simp add: Let_def)
qed

text \<open>C20. \<open>fence_progress\<close>: the halves never wait for each other without an end. In each reachable state
  in which both run, one of them has a step that is not an empty poll, and when both have run past the last
  round they have both counted all rounds.\<close>

theorem fence_progress:
  assumes "fence_reach iters late to s" "unat iters + 1 < 2 ^ 32"
  shows "(h_pc s \<noteq> H_ret \<and> d_pc s \<noteq> D_ret \<longrightarrow> enabled iters s) \<and>
    (complete iters s \<longrightarrow> h_done s = iters \<and> d_done s = iters)"
  using fence_enabled[OF fence_reach_inv[OF assms]] fence_complete_counts[OF fence_reach_inv[OF assms]] by blast

theorem fence_progress_witness: "enabled 3 (host_step 3 (\<lambda>_. False) 0 fence_start)"
proof -
  let ?s = "host_step 3 (\<lambda>_. False) 0 fence_start"
  have "fence_reach 3 (\<lambda>_. False) 100 ?s" by (intro fence_reach.step[OF _ fence_step.host] fence_reach.start)
  from fence_progress[OF this] show ?thesis by (simp add: host_step_def fence_start_def)
qed

end
