(* ===== verification/CText.thy ===== *)
theory CText
  imports Prelude "HOL-Library.Char_ord"
begin

text \<open>
  The parts of the C string library that the host programs use on their arguments: \<open>strtoul\<close> and
  \<open>strtol\<close> with base 10, and the split of a list at a separator with \<open>strchr\<close>. A C string is a
  \<^typ>\<open>string\<close> without the final null byte, and a pointer into it is the rest of the string from there.
  A \<open>long\<close> has 64 bits on the host.
\<close>

definition char_code :: "char \<Rightarrow> nat" where
  "char_code c = of_char c"

definition is_space :: "char \<Rightarrow> bool" where
  "is_space c \<longleftrightarrow> char_code c = 32 \<or> (9 \<le> char_code c \<and> char_code c \<le> 13)"

definition is_digit :: "char \<Rightarrow> bool" where
  "is_digit c \<longleftrightarrow> 48 \<le> char_code c \<and> char_code c \<le> 57"

definition digit_val :: "char \<Rightarrow> nat" where
  "digit_val c = char_code c - 48"

definition digits_val :: "string \<Rightarrow> nat" where
  "digits_val ds = foldl (\<lambda>v c. 10 * v + digit_val c) 0 ds"

text \<open>The sign, the digits and the rest of the text. No digits: the text is not a number.\<close>

definition skip_sign :: "string \<Rightarrow> string" where
  "skip_sign s = (if s \<noteq> [] \<and> (hd s = CHR ''-'' \<or> hd s = CHR ''+'') then tl s else s)"

definition scan_number :: "string \<Rightarrow> (bool \<times> nat \<times> string) option" where
  "scan_number s =
     (let s1 = dropWhile is_space s;
          neg = (s1 \<noteq> [] \<and> hd s1 = CHR ''-'');
          s2 = skip_sign s1;
          ds = takeWhile is_digit s2
      in if ds = [] then None else Some (neg, digits_val ds, dropWhile is_digit s2))"

definition strtoul :: "string \<Rightarrow> u64 \<times> string" where
  "strtoul s =
     (case scan_number s of
        None \<Rightarrow> (0, s)
      | Some (neg, n, rest) \<Rightarrow>
          (if n \<ge> 2 ^ 64 then - 1 else if neg then - of_nat n else of_nat n, rest))"

definition strtol :: "string \<Rightarrow> int \<times> string" where
  "strtol s =
     (case scan_number s of
        None \<Rightarrow> (0, s)
      | Some (neg, n, rest) \<Rightarrow>
          (if neg then max (- (2 ^ 63)) (- int n) else min (2 ^ 63 - 1) (int n), rest))"

text \<open>The text before the first separator, and the text from it.\<close>

definition item :: "char \<Rightarrow> string \<Rightarrow> string" where
  "item sep p = takeWhile (\<lambda>c. c \<noteq> sep) p"

definition after_item :: "char \<Rightarrow> string \<Rightarrow> string" where
  "after_item sep p = (let r = dropWhile (\<lambda>c. c \<noteq> sep) p in if r \<noteq> [] then tl r else r)"

subsection \<open>Lengths\<close>

lemma scan_number_shorter:
  assumes "scan_number s = Some (neg, n, rest)"
  shows "length rest < length s"
proof -
  let ?s1 = "dropWhile is_space s" let ?s2 = "skip_sign ?s1"
  have ds: "takeWhile is_digit ?s2 \<noteq> []" "rest = dropWhile is_digit ?s2"
    using assms unfolding scan_number_def Let_def by (metis option.distinct(1), metis option.distinct(1) option.inject prod.inject)
  have "length ?s2 = length (takeWhile is_digit ?s2) + length rest"
    by (metis ds(2) length_append takeWhile_dropWhile_id)
  moreover have "length ?s2 \<le> length ?s1" by (auto simp: skip_sign_def)
  moreover have "length ?s1 \<le> length s" by (rule length_dropWhile_le)
  moreover have "0 < length (takeWhile is_digit ?s2)" using ds(1) by simp
  ultimately show ?thesis by linarith
qed

lemma strtol_rest: "length (snd (strtol s)) \<le> length s" "snd (strtol s) \<noteq> s \<Longrightarrow> length (snd (strtol s)) < length s"
  using scan_number_shorter[of s] by (auto simp: strtol_def less_imp_le split: option.splits prod.splits)

lemma after_item_shorter: "p \<noteq> [] \<Longrightarrow> length (after_item sep p) < length p"
proof -
  assume "p \<noteq> []"
  define r where "r = dropWhile (\<lambda>c. c \<noteq> sep) p"
  have "length r \<le> length p" unfolding r_def by (rule length_dropWhile_le)
  moreover have "0 < length p" using \<open>p \<noteq> []\<close> by simp
  ultimately show ?thesis unfolding after_item_def r_def[symmetric] Let_def by (cases r) auto
qed

subsection \<open>Decimal numbers\<close>

definition digit_char :: "nat \<Rightarrow> char" where
  "digit_char d = char_of (48 + d)"

fun decimal :: "nat \<Rightarrow> string" where
  "decimal n = (if n < 10 then [digit_char n] else decimal (n div 10) @ [digit_char (n mod 10)])"

declare decimal.simps [simp del]

lemma digit_char: "d < 10 \<Longrightarrow> is_digit (digit_char d)" "d < 10 \<Longrightarrow> digit_val (digit_char d) = d"
  by (simp_all add: is_digit_def digit_val_def char_code_def digit_char_def of_char_of)

lemma decimal_digits: "decimal n \<noteq> [] \<and> list_all is_digit (decimal n)"
proof (induction n rule: decimal.induct)
  case (1 n)
  show ?case using 1 by (cases "n < 10"; subst (1 2) decimal.simps) (simp_all add: digit_char)
qed

lemma digits_val_append: "digits_val (xs @ [c]) = 10 * digits_val xs + digit_val c"
  by (simp add: digits_val_def)

lemma digits_val_decimal: "digits_val (decimal n) = n"
proof (induction n rule: decimal.induct)
  case (1 n)
  show ?case
  proof (cases "n < 10")
    case True
    then show ?thesis by (subst decimal.simps) (simp add: digits_val_def digit_char)
  next
    case False
    then show ?thesis using 1 by (subst decimal.simps) (simp add: digits_val_append digit_char)
  qed
qed

lemma digit_no_space: "is_digit c \<Longrightarrow> \<not> is_space c \<and> c \<noteq> CHR ''-'' \<and> c \<noteq> CHR ''+''"
  by (auto simp: is_digit_def is_space_def char_code_def)

lemma takeWhile_all: "list_all P xs \<Longrightarrow> (ys \<noteq> [] \<Longrightarrow> \<not> P (hd ys)) \<Longrightarrow> takeWhile P (xs @ ys) = xs"
  "list_all P xs \<Longrightarrow> (ys \<noteq> [] \<Longrightarrow> \<not> P (hd ys)) \<Longrightarrow> dropWhile P (xs @ ys) = ys"
  by (induction xs; cases ys; simp)+

lemma scan_decimal:
  assumes "r \<noteq> [] \<Longrightarrow> \<not> is_digit (hd r)"
  shows "scan_number (decimal n @ r) = Some (False, n, r)"
proof -
  obtain c cs where d: "decimal n = c # cs" "is_digit c" "list_all is_digit cs"
    using decimal_digits[of n] by (cases "decimal n") auto
  have "dropWhile is_space (decimal n @ r) = decimal n @ r" using d digit_no_space[OF d(2)] by simp
  moreover have "takeWhile is_digit (decimal n @ r) = decimal n" "dropWhile is_digit (decimal n @ r) = r"
    using decimal_digits[of n] assms by (auto intro!: takeWhile_all)
  moreover have "hd (decimal n @ r) \<noteq> CHR ''-'' \<and> hd (decimal n @ r) \<noteq> CHR ''+''" using d digit_no_space[OF d(2)] by simp
  ultimately show ?thesis using decimal_digits[of n] by (simp add: scan_number_def skip_sign_def Let_def digits_val_decimal)
qed

lemma strtoul_decimal:
  assumes "n < 2 ^ 64" "r \<noteq> [] \<Longrightarrow> \<not> is_digit (hd r)"
  shows "strtoul (decimal n @ r) = (of_nat n, r)"
  using scan_decimal[OF assms(2), of n] assms(1) by (simp add: strtoul_def)

lemma strtol_decimal:
  assumes "n < 2 ^ 63" "r \<noteq> [] \<Longrightarrow> \<not> is_digit (hd r)"
  shows "strtol (decimal n @ r) = (int n, r)"
  using scan_decimal[OF assms(2), of n] assms(1) by (simp add: strtol_def)

end
