(* ===== verification/HostArgs.thy ===== *)
theory HostArgs
  imports CText DspRead
begin

text \<open>
  The arguments of the host program \<open>tools/ddrbw/host/ddrbw.c\<close>: \<open>parse_u32\<close>, \<open>parse_votes\<close>, the table
  \<open>k_cfgs\<close> with \<open>find_cfg\<close> and \<open>parse_cfgs\<close>, the CPU sets of \<open>parse_sets\<close>, and the options of \<open>main\<close>.
  A function that gives -1 after a message is \<^const>\<open>None\<close> here. The messages are not modelled.
\<close>

subsection \<open>Numbers and votes\<close>

definition parse_u32 :: "string \<Rightarrow> u32 \<Rightarrow> u32 \<Rightarrow> u32 option" where
  "parse_u32 s lo hi =
     (let (x, e) = strtoul s
      in if s = [] \<or> e \<noteq> [] \<or> x < ucast lo \<or> x > ucast hi then None else Some (ucast x))"

definition vote_names :: "(string \<times> u32) list" where
  "vote_names =
     [(''none'', 0), (''backend'', DDRBW_VOTE_BACKEND), (''ddrperf'', DDRBW_VOTE_BACKEND OR DDRBW_VOTE_DDRPERF),
      (''busperf'', DDRBW_VOTE_BACKEND OR DDRBW_VOTE_BUSPERF), (''expv'', DDRBW_VOTE_BACKEND OR DDRBW_VOTE_EXPV),
      (''ceng'', DDRBW_VOTE_BACKEND OR DDRBW_VOTE_CENG), (''bw'', DDRBW_VOTE_BACKEND OR DDRBW_VOTE_BW),
      (''max'', DDRBW_VOTE_ALL)]"

definition parse_votes :: "string \<Rightarrow> u32 option" where
  "parse_votes name = map_of vote_names name"

subsection \<open>The NSP configurations\<close>

record nsp_cfg =
  c_name :: string
  c_n_threads :: u32
  c_n_dma :: u32
  c_chunk :: u32
  c_row :: u32
  c_dst_row :: u32
  c_depth :: u32
  c_pf :: u32
  c_flags :: u32
  c_region_kib :: u32

definition cfg :: "string \<Rightarrow> u32 \<Rightarrow> u32 \<Rightarrow> u32 \<Rightarrow> u32 \<Rightarrow> u32 \<Rightarrow> u32 \<Rightarrow> u32 \<Rightarrow> u32 \<Rightarrow> u32 \<Rightarrow> nsp_cfg" where
  "cfg nm t d ch r dr dp p fl rk = \<lparr>c_name = nm, c_n_threads = t, c_n_dma = d, c_chunk = ch, c_row = r, c_dst_row = dr,
     c_depth = dp, c_pf = p, c_flags = fl, c_region_kib = rk\<rparr>"

definition k_cfgs :: "nsp_cfg list" where
  "k_cfgs =
    [cfg ''hvx-t1'' 1 0 65536 0 0 0 2 0 0,
     cfg ''hvx-t2'' 2 0 65536 0 0 0 2 0 0,
     cfg ''hvx-t4'' 4 0 65536 0 0 0 2 0 0,
     cfg ''hvx-t6'' 6 0 65536 0 0 0 2 0 0,
     cfg ''hvx-nopf-t1'' 1 0 65536 0 0 0 0 0 0,
     cfg ''hvx-nopf-t6'' 6 0 65536 0 0 0 0 0 0,
     cfg ''hvx-pf4-t6'' 6 0 65536 0 0 0 4 0 0,
     cfg ''dma-t1'' 1 1 65536 0 0 8 0 0 0,
     cfg ''dma-t2'' 2 2 65536 0 0 8 0 0 0,
     cfg ''dma-t4'' 4 4 65536 0 0 8 0 0 0,
     cfg ''dma-t6'' 6 6 65536 0 0 8 0 0 0,
     cfg ''gemv-t1'' 1 1 87040 1088 1152 8 0 0 0,
     cfg ''gemv-t2'' 2 2 87040 1088 1152 8 0 0 0,
     cfg ''gemv-t4'' 4 4 87040 1088 1152 8 0 0 0,
     cfg ''gemv-t6'' 6 6 87040 1088 1152 8 0 0 0,
     cfg ''gemv-sum-t6'' 6 6 87040 1088 1152 8 0 DDRBW_FLAG_SUM 0,
     cfg ''gemv-d2-t6'' 6 6 87040 1088 1152 2 0 0 0,
     cfg ''gemv-d4-t6'' 6 6 87040 1088 1152 4 0 0 0,
     cfg ''lin87k-t6'' 6 6 87040 0 0 8 0 0 0,
     cfg ''dma-sum-t6'' 6 6 65536 0 0 8 0 DDRBW_FLAG_SUM 0,
     cfg ''dma-cached-t6'' 6 6 65536 0 0 8 0 DDRBW_FLAG_CACHED 0,
     cfg ''dma16k-t6'' 6 6 16384 0 0 16 0 0 0,
     cfg ''dma256k-t6'' 6 6 262144 0 0 4 0 0 0,
     cfg ''mix-3d3h'' 6 3 65536 0 0 8 2 0 0,
     cfg ''mix-4d2h'' 6 4 65536 0 0 8 2 0 0,
     cfg ''ws-256k'' 6 6 16384 0 0 8 0 0 256,
     cfg ''ws-1m'' 6 6 16384 0 0 8 0 0 1024,
     cfg ''ws-4m'' 6 6 16384 0 0 8 0 0 4096,
     cfg ''ws-8m'' 6 6 16384 0 0 8 0 0 8192,
     cfg ''ws-16m'' 6 6 16384 0 0 8 0 0 16384,
     cfg ''ws-64m'' 6 6 16384 0 0 8 0 0 65536,
     cfg ''ws-full'' 6 6 16384 0 0 8 0 0 0]"

definition k_plan_full :: string where
  "k_plan_full = ''hvx-t1,hvx-t2,hvx-t4,hvx-t6,hvx-nopf-t1,hvx-nopf-t6,hvx-pf4-t6,dma-t1,dma-t2,dma-t4,dma-t6,gemv-t1,gemv-t2,gemv-t4,gemv-t6,gemv-sum-t6,gemv-d2-t6,gemv-d4-t6,lin87k-t6,dma-sum-t6,dma-cached-t6,dma16k-t6,dma256k-t6,mix-3d3h,mix-4d2h,ws-256k,ws-1m,ws-4m,ws-8m,ws-16m,ws-64m,ws-full''"

definition k_plan_short :: string where
  "k_plan_short = ''hvx-t6,dma-t6,gemv-t6,gemv-sum-t6,mix-3d3h''"

definition k_plan_ws :: string where
  "k_plan_ws = ''ws-256k,ws-1m,ws-4m,ws-8m,ws-16m,ws-64m,ws-full''"

definition find_cfg :: "string \<Rightarrow> nsp_cfg option" where
  "find_cfg name = find (\<lambda>c. c_name c = name) k_cfgs"

function parse_cfgs_from :: "string \<Rightarrow> nat \<Rightarrow> nsp_cfg list \<Rightarrow> nsp_cfg list option" where
  "parse_cfgs_from p mx out =
     (if p = [] then Some out
      else case find_cfg (item (CHR '','') p) of
        None \<Rightarrow> None
      | Some c \<Rightarrow> if length out = mx then None else parse_cfgs_from (after_item (CHR '','') p) mx (out @ [c]))"
  by pat_completeness auto
termination
  by (relation "measure (\<lambda>(p, mx, out). length p)") (simp_all add: after_item_shorter)

declare parse_cfgs_from.simps [simp del]

definition parse_cfgs :: "string \<Rightarrow> nat \<Rightarrow> nsp_cfg list option" where
  "parse_cfgs list mx = parse_cfgs_from list mx []"

text \<open>The list of a plan name of \<open>mode_nsp\<close>.\<close>

definition plan_list :: "string \<Rightarrow> string" where
  "plan_list p = (if p = ''full'' then k_plan_full else if p = ''short'' then k_plan_short
     else if p = ''ws'' then k_plan_ws else p)"

subsection \<open>The CPU sets\<close>

record core_set =
  s_cpu :: "int list"
  s_text :: string

definition MAX_THREADS :: nat where "MAX_THREADS = 8"
definition MAX_SETS :: nat where "MAX_SETS = 16"

text \<open>The loop over the cores of one range. The field \<open>n\<close> of the structure is the length of \<open>cpu\<close>.\<close>

function add_cores :: "int \<Rightarrow> int \<Rightarrow> int list \<Rightarrow> int list option" where
  "add_cores c z cs =
     (if c \<le> z then
        if c < 0 \<or> c > 63 \<or> length cs = MAX_THREADS then None else add_cores (c + 1) z (cs @ [c])
      else Some cs)"
  by pat_completeness auto
termination
  by (relation "measure (\<lambda>(c, z, cs). nat (64 - c))") auto

declare add_cores.simps [simp del]

text \<open>One range: its bounds and the text after it, without a comma that follows. \<^const>\<open>None\<close> is no number.\<close>

definition parse_range :: "string \<Rightarrow> (int \<times> int \<times> string) option" where
  "parse_range q =
     (let (a, e) = strtol q in
      if e = q then None
      else if e \<noteq> [] \<and> hd e = CHR ''-'' then let (z, e) = strtol (tl e) in Some (a, z, e)
      else Some (a, a, e))"

lemma parse_range_shorter:
  assumes "parse_range q = Some (a, z, e)"
  shows "length e < length q"
proof -
  obtain a' e' where r: "strtol q = (a', e')" by fastforce
  have ne: "e' \<noteq> q" using assms by (auto simp: parse_range_def r)
  then have lt: "length e' < length q" using strtol_rest(2)[of q] r by simp
  obtain z' e'' where r2: "strtol (tl e') = (z', e'')" by fastforce
  have "length e'' \<le> length e'" using strtol_rest(1)[of "tl e'"] r2 by simp
  then show ?thesis using assms lt ne by (auto simp: parse_range_def r r2 split: if_splits)
qed

function parse_ranges :: "string \<Rightarrow> int list \<Rightarrow> int list option" where
  "parse_ranges q cs =
     (if q = [] then Some cs
      else case parse_range q of
        None \<Rightarrow> None
      | Some (a, z, e) \<Rightarrow>
          (case add_cores a z cs of
             None \<Rightarrow> None
           | Some cs \<Rightarrow>
               if e \<noteq> [] \<and> hd e \<noteq> CHR '','' then None
               else parse_ranges (tl e) cs))"
  by pat_completeness auto
termination
proof (relation "measure (\<lambda>(q, cs). length q)", goal_cases)
  case (2 q cs r a r' z e cs')
  then have "length e < length q" using parse_range_shorter[of q a z e] by simp
  then show ?case by simp
qed simp

declare parse_ranges.simps [simp del]

text \<open>One set: \<open>snprintf\<close> keeps the first 47 characters of the item.\<close>

definition parse_set :: "string \<Rightarrow> core_set option" where
  "parse_set s = map_option (\<lambda>cs. \<lparr>s_cpu = cs, s_text = take 47 s\<rparr>) (parse_ranges (take 47 s) [])"

function parse_sets_from :: "string \<Rightarrow> nat \<Rightarrow> core_set list \<Rightarrow> core_set list option" where
  "parse_sets_from p mx out =
     (if p = [] then Some out
      else if length out = mx then None
      else case parse_set (item (CHR ''/'') p) of
        None \<Rightarrow> None
      | Some s \<Rightarrow> parse_sets_from (after_item (CHR ''/'') p) mx (out @ [s]))"
  by pat_completeness auto
termination
  by (relation "measure (\<lambda>(p, mx, out). length p)") (simp_all add: after_item_shorter)

declare parse_sets_from.simps [simp del]

definition parse_sets :: "string \<Rightarrow> nat \<Rightarrow> core_set list option" where
  "parse_sets list mx = parse_sets_from list mx []"

subsection \<open>The options of \<open>main\<close>\<close>

record options =
  o_mode :: string
  o_votes :: string
  o_plan :: string
  o_cfgs :: string
  o_sets :: string
  o_mb :: u32
  o_reps :: u32
  o_budget_ms :: u32
  o_iters :: u32
  o_hz :: u32
  o_ms :: u32
  o_out :: "string option"

definition default_options :: "string \<Rightarrow> options" where
  "default_options mode = \<lparr>o_mode = mode, o_votes = ''backend'', o_plan = ''full'', o_cfgs = ''gemv-t6,dma-t6'',
     o_sets = ''6,7/0-5/0-7'', o_mb = 512, o_reps = 3, o_budget_ms = 300, o_iters = 2000, o_hz = 10, o_ms = 30000,
     o_out = None\<rparr>"

definition apply_option :: "string \<Rightarrow> string \<Rightarrow> options \<Rightarrow> options option" where
  "apply_option a v opt =
     (if a = ''--votes'' then Some (opt\<lparr>o_votes := v\<rparr>)
      else if a = ''--plan'' then Some (opt\<lparr>o_plan := v\<rparr>)
      else if a = ''--cfgs'' then Some (opt\<lparr>o_cfgs := v\<rparr>)
      else if a = ''--sets'' then Some (opt\<lparr>o_sets := v\<rparr>)
      else if a = ''--mb'' then map_option (\<lambda>x. opt\<lparr>o_mb := x\<rparr>) (parse_u32 v 64 2048)
      else if a = ''--reps'' then map_option (\<lambda>x. opt\<lparr>o_reps := x\<rparr>) (parse_u32 v 1 100)
      else if a = ''--budget-ms'' then map_option (\<lambda>x. opt\<lparr>o_budget_ms := x\<rparr>) (parse_u32 v 10 5000)
      else if a = ''--iters'' then map_option (\<lambda>x. opt\<lparr>o_iters := x\<rparr>) (parse_u32 v 10 100000)
      else if a = ''--hz'' then map_option (\<lambda>x. opt\<lparr>o_hz := x\<rparr>) (parse_u32 v 1 5000)
      else if a = ''--ms'' then map_option (\<lambda>x. opt\<lparr>o_ms := x\<rparr>) (parse_u32 v 10 600000)
      else if a = ''--out'' then Some (opt\<lparr>o_out := Some v\<rparr>)
      else None)"

fun parse_options :: "string list \<Rightarrow> options \<Rightarrow> options option" where
  "parse_options [] opt = Some opt"
| "parse_options [a] opt = None"
| "parse_options (a # v # as) opt = Option.bind (apply_option a v opt) (parse_options as)"

text \<open>\<open>argv\<close> without the name of the program. \<^const>\<open>None\<close> is the usage error.\<close>

definition parse_argv :: "string list \<Rightarrow> options option" where
  "parse_argv argv = (case argv of [] \<Rightarrow> None | m # as \<Rightarrow> parse_options as (default_options m))"

lemmas strtol_defs = strtol_def scan_number_def skip_sign_def is_space_def is_digit_def digit_val_def digits_val_def
  char_code_def

lemmas cpu_sets_defs = parse_sets_def parse_range_def parse_set_def item_def after_item_def MAX_SETS_def
  MAX_THREADS_def strtol_defs

subsection \<open>What the parsers accept\<close>

lemma parse_u32_range:
  assumes "parse_u32 s lo hi = Some v"
  shows "lo \<le> v \<and> v \<le> hi"
proof -
  obtain x e where x: "strtoul s = (x, e)" by fastforce
  have b: "ucast lo \<le> x" "x \<le> ucast hi" "v = ucast x"
    using assms by (auto simp: parse_u32_def x not_less split: if_splits)
  have n: "unat lo \<le> unat x" "unat x \<le> unat hi"
    using b(1,2) by (simp_all add: word_le_nat_alt unat_ucast_up)
  then have "unat x < 2 ^ LENGTH(32)" using unat_lt2p[of hi] by simp
  then have "unat v = unat x" by (simp add: b(3) unsigned_ucast_eq take_bit_nat_eq_self_iff)
  then show ?thesis using n by (simp add: word_le_nat_alt)
qed

lemma parse_u32_decimal:
  assumes "lo \<le> v" "v \<le> hi"
  shows "parse_u32 (decimal (unat v)) lo hi = Some v"
proof -
  have lt: "unat v < 2 ^ 64" using unat_lt2p[of v] by simp
  have s: "strtoul (decimal (unat v)) = (of_nat (unat v), [])" using strtoul_decimal[OF lt, of "[]"] by simp
  have "decimal (unat v) \<noteq> []" using decimal_digits by blast
  moreover have "(of_nat (unat v) :: u64) = ucast v" by (simp add: word_unat_eq_iff unat_ucast_up unat_of_nat take_bit_nat_eq_self_iff lt)
  moreover have "ucast (ucast v :: u64) = v"
  proof (rule bit_word_eqI)
    fix n assume "n < LENGTH(32)"
    then show "bit (ucast (ucast v :: u64) :: u32) n = bit v n" by (simp add: bit_unsigned_iff)
  qed
  moreover have "\<not> (ucast v :: u64) < ucast lo" "\<not> (ucast v :: u64) > ucast hi"
    using assms by (simp_all add: not_less word_le_nat_alt unat_ucast_up)
  ultimately show ?thesis by (simp add: parse_u32_def s)
qed

lemma add_cores_upto:
  assumes "add_cores c z cs = Some cs'"
  shows "cs' = cs @ [c..z] \<and> (length cs \<le> MAX_THREADS \<longrightarrow> length cs' \<le> MAX_THREADS) \<and> set [c..z] \<subseteq> {0..63}"
  using assms
proof (induction c z cs rule: add_cores.induct)
  case (1 c z cs)
  show ?case
  proof (cases "c \<le> z")
    case True
    then have ok: "0 \<le> c" "c \<le> 63" "length cs \<noteq> MAX_THREADS" and r: "add_cores (c + 1) z (cs @ [c]) = Some cs'"
      using 1(2) by (auto simp: add_cores.simps[of c] split: if_splits)
    have "[c..z] = c # [c + 1..z]" using True by (rule upto_rec1)
    then show ?thesis using 1(1)[OF True _ r] ok by auto
  next
    case False
    then show ?thesis using 1(2) by (simp add: add_cores.simps[of c])
  qed
qed

lemma parse_ranges_ok:
  assumes "parse_ranges q cs = Some cs'" "set cs \<subseteq> {0..63}" "length cs \<le> MAX_THREADS"
  shows "set cs' \<subseteq> {0..63} \<and> length cs' \<le> MAX_THREADS"
  using assms
proof (induction q cs rule: parse_ranges.induct)
  case (1 q cs)
  show ?case
  proof (cases "q = []")
    case True
    then show ?thesis using 1 by (simp add: parse_ranges.simps[of "[]"])
  next
    case False
    then obtain a z e cs1 where p: "parse_range q = Some (a, z, e)" "add_cores a z cs = Some cs1" "\<not> (e \<noteq> [] \<and> hd e \<noteq> CHR '','')"
      "parse_ranges (tl e) cs1 = Some cs'"
      using 1(2) by (auto simp: parse_ranges.simps[of q] split: option.splits if_splits)
    have "set cs1 \<subseteq> {0..63}" "length cs1 \<le> MAX_THREADS" using add_cores_upto[OF p(2)] 1(3,4) by auto
    then show ?thesis using 1(1)[OF False p(1) refl refl p(2,3,4)] by blast
  qed
qed

definition set_ok :: "core_set \<Rightarrow> bool" where
  "set_ok s \<longleftrightarrow> set (s_cpu s) \<subseteq> {0..63} \<and> length (s_cpu s) \<le> MAX_THREADS \<and> length (s_text s) \<le> 47"

lemma parse_sets_from_ok:
  assumes "parse_sets_from p mx out = Some ss" "list_all set_ok out" "length out \<le> mx"
  shows "list_all set_ok ss \<and> length ss \<le> mx"
  using assms
proof (induction p mx out rule: parse_sets_from.induct)
  case (1 p mx out)
  show ?case
  proof (cases "p = []")
    case True
    then show ?thesis using 1 by (simp add: parse_sets_from.simps[of "[]"])
  next
    case False
    then obtain s where p: "length out \<noteq> mx" "parse_set (item (CHR ''/'') p) = Some s"
      "parse_sets_from (after_item (CHR ''/'') p) mx (out @ [s]) = Some ss"
      using 1(2) by (auto simp: parse_sets_from.simps[of p] split: option.splits if_splits)
    obtain z where z: "parse_ranges (take 47 (item (CHR ''/'') p)) [] = Some z" "s = \<lparr>s_cpu = z, s_text = take 47 (item (CHR ''/'') p)\<rparr>"
      using p(2) by (auto simp: parse_set_def)
    have "set_ok s" using parse_ranges_ok[OF z(1)] unfolding set_ok_def z(2) by simp
    then show ?thesis using 1(1)[OF False p(1,2,3)] 1(3,4) p(1) by simp
  qed
qed

lemma parse_cfgs_from_ok:
  assumes "parse_cfgs_from p mx out = Some cs" "set out \<subseteq> set k_cfgs" "length out \<le> mx"
  shows "set cs \<subseteq> set k_cfgs \<and> length cs \<le> mx"
  using assms
proof (induction p mx out rule: parse_cfgs_from.induct)
  case (1 p mx out)
  show ?case
  proof (cases "p = []")
    case True
    then show ?thesis using 1 by (simp add: parse_cfgs_from.simps[of "[]"])
  next
    case False
    then obtain c where p: "find_cfg (item (CHR '','') p) = Some c" "length out \<noteq> mx"
      "parse_cfgs_from (after_item (CHR '','') p) mx (out @ [c]) = Some cs"
      using 1(2) by (auto simp: parse_cfgs_from.simps[of p] split: option.splits if_splits)
    have "c \<in> set k_cfgs" using p(1) by (auto simp: find_cfg_def find_Some_iff)
    then show ?thesis using 1(1)[OF False p(1,2,3)] 1(3,4) p(2) by simp
  qed
qed

definition options_ok :: "options \<Rightarrow> bool" where
  "options_ok opt \<longleftrightarrow> 64 \<le> o_mb opt \<and> o_mb opt \<le> 2048 \<and> 1 \<le> o_reps opt \<and> o_reps opt \<le> 100 \<and>
     10 \<le> o_budget_ms opt \<and> o_budget_ms opt \<le> 5000 \<and> 10 \<le> o_iters opt \<and> o_iters opt \<le> 100000 \<and>
     1 \<le> o_hz opt \<and> o_hz opt \<le> 5000 \<and> 10 \<le> o_ms opt \<and> o_ms opt \<le> 600000"

lemma apply_option_ok: "apply_option a v opt = Some opt' \<Longrightarrow> options_ok opt \<Longrightarrow> options_ok opt' \<and> o_mode opt' = o_mode opt"
  by (auto simp: apply_option_def options_ok_def split: if_splits dest!: parse_u32_range)

lemma parse_options_ok:
  assumes "parse_options as opt = Some opt'" "options_ok opt"
  shows "options_ok opt' \<and> o_mode opt' = o_mode opt"
  using assms
proof (induction as opt rule: parse_options.induct)
  case (3 a v as opt)
  then obtain opt1 where o: "apply_option a v opt = Some opt1" "parse_options as opt1 = Some opt'"
    by (auto simp: bind_eq_Some_conv)
  have "options_ok opt1" "o_mode opt1 = o_mode opt" using apply_option_ok[OF o(1) 3(3)] by blast+
  then show ?case using 3(1)[OF o] by simp
qed simp_all

lemma short_plan:
  "map_option (map c_name) (parse_cfgs (plan_list ''short'') 64) = Some [''hvx-t6'', ''dma-t6'', ''gemv-t6'', ''gemv-sum-t6'', ''mix-3d3h'']"
  by code_simp

lemma default_sets:
  "map_option (map s_cpu) (parse_sets ''6,7/0-5/0-7'' MAX_SETS) = Some [[6,7],[0,1,2,3,4,5],[0,1,2,3,4,5,6,7]]"
  by (simp add: cpu_sets_defs parse_sets_from.simps parse_ranges.simps add_cores.simps)

subsection \<open>Properties\<close>

text \<open>\<open>number_options\<close>: \<open>parse_u32\<close> gives only numbers of its range, and it reads each number of the
  range from its decimal digits.\<close>

theorem number_options:
  "(\<forall>s v. parse_u32 s lo hi = Some v \<longrightarrow> lo \<le> v \<and> v \<le> hi) \<and>
   (\<forall>v. lo \<le> v \<and> v \<le> hi \<longrightarrow> parse_u32 (decimal (unat v)) lo hi = Some v)"
  using parse_u32_range parse_u32_decimal by blast

theorem number_options_witness: "parse_u32 ''512'' 64 2048 = Some 512"
proof -
  have u: "unat (512 :: u32) = 512" by simp
  have d: "decimal 512 = ''512''" by (simp add: decimal.simps digit_char_def, code_simp)
  have "parse_u32 (decimal (unat (512 :: u32))) 64 2048 = Some 512"
    by (rule number_options[THEN conjunct2, rule_format]) simp
  then show ?thesis unfolding u d .
qed

text \<open>\<open>argv_options\<close>: each command line that \<open>main\<close> accepts gives options in their documented ranges
  (the buffer sizes, repetitions, times and iterations that the modes divide by or multiply), and the
  mode is the first argument.\<close>

theorem argv_options:
  assumes "parse_argv argv = Some opt"
  shows "options_ok opt \<and> argv \<noteq> [] \<and> o_mode opt = hd argv"
proof -
  have "options_ok (default_options m)" for m by (simp add: options_ok_def default_options_def)
  then show ?thesis
    using assms parse_options_ok[of "tl argv" "default_options (hd argv)" opt]
    by (cases argv) (auto simp: parse_argv_def default_options_def)
qed

theorem argv_options_witness:
  "\<exists>opt. parse_argv [''nsp'', ''--plan'', ''ws''] = Some opt \<and> options_ok opt"
proof -
  have "parse_argv [''nsp'', ''--plan'', ''ws''] = Some ((default_options ''nsp'')\<lparr>o_plan := ''ws''\<rparr>)"
    by (simp add: parse_argv_def apply_option_def)
  with argv_options[OF this] show ?thesis by blast
qed

text \<open>\<open>cpu_sets\<close>: \<open>parse_sets\<close> gives at most the requested number of sets, and each set has at most
  eight cores, all from 0 to 63, and a text that fits its buffer.\<close>

theorem cpu_sets:
  assumes "parse_sets list mx = Some ss"
  shows "list_all set_ok ss \<and> length ss \<le> mx"
  using parse_sets_from_ok[of list mx "[]"] assms by (simp add: parse_sets_def)

theorem cpu_sets_witness:
  "\<exists>ss. parse_sets ''6,7/0-5/0-7'' MAX_SETS = Some ss \<and> map s_cpu ss = [[6,7],[0,1,2,3,4,5],[0,1,2,3,4,5,6,7]] \<and> list_all set_ok ss"
proof -
  obtain ss where ss: "parse_sets ''6,7/0-5/0-7'' MAX_SETS = Some ss" "map s_cpu ss = [[6,7],[0,1,2,3,4,5],[0,1,2,3,4,5,6,7]]"
    using default_sets unfolding map_option_eq_Some by metis
  show ?thesis by (intro exI[of _ ss] conjI ss cpu_sets[OF ss(1), THEN conjunct1])
qed

text \<open>\<open>cfg_plans\<close>: the names in the built-in plans are all in the table. The full plan is the whole
  table in its order, thus no configuration is left out.\<close>

theorem cfg_plans:
  "map_option (map c_name) (parse_cfgs (plan_list ''full'') 64) = Some (map c_name k_cfgs) \<and>
   map_option (map c_name) (parse_cfgs (plan_list ''short'') 64) = Some [''hvx-t6'', ''dma-t6'', ''gemv-t6'', ''gemv-sum-t6'', ''mix-3d3h''] \<and>
   map_option (map c_name) (parse_cfgs (plan_list ''ws'') 64) = Some (drop 25 (map c_name k_cfgs))"
proof (intro conjI)
  show "map_option (map c_name) (parse_cfgs (plan_list ''full'') 64) = Some (map c_name k_cfgs)" by code_simp
  show "map_option (map c_name) (parse_cfgs (plan_list ''short'') 64)
      = Some [''hvx-t6'', ''dma-t6'', ''gemv-t6'', ''gemv-sum-t6'', ''mix-3d3h'']" by (rule short_plan)
  show "map_option (map c_name) (parse_cfgs (plan_list ''ws'') 64) = Some (drop 25 (map c_name k_cfgs))" by code_simp
qed

text \<open>\<open>empty_set_accepted\<close>: \<open>parse_sets\<close> takes a set without a core (two separators in a row, or a range
  that counts down), although \<open>cpu_start\<close> divides the buffer by the number of cores of the set.\<close>

theorem empty_set_accepted:
  "map_option (map s_cpu) (parse_sets ''7//6'' MAX_SETS) = Some [[7], [], [6]] \<and>
   map_option (map s_cpu) (parse_sets ''5-3'' MAX_SETS) = Some [[]]"
proof
  show "map_option (map s_cpu) (parse_sets ''7//6'' MAX_SETS) = Some [[7], [], [6]]" by code_simp
  show "map_option (map s_cpu) (parse_sets ''5-3'' MAX_SETS) = Some [[]]" by code_simp
qed

end
