(* ===== verification/SoftFloat.thy ===== *)
theory SoftFloat
  imports Prelude
begin

text \<open>
  The IEEE 754 arithmetic that the C code relies on (\<open>float\<close>, \<open>double\<close>, \<open>_Float16\<close>, bfloat16) with
  rounding to nearest, ties to even. A finite value is a sign, a significand and the exponent of its last
  bit. Each operation is computed exactly on integers and rounded one time, thus all of it is executable.
  The payload of a NaN is not part of a value.
\<close>

record fmt =
  prec :: nat
  e_min :: int
  e_max :: int

text \<open>The exponents are those of the last bit of the significand.\<close>

definition F16 :: fmt where "F16 = \<lparr>prec = 11, e_min = -24, e_max = 5\<rparr>"
definition BF16 :: fmt where "BF16 = \<lparr>prec = 8, e_min = -133, e_max = 120\<rparr>"
definition F32 :: fmt where "F32 = \<lparr>prec = 24, e_min = -149, e_max = 104\<rparr>"
definition F64 :: fmt where "F64 = \<lparr>prec = 53, e_min = -1074, e_max = 971\<rparr>"

datatype fp = Fin bool nat int | Inf bool | NaN

fun bit_length :: "nat \<Rightarrow> nat" where
  "bit_length n = (if n = 0 then 0 else Suc (bit_length (n div 2)))"

declare bit_length.simps [simp del]

text \<open>\<open>m / 2 ^ k\<close>, rounded to nearest, ties to even.\<close>

definition shift_rne :: "nat \<Rightarrow> nat \<Rightarrow> nat" where
  "shift_rne m k =
     (let q = m div 2 ^ k; r = m mod 2 ^ k
      in if 2 * r > 2 ^ k \<or> (2 * r = 2 ^ k \<and> odd q) then q + 1 else q)"

definition round_fp :: "fmt \<Rightarrow> bool \<Rightarrow> nat \<Rightarrow> int \<Rightarrow> fp" where
  "round_fp f s m e =
     (let e1 = max (e_min f) (e + int (bit_length m) - int (prec f));
          q = (if e1 \<ge> e then shift_rne m (nat (e1 - e)) else m * 2 ^ nat (e - e1));
          (q, e2) = (if q = 2 ^ prec f then (q div 2, e1 + 1) else (q, e1))
      in if m = 0 then Fin s 0 (e_min f) else if e2 > e_max f then Inf s else Fin s q e2)"

text \<open>The values of a format in their unique form.\<close>

definition in_fmt :: "fmt \<Rightarrow> fp \<Rightarrow> bool" where
  "in_fmt f x = (case x of Fin s m e \<Rightarrow> m < 2 ^ prec f \<and> e_min f \<le> e \<and> e \<le> e_max f \<and> (e = e_min f \<or> 2 ^ (prec f - 1) \<le> m)
     | _ \<Rightarrow> True)"

definition good_fmt :: "fmt \<Rightarrow> bool" where
  "good_fmt f \<longleftrightarrow> 1 < prec f \<and> e_min f \<le> e_max f"

fun fp_neg :: "fp \<Rightarrow> fp" where
  "fp_neg (Fin s m e) = Fin (\<not> s) m e"
| "fp_neg (Inf s) = Inf (\<not> s)"
| "fp_neg NaN = NaN"

fun fp_abs :: "fp \<Rightarrow> fp" where
  "fp_abs (Fin s m e) = Fin False m e"
| "fp_abs (Inf s) = Inf False"
| "fp_abs NaN = NaN"

definition signed :: "bool \<Rightarrow> nat \<Rightarrow> int" where
  "signed s m = (if s then - int m else int m)"

text \<open>The significands of two finite values at their lower exponent.\<close>

definition align :: "nat \<Rightarrow> int \<Rightarrow> int \<Rightarrow> nat" where
  "align m e c = m * 2 ^ nat (e - c)"

fun fp_add :: "fmt \<Rightarrow> fp \<Rightarrow> fp \<Rightarrow> fp" where
  "fp_add f (Fin s m e) (Fin t n d) =
     (let c = min e d; v = signed s (align m e c) + signed t (align n d c)
      in if v = 0 then Fin (s \<and> t) 0 (e_min f) else round_fp f (v < 0) (nat \<bar>v\<bar>) c)"
| "fp_add f (Inf s) (Inf t) = (if s = t then Inf s else NaN)"
| "fp_add f NaN y = NaN"
| "fp_add f x NaN = NaN"
| "fp_add f (Inf s) y = Inf s"
| "fp_add f x (Inf t) = Inf t"

definition fp_sub :: "fmt \<Rightarrow> fp \<Rightarrow> fp \<Rightarrow> fp" where
  "fp_sub f x y = fp_add f x (fp_neg y)"

fun fp_mul :: "fmt \<Rightarrow> fp \<Rightarrow> fp \<Rightarrow> fp" where
  "fp_mul f (Fin s m e) (Fin t n d) = round_fp f (s \<noteq> t) (m * n) (e + d)"
| "fp_mul f NaN y = NaN"
| "fp_mul f x NaN = NaN"
| "fp_mul f (Inf s) (Fin t n d) = (if n = 0 then NaN else Inf (s \<noteq> t))"
| "fp_mul f (Fin s m e) (Inf t) = (if m = 0 then NaN else Inf (s \<noteq> t))"
| "fp_mul f (Inf s) (Inf t) = Inf (s \<noteq> t)"

text \<open>The quotient has at least two bits more than the format, and a last bit that tells if it is exact.\<close>

fun fp_div :: "fmt \<Rightarrow> fp \<Rightarrow> fp \<Rightarrow> fp" where
  "fp_div f (Fin s m e) (Fin t n d) =
     (if n = 0 then (if m = 0 then NaN else Inf (s \<noteq> t))
      else let k = prec f + 2 + bit_length n; a = m * 2 ^ k
           in round_fp f (s \<noteq> t) (2 * (a div n) + (if a mod n = 0 then 0 else 1)) (e - d - int k - 1))"
| "fp_div f NaN y = NaN"
| "fp_div f x NaN = NaN"
| "fp_div f (Inf s) (Inf t) = NaN"
| "fp_div f (Inf s) (Fin t n d) = Inf (s \<noteq> t)"
| "fp_div f (Fin s m e) (Inf t) = Fin (s \<noteq> t) 0 (e_min f)"

fun fp_less :: "fp \<Rightarrow> fp \<Rightarrow> bool" where
  "fp_less (Fin s m e) (Fin t n d) = (let c = min e d in signed s (align m e c) < signed t (align n d c))"
| "fp_less NaN y = False"
| "fp_less x NaN = False"
| "fp_less (Inf s) (Inf t) = (s \<and> \<not> t)"
| "fp_less (Inf s) (Fin t n d) = s"
| "fp_less (Fin s m e) (Inf t) = (\<not> t)"

fun fp_eq :: "fp \<Rightarrow> fp \<Rightarrow> bool" where
  "fp_eq (Fin s m e) (Fin t n d) = (let c = min e d in signed s (align m e c) = signed t (align n d c))"
| "fp_eq NaN y = False"
| "fp_eq x NaN = False"
| "fp_eq (Inf s) (Inf t) = (s = t)"
| "fp_eq x y = False"

definition fp_of_int :: "fmt \<Rightarrow> int \<Rightarrow> fp" where
  "fp_of_int f i = round_fp f (i < 0) (nat \<bar>i\<bar>) 0"

text \<open>A conversion between formats.\<close>

fun fp_cvt :: "fmt \<Rightarrow> fp \<Rightarrow> fp" where
  "fp_cvt f (Fin s m e) = round_fp f s m e"
| "fp_cvt f x = x"

subsection \<open>The length of a significand\<close>

lemma bit_length_0 [simp]: "bit_length 0 = 0" by (simp add: bit_length.simps)

lemma bit_length_bounds: "0 < n \<Longrightarrow> 2 ^ (bit_length n - 1) \<le> n \<and> n < 2 ^ bit_length n \<and> 0 < bit_length n"
proof (induction n rule: bit_length.induct)
  case (1 n)
  show ?case
  proof (cases "n div 2 = 0")
    case True
    then have "n = 1" using 1(2) by linarith
    then show ?thesis by (simp add: bit_length.simps[of "Suc 0"])
  next
    case False
    then have ih: "2 ^ (bit_length (n div 2) - 1) \<le> n div 2" "n div 2 < 2 ^ bit_length (n div 2)" "0 < bit_length (n div 2)"
      using 1 by auto
    have l: "bit_length n = Suc (bit_length (n div 2))" using 1(2) by (subst bit_length.simps) simp
    have "(2::nat) ^ bit_length (n div 2) = 2 * 2 ^ (bit_length (n div 2) - 1)" using ih(3) by (cases "bit_length (n div 2)") simp_all
    then have "(2::nat) ^ bit_length (n div 2) \<le> n" "n < 2 * 2 ^ bit_length (n div 2)" using ih by linarith+
    then show ?thesis by (simp add: l)
  qed
qed

lemma bit_length_le: "n < 2 ^ k \<Longrightarrow> bit_length n \<le> k"
proof (rule ccontr)
  assume n: "n < 2 ^ k" and "\<not> bit_length n \<le> k"
  then have "n \<noteq> 0" "k < bit_length n" by (auto simp: not_le intro: ccontr)
  then have "0 < n" "k \<le> bit_length n - 1" by linarith+
  then have "2 ^ k \<le> n" using bit_length_bounds[of n] power_increasing[of k "bit_length n - 1" "2::nat"] by linarith
  then show False using n by simp
qed

lemma bit_length_eq: "2 ^ (k - 1) \<le> n \<Longrightarrow> n < 2 ^ k \<Longrightarrow> 0 < k \<Longrightarrow> bit_length n = k"
proof -
  assume a: "2 ^ (k - 1) \<le> n" "n < 2 ^ k" "0 < k"
  have n: "0 < n" using a(1) by (metis less_le_trans zero_less_numeral zero_less_power)
  have "k - 1 < bit_length n" using a(1) bit_length_bounds[OF n]
    by (metis le_less_trans nat_power_less_imp_less zero_less_numeral)
  then show ?thesis using bit_length_le[OF a(2)] by simp
qed

lemma bit_length_shift: "0 < n \<Longrightarrow> bit_length (n * 2 ^ k) = bit_length n + k"
proof -
  assume n: "0 < n"
  have b: "2 ^ (bit_length n - 1) \<le> n" "n < 2 ^ bit_length n" "0 < bit_length n" using bit_length_bounds[OF n] by auto
  have "2 ^ (bit_length n + k - 1) = 2 ^ (bit_length n - 1) * (2::nat) ^ k" using b(3) by (simp add: power_add[symmetric])
  then show ?thesis using b by (intro bit_length_eq) (simp_all add: power_add)
qed

subsection \<open>Rounding\<close>

lemma shift_rne_0 [simp]: "shift_rne m 0 = m" by (simp add: shift_rne_def)

lemma shift_rne_exact: "shift_rne (m * 2 ^ k) k = m" by (simp add: shift_rne_def)

lemma shift_rne_le: "m \<le> n * 2 ^ k \<Longrightarrow> shift_rne m k \<le> n"
proof -
  assume a: "m \<le> n * 2 ^ k"
  define q r where "q = m div 2 ^ k" and "r = m mod 2 ^ k"
  have m: "m = q * 2 ^ k + r" unfolding q_def r_def by (rule div_mult_mod_eq[symmetric])
  have "q \<le> n" using div_le_mono[OF a, of "2 ^ k"] by (simp add: q_def)
  moreover have "q = n \<Longrightarrow> r = 0" using a m by simp
  ultimately show ?thesis unfolding shift_rne_def Let_def q_def[symmetric] r_def[symmetric]
    by (cases "q = n") auto
qed

lemma shift_rne_ge: "n * 2 ^ k \<le> m \<Longrightarrow> n \<le> shift_rne m k"
proof -
  assume "n * 2 ^ k \<le> m"
  then have "n \<le> m div 2 ^ k" by (simp add: less_eq_div_iff_mult_less_eq)
  then show ?thesis by (simp add: shift_rne_def Let_def)
qed

text \<open>The result is at most half of a unit away.\<close>

lemma shift_rne_near: "2 * \<bar>int (shift_rne m k) * 2 ^ k - int m\<bar> \<le> 2 ^ k"
proof -
  define q r where "q = m div 2 ^ k" and "r = m mod 2 ^ k"
  have "m = q * 2 ^ k + r" unfolding q_def r_def by (rule div_mult_mod_eq[symmetric])
  then have m: "int m = int q * 2 ^ k + int r" by (metis of_nat_add of_nat_mult of_nat_numeral of_nat_power)
  have r: "int r < 2 ^ k" unfolding r_def by (metis mod_less_divisor of_nat_less_iff of_nat_numeral of_nat_power zero_less_numeral zero_less_power)
  show ?thesis
  proof (cases "2 * r > 2 ^ k \<or> (2 * r = 2 ^ k \<and> odd q)")
    case True
    then have s: "shift_rne m k = q + 1" by (simp add: shift_rne_def q_def r_def Let_def)
    have "2 ^ k \<le> 2 * r" using True by auto
    then have "2 ^ k \<le> 2 * int r" by (metis of_nat_le_iff of_nat_mult of_nat_numeral of_nat_power)
    then show ?thesis using r unfolding s m by (simp add: algebra_simps abs_le_iff)
  next
    case False
    then have s: "shift_rne m k = q" by (simp add: shift_rne_def q_def r_def Let_def)
    have "2 * r \<le> 2 ^ k" using False by auto
    then have "2 * int r \<le> 2 ^ k" by (metis of_nat_le_iff of_nat_mult of_nat_numeral of_nat_power)
    then show ?thesis unfolding s m by simp
  qed
qed

lemma round_fp_0 [simp]: "round_fp f s 0 e = Fin s 0 (e_min f)" by (simp add: round_fp_def Let_def split: prod.split)

text \<open>A rounded value is a value of the format.\<close>

lemma round_fp_in_fmt:
  assumes "good_fmt f"
  shows "in_fmt f (round_fp f s m e)"
proof (cases "m = 0")
  case True
  then show ?thesis using assms by (simp add: in_fmt_def good_fmt_def)
next
  case False
  define L where "L = bit_length m"
  have L: "2 ^ (L - 1) \<le> m" "m < 2 ^ L" "0 < L" using bit_length_bounds False unfolding L_def by auto
  define e1 where "e1 = max (e_min f) (e + int L - int (prec f))"
  define q where "q = (if e1 \<ge> e then shift_rne m (nat (e1 - e)) else m * 2 ^ nat (e - e1))"
  have p: "1 < prec f" using assms by (simp add: good_fmt_def)
  have up: "q \<le> 2 ^ prec f"
  proof (cases "e1 \<ge> e")
    case True
    have "L \<le> prec f + nat (e1 - e)" using True by (simp add: e1_def)
    then have "(2::nat) ^ L \<le> 2 ^ (prec f + nat (e1 - e))" by (rule power_increasing) simp
    then have "m \<le> 2 ^ prec f * 2 ^ nat (e1 - e)" using L(2) by (simp add: power_add)
    then show ?thesis using True shift_rne_le by (simp add: q_def)
  next
    case False
    have "L + nat (e - e1) \<le> prec f" using False by (simp add: e1_def)
    then have "(2::nat) ^ (L + nat (e - e1)) \<le> 2 ^ prec f" by (rule power_increasing) simp
    moreover have "m * 2 ^ nat (e - e1) \<le> 2 ^ (L + nat (e - e1))" using L(2) by (simp add: power_add)
    ultimately have "m * 2 ^ nat (e - e1) \<le> 2 ^ prec f" by (rule le_trans[rotated])
    then show ?thesis using False by (simp add: q_def)
  qed
  have low: "e1 = e_min f \<or> 2 ^ (prec f - 1) \<le> q"
  proof (cases "e1 = e_min f")
    case False
    then have e1: "e1 = e + int L - int (prec f)" by (simp add: e1_def max_def split: if_splits)
    show ?thesis
    proof (cases "e1 \<ge> e")
      case True
      then have "L - 1 = prec f - 1 + nat (e1 - e)" using e1 p by linarith
      then have "2 ^ (prec f - 1) * 2 ^ nat (e1 - e) \<le> m" using L(1) by (simp add: power_add)
      then show ?thesis using True shift_rne_ge by (simp add: q_def)
    next
      case c: False
      then have "prec f - 1 = L - 1 + nat (e - e1)" using e1 L(3) by linarith
      then have "2 ^ (prec f - 1) \<le> m * 2 ^ nat (e - e1)" using L(1) by (simp add: power_add)
      then show ?thesis using c by (simp add: q_def)
    qed
  qed simp
  have half: "(2::nat) ^ prec f div 2 = 2 ^ (prec f - 1)" "(2::nat) ^ (prec f - 1) < 2 ^ prec f"
    using p by (cases "prec f"; simp)+
  have r: "round_fp f s m e = (if q = 2 ^ prec f then (if e1 + 1 > e_max f then Inf s else Fin s (q div 2) (e1 + 1))
      else if e1 > e_max f then Inf s else Fin s q e1)"
    using False unfolding round_fp_def L_def[symmetric] Let_def e1_def[symmetric] q_def[symmetric] by simp
  have "e_min f \<le> e1" by (simp add: e1_def)
  then show ?thesis using up low half unfolding r in_fmt_def by auto
qed

text \<open>A value that the format has is not changed.\<close>

lemma round_fp_exact:
  assumes "in_fmt f (Fin s m e)" "good_fmt f"
  shows "round_fp f s (m * 2 ^ k) (e - int k) = (if m = 0 then Fin s 0 (e_min f) else Fin s m e)"
proof (cases "m = 0")
  case False
  have m: "m < 2 ^ prec f" "e_min f \<le> e" "e \<le> e_max f" "e = e_min f \<or> 2 ^ (prec f - 1) \<le> m"
    using assms(1) by (simp_all add: in_fmt_def)
  have b: "bit_length (m * 2 ^ k) = bit_length m + k" using False by (simp add: bit_length_shift)
  have "bit_length m \<le> prec f" using m(1) by (rule bit_length_le)
  moreover have "e = e_min f \<or> bit_length m = prec f"
    using m(1,4) assms(2) by (auto simp: good_fmt_def intro: bit_length_eq)
  ultimately have e1: "max (e_min f) (e - int k + int (bit_length (m * 2 ^ k)) - int (prec f)) = e"
    using m(2) unfolding b by (auto simp: max_def)
  have "shift_rne (m * 2 ^ k) (nat (e - (e - int k))) = m" using shift_rne_exact[of m k] by simp
  then show ?thesis using False m unfolding round_fp_def e1 Let_def by simp
qed simp

lemma round_fp_id: "in_fmt f (Fin s m e) \<Longrightarrow> good_fmt f \<Longrightarrow> m \<noteq> 0 \<Longrightarrow> round_fp f s m e = Fin s m e"
  using round_fp_exact[of f s m e 0] by simp

lemma good_fmts [simp]: "good_fmt F16" "good_fmt BF16" "good_fmt F32" "good_fmt F64"
  by (simp_all add: good_fmt_def F16_def BF16_def F32_def F64_def)

text \<open>The order on finite values, on significands with the exponent \<open>a\<close>.\<close>

lemma align_up: "a \<le> c \<Longrightarrow> c \<le> e \<Longrightarrow> align m e a = align m e c * 2 ^ nat (c - a)"
proof -
  assume "a \<le> c" "c \<le> e"
  then have "nat (e - a) = nat (e - c) + nat (c - a)" by simp
  then show ?thesis by (simp add: align_def power_add)
qed

lemma fin_order:
  assumes "a \<le> e" "a \<le> d"
  shows "fp_less (Fin s m e) (Fin t n d) \<longleftrightarrow> signed s (align m e a) < signed t (align n d a)"
    "fp_eq (Fin s m e) (Fin t n d) \<longleftrightarrow> signed s (align m e a) = signed t (align n d a)"
proof -
  define c where "c = min e d"
  have "align m e a = align m e c * 2 ^ nat (c - a)" "align n d a = align n d c * 2 ^ nat (c - a)"
    using assms by (intro align_up; simp add: c_def)+
  then have a: "signed s (align m e a) = signed s (align m e c) * 2 ^ nat (c - a)"
    "signed t (align n d a) = signed t (align n d c) * 2 ^ nat (c - a)"
    by (simp_all add: signed_def)
  show "fp_less (Fin s m e) (Fin t n d) \<longleftrightarrow> signed s (align m e a) < signed t (align n d a)"
    "fp_eq (Fin s m e) (Fin t n d) \<longleftrightarrow> signed s (align m e a) = signed t (align n d a)"
    unfolding a fp_less.simps fp_eq.simps Let_def c_def[symmetric] by simp_all
qed

end
