(* ===== verification/HostRun.thy ===== *)
theory HostRun
  imports HostArgs SoftFloat
begin

text \<open>
  One run of the NSP reader from the host: \<open>nsp_run\<close> of \<open>tools/ddrbw/host/ddrbw.c\<close>. It makes the run of
  a configuration, calls the DSP through FastRPC, checks the checksum of each thread with the prefix sums
  and computes the rates. The call is the parameter \<open>rpc_read\<close>: the FastRPC stubs are generated code.
  The theorems put the model \<open>ddrbw_read\<close> of the DSP library in its place.
\<close>

definition EXIT_RPC :: nat where "EXIT_RPC = 2"

definition ticks_to_s :: "u64 \<Rightarrow> u64 \<Rightarrow> fp" where
  "ticks_to_s cntfrq t = fp_div F64 (fp_of_int F64 (int (unat t))) (fp_of_int F64 (int (unat cntfrq)))"

text \<open>The rate in GB/s of \<open>bytes\<close> in \<open>s\<close> seconds, 0 without a time.\<close>

definition f64_0 :: fp where "f64_0 = fp_of_int F64 0"
definition f64_1e9 :: fp where "f64_1e9 = fp_of_int F64 (10 ^ 9)"

definition rate_of :: "u64 \<Rightarrow> fp \<Rightarrow> fp" where
  "rate_of n s = (if fp_less f64_0 s then fp_div F64 (fp_div F64 (fp_of_int F64 (int (unat n))) s) f64_1e9 else f64_0)"

record nsp_result =
  n_status :: u32
  n_check_ok :: bool
  n_t_go :: u64
  n_t_end :: u64
  n_bytes :: u64
  n_gbs :: fp
  n_tmin :: fp
  n_tmax :: fp
  n_ghz :: fp

definition zero_result :: nsp_result where
  "zero_result = \<lparr>n_status = 0, n_check_ok = False, n_t_go = 0, n_t_end = 0, n_bytes = 0, n_gbs = f64_0, n_tmin = f64_0,
     n_tmax = f64_0, n_ghz = f64_0\<rparr>"

definition run_of :: "buffer \<Rightarrow> nsp_cfg \<Rightarrow> u32 \<Rightarrow> ddrbw_run" where
  "run_of b c budget_ms =
     \<lparr>r_fd = of_int (fd b), r_region = (if c_region_kib c \<noteq> 0 then c_region_kib c * 1024 else of_nat (size b)),
      r_n_threads = c_n_threads c, r_n_dma = c_n_dma c, r_chunk = c_chunk c, r_row = c_row c, r_dst_row = c_dst_row c,
      r_depth = c_depth c, r_pf = c_pf c, r_flags = c_flags c, r_budget_us = budget_ms * 1000\<rparr>"

text \<open>The loop over the threads. \<^const>\<open>None\<close> is the division by 0 of \<open>expected_sum\<close>.\<close>

definition nsp_thread :: "u64 \<Rightarrow> buffer \<Rightarrow> nsp_cfg \<Rightarrow> nat \<Rightarrow> ddrbw_thread \<Rightarrow> nsp_result \<Rightarrow> nsp_result option" where
  "nsp_thread cntfrq b c i th r =
     (let bytes = t_chunks th * ucast (c_chunk c);
          sample = (t_kind th = DDRBW_KIND_DMA \<and> c_flags c AND DDRBW_FLAG_SUM = 0)
      in case expected_sum b (t_part_start th) (t_part_len th) (c_chunk c) (t_chunks th) sample of
           None \<Rightarrow> None
         | Some want \<Rightarrow>
             let s = ticks_to_s cntfrq (t_end th - t_start th); rate = rate_of bytes s
             in Some (r\<lparr>n_check_ok := (if want \<noteq> t_sum th then False else n_check_ok r),
                  n_bytes := n_bytes r + bytes,
                  n_t_end := (if t_end th > n_t_end r then t_end th else n_t_end r),
                  n_tmin := (if fp_less rate (n_tmin r) then rate else n_tmin r),
                  n_tmax := (if fp_less (n_tmax r) rate then rate else n_tmax r),
                  n_ghz := (if i = 0 \<and> fp_less f64_0 s
                            then fp_div F64 (fp_div F64 (fp_of_int F64 (int (unat (t_pcycles th)))) s) f64_1e9 else n_ghz r)\<rparr>))"

fun nsp_threads :: "u64 \<Rightarrow> buffer \<Rightarrow> nsp_cfg \<Rightarrow> nat \<Rightarrow> nat \<Rightarrow> ddrbw_thread list \<Rightarrow> nsp_result \<Rightarrow> nsp_result option" where
  "nsp_threads cntfrq b c i 0 th r = Some r"
| "nsp_threads cntfrq b c i (Suc n) th r =
     Option.bind (nsp_thread cntfrq b c i (th ! i) r) (nsp_threads cntfrq b c (Suc i) n th)"

definition nsp_run ::
  "(ddrbw_run \<Rightarrow> nat \<Rightarrow> 'w \<Rightarrow> ((i32 \<times> u32 \<times> u64 \<times> ddrbw_thread list) \<times> 'w) option) \<Rightarrow> u64 \<Rightarrow> buffer \<Rightarrow> nsp_cfg \<Rightarrow> u32
    \<Rightarrow> 'w \<Rightarrow> ((nat \<times> nsp_result) \<times> 'w) option" where
  "nsp_run rpc_read cntfrq b c budget_ms w =
     Option.bind (rpc_read (run_of b c budget_ms) MAX_THREADS w) (\<lambda>((err, status, t_go, th), w).
       if err \<noteq> AEE_SUCCESS then Some ((EXIT_RPC, zero_result), w)
       else
         let r = zero_result\<lparr>n_status := status, n_t_go := t_go, n_check_ok := (status = DDRBW_OK),
                   n_tmin := fp_of_int F64 (10 ^ 30)\<rparr>
         in if status \<noteq> DDRBW_OK then Some ((0, r), w)
            else map_option (\<lambda>r. ((0, r\<lparr>n_gbs := rate_of (n_bytes r) (ticks_to_s cntfrq (n_t_end r - n_t_go r))\<rparr>), w))
                   (nsp_threads cntfrq b c 0 (unat (c_n_threads c)) th r))"

subsection \<open>What one run reports\<close>

definition thread_want :: "buffer \<Rightarrow> nsp_cfg \<Rightarrow> ddrbw_thread \<Rightarrow> u32 option" where
  "thread_want b c th = expected_sum b (t_part_start th) (t_part_len th) (c_chunk c) (t_chunks th)
     (t_kind th = DDRBW_KIND_DMA \<and> c_flags c AND DDRBW_FLAG_SUM = 0)"

lemma nsp_thread_result:
  assumes "thread_want b c th = Some want"
  shows "\<exists>r1. nsp_thread cntfrq b c i th r = Some r1 \<and> n_status r1 = n_status r \<and> n_t_go r1 = n_t_go r \<and>
    (n_check_ok r1 \<longleftrightarrow> n_check_ok r \<and> want = t_sum th) \<and>
    n_bytes r1 = n_bytes r + t_chunks th * ucast (c_chunk c) \<and> n_t_end r1 = max (n_t_end r) (t_end th)"
  using assms unfolding thread_want_def nsp_thread_def Let_def
  by (simp only: option.case) (auto simp: max_def not_less)

lemma Max_insert_max: "finite A \<Longrightarrow> Max (insert (max x y) A) = Max (insert x (insert y A))" for x :: "'a::linorder"
  by (cases "A = {}") (simp_all add: max.assoc)

lemma nsp_threads_result:
  assumes "\<And>k. i \<le> k \<Longrightarrow> k < i + n \<Longrightarrow> thread_want b c (th ! k) \<noteq> None"
  shows "\<exists>r'. nsp_threads cntfrq b c i n th r = Some r' \<and> n_status r' = n_status r \<and> n_t_go r' = n_t_go r \<and>
    (n_check_ok r' \<longleftrightarrow> n_check_ok r \<and> (\<forall>k. i \<le> k \<and> k < i + n \<longrightarrow> thread_want b c (th ! k) = Some (t_sum (th ! k)))) \<and>
    n_bytes r' = n_bytes r + (\<Sum>k = i..<i + n. t_chunks (th ! k) * ucast (c_chunk c)) \<and>
    n_t_end r' = Max (insert (n_t_end r) ((\<lambda>k. t_end (th ! k)) ` {i..<i + n}))"
  using assms
proof (induction n arbitrary: i r)
  case (Suc n)
  obtain want where want: "thread_want b c (th ! i) = Some want" using Suc.prems[of i] by auto
  obtain r1 where r1: "nsp_thread cntfrq b c i (th ! i) r = Some r1"
    "n_status r1 = n_status r" "n_t_go r1 = n_t_go r" "n_check_ok r1 \<longleftrightarrow> n_check_ok r \<and> want = t_sum (th ! i)"
    "n_bytes r1 = n_bytes r + t_chunks (th ! i) * ucast (c_chunk c)" "n_t_end r1 = max (n_t_end r) (t_end (th ! i))"
    using nsp_thread_result[OF want, of cntfrq i r] by blast
  obtain r' where r': "nsp_threads cntfrq b c (Suc i) n th r1 = Some r'" "n_status r' = n_status r1" "n_t_go r' = n_t_go r1"
    "n_check_ok r' \<longleftrightarrow> n_check_ok r1 \<and> (\<forall>k. Suc i \<le> k \<and> k < Suc i + n \<longrightarrow> thread_want b c (th ! k) = Some (t_sum (th ! k)))"
    "n_bytes r' = n_bytes r1 + (\<Sum>k = Suc i..<Suc i + n. t_chunks (th ! k) * ucast (c_chunk c))"
    "n_t_end r' = Max (insert (n_t_end r1) ((\<lambda>k. t_end (th ! k)) ` {Suc i..<Suc i + n}))"
    using Suc.IH[of "Suc i" r1] Suc.prems by auto
  have ran: "{i..<i + Suc n} = insert i {Suc i..<Suc i + n}" by auto
  have "n_t_end r' = Max (insert (n_t_end r) ((\<lambda>k. t_end (th ! k)) ` {i..<i + Suc n}))"
    unfolding r'(6) r1(6) ran image_insert by (rule Max_insert_max) simp
  moreover have "n_check_ok r' \<longleftrightarrow> n_check_ok r \<and> (\<forall>k. i \<le> k \<and> k < i + Suc n \<longrightarrow> thread_want b c (th ! k) = Some (t_sum (th ! k)))"
  proof -
    have "(i \<le> k \<and> k < i + Suc n) = (k = i \<or> (Suc i \<le> k \<and> k < Suc i + n))" for k by auto
    then show ?thesis unfolding r'(4) r1(4) using want by auto
  qed
  moreover have "n_bytes r' = n_bytes r + (\<Sum>k = i..<i + Suc n. t_chunks (th ! k) * ucast (c_chunk c))"
    unfolding r'(5) r1(5) ran by (simp add: add.assoc)
  moreover have "nsp_threads cntfrq b c i (Suc n) th r = Some r'" using r1(1) r'(1) by simp
  ultimately show ?case using r1(2,3) r'(2,3) by (intro exI[of _ r'] conjI) simp_all
qed auto

subsection \<open>The built-in configurations\<close>

text \<open>
  What the table guarantees of each configuration, as a test that computes: the thread counts, the chunk
  and its alignment, the rows of the DMA engine, the slots in 1 MiB of VTCM, and the bytes that the
  threads read (at most 64 MiB, the smallest buffer of \<open>--mb\<close>).
\<close>

definition cfg_rows :: "nsp_cfg \<Rightarrow> u32" where
  "cfg_rows c = (if c_row c \<noteq> 0 then c_row c else c_chunk c)"

definition cfg_pitch :: "nsp_cfg \<Rightarrow> u32" where
  "cfg_pitch c = (if c_dst_row c \<noteq> 0 then c_dst_row c else cfg_rows c)"

definition cfg_ok :: "nsp_cfg \<Rightarrow> bool" where
  "cfg_ok c \<longleftrightarrow>
     1 \<le> c_n_threads c \<and> c_n_threads c \<le> 6 \<and> c_n_dma c \<le> c_n_threads c \<and>
     512 \<le> c_chunk c \<and> c_chunk c mod 128 = 0 \<and>
     (c_n_dma c < c_n_threads c \<longrightarrow> c_chunk c mod 512 = 0 \<and> c_pf c \<le> 16) \<and>
     (0 < c_n_dma c \<longrightarrow> c_depth c \<noteq> 0 \<and> c_chunk c mod cfg_rows c = 0 \<and> 128 \<le> cfg_rows c \<and> cfg_rows c mod 4 = 0 \<and>
        cfg_rows c \<le> 0xFFFFFF \<and> cfg_rows c \<le> cfg_pitch c \<and> cfg_pitch c mod 128 = 0 \<and> c_chunk c div cfg_rows c \<le> 0xFFFF \<and>
        unat (c_chunk c div cfg_rows c) * unat (cfg_pitch c) < 2 ^ 32 \<and>
        unat (c_depth c) * (unat (c_chunk c div cfg_rows c) * unat (cfg_pitch c)) \<le> 2 ^ 20) \<and>
     unat (c_n_threads c) * unat (c_chunk c) \<le> (if c_region_kib c \<noteq> 0 then unat (c_region_kib c) * 1024 else 2 ^ 26) \<and>
     unat (c_region_kib c) \<le> 2 ^ 16 \<and> unat (c_depth c) \<le> 16"

lemma k_cfgs_ok: "list_all cfg_ok k_cfgs"
  by (simp add: k_cfgs_def cfg_def cfg_ok_def cfg_rows_def cfg_pitch_def)

lemma run_rows: "run_row (run_of b c ms) = cfg_rows c" "run_dst (run_of b c ms) = cfg_pitch c"
  by (simp_all add: run_row_def run_dst_def run_of_def cfg_rows_def cfg_pitch_def)

lemma region_fits:
  assumes "cfg_ok c" "2 ^ 26 \<le> size b" "size b \<le> 2 ^ 31"
  shows "unat (r_region (run_of b c ms)) \<le> size b"
    "unat (c_n_threads c) * unat (c_chunk c) \<le> unat (r_region (run_of b c ms))"
proof -
  have k: "unat (c_region_kib c) \<le> 2 ^ 16"
    "unat (c_n_threads c) * unat (c_chunk c) \<le> (if c_region_kib c \<noteq> 0 then unat (c_region_kib c) * 1024 else 2 ^ 26)"
    using assms(1) unfolding cfg_ok_def by blast+
  have m: "unat (c_region_kib c * 1024) = unat (c_region_kib c) * 1024" using k(1) by (subst unat_mult_le) simp_all
  have s: "unat (of_nat (size b) :: u32) = size b" using assms(3) by (intro unat_of_nat_less) simp
  show "unat (r_region (run_of b c ms)) \<le> size b" using k(1) assms(2) by (simp add: run_of_def m s)
  show "unat (c_n_threads c) * unat (c_chunk c) \<le> unat (r_region (run_of b c ms))"
    using k(2) assms(2) by (simp add: run_of_def m s split: if_splits)
qed

lemma cfg_accepted:
  assumes c: "cfg_ok c" and b: "2 ^ 26 \<le> size b" "size b \<le> 2 ^ 31" and m: "unat (msize m) = size b"
    and g: "6 \<le> n_hvx g" and ms: "10 \<le> ms" "ms \<le> 5000"
  shows "check_run g (run_of b c ms) m MAX_THREADS = DDRBW_OK"
proof -
  have n: "1 \<le> c_n_threads c" "c_n_threads c \<le> 6" "c_n_dma c \<le> c_n_threads c" "512 \<le> c_chunk c" "c_chunk c mod 128 = 0"
    and hvx: "c_n_dma c < c_n_threads c \<Longrightarrow> c_chunk c mod 512 = 0 \<and> c_pf c \<le> 16"
    and dma: "0 < c_n_dma c \<Longrightarrow> c_depth c \<noteq> 0 \<and> c_chunk c mod cfg_rows c = 0 \<and> 128 \<le> cfg_rows c \<and> cfg_rows c mod 4 = 0 \<and>
        cfg_rows c \<le> 0xFFFFFF \<and> cfg_rows c \<le> cfg_pitch c \<and> cfg_pitch c mod 128 = 0 \<and> c_chunk c div cfg_rows c \<le> 0xFFFF"
    using c unfolding cfg_ok_def by blast+
  have n': "unat (c_n_threads c) \<le> 6" "0 < unat (c_n_threads c)" using n(1,2) by (simp_all add: word_le_nat_alt)
  have "\<not> (c_n_threads c = 0 \<or> c_n_threads c > DDRBW_MAX_THREADS \<or> c_n_threads c > n_hvx g \<or>
      unat (c_n_threads c) > MAX_THREADS \<or> c_n_dma c > c_n_threads c)"
    using n n' g by (auto simp: DDRBW_MAX_THREADS_def MAX_THREADS_def word_le_nat_alt word_less_nat_alt)
  moreover have "\<not> (c_chunk c < 512 \<or> c_chunk c mod 128 \<noteq> 0 \<or> r_region (run_of b c ms) > msize m \<or> ms * 1000 = 0)"
  proof -
    have "unat ms * 1000 \<le> 5000 * 1000" using ms(2) by (simp add: word_le_nat_alt)
    then have "unat (ms * 1000) = unat ms * 1000" by (subst unat_mult_le) simp_all
    then have "ms * 1000 \<noteq> 0" using ms(1) by (auto simp: word_le_nat_alt unat_eq_zero[symmetric])
    then show ?thesis using n region_fits(1)[OF c b, of ms] m by (simp add: not_less word_le_nat_alt)
  qed
  moreover have "\<not> r_region (run_of b c ms) div c_n_threads c < c_chunk c"
    using region_fits(2)[OF c b, of ms] n'
    by (simp add: not_less word_le_nat_alt unat_div less_eq_div_iff_mult_less_eq mult.commute)
  moreover have "\<not> (c_n_dma c < c_n_threads c \<and> (c_chunk c mod 512 \<noteq> 0 \<or> c_pf c > 16))" using hvx by auto
  moreover have "\<not> (c_n_dma c > 0 \<and> (c_depth c = 0 \<or> c_chunk c mod cfg_rows c \<noteq> 0 \<or> cfg_rows c < 128 \<or> cfg_rows c mod 4 \<noteq> 0 \<or>
      cfg_rows c > 0xFFFFFF \<or> cfg_pitch c < cfg_rows c \<or> cfg_pitch c mod 128 \<noteq> 0 \<or> c_chunk c div cfg_rows c > 0xFFFF))"
    using dma by (cases "0 < c_n_dma c") (simp_all add: not_less)
  moreover have fields: "r_n_threads (run_of b c ms) = c_n_threads c" "r_n_dma (run_of b c ms) = c_n_dma c" "r_chunk (run_of b c ms) = c_chunk c"
    "r_pf (run_of b c ms) = c_pf c" "r_depth (run_of b c ms) = c_depth c" "r_budget_us (run_of b c ms) = ms * 1000"
    by (simp_all add: run_of_def)
  ultimately show ?thesis unfolding check_run_def Let_def fields run_rows by (simp only: if_False)
qed

lemma cfg_slots:
  assumes c: "cfg_ok c" and dma: "0 < c_n_dma c" and g: "vtcm g \<noteq> 0" "6 * 2 ^ 20 \<le> unat (vtcm_size g)"
  shows "slots_fit g (run_of b c ms) \<and> no_slot_wrap (run_of b c ms)"
proof -
  have d: "unat (c_chunk c div cfg_rows c) * unat (cfg_pitch c) < 2 ^ 32"
    "unat (c_depth c) * (unat (c_chunk c div cfg_rows c) * unat (cfg_pitch c)) \<le> 2 ^ 20"
    using c dma unfolding cfg_ok_def by blast+
  have n: "unat (c_n_threads c) \<le> 6" "0 < unat (c_n_threads c)" using c by (simp_all add: cfg_ok_def word_le_nat_alt)
  let ?q = "unat (vtcm_size g) div unat (c_n_threads c)"
  have "2 ^ 20 * unat (c_n_threads c) \<le> unat (vtcm_size g)" using n(1) g(2) by simp
  then have "2 ^ 20 \<le> ?q" using n(2) by (simp add: less_eq_div_iff_mult_less_eq)
  then have "2 ^ 20 div 2048 \<le> ?q div 2048" by (rule div_le_mono)
  then have q: "2 ^ 20 \<le> ?q div 2048 * 2048" by simp
  have "?q div 2048 * 2048 \<le> unat (vtcm_size g)" by (metis div_le_dividend div_times_less_eq_dividend le_trans)
  then have part: "unat (vtcm_part_of g (run_of b c ms)) = ?q div 2048 * 2048"
    using unat_lt2p[of "vtcm_size g"] by (simp add: vtcm_part_of_def run_of_def unat_mult_le unat_div)
  have slot: "unat (j_slot (job_of (run_of b c ms) 0)) = unat (c_chunk c div cfg_rows c) * unat (cfg_pitch c)"
    using d(1) by (simp add: job_of_def Let_def run_rows unat_mult_le) (simp add: run_of_def unat_mult_le)
  have "unat ((ucast (c_depth c) :: u64) * ucast (j_slot (job_of (run_of b c ms) 0)))
      = unat (c_depth c) * unat (j_slot (job_of (run_of b c ms) 0))"
    using d(2) by (subst unat_mult_le) (simp_all add: unat_ucast_up slot)
  then have "(ucast (c_depth c) :: u64) * ucast (j_slot (job_of (run_of b c ms) 0)) \<le> ucast (vtcm_part_of g (run_of b c ms))"
    using d(2) q by (simp add: word_le_nat_alt unat_ucast_up slot part)
  then show ?thesis using g(1) d(1) by (simp add: slots_fit_def no_slot_wrap_def run_rows not_less) (simp add: run_of_def)
qed

subsection \<open>A run of a built-in configuration\<close>

text \<open>The library holds the buffer and enough VTCM, and the threads and the DMA queues of the DSP work.\<close>

definition dsp_ready ::
  "'w os \<Rightarrow> ('w \<Rightarrow> nat) \<Rightarrow> (nat \<Rightarrow> dma_desc \<Rightarrow> 's \<Rightarrow> bool \<times> 's) \<Rightarrow> (nat \<Rightarrow> 's \<Rightarrow> (nat \<times> nat) \<times> 's) \<Rightarrow> ('s \<Rightarrow> mem)
    \<Rightarrow> (nat \<Rightarrow> 's \<Rightarrow> dma_desc list \<Rightarrow> bool) \<Rightarrow> (nat \<Rightarrow> thread_clock) \<Rightarrow> (nat \<Rightarrow> 's) \<Rightarrow> lib \<Rightarrow> buffer \<Rightarrow> bool" where
  "dsp_ready os ready push pop vmem rep clks view g b \<longleftrightarrow>
     6 \<le> n_hvx g \<and> vtcm g \<noteq> 0 \<and> 6 * 2 ^ 20 \<le> unat (vtcm_size g) \<and> resources_ok os ready 6 \<and>
     (\<exists>mi. find_map g (of_int (fd b)) = Some mi \<and> unat (msize (maps g ! mi)) = size b \<and> vtcm_separate g (maps g ! mi) \<and>
       (\<forall>i < 6. (\<forall>k < size b. vmem (view i) (unat (va (maps g ! mi)) + k) = data b k) \<and>
          (\<forall>n \<le> 16. dma_engine (push i) (pop i) vmem (rep i) n) \<and> rep i (view i) [] \<and>
          (\<forall>T. \<exists>d. T \<le> tc_clk (clks i) d \<and> d < 2 ^ 63)))"

definition call_dsp ::
  "(ddrbw_run \<Rightarrow> nat \<Rightarrow> 'w \<Rightarrow> ((u32 \<times> u64 \<times> ddrbw_thread list) \<times> 'w) option) \<Rightarrow> ddrbw_run \<Rightarrow> nat \<Rightarrow> 'w
    \<Rightarrow> ((i32 \<times> u32 \<times> u64 \<times> ddrbw_thread list) \<times> 'w) option" where
  "call_dsp read run n w = map_option (\<lambda>((st, go, ths), w). ((AEE_SUCCESS, st, go, ths), w)) (read run n w)"

lemma nsp_run_ok:
  assumes "rpc_read (run_of b c ms) MAX_THREADS w = Some ((AEE_SUCCESS, DDRBW_OK, go, ths), w')"
    and "\<And>i. i < unat (c_n_threads c) \<Longrightarrow> thread_want b c (ths ! i) = Some (t_sum (ths ! i))"
  shows "\<exists>r. nsp_run rpc_read cntfrq b c ms w = Some ((0, r), w') \<and> n_status r = DDRBW_OK \<and> n_check_ok r \<and> n_t_go r = go \<and>
    n_bytes r = (\<Sum>i<unat (c_n_threads c). t_chunks (ths ! i) * ucast (c_chunk c))"
proof -
  let ?r = "zero_result\<lparr>n_status := DDRBW_OK, n_t_go := go, n_check_ok := True, n_tmin := fp_of_int F64 (10 ^ 30)\<rparr>"
  have want: "\<And>k. 0 \<le> k \<Longrightarrow> k < 0 + unat (c_n_threads c) \<Longrightarrow> thread_want b c (ths ! k) \<noteq> None" using assms(2) by simp
  from nsp_threads_result[where cntfrq = cntfrq and r = ?r and i = 0 and n = "unat (c_n_threads c)", OF want, simplified]
  obtain r' where r': "nsp_threads cntfrq b c 0 (unat (c_n_threads c)) ths ?r = Some r'" "n_status r' = DDRBW_OK" "n_t_go r' = go"
    "n_check_ok r'" "n_bytes r' = (\<Sum>k = 0..<unat (c_n_threads c). t_chunks (ths ! k) * ucast (c_chunk c))"
    using assms(2) by (auto simp: zero_result_def)
  then show ?thesis
    by (simp add: nsp_run_def assms(1) Let_def lessThan_atLeast0)
qed

lemma nsp_run_accepted:
  assumes c: "cfg_ok c" and b: "prefix_ok b" "2 ^ 26 \<le> size b" "size b \<le> 2 ^ 31" and ms: "10 \<le> ms" "ms \<le> 5000"
    and dsp: "dsp_ready os ready push pop vmem rep clks view g b"
  shows "\<exists>go ths w'. ddrbw_read os ready push pop vmem clks view (run_of b c ms) MAX_THREADS g w = Some ((DDRBW_OK, go, ths), w') \<and>
    (\<forall>i < unat (c_n_threads c). thread_want b c (ths ! i) = Some (t_sum (ths ! i)))"
proof -
  let ?run = "run_of b c ms"
  obtain mi where mi: "find_map g (of_int (fd b)) = Some mi" "unat (msize (maps g ! mi)) = size b" "vtcm_separate g (maps g ! mi)"
    and th: "\<And>i. i < 6 \<Longrightarrow> (\<forall>k < size b. vmem (view i) (unat (va (maps g ! mi)) + k) = data b k) \<and>
          (\<forall>n \<le> 16. dma_engine (push i) (pop i) vmem (rep i) n) \<and> rep i (view i) [] \<and>
          (\<forall>T. \<exists>d. T \<le> tc_clk (clks i) d \<and> d < 2 ^ 63)"
    using dsp unfolding dsp_ready_def by blast
  have g: "6 \<le> n_hvx g" "vtcm g \<noteq> 0" "6 * 2 ^ 20 \<le> unat (vtcm_size g)" "resources_ok os ready 6"
    using dsp unfolding dsp_ready_def by blast+
  have n: "unat (c_n_threads c) \<le> 6" using c by (simp add: cfg_ok_def word_le_nat_alt)
  have dep: "unat (c_depth c) \<le> 16" using c unfolding cfg_ok_def by blast
  have run: "r_n_threads ?run = c_n_threads c" "r_depth ?run = c_depth c" "r_n_dma ?run = c_n_dma c" "r_fd ?run = of_int (fd b)"
    "r_chunk ?run = c_chunk c" "r_flags ?run = c_flags c"
    by (simp_all add: run_of_def)
  have ok: "check_run g ?run (maps g ! mi) MAX_THREADS = DDRBW_OK"
    using cfg_accepted[OF c b(2,3) mi(2) g(1) ms] .
  have "run_ready os ready push pop vmem rep clks view ?run g (maps g ! mi) b"
    unfolding run_ready_def run
  proof (intro conjI impI allI)
    show "resources_ok os ready (unat (c_n_threads c))" using g(4) n unfolding resources_ok_def by (meson le_trans)
    show "slots_fit g ?run" if "0 < c_n_dma c" using cfg_slots[OF c that g(2,3)] by blast
    show "no_slot_wrap ?run" if "0 < c_n_dma c" using cfg_slots[OF c that g(2,3)] by blast
    show "vtcm_separate g (maps g ! mi)" by (rule mi(3))
    fix i assume i: "i < unat (c_n_threads c)"
    then have t: "(\<forall>k < size b. vmem (view i) (unat (va (maps g ! mi)) + k) = data b k) \<and>
          (\<forall>n \<le> 16. dma_engine (push i) (pop i) vmem (rep i) n) \<and> rep i (view i) [] \<and>
          (\<forall>T. \<exists>d. T \<le> tc_clk (clks i) d \<and> d < 2 ^ 63)" using n by (intro th) simp
    show "vmem (view i) (unat (va (maps g ! mi)) + k) = data b k" if "k < unat (msize (maps g ! mi))" for k
      using t that mi(2) by simp
    show "engine_ok (push i) (pop i) vmem (rep i) ?run (view i)" using t dep by (simp add: engine_ok_def run)
    show "\<exists>d. T \<le> tc_clk (clks i) d \<and> unat (c_depth c) + d + 1 < 2 ^ 64" for T
    proof -
      obtain d where "T \<le> tc_clk (clks i) d" "d < 2 ^ 63" using t by blast
      then show ?thesis using dep by (intro exI[of _ d]) simp
    qed
  qed
  from read_run[OF mi(1)[folded run(4)] refl ok b(1) mi(2)[symmetric] this, of w] obtain go ths w' where
    r: "ddrbw_read os ready push pop vmem clks view ?run MAX_THREADS g w = Some ((DDRBW_OK, go, ths), w')"
    "\<forall>i < unat (c_n_threads c). expected_sum b (t_part_start (ths ! i)) (t_part_len (ths ! i)) (c_chunk c) (t_chunks (ths ! i))
        (sample_of ?run (t_kind (ths ! i) = DDRBW_KIND_DMA)) = Some (t_sum (ths ! i))"
    unfolding run by blast
  moreover have "thread_want b c (ths ! i) = expected_sum b (t_part_start (ths ! i)) (t_part_len (ths ! i)) (c_chunk c) (t_chunks (ths ! i))
        (sample_of ?run (t_kind (ths ! i) = DDRBW_KIND_DMA))" for i
    by (simp add: thread_want_def sample_of_def run)
  ultimately show ?thesis by (intro exI[of _ go] exI[of _ ths] exI[of _ w']) simp
qed

subsection \<open>Properties\<close>

definition big_buffer :: buffer where
  "big_buffer = snd (fill_buffer (Some (\<lambda>_. 0)) \<lparr>data = (\<lambda>_. 0), size = 2 ^ 26, pre = (\<lambda>_. 0), fd = 3, mapped = True\<rparr> 9)"

definition big_map :: map_entry where
  "big_map = \<lparr>mfd = 3, va = 0x10000000, msize = 2 ^ 26\<rparr>"

definition big_lib :: lib where
  "big_lib = lib_example\<lparr>maps := big_map # replicate 7 \<lparr>mfd = 0, va = 0, msize = 0\<rparr>\<rparr>"

text \<open>A view of the DSP on a host buffer.\<close>

definition view_of :: "buffer \<Rightarrow> lab_dma" where
  "view_of b = (lab_example 1)\<lparr>lmem := (\<lambda>a. data b (a - 0x10000000))\<rparr>"

lemma big_buffer: "prefix_ok big_buffer" "size big_buffer = 2 ^ 26" "fd big_buffer = 3"
proof -
  obtain r where "fill_buffer (Some (\<lambda>_. 0)) \<lparr>data = (\<lambda>_. 0), size = 2 ^ 26, pre = (\<lambda>_. 0), fd = 3, mapped = True\<rparr> 9
      = (r, big_buffer)" unfolding big_buffer_def by (metis prod.collapse)
  from fill_buffer_cases[OF this] show "prefix_ok big_buffer" "size big_buffer = 2 ^ 26" "fd big_buffer = 3" by simp_all
qed

lemma lab_engine_256: "n \<le> 256 \<Longrightarrow> dma_engine (dma_queue_push t q) (dma_queue_pop q) lmem (lab_rep q) n"
proof
  fix s fl d assume "n \<le> 256" "lab_rep q s fl" "length fl < n" "fresh d fl"
  then show "\<exists>s'. dma_queue_push t q d s = (True, s') \<and> lab_rep q s' (fl @ [d]) \<and> untouched (fl @ [d]) (lmem s) (lmem s')"
    by (intro lab_push_law) simp_all
qed (rule lab_pop_law)

lemma ready_for:
  assumes b: "size b = 2 ^ 26" "fd b = 3"
  shows "dsp_ready quiet_os (\<lambda>_. 8) (\<lambda>_. dma_queue_push 0 1) (\<lambda>_. dma_queue_pop 1) lmem (\<lambda>_. lab_rep 1) clocks_example
     (\<lambda>_. view_of b) big_lib b"
proof -
  have find: "find_map big_lib 3 = Some 0" "maps big_lib ! 0 = big_map"
    by (simp_all add: find_map_def big_lib_def big_map_def lib_example_def)
  have lib: "6 \<le> n_hvx big_lib" "vtcm big_lib = 0x1000000" "vtcm_size big_lib = 0x800000"
    by (simp_all add: big_lib_def lib_example_def)
  have sep: "vtcm_separate big_lib big_map"
    by (simp add: vtcm_separate_def lib big_map_def)
  have rep: "lab_rep 1 (view_of b) []" using lab_rep_example[of 1] by (simp add: view_of_def lab_rep_def)
  have mem: "lmem (view_of b) (unat (va big_map) + k) = data b k" for k
    by (simp add: view_of_def big_map_def)
  have clk: "\<exists>d. T \<le> tc_clk (clocks_example i) d \<and> d < 2 ^ 63" if "i < 6" for T i
    using that by (intro exI[of _ "3 + i"]) (simp add: clocks_example_def clock_at_def)
  have res: "resources_ok quiet_os (\<lambda>_. 8) 6" by (simp add: resources_ok_def quiet_os_def)
  have fm: "find_map big_lib (of_int (fd b)) = Some 0" "unat (msize (maps big_lib ! 0)) = size b"
    using find by (simp_all add: big_map_def b)
  have all: "\<forall>i < 6. (\<forall>k < size b. lmem (view_of b) (unat (va (maps big_lib ! 0)) + k) = data b k) \<and>
      (\<forall>n \<le> 16. dma_engine (dma_queue_push 0 1) (dma_queue_pop 1) lmem (lab_rep 1) n) \<and> lab_rep 1 (view_of b) [] \<and>
      (\<forall>T. \<exists>d. T \<le> tc_clk (clocks_example i) d \<and> d < 2 ^ 63)"
    using mem rep clk lab_engine_256 by (simp add: find(2))
  have "vtcm big_lib \<noteq> 0" "6 * 2 ^ 20 \<le> unat (vtcm_size big_lib)" "vtcm_separate big_lib (maps big_lib ! 0)"
    using lib sep find(2) by simp_all
  then show ?thesis
    unfolding dsp_ready_def by (intro conjI exI[of _ 0] lib(1) res fm all)
qed

lemma dma_t1: "cfg ''dma-t1'' 1 1 65536 0 0 8 0 0 0 \<in> set k_cfgs"
  by (simp add: k_cfgs_def)

text \<open>\<open>builtin_configs_accepted\<close>: the library accepts each configuration of the table \<open>k_cfgs\<close> for
  each buffer from 64 MiB to 2048 MiB, six HVX contexts and each time budget of the options, and with
  6 MiB of VTCM the slots of each DMA configuration fit.\<close>

theorem builtin_configs_accepted:
  assumes "c \<in> set k_cfgs" "2 ^ 26 \<le> size b" "size b \<le> 2 ^ 31" "unat (msize m) = size b" "6 \<le> n_hvx g"
    and "10 \<le> ms" "ms \<le> 5000" "vtcm g \<noteq> 0" "6 * 2 ^ 20 \<le> unat (vtcm_size g)"
  shows "check_run g (run_of b c ms) m MAX_THREADS = DDRBW_OK \<and>
    (0 < c_n_dma c \<longrightarrow> slots_fit g (run_of b c ms) \<and> no_slot_wrap (run_of b c ms))"
proof -
  have c: "cfg_ok c" using k_cfgs_ok assms(1) by (simp add: list_all_iff)
  show ?thesis using cfg_accepted[OF c assms(2-7)] cfg_slots[OF c _ assms(8,9)] by blast
qed

theorem builtin_configs_accepted_witness:
  "check_run big_lib (run_of big_buffer (cfg ''dma-t1'' 1 1 65536 0 0 8 0 0 0) 300) big_map MAX_THREADS = DDRBW_OK"
proof -
  have lib: "6 \<le> n_hvx big_lib" "vtcm big_lib \<noteq> 0" "6 * 2 ^ 20 \<le> unat (vtcm_size big_lib)"
    by (simp_all add: big_lib_def lib_example_def)
  have m: "unat (msize big_map) = size big_buffer" by (simp add: big_map_def big_buffer)
  show ?thesis
    using builtin_configs_accepted[OF dma_t1 _ _ m lib(1) _ _ lib(2,3), of 300] by (simp add: big_buffer)
qed

text \<open>C2. \<open>nsp_run_checks\<close>: the whole path of a measurement. The host runs a configuration of the table on
  a filled buffer that the DSP maps. The DSP library accepts the run, each thread reads until the
  deadline, and the host finds each checksum correct.\<close>

theorem nsp_run_checks:
  assumes "c \<in> set k_cfgs" "prefix_ok b" "2 ^ 26 \<le> size b" "size b \<le> 2 ^ 31" "10 \<le> ms" "ms \<le> 5000"
    and "dsp_ready os ready push pop vmem rep clks view g b"
  shows "\<exists>r w'. nsp_run (call_dsp (\<lambda>run n. ddrbw_read os ready push pop vmem clks view run n g)) cntfrq b c ms w = Some ((0, r), w') \<and>
    n_status r = DDRBW_OK \<and> n_check_ok r"
proof -
  have c: "cfg_ok c" using k_cfgs_ok assms(1) by (simp add: list_all_iff)
  obtain go ths w' where r: "ddrbw_read os ready push pop vmem clks view (run_of b c ms) MAX_THREADS g w = Some ((DDRBW_OK, go, ths), w')"
    "\<And>i. i < unat (c_n_threads c) \<Longrightarrow> thread_want b c (ths ! i) = Some (t_sum (ths ! i))"
    using nsp_run_accepted[OF c assms(2-7), of w] by blast
  have call: "call_dsp (\<lambda>run n. ddrbw_read os ready push pop vmem clks view run n g) (run_of b c ms) MAX_THREADS w
      = Some ((AEE_SUCCESS, DDRBW_OK, go, ths), w')" by (simp add: call_dsp_def r(1))
  have "\<exists>r. nsp_run (call_dsp (\<lambda>run n. ddrbw_read os ready push pop vmem clks view run n g)) cntfrq b c ms w = Some ((0, r), w') \<and>
      n_status r = DDRBW_OK \<and> n_check_ok r \<and> n_t_go r = go \<and>
      n_bytes r = (\<Sum>i<unat (c_n_threads c). t_chunks (ths ! i) * ucast (c_chunk c))"
    using call r(2) by (intro nsp_run_ok)
  then show ?thesis by blast
qed

theorem nsp_run_checks_witness:
  "\<exists>r w'. nsp_run (call_dsp (\<lambda>run n. ddrbw_read quiet_os (\<lambda>_. 8) (\<lambda>_. dma_queue_push 0 1) (\<lambda>_. dma_queue_pop 1) lmem
      clocks_example (\<lambda>_. view_of big_buffer) run n big_lib)) 19200000 big_buffer (cfg ''dma-t1'' 1 1 65536 0 0 8 0 0 0) 300 0 = Some ((0, r), w') \<and>
    n_status r = DDRBW_OK \<and> n_check_ok r"
  by (rule nsp_run_checks[OF dma_t1 big_buffer(1) _ _ _ _ ready_for]) (simp_all add: big_buffer)

text \<open>C25. \<open>nsp_run_detects\<close>: \<open>nsp_run\<close> reports a run as correct exactly when the status is 0 and each thread
  gave the checksum that the prefix sums give. It reports the bytes of all the threads, and an error of
  the call is \<open>EXIT_RPC\<close>.\<close>

theorem nsp_run_detects:
  assumes "rpc_read (run_of b c ms) MAX_THREADS w = Some ((err, st, go, ths), w')"
    and "\<And>i. i < unat (c_n_threads c) \<Longrightarrow> thread_want b c (ths ! i) \<noteq> None"
  shows "\<exists>rc r. nsp_run rpc_read cntfrq b c ms w = Some ((rc, r), w') \<and>
    (err \<noteq> AEE_SUCCESS \<longrightarrow> rc = EXIT_RPC) \<and>
    (err = AEE_SUCCESS \<longrightarrow> rc = 0 \<and> n_status r = st \<and>
      (n_check_ok r \<longleftrightarrow> st = DDRBW_OK \<and> (\<forall>i < unat (c_n_threads c). thread_want b c (ths ! i) = Some (t_sum (ths ! i)))) \<and>
      (st = DDRBW_OK \<longrightarrow> n_bytes r = (\<Sum>i<unat (c_n_threads c). t_chunks (ths ! i) * ucast (c_chunk c)) \<and>
         (\<forall>i < unat (c_n_threads c). t_end (ths ! i) \<le> n_t_end r)))"
proof -
  let ?n = "unat (c_n_threads c)"
  let ?r = "zero_result\<lparr>n_status := st, n_t_go := go, n_check_ok := True, n_tmin := fp_of_int F64 (10 ^ 30)\<rparr>"
  have want: "\<And>k. 0 \<le> k \<Longrightarrow> k < 0 + ?n \<Longrightarrow> thread_want b c (ths ! k) \<noteq> None" using assms(2) by simp
  from nsp_threads_result[where cntfrq = cntfrq and r = ?r and i = 0 and n = ?n, OF want, simplified]
  obtain r' where r': "nsp_threads cntfrq b c 0 ?n ths ?r = Some r'" "n_status r' = st"
    "n_check_ok r' \<longleftrightarrow> (\<forall>i < ?n. thread_want b c (ths ! i) = Some (t_sum (ths ! i)))"
    "n_bytes r' = (\<Sum>k = 0..<?n. t_chunks (ths ! k) * ucast (c_chunk c))"
    "n_t_end r' = Max (insert 0 ((\<lambda>k. t_end (ths ! k)) ` {0..<?n}))"
    by (auto simp: zero_result_def)
  have "t_end (ths ! i) \<le> n_t_end r'" if "i < ?n" for i
    unfolding r'(5) using that by (intro Max_ge) auto
  then show ?thesis using r'
    by (cases "err = AEE_SUCCESS"; cases "st = DDRBW_OK") (simp_all add: nsp_run_def assms(1) Let_def zero_result_def lessThan_atLeast0)
qed

theorem nsp_run_detects_witness:
  "\<exists>r. nsp_run (\<lambda>run n w. Some ((AEE_SUCCESS, DDRBW_OK, 5,
         [zero_thread\<lparr>t_part_len := 65536, t_chunks := 2, t_sum := 2 * sum_range big_buffer 0 65536 + 9\<rparr>]), w))
       19200000 big_buffer (cfg ''hvx-t1'' 1 0 65536 0 0 0 2 0 0) 300 () = Some ((0, r), ()) \<and> \<not> n_check_ok r \<and> n_bytes r = 131072"
proof -
  let ?c = "cfg ''hvx-t1'' 1 0 65536 0 0 0 2 0 0"
  let ?th = "zero_thread\<lparr>t_part_len := 65536, t_chunks := 2, t_sum := 2 * sum_range big_buffer 0 65536 + 9\<rparr>"
  have want: "thread_want big_buffer ?c ?th = Some (2 * sum_range big_buffer 0 65536)"
    by (simp add: thread_want_def expected_sum_def zero_thread_def cfg_def DDRBW_KIND_DMA_def sum_range_def)
  have n: "unat (c_n_threads ?c) = 1" "c_chunk ?c = 65536" by (simp_all add: cfg_def)
  show ?thesis
    using nsp_run_detects[of "\<lambda>run n w. Some ((AEE_SUCCESS, DDRBW_OK, 5, [?th]), w)" big_buffer ?c 300 "()" AEE_SUCCESS DDRBW_OK 5 "[?th]" "()" 19200000]
    by (auto simp: n want)
qed

end
