(* ===== verification/HostCpu.thy ===== *)
theory HostCpu
  imports HostRun
begin

text \<open>
  The CPU reader of \<open>tools/ddrbw/host/ddrbw.c\<close>: \<open>neon_add\<close>, \<open>cpu_main\<close>, \<open>cpu_start\<close>, \<open>cpu_join\<close>,
  \<open>cpu_summary\<close> and the interpolation \<open>chunks_at\<close> of the progress logs.

  The threads only read the buffer. A thread sees its own sequence of counter values and of the stop flag
  (\<open>ce_clk\<close>, \<open>ce_stop\<close>), one of each for every 16 chunks. A NEON register is a \<^typ>\<open>vec\<close> with 4 lanes.
\<close>

definition CPU_CHUNK :: nat where "CPU_CHUNK = 65536"
definition CPU_LOG_STEP :: nat where "CPU_LOG_STEP = 16"
definition CPU_LOG_MAX :: nat where "CPU_LOG_MAX = 65536"

subsection \<open>One thread\<close>

fun neon_steps :: "mem \<Rightarrow> nat \<Rightarrow> nat \<Rightarrow> vec list \<Rightarrow> vec list" where
  "neon_steps m p 0 acc = acc"
| "neon_steps m p (Suc n) acc = neon_steps m (p + 128) n (map (\<lambda>k. vadd (acc ! k) (ldv m (p + 16 * k))) [0..<8])"

definition neon_add :: "mem \<Rightarrow> nat \<Rightarrow> nat \<Rightarrow> vec list \<Rightarrow> vec list" where
  "neon_add m p n acc = neon_steps m p ((n + 127) div 128) acc"

definition vaddvq :: "vec \<Rightarrow> u32" where
  "vaddvq v = fold (\<lambda>i s. s + v i) [0..<4] 0"

definition neon_sum :: "vec list \<Rightarrow> u32" where
  "neon_sum acc = vaddvq (vadd (vadd (vadd (acc ! 0) (acc ! 1)) (vadd (acc ! 2) (acc ! 3)))
     (vadd (vadd (acc ! 4) (acc ! 5)) (vadd (acc ! 6) (acc ! 7))))"

record cpu_worker =
  cw_cpu :: int
  cw_part_start :: u32
  cw_part_len :: u32
  cw_deadline :: u64
  cw_log :: bool

record cpu_env =
  ce_aff :: int
  ce_cpu0 :: int
  ce_cpu1 :: int
  ce_start :: u64
  ce_end :: u64
  ce_clk :: "nat \<Rightarrow> u64"
  ce_stop :: "nat \<Rightarrow> bool"

type_synonym cpu_log = "(u64 \<times> u64) list"

record cpu_outcome =
  co_t_start :: u64
  co_t_end :: u64
  co_chunks :: u64
  co_sum :: u32
  co_pinned :: bool
  co_log :: cpu_log

partial_function (option) cpu_loop ::
  "mem \<Rightarrow> nat \<Rightarrow> u32 \<Rightarrow> cpu_worker \<Rightarrow> (nat \<Rightarrow> u64) \<Rightarrow> (nat \<Rightarrow> bool) \<Rightarrow> nat \<Rightarrow> u32 \<Rightarrow> u64 \<Rightarrow> cpu_log \<Rightarrow> vec list
    \<Rightarrow> (u64 \<times> cpu_log \<times> vec list) option" where
  "cpu_loop m part nchunks w clk stop k c n log acc =
     (let acc = neon_add m (part + unat c * CPU_CHUNK) CPU_CHUNK acc;
          n = n + 1;
          c = (if c + 1 = nchunks then 0 else c + 1)
      in if unat n mod CPU_LOG_STEP = 0 then
           let t = clk k;
               log = (if cw_log w \<and> length log < CPU_LOG_MAX then log @ [(t, n)] else log)
           in if t \<ge> cw_deadline w \<or> stop k then Some (n, log, acc)
              else cpu_loop m part nchunks w clk stop (Suc k) c n log acc
         else cpu_loop m part nchunks w clk stop k c n log acc)"

definition cpu_main :: "buffer \<Rightarrow> cpu_worker \<Rightarrow> cpu_env \<Rightarrow> cpu_outcome option" where
  "cpu_main b w env =
     (let on = (ce_aff env = 0 \<and> ce_cpu0 env = cw_cpu w);
          nchunks = cw_part_len w div of_nat CPU_CHUNK
      in map_option (\<lambda>(n, log, acc).
           \<lparr>co_t_start = ce_start env, co_t_end = ce_end env, co_chunks = n, co_sum = neon_sum acc,
            co_pinned = (on \<and> ce_cpu1 env = cw_cpu w), co_log = log\<rparr>)
         (cpu_loop (data b) (unat (cw_part_start w)) nchunks w (ce_clk env) (ce_stop env) 0 0 0 []
            (replicate 8 vzero)))"

subsection \<open>A group of threads\<close>

text \<open>\<^const>\<open>None\<close> is the division by 0 for a set without a core.\<close>

definition cpu_part_len :: "buffer \<Rightarrow> nat \<Rightarrow> u32 option" where
  "cpu_part_len b n = (if n = 0 then None else Some (of_nat (size b div n div CPU_CHUNK * CPU_CHUNK)))"

definition cpu_worker_of :: "core_set \<Rightarrow> u32 \<Rightarrow> u64 \<Rightarrow> bool \<Rightarrow> nat \<Rightarrow> cpu_worker" where
  "cpu_worker_of s part_len deadline has_log i =
     \<lparr>cw_cpu = s_cpu s ! i, cw_part_start = of_nat i * part_len, cw_part_len = part_len, cw_deadline = deadline, cw_log = has_log\<rparr>"

text \<open>
  \<open>create i\<close> tells if \<open>pthread_create\<close> of thread \<open>i\<close> succeeds. \<open>Inl k\<close>: thread \<open>k\<close> could not start, thus the
  threads before it were stopped and joined and the result is -1. \<open>Inr ws\<close>: each thread reads.
\<close>

definition cpu_start :: "(nat \<Rightarrow> bool) \<Rightarrow> buffer \<Rightarrow> core_set \<Rightarrow> u64 \<Rightarrow> bool \<Rightarrow> (nat + cpu_worker list) option" where
  "cpu_start create b s deadline has_log =
     (let n = length (s_cpu s) in
      map_option (\<lambda>part_len.
        case find (\<lambda>i. \<not> create i) [0..<n] of
          Some k \<Rightarrow> Inl k
        | None \<Rightarrow> Inr (map (cpu_worker_of s part_len deadline has_log) [0..<n]))
      (cpu_part_len b n))"

fun cpu_outcomes :: "buffer \<Rightarrow> (nat \<Rightarrow> cpu_env) \<Rightarrow> nat \<Rightarrow> cpu_worker list \<Rightarrow> cpu_outcome list option" where
  "cpu_outcomes b envs i [] = Some []"
| "cpu_outcomes b envs i (w # ws) =
     Option.bind (cpu_main b w (envs i)) (\<lambda>out. map_option ((#) out) (cpu_outcomes b envs (Suc i) ws))"

fun cpu_join :: "buffer \<Rightarrow> cpu_worker list \<Rightarrow> cpu_outcome list \<Rightarrow> bool \<Rightarrow> bool option" where
  "cpu_join b (w # ws) (out # outs) ok =
     (case expected_sum b (cw_part_start w) (cw_part_len w) (of_nat CPU_CHUNK) (co_chunks out) False of
        None \<Rightarrow> None
      | Some want \<Rightarrow> cpu_join b ws outs (if want \<noteq> co_sum out then False else ok))"
| "cpu_join b ws outs ok = Some ok"

record cpu_result =
  cr_bytes :: u64
  cr_gbs :: fp
  cr_tmin :: fp
  cr_tmax :: fp
  cr_pinned :: bool

definition summary_step :: "u64 \<Rightarrow> cpu_outcome \<Rightarrow> u64 \<times> u64 \<times> cpu_result \<Rightarrow> u64 \<times> u64 \<times> cpu_result" where
  "summary_step cntfrq w st =
     (let (t0, t1, r) = st; b = co_chunks w * of_nat CPU_CHUNK; v = rate_of b (ticks_to_s cntfrq (co_t_end w - co_t_start w))
      in (if co_t_start w < t0 then co_t_start w else t0, if co_t_end w > t1 then co_t_end w else t1,
          r\<lparr>cr_bytes := cr_bytes r + b, cr_tmin := (if fp_less v (cr_tmin r) then v else cr_tmin r),
            cr_tmax := (if fp_less (cr_tmax r) v then v else cr_tmax r), cr_pinned := (cr_pinned r \<and> co_pinned w)\<rparr>))"

definition cpu_summary :: "u64 \<Rightarrow> cpu_outcome list \<Rightarrow> cpu_result" where
  "cpu_summary cntfrq outs =
     (let (t0, t1, r) = fold (summary_step cntfrq) outs
            (- 1, 0, \<lparr>cr_bytes = 0, cr_gbs = f64_0, cr_tmin = fp_of_int F64 (10 ^ 30), cr_tmax = f64_0, cr_pinned = True\<rparr>)
      in r\<lparr>cr_gbs := rate_of (cr_bytes r) (ticks_to_s cntfrq (t1 - t0))\<rparr>)"

subsection \<open>The progress at a time\<close>

function log_search :: "cpu_log \<Rightarrow> u64 \<Rightarrow> nat \<Rightarrow> nat \<Rightarrow> nat \<times> nat" where
  "log_search log t lo hi =
     (if hi - lo > 1 then
        let mid = (lo + hi) div 2 in
        if fst (log ! mid) \<le> t then log_search log t mid hi else log_search log t lo mid
      else (lo, hi))"
  by pat_completeness auto
termination
  by (relation "measure (\<lambda>(log, t, lo, hi). hi - lo)") auto

declare log_search.simps [simp del]

text \<open>The linear interpolation between two samples. \<^const>\<open>None\<close> is the result -1 of \<open>chunks_at\<close>.\<close>

definition lerp :: "u64 \<times> u64 \<Rightarrow> u64 \<times> u64 \<Rightarrow> u64 \<Rightarrow> fp" where
  "lerp a z t =
     (let f = (if fst z > fst a then fp_div F64 (fp_of_int F64 (int (unat (t - fst a)))) (fp_of_int F64 (int (unat (fst z - fst a))))
               else f64_0)
      in fp_add F64 (fp_of_int F64 (int (unat (snd a)))) (fp_mul F64 f (fp_of_int F64 (int (unat (snd z - snd a))))))"

definition chunks_at :: "cpu_log \<Rightarrow> u64 \<Rightarrow> fp option" where
  "chunks_at log t =
     (if length log < 2 \<or> t < fst (log ! 0) \<or> t > fst (log ! (length log - 1)) then None
      else
        let (lo, hi) = log_search log t 0 (length log - 1) in Some (lerp (log ! lo) (log ! hi) t))"

subsection \<open>The sum of a chunk\<close>

definition lanes8 :: "vec list \<Rightarrow> u32" where
  "lanes8 acc = (\<Sum>k<8. \<Sum>i<4. (acc ! k) i)"

lemma neon_sum_eq: "neon_sum acc = lanes8 acc"
proof -
  have upt: "[0..<4] = [0, 1, 2, 3 :: nat]" by (simp add: upt_rec)
  show ?thesis
    by (simp add: neon_sum_def lanes8_def vaddvq_def vadd_def upt numeral_eq_Suc lessThan_Suc add_ac)
qed

lemma neon_step_sum:
  "lanes8 (map (\<lambda>k. vadd (acc ! k) (ldv m (p + 16 * k))) [0..<8]) = lanes8 acc + sum_words m p 32"
proof -
  have "lanes8 (map (\<lambda>k. vadd (acc ! k) (ldv m (p + 16 * k))) [0..<8]) = (\<Sum>k<8. \<Sum>i<4. (acc ! k) i + ldv m (p + 16 * k) i)"
    unfolding lanes8_def by (intro sum.cong refl) (simp add: vadd_def)
  also have "\<dots> = lanes8 acc + (\<Sum>k<8. sum_words m (p + 4 * (k * 4)) 4)"
    by (simp add: lanes8_def sum.distrib ldv_def sum_words_def mult.commute[of _ 16] mult.assoc)
  finally show ?thesis using sum_words_mult[of m p 8 4] by simp
qed

lemma neon_steps_sum: "lanes8 (neon_steps m p n acc) = lanes8 acc + sum_words m p (32 * n)"
proof (induction m p n acc rule: neon_steps.induct)
  case (2 m p n acc)
  have "sum_words m p (32 * Suc n) = sum_words m p 32 + sum_words m (p + 128) (32 * n)"
    using sum_words_add[of m p 32 "32 * n"] by simp
  then show ?case using 2 by (simp add: neon_step_sum)
qed simp

lemma neon_chunk_sum: "lanes8 (neon_add m (p + j * CPU_CHUNK) CPU_CHUNK acc) = lanes8 acc + chunk_sum m p CPU_CHUNK False j"
  by (simp add: neon_add_def neon_steps_sum chunk_sum_def CPU_CHUNK_def)

subsection \<open>A thread returns the checksum of its chunks\<close>

definition stops :: "cpu_worker \<Rightarrow> (nat \<Rightarrow> u64) \<Rightarrow> (nat \<Rightarrow> bool) \<Rightarrow> nat \<Rightarrow> bool" where
  "stops w clk stop k \<longleftrightarrow> clk k \<ge> cw_deadline w \<or> stop k"

definition log_upto :: "cpu_worker \<Rightarrow> (nat \<Rightarrow> u64) \<Rightarrow> nat \<Rightarrow> cpu_log" where
  "log_upto w clk k = (if cw_log w then map (\<lambda>i. (clk i, of_nat (16 * (i + 1)))) [0..<min k CPU_LOG_MAX] else [])"

lemma log_upto_0: "log_upto w clk 0 = []"
  by (simp add: log_upto_def)

lemma log_upto_Suc:
  "(if cw_log w \<and> length (log_upto w clk k) < CPU_LOG_MAX then log_upto w clk k @ [(clk k, of_nat (16 * (k + 1)))] else log_upto w clk k)
    = log_upto w clk (Suc k)"
  by (cases "k < CPU_LOG_MAX") (auto simp: log_upto_def min_def)

lemma cpu_loop_result:
  assumes per: "0 < unat nchunks" and d: "stops w clk stop d" "\<And>k. k < d \<Longrightarrow> \<not> stops w clk stop k" "16 * (d + 1) < 2 ^ 64"
    and N: "N < 16 * (d + 1)" "unat c = N mod unat nchunks"
  shows "\<exists>acc'. cpu_loop m part nchunks w clk stop (N div 16) c (of_nat N) (log_upto w clk (N div 16)) acc =
      Some (of_nat (16 * (d + 1)), log_upto w clk (d + 1), acc') \<and>
    lanes8 acc' = lanes8 acc + (\<Sum>i = N..<16 * (d + 1). chunk_sum m part CPU_CHUNK False (i mod unat nchunks))"
  using N
proof (induction "16 * (d + 1) - N" arbitrary: N c acc)
  case 0
  then show ?case by simp
next
  case (Suc x)
  let ?acc = "neon_add m (part + unat c * CPU_CHUNK) CPU_CHUNK acc"
  let ?c = "if c + 1 = nchunks then 0 else c + 1"
  have acc: "lanes8 ?acc = lanes8 acc + chunk_sum m part CPU_CHUNK False (N mod unat nchunks)"
    using neon_chunk_sum Suc.prems(2) by simp
  have N1: "unat (of_nat N + 1 :: u64) = N + 1"
  proof -
    have "of_nat N + 1 = (of_nat (N + 1) :: u64)" by simp
    then show ?thesis using Suc.prems(1) d(3) by (simp only:) (rule unat_of_nat_less, simp)
  qed
  have c1: "c < nchunks" using Suc.prems(2) per by (simp add: word_less_nat_alt)
  then have c': "unat ?c = (N + 1) mod unat nchunks"
    using next_chunk_mod(1)[OF c1] Suc.prems(2) by (simp add: next_chunk_def Let_def mod_Suc_eq)
  have sum: "(\<Sum>i = N..<16 * (d + 1). chunk_sum m part CPU_CHUNK False (i mod unat nchunks)) =
      chunk_sum m part CPU_CHUNK False (N mod unat nchunks) + (\<Sum>i = N + 1..<16 * (d + 1). chunk_sum m part CPU_CHUNK False (i mod unat nchunks))"
    using Suc.prems(1) by (simp add: sum.atLeast_Suc_lessThan)
  show ?case
  proof (cases "(N + 1) mod 16 = 0")
    case False
    then have k: "(N + 1) div 16 = N div 16" by (simp add: div_Suc)
    have "N + 1 \<noteq> 16 * (d + 1)" using False by (metis mod_mult_self1_is_0)
    then have lt: "N + 1 < 16 * (d + 1)" using Suc.prems(1) by linarith
    have step: "cpu_loop m part nchunks w clk stop (N div 16) c (of_nat N) (log_upto w clk (N div 16)) acc
        = cpu_loop m part nchunks w clk stop ((N + 1) div 16) ?c (of_nat (N + 1)) (log_upto w clk ((N + 1) div 16)) ?acc"
      by (subst cpu_loop.simps) (simp only: Let_def N1 CPU_LOG_STEP_def if_not_P[OF False] k of_nat_add of_nat_1)
    have "x = 16 * (d + 1) - (N + 1)" using Suc.hyps(2) by simp
    from Suc.hyps(1)[OF this lt c', of ?acc] show ?thesis unfolding step sum acc by (simp only: add.assoc)
  next
    case True
    define k where "k = N div 16"
    obtain q where q: "N + 1 = 16 * q" using True by (metis dvd_def mod_0_imp_dvd)
    then obtain q' where q': "q = Suc q'" by (cases q) simp_all
    then have "N = 16 * q' + 15" using q by simp
    then have "k = q'" by (simp add: k_def)
    then have k: "(N + 1) div 16 = Suc k" "N + 1 = 16 * (k + 1)" "k \<le> d" using q q' Suc.prems(1) by simp_all
    have n1: "of_nat N + 1 = (of_nat (16 * (k + 1)) :: u64)" unfolding k(2)[symmetric] by simp
    have log: "(if cw_log w \<and> length (log_upto w clk k) < CPU_LOG_MAX then log_upto w clk k @ [(clk k, of_nat N + 1)] else log_upto w clk k)
        = log_upto w clk (Suc k)" unfolding n1 by (rule log_upto_Suc)
    have step: "cpu_loop m part nchunks w clk stop (N div 16) c (of_nat N) (log_upto w clk (N div 16)) acc
        = (if stops w clk stop k then Some (of_nat N + 1, log_upto w clk (Suc k), ?acc)
           else cpu_loop m part nchunks w clk stop (Suc k) ?c (of_nat N + 1) (log_upto w clk (Suc k)) ?acc)"
      unfolding k_def[symmetric]
      by (subst cpu_loop.simps) (simp only: Let_def N1 CPU_LOG_STEP_def True log stops_def if_True refl)
    show ?thesis
    proof (cases "k = d")
      case kd: True
      have "N + 1 = 16 * (d + 1)" using k(2) unfolding kd .
      then have "(\<Sum>i = N..<16 * (d + 1). chunk_sum m part CPU_CHUNK False (i mod unat nchunks))
          = chunk_sum m part CPU_CHUNK False (N mod unat nchunks)" unfolding sum by simp
      moreover have st: "stops w clk stop k" using d(1) unfolding kd .
      ultimately show ?thesis unfolding step if_P[OF st] n1 kd Suc_eq_plus1 using acc
        by (intro exI[of _ ?acc]) (simp only: if_True simp_thms)
    next
      case False
      then have "k < d" using k(3) by simp
      then have go: "\<not> stops w clk stop k" "N + 1 < 16 * (d + 1)" using d(2) k(2) by simp_all
      have "x = 16 * (d + 1) - (N + 1)" using Suc.hyps(2) by simp
      from Suc.hyps(1)[OF this go(2) c', of ?acc]
      show ?thesis unfolding step if_not_P[OF go(1)] sum acc k(1) by (simp only: of_nat_add of_nat_1 add.assoc)
    qed
  qed
qed

lemma cpu_main_result:
  assumes len: "CPU_CHUNK \<le> unat (cw_part_len w)"
    and stop: "stops w (ce_clk env) (ce_stop env) d" "16 * (d + 1) < 2 ^ 64"
  shows "\<exists>n out. cpu_main b w env = Some out \<and> n \<le> d \<and> co_chunks out = of_nat (16 * (n + 1)) \<and>
    co_sum out = read_sum (data b) (unat (cw_part_start w)) CPU_CHUNK (unat (cw_part_len w) div CPU_CHUNK) False (16 * (n + 1)) \<and>
    co_log out = log_upto w (ce_clk env) (n + 1) \<and> co_t_start out = ce_start env \<and> co_t_end out = ce_end env"
proof -
  define n where "n = (LEAST d. stops w (ce_clk env) (ce_stop env) d)"
  have n: "stops w (ce_clk env) (ce_stop env) n" "n \<le> d" unfolding n_def using stop(1) by (rule LeastI, rule Least_le)
  have less: "k < n \<Longrightarrow> \<not> stops w (ce_clk env) (ce_stop env) k" for k unfolding n_def by (rule not_less_Least)
  let ?nc = "cw_part_len w div of_nat CPU_CHUNK"
  have nc: "unat ?nc = unat (cw_part_len w) div CPU_CHUNK" "0 < unat ?nc"
    using len by (simp_all add: unat_div CPU_CHUNK_def div_greater_zero_iff)
  have z: "lanes8 (replicate 8 vzero) = 0" by (simp add: lanes8_def vzero_def)
  have "0 < 16 * (n + 1)" "unat (0 :: u32) = 0 mod unat ?nc" "16 * (n + 1) < 2 ^ 64" using n(2) stop(2) by simp_all
  from cpu_loop_result[where N = 0 and c = 0 and acc = "replicate 8 vzero" and m = "data b" and part = "unat (cw_part_start w)",
        OF nc(2) n(1) _ this(3,1,2)] less
  obtain acc' where r: "cpu_loop (data b) (unat (cw_part_start w)) ?nc w (ce_clk env) (ce_stop env) 0 0 0 [] (replicate 8 vzero)
      = Some (of_nat (16 * (n + 1)), log_upto w (ce_clk env) (n + 1), acc')"
    "lanes8 acc' = (\<Sum>i = 0..<16 * (n + 1). chunk_sum (data b) (unat (cw_part_start w)) CPU_CHUNK False (i mod unat ?nc))"
    unfolding z div_0 semiring_1_class.of_nat_0 log_upto_0 add_0 by blast
  show ?thesis
    using r n(2) by (intro exI[of _ n]) (simp add: cpu_main_def neon_sum_eq read_sum_def nc(1) lessThan_atLeast0)
qed

subsection \<open>The parts of a group\<close>

lemma cpu_part:
  assumes "cpu_part_len b n = Some l" "n \<le> 8" "2 ^ 26 \<le> size b" "size b \<le> 2 ^ 31" "i < n"
  shows "unat l = size b div n div CPU_CHUNK * CPU_CHUNK" "CPU_CHUNK \<le> unat l"
    "unat (of_nat i * l) = i * unat l" "i * unat l + unat l \<le> size b"
proof -
  let ?p = "size b div n div CPU_CHUNK * CPU_CHUNK"
  have n: "0 < n" "l = of_nat ?p" using assms(1) by (auto simp: cpu_part_len_def split: if_splits)
  have le: "?p \<le> size b div n" by (metis div_times_less_eq_dividend)
  have "n * ?p \<le> n * (size b div n)" using le by (rule mult_le_mono2)
  also have "\<dots> \<le> size b" by (rule times_div_less_eq_dividend)
  finally have np: "n * ?p \<le> size b" .
  have "?p \<le> size b" using le div_le_dividend[of "size b" n] by linarith
  then show len: "unat l = ?p" unfolding n(2) using assms(4) by (intro unat_of_nat_less) simp
  have "CPU_CHUNK * n \<le> size b" using assms(2,3) by (simp add: CPU_CHUNK_def)
  then have "CPU_CHUNK \<le> size b div n" using n(1) by (simp add: less_eq_div_iff_mult_less_eq)
  then have "0 < size b div n div CPU_CHUNK" by (simp add: div_greater_zero_iff CPU_CHUNK_def)
  then show "CPU_CHUNK \<le> unat l" unfolding len by simp
  have "Suc i * unat l \<le> n * unat l" using assms(5) by (intro mult_le_mono1) simp
  then show le2: "i * unat l + unat l \<le> size b" using np unfolding len by simp
  have "unat (of_nat i :: u32) = i" using assms(2,5) by (intro unat_of_nat_less) simp
  then show "unat (of_nat i * l) = i * unat l" using le2 assms(4) by (subst unat_mult_le) simp_all
qed

lemma cpu_expected:
  assumes b: "prefix_ok b" "2 ^ 26 \<le> size b" "size b \<le> 2 ^ 31" and l: "cpu_part_len b n = Some l" "n \<le> 8" "i < n"
  shows "expected_sum b (of_nat i * l) l (of_nat CPU_CHUNK) chunks False =
    Some (read_sum (data b) (i * unat l) CPU_CHUNK (unat l div CPU_CHUNK) False (unat chunks))"
proof -
  note p = cpu_part[OF l(1,2) b(2,3) l(3)]
  have c: "unat (of_nat CPU_CHUNK :: u32) = CPU_CHUNK" by (simp add: CPU_CHUNK_def)
  have "128 dvd unat (of_nat CPU_CHUNK :: u32)" by (simp add: c CPU_CHUNK_def)
  moreover have cd: "CPU_CHUNK dvd unat l" unfolding p(1) by simp
  moreover have "128 dvd CPU_CHUNK" by (simp add: CPU_CHUNK_def)
  then have "128 dvd i * unat l" using cd by (intro dvd_mult) (rule dvd_trans)
  ultimately show ?thesis
    using expected_sum_spec[OF b(1), of "of_nat CPU_CHUNK" "of_nat i * l" l chunks False] p c
    by (simp add: CPU_CHUNK_def)
qed

text \<open>A thread that reaches its deadline, or sees the stop flag.\<close>

definition env_stops :: "u64 \<Rightarrow> cpu_env \<Rightarrow> bool" where
  "env_stops deadline env \<longleftrightarrow> (\<exists>d. (ce_clk env d \<ge> deadline \<or> ce_stop env d) \<and> 16 * (d + 1) < (2 :: nat) ^ 64)"

lemma cpu_group_join:
  assumes b: "prefix_ok b" "2 ^ 26 \<le> size b" "size b \<le> 2 ^ 31" and l: "cpu_part_len b n = Some l" "n \<le> 8" "n = length (s_cpu s)"
    and env: "\<And>i. i < n \<Longrightarrow> env_stops deadline (envs i)" and i: "i + k = n"
  shows "\<exists>outs. cpu_outcomes b envs i (map (cpu_worker_of s l deadline lg) [i..<n]) = Some outs \<and> length outs = k \<and>
    cpu_join b (map (cpu_worker_of s l deadline lg) [i..<n]) outs ok = Some ok"
  using i
proof (induction k arbitrary: i)
  case (Suc k)
  let ?w = "cpu_worker_of s l deadline lg i"
  have i: "i < n" using Suc.prems by simp
  note p = cpu_part[OF l(1,2) b(2,3) i]
  have w: "cw_part_start ?w = of_nat i * l" "cw_part_len ?w = l" "cw_deadline ?w = deadline" by (simp_all add: cpu_worker_of_def)
  obtain d where d: "ce_clk (envs i) d \<ge> deadline \<or> ce_stop (envs i) d" "16 * (d + 1) < (2 :: nat) ^ 64"
    using env[OF i] unfolding env_stops_def by blast
  obtain m out where out: "cpu_main b ?w (envs i) = Some out" "m \<le> d" "co_chunks out = of_nat (16 * (m + 1))"
    "co_sum out = read_sum (data b) (i * unat l) CPU_CHUNK (unat l div CPU_CHUNK) False (16 * (m + 1))"
    using cpu_main_result[of ?w "envs i" d b] d p unfolding w stops_def by auto
  have "unat (co_chunks out) = 16 * (m + 1)" unfolding out(3) using out(2) d(2) by (intro unat_of_nat_less) simp
  then have want: "expected_sum b (of_nat i * l) l (of_nat CPU_CHUNK) (co_chunks out) False = Some (co_sum out)"
    unfolding cpu_expected[OF b l(1,2) i] out(4) by simp
  obtain outs where outs: "cpu_outcomes b envs (Suc i) (map (cpu_worker_of s l deadline lg) [Suc i..<n]) = Some outs" "length outs = k"
    "cpu_join b (map (cpu_worker_of s l deadline lg) [Suc i..<n]) outs ok = Some ok"
    using Suc.IH[of "Suc i"] Suc.prems by auto
  have "map (cpu_worker_of s l deadline lg) [i..<n] = ?w # map (cpu_worker_of s l deadline lg) [Suc i..<n]"
    using i by (simp add: upt_conv_Cons)
  then show ?case using outs out(1) want by (intro exI[of _ "out # outs"]) (simp add: w)
qed simp

subsection \<open>The search in a log\<close>

lemma log_search_result:
  assumes "lo < hi" "fst (log ! lo) \<le> t" "t \<le> fst (log ! hi)" "log_search log t lo hi = (a, z)"
  shows "lo \<le> a \<and> z = a + 1 \<and> z \<le> hi \<and> fst (log ! a) \<le> t \<and> t \<le> fst (log ! z)"
  using assms
proof (induction log t lo hi rule: log_search.induct)
  case (1 log t lo hi)
  show ?case
  proof (cases "hi - lo > 1")
    case True
    define mid where "mid = (lo + hi) div 2"
    have mid: "lo < mid" "mid < hi" using True by (simp_all add: mid_def)
    show ?thesis
    proof (cases "fst (log ! mid) \<le> t")
      case le: True
      have "log_search log t mid hi = (a, z)" using 1(6) True le by (subst (asm) log_search.simps) (simp add: mid_def Let_def)
      from 1(1)[OF True mid_def le mid(2) le 1(5) this] mid show ?thesis by auto
    next
      case gt: False
      have "log_search log t lo mid = (a, z)" using 1(6) True gt by (subst (asm) log_search.simps) (simp add: mid_def Let_def)
      moreover have "t \<le> fst (log ! mid)" using gt by simp
      ultimately show ?thesis using 1(2)[OF True mid_def gt mid(1) 1(4)] mid by auto
    qed
  next
    case False
    then show ?thesis using 1(3-6) by (subst (asm) log_search.simps) auto
  qed
qed

subsection \<open>Properties\<close>

text \<open>\<open>cpu_reader_checksum\<close>: a CPU thread whose counter reaches the deadline, or that sees the stop flag,
  returns. It stops after a multiple of 16 chunks, its checksum is the sum of the words of these chunks in
  the cyclic order of its part, and its log holds one sample for each 16 chunks.\<close>

theorem cpu_reader_checksum:
  assumes "CPU_CHUNK \<le> unat (cw_part_len w)"
    and "ce_clk env d \<ge> cw_deadline w \<or> ce_stop env d" "16 * (d + 1) < (2 :: nat) ^ 64"
  shows "\<exists>n out. cpu_main b w env = Some out \<and> n \<le> d \<and> co_chunks out = of_nat (16 * (n + 1)) \<and>
    co_sum out = read_sum (data b) (unat (cw_part_start w)) CPU_CHUNK (unat (cw_part_len w) div CPU_CHUNK) False (16 * (n + 1)) \<and>
    co_log out = log_upto w (ce_clk env) (n + 1)"
  using cpu_main_result[of w env d b] assms unfolding stops_def by blast

definition env_example :: cpu_env where
  "env_example = \<lparr>ce_aff = 0, ce_cpu0 = 7, ce_cpu1 = 7, ce_start = 1, ce_end = 9, ce_clk = clock_at 2 50, ce_stop = (\<lambda>_. False)\<rparr>"

definition set_example :: core_set where
  "set_example = \<lparr>s_cpu = [6, 7], s_text = ''6,7''\<rparr>"

theorem cpu_reader_checksum_witness:
  "\<exists>n out. cpu_main big_buffer \<lparr>cw_cpu = 7, cw_part_start = 65536, cw_part_len = 131072, cw_deadline = 40, cw_log = True\<rparr> env_example
      = Some out \<and> n \<le> 2 \<and> co_chunks out = of_nat (16 * (n + 1)) \<and>
    co_sum out = read_sum (data big_buffer) 65536 CPU_CHUNK 2 False (16 * (n + 1))"
proof -
  let ?w = "\<lparr>cw_cpu = 7, cw_part_start = 65536, cw_part_len = 131072, cw_deadline = 40, cw_log = True\<rparr>"
  have "CPU_CHUNK \<le> unat (cw_part_len ?w)" "unat (cw_part_len ?w) div CPU_CHUNK = 2" "unat (cw_part_start ?w) = 65536"
    by (simp_all add: CPU_CHUNK_def)
  then show ?thesis
    using cpu_reader_checksum[of ?w env_example 2 big_buffer] by (auto simp: env_example_def clock_at_def)
qed

text \<open>\<open>cpu_group_checks\<close>: the threads of a set with at least one core read disjoint parts in the buffer,
  and when each of them comes to its end, \<open>cpu_join\<close> finds each checksum correct.\<close>

theorem cpu_group_checks:
  assumes "prefix_ok b" "2 ^ 26 \<le> size b" "size b \<le> 2 ^ 31" "s_cpu s \<noteq> []" "length (s_cpu s) \<le> MAX_THREADS"
    and "\<And>i. create i" "\<And>i. i < length (s_cpu s) \<Longrightarrow> env_stops deadline (envs i)"
  shows "\<exists>ws outs. cpu_start create b s deadline lg = Some (Inr ws) \<and> cpu_outcomes b envs 0 ws = Some outs \<and>
    cpu_join b ws outs True = Some True \<and> length ws = length (s_cpu s) \<and>
    (\<forall>i < length ws. \<forall>k < length ws. i \<noteq> k \<longrightarrow>
      {unat (cw_part_start (ws ! i))..<unat (cw_part_start (ws ! i)) + unat (cw_part_len (ws ! i))} \<inter>
      {unat (cw_part_start (ws ! k))..<unat (cw_part_start (ws ! k)) + unat (cw_part_len (ws ! k))} = {} \<and>
      unat (cw_part_start (ws ! i)) + unat (cw_part_len (ws ! i)) \<le> size b)"
proof -
  let ?n = "length (s_cpu s)"
  obtain l where l: "cpu_part_len b ?n = Some l" using assms(4) by (auto simp: cpu_part_len_def)
  have n8: "?n \<le> 8" using assms(5) by (simp add: MAX_THREADS_def)
  let ?ws = "map (cpu_worker_of s l deadline lg) [0..<?n]"
  have none: "find (\<lambda>i. \<not> create i) [0..<?n] = None" using assms(6) by (simp add: find_None_iff)
  have start: "cpu_start create b s deadline lg = Some (Inr ?ws)" by (simp add: cpu_start_def l none Let_def)
  obtain outs where outs: "cpu_outcomes b envs 0 ?ws = Some outs" "cpu_join b ?ws outs True = Some True"
    using cpu_group_join[where i = 0 and k = ?n and lg = lg and ok = True and envs = envs and deadline = deadline, OF assms(1-3) l n8 refl assms(7)] by auto
  have part: "unat (cw_part_start (?ws ! i)) = i * unat l" "cw_part_len (?ws ! i) = l" "i * unat l + unat l \<le> size b" if "i < ?n" for i
    using cpu_part(3,4)[OF l n8 assms(2,3) that] that by (simp_all add: cpu_worker_of_def)
  have "{i * unat l..<i * unat l + unat l} \<inter> {k * unat l..<k * unat l + unat l} = {}" if "i \<noteq> k" for i k
    using slots_disjoint[where v = 0 and s = "unat l", OF that] by simp
  then show ?thesis using start outs part by (intro exI[of _ ?ws] exI[of _ outs]) simp
qed

theorem cpu_group_checks_witness:
  "\<exists>ws outs. cpu_start (\<lambda>_. True) big_buffer set_example 40 False = Some (Inr ws) \<and>
    cpu_outcomes big_buffer (\<lambda>_. env_example) 0 ws = Some outs \<and> cpu_join big_buffer ws outs True = Some True"
proof -
  have "env_stops 40 env_example" unfolding env_stops_def
    by (intro exI[of _ 2]) (simp add: env_example_def clock_at_def)
  then show ?thesis
    using cpu_group_checks[OF big_buffer(1), of set_example "\<lambda>_. True" 40 "\<lambda>_. env_example" False]
    by (auto simp: big_buffer set_example_def MAX_THREADS_def)
qed

text \<open>\<open>progress_brackets\<close>: \<open>chunks_at\<close> gives no value outside of the samples. Inside, its binary search
  finds two neighbour samples that enclose the time, and it interpolates between these two.\<close>

theorem progress_brackets:
  assumes "2 \<le> length log"
  shows "(chunks_at log t = None \<longleftrightarrow> t < fst (log ! 0) \<or> t > fst (log ! (length log - 1))) \<and>
    (\<forall>y. chunks_at log t = Some y \<longrightarrow>
      (\<exists>k. Suc k < length log \<and> fst (log ! k) \<le> t \<and> t \<le> fst (log ! Suc k) \<and> y = lerp (log ! k) (log ! Suc k) t))"
proof (cases "t < fst (log ! 0) \<or> t > fst (log ! (length log - 1))")
  case False
  obtain a z where s: "log_search log t 0 (length log - 1) = (a, z)" by fastforce
  then have z: "z = Suc a" "Suc a \<le> length log - 1" "fst (log ! a) \<le> t" "t \<le> fst (log ! Suc a)"
    using log_search_result[OF _ _ _ s] assms False by (auto simp: not_less)
  then show ?thesis using False assms s by (auto simp: chunks_at_def intro!: exI[of _ a])
qed (use assms in \<open>auto simp: chunks_at_def\<close>)

theorem progress_brackets_witness:
  "chunks_at [(10, 16), (20, 32), (40, 48)] 25 \<noteq> None \<and> chunks_at [(10, 16), (20, 32), (40, 48)] 5 = None"
  using progress_brackets[of "[(10, 16), (20, 32), (40, 48)]" 25] progress_brackets[of "[(10, 16), (20, 32), (40, 48)]" 5] by simp

end
