(* ===== verification/HostSession.thy ===== *)
theory HostSession
  imports HostCpu "HOL-Library.Multiset"
begin

text \<open>
  The session of the host program \<open>tools/ddrbw/host/ddrbw.c\<close> with the DSP: \<open>dsp_open\<close>, \<open>dsp_setup\<close>,
  \<open>dsp_close\<close>, \<open>nsp_buffer\<close>, \<open>nsp_buffer_free\<close>, the modes \<open>mode_nsp\<close>, \<open>mode_cpu\<close> and
  \<open>mode_both\<close>, and the part of \<open>main\<close> that opens and closes the session.

  The services of FastRPC and rpcmem are the fields of the record \<open>host\<close>. Each of them gives its result and
  the new state \<open>'w\<close> of the world. The record \<open>held\<close> is what the process holds in that state, and
  \<open>host_laws\<close> states how the services change it. The messages are not modelled, and the cache clean
  of \<open>nsp_buffer\<close> changes no value.
\<close>

definition EXIT_USAGE :: nat where "EXIT_USAGE = 1"
definition EXIT_CHECK :: nat where "EXIT_CHECK = 4"

record 'w host =
  h_rpc_load :: "'w \<Rightarrow> i32 \<times> 'w"
  h_unsigned :: "'w \<Rightarrow> i32 \<times> 'w"
  h_open :: "'w \<Rightarrow> i32 \<times> 'w"
  h_latency :: "'w \<Rightarrow> i32 \<times> 'w"
  h_setup :: "u32 \<Rightarrow> 'w \<Rightarrow> i32 \<times> 'w"
  h_query :: "'w \<Rightarrow> i32 \<times> 'w"
  h_close :: "'w \<Rightarrow> i32 \<times> 'w"
  h_alloc :: "nat \<Rightarrow> 'w \<Rightarrow> nat \<times> 'w"
  h_bytes :: "nat \<Rightarrow> 'w \<Rightarrow> mem"
  h_to_fd :: "nat \<Rightarrow> 'w \<Rightarrow> int \<times> 'w"
  h_free :: "nat \<Rightarrow> 'w \<Rightarrow> 'w"
  h_malloc :: "nat \<Rightarrow> 'w \<Rightarrow> (nat \<Rightarrow> u32) option \<times> 'w"
  h_free_pre :: "'w \<Rightarrow> 'w"
  h_mmap :: "int \<Rightarrow> nat \<Rightarrow> nat \<Rightarrow> 'w \<Rightarrow> i32 \<times> 'w"
  h_munmap :: "int \<Rightarrow> nat \<Rightarrow> nat \<Rightarrow> 'w \<Rightarrow> 'w"
  h_map :: "int \<Rightarrow> u32 \<Rightarrow> 'w \<Rightarrow> i32 \<times> 'w"
  h_unmap :: "int \<Rightarrow> 'w \<Rightarrow> i32 \<times> 'w"
  h_anon :: "nat \<Rightarrow> 'w \<Rightarrow> mem option \<times> 'w"
  h_free_anon :: "'w \<Rightarrow> 'w"

subsection \<open>The session\<close>

text \<open>The result, the flag \<open>g_session\<close> and the world.\<close>

definition dsp_open :: "'w host \<Rightarrow> 'w \<Rightarrow> nat \<times> bool \<times> 'w" where
  "dsp_open hs w =
     (let (err, w) = h_rpc_load hs w in
      if err \<noteq> 0 then (EXIT_RPC, False, w)
      else let (err, w) = h_unsigned hs w in
        if err \<noteq> AEE_SUCCESS then (EXIT_RPC, False, w)
        else let (err, w) = h_open hs w in
          if err \<noteq> AEE_SUCCESS then (EXIT_RPC, False, w)
          else let (_, w) = h_latency hs w in (0, True, w))"

definition dsp_setup :: "'w host \<Rightarrow> u32 \<Rightarrow> 'w \<Rightarrow> nat \<times> 'w" where
  "dsp_setup hs votes w =
     (let (err, w) = h_setup hs votes w in (if err \<noteq> AEE_SUCCESS then EXIT_RPC else 0, w))"

definition dsp_close :: "'w host \<Rightarrow> bool \<Rightarrow> 'w \<Rightarrow> bool \<times> 'w" where
  "dsp_close hs session w =
     (if session then let (_, w) = h_query hs w; (_, w) = h_close hs w in (False, w) else (session, w))"

text \<open>The modes that use the DSP, from the check of the votes to the end of \<open>main\<close>.\<close>

definition main_dsp :: "'w host \<Rightarrow> string \<Rightarrow> ('w \<Rightarrow> (nat \<times> 'w) option) \<Rightarrow> 'w \<Rightarrow> (nat \<times> bool \<times> 'w) option" where
  "main_dsp hs votes mode w =
     (case parse_votes votes of
        None \<Rightarrow> Some (EXIT_USAGE, False, w)
      | Some votes_mask \<Rightarrow>
          let (rc, session, w) = dsp_open hs w;
              (rc, w) = (if rc = 0 then dsp_setup hs votes_mask w else (rc, w))
          in Option.bind (if rc = 0 then mode w else Some (rc, w)) (\<lambda>(rc, w).
               let (session, w) = dsp_close hs session w in Some (rc, session, w)))"

subsection \<open>The buffer of the NSP\<close>

text \<open>The address (0 for \<open>NULL\<close>), whether \<open>pre\<close> is allocated, and the buffer.\<close>

record hbuf =
  hb_addr :: nat
  hb_pre :: bool
  hb_buf :: buffer

definition empty_buffer :: "nat \<Rightarrow> buffer" where
  "empty_buffer sz = \<lparr>data = (\<lambda>_. 0), size = sz, pre = (\<lambda>_. 0), fd = -1, mapped = False\<rparr>"

definition empty_hbuf :: "nat \<Rightarrow> hbuf" where
  "empty_hbuf sz = \<lparr>hb_addr = 0, hb_pre = False, hb_buf = empty_buffer sz\<rparr>"

definition mb_bytes :: "options \<Rightarrow> nat" where
  "mb_bytes opt = unat (o_mb opt) * 2 ^ 20"

definition pre_bytes :: "nat \<Rightarrow> nat" where
  "pre_bytes sz = (sz div BLOCK + 1) * 4"

definition nsp_buffer :: "'w host \<Rightarrow> nat \<Rightarrow> 'w \<Rightarrow> nat \<times> hbuf \<times> 'w" where
  "nsp_buffer hs sz w =
     (let (a, w) = h_alloc hs sz w in
      if a = 0 then (EXIT_RPC, empty_hbuf sz, w)
      else let b = (empty_hbuf sz)\<lparr>hb_addr := a, hb_buf := (empty_buffer sz)\<lparr>data := h_bytes hs a w\<rparr>\<rparr>;
               (f, w) = h_to_fd hs a w; b = b\<lparr>hb_buf := (hb_buf b)\<lparr>fd := f\<rparr>\<rparr> in
        if f < 0 then (EXIT_RPC, b, w)
        else let (p, w) = h_malloc hs (pre_bytes sz) w; (r, buf) = fill_buffer p (hb_buf b) 0x5eed;
                 b = b\<lparr>hb_pre := (p \<noteq> None), hb_buf := buf\<rparr> in
          if r \<noteq> 0 then (EXIT_RPC, b, w)
          else let (err, w) = h_mmap hs f a sz w in
            if err \<noteq> 0 then (EXIT_RPC, b, w)
            else let b = b\<lparr>hb_buf := (hb_buf b)\<lparr>mapped := True\<rparr>\<rparr>; (err, w) = h_map hs f (of_nat sz) w in
              (if err \<noteq> AEE_SUCCESS then EXIT_RPC else 0, b, w))"

definition nsp_buffer_free :: "'w host \<Rightarrow> hbuf \<Rightarrow> 'w \<Rightarrow> hbuf \<times> 'w" where
  "nsp_buffer_free hs b w =
     (if hb_addr b = 0 then (b, w)
      else
        let w = (if mapped (hb_buf b)
                 then let (_, w) = h_unmap hs (fd (hb_buf b)) w in h_munmap hs (fd (hb_buf b)) (hb_addr b) (size (hb_buf b)) w
                 else w);
            w = h_free hs (hb_addr b) w;
            w = (if hb_pre b then h_free_pre hs w else w)
        in ((empty_hbuf 0)\<lparr>hb_buf := (empty_buffer 0)\<lparr>fd := 0\<rparr>\<rparr>, w))"

subsection \<open>The mode \<open>nsp\<close>\<close>

text \<open>The order of a repetition: in reverse in each second one.\<close>

definition rep_order :: "nat \<Rightarrow> 'a list \<Rightarrow> 'a list" where
  "rep_order rep xs = map (\<lambda>k. xs ! (if rep mod 2 \<noteq> 0 then k else length xs - 1 - k)) [0..<length xs]"

fun nsp_sweep ::
  "(nsp_cfg \<Rightarrow> 'w \<Rightarrow> ((nat \<times> nsp_result) \<times> 'w) option) \<Rightarrow> nsp_cfg list \<Rightarrow> bool \<Rightarrow> 'w \<Rightarrow> ((nat \<times> bool) \<times> 'w) option" where
  "nsp_sweep run [] bad w = Some ((0, bad), w)"
| "nsp_sweep run (c # cs) bad w =
     Option.bind (run c w) (\<lambda>((rc, r), w).
       if rc \<noteq> 0 then Some ((rc, bad), w) else nsp_sweep run cs (bad \<or> \<not> n_check_ok r) w)"

fun nsp_reps ::
  "(nsp_cfg \<Rightarrow> 'w \<Rightarrow> ((nat \<times> nsp_result) \<times> 'w) option) \<Rightarrow> nsp_cfg list \<Rightarrow> nat \<Rightarrow> nat \<Rightarrow> bool \<Rightarrow> 'w \<Rightarrow> ((nat \<times> bool) \<times> 'w) option" where
  "nsp_reps run cfgs rep 0 bad w = Some ((0, bad), w)"
| "nsp_reps run cfgs rep (Suc n) bad w =
     Option.bind (nsp_sweep run (rep_order rep cfgs) bad w) (\<lambda>((rc, bad), w).
       if rc \<noteq> 0 then Some ((rc, bad), w) else nsp_reps run cfgs (Suc rep) n bad w)"

definition mode_nsp ::
  "'w host \<Rightarrow> (buffer \<Rightarrow> nsp_cfg \<Rightarrow> u32 \<Rightarrow> 'w \<Rightarrow> ((nat \<times> nsp_result) \<times> 'w) option) \<Rightarrow> options \<Rightarrow> 'w \<Rightarrow> (nat \<times> 'w) option" where
  "mode_nsp hs run opt w =
     (case parse_cfgs (plan_list (o_plan opt)) 64 of
        None \<Rightarrow> Some (EXIT_USAGE, w)
      | Some cfgs \<Rightarrow>
          if cfgs = [] then Some (EXIT_USAGE, w)
          else
            let (rc, b, w) = nsp_buffer hs (mb_bytes opt) w in
            if rc \<noteq> 0 then Some (rc, snd (nsp_buffer_free hs b w))
            else Option.bind (nsp_reps (\<lambda>c. run (hb_buf b) c (o_budget_ms opt)) cfgs 1 (unat (o_reps opt)) False w)
                   (\<lambda>((rc, bad), w). Some (if rc \<noteq> 0 then rc else if bad then EXIT_CHECK else 0, snd (nsp_buffer_free hs b w))))"

subsection \<open>The modes \<open>cpu\<close> and \<open>both\<close>\<close>

text \<open>\<^const>\<open>None\<close> is a buffer without memory, thus there is nothing to free. The flag tells if \<open>pre\<close> is allocated.\<close>

definition cpu_buffer :: "'w host \<Rightarrow> nat \<Rightarrow> 'w \<Rightarrow> nat \<times> (bool \<times> buffer) option \<times> 'w" where
  "cpu_buffer hs sz w =
     (let (m, w) = h_anon hs sz w in
      case m of
        None \<Rightarrow> (EXIT_RPC, None, w)
      | Some m \<Rightarrow>
          let (p, w) = h_malloc hs (pre_bytes sz) w; (r, b) = fill_buffer p ((empty_buffer sz)\<lparr>data := m\<rparr>) 0xc0ffee
          in (if r = 0 then 0 else EXIT_RPC, Some (p \<noteq> None, b), w))"

definition cpu_buffer_free :: "'w host \<Rightarrow> (bool \<times> buffer) option \<Rightarrow> 'w \<Rightarrow> 'w" where
  "cpu_buffer_free hs b w =
     (case b of None \<Rightarrow> w | Some (p, _) \<Rightarrow> let w = h_free_anon hs w in if p then h_free_pre hs w else w)"

text \<open>
  One set: \<open>start\<close> is \<open>cpu_start\<close> (\<^const>\<open>False\<close> for its -1) and \<open>join\<close> is \<open>cpu_join\<close> with the outcomes of
  the threads.
\<close>

fun cpu_sweep ::
  "(core_set \<Rightarrow> bool \<Rightarrow> 'w \<Rightarrow> bool \<times> 'w) \<Rightarrow> ('w \<Rightarrow> ((bool \<times> cpu_outcome list) \<times> 'w) option) \<Rightarrow> core_set list \<Rightarrow> bool \<Rightarrow> 'w
    \<Rightarrow> ((nat \<times> bool) \<times> 'w) option" where
  "cpu_sweep start join [] bad w = Some ((0, bad), w)"
| "cpu_sweep start join (s # ss) bad w =
     (let (started, w) = start s False w in
      if \<not> started then Some ((EXIT_RPC, bad), w)
      else Option.bind (join w) (\<lambda>((ok, outs), w). cpu_sweep start join ss (bad \<or> \<not> ok) w))"

fun cpu_reps ::
  "(core_set \<Rightarrow> bool \<Rightarrow> 'w \<Rightarrow> bool \<times> 'w) \<Rightarrow> ('w \<Rightarrow> ((bool \<times> cpu_outcome list) \<times> 'w) option) \<Rightarrow> core_set list \<Rightarrow> nat \<Rightarrow> nat \<Rightarrow> bool \<Rightarrow> 'w
    \<Rightarrow> ((nat \<times> bool) \<times> 'w) option" where
  "cpu_reps start join sets rep 0 bad w = Some ((0, bad), w)"
| "cpu_reps start join sets rep (Suc n) bad w =
     Option.bind (cpu_sweep start join (rep_order rep sets) bad w) (\<lambda>((rc, bad), w).
       if rc \<noteq> 0 then Some ((rc, bad), w) else cpu_reps start join sets (Suc rep) n bad w)"

definition mode_cpu ::
  "'w host \<Rightarrow> (buffer \<Rightarrow> core_set \<Rightarrow> bool \<Rightarrow> 'w \<Rightarrow> bool \<times> 'w) \<Rightarrow> (buffer \<Rightarrow> 'w \<Rightarrow> ((bool \<times> cpu_outcome list) \<times> 'w) option) \<Rightarrow> options \<Rightarrow> 'w
    \<Rightarrow> (nat \<times> 'w) option" where
  "mode_cpu hs start join opt w =
     (case parse_sets (o_sets opt) MAX_SETS of
        None \<Rightarrow> Some (EXIT_USAGE, w)
      | Some sets \<Rightarrow>
          if sets = [] then Some (EXIT_USAGE, w)
          else let (rc, b, w) = cpu_buffer hs (mb_bytes opt) w in
            if rc \<noteq> 0 then Some (rc, cpu_buffer_free hs b w)
            else let buf = snd (the b) in
              Option.bind (cpu_reps (start buf) (join buf) sets 1 (unat (o_reps opt)) False w)
                (\<lambda>((rc, bad), w). Some (if rc \<noteq> 0 then rc else if bad then EXIT_CHECK else 0, cpu_buffer_free hs b w)))"

text \<open>The chunks of the CPU threads in the window of the NSP run: the sum, and whether each log covers the window.\<close>

definition window_step :: "u64 \<Rightarrow> u64 \<Rightarrow> cpu_outcome \<Rightarrow> fp \<times> bool \<Rightarrow> fp \<times> bool" where
  "window_step tg tz out st =
     (case (chunks_at (co_log out) tg, chunks_at (co_log out) tz) of
        (Some a, Some z) \<Rightarrow> (fp_add F64 (fst st) (fp_sub F64 z a), snd st)
      | _ \<Rightarrow> (fst st, False))"

record both_line =
  bl_cpu_gbs :: fp
  bl_clock_ok :: bool
  bl_window_ok :: bool
  bl_ok :: bool

definition both_report :: "u64 \<Rightarrow> nsp_result \<Rightarrow> nsp_result \<Rightarrow> cpu_outcome list \<Rightarrow> bool \<Rightarrow> u64 \<Rightarrow> u64 \<Rightarrow> both_line" where
  "both_report cntfrq na nt outs ok h0 h1 =
     (let (chunks, window_ok) = fold (window_step (n_t_go nt) (n_t_end nt)) outs (f64_0, True);
          win = ticks_to_s cntfrq (n_t_end nt - n_t_go nt)
      in \<lparr>bl_cpu_gbs = (if window_ok \<and> fp_less f64_0 win
            then fp_div F64 (fp_div F64 (fp_mul F64 chunks (fp_of_int F64 (int CPU_CHUNK))) win) f64_1e9 else f64_0),
          bl_clock_ok = (n_status nt = DDRBW_OK \<and> h0 \<le> n_t_go nt \<and> n_t_go nt < n_t_end nt \<and> n_t_end nt \<le> h1),
          bl_window_ok = window_ok, bl_ok = (ok \<and> n_check_ok na \<and> n_check_ok nt)\<rparr>)"

text \<open>
  The body of the loops of \<open>mode_both\<close>: the NSP alone, the CPU alone, then both at the same time. The
  threads join also when the last NSP run failed.
\<close>

definition both_step ::
  "(nsp_cfg \<Rightarrow> 'w \<Rightarrow> ((nat \<times> nsp_result) \<times> 'w) option) \<Rightarrow> (core_set \<Rightarrow> bool \<Rightarrow> 'w \<Rightarrow> bool \<times> 'w)
    \<Rightarrow> ('w \<Rightarrow> ((bool \<times> cpu_outcome list) \<times> 'w) option) \<Rightarrow> ('w \<Rightarrow> u64) \<Rightarrow> u64 \<Rightarrow> nsp_cfg \<Rightarrow> core_set \<Rightarrow> 'w
    \<Rightarrow> ((nat \<times> both_line option) \<times> 'w) option" where
  "both_step run start join clock cntfrq c s w =
     Option.bind (run c w) (\<lambda>((rc, na), w).
       if rc \<noteq> 0 then Some ((rc, None), w)
       else let (started, w) = start s False w in
         if \<not> started then Some ((EXIT_RPC, None), w)
         else Option.bind (join w) (\<lambda>((ok1, outs1), w).
           let (started, w) = start s True w in
           if \<not> started then Some ((EXIT_RPC, None), w)
           else let h0 = clock w in
             Option.bind (run c w) (\<lambda>((rc, nt), w).
               let h1 = clock w in
               Option.bind (join w) (\<lambda>((ok2, outs2), w).
                 if rc \<noteq> 0 then Some ((rc, None), w)
                 else Some ((0, Some (both_report cntfrq na nt outs2 (ok2 \<and> ok1) h0 h1)), w)))))"

fun both_sweep ::
  "(nsp_cfg \<Rightarrow> core_set \<Rightarrow> 'w \<Rightarrow> ((nat \<times> both_line option) \<times> 'w) option) \<Rightarrow> (nsp_cfg \<times> core_set) list \<Rightarrow> bool \<Rightarrow> 'w
    \<Rightarrow> ((nat \<times> bool) \<times> 'w) option" where
  "both_sweep step [] bad w = Some ((0, bad), w)"
| "both_sweep step (p # ps) bad w =
     Option.bind (step (fst p) (snd p) w) (\<lambda>((rc, l), w).
       if rc \<noteq> 0 then Some ((rc, bad), w)
       else both_sweep step ps (bad \<or> (case l of None \<Rightarrow> False | Some l \<Rightarrow> \<not> bl_ok l)) w)"

definition both_pairs :: "nat \<Rightarrow> 'a list \<Rightarrow> 'b list \<Rightarrow> ('a \<times> 'b) list" where
  "both_pairs rep cs ss = List.product (rep_order rep cs) (rep_order rep ss)"

fun both_reps ::
  "(nsp_cfg \<Rightarrow> core_set \<Rightarrow> 'w \<Rightarrow> ((nat \<times> both_line option) \<times> 'w) option) \<Rightarrow> nsp_cfg list \<Rightarrow> core_set list \<Rightarrow> nat \<Rightarrow> nat \<Rightarrow> bool \<Rightarrow> 'w
    \<Rightarrow> ((nat \<times> bool) \<times> 'w) option" where
  "both_reps step cs ss rep 0 bad w = Some ((0, bad), w)"
| "both_reps step cs ss rep (Suc n) bad w =
     Option.bind (both_sweep step (both_pairs rep cs ss) bad w) (\<lambda>((rc, bad), w).
       if rc \<noteq> 0 then Some ((rc, bad), w) else both_reps step cs ss (Suc rep) n bad w)"

text \<open>\<open>logs_ok\<close>: the result of the allocation of the progress logs, which the mode frees at its end.\<close>

definition mode_both ::
  "'w host \<Rightarrow> (buffer \<Rightarrow> nsp_cfg \<Rightarrow> u32 \<Rightarrow> 'w \<Rightarrow> ((nat \<times> nsp_result) \<times> 'w) option) \<Rightarrow> (buffer \<Rightarrow> core_set \<Rightarrow> bool \<Rightarrow> 'w \<Rightarrow> bool \<times> 'w)
    \<Rightarrow> (buffer \<Rightarrow> 'w \<Rightarrow> ((bool \<times> cpu_outcome list) \<times> 'w) option) \<Rightarrow> ('w \<Rightarrow> u64) \<Rightarrow> u64 \<Rightarrow> bool \<Rightarrow> options \<Rightarrow> 'w \<Rightarrow> (nat \<times> 'w) option" where
  "mode_both hs run start join clock cntfrq logs_ok opt w =
     (case (parse_cfgs (o_cfgs opt) 64, parse_sets (o_sets opt) MAX_SETS) of
        (Some cs, Some ss) \<Rightarrow>
          if cs = [] \<or> ss = [] then Some (EXIT_USAGE, w)
          else
            let sz = mb_bytes opt;
                (rc, nb, w) = nsp_buffer hs sz w;
                (rc, cb, w) = (if rc = 0 then cpu_buffer hs sz w else (rc, None, w));
                rc = (if \<not> logs_ok \<and> rc = 0 then EXIT_RPC else rc)
            in Option.bind
                 (if rc \<noteq> 0 then Some ((rc, False), w)
                  else both_reps (both_step (\<lambda>c. run (hb_buf nb) c (o_budget_ms opt)) (start (snd (the cb))) (join (snd (the cb))) clock cntfrq)
                         cs ss 1 (unat (o_reps opt)) False w)
                 (\<lambda>((rc, bad), w). Some (if rc \<noteq> 0 then rc else if bad then EXIT_CHECK else 0,
                    snd (nsp_buffer_free hs nb (cpu_buffer_free hs cb w))))
      | _ \<Rightarrow> Some (EXIT_USAGE, w))"

subsection \<open>What the process holds\<close>

record held =
  hd_sessions :: nat
  hd_mem :: "nat multiset"
  hd_pre :: nat
  hd_anon :: nat
  hd_mmaps :: "int multiset"
  hd_maps :: "int set"

text \<open>
  The documented effect of each service: an allocation, a mapping or a session exists after a call that
  succeeds, and it is gone after the matching release. The other calls hold nothing.
\<close>

definition host_laws :: "'w host \<Rightarrow> ('w \<Rightarrow> held) \<Rightarrow> bool" where
  "host_laws hs held \<longleftrightarrow>
     (\<forall>w. held (snd (h_rpc_load hs w)) = held w \<and> held (snd (h_unsigned hs w)) = held w \<and> held (snd (h_latency hs w)) = held w \<and>
        (\<forall>v. held (snd (h_setup hs v w)) = held w) \<and> held (snd (h_query hs w)) = held w \<and>
        (\<forall>a. held (snd (h_to_fd hs a w)) = held w) \<and>
        held (snd (h_open hs w)) = (if fst (h_open hs w) = AEE_SUCCESS then (held w)\<lparr>hd_sessions := hd_sessions (held w) + 1\<rparr> else held w) \<and>
        held (snd (h_close hs w)) = (held w)\<lparr>hd_sessions := hd_sessions (held w) - 1\<rparr> \<and>
        (\<forall>n. held (snd (h_alloc hs n w)) = (if fst (h_alloc hs n w) = 0 then held w
               else (held w)\<lparr>hd_mem := add_mset (fst (h_alloc hs n w)) (hd_mem (held w))\<rparr>)) \<and>
        (\<forall>a. held (h_free hs a w) = (held w)\<lparr>hd_mem := hd_mem (held w) - {#a#}\<rparr>) \<and>
        (\<forall>n. held (snd (h_malloc hs n w)) = (if fst (h_malloc hs n w) = None then held w else (held w)\<lparr>hd_pre := hd_pre (held w) + 1\<rparr>)) \<and>
        held (h_free_pre hs w) = (held w)\<lparr>hd_pre := hd_pre (held w) - 1\<rparr> \<and>
        (\<forall>n. held (snd (h_anon hs n w)) = (if fst (h_anon hs n w) = None then held w else (held w)\<lparr>hd_anon := hd_anon (held w) + 1\<rparr>)) \<and>
        held (h_free_anon hs w) = (held w)\<lparr>hd_anon := hd_anon (held w) - 1\<rparr> \<and>
        (\<forall>f a n. held (snd (h_mmap hs f a n w)) = (if fst (h_mmap hs f a n w) = 0 then (held w)\<lparr>hd_mmaps := add_mset f (hd_mmaps (held w))\<rparr> else held w)) \<and>
        (\<forall>f a n. held (h_munmap hs f a n w) = (held w)\<lparr>hd_mmaps := hd_mmaps (held w) - {#f#}\<rparr>) \<and>
        (\<forall>f n. held (snd (h_map hs f n w)) = (if fst (h_map hs f n w) = AEE_SUCCESS then (held w)\<lparr>hd_maps := insert f (hd_maps (held w))\<rparr> else held w)) \<and>
        (\<forall>f. held (snd (h_unmap hs f w)) = (held w)\<lparr>hd_maps := hd_maps (held w) - {f}\<rparr>))"

lemma held_laws:
  assumes "host_laws hs held"
  shows "held (snd (h_rpc_load hs w)) = held w" "held (snd (h_unsigned hs w)) = held w" "held (snd (h_latency hs w)) = held w"
    "held (snd (h_setup hs v w)) = held w" "held (snd (h_query hs w)) = held w" "held (snd (h_to_fd hs a w)) = held w"
    "held (snd (h_open hs w)) = (if fst (h_open hs w) = AEE_SUCCESS then (held w)\<lparr>hd_sessions := hd_sessions (held w) + 1\<rparr> else held w)"
    "held (snd (h_close hs w)) = (held w)\<lparr>hd_sessions := hd_sessions (held w) - 1\<rparr>"
    "held (snd (h_alloc hs n w)) = (if fst (h_alloc hs n w) = 0 then held w
       else (held w)\<lparr>hd_mem := add_mset (fst (h_alloc hs n w)) (hd_mem (held w))\<rparr>)"
    "held (h_free hs a w) = (held w)\<lparr>hd_mem := hd_mem (held w) - {#a#}\<rparr>"
    "held (snd (h_malloc hs n w)) = (if fst (h_malloc hs n w) = None then held w else (held w)\<lparr>hd_pre := hd_pre (held w) + 1\<rparr>)"
    "held (h_free_pre hs w) = (held w)\<lparr>hd_pre := hd_pre (held w) - 1\<rparr>"
    "held (snd (h_anon hs n w)) = (if fst (h_anon hs n w) = None then held w else (held w)\<lparr>hd_anon := hd_anon (held w) + 1\<rparr>)"
    "held (h_free_anon hs w) = (held w)\<lparr>hd_anon := hd_anon (held w) - 1\<rparr>"
    "held (snd (h_mmap hs f a n w)) = (if fst (h_mmap hs f a n w) = 0 then (held w)\<lparr>hd_mmaps := add_mset f (hd_mmaps (held w))\<rparr> else held w)"
    "held (h_munmap hs f a n w) = (held w)\<lparr>hd_mmaps := hd_mmaps (held w) - {#f#}\<rparr>"
    "held (snd (h_map hs f sz w)) = (if fst (h_map hs f sz w) = AEE_SUCCESS then (held w)\<lparr>hd_maps := insert f (hd_maps (held w))\<rparr> else held w)"
    "held (snd (h_unmap hs f w)) = (held w)\<lparr>hd_maps := hd_maps (held w) - {f}\<rparr>"
  using assms unfolding host_laws_def by blast+

subsection \<open>The buffer is released on each path\<close>

text \<open>What a buffer of \<open>nsp_buffer\<close> holds, with or without success.\<close>

definition buffer_held :: "hbuf \<Rightarrow> held \<Rightarrow> held \<Rightarrow> bool" where
  "buffer_held b h h' \<longleftrightarrow>
     (if hb_addr b = 0 then h' = h
      else \<exists>maps. maps \<subseteq> hd_maps h \<union> {fd (hb_buf b)} \<and> hd_maps h - {fd (hb_buf b)} \<subseteq> maps \<and>
         (\<not> mapped (hb_buf b) \<longrightarrow> maps = hd_maps h) \<and>
         h' = h\<lparr>hd_mem := add_mset (hb_addr b) (hd_mem h), hd_pre := hd_pre h + (if hb_pre b then 1 else 0),
           hd_mmaps := (if mapped (hb_buf b) then add_mset (fd (hb_buf b)) (hd_mmaps h) else hd_mmaps h), hd_maps := maps\<rparr>)"

lemma fill_buffer_fields:
  assumes "fill_buffer p b sd = (r, b')"
  shows "fd b' = fd b" "mapped b' = mapped b" "size b' = size b" "r = 0 \<longleftrightarrow> p \<noteq> None" "r = 0 \<Longrightarrow> prefix_ok b'"
proof -
  have "fd b' = fd b \<and> mapped b' = mapped b \<and> size b' = size b \<and> (r = 0 \<longleftrightarrow> p \<noteq> None) \<and> (r = 0 \<longrightarrow> prefix_ok b')"
  proof (cases p)
    case None
    then show ?thesis using assms by (auto simp: fill_buffer_def)
  next
    case (Some p0)
    then show ?thesis using fill_buffer_cases[of p0 b sd r b'] assms by simp
  qed
  then show "fd b' = fd b" "mapped b' = mapped b" "size b' = size b" "r = 0 \<longleftrightarrow> p \<noteq> None" "r = 0 \<Longrightarrow> prefix_ok b'" by blast+
qed

lemma nsp_buffer_held:
  assumes laws: "host_laws hs held" and r: "nsp_buffer hs sz w = (rc, b, w')"
  shows "buffer_held b (held w) (held w') \<and>
    (rc = 0 \<longrightarrow> prefix_ok (hb_buf b) \<and> size (hb_buf b) = sz \<and> mapped (hb_buf b) \<and> hb_addr b \<noteq> 0 \<and> fd (hb_buf b) \<in> hd_maps (held w'))"
proof -
  note L = held_laws[OF laws]
  obtain a w1 where al: "h_alloc hs sz w = (a, w1)" by fastforce
  have h1: "held w1 = (if a = 0 then held w else (held w)\<lparr>hd_mem := add_mset a (hd_mem (held w))\<rparr>)"
    using L(9)[where n = sz and w = w] by (simp add: al)
  show ?thesis
  proof (cases "a = 0")
    case True
    then have "b = empty_hbuf sz" "w' = w1" "rc = EXIT_RPC" "held w1 = held w" using r h1 by (simp_all add: nsp_buffer_def al)
    then show ?thesis by (simp add: buffer_held_def empty_hbuf_def EXIT_RPC_def)
  next
    case a: False
    obtain f w2 where f: "h_to_fd hs a w1 = (f, w2)" by fastforce
    have h2: "held w2 = held w1" using L(6)[where a = a and w = w1] by (simp add: f)
    obtain p w3 where p: "h_malloc hs (pre_bytes sz) w2 = (p, w3)" by fastforce
    have h3: "held w3 = (if p = None then held w2 else (held w2)\<lparr>hd_pre := hd_pre (held w2) + 1\<rparr>)"
      using L(11)[where n = "pre_bytes sz" and w = w2] unfolding p by simp
    let ?buf0 = "(empty_buffer sz)\<lparr>data := h_bytes hs a w1, fd := f\<rparr>"
    obtain r1 buf where fb: "fill_buffer p ?buf0 0x5eed = (r1, buf)" by fastforce
    note F = fill_buffer_fields[OF fb]
    obtain e4 w4 where m4: "h_mmap hs f a sz w3 = (e4, w4)" by fastforce
    have h4: "held w4 = (if e4 = 0 then (held w3)\<lparr>hd_mmaps := add_mset f (hd_mmaps (held w3))\<rparr> else held w3)"
      using L(15)[where f = f and a = a and n = sz and w = w3] by (simp add: m4)
    obtain e5 w5 where m5: "h_map hs f (of_nat sz) w4 = (e5, w5)" by fastforce
    have h5: "held w5 = (if e5 = AEE_SUCCESS then (held w4)\<lparr>hd_maps := insert f (hd_maps (held w4))\<rparr> else held w4)"
      using L(17)[where f = f and sz = "of_nat sz" and w = w4] by (simp add: m5)
    have flds: "fd buf = f" "mapped buf = False" "size buf = sz" using F by (simp_all add: empty_buffer_def)
    let ?b = "\<lambda>q bf. \<lparr>hb_addr = a, hb_pre = q, hb_buf = bf\<rparr>"
    have run: "nsp_buffer hs sz w =
      (if f < 0 then (EXIT_RPC, ?b False ?buf0, w2) else if r1 \<noteq> 0 then (EXIT_RPC, ?b (p \<noteq> None) buf, w3)
       else if e4 \<noteq> 0 then (EXIT_RPC, ?b (p \<noteq> None) buf, w4)
       else (if e5 \<noteq> AEE_SUCCESS then EXIT_RPC else 0, ?b (p \<noteq> None) (buf\<lparr>mapped := True\<rparr>), w5))"
      using a by (simp add: nsp_buffer_def al f p fb m4 m5 empty_hbuf_def Let_def)
    consider "f < 0" | "\<not> f < 0" "r1 \<noteq> 0" | "\<not> f < 0" "r1 = 0" "e4 \<noteq> 0" | "\<not> f < 0" "r1 = 0" "e4 = 0" by blast
    then show ?thesis
    proof cases
      case 1
      then have "b = ?b False ?buf0" "w' = w2" "rc = EXIT_RPC" using r unfolding run by simp_all
      then show ?thesis using a h1 h2 by (auto simp: buffer_held_def empty_buffer_def EXIT_RPC_def)
    next
      case 2
      then have "b = ?b (p \<noteq> None) buf" "w' = w3" "rc = EXIT_RPC" using r unfolding run by simp_all
      moreover have "p = None" using 2 F(4) by simp
      ultimately show ?thesis using a h1 h2 h3 flds by (auto simp: buffer_held_def EXIT_RPC_def)
    next
      case 3
      then have "b = ?b (p \<noteq> None) buf" "w' = w4" "rc = EXIT_RPC" using r unfolding run by simp_all
      moreover have "p \<noteq> None" using 3 F(4) by simp
      ultimately show ?thesis using a h1 h2 h3 h4 3 flds by (auto simp: buffer_held_def EXIT_RPC_def)
    next
      case 4
      then have b: "b = ?b (p \<noteq> None) (buf\<lparr>mapped := True\<rparr>)" "w' = w5" "rc = (if e5 \<noteq> AEE_SUCCESS then EXIT_RPC else 0)"
        using r unfolding run by simp_all
      have p: "p \<noteq> None" "prefix_ok (buf\<lparr>mapped := True\<rparr>)" using 4 F(4,5) by (simp_all add: prefix_ok_def)
      let ?maps = "if e5 = AEE_SUCCESS then insert f (hd_maps (held w)) else hd_maps (held w)"
      have h: "held w5 = (held w)\<lparr>hd_mem := add_mset a (hd_mem (held w)), hd_pre := hd_pre (held w) + 1,
          hd_mmaps := add_mset f (hd_mmaps (held w)), hd_maps := ?maps\<rparr>"
        using a h1 h2 h3 h4 h5 4 p(1) by simp
      have "?maps \<subseteq> hd_maps (held w) \<union> {f}" "hd_maps (held w) - {f} \<subseteq> ?maps" by auto
      then have "buffer_held b (held w) (held w')"
        unfolding buffer_held_def b(1,2) h hbuf.simps buffer.simps flds(1) if_not_P[OF a]
        by (intro exI[of _ ?maps] conjI) (use p(1) flds(1) in auto)
      moreover have "fd buf \<in> hd_maps (held w5)" if "e5 = AEE_SUCCESS" using h5 that flds by simp
      ultimately show ?thesis using b a flds p(2) by (simp add: EXIT_RPC_def split: if_splits)
    qed
  qed
qed

lemma nsp_buffer_ok:
  assumes r: "nsp_buffer hs sz w = (0, b, w')"
  shows "prefix_ok (hb_buf b) \<and> size (hb_buf b) = sz \<and> fd (hb_buf b) \<ge> 0"
proof -
  obtain a w1 where al: "h_alloc hs sz w = (a, w1)" by fastforce
  obtain f w2 where f: "h_to_fd hs a w1 = (f, w2)" by fastforce
  obtain p w3 where p: "h_malloc hs (pre_bytes sz) w2 = (p, w3)" by fastforce
  obtain r1 buf where fb: "fill_buffer p ((empty_buffer sz)\<lparr>data := h_bytes hs a w1, fd := f\<rparr>) 0x5eed = (r1, buf)" by fastforce
  obtain e4 w4 where m4: "h_mmap hs f a sz w3 = (e4, w4)" by fastforce
  obtain e5 w5 where m5: "h_map hs f (of_nat sz) w4 = (e5, w5)" by fastforce
  have "r1 = 0" "f \<ge> 0" "hb_buf b = buf\<lparr>mapped := True\<rparr>"
    using r by (auto simp: nsp_buffer_def al f p fb m4 m5 empty_hbuf_def EXIT_RPC_def Let_def split: if_splits)
  then show ?thesis using fill_buffer_fields[OF fb] by (simp add: prefix_ok_def empty_buffer_def)
qed

lemma nsp_buffer_free_held:
  assumes laws: "host_laws hs held" and b: "buffer_held b h (held w)" and none: "hd_maps h = {}"
  shows "held (snd (nsp_buffer_free hs b w)) = h"
proof (cases "hb_addr b = 0")
  case True
  then show ?thesis using b by (simp add: nsp_buffer_free_def buffer_held_def)
next
  case False
  note L = held_laws[OF laws]
  let ?f = "fd (hb_buf b)"
  obtain maps where maps: "maps \<subseteq> {?f}" "\<not> mapped (hb_buf b) \<longrightarrow> maps = {}"
    and h: "held w = h\<lparr>hd_mem := add_mset (hb_addr b) (hd_mem h), hd_pre := hd_pre h + (if hb_pre b then 1 else 0),
           hd_mmaps := (if mapped (hb_buf b) then add_mset ?f (hd_mmaps h) else hd_mmaps h), hd_maps := maps\<rparr>"
    using b False none unfolding buffer_held_def by auto
  obtain e w1 where u: "h_unmap hs ?f w = (e, w1)" by fastforce
  define w2 where "w2 = (if mapped (hb_buf b) then h_munmap hs ?f (hb_addr b) (size (hb_buf b)) w1 else w)"
  have w1: "held w1 = (held w)\<lparr>hd_maps := hd_maps (held w) - {?f}\<rparr>" using L(18)[where f = ?f and w = w] by (simp add: u)
  have w2: "held w2 = h\<lparr>hd_mem := add_mset (hb_addr b) (hd_mem h), hd_pre := hd_pre h + (if hb_pre b then 1 else 0)\<rparr>"
    using maps none by (simp add: w2_def L(16) w1 h)
  have "snd (nsp_buffer_free hs b w) = (if hb_pre b then h_free_pre hs (h_free hs (hb_addr b) w2) else h_free hs (hb_addr b) w2)"
    using False by (simp add: nsp_buffer_free_def u w2_def)
  then show ?thesis by (simp add: L(10,12) w2)
qed

lemma cpu_buffer_held:
  assumes laws: "host_laws hs held" and r: "cpu_buffer hs sz w = (rc, b, w')"
  shows "held v = held w' \<Longrightarrow> held (cpu_buffer_free hs b v) = held w"
    "rc = 0 \<Longrightarrow> \<exists>q buf. b = Some (q, buf) \<and> prefix_ok buf \<and> size buf = sz"
proof -
  note L = held_laws[OF laws]
  obtain m w1 where m: "h_anon hs sz w = (m, w1)" by fastforce
  have h1: "held w1 = (if m = None then held w else (held w)\<lparr>hd_anon := hd_anon (held w) + 1\<rparr>)"
    using L(13)[where n = sz and w = w] unfolding m by simp
  obtain p w2 where p: "h_malloc hs (pre_bytes sz) w1 = (p, w2)" by fastforce
  have h2: "held w2 = (if p = None then held w1 else (held w1)\<lparr>hd_pre := hd_pre (held w1) + 1\<rparr>)"
    using L(11)[where n = "pre_bytes sz" and w = w1] unfolding p by simp
  obtain r1 buf where fb: "fill_buffer p ((empty_buffer sz)\<lparr>data := the m\<rparr>) 0xc0ffee = (r1, buf)" by fastforce
  have run: "(rc, b, w') = (if m = None then (EXIT_RPC, None, w1) else (if r1 = 0 then 0 else EXIT_RPC, Some (p \<noteq> None, buf), w2))"
    using r fb by (cases m) (simp_all add: cpu_buffer_def m p)
  show "held (cpu_buffer_free hs b v) = held w" if "held v = held w'"
    using run that h1 h2 by (simp add: cpu_buffer_free_def L(12,14) split: if_splits)
  show "\<exists>q buf. b = Some (q, buf) \<and> prefix_ok buf \<and> size buf = sz" if "rc = 0"
    using run that fill_buffer_fields[OF fb] by (simp add: EXIT_RPC_def empty_buffer_def split: if_splits)
qed

subsection \<open>The modes release what they hold\<close>

definition run_keeps :: "('w \<Rightarrow> held) \<Rightarrow> ('w \<Rightarrow> ('r \<times> 'w) option) \<Rightarrow> bool" where
  "run_keeps held f \<longleftrightarrow> (\<forall>w r w'. f w = Some (r, w') \<longrightarrow> held w' = held w)"

lemma run_keepsD: "run_keeps held f \<Longrightarrow> f w = Some (r, w') \<Longrightarrow> held w' = held w"
  by (auto simp: run_keeps_def)

lemma nsp_sweep_keeps: "(\<And>c. run_keeps held (run c)) \<Longrightarrow> run_keeps held (nsp_sweep run cs bad)"
proof (induction cs arbitrary: bad)
  case (Cons c cs)
  show ?case unfolding run_keeps_def
  proof (intro allI impI)
    fix w r w' assume "nsp_sweep run (c # cs) bad w = Some (r, w')"
    then obtain rc res w1 where 1: "run c w = Some ((rc, res), w1)"
      "(if rc \<noteq> 0 then Some ((rc, bad), w1) else nsp_sweep run cs (bad \<or> \<not> n_check_ok res) w1) = Some (r, w')"
      by (auto simp: bind_eq_Some_conv)
    have "held w1 = held w" using run_keepsD[OF Cons.prems 1(1)] .
    then show "held w' = held w" using 1(2) run_keepsD[OF Cons.IH[OF Cons.prems]] by (auto split: if_splits)
  qed
qed (simp add: run_keeps_def)

lemma nsp_reps_keeps: "(\<And>c. run_keeps held (run c)) \<Longrightarrow> run_keeps held (nsp_reps run cfgs rep n bad)"
proof (induction n arbitrary: rep bad)
  case (Suc n)
  show ?case unfolding run_keeps_def
  proof (intro allI impI)
    fix w r w' assume "nsp_reps run cfgs rep (Suc n) bad w = Some (r, w')"
    then obtain rc bd w1 where 1: "nsp_sweep run (rep_order rep cfgs) bad w = Some ((rc, bd), w1)"
      "(if rc \<noteq> 0 then Some ((rc, bd), w1) else nsp_reps run cfgs (Suc rep) n bd w1) = Some (r, w')"
      by (auto simp: bind_eq_Some_conv)
    have "held w1 = held w" using run_keepsD[OF nsp_sweep_keeps[OF Suc.prems] 1(1)] .
    then show "held w' = held w" using 1(2) run_keepsD[OF Suc.IH[OF Suc.prems]] by (auto split: if_splits)
  qed
qed (simp add: run_keeps_def)

lemma mode_nsp_held:
  assumes laws: "host_laws hs held" and run: "\<And>b c ms. run_keeps held (run b c ms)" and none: "hd_maps (held w) = {}"
    and r: "mode_nsp hs run opt w = Some (rc, w')"
  shows "held w' = held w"
proof -
  have "mode_nsp hs run opt w = Some (EXIT_USAGE, w) \<or> (\<exists>cfgs. parse_cfgs (plan_list (o_plan opt)) 64 = Some cfgs \<and> cfgs \<noteq> [])"
    by (cases "parse_cfgs (plan_list (o_plan opt)) 64") (auto simp: mode_nsp_def)
  then consider (usage) "mode_nsp hs run opt w = Some (EXIT_USAGE, w)"
    | (run) cfgs where "parse_cfgs (plan_list (o_plan opt)) 64 = Some cfgs" "cfgs \<noteq> []" by blast
  then show ?thesis
  proof cases
    case usage
    then show ?thesis using r by simp
  next
    case (run cfgs)
    obtain rc1 b w1 where b: "nsp_buffer hs (mb_bytes opt) w = (rc1, b, w1)" by (metis prod_cases3)
    note held_b = nsp_buffer_held[OF laws b, THEN conjunct1]
    show ?thesis
    proof (cases "rc1 = 0")
      case False
      then have "w' = snd (nsp_buffer_free hs b w1)" using r run by (simp add: mode_nsp_def b)
      then show ?thesis using nsp_buffer_free_held[OF laws held_b none] by simp
    next
      case True
      obtain rc2 bad w2 where l: "nsp_reps (\<lambda>c. run (hb_buf b) c (o_budget_ms opt)) cfgs 1 (unat (o_reps opt)) False w1 = Some ((rc2, bad), w2)"
        "w' = snd (nsp_buffer_free hs b w2)"
        using r run True by (auto simp: mode_nsp_def b bind_eq_Some_conv)
      have "held w2 = held w1" using run_keepsD[OF nsp_reps_keeps l(1)] assms(2) by blast
      then have "buffer_held b (held w) (held w2)" using held_b by simp
      then show ?thesis unfolding l(2) by (rule nsp_buffer_free_held[OF laws _ none])
    qed
  qed
qed

lemma main_dsp_held:
  assumes laws: "host_laws hs held" and mode: "\<And>w rc w'. hd_maps (held w) = {} \<Longrightarrow> mode w = Some (rc, w') \<Longrightarrow> held w' = held w"
    and none: "hd_maps (held w) = {}" and r: "main_dsp hs votes mode w = Some (rc, ses, w')"
  shows "held w' = held w \<and> \<not> ses"
proof (cases "parse_votes votes")
  case None
  then show ?thesis using r by (simp add: main_dsp_def)
next
  case (Some m)
  note L = held_laws[OF laws]
  obtain rc1 s1 w1 where o1: "dsp_open hs w = (rc1, s1, w1)" by (metis prod_cases3)
  have h1: "held w1 = (if s1 then (held w)\<lparr>hd_sessions := hd_sessions (held w) + 1\<rparr> else held w) \<and> (rc1 = 0 \<longleftrightarrow> s1)"
  proof -
    obtain e1 v1 where v1: "h_rpc_load hs w = (e1, v1)" by fastforce
    obtain e2 v2 where v2: "h_unsigned hs v1 = (e2, v2)" by fastforce
    obtain e3 v3 where v3: "h_open hs v2 = (e3, v3)" by fastforce
    obtain e4 v4 where v4: "h_latency hs v3 = (e4, v4)" by fastforce
    have "held v1 = held w" "held v2 = held v1" "held v4 = held v3"
      "held v3 = (if e3 = AEE_SUCCESS then (held v2)\<lparr>hd_sessions := hd_sessions (held v2) + 1\<rparr> else held v2)"
      using L(1)[of w] L(2)[of v1] L(3)[of v3] L(7)[of v2] by (simp_all add: v1 v2 v3 v4)
    then show ?thesis using o1
      by (simp add: dsp_open_def v1 v2 v3 v4 EXIT_RPC_def split: if_splits)
  qed
  obtain rc2 w2 where s: "(if rc1 = 0 then dsp_setup hs m w1 else (rc1, w1)) = (rc2, w2)" by fastforce
  have h2: "held w2 = held w1 \<and> (rc2 = 0 \<longrightarrow> rc1 = 0)"
  proof -
    obtain e v where v: "h_setup hs m w1 = (e, v)" by fastforce
    have "held v = held w1" using L(4)[of m w1] by (simp add: v)
    then show ?thesis using s by (simp add: dsp_setup_def v split: if_splits)
  qed
  obtain rc3 w3 where md: "(if rc2 = 0 then mode w2 else Some (rc2, w2)) = Some (rc3, w3)"
    and cl: "dsp_close hs s1 w3 = (ses, w')"
    using r by (auto simp: main_dsp_def Some o1 s bind_eq_Some_conv split: prod.splits)
  have "hd_maps (held w2) = {}" using h1 h2 none by (auto split: if_splits)
  then have h3: "held w3 = held w2" using md mode by (auto split: if_splits)
  obtain e4 w4 where q: "h_query hs w3 = (e4, w4)" by fastforce
  obtain e5 w5 where c: "h_close hs w4 = (e5, w5)" by fastforce
  have "held w4 = held w3" "held w5 = (held w4)\<lparr>hd_sessions := hd_sessions (held w4) - 1\<rparr>"
    using L(5)[of w3] L(8)[of w4] by (simp_all add: q c)
  then show ?thesis using cl h1 h2 h3 by (auto simp: dsp_close_def q c split: if_splits)
qed

subsection \<open>Which runs a plan makes\<close>

lemma rep_order: "rep_order rep xs = (if odd rep then xs else rev xs)"
  by (intro nth_equalityI) (auto simp: rep_order_def rev_nth odd_iff_mod_2_eq_one)

text \<open>A runner that writes a line for each run, as \<open>print_nsp\<close> does.\<close>

definition logs_run ::
  "('w \<Rightarrow> (nsp_cfg \<times> nat \<times> bool) list) \<Rightarrow> (nsp_cfg \<Rightarrow> 'w \<Rightarrow> ((nat \<times> nsp_result) \<times> 'w) option) \<Rightarrow> bool" where
  "logs_run lg run \<longleftrightarrow> (\<forall>c w rc r w'. run c w = Some ((rc, r), w') \<longrightarrow> lg w' = lg w @ [(c, rc, n_check_ok r)])"

text \<open>The lines \<open>tr\<close> of a plan over \<open>cs\<close>: all of it, or the runs up to the first error.\<close>

definition plan_trace :: "nsp_cfg list \<Rightarrow> bool \<Rightarrow> nat \<Rightarrow> bool \<Rightarrow> (nsp_cfg \<times> nat \<times> bool) list \<Rightarrow> bool" where
  "plan_trace cs bad rc bad' tr \<longleftrightarrow>
     (\<exists>rest. cs = map fst tr @ rest \<and> (rc = 0 \<longrightarrow> rest = [])) \<and>
     (rc = 0 \<longrightarrow> list_all (\<lambda>(c, rc, ok). rc = 0) tr \<and> (bad' \<longleftrightarrow> bad \<or> list_ex (\<lambda>(c, rc, ok). \<not> ok) tr)) \<and>
     (rc \<noteq> 0 \<longrightarrow> tr \<noteq> [] \<and> fst (snd (List.last tr)) = rc \<and> list_all (\<lambda>(c, rc, ok). rc = 0) (butlast tr))"

lemma nsp_sweep_trace:
  assumes "logs_run lg run" "nsp_sweep run cs bad w = Some ((rc, bad'), w')"
  shows "\<exists>tr. lg w' = lg w @ tr \<and> plan_trace cs bad rc bad' tr"
  using assms(2)
proof (induction cs arbitrary: bad w)
  case (Cons c cs)
  from Cons.prems obtain rc1 r w1 where 1: "run c w = Some ((rc1, r), w1)"
    "(if rc1 \<noteq> 0 then Some ((rc1, bad), w1) else nsp_sweep run cs (bad \<or> \<not> n_check_ok r) w1) = Some ((rc, bad'), w')"
    by (auto simp: bind_eq_Some_conv)
  have l1: "lg w1 = lg w @ [(c, rc1, n_check_ok r)]" using assms(1) 1(1) unfolding logs_run_def by blast
  show ?case
  proof (cases "rc1 = 0")
    case False
    then show ?thesis using 1(2) l1 by (auto simp: plan_trace_def)
  next
    case True
    then have "nsp_sweep run cs (bad \<or> \<not> n_check_ok r) w1 = Some ((rc, bad'), w')" using 1(2) by simp
    from Cons.IH[OF this] obtain tr where tr: "lg w' = lg w1 @ tr" "plan_trace cs (bad \<or> \<not> n_check_ok r) rc bad' tr" by blast
    have "plan_trace (c # cs) bad rc bad' ((c, rc1, n_check_ok r) # tr)"
      using tr(2) True by (auto simp: plan_trace_def)
    then show ?thesis using tr(1) l1 by (intro exI[of _ "(c, rc1, n_check_ok r) # tr"]) simp
  qed
qed (simp add: plan_trace_def)

lemma plan_trace_append:
  assumes "plan_trace cs bad 0 bad1 tr1" "plan_trace cs' bad1 rc bad2 tr2"
  shows "plan_trace (cs @ cs') bad rc bad2 (tr1 @ tr2)"
  using assms by (auto simp: plan_trace_def butlast_append)

lemma plan_trace_stop: "plan_trace cs bad rc bad' tr \<Longrightarrow> rc \<noteq> 0 \<Longrightarrow> plan_trace (cs @ cs') bad rc bad' tr"
  by (auto simp: plan_trace_def)

lemma nsp_reps_trace:
  assumes "logs_run lg run" "nsp_reps run cfgs rep n bad w = Some ((rc, bad'), w')"
  shows "\<exists>tr. lg w' = lg w @ tr \<and> plan_trace (concat (map (\<lambda>k. rep_order k cfgs) [rep..<rep + n])) bad rc bad' tr"
  using assms(2)
proof (induction n arbitrary: rep bad w)
  case (Suc n)
  from Suc.prems obtain rc1 bad1 w1 where 1: "nsp_sweep run (rep_order rep cfgs) bad w = Some ((rc1, bad1), w1)"
    "(if rc1 \<noteq> 0 then Some ((rc1, bad1), w1) else nsp_reps run cfgs (Suc rep) n bad1 w1) = Some ((rc, bad'), w')"
    by (auto simp: bind_eq_Some_conv)
  obtain tr1 where tr1: "lg w1 = lg w @ tr1" "plan_trace (rep_order rep cfgs) bad rc1 bad1 tr1"
    using nsp_sweep_trace[OF assms(1) 1(1)] by blast
  have cs: "concat (map (\<lambda>k. rep_order k cfgs) [rep..<rep + Suc n])
      = rep_order rep cfgs @ concat (map (\<lambda>k. rep_order k cfgs) [Suc rep..<Suc rep + n])"
    by (simp add: upt_conv_Cons del: upt_Suc)
  show ?case
  proof (cases "rc1 = 0")
    case False
    then show ?thesis using 1(2) tr1 plan_trace_stop[OF tr1(2)] unfolding cs by (intro exI[of _ tr1]) auto
  next
    case True
    then have "nsp_reps run cfgs (Suc rep) n bad1 w1 = Some ((rc, bad'), w')" using 1(2) by simp
    from Suc.IH[OF this] obtain tr2 where tr2: "lg w' = lg w1 @ tr2"
      "plan_trace (concat (map (\<lambda>k. rep_order k cfgs) [Suc rep..<Suc rep + n])) bad1 rc bad' tr2" by blast
    show ?thesis using plan_trace_append[OF tr1(2)[unfolded True] tr2(2)] tr1(1) tr2(1) unfolding cs
      by (intro exI[of _ "tr1 @ tr2"]) simp
  qed
qed (simp add: plan_trace_def)

subsection \<open>A plan of correct runs\<close>

lemma nsp_sweep_good:
  assumes "\<And>c w. c \<in> set cs \<Longrightarrow> \<exists>r w'. run c w = Some ((0, r), w') \<and> n_check_ok r"
  shows "\<exists>w'. nsp_sweep run cs bad w = Some ((0, bad), w')"
  using assms
proof (induction cs arbitrary: w)
  case (Cons c cs)
  obtain r w1 where "run c w = Some ((0, r), w1)" "n_check_ok r" using Cons.prems[of c w] by auto
  then show ?case using Cons.IH[of w1] Cons.prems by simp
qed simp

lemma nsp_reps_good:
  assumes "\<And>c w. c \<in> set cs \<Longrightarrow> \<exists>r w'. run c w = Some ((0, r), w') \<and> n_check_ok r"
  shows "\<exists>w'. nsp_reps run cs rep n bad w = Some ((0, bad), w')"
proof (induction n arbitrary: rep w)
  case (Suc n)
  have "set (rep_order rep cs) = set cs" by (simp add: rep_order)
  then obtain w1 where "nsp_sweep run (rep_order rep cs) bad w = Some ((0, bad), w1)"
    using nsp_sweep_good[of "rep_order rep cs" run bad w] assms by auto
  then show ?case using Suc.IH[of "Suc rep" w1] by simp
qed simp

subsection \<open>Properties\<close>

text \<open>\<open>session_releases\<close>: the program with the mode \<open>nsp\<close> gives back all it took on each path, with or
  without an error: the FastRPC session is closed, the rpcmem buffer and the prefix sums are freed, and the
  buffer is mapped neither by FastRPC nor on the DSP.\<close>

theorem session_releases:
  assumes "host_laws hs held" "\<And>b c ms. run_keeps held (run b c ms)" "hd_maps (held w) = {}"
    and "main_dsp hs votes (mode_nsp hs run opt) w = Some (rc, ses, w')"
  shows "held w' = held w \<and> \<not> ses"
  by (rule main_dsp_held[OF assms(1) _ assms(3,4)]) (rule mode_nsp_held[OF assms(1,2)])

definition held_host :: "held host" where
  "held_host = \<lparr>h_rpc_load = (\<lambda>w. (0, w)), h_unsigned = (\<lambda>w. (0, w)), h_open = (\<lambda>w. (0, w\<lparr>hd_sessions := hd_sessions w + 1\<rparr>)),
     h_latency = (\<lambda>w. (0, w)), h_setup = (\<lambda>v w. (0, w)), h_query = (\<lambda>w. (0, w)),
     h_close = (\<lambda>w. (0, w\<lparr>hd_sessions := hd_sessions w - 1\<rparr>)),
     h_alloc = (\<lambda>n w. (4096, w\<lparr>hd_mem := add_mset 4096 (hd_mem w)\<rparr>)), h_bytes = (\<lambda>a w. \<lambda>_. 0),
     h_to_fd = (\<lambda>a w. (3, w)), h_free = (\<lambda>a w. w\<lparr>hd_mem := hd_mem w - {#a#}\<rparr>),
     h_malloc = (\<lambda>n w. (Some (\<lambda>_. 0), w\<lparr>hd_pre := hd_pre w + 1\<rparr>)), h_free_pre = (\<lambda>w. w\<lparr>hd_pre := hd_pre w - 1\<rparr>),
     h_mmap = (\<lambda>f a n w. (0, w\<lparr>hd_mmaps := add_mset f (hd_mmaps w)\<rparr>)),
     h_munmap = (\<lambda>f a n w. w\<lparr>hd_mmaps := hd_mmaps w - {#f#}\<rparr>),
     h_map = (\<lambda>f n w. (0, w\<lparr>hd_maps := insert f (hd_maps w)\<rparr>)), h_unmap = (\<lambda>f w. (0, w\<lparr>hd_maps := hd_maps w - {f}\<rparr>)),
     h_anon = (\<lambda>n w. (Some (\<lambda>_. 0), w\<lparr>hd_anon := hd_anon w + 1\<rparr>)), h_free_anon = (\<lambda>w. w\<lparr>hd_anon := hd_anon w - 1\<rparr>)\<rparr>"

lemma held_host_laws: "host_laws held_host (\<lambda>w. w)"
  by (simp add: host_laws_def held_host_def AEE_SUCCESS_def)

definition held_none :: held where
  "held_none = \<lparr>hd_sessions = 0, hd_mem = {#}, hd_pre = 0, hd_anon = 0, hd_mmaps = {#}, hd_maps = {}\<rparr>"

theorem session_releases_witness:
  "\<exists>rc. main_dsp held_host ''none'' (mode_nsp held_host (nsp_run (\<lambda>run n w. Some ((1, 0, 0, []), w)) 19200000) (default_options ''nsp''))
     held_none = Some (rc, False, held_none)"
proof -
  let ?run = "nsp_run (\<lambda>run n w. Some ((1, 0, 0, []), w)) 19200000 :: buffer \<Rightarrow> nsp_cfg \<Rightarrow> u32 \<Rightarrow> held \<Rightarrow> ((nat \<times> nsp_result) \<times> held) option"
  have run: "?run b c ms w = Some ((EXIT_RPC, zero_result), w)" for b c ms w by (simp add: nsp_run_def AEE_SUCCESS_def)
  then have keeps: "run_keeps (\<lambda>w. w) (?run b c ms)" for b c ms by (simp add: run_keeps_def)
  have tot: "\<exists>rc bad w'. nsp_reps (\<lambda>c. ?run b c ms) cfgs rep n bad0 w = Some ((rc, bad), w')" for b ms cfgs rep n bad0 w
  proof -
    have sweep: "\<exists>rc bad. nsp_sweep (\<lambda>c. ?run b c ms) cs bad0 w = Some ((rc, bad), w)" for cs bad0 w
      by (cases cs) (simp_all add: run EXIT_RPC_def)
    show ?thesis
    proof (induction n arbitrary: rep bad0 w)
      case (Suc n)
      obtain rc bad where "nsp_sweep (\<lambda>c. ?run b c ms) (rep_order rep cfgs) bad0 w = Some ((rc, bad), w)" using sweep by blast
      then show ?case using Suc.IH[of "Suc rep" bad w] by simp
    qed simp
  qed
  have mode: "\<exists>rc w'. mode_nsp held_host ?run opt w = Some (rc, w')" for opt w
  proof (cases "parse_cfgs (plan_list (o_plan opt)) 64")
    case (Some cfgs)
    obtain rc b w1 where b: "nsp_buffer held_host (mb_bytes opt) w = (rc, b, w1)" by (metis prod_cases3)
    obtain rc2 bad w2 where "nsp_reps (\<lambda>c. ?run (hb_buf b) c (o_budget_ms opt)) cfgs 1 (unat (o_reps opt)) False w1 = Some ((rc2, bad), w2)"
      using tot by blast
    then show ?thesis using Some b by (simp add: mode_nsp_def)
  qed (simp add: mode_nsp_def)
  obtain rc1 s1 w1 where o1: "dsp_open held_host held_none = (rc1, s1, w1)" by (metis prod_cases3)
  obtain rc2 w2 where s: "(if rc1 = 0 then dsp_setup held_host 0 w1 else (rc1, w1)) = (rc2, w2)" by fastforce
  obtain rc3 w3 where m: "(if rc2 = 0 then mode_nsp held_host ?run (default_options ''nsp'') w2 else Some (rc2, w2)) = Some (rc3, w3)"
    using mode[of "default_options ''nsp''" w2] by (cases "rc2 = 0") auto
  obtain s4 w4 where c: "dsp_close held_host s1 w3 = (s4, w4)" by fastforce
  have "parse_votes ''none'' = Some 0" by (simp add: parse_votes_def vote_names_def)
  then have r: "main_dsp held_host ''none'' (mode_nsp held_host ?run (default_options ''nsp'')) held_none = Some (rc3, s4, w4)"
    by (simp add: main_dsp_def o1 s m c)
  have "hd_maps held_none = {}" by (simp add: held_none_def)
  from session_releases[OF held_host_laws keeps this r] show ?thesis using r by simp
qed

text \<open>\<open>nsp_plan_runs\<close>: the repetitions of a plan run each configuration in the order of the plan, in
  reverse in each even repetition, and stop at the first run that returns an error, which is then the
  result. Without an error all of the plan runs, and the mark of a bad check is set exactly when one of
  the runs had a wrong checksum or a status.\<close>

theorem nsp_plan_runs:
  assumes "logs_run lg run" "nsp_reps run cfgs 1 n False w = Some ((rc, bad), w')"
  shows "\<exists>tr. lg w' = lg w @ tr \<and>
    plan_trace (concat (map (\<lambda>k. if odd k then cfgs else rev cfgs) [1..<n + 1])) False rc bad tr"
  using nsp_reps_trace[OF assms] by (simp add: rep_order)

definition log_runner :: "nsp_cfg \<Rightarrow> (nsp_cfg \<times> nat \<times> bool) list \<Rightarrow> ((nat \<times> nsp_result) \<times> (nsp_cfg \<times> nat \<times> bool) list) option" where
  "log_runner c w = (let ok = (c_n_dma c = 0) in Some ((0, zero_result\<lparr>n_check_ok := ok\<rparr>), w @ [(c, 0, ok)]))"

theorem nsp_plan_runs_witness:
  "let a = cfg ''hvx-t1'' 1 0 65536 0 0 0 2 0 0; b = cfg ''dma-t1'' 1 1 65536 0 0 8 0 0 0
   in \<exists>rc bad w'. nsp_reps log_runner [a, b] 1 2 False [] = Some ((rc, bad), w') \<and>
     (\<exists>tr. w' = tr \<and> plan_trace [a, b, b, a] False rc bad tr)"
proof -
  let ?a = "cfg ''hvx-t1'' 1 0 65536 0 0 0 2 0 0" and ?b = "cfg ''dma-t1'' 1 1 65536 0 0 8 0 0 0"
  have logs: "logs_run (\<lambda>w. w) log_runner" by (simp add: logs_run_def log_runner_def Let_def)
  have "\<exists>rc bad w'. nsp_reps log_runner [?a, ?b] 1 2 False [] = Some ((rc, bad), w')"
    by (simp add: numeral_2_eq_2 rep_order log_runner_def Let_def)
  then obtain rc bad w' where r: "nsp_reps log_runner [?a, ?b] 1 2 False [] = Some ((rc, bad), w')" by blast
  have "concat (map (\<lambda>k. if odd k then [?a, ?b] else rev [?a, ?b]) [1..<2 + 1]) = [?a, ?b, ?b, ?a]"
    by (simp add: upt_rec)
  with nsp_plan_runs[OF logs r] r show ?thesis by (simp add: Let_def)
qed

text \<open>C10. \<open>nsp_mode_succeeds\<close>: when the buffer of the NSP is set up and the DSP is ready for it, each accepted
  command line of the mode \<open>nsp\<close> with a plan of at least one configuration ends with exit code 0: no run
  fails and each checksum of each thread of each run is correct.\<close>

theorem nsp_mode_succeeds:
  assumes "options_ok opt" "parse_cfgs (plan_list (o_plan opt)) 64 = Some cfgs" "cfgs \<noteq> []"
    and "nsp_buffer hs (mb_bytes opt) w = (0, b, w1)"
    and "dsp_ready os ready push pop vmem rep clks view g (hb_buf b)"
  shows "\<exists>w'. mode_nsp hs (\<lambda>b c ms. nsp_run (call_dsp (\<lambda>run n. ddrbw_read os ready push pop vmem clks view run n g)) cntfrq b c ms) opt w
    = Some (0, w')"
proof -
  let ?run = "\<lambda>b c ms. nsp_run (call_dsp (\<lambda>run n. ddrbw_read os ready push pop vmem clks view run n g)) cntfrq b c ms"
  have b: "prefix_ok (hb_buf b)" "size (hb_buf b) = mb_bytes opt" using nsp_buffer_ok[OF assms(4)] by blast+
  have opt: "64 \<le> unat (o_mb opt)" "unat (o_mb opt) \<le> 2048" "10 \<le> o_budget_ms opt" "o_budget_ms opt \<le> 5000"
    using assms(1) by (simp_all add: options_ok_def word_le_nat_alt)
  then have sz: "2 ^ 26 \<le> size (hb_buf b)" "size (hb_buf b) \<le> 2 ^ 31" by (simp_all add: b(2) mb_bytes_def)
  have "set cfgs \<subseteq> set k_cfgs" using parse_cfgs_from_ok[of _ 64 "[]" cfgs] assms(2) by (simp add: parse_cfgs_def)
  then have good: "\<exists>r w'. ?run (hb_buf b) c (o_budget_ms opt) v = Some ((0, r), w') \<and> n_check_ok r" if "c \<in> set cfgs" for c v
  proof -
    have c: "cfg_ok c" using k_cfgs_ok that \<open>set cfgs \<subseteq> set k_cfgs\<close> by (auto simp: list_all_iff)
    obtain go ths w' where r: "ddrbw_read os ready push pop vmem clks view (run_of (hb_buf b) c (o_budget_ms opt)) MAX_THREADS g v
        = Some ((DDRBW_OK, go, ths), w')"
      "\<And>i. i < unat (c_n_threads c) \<Longrightarrow> thread_want (hb_buf b) c (ths ! i) = Some (t_sum (ths ! i))"
      using nsp_run_accepted[OF c b(1) sz opt(3,4) assms(5), of v] by blast
    have call: "call_dsp (\<lambda>run n. ddrbw_read os ready push pop vmem clks view run n g) (run_of (hb_buf b) c (o_budget_ms opt)) MAX_THREADS v
        = Some ((AEE_SUCCESS, DDRBW_OK, go, ths), w')" by (simp add: call_dsp_def r(1))
    have "\<exists>r. ?run (hb_buf b) c (o_budget_ms opt) v = Some ((0, r), w') \<and> n_status r = DDRBW_OK \<and> n_check_ok r \<and> n_t_go r = go \<and>
        n_bytes r = (\<Sum>i<unat (c_n_threads c). t_chunks (ths ! i) * ucast (c_chunk c))"
      using call r(2) by (intro nsp_run_ok)
    then show ?thesis by blast
  qed
  obtain w2 where "nsp_reps (\<lambda>c. ?run (hb_buf b) c (o_budget_ms opt)) cfgs 1 (unat (o_reps opt)) False w1 = Some ((0, False), w2)"
    using nsp_reps_good[of cfgs "\<lambda>c. ?run (hb_buf b) c (o_budget_ms opt)" 1 "unat (o_reps opt)" False w1] good by blast
  then show ?thesis using assms(2,3,4) by (simp add: mode_nsp_def)
qed

definition nat_host :: "nat host" where
  "nat_host = \<lparr>h_rpc_load = (\<lambda>w. (0, w)), h_unsigned = (\<lambda>w. (0, w)), h_open = (\<lambda>w. (1, w)), h_latency = (\<lambda>w. (0, w)),
     h_setup = (\<lambda>v w. (0, w)), h_query = (\<lambda>w. (0, w)), h_close = (\<lambda>w. (0, w)), h_alloc = (\<lambda>n w. (4096, w)),
     h_bytes = (\<lambda>a w. \<lambda>_. 0), h_to_fd = (\<lambda>a w. (3, w)), h_free = (\<lambda>a w. w), h_malloc = (\<lambda>n w. (Some (\<lambda>_. 0), w)),
     h_free_pre = (\<lambda>w. w), h_mmap = (\<lambda>f a n w. (0, w)), h_munmap = (\<lambda>f a n w. w), h_map = (\<lambda>f n w. (0, w)),
     h_unmap = (\<lambda>f w. (0, w)), h_anon = (\<lambda>n w. (None, w)), h_free_anon = (\<lambda>w. w)\<rparr>"

lemma nat_host_buffer: "\<exists>b. nsp_buffer nat_host sz w = (0, b, w) \<and> fd (hb_buf b) = 3"
proof -
  obtain r1 buf where fb: "fill_buffer (Some (\<lambda>_. 0)) ((empty_buffer sz)\<lparr>data := (\<lambda>_. 0), fd := 3\<rparr>) 0x5eed = (r1, buf)" by fastforce
  have "r1 = 0" "fd buf = 3" using fill_buffer_fields[OF fb] by simp_all
  then show ?thesis by (simp add: nsp_buffer_def nat_host_def empty_hbuf_def AEE_SUCCESS_def Let_def fb)
qed

theorem nsp_mode_succeeds_witness:
  "\<exists>b w'. nsp_buffer nat_host (2 ^ 26) 0 = (0, b, 0) \<and>
     mode_nsp nat_host (\<lambda>bf c ms. nsp_run (call_dsp (\<lambda>run n. ddrbw_read quiet_os (\<lambda>_. 8) (\<lambda>_. dma_queue_push 0 1) (\<lambda>_. dma_queue_pop 1)
       lmem clocks_example (\<lambda>_. view_of (hb_buf b)) run n big_lib)) 19200000 bf c ms)
       ((default_options ''nsp'')\<lparr>o_mb := 64, o_plan := ''short''\<rparr>) 0 = Some (0, w')"
proof -
  let ?opt = "(default_options ''nsp'')\<lparr>o_mb := 64, o_plan := ''short''\<rparr>"
  have mb: "mb_bytes ?opt = 2 ^ 26" by (simp add: mb_bytes_def)
  obtain b where b: "nsp_buffer nat_host (mb_bytes ?opt) 0 = (0, b, 0)" "fd (hb_buf b) = 3" using nat_host_buffer by blast
  have sz: "size (hb_buf b) = 2 ^ 26" using nsp_buffer_ok[OF b(1)] mb by metis
  have opt: "options_ok ?opt" by (simp add: options_ok_def default_options_def)
  obtain cfgs where cfgs: "parse_cfgs (plan_list (o_plan ?opt)) 64 = Some cfgs" "cfgs \<noteq> []"
    using short_plan by auto
  note run = nsp_mode_succeeds[OF opt cfgs b(1) ready_for[OF sz b(2)], of 19200000]
  show ?thesis by (rule exI[of _ b]) (use run b(1)[unfolded mb] in blast)
qed

end
