(* ===== verification/HostLatency.thy ===== *)
theory HostLatency
  imports HostSession Fence
begin

text \<open>
  The latency tests of the host program \<open>tools/ddrbw/host/ddrbw.c\<close>: \<open>print_dist_kind\<close>, \<open>rtt_fastrpc\<close>, \<open>rtt_queue\<close>,
  \<open>rtt_fence\<close>, \<open>mode_rtt\<close> and \<open>mode_mapcost\<close>.

  The services beside those of \<open>host\<close> are the fields of the record \<open>lat\<close>: the counter, the arrays of samples, the pinned
  mapping, the packet queue, and the run of the two halves of the fence test, whose end state is a state of the theory
  \<open>Fence\<close>. A line of the standard output is a \<open>report\<close>; the messages on the standard error are not modelled.
\<close>

subsection \<open>The distribution of the samples\<close>

definition cmp_double :: "fp \<Rightarrow> fp \<Rightarrow> int" where
  "cmp_double x y = (if fp_less x y then -1 else if fp_less y x then 1 else 0)"

text \<open>\<open>qsort\<close> of the C library. Samples that compare as equal are equal.\<close>

fun qsort_insert :: "fp \<Rightarrow> fp list \<Rightarrow> fp list" where
  "qsort_insert x [] = [x]"
| "qsort_insert x (y # ys) = (if cmp_double x y \<le> 0 then x # y # ys else y # qsort_insert x ys)"

definition qsort_double :: "fp list \<Rightarrow> fp list" where
  "qsort_double xs = foldr qsort_insert xs []"

record dist =
  ds_n :: nat
  ds_min :: fp
  ds_p10 :: fp
  ds_p50 :: fp
  ds_p90 :: fp
  ds_p99 :: fp
  ds_max :: fp
  ds_mean :: fp

definition dist_of :: "fp list \<Rightarrow> dist" where
  "dist_of samples =
     (let us = qsort_double samples; n = length us; mean = fold (\<lambda>x m. fp_add F64 m x) us f64_0
      in \<lparr>ds_n = n, ds_min = us ! 0, ds_p10 = us ! (n div 10), ds_p50 = us ! (n div 2), ds_p90 = us ! (n * 9 div 10),
          ds_p99 = us ! (n * 99 div 100), ds_max = us ! (n - 1), ds_mean = fp_div F64 mean (fp_of_int F64 (int n))\<rparr>)"

text \<open>The fields of a line: the kind of the test and its results.\<close>

datatype fields =
    F_fastrpc
  | F_queue u32 bool bool
  | F_served u32 bool bool u32 i32
  | F_fence bool bool u32 u32 i32
  | F_map nat
  | F_unmap nat
  | F_call nat

datatype report =
    R_none fields
  | R_dist fields dist
  | R_start_error fields i32
  | R_io_error fields
  | R_mapcost nat u64 u64 u64 fp fp fp

definition print_dist :: "(report \<Rightarrow> 'w \<Rightarrow> 'w) \<Rightarrow> fields \<Rightarrow> fp list \<Rightarrow> 'w \<Rightarrow> 'w" where
  "print_dist prt f us w = prt (if us = [] then R_none f else R_dist f (dist_of us)) w"

subsection \<open>The services\<close>

record 'w lat =
  l_cntfrq :: u64
  l_cmo :: bool
  l_cntvct :: "'w \<Rightarrow> u64 \<times> 'w"
  l_print :: "report \<Rightarrow> 'w \<Rightarrow> 'w"
  l_malloc :: "nat \<Rightarrow> 'w \<Rightarrow> bool \<times> 'w"
  l_mfree :: "'w \<Rightarrow> 'w"
  l_pin :: "int \<Rightarrow> nat \<Rightarrow> nat \<Rightarrow> 'w \<Rightarrow> i32 \<times> 'w"
  l_ticks :: "'w \<Rightarrow> u64"
  l_nop :: "'w \<Rightarrow> i32 \<times> 'w"
  l_create :: "'w \<Rightarrow> (i32 \<times> nat) \<times> 'w"
  l_export :: "nat \<Rightarrow> 'w \<Rightarrow> (i32 \<times> u64) \<times> 'w"
  l_start :: "u64 \<Rightarrow> u32 \<Rightarrow> 'w \<Rightarrow> i32 \<times> 'w"
  l_write :: "nat \<Rightarrow> u32 \<Rightarrow> ddrbw_qmsg \<Rightarrow> 'w \<Rightarrow> i32 \<times> 'w"
  l_read :: "nat \<Rightarrow> 'w \<Rightarrow> (i32 \<times> u32 \<times> ddrbw_qmsg) \<times> 'w"
  l_read_noblock :: "nat \<Rightarrow> 'w \<Rightarrow> (i32 \<times> u32 \<times> ddrbw_qmsg) \<times> 'w"
  l_stop :: "'w \<Rightarrow> (i32 \<times> u32) \<times> 'w"
  l_qclose :: "nat \<Rightarrow> 'w \<Rightarrow> 'w"
  l_thread :: "'w \<Rightarrow> i32 \<times> 'w"
  l_fence :: "int \<Rightarrow> bool \<Rightarrow> u32 \<Rightarrow> u32 \<Rightarrow> 'w \<Rightarrow> (i32 \<times> u32 \<times> fence) \<times> 'w"

text \<open>Ticks as microseconds.\<close>

definition us_of :: "u64 \<Rightarrow> u64 \<Rightarrow> fp" where
  "us_of cntfrq t = fp_mul F64 (ticks_to_s cntfrq t) (fp_of_int F64 (10 ^ 6))"

subsection \<open>The FastRPC round trip\<close>

fun nop_rounds :: "'w lat \<Rightarrow> nat list \<Rightarrow> fp list \<Rightarrow> 'w \<Rightarrow> fp list \<times> 'w" where
  "nop_rounds lt [] us w = (us, w)"
| "nop_rounds lt (i # is) us w =
     (let (t0, w) = l_cntvct lt w; (e, w) = l_nop lt w; (t1, w) = l_cntvct lt w in
      if e \<noteq> AEE_SUCCESS then (us, w)
      else nop_rounds lt is (if 10 \<le> i then us @ [us_of (l_cntfrq lt) (t1 - t0)] else us) w)"

definition rtt_fastrpc :: "'w lat \<Rightarrow> u32 \<Rightarrow> 'w \<Rightarrow> 'w" where
  "rtt_fastrpc lt iters w =
     (let (us, w) = nop_rounds lt [0..<unat (iters + 10)] [] w in print_dist (l_print lt) F_fastrpc us w)"

subsection \<open>The packet round trip\<close>

text \<open>The loop of \<open>dspqueue_read_noblock\<close>: until there is a packet or an error, or one second has passed.\<close>

partial_function (option) queue_poll :: "'w lat \<Rightarrow> nat \<Rightarrow> u64 \<Rightarrow> 'w \<Rightarrow> ((i32 \<times> u32 \<times> ddrbw_qmsg) \<times> 'w) option" where
  "queue_poll lt q t0 w =
     (let (r, w) = l_read_noblock lt q w in
      if fst r = AEE_EWOULDBLOCK then
        let (t, w) = l_cntvct lt w in
        if fp_less (ticks_to_s (l_cntfrq lt) (t - t0)) (fp_of_int F64 1) then queue_poll lt q t0 w else Some (r, w)
      else Some (r, w))"

definition queue_msg :: "u32 \<Rightarrow> nat \<Rightarrow> ddrbw_qmsg" where
  "queue_msg iters i =
     \<lparr>q_seq = of_nat i, q_cmd = (if i = unat (iters + 10) then DDRBW_QCMD_STOP else DDRBW_QCMD_ECHO), q_tdsp = 0\<rparr>"

text \<open>The rounds that give a sample.\<close>

abbreviation kept_round :: "u32 \<Rightarrow> nat \<Rightarrow> bool" where
  "kept_round iters i \<equiv> 10 \<le> i \<and> i < unat (iters + 10)"

text \<open>The number of the round is at most \<open>iters + 10\<close>, which the limit of the option \<open>--iters\<close> keeps below \<open>2 ^ 32\<close>. A
  packet has 16 bytes. The result tells if a round failed.\<close>

fun queue_rounds :: "'w lat \<Rightarrow> nat \<Rightarrow> bool \<Rightarrow> bool \<Rightarrow> u32 \<Rightarrow> nat list \<Rightarrow> fp list \<Rightarrow> 'w \<Rightarrow> (bool \<times> fp list \<times> 'w) option" where
  "queue_rounds lt q poll use_buf iters [] us w = Some (False, us, w)"
| "queue_rounds lt q poll use_buf iters (i # is) us w =
     (let (t0, w) = l_cntvct lt w; (e, w) = l_write lt q (if use_buf then 1 else 0) (queue_msg iters i) w in
      if e \<noteq> 0 then Some (True, us, w)
      else Option.bind (if poll then queue_poll lt q t0 w else Some (l_read lt q w)) (\<lambda>((e, len, r), w).
        let (t1, w) = l_cntvct lt w in
        if e \<noteq> 0 \<or> len \<noteq> 16 \<or> q_seq r \<noteq> of_nat i then Some (True, us, w)
        else queue_rounds lt q poll use_buf iters is
          (if kept_round iters i then us @ [us_of (l_cntfrq lt) (t1 - t0)] else us) w))"

definition rtt_queue :: "'w lat \<Rightarrow> u32 \<Rightarrow> u32 \<times> bool \<times> bool \<Rightarrow> 'w \<Rightarrow> 'w option" where
  "rtt_queue lt iters test w =
     (let (dsp_mode, poll, use_buf) = test; f = F_queue dsp_mode poll use_buf;
          ((e, q), w) = l_create lt w;
          ((e, ident), w) = (if e = 0 then l_export lt q w else ((e, 0), w));
          (e, w) = (if e = 0 then l_start lt ident dsp_mode w else (e, w))
      in if e \<noteq> 0 then let w = l_print lt (R_start_error f e) w in Some (if q \<noteq> 0 then l_qclose lt q w else w)
         else Option.bind (queue_rounds lt q poll use_buf iters [0..<unat (iters + 10) + 1] [] w) (\<lambda>(failed, us, w).
           if failed then Some (l_print lt (R_io_error f) w)
           else let ((e, served), w) = l_stop lt w; w = l_qclose lt q w
             in Some (print_dist (l_print lt) (F_served dsp_mode poll use_buf served e) us w)))"

text \<open>The tests of each wait mode of the DSP, of each wait of the host, without and with a buffer.\<close>

definition queue_tests :: "(u32 \<times> bool \<times> bool) list" where
  "queue_tests = concat (map (\<lambda>mode. concat (map (\<lambda>poll. map (\<lambda>use_buf. (mode, poll, use_buf)) [False, True]) [False, True])) [0, 1, 2])"

fun run_tests :: "('t \<Rightarrow> 'w \<Rightarrow> 'w option) \<Rightarrow> 't list \<Rightarrow> 'w \<Rightarrow> 'w option" where
  "run_tests f [] w = Some w"
| "run_tests f (x # xs) w = Option.bind (f x w) (run_tests f xs)"

subsection \<open>The fence test\<close>

text \<open>The samples are the ticks of the rounds that the host half has kept.\<close>

definition rtt_fence :: "'w lat \<Rightarrow> int \<Rightarrow> bool \<Rightarrow> u32 \<Rightarrow> 'w \<Rightarrow> 'w" where
  "rtt_fence lt f cmo iters w =
     (let (e, w) = l_thread lt w in
      if e \<noteq> 0 then w
      else let ((e, done, s), w) = l_fence lt f cmo iters 100000 w
        in print_dist (l_print lt) (F_fence cmo (l_cmo lt) (h_done s) done e) (map (us_of (l_cntfrq lt)) (h_us s)) w)"

subsection \<open>The mode \<open>rtt\<close>\<close>

definition fence_bytes :: nat where
  "fence_bytes = unat DDRBW_FENCE_BYTES"

text \<open>The part with the queue buffer, which is pinned.\<close>

definition rtt_queue_part :: "'w host \<Rightarrow> 'w lat \<Rightarrow> u32 \<Rightarrow> 'w \<Rightarrow> (nat \<times> 'w) option" where
  "rtt_queue_part hs lt iters w =
     (let (a, w) = h_alloc hs fence_bytes w;
          (f, w) = (if a = 0 then (-1, w) else h_to_fd hs a w);
          (bad, w) = (if f < 0 then (True, w) else let (e, w) = l_pin lt f a fence_bytes w in (e \<noteq> 0, w))
      in Option.bind
           (if bad then Some (EXIT_RPC, w)
            else Option.bind (run_tests (rtt_queue lt iters) queue_tests w) (\<lambda>w. Some (0, h_munmap hs f a fence_bytes w)))
           (\<lambda>(rc, w). Some (rc, if a \<noteq> 0 then h_free hs a w else w)))"

text \<open>The fence buffer: the result tells if it is mapped on the two sides.\<close>

definition fence_buffer :: "'w host \<Rightarrow> nat \<Rightarrow> 'w \<Rightarrow> bool \<times> int \<times> 'w" where
  "fence_buffer hs a w =
     (if a = 0 then (False, -1, w)
      else let (f, w) = h_to_fd hs a w in
        if f < 0 then (False, f, w)
        else let (e, w) = h_mmap hs f a fence_bytes w in
          if e \<noteq> 0 then (False, f, w)
          else let (e, w) = h_map hs f DDRBW_FENCE_BYTES w in (e = AEE_SUCCESS, f, w))"

definition rtt_fence_part :: "'w host \<Rightarrow> 'w lat \<Rightarrow> u32 \<Rightarrow> nat \<Rightarrow> 'w \<Rightarrow> nat \<times> 'w" where
  "rtt_fence_part hs lt iters rc w =
     (let (a, w) = h_alloc hs fence_bytes w;
          (ok, f, w) = (if rc = 0 then fence_buffer hs a w else (False, -1, w));
          rc = (if rc = 0 \<and> \<not> ok then EXIT_RPC else rc);
          w = (if rc = 0
               then let w = rtt_fence lt f False (iters * 10) w; w = rtt_fence lt f True (iters * 10) w; (_, w) = h_unmap hs f w
                 in h_munmap hs f a fence_bytes w
               else w)
      in (rc, if a \<noteq> 0 then h_free hs a w else w))"

definition mode_rtt :: "'w host \<Rightarrow> 'w lat \<Rightarrow> options \<Rightarrow> 'w \<Rightarrow> (nat \<times> 'w) option" where
  "mode_rtt hs lt opt w =
     (let (ok, w) = l_malloc lt (8 * (unat (o_iters opt) * 10 + 64)) w in
      if \<not> ok then Some (EXIT_RPC, w)
      else Option.bind (rtt_queue_part hs lt (o_iters opt) (rtt_fastrpc lt (o_iters opt) w)) (\<lambda>(rc, w).
        let (rc, w) = rtt_fence_part hs lt (o_iters opt) rc w in Some (rc, l_mfree lt w)))"

subsection \<open>The mode \<open>mapcost\<close>\<close>

text \<open>Ticks of the DSP counter of 19.2 MHz as microseconds.\<close>

definition dsp_us :: "u64 \<Rightarrow> fp" where
  "dsp_us t = fp_div F64 (fp_of_int F64 (int (unat t))) (fp_div F64 (fp_of_int F64 192) (fp_of_int F64 10))"

text \<open>One round gives the times of the map, of the unmap and of the map call.\<close>

fun map_rounds :: "'w host \<Rightarrow> 'w lat \<Rightarrow> int \<Rightarrow> u32 \<Rightarrow> nat \<Rightarrow> (fp \<times> fp \<times> fp) list \<Rightarrow> 'w \<Rightarrow> nat \<times> (fp \<times> fp \<times> fp) list \<times> 'w" where
  "map_rounds hs lt f sz 0 us w = (0, us, w)"
| "map_rounds hs lt f sz (Suc n) us w =
     (let (h0, w) = l_cntvct lt w; (e, w) = h_map hs f sz w; tk_map = l_ticks lt w; (h1, w) = l_cntvct lt w;
          (e, w) = (if e = AEE_SUCCESS then h_unmap hs f w else (e, w)); tk_unmap = l_ticks lt w
      in if e \<noteq> AEE_SUCCESS then (EXIT_RPC, us, w)
         else map_rounds hs lt f sz n (us @ [(dsp_us tk_map, dsp_us tk_unmap, us_of (l_cntfrq lt) (h1 - h0))]) w)"

fun free_arrays :: "'w lat \<Rightarrow> bool list \<Rightarrow> 'w \<Rightarrow> 'w" where
  "free_arrays lt [] w = w"
| "free_arrays lt (ok # oks) w = free_arrays lt oks (if ok then l_mfree lt w else w)"

text \<open>The samples of the first round are on their own line. The code takes the times \<open>t1\<close> and \<open>t3\<close> to tell
  if it has called \<open>fastrpc_mmap\<close>.\<close>

definition mode_mapcost :: "'w host \<Rightarrow> 'w lat \<Rightarrow> options \<Rightarrow> 'w \<Rightarrow> nat \<times> 'w" where
  "mode_mapcost hs lt opt w =
     (let sz = mb_bytes opt; mb = unat (o_mb opt);
          (ok1, w) = l_malloc lt (8 * unat (o_iters opt)) w; (ok2, w) = l_malloc lt (8 * unat (o_iters opt)) w;
          (ok3, w) = l_malloc lt (8 * unat (o_iters opt)) w
      in if \<not> ok1 \<or> \<not> ok2 \<or> \<not> ok3 then (EXIT_RPC, free_arrays lt [ok1, ok2, ok3] w)
         else let (t0, w) = l_cntvct lt w; (a, w) = h_alloc hs sz w; (t1, w) = l_cntvct lt w;
             (f, w) = (if a \<noteq> 0 then h_to_fd hs a w else (-1, w));
             rc = (if f < 0 then EXIT_RPC else 0);
             (rc, t2, t3, w) = (if rc = 0
                then let (t2, w) = l_cntvct lt w; (e, w) = h_mmap hs f a sz w; (t3, w) = l_cntvct lt w
                  in (if e \<noteq> 0 then EXIT_RPC else 0, t2, t3, w)
                else (rc, t1, t1, w));
             (rc, us, w) = (if rc = 0 then map_rounds hs lt f (of_nat sz) (unat (o_iters opt) + 1) [] w else (rc, [], w));
             (t4, w) = l_cntvct lt w;
             w = (if 0 \<le> f \<and> t3 \<noteq> t1 then h_munmap hs f a sz w else w);
             (t5, w) = l_cntvct lt w;
             w = (if a \<noteq> 0 then h_free hs a w else w);
             w = (if rc = 0
                  then let w = l_print lt (R_mapcost mb (t1 - t0) (t3 - t2) (t5 - t4) (fst (us ! 0)) (fst (snd (us ! 0))) (snd (snd (us ! 0)))) w;
                           w = print_dist (l_print lt) (F_map mb) (map fst (tl us)) w;
                           w = print_dist (l_print lt) (F_unmap mb) (map (fst \<circ> snd) (tl us)) w
                    in print_dist (l_print lt) (F_call mb) (map (snd \<circ> snd) (tl us)) w
                  else w)
           in (rc, free_arrays lt [True, True, True] w))"

subsection \<open>What the tests hold\<close>

text \<open>The documented effect of the services beside those of \<open>host_laws\<close>, and that the services of \<open>host\<close> change neither the arrays
  nor the queues. \<open>mal\<close> counts the arrays of samples, and \<open>qs\<close> has the open queues.\<close>

definition lat_laws :: "'w host \<Rightarrow> 'w lat \<Rightarrow> ('w \<Rightarrow> held) \<Rightarrow> ('w \<Rightarrow> nat) \<Rightarrow> ('w \<Rightarrow> nat multiset) \<Rightarrow> bool" where
  "lat_laws hs lt held mal qs \<longleftrightarrow>
     (let same = (\<lambda>w w'. held w' = held w \<and> mal w' = mal w \<and> qs w' = qs w); own = (\<lambda>w w'. mal w' = mal w \<and> qs w' = qs w) in
      (\<forall>w. same w (snd (l_cntvct lt w)) \<and> same w (snd (l_nop lt w)) \<and> same w (snd (l_stop lt w)) \<and> same w (snd (l_thread lt w)) \<and>
         (\<forall>r. same w (l_print lt r w)) \<and> (\<forall>q. same w (snd (l_export lt q w))) \<and> (\<forall>i m. same w (snd (l_start lt i m w))) \<and>
         (\<forall>q n m. same w (snd (l_write lt q n m w))) \<and> (\<forall>q. same w (snd (l_read lt q w))) \<and>
         (\<forall>q. same w (snd (l_read_noblock lt q w))) \<and> (\<forall>f c n t. same w (snd (l_fence lt f c n t w)))) \<and>
      (\<forall>w n. held (snd (l_malloc lt n w)) = held w \<and> qs (snd (l_malloc lt n w)) = qs w \<and>
         mal (snd (l_malloc lt n w)) = mal w + (if fst (l_malloc lt n w) then 1 else 0)) \<and>
      (\<forall>w. held (l_mfree lt w) = held w \<and> qs (l_mfree lt w) = qs w \<and> mal (l_mfree lt w) = mal w - 1) \<and>
      (\<forall>w f a n. own w (snd (l_pin lt f a n w)) \<and> held (snd (l_pin lt f a n w)) =
         (if fst (l_pin lt f a n w) = 0 then (held w)\<lparr>hd_mmaps := add_mset f (hd_mmaps (held w))\<rparr> else held w)) \<and>
      (\<forall>w. held (snd (l_create lt w)) = held w \<and> mal (snd (l_create lt w)) = mal w \<and>
         qs (snd (l_create lt w)) = (case l_create lt w of ((e, q), _) \<Rightarrow> if e = 0 then add_mset q (qs w) else qs w) \<and>
         (case l_create lt w of ((e, q), _) \<Rightarrow> (e = 0 \<longleftrightarrow> q \<noteq> 0))) \<and>
      (\<forall>w q. held (l_qclose lt q w) = held w \<and> mal (l_qclose lt q w) = mal w \<and> qs (l_qclose lt q w) = qs w - {#q#}) \<and>
      (\<forall>w. (\<forall>n. own w (snd (h_alloc hs n w))) \<and> (\<forall>a. own w (snd (h_to_fd hs a w))) \<and> (\<forall>a. own w (h_free hs a w)) \<and>
         (\<forall>f a n. own w (snd (h_mmap hs f a n w))) \<and> (\<forall>f a n. own w (h_munmap hs f a n w)) \<and> (\<forall>f n. own w (snd (h_map hs f n w))) \<and>
         (\<forall>f. own w (snd (h_unmap hs f w)))))"

text \<open>What a step of a test keeps: all, or all but the queues, which it may leave open.\<close>

definition keeps_all :: "('w \<Rightarrow> held) \<Rightarrow> ('w \<Rightarrow> nat) \<Rightarrow> ('w \<Rightarrow> nat multiset) \<Rightarrow> 'w \<Rightarrow> 'w \<Rightarrow> bool" where
  "keeps_all held mal qs w w' \<longleftrightarrow> held w' = held w \<and> mal w' = mal w \<and> qs w' = qs w"

lemma keeps_all_refl [simp]: "keeps_all held mal qs w w"
  by (simp add: keeps_all_def)

lemma keeps_all_trans: "keeps_all held mal qs w v \<Longrightarrow> keeps_all held mal qs v u \<Longrightarrow> keeps_all held mal qs w u"
  by (simp add: keeps_all_def)

lemma lat_same:
  assumes "lat_laws hs lt held mal qs"
  shows "keeps_all held mal qs w (snd (l_cntvct lt w))" "keeps_all held mal qs w (snd (l_nop lt w))" "keeps_all held mal qs w (snd (l_stop lt w))"
    "keeps_all held mal qs w (snd (l_thread lt w))" "keeps_all held mal qs w (l_print lt r w)" "keeps_all held mal qs w (snd (l_export lt q w))"
    "keeps_all held mal qs w (snd (l_start lt i m w))" "keeps_all held mal qs w (snd (l_write lt q n msg w))"
    "keeps_all held mal qs w (snd (l_read lt q w))" "keeps_all held mal qs w (snd (l_read_noblock lt q w))"
    "keeps_all held mal qs w (snd (l_fence lt f c k u w))"
  using assms[unfolded lat_laws_def Let_def, THEN conjunct1] unfolding keeps_all_def by blast+

lemma lat_keeps:
  assumes "lat_laws hs lt held mal qs"
  shows "l_cntvct lt w = (t, w') \<Longrightarrow> keeps_all held mal qs w w'" "l_nop lt w = (e, w') \<Longrightarrow> keeps_all held mal qs w w'"
    "l_stop lt w = (es, w') \<Longrightarrow> keeps_all held mal qs w w'" "l_thread lt w = (e, w') \<Longrightarrow> keeps_all held mal qs w w'"
    "keeps_all held mal qs w (l_print lt r w)" "l_export lt q w = (ei, w') \<Longrightarrow> keeps_all held mal qs w w'"
    "l_start lt i m w = (e, w') \<Longrightarrow> keeps_all held mal qs w w'" "l_write lt q n msg w = (e, w') \<Longrightarrow> keeps_all held mal qs w w'"
    "l_read lt q w = (x, w') \<Longrightarrow> keeps_all held mal qs w w'" "l_read_noblock lt q w = (x, w') \<Longrightarrow> keeps_all held mal qs w w'"
    "l_fence lt f c k u w = (y, w') \<Longrightarrow> keeps_all held mal qs w w'"
  using lat_same(1)[OF assms, of w] lat_same(2)[OF assms, of w] lat_same(3)[OF assms, of w] lat_same(4)[OF assms, of w]
    lat_same(5)[OF assms, of w r] lat_same(6)[OF assms, of w q] lat_same(7)[OF assms, of w i m] lat_same(8)[OF assms, of w q n msg]
    lat_same(9)[OF assms, of w q] lat_same(10)[OF assms, of w q] lat_same(11)[OF assms, of w f c k u] by simp_all

lemma lat_effects:
  assumes "lat_laws hs lt held mal qs"
  shows "l_malloc lt n w = (ok, w') \<Longrightarrow> held w' = held w \<and> qs w' = qs w \<and> mal w' = mal w + (if ok then 1 else 0)"
    "held (l_mfree lt w) = held w" "qs (l_mfree lt w) = qs w" "mal (l_mfree lt w) = mal w - 1"
    "l_pin lt f a n w = (e, w') \<Longrightarrow> mal w' = mal w \<and> qs w' = qs w \<and>
       held w' = (if e = 0 then (held w)\<lparr>hd_mmaps := add_mset f (hd_mmaps (held w))\<rparr> else held w)"
    "l_create lt w = ((e, q), w') \<Longrightarrow> held w' = held w \<and> mal w' = mal w \<and> qs w' = (if e = 0 then add_mset q (qs w) else qs w) \<and> (e = 0 \<longleftrightarrow> q \<noteq> 0)"
    "held (l_qclose lt q w) = held w" "mal (l_qclose lt q w) = mal w" "qs (l_qclose lt q w) = qs w - {#q#}"
proof -
  note L = assms[unfolded lat_laws_def Let_def, THEN conjunct2]
  show "l_malloc lt n w = (ok, w') \<Longrightarrow> held w' = held w \<and> qs w' = qs w \<and> mal w' = mal w + (if ok then 1 else 0)"
    using L[THEN conjunct1, rule_format, of n w] by simp
  note L = L[THEN conjunct2]
  show "held (l_mfree lt w) = held w" "qs (l_mfree lt w) = qs w" "mal (l_mfree lt w) = mal w - 1"
    using L[THEN conjunct1, rule_format, of w] by simp_all
  note L = L[THEN conjunct2]
  show "l_pin lt f a n w = (e, w') \<Longrightarrow> mal w' = mal w \<and> qs w' = qs w \<and>
       held w' = (if e = 0 then (held w)\<lparr>hd_mmaps := add_mset f (hd_mmaps (held w))\<rparr> else held w)"
    using L[THEN conjunct1, rule_format, of f a n w] by simp
  note L = L[THEN conjunct2]
  show "l_create lt w = ((e, q), w') \<Longrightarrow> held w' = held w \<and> mal w' = mal w \<and> qs w' = (if e = 0 then add_mset q (qs w) else qs w) \<and> (e = 0 \<longleftrightarrow> q \<noteq> 0)"
    using L[THEN conjunct1, rule_format, of w] by simp
  note L = L[THEN conjunct2]
  show "held (l_qclose lt q w) = held w" "mal (l_qclose lt q w) = mal w" "qs (l_qclose lt q w) = qs w - {#q#}"
    using L[THEN conjunct1, rule_format, of q w] by simp_all
qed

lemma host_own:
  assumes "lat_laws hs lt held mal qs"
  shows "h_alloc hs n w = (a, w') \<Longrightarrow> mal w' = mal w \<and> qs w' = qs w" "h_to_fd hs a w = (f, w') \<Longrightarrow> mal w' = mal w \<and> qs w' = qs w"
    "mal (h_free hs a w) = mal w" "qs (h_free hs a w) = qs w" "h_mmap hs f a n w = (e, w') \<Longrightarrow> mal w' = mal w \<and> qs w' = qs w"
    "mal (h_munmap hs f a n w) = mal w" "qs (h_munmap hs f a n w) = qs w" "h_map hs f k w = (e, w') \<Longrightarrow> mal w' = mal w \<and> qs w' = qs w"
    "h_unmap hs f w = (e, w') \<Longrightarrow> mal w' = mal w \<and> qs w' = qs w"
proof -
  note L = assms[unfolded lat_laws_def Let_def, THEN conjunct2, THEN conjunct2, THEN conjunct2, THEN conjunct2, THEN conjunct2, THEN conjunct2,
    THEN spec, of w]
  have S: "mal (snd (h_alloc hs n w)) = mal w \<and> qs (snd (h_alloc hs n w)) = qs w" "mal (snd (h_to_fd hs a w)) = mal w \<and> qs (snd (h_to_fd hs a w)) = qs w"
    "mal (snd (h_mmap hs f a n w)) = mal w \<and> qs (snd (h_mmap hs f a n w)) = qs w" "mal (snd (h_map hs f k w)) = mal w \<and> qs (snd (h_map hs f k w)) = qs w"
    "mal (snd (h_unmap hs f w)) = mal w \<and> qs (snd (h_unmap hs f w)) = qs w" for n a f k
    using L by blast+
  show "h_alloc hs n w = (a, w') \<Longrightarrow> mal w' = mal w \<and> qs w' = qs w" "h_to_fd hs a w = (f, w') \<Longrightarrow> mal w' = mal w \<and> qs w' = qs w"
    "h_mmap hs f a n w = (e, w') \<Longrightarrow> mal w' = mal w \<and> qs w' = qs w" "h_map hs f k w = (e, w') \<Longrightarrow> mal w' = mal w \<and> qs w' = qs w"
    "h_unmap hs f w = (e, w') \<Longrightarrow> mal w' = mal w \<and> qs w' = qs w"
    using S(1)[of n] S(2)[of a] S(3)[of f a n] S(4)[of f k] S(5)[of f] by simp_all
  show "mal (h_free hs a w) = mal w" "qs (h_free hs a w) = qs w" "mal (h_munmap hs f a n w) = mal w" "qs (h_munmap hs f a n w) = qs w"
    using L by blast+
qed

lemma nop_rounds_keeps:
  assumes "lat_laws hs lt held mal qs"
  shows "nop_rounds lt is us w = (us', w') \<Longrightarrow> keeps_all held mal qs w w' \<and> length us' \<le> length us + length (filter (\<lambda>i. 10 \<le> i) is)"
proof (induction "is" arbitrary: us w)
  case (Cons i "is")
  note K = lat_keeps[OF assms]
  obtain t0 w1 where 1: "l_cntvct lt w = (t0, w1)" by fastforce
  obtain e w2 where 2: "l_nop lt w1 = (e, w2)" by fastforce
  obtain t1 w3 where 3: "l_cntvct lt w2 = (t1, w3)" by fastforce
  have k: "keeps_all held mal qs w w3" by (rule keeps_all_trans[OF K(1)[OF 1] keeps_all_trans[OF K(2)[OF 2] K(1)[OF 3]]])
  show ?case
  proof (cases "e = AEE_SUCCESS")
    case False
    then show ?thesis using Cons.prems k by (simp add: 1 2 3)
  next
    case True
    then have r: "nop_rounds lt is (if 10 \<le> i then us @ [us_of (l_cntfrq lt) (t1 - t0)] else us) w3 = (us', w')"
      using Cons.prems by (simp add: 1 2 3)
    show ?thesis using Cons.IH[OF r] keeps_all_trans[OF k] by (auto split: if_splits)
  qed
qed simp

lemma print_dist_keeps:
  assumes "lat_laws hs lt held mal qs"
  shows "keeps_all held mal qs w (print_dist (l_print lt) f us w)"
  unfolding print_dist_def by (rule lat_keeps(5)[OF assms])

lemma rtt_fastrpc_keeps:
  assumes "lat_laws hs lt held mal qs"
  shows "keeps_all held mal qs w (rtt_fastrpc lt iters w)"
proof -
  obtain us w1 where r: "nop_rounds lt [0..<unat (iters + 10)] [] w = (us, w1)" by fastforce
  show ?thesis unfolding rtt_fastrpc_def r Let_def prod.case
    by (rule keeps_all_trans[OF conjunct1[OF nop_rounds_keeps[OF assms r]] print_dist_keeps[OF assms]])
qed

lemma queue_poll_keeps:
  assumes "lat_laws hs lt held mal qs" "queue_poll lt q t0 w = Some (r, w')"
  shows "keeps_all held mal qs w w'"
proof -
  have "lt = lt \<longrightarrow> keeps_all held mal qs w (snd (r, w'))"
  proof (rule queue_poll.raw_induct[OF _ assms(2), where P = "\<lambda>lt' q t0 w r. lt' = lt \<longrightarrow> keeps_all held mal qs w (snd r)"], goal_cases)
    case (1 f lt' q t0 w r)
    show ?case
    proof
      assume lt: "lt' = lt"
      obtain x w1 where x: "l_read_noblock lt q w = (x, w1)" by fastforce
      obtain t w2 where t: "l_cntvct lt w1 = (t, w2)" by fastforce
      note k = lat_keeps(10)[OF assms(1) x] keeps_all_trans[OF lat_keeps(10)[OF assms(1) x] lat_keeps(1)[OF assms(1) t]]
      have "f lt q t0 w2 = Some r \<or> r = (x, w2) \<or> r = (x, w1)"
        using 1(2) by (auto simp: lt x t split: if_splits)
      then show "keeps_all held mal qs w (snd r)"
        using 1(1)[of lt q t0 w2 r] k keeps_all_trans[OF k(2)] lt by auto
    qed
  qed
  then show ?thesis by simp
qed

text \<open>The ways of a round.\<close>

lemma queue_round_cases:
  assumes "queue_rounds lt q poll use_buf iters (i # is) us w = Some (failed, us', w')"
  obtains (unsent) t0 w1 e where "l_cntvct lt w = (t0, w1)" "l_write lt q (if use_buf then 1 else 0) (queue_msg iters i) w1 = (e, w')"
      "e \<noteq> 0" "failed" "us' = us"
  | (unread) t0 w1 w2 x w3 t1 where "l_cntvct lt w = (t0, w1)" "l_write lt q (if use_buf then 1 else 0) (queue_msg iters i) w1 = (0, w2)"
      "(if poll then queue_poll lt q t0 w2 else Some (l_read lt q w2)) = Some (x, w3)" "l_cntvct lt w3 = (t1, w')" "failed" "us' = us"
  | (served) t0 w1 w2 r w3 t1 w4 where "l_cntvct lt w = (t0, w1)" "l_write lt q (if use_buf then 1 else 0) (queue_msg iters i) w1 = (0, w2)"
      "(if poll then queue_poll lt q t0 w2 else Some (l_read lt q w2)) = Some ((0, 16, r), w3)" "l_cntvct lt w3 = (t1, w4)" "q_seq r = of_nat i"
      "queue_rounds lt q poll use_buf iters is (if kept_round iters i then us @ [us_of (l_cntfrq lt) (t1 - t0)] else us) w4 = Some (failed, us', w')"
proof -
  obtain t0 w1 where 1: "l_cntvct lt w = (t0, w1)" by fastforce
  obtain e w2 where 2: "l_write lt q (if use_buf then 1 else 0) (queue_msg iters i) w1 = (e, w2)" by fastforce
  show thesis
  proof (cases "e = 0")
    case False
    then show thesis using assms unsent[OF 1] 2 by (simp add: 1)
  next
    case True
    then obtain e2 len r w3 where 3: "(if poll then queue_poll lt q t0 w2 else Some (l_read lt q w2)) = Some ((e2, len, r), w3)"
      using assms by (auto simp: 1 2 bind_eq_Some_conv)
    obtain t1 w4 where 4: "l_cntvct lt w3 = (t1, w4)" by fastforce
    have r: "queue_rounds lt q poll use_buf iters (i # is) us w =
      (if e2 \<noteq> 0 \<or> len \<noteq> 16 \<or> q_seq r \<noteq> of_nat i then Some (True, us, w4)
       else queue_rounds lt q poll use_buf iters is (if kept_round iters i then us @ [us_of (l_cntfrq lt) (t1 - t0)] else us) w4)"
      using True 3 by (simp add: 1 2 4)
    show thesis
    proof (cases "e2 \<noteq> 0 \<or> len \<noteq> 16 \<or> q_seq r \<noteq> of_nat i")
      case bad: True
      have "failed" "us' = us" "w' = w4" using assms unfolding r if_P[OF bad] by simp_all
      then show thesis using unread[OF 1 2[unfolded True] 3] 4 by simp
    next
      case good: False
      then have "e2 = 0" "len = 16" "q_seq r = of_nat i" by simp_all
      then show thesis using served[OF 1 2[unfolded True] _ 4] 3 assms unfolding r if_not_P[OF good] by simp
    qed
  qed
qed

lemma queue_rounds_keeps:
  assumes "lat_laws hs lt held mal qs"
  shows "queue_rounds lt q poll use_buf iters is us w = Some (failed, us', w') \<Longrightarrow> keeps_all held mal qs w w'"
proof (induction "is" arbitrary: us w)
  case (Cons i "is")
  note K = lat_keeps[OF assms]
  have read: "keeps_all held mal qs v v'" if "(if poll then queue_poll lt q t v else Some (l_read lt q v)) = Some (x, v')" for t v x v'
    using that queue_poll_keeps[OF assms, of q t v x v'] K(9)[of q v x v'] by (cases poll) auto
  show ?case using Cons.prems
  proof (cases rule: queue_round_cases)
    case unsent
    show ?thesis by (rule keeps_all_trans[OF K(1)[OF unsent(1)] K(8)[OF unsent(2)]])
  next
    case unread
    show ?thesis
      by (rule keeps_all_trans[OF keeps_all_trans[OF K(1)[OF unread(1)] K(8)[OF unread(2)]] keeps_all_trans[OF read[OF unread(3)] K(1)[OF unread(4)]]])
  next
    case served
    show ?thesis
      by (rule keeps_all_trans[OF keeps_all_trans[OF keeps_all_trans[OF K(1)[OF served(1)] K(8)[OF served(2)]]
        keeps_all_trans[OF read[OF served(3)] K(1)[OF served(4)]]] Cons.IH[OF served(6)]])
  qed
qed simp

lemma rtt_queue_held:
  assumes laws: "lat_laws hs lt held mal qs" and r: "rtt_queue lt iters test w = Some w'"
  shows "held w' = held w \<and> mal w' = mal w \<and> qs w \<subseteq># qs w'"
proof -
  note K = lat_keeps[OF laws] and E = lat_effects[OF laws]
  obtain md poll ub where t: "test = (md, poll, ub)" by (metis prod_cases3)
  obtain e q w1 where c: "l_create lt w = ((e, q), w1)" by (metis prod.exhaust)
  note ec = E(6)[OF c]
  obtain e2 ident w2 where x: "(if e = 0 then l_export lt q w1 else ((e, 0), w1)) = ((e2, ident), w2)" by (metis prod.exhaust)
  have kx: "keeps_all held mal qs w1 w2" using x K(6)[of q w1] by (auto split: if_splits)
  obtain e3 w3 where s: "(if e2 = 0 then l_start lt ident md w2 else (e2, w2)) = (e3, w3)" by (metis prod.exhaust)
  have ks: "keeps_all held mal qs w1 w3" using s K(7)[of ident md w2] kx keeps_all_trans[OF kx] by (auto split: if_splits)
  have e0: "e3 = 0 \<Longrightarrow> e = 0" using s x by (auto split: if_splits)
  show ?thesis
  proof (cases "e3 = 0")
    case False
    define w4 where "w4 = l_print lt (R_start_error (F_queue md poll ub) e3) w3"
    have k4: "keeps_all held mal qs w1 w4" unfolding w4_def by (rule keeps_all_trans[OF ks K(5)])
    have "w' = (if q \<noteq> 0 then l_qclose lt q w4 else w4)" using r False by (auto simp: rtt_queue_def t c x s w4_def Let_def)
    then show ?thesis using k4 ec by (auto simp: keeps_all_def E(7-9))
  next
    case True
    then obtain failed us w4 where l: "queue_rounds lt q poll ub iters [0..<unat (iters + 10) + 1] [] w3 = Some (failed, us, w4)"
      "(if failed then Some (l_print lt (R_io_error (F_queue md poll ub)) w4)
        else let ((e, served), w) = l_stop lt w4; w = l_qclose lt q w in Some (print_dist (l_print lt) (F_served md poll ub served e) us w)) = Some w'"
      using r by (auto simp: rtt_queue_def t c x s bind_eq_Some_conv simp del: upt_Suc)
    have k4: "keeps_all held mal qs w1 w4" by (rule keeps_all_trans[OF ks queue_rounds_keeps[OF laws l(1)]])
    obtain e5 sv w5 where st: "l_stop lt w4 = ((e5, sv), w5)" by (metis prod.exhaust)
    have k5: "keeps_all held mal qs w1 w5" by (rule keeps_all_trans[OF k4 K(3)[OF st]])
    show ?thesis
      using l(2) k4 k5 K(5)[of w4 "R_io_error (F_queue md poll ub)"] ec e0[OF True]
        print_dist_keeps[OF laws, of "l_qclose lt q w5" "F_served md poll ub sv e5" us]
      by (auto simp: st keeps_all_def E(7-9) split: if_splits)
  qed
qed

lemma run_tests_held:
  assumes "\<And>x w w'. f x w = Some w' \<Longrightarrow> held w' = held w \<and> mal w' = mal w \<and> qs w \<subseteq># qs w'"
  shows "run_tests f xs w = Some w' \<Longrightarrow> held w' = held w \<and> mal w' = mal w \<and> qs w \<subseteq># qs w'"
proof (induction xs arbitrary: w)
  case (Cons x xs)
  then obtain v where "f x w = Some v" "run_tests f xs v = Some w'" by (auto simp: bind_eq_Some_conv)
  then show ?case using assms[of x w v] Cons.IH[of v] subset_mset.order_trans[of "qs w" "qs v" "qs w'"] by auto
qed simp

lemma rtt_queue_part_held:
  assumes hl: "host_laws hs held" and laws: "lat_laws hs lt held mal qs" and r: "rtt_queue_part hs lt iters w = Some (rc, w')"
  shows "held w' = held w \<and> mal w' = mal w \<and> qs w \<subseteq># qs w'"
proof -
  note L = held_laws[OF hl] and H = host_own[OF laws] and E = lat_effects[OF laws]
  obtain a w1 where a: "h_alloc hs fence_bytes w = (a, w1)" by fastforce
  have ha: "held w1 = (if a = 0 then held w else (held w)\<lparr>hd_mem := add_mset a (hd_mem (held w))\<rparr>)" "mal w1 = mal w" "qs w1 = qs w"
    using L(9)[of fence_bytes w] H(1)[OF a] by (simp_all add: a)
  obtain f w2 where f: "(if a = 0 then (-1, w1) else h_to_fd hs a w1) = (f, w2)" by fastforce
  have hf: "held w2 = held w1" "mal w2 = mal w" "qs w2 = qs w" "a = 0 \<Longrightarrow> f = -1"
    using f L(6)[of a w1] H(2)[of a w1 f w2] ha by (auto split: if_splits)
  obtain bad w3 where b: "(if f < 0 then (True, w2) else let (e, w) = l_pin lt f a fence_bytes w2 in (e \<noteq> 0, w)) = (bad, w3)" by fastforce
  have hb: "held w3 = (if bad then held w2 else (held w2)\<lparr>hd_mmaps := add_mset f (hd_mmaps (held w2))\<rparr>)" "mal w3 = mal w" "qs w3 = qs w"
    "f < 0 \<Longrightarrow> bad"
    using b E(5)[of f a fence_bytes w2] hf by (auto split: if_splits prod.splits)
  obtain rc1 w4 where m: "(if bad then Some (EXIT_RPC, w3)
      else Option.bind (run_tests (rtt_queue lt iters) queue_tests w3) (\<lambda>w. Some (0, h_munmap hs f a fence_bytes w))) = Some (rc1, w4)"
    and w': "w' = (if a \<noteq> 0 then h_free hs a w4 else w4)"
    using r by (auto simp: rtt_queue_part_def a f b bind_eq_Some_conv)
  have h4: "held w4 = held w2 \<and> mal w4 = mal w \<and> qs w \<subseteq># qs w4"
  proof (cases bad)
    case True
    then show ?thesis using m hb by simp
  next
    case False
    then obtain v where v: "run_tests (rtt_queue lt iters) queue_tests w3 = Some v" "w4 = h_munmap hs f a fence_bytes v"
      using m by (auto simp: bind_eq_Some_conv)
    have "held v = held w3 \<and> mal v = mal w3 \<and> qs w3 \<subseteq># qs v"
      by (rule run_tests_held[OF _ v(1)]) (rule rtt_queue_held[OF laws])
    then show ?thesis using v(2) hb False by (simp add: L(16) H(6,7))
  qed
  then show ?thesis using ha hf w' by (auto simp: L(10) H(3,4))
qed

lemma rtt_fence_keeps:
  assumes laws: "lat_laws hs lt held mal qs"
  shows "keeps_all held mal qs w (rtt_fence lt f cmo iters w)"
proof -
  note K = lat_keeps[OF laws]
  obtain e w1 where t: "l_thread lt w = (e, w1)" by fastforce
  obtain e2 d s w2 where f: "l_fence lt f cmo iters 100000 w1 = ((e2, d, s), w2)" by (metis prod.exhaust)
  show ?thesis
    using K(4)[OF t] keeps_all_trans[OF K(4)[OF t] keeps_all_trans[OF K(11)[OF f] print_dist_keeps[OF laws]]]
    by (simp add: rtt_fence_def t f)
qed

text \<open>The end of the part with the fence buffer: all is given back, unless \<open>ddrbw_map\<close> failed after \<open>fastrpc_mmap\<close>. Then
  the FastRPC mapping of the buffer is left, and the memory is freed under it.\<close>

lemma rtt_fence_part_held:
  assumes hl: "host_laws hs held" and laws: "lat_laws hs lt held mal qs" and none: "hd_maps (held w) = {}"
    and r: "rtt_fence_part hs lt iters rc w = (rc', w')"
  shows "mal w' = mal w \<and> qs w' = qs w \<and>
    (held w' = held w \<or> rc' = EXIT_RPC \<and> (\<exists>f. held w' = (held w)\<lparr>hd_mmaps := add_mset f (hd_mmaps (held w))\<rparr>))"
proof -
  note L = held_laws[OF hl] and H = host_own[OF laws]
  obtain a w1 where a: "h_alloc hs fence_bytes w = (a, w1)" by fastforce
  have ha: "held w1 = (if a = 0 then held w else (held w)\<lparr>hd_mem := add_mset a (hd_mem (held w))\<rparr>)" "mal w1 = mal w" "qs w1 = qs w"
    using L(9)[of fence_bytes w] H(1)[OF a] by (simp_all add: a)
  obtain ok f w2 where b: "(if rc = 0 then fence_buffer hs a w1 else (False, -1, w1)) = (ok, f, w2)" by (metis prod_cases3)
  have hb: "mal w2 = mal w \<and> qs w2 = qs w \<and> (ok \<longrightarrow> rc = 0) \<and>
     (held w2 = held w1 \<and> \<not> ok \<or> rc = 0 \<and> \<not> ok \<and> held w2 = (held w1)\<lparr>hd_mmaps := add_mset f (hd_mmaps (held w1))\<rparr> \<or>
      ok \<and> held w2 = (held w1)\<lparr>hd_mmaps := add_mset f (hd_mmaps (held w1)), hd_maps := insert f (hd_maps (held w1))\<rparr>)"
  proof (cases "rc = 0 \<and> a \<noteq> 0")
    case False
    then have "w2 = w1" "\<not> ok" using b by (auto simp: fence_buffer_def split: if_splits)
    then show ?thesis using ha by simp
  next
    case True
    obtain g v1 where g: "h_to_fd hs a w1 = (g, v1)" by fastforce
    obtain e2 v2 where m: "h_mmap hs g a fence_bytes v1 = (e2, v2)" by fastforce
    obtain e3 v3 where d: "h_map hs g DDRBW_FENCE_BYTES v2 = (e3, v3)" by fastforce
    have "held v1 = held w1" "held v2 = (if e2 = 0 then (held v1)\<lparr>hd_mmaps := add_mset g (hd_mmaps (held v1))\<rparr> else held v1)"
      "held v3 = (if e3 = AEE_SUCCESS then (held v2)\<lparr>hd_maps := insert g (hd_maps (held v2))\<rparr> else held v2)"
      using L(6)[of a w1] L(15)[of g a fence_bytes v1] L(17)[of g DDRBW_FENCE_BYTES v2] by (simp_all add: g m d)
    moreover have "mal v1 = mal w \<and> qs v1 = qs w \<and> mal v2 = mal w \<and> qs v2 = qs w \<and> mal v3 = mal w \<and> qs v3 = qs w"
      using H(2)[OF g] H(5)[OF m] H(8)[OF d] ha by simp
    moreover have "(ok, f, w2) = (if g < 0 then (False, g, v1) else if e2 \<noteq> 0 then (False, g, v2) else (e3 = AEE_SUCCESS, g, v3))"
      using b True by (simp add: fence_buffer_def g m d cong: if_cong)
    ultimately show ?thesis using True by (auto split: if_splits)
  qed
  define w3 where "w3 = (if ok then rtt_fence lt f True (iters * 10) (rtt_fence lt f False (iters * 10) w2) else w2)"
  have k3: "held w3 = held w2" "mal w3 = mal w2" "qs w3 = qs w2"
    using keeps_all_trans[OF rtt_fence_keeps[OF laws, of w2 f False "iters * 10"] rtt_fence_keeps[OF laws, of _ f True "iters * 10"]]
    by (simp_all add: w3_def keeps_all_def)
  obtain e4 w4 where u: "h_unmap hs f w3 = (e4, w4)" by fastforce
  have hu: "held w4 = (held w3)\<lparr>hd_maps := hd_maps (held w3) - {f}\<rparr>" "mal w4 = mal w3" "qs w4 = qs w3"
    using L(18)[of f w3] H(9)[OF u] by (simp_all add: u)
  have w4: "w4 = snd (h_unmap hs f w3)" by (simp add: u)
  define w5 where "w5 = (if ok then h_munmap hs f a fence_bytes w4 else w2)"
  have res: "rc' = (if rc = 0 \<and> \<not> ok then EXIT_RPC else rc)" "w' = (if a \<noteq> 0 then h_free hs a w5 else w5)"
  proof -
    have "(rc', w') = (if rc = 0 \<and> \<not> ok then EXIT_RPC else rc, if a \<noteq> 0 then h_free hs a w5 else w5)"
      using r hb unfolding rtt_fence_part_def a b Let_def prod.case w5_def
      by (cases ok; cases "rc = 0") (simp_all add: w3_def w4 case_prod_beta EXIT_RPC_def split: if_splits)
    then show "rc' = (if rc = 0 \<and> \<not> ok then EXIT_RPC else rc)" "w' = (if a \<noteq> 0 then h_free hs a w5 else w5)" by simp_all
  qed
  have h5: "mal w5 = mal w" "qs w5 = qs w" using hb k3 hu by (simp_all add: w5_def H(6,7))
  have n1: "hd_maps (held w1) = {}" using none ha(1) by simp
  have "held w5 = held w1 \<or> rc' = EXIT_RPC \<and> held w5 = (held w1)\<lparr>hd_mmaps := add_mset f (hd_mmaps (held w1))\<rparr>"
  proof (cases ok)
    case True
    then have "held w5 = held w1" using hb k3 hu n1 by (simp add: w5_def L(16))
    then show ?thesis ..
  next
    case False
    then show ?thesis using hb res(1) by (auto simp: w5_def)
  qed
  then show ?thesis using res(2) ha h5 by (auto simp: L(10) H(3,4))
qed

lemma mode_rtt_held:
  assumes hl: "host_laws hs held" and laws: "lat_laws hs lt held mal qs" and none: "hd_maps (held w) = {}"
    and r: "mode_rtt hs lt opt w = Some (rc, w')"
  shows "mal w' = mal w \<and> qs w \<subseteq># qs w' \<and>
    (held w' = held w \<or> rc = EXIT_RPC \<and> (\<exists>f. held w' = (held w)\<lparr>hd_mmaps := add_mset f (hd_mmaps (held w))\<rparr>))"
proof -
  note E = lat_effects[OF laws]
  obtain ok w1 where a: "l_malloc lt (8 * (unat (o_iters opt) * 10 + 64)) w = (ok, w1)" by fastforce
  note ea = E(1)[OF a]
  show ?thesis
  proof (cases ok)
    case False
    then show ?thesis using r ea unfolding mode_rtt_def a Let_def prod.case by simp
  next
    case True
    define w2 where "w2 = rtt_fastrpc lt (o_iters opt) w1"
    have k2: "keeps_all held mal qs w1 w2" unfolding w2_def by (rule rtt_fastrpc_keeps[OF laws])
    have "Option.bind (rtt_queue_part hs lt (o_iters opt) w2) (\<lambda>(rc, w). let (rc, w) = rtt_fence_part hs lt (o_iters opt) rc w in Some (rc, l_mfree lt w))
      = Some (rc, w')" using r True unfolding mode_rtt_def a Let_def prod.case w2_def[symmetric] by simp
    then obtain rc1 w3 where q: "rtt_queue_part hs lt (o_iters opt) w2 = Some (rc1, w3)"
      "(let (rc, w) = rtt_fence_part hs lt (o_iters opt) rc1 w3 in Some (rc, l_mfree lt w)) = Some (rc, w')"
      unfolding bind_eq_Some_conv by fastforce
    note hq = rtt_queue_part_held[OF hl laws q(1)]
    obtain rc2 w4 where f: "rtt_fence_part hs lt (o_iters opt) rc1 w3 = (rc2, w4)" by fastforce
    have "hd_maps (held w3) = {}" using hq k2 ea none by (simp add: keeps_all_def)
    from rtt_fence_part_held[OF hl laws this f] show ?thesis
      using q(2) hq k2 ea True by (auto simp: f keeps_all_def E(2-4))
  qed
qed

lemma map_rounds_held:
  assumes hl: "host_laws hs held" and laws: "lat_laws hs lt held mal qs"
  shows "map_rounds hs lt f sz n us w = (rc, us', w') \<Longrightarrow> hd_maps (held w) = {} \<Longrightarrow>
    keeps_all held mal qs w w' \<and> length us' \<le> length us + n \<and> (rc = 0 \<longrightarrow> length us' = length us + n)"
proof (induction n arbitrary: us w)
  case (Suc n)
  note L = held_laws[OF hl] and H = host_own[OF laws] and K = lat_keeps[OF laws]
  obtain h0 w1 where 1: "l_cntvct lt w = (h0, w1)" by fastforce
  obtain e w2 where 2: "h_map hs f sz w1 = (e, w2)" by fastforce
  obtain h1 w3 where 3: "l_cntvct lt w2 = (h1, w3)" by fastforce
  obtain e2 w4 where 4: "(if e = AEE_SUCCESS then h_unmap hs f w3 else (e, w3)) = (e2, w4)" by fastforce
  have k3: "held w3 = (if e = AEE_SUCCESS then (held w)\<lparr>hd_maps := {f}\<rparr> else held w)" "mal w3 = mal w" "qs w3 = qs w"
    using K(1)[OF 1] L(17)[of f sz w1] H(8)[OF 2] K(1)[OF 3] Suc.prems(2) by (simp_all add: 2 keeps_all_def)
  have k4: "keeps_all held mal qs w w4"
  proof (cases "e = AEE_SUCCESS")
    case True
    then have u: "h_unmap hs f w3 = (e2, w4)" using 4 by simp
    have "(held w)\<lparr>hd_maps := {}\<rparr> = held w" using Suc.prems(2) by simp
    then show ?thesis using k3 True L(18)[of f w3] H(9)[OF u] by (simp add: u keeps_all_def)
  next
    case False
    then show ?thesis using 4 k3 by (simp add: keeps_all_def)
  qed
  show ?case
  proof (cases "e2 = AEE_SUCCESS")
    case False
    then show ?thesis using Suc.prems k4 by (simp add: 1 2 3 4 Let_def EXIT_RPC_def)
  next
    case True
    have h: "hd_maps (held w4) = {}" using k4 Suc.prems(2) by (simp add: keeps_all_def)
    from True have "map_rounds hs lt f sz n (us @ [(dsp_us (l_ticks lt w2), dsp_us (l_ticks lt w4), us_of (l_cntfrq lt) (h1 - h0))]) w4 = (rc, us', w')"
      using Suc.prems(1) by (simp add: 1 2 3 4 Let_def)
    from Suc.IH[OF this h] keeps_all_trans[OF k4] show ?thesis by auto
  qed
qed simp

lemma free_arrays_held:
  assumes laws: "lat_laws hs lt held mal qs"
  shows "held (free_arrays lt oks w) = held w" "qs (free_arrays lt oks w) = qs w" "mal (free_arrays lt oks w) = mal w - length (filter (\<lambda>ok. ok) oks)"
  using lat_effects(2-4)[OF laws] by (induction oks arbitrary: w) simp_all

text \<open>The counter advances while \<open>fastrpc_mmap\<close> runs.\<close>

definition mmap_takes_time :: "'w host \<Rightarrow> 'w lat \<Rightarrow> bool" where
  "mmap_takes_time hs lt \<longleftrightarrow> (\<forall>w a f n. fst (l_cntvct lt (snd (h_mmap hs f a n (snd (l_cntvct lt (snd (h_to_fd hs a (snd (l_cntvct lt w)))))))))
     \<noteq> fst (l_cntvct lt w))"

lemma mode_mapcost_held:
  assumes hl: "host_laws hs held" and laws: "lat_laws hs lt held mal qs" and time: "mmap_takes_time hs lt"
    and none: "hd_maps (held w) = {}" "hd_mmaps (held w) = {#}" and r: "mode_mapcost hs lt opt w = (rc, w')"
  shows "keeps_all held mal qs w w'"
proof -
  note L = held_laws[OF hl] and H = host_own[OF laws] and K = lat_keeps[OF laws] and E = lat_effects[OF laws]
  let ?n = "8 * unat (o_iters opt)" and ?sz = "mb_bytes opt"
  obtain ok1 v1 where a1: "l_malloc lt ?n w = (ok1, v1)" by fastforce
  obtain ok2 v2 where a2: "l_malloc lt ?n v1 = (ok2, v2)" by fastforce
  obtain ok3 v3 where a3: "l_malloc lt ?n v2 = (ok3, v3)" by fastforce
  have m3: "held v3 = held w" "qs v3 = qs w" "mal v3 = mal w + length (filter (\<lambda>ok. ok) [ok1, ok2, ok3])"
    using E(1)[OF a1] E(1)[OF a2] E(1)[OF a3] by simp_all
  define v where "v x = free_arrays lt [ok1, ok2, ok3] x" for x
  show ?thesis
  proof (cases "ok1 \<and> ok2 \<and> ok3")
    case False
    then have "w' = free_arrays lt [ok1, ok2, ok3] v3" using r by (auto simp: mode_mapcost_def a1 a2 a3)
    then show ?thesis using m3 by (simp add: keeps_all_def free_arrays_held[OF laws] del: free_arrays.simps)
  next
    case True
    obtain t0 w1 where 1: "l_cntvct lt v3 = (t0, w1)" by fastforce
    obtain a w2 where 2: "h_alloc hs ?sz w1 = (a, w2)" by fastforce
    obtain t1 w3 where 3: "l_cntvct lt w2 = (t1, w3)" by fastforce
    obtain f w4 where 4: "(if a \<noteq> 0 then h_to_fd hs a w3 else (-1, w3)) = (f, w4)" by fastforce
    have h4: "held w4 = (if a = 0 then held w else (held w)\<lparr>hd_mem := add_mset a (hd_mem (held w))\<rparr>)" "mal w4 = mal w + 3" "qs w4 = qs w"
      using K(1)[OF 1] L(9)[of ?sz w1] H(1)[OF 2] K(1)[OF 3] L(6)[of a w3] H(2)[of a w3 f w4] 4 m3 True
      by (auto simp: 2 keeps_all_def split: if_splits)
    obtain t2 w5 where 5: "l_cntvct lt w4 = (t2, w5)" by fastforce
    obtain e w6 where 6: "h_mmap hs f a ?sz w5 = (e, w6)" by fastforce
    obtain t3 w7 where 7: "l_cntvct lt w6 = (t3, w7)" by fastforce
    have h7: "held w7 = (if e = 0 then (held w4)\<lparr>hd_mmaps := {#f#}\<rparr> else held w4)" "mal w7 = mal w4" "qs w7 = qs w4"
      using K(1)[OF 5] L(15)[of f a ?sz w5] H(5)[OF 6] K(1)[OF 7] h4(1) none(2) by (auto simp: 6 keeps_all_def)
    have t: "f \<ge> 0 \<Longrightarrow> t3 \<noteq> t1"
      using time[unfolded mmap_takes_time_def, rule_format, of f a ?sz w2] 3 4 5 6 7 by (auto split: if_splits)
    define rc1 where "rc1 = (if f < 0 \<or> e \<noteq> 0 then EXIT_RPC else 0)"
    obtain rc2 us w8 where 8: "(if rc1 = 0 then map_rounds hs lt f (of_nat ?sz) (unat (o_iters opt) + 1) [] w7
      else (rc1, [], if f < 0 then w4 else w7)) = (rc2, us, w8)" by (metis prod_cases3)
    have maps: "hd_maps (held w7) = {}" using h7 h4 none by (simp split: if_splits)
    have h8: "held w8 = (if f < 0 then held w4 else held w7)" "mal w8 = mal w4" "qs w8 = qs w4"
      using 8 map_rounds_held[OF hl laws, of f "of_nat ?sz" "unat (o_iters opt) + 1" "[]" w7 rc2 us w8] maps h7
      by (auto simp: rc1_def keeps_all_def EXIT_RPC_def split: if_splits)
    obtain t4 w9 where 9: "l_cntvct lt w8 = (t4, w9)" by fastforce
    define w10 where "w10 = (if f \<ge> 0 then h_munmap hs f a ?sz w9 else w9)"
    have h10: "held w10 = held w4" "mal w10 = mal w4" "qs w10 = qs w4"
      using K(1)[OF 9] h8 h7 h4 none(2) by (auto simp: w10_def keeps_all_def L(16) H(6,7))
    obtain t5 w11 where 11: "l_cntvct lt w10 = (t5, w11)" by fastforce
    define w12 where "w12 = (if a \<noteq> 0 then h_free hs a w11 else w11)"
    have h12: "held w12 = held w" "mal w12 = mal w + 3" "qs w12 = qs w"
      using K(1)[OF 11] h10 h4 by (auto simp: w12_def keeps_all_def L(10) H(3,4))
    define tail where "tail = (\<lambda>(rc, t2, t3, w). let (rc, us, w) = (if rc = 0 then map_rounds hs lt f (of_nat ?sz) (unat (o_iters opt) + 1) [] w else (rc, [], w));
             (t4, w) = l_cntvct lt w;
             w = (if 0 \<le> f \<and> t3 \<noteq> t1 then h_munmap hs f a ?sz w else w);
             (t5, w) = l_cntvct lt w;
             w = (if a \<noteq> 0 then h_free hs a w else w);
             w = (if rc = 0
                  then let w = l_print lt (R_mapcost (unat (o_mb opt)) (t1 - t0) (t3 - t2) (t5 - t4) (fst (us ! 0)) (fst (snd (us ! 0))) (snd (snd (us ! 0)))) w;
                           w = print_dist (l_print lt) (F_map (unat (o_mb opt))) (map fst (tl us)) w;
                           w = print_dist (l_print lt) (F_unmap (unat (o_mb opt))) (map (fst \<circ> snd) (tl us)) w
                    in print_dist (l_print lt) (F_call (unat (o_mb opt))) (map (snd \<circ> snd) (tl us)) w
                  else w)
           in (rc, free_arrays lt [True, True, True] w))"
    have "mode_mapcost hs lt opt w = tail (if f < 0 then (rc1, t1, t1, w4) else (rc1, t2, t3, w7))"
      using True unfolding mode_mapcost_def tail_def Let_def a1 a2 a3 1 2 3 4 prod.case
      by (simp add: 5 6 7 rc1_def EXIT_RPC_def del: map_rounds.simps)
    then have w': "(rc, w') = tail (rc1, if f < 0 then t1 else t2, if f < 0 then t1 else t3, if f < 0 then w4 else w7)"
      using r by (simp split: if_splits)
    have "\<exists>x. keeps_all held mal qs w12 x \<and> w' = free_arrays lt [True, True, True] x"
    proof (cases "rc2 = 0")
      case False
      have "(if 0 \<le> f \<and> (if f < 0 then t1 else t3) \<noteq> t1 then h_munmap hs f a ?sz w9 else w9) = w10" using t by (simp add: w10_def)
      moreover have "(if rc1 = 0 then map_rounds hs lt f (of_nat ?sz) (unat (o_iters opt) + 1) [] (if f < 0 then w4 else w7)
          else (rc1, [], if f < 0 then w4 else w7)) = (rc2, us, w8)" using 8 by (simp add: rc1_def EXIT_RPC_def split: if_splits)
      ultimately have "w' = free_arrays lt [True, True, True] w12"
        using w' False unfolding tail_def prod.case by (simp add: 9 11 w12_def del: map_rounds.simps)
      then show ?thesis by (intro exI[of _ w12]) simp
    next
      case r0: True
      have f0: "\<not> f < 0" "e = 0" using 8 r0 by (auto simp: rc1_def EXIT_RPC_def split: if_splits)
      define x where "x = print_dist (l_print lt) (F_call (unat (o_mb opt))) (map (snd \<circ> snd) (tl us))
        (print_dist (l_print lt) (F_unmap (unat (o_mb opt))) (map (fst \<circ> snd) (tl us))
        (print_dist (l_print lt) (F_map (unat (o_mb opt))) (map fst (tl us))
        (l_print lt (R_mapcost (unat (o_mb opt)) (t1 - t0) (t3 - t2) (t5 - t4) (fst (us ! 0)) (fst (snd (us ! 0))) (snd (snd (us ! 0)))) w12)))"
      have "keeps_all held mal qs w12 x" unfolding x_def
        by (rule keeps_all_trans[OF keeps_all_trans[OF keeps_all_trans[OF K(5) print_dist_keeps[OF laws]] print_dist_keeps[OF laws]] print_dist_keeps[OF laws]])
      moreover have "w' = free_arrays lt [True, True, True] x"
      proof -
        have "map_rounds hs lt f (of_nat ?sz) (unat (o_iters opt) + 1) [] w7 = (0, us, w8)" "rc1 = 0" "w10 = h_munmap hs f a ?sz w9"
          using 8 f0 r0 by (simp_all add: rc1_def w10_def del: map_rounds.simps)
        moreover have "l_cntvct lt (h_munmap hs f a ?sz w9) = (t5, w11)" using 11 f0 by (simp add: w10_def)
        ultimately show ?thesis using w' f0 t unfolding tail_def prod.case by (simp add: 9 w12_def x_def del: map_rounds.simps)
      qed
      ultimately show ?thesis by blast
    qed
    then obtain x where "keeps_all held mal qs w12 x" "w' = free_arrays lt [True, True, True] x" by blast
    then show ?thesis using h12 by (simp add: keeps_all_def free_arrays_held[OF laws] del: free_arrays.simps)
  qed
qed

end
