(* ===== verification/FloatOrder.thy ===== *)
theory FloatOrder
  imports SoftFloat Complex_Main
begin

text \<open>
  The order of the values of \<open>SoftFloat\<close> and bounds for the result of an operation: a rounded result stays between two values
  of the format that enclose the exact result.
\<close>

subsection \<open>The value of a pattern\<close>

definition fval :: "fp \<Rightarrow> real" where
  "fval x = (case x of Fin s m e \<Rightarrow> real_of_int (signed s m) * 2 powi e | _ \<Rightarrow> 0)"

lemma fval_pos [simp]: "fval (Fin False m e) = real m * 2 powi e"
  by (simp add: fval_def signed_def)

lemma align_fval: "c \<le> e \<Longrightarrow> real (align m e c) * 2 powi c = real m * 2 powi e"
proof -
  assume "c \<le> e"
  then have "(2::real) powi e = 2 ^ nat (e - c) * 2 powi c"
    by (metis add.commute diff_add_cancel int_nat_eq le_iff_diff_le_0 linorder_not_le power_int_add power_int_of_nat diff_ge_0_iff_ge zero_neq_numeral)
  then show ?thesis by (simp add: align_def)
qed

lemma signed_align_val: "c \<le> e \<Longrightarrow> real_of_int (signed s (align m e c)) * 2 powi c = fval (Fin s m e)"
  using align_fval[of c e m] by (simp add: signed_def fval_def)

lemma fp_less_val: "fp_less (Fin s m e) (Fin t n d) \<longleftrightarrow> fval (Fin s m e) < fval (Fin t n d)"
proof -
  define c where "c = min e d"
  have "c \<le> e" "c \<le> d" by (simp_all add: c_def)
  then have "fval (Fin s m e) = real_of_int (signed s (align m e c)) * 2 powi c" "fval (Fin t n d) = real_of_int (signed t (align n d c)) * 2 powi c"
    by (simp_all add: signed_align_val)
  then show ?thesis unfolding fp_less.simps Let_def c_def[symmetric] by simp
qed

subsection \<open>Bounds of a rounded value\<close>

definition is_rep :: "fmt \<Rightarrow> real \<Rightarrow> bool" where
  "is_rep f r \<longleftrightarrow> (\<exists>n d. in_fmt f (Fin False n d) \<and> r = real n * 2 powi d)"

definition in_range :: "fmt \<Rightarrow> real \<Rightarrow> real \<Rightarrow> fp \<Rightarrow> bool" where
  "in_range f lo hi x \<longleftrightarrow> in_fmt f x \<and> (\<exists>k c. x = Fin False k c) \<and> lo \<le> fval x \<and> fval x \<le> hi"

lemma powi_split: "c \<le> e \<Longrightarrow> (2::real) powi e = 2 ^ nat (e - c) * 2 powi c"
  using align_fval[of c e 1] by (simp add: align_def)

lemma round_fp_steps:
  assumes "m \<noteq> 0"
  obtains e1 q where "e1 = max (e_min f) (e + int (bit_length m) - int (prec f))"
    "q = (if e1 \<ge> e then shift_rne m (nat (e1 - e)) else m * 2 ^ nat (e - e1))"
    "round_fp f s m e = (if q = 2 ^ prec f then (if e1 + 1 > e_max f then Inf s else Fin s (q div 2) (e1 + 1))
      else if e1 > e_max f then Inf s else Fin s q e1)"
proof -
  define e1 where "e1 = max (e_min f) (e + int (bit_length m) - int (prec f))"
  define q where "q = (if e1 \<ge> e then shift_rne m (nat (e1 - e)) else m * 2 ^ nat (e - e1))"
  show thesis
    by (rule that[OF e1_def q_def]) (use assms in \<open>simp add: round_fp_def Let_def e1_def[symmetric] q_def[symmetric]\<close>)
qed

lemma real_pow_le: "real m \<le> real n * 2 ^ k \<longleftrightarrow> m \<le> n * 2 ^ k" "real m * 2 ^ k \<le> real n \<longleftrightarrow> m * 2 ^ k \<le> n"
  using of_nat_le_iff[of m "n * 2 ^ k", where ?'a = real] of_nat_le_iff[of "m * 2 ^ k" n, where ?'a = real] by simp_all

text \<open>An integer multiple of the unit bounds the rounded significand.\<close>

lemma unit_le:
  assumes "real m * 2 powi e \<le> real n * 2 powi a" "q = (if a \<ge> e then shift_rne m (nat (a - e)) else m * 2 ^ nat (e - a))"
  shows "q \<le> n"
proof (cases "a \<ge> e")
  case True
  have "real m \<le> real n * 2 ^ nat (a - e)" using assms(1) powi_split[OF True] by (simp add: mult.assoc[symmetric])
  then have "m \<le> n * 2 ^ nat (a - e)" by (simp only: real_pow_le)
  then show ?thesis using True shift_rne_le by (simp add: assms(2))
next
  case False
  then have "real m * 2 ^ nat (e - a) \<le> real n" using assms(1) powi_split[of a e] by (simp add: mult.assoc[symmetric])
  then have "m * 2 ^ nat (e - a) \<le> n" by (simp only: real_pow_le)
  then show ?thesis using False by (simp add: assms(2))
qed

lemma unit_ge:
  assumes "real n * 2 powi a \<le> real m * 2 powi e" "q = (if a \<ge> e then shift_rne m (nat (a - e)) else m * 2 ^ nat (e - a))"
  shows "n \<le> q"
proof (cases "a \<ge> e")
  case True
  have "real n * 2 ^ nat (a - e) \<le> real m" using assms(1) powi_split[OF True] by (simp add: mult.assoc[symmetric])
  then have "n * 2 ^ nat (a - e) \<le> m" by (simp only: real_pow_le)
  then show ?thesis using True shift_rne_ge by (simp add: assms(2))
next
  case False
  then have "real n \<le> real m * 2 ^ nat (e - a)" using assms(1) powi_split[of a e] by (simp add: mult.assoc[symmetric])
  then have "n \<le> m * 2 ^ nat (e - a)" by (simp only: real_pow_le)
  then show ?thesis using False by (simp add: assms(2))
qed

lemma powi_less: "(2::real) powi a < 2 powi b \<longleftrightarrow> a < b"
  using power_int_strict_increasing[of a b "2::real"] power_int_strict_increasing[of b a "2::real"]
  by (cases a b rule: linorder_cases) auto

lemma fmt_val_less: "in_fmt f (Fin s n d) \<Longrightarrow> real n * 2 powi d < 2 powi (int (prec f) + d)"
proof -
  assume "in_fmt f (Fin s n d)"
  then have "n < 2 ^ prec f" by (simp add: in_fmt_def)
  then have "real n < 2 ^ prec f" by (metis of_nat_less_iff of_nat_numeral of_nat_power)
  then show ?thesis by (simp add: power_int_add)
qed

lemma top_bit_val: "m \<noteq> 0 \<Longrightarrow> 2 powi (int (bit_length m) - 1 + e) \<le> real m * 2 powi e"
proof -
  assume "m \<noteq> 0"
  then have b: "2 ^ (bit_length m - 1) \<le> m" "0 < bit_length m" using bit_length_bounds by auto
  have "real (2 ^ (bit_length m - 1)) \<le> real m" using b(1) of_nat_le_iff by blast
  then have "2 ^ (bit_length m - 1) * 2 powi e \<le> real m * 2 powi e" by (simp add: mult_right_mono)
  moreover have e: "int (bit_length m) - 1 + e = int (bit_length m - 1) + e" using b(2) by linarith
  moreover have p: "2 powi (int k + e) = (2 :: real) ^ k * 2 powi e" for k by (simp add: power_int_add)
  ultimately show ?thesis by (simp only: e p)
qed

lemma round_le:
  assumes g: "good_fmt f" and r: "in_fmt f (Fin False n d)" and le: "real m * 2 powi e \<le> real n * 2 powi d" and m: "m \<noteq> 0"
    and e1: "e1 = max (e_min f) (e + int (bit_length m) - int (prec f))"
    and q: "q = (if e1 \<ge> e then shift_rne m (nat (e1 - e)) else m * 2 ^ nat (e - e1))"
    and x: "round_fp f s m e = (if q = 2 ^ prec f then (if e1 + 1 > e_max f then Inf s else Fin s (q div 2) (e1 + 1))
      else if e1 > e_max f then Inf s else Fin s q e1)"
  obtains k c where "round_fp f s m e = Fin s k c" "real k * 2 powi c = real q * 2 powi e1" "real q * 2 powi e1 \<le> real n * 2 powi d"
proof -
  have d: "e_min f \<le> d" "d \<le> e_max f" "n < 2 ^ prec f" using r by (simp_all add: in_fmt_def)
  have "2 powi (int (bit_length m) - 1 + e) < (2::real) powi (int (prec f) + d)"
    by (rule order.strict_trans1[OF top_bit_val[OF m] order.strict_trans1[OF le fmt_val_less[OF r]]])
  then have "e + int (bit_length m) - int (prec f) \<le> d" unfolding powi_less by linarith
  then have ed: "e1 \<le> d" using d(1) by (simp add: e1)
  define N where "N = n * 2 ^ nat (d - e1)"
  have N: "real n * 2 powi d = real N * 2 powi e1" unfolding N_def powi_split[OF ed] by simp
  have qN: "q \<le> N" using unit_le[OF le[unfolded N] q] .
  then have v: "real q * 2 powi e1 \<le> real n * 2 powi d" by (simp add: N)
  show thesis
  proof (cases "q = 2 ^ prec f")
    case True
    have "e1 \<noteq> d" using True qN d(3) by (auto simp: N_def)
    then have le: "\<not> e1 + 1 > e_max f" using ed d(2) by simp
    obtain p where p: "prec f = Suc p" using g by (cases "prec f") (auto simp: good_fmt_def)
    have "real (q div 2) * 2 powi (e1 + 1) = real q * 2 powi e1" by (simp add: True p power_int_add)
    moreover have "round_fp f s m e = Fin s (q div 2) (e1 + 1)" using x le True by (simp only: if_True if_False simp_thms)
    ultimately show thesis using v by (intro that)
  next
    case False
    have "\<not> e1 > e_max f" using ed d(2) by simp
    then have "round_fp f s m e = Fin s q e1" using x False by (simp only: if_True if_False simp_thms)
    then show thesis using v by (intro that) simp_all
  qed
qed

lemma round_range:
  assumes g: "good_fmt f" and lo: "is_rep f lo" "lo \<le> real m * 2 powi e" and hi: "is_rep f hi" "real m * 2 powi e \<le> hi"
  shows "in_range f lo hi (round_fp f False m e)"
proof (cases "m = 0")
  case True
  have "0 \<le> hi" "lo \<le> 0" using hi lo True by simp_all
  then show ?thesis using round_fp_in_fmt[OF g, of False m e] by (simp add: in_range_def True)
next
  case m: False
  obtain n d where n: "in_fmt f (Fin False n d)" "hi = real n * 2 powi d" using hi(1) by (auto simp: is_rep_def)
  obtain l b where l: "in_fmt f (Fin False l b)" "lo = real l * 2 powi b" using lo(1) by (auto simp: is_rep_def)
  obtain e1 q where e1: "e1 = max (e_min f) (e + int (bit_length m) - int (prec f))"
    and q: "q = (if e1 \<ge> e then shift_rne m (nat (e1 - e)) else m * 2 ^ nat (e - e1))"
    and x: "round_fp f False m e = (if q = 2 ^ prec f then (if e1 + 1 > e_max f then Inf False else Fin False (q div 2) (e1 + 1))
      else if e1 > e_max f then Inf False else Fin False q e1)"
    by (rule round_fp_steps[OF m])
  obtain k c where k: "round_fp f False m e = Fin False k c" "real k * 2 powi c = real q * 2 powi e1" "real q * 2 powi e1 \<le> hi"
    using round_le[OF g n(1) hi(2)[unfolded n(2)] m e1 q x] n(2) by auto
  have "lo \<le> real q * 2 powi e1"
  proof (cases "e1 \<le> b")
    case True
    have "lo = real (l * 2 ^ nat (b - e1)) * 2 powi e1" by (simp add: l(2) powi_split[OF True])
    then show ?thesis using unit_ge[of "l * 2 ^ nat (b - e1)" e1 m e q] lo(2) q
      by (metis mult_right_mono of_nat_le_iff zero_le_numeral zero_le_power_int)
  next
    case False
    have "e_min f \<le> b" using l(1) by (simp add: in_fmt_def)
    then have e: "e1 = e + int (bit_length m) - int (prec f)" using False by (simp add: e1 max_def split: if_splits)
    obtain p where p: "prec f = Suc p" using g by (cases "prec f") (auto simp: good_fmt_def)
    have t: "real (2 ^ p) * 2 powi e1 \<le> real m * 2 powi e"
      using top_bit_val[OF m, of e] by (simp add: e p power_int_add[symmetric] power_int_of_nat[symmetric] add.commute del: power_int_of_nat)
    have "lo < 2 powi (int (prec f) + b)" using fmt_val_less[OF l(1)] by (simp add: l(2))
    also have "\<dots> \<le> 2 powi (int p + e1)" by (rule power_int_increasing) (use False p in simp_all)
    also have "\<dots> = real (2 ^ p) * 2 powi e1" by (simp add: power_int_add)
    also have "\<dots> \<le> real q * 2 powi e1" using unit_ge[OF t q] by (simp add: mult_right_mono del: of_nat_power)
    finally show ?thesis by simp
  qed
  then show ?thesis using k round_fp_in_fmt[OF g, of False m e] by (simp add: in_range_def)
qed

subsection \<open>Bounds of the operations\<close>

lemma mul_range:
  assumes "good_fmt f" "in_range f a b x" "in_range f c d y" "0 \<le> a" "0 \<le> c" "is_rep f lo" "lo \<le> a * c" "is_rep f hi" "b * d \<le> hi"
  shows "in_range f lo hi (fp_mul f x y)"
proof -
  obtain k i l j where x: "x = Fin False k i" and y: "y = Fin False l j" using assms(2,3) by (auto simp: in_range_def)
  have v: "real (k * l) * 2 powi (i + j) = fval x * fval y" by (simp add: x y power_int_add)
  have "a \<le> fval x" "fval x \<le> b" "c \<le> fval y" "fval y \<le> d" using assms(2,3) by (simp_all add: in_range_def)
  then have "a * c \<le> fval x * fval y" "fval x * fval y \<le> b * d" using assms(4,5) by (simp_all add: mult_mono)
  then show ?thesis using round_range[OF assms(1,6) _ assms(8), of "k * l" "i + j", unfolded v] assms(7,9) by (simp add: x y)
qed

lemma add_range:
  assumes "good_fmt f" "in_range f a b x" "in_range f c d y" "is_rep f lo" "lo \<le> a + c" "is_rep f hi" "b + d \<le> hi"
  shows "in_range f lo hi (fp_add f x y)"
proof -
  obtain k i l j where x: "x = Fin False k i" and y: "y = Fin False l j" using assms(2,3) by (auto simp: in_range_def)
  define h where "h = min i j"
  have "h \<le> i" "h \<le> j" by (simp_all add: h_def)
  then have v: "real (align k i h + align l j h) * 2 powi h = fval x + fval y" by (simp add: x y distrib_right align_fval)
  have bd: "lo \<le> fval x + fval y" "fval x + fval y \<le> hi" using assms(2,3,5,7) by (auto simp: in_range_def)
  have "fp_add f x y = round_fp f False (align k i h + align l j h) h"
    unfolding x y fp_add.simps Let_def h_def[symmetric]
    by (cases "align k i h + align l j h = 0") (auto simp: signed_def nat_add_distrib simp flip: of_nat_add)
  then show ?thesis using round_range[OF assms(1,4) _ assms(6), of "align k i h + align l j h" h] v bd by simp
qed

lemma is_rep_0 [simp]: "good_fmt f \<Longrightarrow> is_rep f 0"
  unfolding is_rep_def by (rule exI[of _ 0], rule exI[of _ "e_min f"]) (simp add: in_fmt_def good_fmt_def)

lemma in_range_weaken: "in_range f a b x \<Longrightarrow> c \<le> a \<Longrightarrow> b \<le> d \<Longrightarrow> in_range f c d x"
  by (auto simp: in_range_def)

lemma in_range_is_rep: "in_range f a b x \<Longrightarrow> is_rep f (fval x)"
  unfolding in_range_def is_rep_def by (metis fval_pos)

lemma in_range_less: "in_range f a b x \<Longrightarrow> in_range g c d y \<Longrightarrow> fp_less x y \<longleftrightarrow> fval x < fval y"
  unfolding in_range_def using fp_less_val by fastforce

lemma is_rep_scaled:
  assumes "good_fmt f" "n < 2 ^ prec f" "e_min f \<le> e" "e \<le> e_max f"
  shows "is_rep f (real n * 2 powi e)"
proof (cases "n = 0")
  case True
  then show ?thesis using is_rep_0[OF assms(1)] by simp
next
  case False
  define L where "L = bit_length n"
  have L: "2 ^ (L - 1) \<le> n" "n < 2 ^ L" "0 < L" using bit_length_bounds False unfolding L_def by auto
  have Lp: "L \<le> prec f" unfolding L_def by (rule bit_length_le[OF assms(2)])
  define k where "k = min (prec f - L) (nat (e - e_min f))"
  have k: "k \<le> prec f - L" "int k \<le> e - e_min f" using assms(3) by (simp_all add: k_def)
  have "2 ^ L * 2 ^ k \<le> (2::nat) ^ prec f" using k(1) Lp by (simp add: power_add[symmetric])
  moreover have "n * 2 ^ k < 2 ^ L * 2 ^ k" using L(2) by simp
  ultimately have up: "n * 2 ^ k < 2 ^ prec f" by linarith
  have low: "e - int k = e_min f \<or> 2 ^ (prec f - 1) \<le> n * 2 ^ k"
  proof (cases "k = prec f - L")
    case True
    then have "prec f - 1 = L - 1 + k" using L(3) Lp by linarith
    then show ?thesis using L(1) by (simp add: power_add)
  next
    case False
    then have "k = nat (e - e_min f)" by (simp add: k_def min_def split: if_splits)
    then show ?thesis using assms(3) by simp
  qed
  have "real (n * 2 ^ k) * 2 powi (e - int k) = real n * 2 powi e"
    using powi_split[of "e - int k" e] by simp
  moreover have "in_fmt f (Fin False (n * 2 ^ k) (e - int k))" using up low k(2) assms(4) by (simp add: in_fmt_def)
  ultimately show ?thesis unfolding is_rep_def by metis
qed

lemma sub_range:
  assumes "good_fmt f" "in_range f a b x" "in_range f c d y" "fval y \<le> fval x" "is_rep f lo" "lo \<le> a - d" "is_rep f hi" "b - c \<le> hi"
  shows "in_range f lo hi (fp_sub f x y)"
proof -
  obtain k i l j where x: "x = Fin False k i" and y: "y = Fin False l j" using assms(2,3) by (auto simp: in_range_def)
  define h where "h = min i j"
  have "h \<le> i" "h \<le> j" by (simp_all add: h_def)
  then have al: "real (align k i h) * 2 powi h = fval x" "real (align l j h) * 2 powi h = fval y" by (simp_all add: x y align_fval)
  then have "real (align l j h) * 2 powi h \<le> real (align k i h) * 2 powi h" using assms(4) by simp
  then have le: "align l j h \<le> align k i h" by simp
  then have v: "real (align k i h - align l j h) * 2 powi h = fval x - fval y"
    using al by (simp add: of_nat_diff left_diff_distrib)
  have bd: "lo \<le> fval x - fval y" "fval x - fval y \<le> hi" using assms(2,3,6,8) by (auto simp: in_range_def)
  have "fp_sub f x y = round_fp f False (align k i h - align l j h) h"
    unfolding fp_sub_def x y fp_neg.simps fp_add.simps Let_def h_def[symmetric]
    using le by (cases "align k i h = align l j h") (auto simp: signed_def simp flip: of_nat_diff)
  then show ?thesis using round_range[OF assms(1,5) _ assms(7), of "align k i h - align l j h" h] v bd by simp
qed

lemma fp_of_int_range:
  assumes "good_fmt f" "is_rep f lo" "lo \<le> real_of_int i" "is_rep f hi" "real_of_int i \<le> hi" "0 \<le> i"
  shows "in_range f lo hi (fp_of_int f i)"
  using round_range[OF assms(1,2) _ assms(4), of "nat \<bar>i\<bar>" 0] assms(3,5,6) by (simp add: fp_of_int_def)

text \<open>The quotient has a last bit that tells if it is exact, which no value of the format reaches.\<close>

lemma div_le:
  assumes g: "good_fmt f" and x: "in_range f a b x" and y: "in_range f c d y" and c: "0 < c" and hi: "is_rep f hi" "fval x \<le> hi * fval y"
  shows "in_range f 0 hi (fp_div f x y)"
proof -
  obtain m e where xs: "x = Fin False m e" using x by (auto simp: in_range_def)
  obtain n d' where ys: "y = Fin False n d'" using y by (auto simp: in_range_def)
  have n: "0 < n" using y c ys by (auto simp: in_range_def intro: ccontr)
  define k where "k = prec f + 2 + bit_length n"
  define q where "q = m * 2 ^ k div n"
  define st where "st = (if m * 2 ^ k mod n = 0 then 0 else 1 :: nat)"
  have r: "fp_div f x y = round_fp f False (2 * q + st) (e - d' - int k - 1)"
    using n unfolding xs ys fp_div.simps Let_def k_def[symmetric] q_def st_def by simp
  obtain h u where h: "in_fmt f (Fin False h u)" "hi = real h * 2 powi u" using hi(1) by (auto simp: is_rep_def)
  define E where "E = e - d' - int k"
  have two: "(2::real) powi (E - 1) * 2 = 2 powi E" using powi_split[of "E - 1" E] by simp
  have le: "real m * 2 powi e \<le> hi * (real n * 2 powi d')" using hi(2) by (simp add: xs ys)
  have pe: "(2::real) powi e = 2 powi E * 2 powi d' * 2 ^ k" unfolding E_def
    by (simp add: power_int_add power_int_diff)
  have hq: "real (m * 2 ^ k) \<le> hi / 2 powi E * real n"
    using le unfolding pe by (simp add: field_simps)
  show ?thesis
  proof (cases "m = 0")
    case True
    have "0 \<le> hi" by (simp add: h(2))
    then show ?thesis using round_range[OF g is_rep_0[OF g] _ hi(1), of 0] unfolding r by (simp add: q_def st_def True)
  next
    case m: False
    have big: "2 ^ (prec f + 1) \<le> q"
    proof -
      have "n < 2 ^ bit_length n" using bit_length_bounds[OF n] by simp
      then have "2 ^ (prec f + 2) * n \<le> 2 ^ (prec f + 2) * 2 ^ bit_length n" by simp
      also have "\<dots> \<le> m * 2 ^ k" using m by (simp add: k_def power_add)
      finally have "2 ^ (prec f + 2) \<le> q" using n by (simp add: q_def less_eq_div_iff_mult_less_eq)
      then show ?thesis by (simp add: power_add)
    qed
    have qn: "real q * real n \<le> real (m * 2 ^ k)" unfolding q_def by (metis div_times_less_eq_dividend of_nat_le_iff of_nat_mult)
    have "real q * real n \<le> hi / 2 powi E * real n" using qn hq by linarith
    then have qh: "real q * 2 powi E \<le> hi" using n by (simp add: field_simps)
    have "2 powi (int (prec f) + 1 + E) \<le> real q * 2 powi E"
      using big of_nat_le_iff[of "2 ^ (prec f + 1)" q, where ?'a = real] by (simp add: power_int_add)
    also have "\<dots> \<le> hi" by (rule qh)
    also have "hi < 2 powi (int (prec f) + u)" using fmt_val_less[OF h(1)] h(2) by simp
    finally have Eu: "E \<le> u" by (simp add: powi_less)
    define H where "H = h * 2 ^ nat (u - E)"
    have H: "hi = real H * 2 powi E" unfolding h(2) H_def powi_split[OF Eu] by simp
    have qH: "m * 2 ^ k \<le> H * n"
    proof -
      have "real (m * 2 ^ k) \<le> real (H * n)" using hq unfolding H by simp
      then show ?thesis by (simp only: of_nat_le_iff)
    qed
    have "2 * q + st \<le> 2 * H"
    proof (cases "m * 2 ^ k mod n = 0")
      case True
      have "q \<le> H" using div_le_mono[OF qH, of n] n by (simp add: q_def)
      then show ?thesis by (simp add: st_def True)
    next
      case False
      have "q < H"
      proof (rule ccontr)
        assume "\<not> q < H"
        then have "H * n \<le> q * n" by simp
        moreover have "q * n + m * 2 ^ k mod n = m * 2 ^ k" by (simp add: q_def)
        ultimately show False using qH False by linarith
      qed
      then show ?thesis by (simp add: st_def)
    qed
    then have "real (2 * q + st) \<le> real (2 * H)" by (simp only: of_nat_le_iff)
    then have "real (2 * q + st) * 2 powi (E - 1) \<le> real (2 * H) * 2 powi (E - 1)" by (rule mult_right_mono) simp
    also have "\<dots> = hi" using two by (simp add: H mult.commute mult.left_commute)
    finally have "real (2 * q + st) * 2 powi (e - d' - int k - 1) \<le> hi" by (simp add: E_def)
    then show ?thesis unfolding r using round_range[OF g is_rep_0[OF g] _ hi(1), of "2 * q + st" "e - d' - int k - 1"] by simp
  qed
qed

subsection \<open>The order without NaN\<close>

lemma fp_less_asym: "fp_less x y \<Longrightarrow> \<not> fp_less y x"
  by (cases x; cases y) (auto simp: Let_def min.commute)

lemma fp_le_trans:
  assumes "x \<noteq> NaN" "y \<noteq> NaN" "z \<noteq> NaN" "\<not> fp_less y x" "\<not> fp_less z y"
  shows "\<not> fp_less z x"
proof (cases "\<exists>s m e t n d u k c. x = Fin s m e \<and> y = Fin t n d \<and> z = Fin u k c")
  case True
  then obtain s m e t n d u k c where f: "x = Fin s m e" "y = Fin t n d" "z = Fin u k c" by blast
  define a where "a = min e (min d c)"
  have a: "a \<le> e" "a \<le> d" "a \<le> c" by (simp_all add: a_def)
  show ?thesis
    using assms(4,5) unfolding f fin_order(1)[OF a(2,1)] fin_order(1)[OF a(3,2)] fin_order(1)[OF a(3,1)] by simp
next
  case False
  then show ?thesis using assms by (cases x; cases y; cases z) auto
qed

end
