(* ===== verification/HostRtt.thy ===== *)
theory HostRtt
  imports HostLatency FloatOrder
begin

text \<open>
  The properties of the latency tests of \<open>HostLatency\<close>: the order of a distribution, the packets of a queue test together with
  the queue thread of the DSP, the room for the samples, and what the modes \<open>rtt\<close> and \<open>mapcost\<close> give back.
\<close>

subsection \<open>The order of the samples\<close>

lemma cmp_le: "cmp_double x y \<le> 0 \<longleftrightarrow> \<not> fp_less y x"
  using fp_less_asym[of x y] by (simp add: cmp_double_def)

abbreviation ascending :: "fp list \<Rightarrow> bool" where
  "ascending \<equiv> sorted_wrt (\<lambda>x y. \<not> fp_less y x)"

lemma qsort_insert_mset [simp]: "mset (qsort_insert x ys) = add_mset x (mset ys)"
  by (induction ys) auto

lemma qsort_insert_set [simp]: "set (qsort_insert x ys) = insert x (set ys)"
  by (induction ys) auto

lemma qsort_insert_ascending:
  assumes "x \<noteq> NaN"
  shows "NaN \<notin> set ys \<Longrightarrow> ascending ys \<Longrightarrow> ascending (qsort_insert x ys)"
proof (induction ys)
  case (Cons y ys)
  show ?case
  proof (cases "cmp_double x y \<le> 0")
    case True
    then have xy: "\<not> fp_less y x" by (simp add: cmp_le)
    have "\<not> fp_less z x" if "z \<in> set ys" for z
      using fp_le_trans[OF assms _ _ xy, of z] that Cons.prems by auto
    then show ?thesis using True xy Cons.prems by simp
  next
    case False
    then have "fp_less y x" by (simp add: cmp_le)
    then show ?thesis using False Cons fp_less_asym by auto
  qed
qed simp

lemma qsort_double:
  "mset (qsort_double xs) = mset xs" "set (qsort_double xs) = set xs" "length (qsort_double xs) = length xs"
  "NaN \<notin> set xs \<Longrightarrow> ascending (qsort_double xs)"
proof -
  show m: "mset (qsort_double xs) = mset xs" for xs unfolding qsort_double_def by (induction xs) simp_all
  show "set (qsort_double xs) = set xs" using m by (rule mset_eq_setD)
  show "length (qsort_double xs) = length xs" using m by (rule mset_eq_length)
  have s: "set (foldr qsort_insert xs []) = set xs" for xs by (induction xs) simp_all
  show "NaN \<notin> set xs \<Longrightarrow> ascending (qsort_double xs)"
    unfolding qsort_double_def by (induction xs) (auto simp: s intro!: qsort_insert_ascending)
qed

text \<open>\<open>print_dist_kind\<close>: without a NaN, the samples are sorted and none is lost, and the line has samples of the test in
  ascending order: the least one, the 10th, 50th, 90th and 99th percentile and the largest one. No index is out of the array.\<close>

theorem dist_ordered:
  assumes "samples \<noteq> []" "NaN \<notin> set samples"
  shows "mset (qsort_double samples) = mset samples \<and> ascending (qsort_double samples) \<and>
    (let d = dist_of samples; line = [ds_min d, ds_p10 d, ds_p50 d, ds_p90 d, ds_p99 d, ds_max d] in
       ds_n d = length samples \<and> set line \<subseteq> set samples \<and> ascending line \<and>
       (\<forall>x \<in> set samples. \<not> fp_less x (ds_min d) \<and> \<not> fp_less (ds_max d) x))"
proof -
  define us n where "us = qsort_double samples" and "n = length samples"
  note q = qsort_double[of samples, folded us_def n_def]
  have n: "0 < n" using assms(1) by (simp add: n_def)
  have le: "\<not> fp_less (us ! j) (us ! i)" if "i \<le> j" "j < n" for i j
    using sorted_wrt_nth_less[OF q(4)[OF assms(2)], of i j] that q(3) fp_less_asym[of "us ! i" "us ! i"] by (cases "i = j") auto
  have ix: "n div 10 < n" "n div 2 < n" "n * 9 div 10 < n" "n * 99 div 100 < n" "n - 1 < n"
    "n div 10 \<le> n div 2" "n div 2 \<le> n * 9 div 10" "n * 9 div 10 \<le> n * 99 div 100" "n * 99 div 100 \<le> n - 1"
    using n by linarith+
  have d: "dist_of samples = \<lparr>ds_n = n, ds_min = us ! 0, ds_p10 = us ! (n div 10), ds_p50 = us ! (n div 2), ds_p90 = us ! (n * 9 div 10),
      ds_p99 = us ! (n * 99 div 100), ds_max = us ! (n - 1), ds_mean = ds_mean (dist_of samples)\<rparr>"
    unfolding dist_of_def Let_def us_def[symmetric] q(3) by simp
  have mem: "us ! i \<in> set samples" if "i < n" for i using that q(2,3) nth_mem[of i us] by simp
  have ends: "\<forall>x \<in> set samples. \<not> fp_less x (us ! 0) \<and> \<not> fp_less (us ! (n - 1)) x"
  proof
    fix x assume "x \<in> set samples"
    then obtain i where "i < n" "x = us ! i" using q(2,3) by (metis in_set_conv_nth)
    then show "\<not> fp_less x (us ! 0) \<and> \<not> fp_less (us ! (n - 1)) x" using le[of 0 i] le[of i "n - 1"] by simp
  qed
  have chain: "ascending [us ! 0, us ! (n div 10), us ! (n div 2), us ! (n * 9 div 10), us ! (n * 99 div 100), us ! (n - 1)]"
    by (simp, intro conjI le; use ix in linarith)
  have sub: "set [us ! 0, us ! (n div 10), us ! (n div 2), us ! (n * 9 div 10), us ! (n * 99 div 100), us ! (n - 1)] \<subseteq> set samples"
    using ix n mem by simp
  show ?thesis
    unfolding us_def[symmetric] Let_def
    by (subst (1 2 3 4 5 6 7 8 9 10 11 12 13 14 15) d) (use q assms(2) ends chain sub n_def in simp)
qed

lemma dist_ordered_witness:
  "let s = [Fin False 3 0, Fin False 1 0] in mset (qsort_double s) = mset s \<and> ascending (qsort_double s) \<and> ds_min (dist_of s) = Fin False 1 0"
proof -
  have "mset (qsort_double [Fin False 3 0, Fin False 1 0]) = mset [Fin False 3 0, Fin False 1 0] \<and> ascending (qsort_double [Fin False 3 0, Fin False 1 0])"
    using dist_ordered[of "[Fin False 3 0, Fin False 1 0]"] by simp
  moreover have "ds_min (dist_of [Fin False 3 0, Fin False 1 0]) = Fin False 1 0"
    by (simp add: dist_of_def qsort_double_def cmp_double_def align_def signed_def Let_def)
  ultimately show ?thesis by (simp add: Let_def)
qed

subsection \<open>The packets of a queue test\<close>

text \<open>\<open>wrote\<close> are the packets that the host has written to the queue: a write that succeeds adds one, and the other services of
  a round add none.\<close>

definition wrote_laws :: "'w lat \<Rightarrow> ('w \<Rightarrow> packet list) \<Rightarrow> bool" where
  "wrote_laws lt wrote \<longleftrightarrow>
     (\<forall>w. wrote (snd (l_cntvct lt w)) = wrote w) \<and> (\<forall>q w. wrote (snd (l_read lt q w)) = wrote w) \<and>
     (\<forall>q w. wrote (snd (l_read_noblock lt q w)) = wrote w) \<and>
     (\<forall>q n m w. fst (l_write lt q n m w) = 0 \<longrightarrow> wrote (snd (l_write lt q n m w)) = wrote w @ [(n, m)])"

lemma wrote_keeps:
  assumes "wrote_laws lt wrote"
  shows "l_cntvct lt w = (t, w') \<Longrightarrow> wrote w' = wrote w" "l_read lt q w = (x, w') \<Longrightarrow> wrote w' = wrote w"
    "l_read_noblock lt q w = (x, w') \<Longrightarrow> wrote w' = wrote w" "l_write lt q n m w = (0, w') \<Longrightarrow> wrote w' = wrote w @ [(n, m)]"
  using assms unfolding wrote_laws_def by (metis snd_conv, metis snd_conv, metis snd_conv, metis fst_conv snd_conv)

lemma queue_poll_wrote:
  assumes "wrote_laws lt wrote" "queue_poll lt q t0 w = Some (r, w')"
  shows "wrote w' = wrote w"
proof -
  have "lt = lt \<longrightarrow> wrote (snd (r, w')) = wrote w"
  proof (rule queue_poll.raw_induct[OF _ assms(2), where P = "\<lambda>lt' q t0 w r. lt' = lt \<longrightarrow> wrote (snd r) = wrote w"], goal_cases)
    case (1 f lt' q t0 w r)
    show ?case
    proof
      assume lt: "lt' = lt"
      obtain x w1 where x: "l_read_noblock lt q w = (x, w1)" by fastforce
      obtain t w2 where t: "l_cntvct lt w1 = (t, w2)" by fastforce
      have "f lt q t0 w2 = Some r \<or> r = (x, w2) \<or> r = (x, w1)"
        using 1(2) by (auto simp: lt x t split: if_splits)
      then show "wrote (snd r) = wrote w"
        using 1(1)[of lt q t0 w2 r] wrote_keeps(3)[OF assms(1) x] wrote_keeps(1)[OF assms(1) t] by auto
    qed
  qed
  then show ?thesis by simp
qed

lemma queue_rounds_wrote:
  assumes "wrote_laws lt wrote"
  shows "queue_rounds lt q poll use_buf iters is us w = Some (False, us', w') \<Longrightarrow>
    wrote w' = wrote w @ map (\<lambda>i. (if use_buf then 1 else 0, queue_msg iters i)) is \<and>
    length us' = length us + length (filter (kept_round iters) is)"
proof (induction "is" arbitrary: us w)
  case (Cons i "is")
  note S = wrote_keeps[OF assms]
  have read: "wrote v' = wrote v" if "(if poll then queue_poll lt q t v else Some (l_read lt q v)) = Some (x, v')" for t v x v'
    using that queue_poll_wrote[OF assms, of q t v x v'] S(2)[of q v x v'] by (cases poll) auto
  show ?case using Cons.prems
  proof (cases rule: queue_round_cases)
    case (served t0 w1 w2 r w3 t1 w4)
    have "wrote w4 = wrote w @ [(if use_buf then 1 else 0, queue_msg iters i)]"
      using S(1)[OF served(1)] S(4)[OF served(2)] read[OF served(3)] S(1)[OF served(4)] by simp
    then show ?thesis using Cons.IH[OF served(6)] by auto
  qed simp_all
qed simp

lemma queue_rounds_length:
  "queue_rounds lt q poll use_buf iters is us w = Some (failed, us', w') \<Longrightarrow> length us' \<le> length us + length (filter (kept_round iters) is)"
proof (induction "is" arbitrary: us w)
  case (Cons i "is")
  from Cons.prems show ?case
  proof (cases rule: queue_round_cases)
    case served
    from Cons.IH[OF served(6)] show ?thesis by (auto split: if_splits)
  qed simp_all
qed simp

lemma kept_rounds: "unat iters + 10 < 2 ^ 32 \<Longrightarrow> length (filter (kept_round iters) [0..<unat (iters + 10) + 1]) = unat iters"
proof -
  assume i: "unat iters + 10 < 2 ^ 32"
  then have u: "unat (iters + 10) = unat iters + 10" by (subst unat_add_le) simp_all
  have "filter (kept_round iters) [0..<unat (iters + 10) + 1] = [10..<unat iters + 10]"
    by (rule sorted_distinct_set_unique) (auto simp: u intro: sorted_wrt_filter)
  then show ?thesis by simp
qed


text \<open>A queue that the DSP answers: the world has the packets of the host.\<close>

definition echo_lat :: "packet list lat" where
  "echo_lat = \<lparr>l_cntfrq = 19200000, l_cmo = True, l_cntvct = (\<lambda>w. (of_nat (length w), w)), l_print = (\<lambda>r w. w), l_malloc = (\<lambda>n w. (True, w)),
     l_mfree = (\<lambda>w. w), l_pin = (\<lambda>f a n w. (0, w)), l_ticks = (\<lambda>w. 0), l_nop = (\<lambda>w. (0, w)), l_create = (\<lambda>w. ((0, 1), w)),
     l_export = (\<lambda>q w. ((0, 5), w)), l_start = (\<lambda>i m w. (0, w)), l_write = (\<lambda>q n m w. (0, w @ [(n, m)])),
     l_read = (\<lambda>q w. ((0, 16, snd (List.last w)), w)), l_read_noblock = (\<lambda>q w. ((0, 16, snd (List.last w)), w)), l_stop = (\<lambda>w. ((0, 0), w)),
     l_qclose = (\<lambda>q w. w), l_thread = (\<lambda>w. (0, w)), l_fence = (\<lambda>f c n t w. ((0, 0, fence_start), w))\<rparr>"

lemma echo_wrote: "wrote_laws echo_lat (\<lambda>w. w)"
  by (simp add: wrote_laws_def echo_lat_def)

lemma echo_rounds: "\<exists>us' w'. queue_rounds echo_lat q False ub iters is us w = Some (False, us', w')"
  by (induction "is" arbitrary: us w) (simp_all add: echo_lat_def queue_msg_def Let_def)


subsection \<open>The room for the samples\<close>

lemma nop_rounds_length: "length (fst (nop_rounds lt is us w)) \<le> length us + length (filter (\<lambda>i. 10 \<le> i) is)"
proof (induction "is" arbitrary: us w)
  case (Cons i "is")
  define us1 where "us1 t = (if 10 \<le> i then us @ [t] else us)" for t
  have "fst (nop_rounds lt (i # is) us w) = us \<or> (\<exists>t v. fst (nop_rounds lt (i # is) us w) = fst (nop_rounds lt is (us1 t) v))"
    by (auto simp: us1_def Let_def case_prod_beta)
  moreover have "length (fst (nop_rounds lt is (us1 t) v)) \<le> length us + length (filter (\<lambda>i. 10 \<le> i) (i # is))" for t v
    using Cons.IH[of "us1 t" v] by (auto simp: us1_def split: if_splits)
  ultimately show ?case by (metis trans_le_add1 order_refl)
qed simp

text \<open>The array of \<open>mode_rtt\<close> has \<open>10 * iters + 64\<close> elements. With accepted options no test of the mode writes after it, neither the
  FastRPC test, nor a queue test, nor the fence test in a reachable state of its two halves, which run \<open>10 * iters\<close> rounds.\<close>

theorem rtt_samples_fit:
  assumes "options_ok opt" "fence_reach (o_iters opt * 10) late to s"
  shows "length (fst (nop_rounds lt [0..<unat (o_iters opt + 10)] [] w)) \<le> unat (o_iters opt) * 10 + 64 \<and>
    (case queue_rounds lt q poll use_buf (o_iters opt) [0..<unat (o_iters opt + 10) + 1] [] w of None \<Rightarrow> True
     | Some (failed, us, w') \<Rightarrow> length us \<le> unat (o_iters opt) * 10 + 64) \<and>
    length (h_us s) \<le> unat (o_iters opt) * 10 + 64"
proof -
  have it: "unat (o_iters opt) \<le> 100000" using assms(1) by (simp add: options_ok_def word_le_nat_alt)
  then have u: "unat (o_iters opt + 10) = unat (o_iters opt) + 10" "unat (o_iters opt * 10) = unat (o_iters opt) * 10"
    by (subst unat_add_le, simp_all) (subst unat_mult_le, simp_all)
  have f: "length (filter (\<lambda>i. 10 \<le> i) [0..<unat (o_iters opt + 10)]) \<le> unat (o_iters opt) + 10"
    using length_filter_le[of "\<lambda>i. 10 \<le> i" "[0..<unat (o_iters opt + 10)]"] by (simp add: u)
  have "length (h_us s) = unat (h_done s) - 16" "h_done s \<le> o_iters opt * 10"
  proof -
    have "fence_inv (o_iters opt * 10) s" using fence_reach_inv[OF assms(2)] it by (simp add: u)
    from fence_counts[OF this] this show "length (h_us s) = unat (h_done s) - 16" "h_done s \<le> o_iters opt * 10"
      by (auto simp: fence_inv_def)
  qed
  then have "length (h_us s) \<le> unat (o_iters opt) * 10" using u(2) by (simp add: word_le_nat_alt)
  moreover have "length us \<le> unat (o_iters opt)"
    if "queue_rounds lt q poll use_buf (o_iters opt) [0..<unat (o_iters opt + 10) + 1] [] w = Some (failed, us, w')" for failed us w'
    using queue_rounds_length[OF that] kept_rounds[of "o_iters opt"] it by simp
  ultimately show ?thesis using nop_rounds_length[of lt "[0..<unat (o_iters opt + 10)]" "[]" w] f
    by (fastforce split: option.split)
qed

lemma rtt_samples_fit_witness:
  "length (fst (nop_rounds echo_lat [0..<210] [] [])) \<le> 2064 \<and> length (h_us fence_start) \<le> 2064"
proof -
  have "options_ok ((default_options ''rtt'')\<lparr>o_iters := 200\<rparr>)" by (simp add: options_ok_def default_options_def)
  from rtt_samples_fit[OF this fence_reach.start, of echo_lat "[]" 1 False False] show ?thesis by simp
qed

subsection \<open>What the modes give back\<close>

text \<open>C0. The mode \<open>rtt\<close>: on each path it frees the array of samples, the two buffers of rpcmem and the pinned mapping, and it
  closes each queue of a test that does not fail in the middle. The FastRPC mapping of the fence buffer is given back, unless
  the mode ends with \<open>EXIT_RPC\<close>.\<close>

theorem rtt_releases:
  assumes "host_laws hs held" "lat_laws hs lt held mal qs" "hd_maps (held w) = {}" "mode_rtt hs lt opt w = Some (rc, w')"
  shows "mal w' = mal w \<and> qs w \<subseteq># qs w' \<and>
    (held w' = held w \<or> rc = EXIT_RPC \<and> (\<exists>f. held w' = (held w)\<lparr>hd_mmaps := add_mset f (hd_mmaps (held w))\<rparr>))"
  using assms by (rule mode_rtt_held)

text \<open>C0. The mode \<open>mapcost\<close> gives back all it took on each path: the three arrays, the memory, the FastRPC mapping and the mapping
  on the DSP.\<close>

theorem mapcost_releases:
  assumes "host_laws hs held" "lat_laws hs lt held mal qs" "mmap_takes_time hs lt"
    and "hd_maps (held w) = {}" "hd_mmaps (held w) = {#}" "mode_mapcost hs lt opt w = (rc, w')"
  shows "held w' = held w \<and> mal w' = mal w \<and> qs w' = qs w"
  using mode_mapcost_held[OF assms] by (simp add: keeps_all_def)

text \<open>A world with the holdings, the arrays, the queues and the counter.\<close>

record lat_world =
  lw_held :: held
  lw_mal :: nat
  lw_qs :: "nat multiset"
  lw_clock :: nat

definition on_held :: "(held \<Rightarrow> 'r \<times> held) \<Rightarrow> lat_world \<Rightarrow> 'r \<times> lat_world" where
  "on_held f w = (let (r, h) = f (lw_held w) in (r, w\<lparr>lw_held := h\<rparr>))"

definition lat_host :: "i32 \<Rightarrow> lat_world host" where
  "lat_host map_err = \<lparr>h_rpc_load = on_held (h_rpc_load held_host), h_unsigned = on_held (h_unsigned held_host), h_open = on_held (h_open held_host),
     h_latency = on_held (h_latency held_host), h_setup = (\<lambda>v. on_held (h_setup held_host v)), h_query = on_held (h_query held_host),
     h_close = on_held (h_close held_host), h_alloc = (\<lambda>n. on_held (h_alloc held_host n)), h_bytes = (\<lambda>a w. \<lambda>_. 0),
     h_to_fd = (\<lambda>a. on_held (h_to_fd held_host a)), h_free = (\<lambda>a w. w\<lparr>lw_held := h_free held_host a (lw_held w)\<rparr>),
     h_malloc = (\<lambda>n. on_held (h_malloc held_host n)), h_free_pre = (\<lambda>w. w\<lparr>lw_held := h_free_pre held_host (lw_held w)\<rparr>),
     h_mmap = (\<lambda>f a n. on_held (h_mmap held_host f a n)), h_munmap = (\<lambda>f a n w. w\<lparr>lw_held := h_munmap held_host f a n (lw_held w)\<rparr>),
     h_map = (\<lambda>f n. if map_err = 0 then on_held (h_map held_host f n) else (\<lambda>w. (map_err, w))),
     h_unmap = (\<lambda>f. on_held (h_unmap held_host f)), h_anon = (\<lambda>n. on_held (h_anon held_host n)),
     h_free_anon = (\<lambda>w. w\<lparr>lw_held := h_free_anon held_host (lw_held w)\<rparr>)\<rparr>"

text \<open>The FastRPC calls work, and the queues cannot be created.\<close>

definition held_lat :: "lat_world lat" where
  "held_lat = \<lparr>l_cntfrq = 19200000, l_cmo = True, l_cntvct = (\<lambda>w. (of_nat (lw_clock w), w\<lparr>lw_clock := lw_clock w + 1\<rparr>)),
     l_print = (\<lambda>r w. w), l_malloc = (\<lambda>n w. (True, w\<lparr>lw_mal := lw_mal w + 1\<rparr>)), l_mfree = (\<lambda>w. w\<lparr>lw_mal := lw_mal w - 1\<rparr>),
     l_pin = (\<lambda>f a n w. (0, w\<lparr>lw_held := (lw_held w)\<lparr>hd_mmaps := add_mset f (hd_mmaps (lw_held w))\<rparr>\<rparr>)), l_ticks = (\<lambda>w. 0),
     l_nop = (\<lambda>w. (0, w)), l_create = (\<lambda>w. ((1, 0), w)),
     l_export = (\<lambda>q w. ((0, 5), w)), l_start = (\<lambda>i m w. (0, w)), l_write = (\<lambda>q n m w. (0, w)),
     l_read = (\<lambda>q w. ((1, 0, \<lparr>q_seq = 0, q_cmd = 0, q_tdsp = 0\<rparr>), w)), l_read_noblock = (\<lambda>q w. ((1, 0, \<lparr>q_seq = 0, q_cmd = 0, q_tdsp = 0\<rparr>), w)),
     l_stop = (\<lambda>w. ((0, 0), w)), l_qclose = (\<lambda>q w. w\<lparr>lw_qs := lw_qs w - {#q#}\<rparr>), l_thread = (\<lambda>w. (0, w)),
     l_fence = (\<lambda>f c n t w. ((0, 0, fence_start), w))\<rparr>"

lemma lat_host_laws: "host_laws (lat_host e) lw_held" "lat_laws (lat_host e) held_lat lw_held lw_mal lw_qs"
  by (simp_all add: host_laws_def lat_laws_def lat_host_def held_lat_def held_host_def on_held_def AEE_SUCCESS_def Let_def)

lemma held_lat_time: "mmap_takes_time (lat_host e) held_lat"
  by (simp add: mmap_takes_time_def lat_host_def held_lat_def held_host_def on_held_def Let_def)

definition lat_none :: lat_world where
  "lat_none = \<lparr>lw_held = held_none, lw_mal = 0, lw_qs = {#}, lw_clock = 0\<rparr>"

lemma mapcost_releases_witness:
  "lw_held (snd (mode_mapcost (lat_host 0) held_lat (default_options ''mapcost'') lat_none)) = held_none"
proof -
  obtain rc w' where r: "mode_mapcost (lat_host 0) held_lat (default_options ''mapcost'') lat_none = (rc, w')" by fastforce
  have "hd_maps (lw_held lat_none) = {}" "hd_mmaps (lw_held lat_none) = {#}" "lw_held lat_none = held_none"
    by (simp_all add: lat_none_def held_none_def)
  then show ?thesis using mapcost_releases[OF lat_host_laws held_lat_time _ _ r] by (simp add: r)
qed

text \<open>A DSP that refuses to map the fence buffer: the mode ends with \<open>EXIT_RPC\<close>, and the FastRPC mapping is left.\<close>

lemma refused_queue: "rtt_queue held_lat iters test w = Some w"
  by (cases test) (simp add: rtt_queue_def held_lat_def Let_def)

lemma refused_tests: "run_tests (rtt_queue held_lat iters) ts w = Some w"
  by (induction ts) (simp_all add: refused_queue)

lemma held_updates: "lw_held (rtt_fastrpc held_lat iters w) = lw_held w"
  using rtt_fastrpc_keeps[OF lat_host_laws(2), of w iters] by (simp add: keeps_all_def)

lemma refused_map:
  "\<exists>w'. mode_rtt (lat_host 14) held_lat opt lat_none = Some (EXIT_RPC, w') \<and> hd_mmaps (lw_held w') = {#3#}"
proof -
  define w1 where "w1 = rtt_fastrpc held_lat (o_iters opt) (lat_none\<lparr>lw_mal := 1\<rparr>)"
  have w1: "lw_held w1 = held_none" by (simp add: w1_def held_updates lat_none_def)
  have c: "h_alloc (lat_host 14) n w = (4096, w\<lparr>lw_held := (lw_held w)\<lparr>hd_mem := add_mset 4096 (hd_mem (lw_held w))\<rparr>\<rparr>)"
    "h_to_fd (lat_host 14) a w = (3, w)" "h_free (lat_host 14) a w = w\<lparr>lw_held := (lw_held w)\<lparr>hd_mem := hd_mem (lw_held w) - {#a#}\<rparr>\<rparr>"
    "h_munmap (lat_host 14) f a n w = w\<lparr>lw_held := (lw_held w)\<lparr>hd_mmaps := hd_mmaps (lw_held w) - {#f#}\<rparr>\<rparr>"
    "l_pin held_lat f a n w = (0, w\<lparr>lw_held := (lw_held w)\<lparr>hd_mmaps := add_mset f (hd_mmaps (lw_held w))\<rparr>\<rparr>)" for n w a f
    by (simp_all add: lat_host_def held_lat_def held_host_def on_held_def)
  have q: "\<exists>w2. rtt_queue_part (lat_host 14) held_lat (o_iters opt) w1 = Some (0, w2) \<and> lw_held w2 = held_none"
    by (simp add: rtt_queue_part_def refused_tests c w1)
  then obtain w2 where w2: "rtt_queue_part (lat_host 14) held_lat (o_iters opt) w1 = Some (0, w2)" "lw_held w2 = held_none" by blast
  have f: "\<exists>w3. rtt_fence_part (lat_host 14) held_lat (o_iters opt) 0 w2 = (EXIT_RPC, w3) \<and> hd_mmaps (lw_held w3) = {#3#}"
    by (simp add: rtt_fence_part_def fence_buffer_def lat_host_def held_host_def on_held_def w2(2) held_none_def Let_def EXIT_RPC_def AEE_SUCCESS_def)
  then obtain w3 where w3: "rtt_fence_part (lat_host 14) held_lat (o_iters opt) 0 w2 = (EXIT_RPC, w3)" "hd_mmaps (lw_held w3) = {#3#}" by blast
  have m: "l_malloc held_lat n lat_none = (True, lat_none\<lparr>lw_mal := 1\<rparr>)" for n by (simp add: held_lat_def lat_none_def)
  have "mode_rtt (lat_host 14) held_lat opt lat_none = Some (EXIT_RPC, l_mfree held_lat w3)"
    unfolding mode_rtt_def m Let_def prod.case w1_def[symmetric] by (simp add: w2(1) w3(1))
  then show ?thesis using w3(2) by (simp add: held_lat_def)
qed

lemma rtt_releases_witness:
  "case mode_rtt (lat_host 14) held_lat (default_options ''rtt'') lat_none of None \<Rightarrow> False
   | Some (rc, w') \<Rightarrow> rc = EXIT_RPC \<and> hd_mmaps (lw_held w') = {#3#} \<and> lw_mal w' = 0 \<and> hd_mem (lw_held w') = {#}"
proof -
  obtain w' where r: "mode_rtt (lat_host 14) held_lat (default_options ''rtt'') lat_none = Some (EXIT_RPC, w')" "hd_mmaps (lw_held w') = {#3#}"
    using refused_map by blast
  have "hd_maps (lw_held lat_none) = {}" by (simp add: lat_none_def held_none_def)
  from rtt_releases[OF lat_host_laws this r(1)] have "lw_mal w' = 0 \<and> hd_mem (lw_held w') = {#}"
    by (auto simp: lat_none_def held_none_def)
  then show ?thesis using r by simp
qed

end
