(* ===== verification/HostClock.thy ===== *)
theory HostClock
  imports HostSession
begin

text \<open>
  The modes of the host program \<open>tools/ddrbw/host/ddrbw.c\<close> that read clocks and sysfs nodes: \<open>find_nodes\<close>, \<open>print_file\<close>,
  \<open>list_dir\<close>, \<open>mode_freqlist\<close>, \<open>mono_us\<close>, \<open>mode_now\<close> and \<open>mode_freq\<close>.

  The services of the C library are the fields of the record \<open>files\<close>. A directory is the list of the names that \<open>readdir\<close>
  gives, and a file that is open to read is its text. A line of the standard output is a \<open>node_report\<close>, and a line of the
  file of \<open>mode_freq\<close> is a \<open>freq_line\<close>.
\<close>

datatype node_report =
    N_unreadable string
  | N_value string string
  | N_nodes "string list"
  | N_now u64 u64
  | N_freq nat u64

datatype freq_line =
    L_head u64 u32 nat
  | L_node nat string bool
  | L_sample u64 u64 "int list"
  | L_end u64

record 'w files =
  f_cntfrq :: u64
  f_cntvct :: "'w \<Rightarrow> u64 \<times> 'w"
  f_clock_gettime :: "'w \<Rightarrow> (u64 \<times> u64) \<times> 'w"
  f_stop :: "'w \<Rightarrow> bool"
  f_nanosleep :: "u64 \<Rightarrow> 'w \<Rightarrow> 'w"
  f_opendir :: "string \<Rightarrow> 'w \<Rightarrow> string list option \<times> 'w"
  f_closedir :: "'w \<Rightarrow> 'w"
  f_readable :: "string \<Rightarrow> 'w \<Rightarrow> bool \<times> 'w"
  f_stat :: "string \<Rightarrow> 'w \<Rightarrow> bool option \<times> 'w"
  f_fopen :: "string \<Rightarrow> 'w \<Rightarrow> string option \<times> 'w"
  f_create :: "string \<Rightarrow> 'w \<Rightarrow> bool \<times> 'w"
  f_fprintf :: "freq_line \<Rightarrow> 'w \<Rightarrow> 'w"
  f_fclose :: "'w \<Rightarrow> 'w"
  f_open :: "string \<Rightarrow> 'w \<Rightarrow> int \<times> 'w"
  f_pread :: "int \<Rightarrow> 'w \<Rightarrow> string option \<times> 'w"
  f_close :: "int \<Rightarrow> 'w \<Rightarrow> 'w"
  f_printf :: "node_report \<Rightarrow> 'w \<Rightarrow> 'w"

subsection \<open>The nodes\<close>

definition MAX_NODES :: nat where "MAX_NODES = 48"

text \<open>\<open>snprintf\<close> into a buffer of \<open>n\<close> bytes.\<close>

definition path_text :: "nat \<Rightarrow> string \<Rightarrow> string" where
  "path_text n s = take (n - 1) s"

definition hidden :: "string \<Rightarrow> bool" where
  "hidden name = (case name of [] \<Rightarrow> False | c # _ \<Rightarrow> c = CHR ''.'')"

fun add_device_nodes :: "'w files \<Rightarrow> string \<Rightarrow> nat \<Rightarrow> string list \<Rightarrow> string list \<Rightarrow> 'w \<Rightarrow> string list \<times> 'w" where
  "add_device_nodes fs root mx [] paths w = (paths, w)"
| "add_device_nodes fs root mx (e # es) paths w =
     (if mx \<le> length paths then (paths, w)
      else if hidden e then add_device_nodes fs root mx es paths w
      else let p = path_text 160 (root @ ''/'' @ e @ ''/cur_freq''); (ok, w) = f_readable fs p w
        in add_device_nodes fs root mx es (if ok then paths @ [p] else paths) w)"

fun add_root_nodes :: "'w files \<Rightarrow> nat \<Rightarrow> string list \<Rightarrow> string list \<Rightarrow> 'w \<Rightarrow> string list \<times> 'w" where
  "add_root_nodes fs mx [] paths w = (paths, w)"
| "add_root_nodes fs mx (r # rs) paths w =
     (let (dp, w) = f_opendir fs r w in
      case dp of None \<Rightarrow> add_root_nodes fs mx rs paths w
      | Some es \<Rightarrow> let (paths, w) = add_device_nodes fs r mx es paths w in add_root_nodes fs mx rs paths (f_closedir fs w))"

fun add_fixed_nodes :: "'w files \<Rightarrow> nat \<Rightarrow> string list \<Rightarrow> string list \<Rightarrow> 'w \<Rightarrow> string list \<times> 'w" where
  "add_fixed_nodes fs mx [] paths w = (paths, w)"
| "add_fixed_nodes fs mx (p # ps) paths w =
     (if mx \<le> length paths then (paths, w)
      else let (ok, w) = f_readable fs p w in add_fixed_nodes fs mx ps (if ok then paths @ [path_text 160 p] else paths) w)"

definition fixed_nodes :: "string list" where
  "fixed_nodes = [''/sys/class/kgsl/kgsl-3d0/gpuclk'', ''/sys/devices/system/cpu/cpufreq/policy0/scaling_cur_freq'',
     ''/sys/devices/system/cpu/cpufreq/policy6/scaling_cur_freq'']"

definition find_nodes :: "'w files \<Rightarrow> nat \<Rightarrow> 'w \<Rightarrow> string list \<times> 'w" where
  "find_nodes fs mx w =
     (let (paths, w) = add_root_nodes fs mx [''/sys/class/devfreq'', ''/sys/devices/system/cpu/bus_dcvs''] [] w
      in add_fixed_nodes fs mx fixed_nodes paths w)"

subsection \<open>The mode \<open>freqlist\<close>\<close>

text \<open>\<open>fgets\<close> reads at most 255 characters to the end of the first line, and the output has at most 200 of them.\<close>

definition first_line :: "string \<Rightarrow> string" where
  "first_line s = take 200 (takeWhile (\<lambda>c. c \<noteq> CHR 0x0A \<and> c \<noteq> CHR 0x00) (take 255 s))"

definition print_file :: "'w files \<Rightarrow> string \<Rightarrow> 'w \<Rightarrow> 'w" where
  "print_file fs path w =
     (let (f, w) = f_fopen fs path w in
      case f of None \<Rightarrow> f_printf fs (N_unreadable path) w
      | Some s \<Rightarrow> f_printf fs (N_value path (first_line s)) (f_fclose fs w))"

text \<open>\<open>strstr\<close> finds the text.\<close>

fun strstr :: "string \<Rightarrow> string \<Rightarrow> bool" where
  "strstr [] s = (s = [])"
| "strstr (c # cs) s = (take (length s) (c # cs) = s \<or> strstr cs s)"

definition shown_name :: "string \<Rightarrow> bool" where
  "shown_name name \<longleftrightarrow> strstr name ''freq'' \<or> strstr name ''governor'' \<or> strstr name ''trans_stat'' \<or> strstr name ''bw''"

text \<open>The directory, or the rest \<open>es\<close> of its entries.\<close>

function (sequential) list_dir :: "'w files \<Rightarrow> string \<Rightarrow> nat \<Rightarrow> string list option \<Rightarrow> 'w \<Rightarrow> 'w" where
  "list_dir fs dir depth None w =
     (let (d, w) = f_opendir fs dir w in
      case d of None \<Rightarrow> f_printf fs (N_unreadable dir) w | Some es \<Rightarrow> f_closedir fs (list_dir fs dir depth (Some es) w))"
| "list_dir fs dir depth (Some []) w = w"
| "list_dir fs dir depth (Some (e # es)) w =
     (if hidden e then list_dir fs dir depth (Some es) w
      else let path = path_text 512 (dir @ ''/'' @ e); (st, w) = f_stat fs path w in
        case st of
          None \<Rightarrow> list_dir fs dir depth (Some es) w
        | Some True \<Rightarrow> (case depth of
              0 \<Rightarrow> list_dir fs dir depth (Some es) w
            | Suc d \<Rightarrow> list_dir fs dir depth (Some es) (list_dir fs path d None w))
        | Some False \<Rightarrow> list_dir fs dir depth (Some es) (if shown_name e then print_file fs path w else w))"
  by pat_completeness auto

termination
  by (relation "measures [\<lambda>(fs, dir, depth, es, w). depth, \<lambda>(fs, dir, depth, es, w). if es = None then 1 else 0,
    \<lambda>(fs, dir, depth, es, w). case es of None \<Rightarrow> 0 | Some es \<Rightarrow> length es]") (auto split: prod.splits)

definition mode_freqlist :: "'w files \<Rightarrow> 'w \<Rightarrow> nat \<times> 'w" where
  "mode_freqlist fs w =
     (let w = list_dir fs ''/sys/class/devfreq'' 1 None w;
          w = list_dir fs ''/sys/devices/system/cpu/bus_dcvs'' 2 None w;
          w = fold (print_file fs) fixed_nodes w;
          (paths, w) = find_nodes fs MAX_NODES w
      in (0, f_printf fs (N_nodes paths) w))"

subsection \<open>The modes \<open>now\<close> and \<open>freq\<close>\<close>

text \<open>The seconds and the nanoseconds as microseconds.\<close>

definition mono_us :: "'w files \<Rightarrow> 'w \<Rightarrow> u64 \<times> 'w" where
  "mono_us fs w = (let ((sec, nsec), w) = f_clock_gettime fs w in (sec * 1000000 + nsec div 1000, w))"

definition mode_now :: "'w files \<Rightarrow> 'w \<Rightarrow> nat \<times> 'w" where
  "mode_now fs w = (let (t, w) = f_cntvct fs w; (m, w) = mono_us fs w in (0, f_printf fs (N_now t m) w))"

fun open_nodes :: "'w files \<Rightarrow> nat \<Rightarrow> string list \<Rightarrow> 'w \<Rightarrow> int list \<times> 'w" where
  "open_nodes fs i [] w = ([], w)"
| "open_nodes fs i (p # ps) w =
     (let (d, w) = f_open fs p w; w = f_fprintf fs (L_node i p (0 \<le> d)) w; (ds, w) = open_nodes fs (Suc i) ps w in (d # ds, w))"

text \<open>The value of a node, at most 31 characters of it, and -1 for a node that is not readable.\<close>

fun sample_nodes :: "'w files \<Rightarrow> int list \<Rightarrow> 'w \<Rightarrow> int list \<times> 'w" where
  "sample_nodes fs [] w = ([], w)"
| "sample_nodes fs (d # ds) w =
     (let (r, w) = (if 0 \<le> d then f_pread fs d w else (None, w));
          v = (case r of None \<Rightarrow> -1 | Some s \<Rightarrow> if s = [] then -1 else fst (strtol (takeWhile (\<lambda>c. c \<noteq> CHR 0x00) (take 31 s))));
          (vs, w) = sample_nodes fs ds w
      in (v # vs, w))"

text \<open>The state of the loop: the values and the counter of the last line, the time of the next sample, and the number of the lines.\<close>

type_synonym freq_state = "int list \<times> u64 \<times> u64 \<times> u64"

definition freq_round :: "'w files \<Rightarrow> int list \<Rightarrow> u64 \<Rightarrow> freq_state \<Rightarrow> 'w \<Rightarrow> freq_state \<times> 'w" where
  "freq_round fs ds period st w =
     (let (prev, t_line, next_t, lines) = st; (t, w) = f_cntvct fs w; (cur, w) = sample_nodes fs ds w;
          (prev, t_line, lines, w) =
            (if cur \<noteq> prev \<or> t - t_line \<ge> f_cntfrq fs div 10
             then let (m, w) = mono_us fs w in (cur, t, lines + 1, f_fprintf fs (L_sample t m cur) w)
             else (prev, t_line, lines, w));
          next_t = next_t + period; (now, w) = f_cntvct fs w;
          (next_t, w) = (if next_t > now then (next_t, f_nanosleep fs ((next_t - now) * 1000000000 div f_cntfrq fs) w) else (now, w))
      in ((prev, t_line, next_t, lines), w))"

partial_function (option) freq_loop :: "'w files \<Rightarrow> int list \<Rightarrow> u64 \<Rightarrow> u64 \<Rightarrow> freq_state \<Rightarrow> 'w \<Rightarrow> (freq_state \<times> 'w) option" where
  "freq_loop fs ds period t_stop st w =
     (if f_stop fs w then Some (st, w)
      else let (t, w) = f_cntvct fs w in
        if \<not> t < t_stop then Some (st, w)
        else let (st, w) = freq_round fs ds period st w in freq_loop fs ds period t_stop st w)"

fun close_nodes :: "'w files \<Rightarrow> int list \<Rightarrow> 'w \<Rightarrow> 'w" where
  "close_nodes fs [] w = w"
| "close_nodes fs (d # ds) w = close_nodes fs ds (if 0 \<le> d then f_close fs d w else w)"

definition mode_freq :: "'w files \<Rightarrow> options \<Rightarrow> string \<Rightarrow> 'w \<Rightarrow> (nat \<times> 'w) option" where
  "mode_freq fs opt out w =
     (let (paths, w) = find_nodes fs MAX_NODES w; n = length paths; (ok, w) = f_create fs out w in
      if \<not> ok then Some (EXIT_USAGE, w)
      else let w = f_fprintf fs (L_head (f_cntfrq fs) (o_hz opt) n) w; (ds, w) = open_nodes fs 0 paths w;
          period = f_cntfrq fs div ucast (o_hz opt); (t, w) = f_cntvct fs w;
          t_stop = t + ucast (o_ms opt) * (f_cntfrq fs div 1000); (next_t, w) = f_cntvct fs w
        in Option.bind (freq_loop fs ds period t_stop (replicate n (-1), 0, next_t, 0) w) (\<lambda>((_, _, _, lines), w).
          let w = f_fclose fs (f_fprintf fs (L_end lines) w); w = close_nodes fs ds w
          in Some (0, f_printf fs (N_freq n lines) w)))"

subsection \<open>The file of the mode \<open>freq\<close>\<close>

text \<open>The documented effect of the services: \<open>opened\<close> counts the open files and directories, and \<open>log\<close> has the lines of the file.\<close>

definition file_laws :: "'w files \<Rightarrow> ('w \<Rightarrow> nat) \<Rightarrow> ('w \<Rightarrow> freq_line list) \<Rightarrow> bool" where
  "file_laws fs opened log \<longleftrightarrow>
     (\<forall>w. opened (snd (f_cntvct fs w)) = opened w \<and> log (snd (f_cntvct fs w)) = log w) \<and>
     (\<forall>w. opened (snd (f_clock_gettime fs w)) = opened w \<and> log (snd (f_clock_gettime fs w)) = log w) \<and>
     (\<forall>n w. opened (f_nanosleep fs n w) = opened w \<and> log (f_nanosleep fs n w) = log w) \<and>
     (\<forall>p w. opened (snd (f_readable fs p w)) = opened w \<and> log (snd (f_readable fs p w)) = log w) \<and>
     (\<forall>p w. opened (snd (f_stat fs p w)) = opened w \<and> log (snd (f_stat fs p w)) = log w) \<and>
     (\<forall>d w. opened (snd (f_pread fs d w)) = opened w \<and> log (snd (f_pread fs d w)) = log w) \<and>
     (\<forall>r w. opened (f_printf fs r w) = opened w \<and> log (f_printf fs r w) = log w) \<and>
     (\<forall>p w. opened (snd (f_opendir fs p w)) = opened w + (if fst (f_opendir fs p w) = None then 0 else 1) \<and> log (snd (f_opendir fs p w)) = log w) \<and>
     (\<forall>w. opened (f_closedir fs w) = opened w - 1 \<and> log (f_closedir fs w) = log w) \<and>
     (\<forall>p w. opened (snd (f_fopen fs p w)) = opened w + (if fst (f_fopen fs p w) = None then 0 else 1) \<and> log (snd (f_fopen fs p w)) = log w) \<and>
     (\<forall>p w. opened (snd (f_create fs p w)) = opened w + (if fst (f_create fs p w) then 1 else 0) \<and> log (snd (f_create fs p w)) = log w) \<and>
     (\<forall>w. opened (f_fclose fs w) = opened w - 1 \<and> log (f_fclose fs w) = log w) \<and>
     (\<forall>p w. opened (snd (f_open fs p w)) = opened w + (if 0 \<le> fst (f_open fs p w) then 1 else 0) \<and> log (snd (f_open fs p w)) = log w) \<and>
     (\<forall>d w. opened (f_close fs d w) = opened w - 1 \<and> log (f_close fs d w) = log w) \<and>
     (\<forall>l w. opened (f_fprintf fs l w) = opened w \<and> log (f_fprintf fs l w) = log w @ [l])"

lemma file_effects:
  assumes "file_laws fs opened log"
  shows "f_cntvct fs w = (t, w') \<Longrightarrow> opened w' = opened w \<and> log w' = log w"
    "f_clock_gettime fs w = (c, w') \<Longrightarrow> opened w' = opened w \<and> log w' = log w"
    "opened (f_nanosleep fs n w) = opened w" "log (f_nanosleep fs n w) = log w"
    "f_readable fs p w = (ok, w') \<Longrightarrow> opened w' = opened w \<and> log w' = log w"
    "f_stat fs p w = (st, w') \<Longrightarrow> opened w' = opened w \<and> log w' = log w"
    "f_pread fs d w = (s, w') \<Longrightarrow> opened w' = opened w \<and> log w' = log w"
    "opened (f_printf fs r w) = opened w" "log (f_printf fs r w) = log w"
    "f_opendir fs p w = (es, w') \<Longrightarrow> opened w' = opened w + (if es = None then 0 else 1) \<and> log w' = log w"
    "opened (f_closedir fs w) = opened w - 1" "log (f_closedir fs w) = log w"
    "f_fopen fs p w = (s, w') \<Longrightarrow> opened w' = opened w + (if s = None then 0 else 1) \<and> log w' = log w"
    "f_create fs p w = (ok, w') \<Longrightarrow> opened w' = opened w + (if ok then 1 else 0) \<and> log w' = log w"
    "opened (f_fclose fs w) = opened w - 1" "log (f_fclose fs w) = log w"
    "f_open fs p w = (d, w') \<Longrightarrow> opened w' = opened w + (if 0 \<le> d then 1 else 0) \<and> log w' = log w"
    "opened (f_close fs d w) = opened w - 1" "log (f_close fs d w) = log w"
    "opened (f_fprintf fs l w) = opened w" "log (f_fprintf fs l w) = log w @ [l]"
  using assms unfolding file_laws_def by (simp_all add: prod_eq_iff) auto

lemma add_device_nodes_quiet:
  assumes "file_laws fs opened log"
  shows "add_device_nodes fs r mx es paths w = (paths', w') \<Longrightarrow> length paths \<le> mx \<Longrightarrow> length paths' \<le> mx \<and> opened w' = opened w \<and> log w' = log w"
proof (induction es arbitrary: paths w)
  case (Cons e es)
  define p where "p = path_text 160 (r @ ''/'' @ e @ ''/cur_freq'')"
  obtain ok w1 where r: "f_readable fs p w = (ok, w1)" by fastforce
  have "add_device_nodes fs r mx (e # es) paths w = (if mx \<le> length paths then (paths, w) else if hidden e then add_device_nodes fs r mx es paths w
      else add_device_nodes fs r mx es (if ok then paths @ [p] else paths) w1)"
    unfolding add_device_nodes.simps p_def[symmetric] Let_def r prod.case ..
  then show ?case
    using Cons.prems Cons.IH[of paths w] Cons.IH[of "if ok then paths @ [p] else paths" w1] file_effects(5)[OF assms r]
    by (auto split: if_splits)
qed simp

lemma add_root_nodes_quiet:
  assumes "file_laws fs opened log"
  shows "add_root_nodes fs mx rs paths w = (paths', w') \<Longrightarrow> length paths \<le> mx \<Longrightarrow> length paths' \<le> mx \<and> opened w' = opened w \<and> log w' = log w"
proof (induction rs arbitrary: paths w)
  case (Cons r rs)
  note E = file_effects[OF assms]
  obtain d w1 where d: "f_opendir fs r w = (d, w1)" by fastforce
  show ?case
  proof (cases d)
    case None
    then show ?thesis using Cons.prems Cons.IH[of paths w1] E(10)[OF d] by (simp add: d)
  next
    case (Some es)
    obtain p1 w2 where a: "add_device_nodes fs r mx es paths w1 = (p1, w2)" by fastforce
    note q = add_device_nodes_quiet[OF assms a Cons.prems(2)]
    have "add_root_nodes fs mx rs p1 (f_closedir fs w2) = (paths', w')" using Cons.prems(1) Some by (simp add: d a)
    from Cons.IH[OF this] q E(10)[OF d] show ?thesis by (simp add: Some E(11,12))
  qed
qed simp

lemma add_fixed_nodes_quiet:
  assumes "file_laws fs opened log"
  shows "add_fixed_nodes fs mx ps paths w = (paths', w') \<Longrightarrow> length paths \<le> mx \<Longrightarrow> length paths' \<le> mx \<and> opened w' = opened w \<and> log w' = log w"
proof (induction ps arbitrary: paths w)
  case (Cons p ps)
  obtain ok w1 where r: "f_readable fs p w = (ok, w1)" by fastforce
  show ?case
    using Cons.prems Cons.IH[of "if ok then paths @ [path_text 160 p] else paths" w1] file_effects(5)[OF assms r]
    by (auto simp: r Let_def split: if_splits)
qed simp

lemma find_nodes_quiet:
  assumes "file_laws fs opened log" "find_nodes fs mx w = (paths, w')"
  shows "length paths \<le> mx" "opened w' = opened w" "log w' = log w"
proof -
  obtain p1 w1 where r: "add_root_nodes fs mx [''/sys/class/devfreq'', ''/sys/devices/system/cpu/bus_dcvs''] [] w = (p1, w1)" by fastforce
  have "add_fixed_nodes fs mx fixed_nodes p1 w1 = (paths, w')" using assms(2) by (simp add: find_nodes_def r del: add_root_nodes.simps)
  from add_fixed_nodes_quiet[OF assms(1) this] add_root_nodes_quiet[OF assms(1) r]
  show "length paths \<le> mx" "opened w' = opened w" "log w' = log w" by simp_all
qed

lemma open_nodes_opens:
  assumes "file_laws fs opened log"
  shows "open_nodes fs i ps w = (ds, w') \<Longrightarrow> length ds = length ps \<and> opened w' = opened w + length (filter (\<lambda>d. 0 \<le> d) ds) \<and>
    log w' = log w @ map (\<lambda>k. L_node (i + k) (ps ! k) (0 \<le> ds ! k)) [0..<length ps]"
proof (induction ps arbitrary: i w ds w')
  case (Cons p ps)
  note E = file_effects[OF assms]
  obtain d w1 where o1: "f_open fs p w = (d, w1)" by fastforce
  obtain ds1 w2 where o2: "open_nodes fs (Suc i) ps (f_fprintf fs (L_node i p (0 \<le> d)) w1) = (ds1, w2)" by fastforce
  have r: "ds = d # ds1" "w' = w2" using Cons.prems by (simp_all add: o1 o2)
  have "map (\<lambda>k. L_node (i + k) ((p # ps) ! k) (0 \<le> ds ! k)) [0..<length (p # ps)] =
    L_node i p (0 \<le> d) # map (\<lambda>k. L_node (Suc i + k) (ps ! k) (0 \<le> ds1 ! k)) [0..<length ps]"
    by (simp add: r(1) upt_conv_Cons map_Suc_upt[symmetric] del: upt_Suc)
  then show ?case using Cons.IH[OF o2] E(17)[OF o1] by (simp add: r E(20,21))
qed simp

lemma sample_nodes_quiet:
  assumes "file_laws fs opened log"
  shows "sample_nodes fs ds w = (vs, w') \<Longrightarrow> length vs = length ds \<and> opened w' = opened w \<and> log w' = log w"
proof (induction ds arbitrary: w vs w')
  case (Cons d ds)
  obtain s w1 where s: "(if 0 \<le> d then f_pread fs d w else (None, w)) = (s, w1)" by fastforce
  obtain vs1 w2 where v: "sample_nodes fs ds w1 = (vs1, w2)" by fastforce
  have "opened w1 = opened w \<and> log w1 = log w" using s file_effects(7)[OF assms, of d w s w1] by (auto split: if_splits)
  then show ?case using Cons.IH[OF v] Cons.prems by (auto simp: s v Let_def split: if_splits)
qed simp

lemma mono_us_quiet: "file_laws fs opened log \<Longrightarrow> mono_us fs w = (m, w') \<Longrightarrow> opened w' = opened w \<and> log w' = log w"
proof -
  assume "file_laws fs opened log" "mono_us fs w = (m, w')"
  moreover obtain a b w1 where "f_clock_gettime fs w = ((a, b), w1)" by (metis prod.exhaust)
  ultimately show ?thesis using file_effects(2)[of fs opened log w "(a, b)" w1] by (simp add: mono_us_def)
qed

lemma close_nodes_closes:
  assumes "file_laws fs opened log"
  shows "opened (close_nodes fs ds w) = opened w - length (filter (\<lambda>d. 0 \<le> d) ds) \<and> log (close_nodes fs ds w) = log w"
  by (induction ds arbitrary: w) (simp_all add: file_effects[OF assms])

text \<open>The reason of each line: a value has changed since the line before, or a tenth of a second has passed.\<close>

fun lines_ok :: "u64 \<Rightarrow> int list \<Rightarrow> u64 \<Rightarrow> (u64 \<times> u64 \<times> int list) list \<Rightarrow> bool" where
  "lines_ok frq prev t_line [] = True"
| "lines_ok frq prev t_line ((t, m, cur) # xs) =
     ((cur \<noteq> prev \<or> t - t_line \<ge> frq div 10) \<and> length cur = length prev \<and> lines_ok frq cur t xs)"

definition sample_lines :: "(u64 \<times> u64 \<times> int list) list \<Rightarrow> freq_line list" where
  "sample_lines xs = map (\<lambda>(t, m, cur). L_sample t m cur) xs"

lemma freq_round_line:
  assumes laws: "file_laws fs opened log" and r: "freq_round fs ds period (prev, t_line, next_t, lines) w = (st, w')" and len: "length prev = length ds"
  obtains (kept) next_t' where "st = (prev, t_line, next_t', lines)" "opened w' = opened w" "log w' = log w"
  | (line) t m cur next_t' where "st = (cur, t, next_t', lines + 1)" "opened w' = opened w" "log w' = log w @ [L_sample t m cur]"
      "cur \<noteq> prev \<or> t - t_line \<ge> f_cntfrq fs div 10" "length cur = length ds"
proof -
  note E = file_effects[OF laws]
  obtain t w2 where t: "f_cntvct fs w = (t, w2)" by fastforce
  obtain cur w3 where c: "sample_nodes fs ds w2 = (cur, w3)" by fastforce
  obtain m w4 where m: "mono_us fs w3 = (m, w4)" by fastforce
  define due where "due \<longleftrightarrow> cur \<noteq> prev \<or> t - t_line \<ge> f_cntfrq fs div 10"
  define w5 where "w5 = (if due then f_fprintf fs (L_sample t m cur) w4 else w3)"
  obtain now w6 where n: "f_cntvct fs w5 = (now, w6)" by fastforce
  define w7 where "w7 = (if next_t + period > now then f_nanosleep fs ((next_t + period - now) * 1000000000 div f_cntfrq fs) w6 else w6)"
  define nx where "nx = (if next_t + period > now then next_t + period else now)"
  note q = E(1)[OF t] sample_nodes_quiet[OF laws c] mono_us_quiet[OF laws m] E(1)[OF n]
  have w7: "opened w7 = opened w" "log w7 = log w @ (if due then [L_sample t m cur] else [])"
    using q by (simp_all add: w7_def w5_def E(3,4,20,21))
  have "freq_round fs ds period (prev, t_line, next_t, lines) w =
    (if due then ((cur, t, nx, lines + 1), w7) else ((prev, t_line, nx, lines), w7))"
    unfolding freq_round_def t c Let_def prod.case due_def[symmetric] using n
    by (cases due) (simp_all add: m w5_def w7_def nx_def)
  then show thesis
    using r w7 q kept line due_def by (cases due) auto
qed

lemma freq_loop_lines:
  assumes laws: "file_laws fs opened log"
    and run: "freq_loop fs ds period t_stop st w = Some (st', w')" and len: "length (fst st) = length ds"
  shows "\<exists>xs. opened w' = opened w \<and> log w' = log w @ sample_lines xs \<and> snd (snd (snd st')) = snd (snd (snd st)) + of_nat (length xs) \<and>
    lines_ok (f_cntfrq fs) (fst st) (fst (snd st)) xs"
proof -
  note E = file_effects[OF laws]
  let ?Q = "\<lambda>st w r. \<exists>xs. opened (snd r) = opened w \<and> log (snd r) = log w @ sample_lines xs \<and>
      snd (snd (snd (fst r))) = snd (snd (snd st)) + of_nat (length xs) \<and> lines_ok (f_cntfrq fs) (fst st) (fst (snd st)) xs"
  have "fs = fs \<longrightarrow> ds = ds \<longrightarrow> length (fst st) = length ds \<longrightarrow> ?Q st w (st', w')"
  proof (rule freq_loop.raw_induct[OF _ run, where P = "\<lambda>fs' ds' period t_stop st w r. fs' = fs \<longrightarrow> ds' = ds \<longrightarrow> length (fst st) = length ds \<longrightarrow> ?Q st w r"], goal_cases)
    case (1 f fs' ds' period t_stop st w r)
    show ?case
    proof (intro impI)
      assume eq: "fs' = fs" "ds' = ds" and len: "length (fst st) = length ds"
      obtain t0 w1 where t0: "f_cntvct fs w = (t0, w1)" by fastforce
      obtain st2 w2 where fr: "freq_round fs ds period st w1 = (st2, w2)" by fastforce
      obtain prev t_line next_t lines where st: "st = (prev, t_line, next_t, lines)" by (metis prod_cases4)
      have stop: "?Q st w r" if "r = (st, v)" "opened v = opened w" "log v = log w" for v
        using that by (intro exI[of _ "[]"]) (simp add: sample_lines_def)
      have "(if f_stop fs w then Some (st, w) else if \<not> t0 < t_stop then Some (st, w1) else f fs ds period t_stop st2 w2) = Some r"
        using 1(2) unfolding eq t0 fr Let_def prod.case .
      then consider "r = (st, w)" | "r = (st, w1)" | "f fs ds period t_stop st2 w2 = Some r"
        by (metis option.inject)
      then show "?Q st w r"
      proof cases
        case 3
        note w1 = E(1)[OF t0]
        have fr': "freq_round fs ds period (prev, t_line, next_t, lines) w1 = (st2, w2)" using fr by (simp add: st)
        have "length prev = length ds" using len by (simp add: st)
        with laws fr' show ?thesis
        proof (cases rule: freq_round_line)
          case (kept next_t')
          then have "?Q st2 w2 r" using 1(1)[OF 3] len by (simp add: st)
          then show ?thesis using kept w1 by (simp add: st)
        next
          case (line t m cur next_t')
          then have "?Q st2 w2 r" using 1(1)[OF 3] by simp
          then obtain xs where xs: "opened (snd r) = opened w2" "log (snd r) = log w2 @ sample_lines xs"
            "snd (snd (snd (fst r))) = lines + 1 + of_nat (length xs)" "lines_ok (f_cntfrq fs) cur t xs" using line(1) by auto
          have "log (snd r) = log w @ sample_lines ((t, m, cur) # xs)" using xs(2) line(3) w1 by (simp add: sample_lines_def)
          moreover have "snd (snd (snd (fst r))) = lines + of_nat (length ((t, m, cur) # xs))" using xs(3) by simp
          moreover have "lines_ok (f_cntfrq fs) prev t_line ((t, m, cur) # xs)" using xs(4) line(4,5) len by (simp add: st)
          ultimately show ?thesis using xs(1) line(2) w1 unfolding st fst_conv snd_conv by metis
        qed
      next
        case 1
        then show ?thesis by (rule stop) simp_all
      next
        case 2
        then show ?thesis by (rule stop) (use E(1)[OF t0] in simp_all)
      qed
    qed
  qed
  then show ?thesis using len by simp
qed

text \<open>C36. The file of the mode \<open>freq\<close>. Each path closes what it opened. On success the file has the head line with the number of the
  nodes, at most 48, a line for each node, the samples and the end line with the number of the samples. A sample has a value
  for each node, and it is there because a value changed since the sample before or a tenth of a second passed.\<close>

theorem freq_file:
  assumes "file_laws fs opened log" "mode_freq fs opt out w = Some (rc, w')"
  shows "opened w' = opened w \<and> (rc = EXIT_USAGE \<and> log w' = log w \<or> rc = 0 \<and> (\<exists>paths (ds :: int list) xs. length paths \<le> MAX_NODES \<and>
    log w' = log w @ L_head (f_cntfrq fs) (o_hz opt) (length paths) # map (\<lambda>k. L_node k (paths ! k) (0 \<le> ds ! k)) [0..<length paths] @
      sample_lines xs @ [L_end (of_nat (length xs))] \<and>
    lines_ok (f_cntfrq fs) (replicate (length paths) (-1)) 0 xs))"
proof -
  note E = file_effects[OF assms(1)]
  obtain paths w1 where p: "find_nodes fs MAX_NODES w = (paths, w1)" by fastforce
  note qp = find_nodes_quiet[OF assms(1) p]
  obtain ok w2 where c: "f_create fs out w1 = (ok, w2)" by fastforce
  show ?thesis
  proof (cases ok)
    case False
    then have "rc = EXIT_USAGE" "w' = w2" using assms(2) by (simp_all add: mode_freq_def p c)
    then show ?thesis using E(14)[OF c] False qp by simp
  next
    case True
    obtain ds w3 where d: "open_nodes fs 0 paths (f_fprintf fs (L_head (f_cntfrq fs) (o_hz opt) (length paths)) w2) = (ds, w3)" by fastforce
    note qd = open_nodes_opens[OF assms(1) d]
    obtain t w4 where t: "f_cntvct fs w3 = (t, w4)" by fastforce
    obtain nx w5 where n: "f_cntvct fs w4 = (nx, w5)" by fastforce
    define per stop where "per = f_cntfrq fs div ucast (o_hz opt)" and "stop = t + ucast (o_ms opt) * (f_cntfrq fs div 1000)"
    have "Option.bind (freq_loop fs ds per stop (replicate (length paths) (-1), 0, nx, 0) w5) (\<lambda>((_, _, _, lines), w).
        Some (0, f_printf fs (N_freq (length paths) lines) (close_nodes fs ds (f_fclose fs (f_fprintf fs (L_end lines) w))))) = Some (rc, w')"
      using assms(2) True unfolding mode_freq_def p c Let_def prod.case d t n per_def stop_def by simp
    then obtain a b c' lines w6 where l: "freq_loop fs ds per stop (replicate (length paths) (-1), 0, nx, 0) w5 = Some ((a, b, c', lines), w6)"
      and r: "rc = 0" "w' = f_printf fs (N_freq (length paths) lines) (close_nodes fs ds (f_fclose fs (f_fprintf fs (L_end lines) w6)))"
      by (auto simp: bind_eq_Some_conv)
    obtain xs where xs: "opened w6 = opened w5" "log w6 = log w5 @ sample_lines xs" "lines = of_nat (length xs)"
        "lines_ok (f_cntfrq fs) (replicate (length paths) (-1)) 0 xs"
      using freq_loop_lines[OF assms(1) l] qd by auto
    have pre: "opened w5 = opened w + 1 + length (filter (\<lambda>d. 0 \<le> d) ds)"
      "log w5 = log w @ L_head (f_cntfrq fs) (o_hz opt) (length paths) # map (\<lambda>k. L_node k (paths ! k) (0 \<le> ds ! k)) [0..<length paths]"
      using E(14)[OF c] E(1)[OF t] E(1)[OF n] qd qp True by (simp_all add: E(20,21))
    have "opened w' = opened w" "log w' = log w6 @ [L_end lines]"
      using pre(1) xs(1) close_nodes_closes[OF assms(1), of ds "f_fclose fs (f_fprintf fs (L_end lines) w6)"] by (simp_all add: r(2) E)
    then have "opened w' = opened w \<and> rc = 0 \<and> length paths \<le> MAX_NODES \<and>
      log w' = log w @ L_head (f_cntfrq fs) (o_hz opt) (length paths) # map (\<lambda>k. L_node k (paths ! k) (0 \<le> ds ! k)) [0..<length paths] @
        sample_lines xs @ [L_end (of_nat (length xs))] \<and>
      lines_ok (f_cntfrq fs) (replicate (length paths) (-1)) 0 xs" using r(1) qp(1) pre(2) xs by simp
    then show ?thesis by (elim conjE) (intro conjI disjI2 exI[of _ paths] exI[of _ ds] exI[of _ xs]; assumption)
  qed
qed

subsection \<open>The end of the mode \<open>freq\<close>\<close>

text \<open>The counter advances with each reading and reaches each value; no service sets it back. \<open>clk\<close> observes it.\<close>

definition clock_laws :: "'w files \<Rightarrow> ('w \<Rightarrow> nat) \<Rightarrow> bool" where
  "clock_laws fs clk \<longleftrightarrow>
     (\<forall>w. clk w < clk (snd (f_cntvct fs w))) \<and> (\<forall>e. \<exists>k. \<forall>w. k \<le> clk w \<longrightarrow> e \<le> fst (f_cntvct fs w)) \<and>
     (\<forall>w. clk w \<le> clk (snd (f_clock_gettime fs w))) \<and> (\<forall>n w. clk w \<le> clk (f_nanosleep fs n w)) \<and>
     (\<forall>d w. clk w \<le> clk (snd (f_pread fs d w))) \<and> (\<forall>l w. clk w \<le> clk (f_fprintf fs l w))"

lemma sample_nodes_clock: "clock_laws fs clk \<Longrightarrow> clk w \<le> clk (snd (sample_nodes fs ds w))"
proof (induction ds arbitrary: w)
  case (Cons d ds)
  define v where "v = (if 0 \<le> d then snd (f_pread fs d w) else w)"
  have "clk w \<le> clk v" using Cons.prems by (simp add: v_def clock_laws_def)
  moreover have "snd (sample_nodes fs (d # ds) w) = snd (sample_nodes fs ds v)" by (simp add: v_def case_prod_beta Let_def)
  ultimately show ?case using Cons.IH[OF Cons.prems, of v] by simp
qed simp

lemma freq_round_clock:
  assumes "clock_laws fs clk"
  shows "clk w < clk (snd (freq_round fs ds period st w))"
proof -
  have c: "clk w < clk (snd (f_cntvct fs w))" "clk w \<le> clk (snd (f_clock_gettime fs w))" "clk w \<le> clk (f_nanosleep fs n w)"
    "clk w \<le> clk (f_fprintf fs l w)" for w n l
    using assms by (simp_all add: clock_laws_def)
  obtain prev t_line next_t lines where st: "st = (prev, t_line, next_t, lines)" by (metis prod_cases4)
  obtain t w2 where t: "f_cntvct fs w = (t, w2)" by fastforce
  obtain cur w3 where s: "sample_nodes fs ds w2 = (cur, w3)" by fastforce
  obtain m w4 where m: "mono_us fs w3 = (m, w4)" by fastforce
  have le: "clk w < clk w3" "clk w3 \<le> clk w4"
    using c(1)[of w] sample_nodes_clock[OF assms, of w2 ds] c(2)[of w3] m by (auto simp: t s mono_us_def split: prod.splits)
  obtain w5 where w5: "clk w < clk w5" "\<exists>st' nx. freq_round fs ds period st w = (let (now, w) = f_cntvct fs w5; (next_t, w) =
      (if nx > now then (nx, f_nanosleep fs ((nx - now) * 1000000000 div f_cntfrq fs) w) else (now, w)) in (st' next_t, w))"
  proof (cases "cur \<noteq> prev \<or> t - t_line \<ge> f_cntfrq fs div 10")
    case True
    show thesis
    proof (rule that[of "f_fprintf fs (L_sample t m cur) w4"])
      show "clk w < clk (f_fprintf fs (L_sample t m cur) w4)" using le c(4)[of w4 "L_sample t m cur"] by linarith
    qed (intro exI[of _ "\<lambda>next_t. (cur, t, next_t, lines + 1)"] exI[of _ "next_t + period"], use True in \<open>simp add: freq_round_def st t s m Let_def\<close>)
  next
    case False
    show thesis
      by (rule that[OF le(1)], intro exI[of _ "\<lambda>next_t. (prev, t_line, next_t, lines)"] exI[of _ "next_t + period"],
        use False in \<open>simp add: freq_round_def st t s m Let_def\<close>)
  qed
  then obtain st' nx where fr: "freq_round fs ds period st w = (let (now, w) = f_cntvct fs w5; (next_t, w) =
      (if nx > now then (nx, f_nanosleep fs ((nx - now) * 1000000000 div f_cntfrq fs) w) else (now, w)) in (st' next_t, w))" by blast
  obtain now w6 where n: "f_cntvct fs w5 = (now, w6)" by fastforce
  have "clk w5 < clk w6" using c(1)[of w5] by (simp add: n)
  then show ?thesis using w5(1) c(3)[of w6 "(nx - now) * 1000000000 div f_cntfrq fs"] by (auto simp: fr n Let_def)
qed

lemma freq_loop_returns:
  assumes "clock_laws fs clk" "\<And>w. k \<le> clk w \<Longrightarrow> t_stop \<le> fst (f_cntvct fs w)"
  shows "\<exists>r. freq_loop fs ds period t_stop st w = Some r"
proof (induction "k - clk w" arbitrary: st w rule: less_induct)
  case less
  obtain t w1 where t: "f_cntvct fs w = (t, w1)" by fastforce
  obtain st2 w2 where r: "freq_round fs ds period st w1 = (st2, w2)" by fastforce
  have adv: "clk w < clk w2" using assms(1) freq_round_clock[OF assms(1), of w1 ds period st] by (force simp: clock_laws_def r dest: spec[of _ w] simp: t)
  show ?case
  proof (cases "f_stop fs w \<or> \<not> t < t_stop")
    case True
    then show ?thesis by (subst freq_loop.simps) (cases st, auto simp: t)
  next
    case False
    have "clk w < k"
    proof (rule ccontr)
      assume "\<not> clk w < k"
      then have "t_stop \<le> t" using assms(2)[of w] by (simp add: t)
      then show False using False by (meson leD)
    qed
    then have "k - clk w2 < k - clk w" using adv by linarith
    from less[OF this] show ?thesis using False by (subst freq_loop.simps) (simp add: t r)
  qed
qed

lemma mode_freq_returns:
  assumes "clock_laws fs clk"
  shows "\<exists>rc w'. mode_freq fs opt out w = Some (rc, w')"
proof -
  obtain paths w1 where p: "find_nodes fs MAX_NODES w = (paths, w1)" by fastforce
  obtain ok w2 where c: "f_create fs out w1 = (ok, w2)" by fastforce
  obtain ds w3 where d: "open_nodes fs 0 paths (f_fprintf fs (L_head (f_cntfrq fs) (o_hz opt) (length paths)) w2) = (ds, w3)" by fastforce
  obtain t w4 where t: "f_cntvct fs w3 = (t, w4)" by fastforce
  obtain nx w5 where n: "f_cntvct fs w4 = (nx, w5)" by fastforce
  define per stop where "per = f_cntfrq fs div ucast (o_hz opt)" and "stop = t + ucast (o_ms opt) * (f_cntfrq fs div 1000)"
  obtain k where "\<And>w. k \<le> clk w \<Longrightarrow> stop \<le> fst (f_cntvct fs w)" using assms unfolding clock_laws_def by metis
  then obtain st w6 where "freq_loop fs ds per stop (replicate (length paths) (-1), 0, nx, 0) w5 = Some (st, w6)"
    using freq_loop_returns[OF assms] by (metis prod.exhaust)
  then show ?thesis by (cases st) (simp add: mode_freq_def p c d t n Let_def per_def stop_def)
qed

text \<open>The mode \<open>freq\<close> returns: the loop ends at the latest when the counter has reached its end time.\<close>

theorem freq_returns:
  assumes "clock_laws fs clk"
  shows "\<exists>rc w'. mode_freq fs opt out w = Some (rc, w')"
  using assms by (rule mode_freq_returns)

text \<open>A phone with one readable node, whose value is the time; the world has the time, the open files and the file.\<close>

definition one_node :: "(nat \<times> nat \<times> freq_line list) files" where
  "one_node = \<lparr>f_cntfrq = 1000, f_cntvct = (\<lambda>(t, n, l). (of_nat (min t (2 ^ 64 - 1)), (t + 1, n, l))), f_clock_gettime = (\<lambda>w. ((0, 0), w)),
     f_stop = (\<lambda>w. False), f_nanosleep = (\<lambda>ns w. w), f_opendir = (\<lambda>p w. (None, w)), f_closedir = (\<lambda>(t, n, l). (t, n - 1, l)),
     f_readable = (\<lambda>p w. (p = hd fixed_nodes, w)), f_stat = (\<lambda>p w. (None, w)), f_fopen = (\<lambda>p w. (None, w)),
     f_create = (\<lambda>p (t, n, l). (True, (t, n + 1, l))), f_fprintf = (\<lambda>x (t, n, l). (t, n, l @ [x])), f_fclose = (\<lambda>(t, n, l). (t, n - 1, l)),
     f_open = (\<lambda>p (t, n, l). (3, (t, n + 1, l))), f_pread = (\<lambda>d w. (Some ''100'', w)), f_close = (\<lambda>d (t, n, l). (t, n - 1, l)),
     f_printf = (\<lambda>r w. w)\<rparr>"

lemma one_node_laws: "file_laws one_node (fst \<circ> snd) (snd \<circ> snd)" "clock_laws one_node fst"
proof -
  show "file_laws one_node (fst \<circ> snd) (snd \<circ> snd)" by (simp add: file_laws_def one_node_def)
  have "\<exists>k. \<forall>w. k \<le> fst w \<longrightarrow> e \<le> fst (f_cntvct one_node w)" for e :: u64
  proof (intro exI[of _ "2 ^ 64"] allI impI)
    fix w :: "nat \<times> nat \<times> freq_line list" assume "2 ^ 64 \<le> fst w"
    then have "fst (f_cntvct one_node w) = -1" by (cases w) (simp add: one_node_def)
    then show "e \<le> fst (f_cntvct one_node w)" by simp
  qed
  then show "clock_laws one_node fst" by (simp add: clock_laws_def) (simp add: one_node_def)
qed

lemma freq_returns_witness: "\<exists>rc w'. mode_freq one_node (default_options ''freq'') ''f'' (0, 0, []) = Some (rc, w')"
  by (rule freq_returns[OF one_node_laws(2)])

lemma freq_file_witness:
  "\<exists>rc t n ls. mode_freq one_node (default_options ''freq'') ''f'' (0, 0, []) = Some (rc, t, n, ls) \<and> n = 0 \<and>
    (rc = EXIT_USAGE \<and> ls = [] \<or> rc = 0 \<and> (\<exists>k. List.last ls = L_end k))"
proof -
  obtain rc w' where r: "mode_freq one_node (default_options ''freq'') ''f'' (0, 0, []) = Some (rc, w')"
    using mode_freq_returns[OF one_node_laws(2)] by blast
  obtain t n ls where w: "w' = (t, n, ls)" by (metis prod_cases3)
  from freq_file[OF one_node_laws(1) r] have "n = 0 \<and> (rc = EXIT_USAGE \<and> ls = [] \<or> rc = 0 \<and> (\<exists>k. List.last ls = L_end k))"
    by (auto simp: w)
  then show ?thesis using r w by blast
qed

end
