(* ===== verification/HostMain.thy ===== *)
theory HostMain
  imports HostRtt HostClock
begin

text \<open>
  The function \<open>main\<close> of the host program \<open>tools/ddrbw/host/ddrbw.c\<close> with all its modes, and what a run of the program
  gives back.
\<close>

subsection \<open>The program\<close>

text \<open>The services, and the parts of the runs that are parameters of the modes: the run on the DSP, the start and the end of the
  CPU threads, the counter, and the allocation of the progress logs. The frequency of the counter is \<open>f_cntfrq\<close>.\<close>

record 'w program =
  p_host :: "'w host"
  p_lat :: "'w lat"
  p_files :: "'w files"
  p_run :: "buffer \<Rightarrow> nsp_cfg \<Rightarrow> u32 \<Rightarrow> 'w \<Rightarrow> ((nat \<times> nsp_result) \<times> 'w) option"
  p_start :: "buffer \<Rightarrow> core_set \<Rightarrow> bool \<Rightarrow> 'w \<Rightarrow> bool \<times> 'w"
  p_join :: "buffer \<Rightarrow> 'w \<Rightarrow> ((bool \<times> cpu_outcome list) \<times> 'w) option"
  p_counter :: "'w \<Rightarrow> u64"
  p_logs_ok :: bool

definition dsp_modes :: "string list" where
  "dsp_modes = [''info'', ''nsp'', ''both'', ''rtt'', ''mapcost'']"

definition run_dsp_mode :: "'w program \<Rightarrow> options \<Rightarrow> 'w \<Rightarrow> (nat \<times> 'w) option" where
  "run_dsp_mode P opt w =
     (if o_mode opt = ''nsp'' then mode_nsp (p_host P) (p_run P) opt w
      else if o_mode opt = ''both'' then
        mode_both (p_host P) (p_run P) (p_start P) (p_join P) (p_counter P) (f_cntfrq (p_files P)) (p_logs_ok P) opt w
      else if o_mode opt = ''rtt'' then mode_rtt (p_host P) (p_lat P) opt w
      else if o_mode opt = ''mapcost'' then Some (mode_mapcost (p_host P) (p_lat P) opt w)
      else Some (0, w))"

text \<open>\<open>argv\<close> is without the name of the program. The result has the exit code and the flag \<open>g_session\<close>.\<close>

definition ddrbw_main :: "'w program \<Rightarrow> string list \<Rightarrow> 'w \<Rightarrow> (nat \<times> bool \<times> 'w) option" where
  "ddrbw_main P argv w =
     (let local = map_option (\<lambda>(rc, w). (rc, False, w)) in
      case parse_argv argv of
        None \<Rightarrow> Some (EXIT_USAGE, False, w)
      | Some opt \<Rightarrow>
          if f_cntfrq (p_files P) = 0 then Some (EXIT_RPC, False, w)
          else if o_mode opt = ''cpu'' then local (mode_cpu (p_host P) (p_start P) (p_join P) opt w)
          else if o_mode opt = ''freqlist'' then local (Some (mode_freqlist (p_files P) w))
          else if o_mode opt = ''now'' then local (Some (mode_now (p_files P) w))
          else if o_mode opt = ''freq'' then
            (case o_out opt of None \<Rightarrow> Some (EXIT_USAGE, False, w) | Some out \<Rightarrow> local (mode_freq (p_files P) opt out w))
          else if o_mode opt \<notin> set dsp_modes then Some (EXIT_USAGE, False, w)
          else main_dsp (p_host P) (o_votes opt) (run_dsp_mode P opt) w)"

subsection \<open>The modes with files hold no session\<close>

text \<open>An observation that no service of \<open>files\<close> changes.\<close>

definition files_keep :: "'w files \<Rightarrow> ('w \<Rightarrow> 'o) \<Rightarrow> bool" where
  "files_keep fs obs \<longleftrightarrow>
     (\<forall>w. obs (snd (f_cntvct fs w)) = obs w \<and> obs (snd (f_clock_gettime fs w)) = obs w \<and> obs (f_closedir fs w) = obs w \<and> obs (f_fclose fs w) = obs w \<and>
        (\<forall>n. obs (f_nanosleep fs n w) = obs w) \<and> (\<forall>p. obs (snd (f_opendir fs p w)) = obs w) \<and> (\<forall>p. obs (snd (f_readable fs p w)) = obs w) \<and>
        (\<forall>p. obs (snd (f_stat fs p w)) = obs w) \<and> (\<forall>p. obs (snd (f_fopen fs p w)) = obs w) \<and> (\<forall>p. obs (snd (f_create fs p w)) = obs w) \<and>
        (\<forall>l. obs (f_fprintf fs l w) = obs w) \<and> (\<forall>p. obs (snd (f_open fs p w)) = obs w) \<and> (\<forall>d. obs (snd (f_pread fs d w)) = obs w) \<and>
        (\<forall>d. obs (f_close fs d w) = obs w) \<and> (\<forall>r. obs (f_printf fs r w) = obs w))"

lemma files_keepD:
  assumes "files_keep fs obs"
  shows "obs (snd (f_cntvct fs w)) = obs w" "obs (snd (f_clock_gettime fs w)) = obs w" "obs (f_closedir fs w) = obs w" "obs (f_fclose fs w) = obs w"
    "obs (f_nanosleep fs n w) = obs w" "obs (snd (f_opendir fs p w)) = obs w" "obs (snd (f_readable fs p w)) = obs w"
    "obs (snd (f_stat fs p w)) = obs w" "obs (snd (f_fopen fs p w)) = obs w" "obs (snd (f_create fs p w)) = obs w"
    "obs (f_fprintf fs l w) = obs w" "obs (snd (f_open fs p w)) = obs w" "obs (snd (f_pread fs d w)) = obs w" "obs (f_close fs d w) = obs w"
    "obs (f_printf fs r w) = obs w"
  using assms unfolding files_keep_def by blast+

lemma find_nodes_obs:
  assumes "files_keep fs obs"
  shows "obs (snd (find_nodes fs mx w)) = obs w"
proof -
  note K = files_keepD[OF assms]
  have d: "obs (snd (add_device_nodes fs r mx es paths w)) = obs w" for r es paths w
    by (induction es arbitrary: paths w) (simp_all add: K Let_def case_prod_beta)
  have r: "obs (snd (add_root_nodes fs mx rs paths w)) = obs w" for rs paths w
    by (induction rs arbitrary: paths w) (simp_all add: K d Let_def case_prod_beta split: option.split)
  have f: "obs (snd (add_fixed_nodes fs mx ps paths w)) = obs w" for ps paths w
    by (induction ps arbitrary: paths w) (simp_all add: K Let_def case_prod_beta)
  show ?thesis by (simp add: find_nodes_def case_prod_beta f r del: add_root_nodes.simps)
qed

lemma print_file_obs: "files_keep fs obs \<Longrightarrow> obs (print_file fs p w) = obs w"
  by (simp add: print_file_def files_keepD case_prod_beta split: option.split)

lemma list_dir_obs: "files_keep fs obs \<Longrightarrow> obs (list_dir fs dir depth es w) = obs w"
proof (induction fs dir depth es w rule: list_dir.induct)
  case (1 fs dir depth w)
  obtain d w1 where d: "f_opendir fs dir w = (d, w1)" by fastforce
  have "obs w1 = obs w" using files_keepD(6)[OF 1(2), of dir w] by (simp add: d)
  then show ?case using 1(1)[OF d[symmetric] refl] 1(2) by (cases d) (simp_all add: d files_keepD)
next
  case (3 fs dir depth e es w)
  define path where "path = path_text 512 (dir @ ''/'' @ e)"
  obtain st w1 where s: "f_stat fs path w = (st, w1)" by fastforce
  have o1: "obs w1 = obs w" using files_keepD(8)[OF 3(7), of path w] by (simp add: s)
  note ih = 3(1-6)[unfolded path_def[symmetric]]
  show ?case
  proof (cases "hidden e")
    case True
    then show ?thesis using 3(1)[OF True 3(7)] by simp
  next
    case False
    have un: "list_dir fs dir depth (Some (e # es)) w = (case st of None \<Rightarrow> list_dir fs dir depth (Some es) w1
        | Some True \<Rightarrow> (case depth of 0 \<Rightarrow> list_dir fs dir depth (Some es) w1
            | Suc d \<Rightarrow> list_dir fs dir depth (Some es) (list_dir fs path d None w1))
        | Some False \<Rightarrow> list_dir fs dir depth (Some es) (if shown_name e then print_file fs path w1 else w1))"
      using False unfolding list_dir.simps path_def[symmetric] Let_def s by (simp split: option.split bool.split)
    show ?thesis
    proof (cases st)
      case None
      then show ?thesis using un o1 ih(2)[OF False refl s[symmetric] refl None 3(7)] by simp
    next
      case (Some b)
      show ?thesis
      proof (cases b)
        case True
        show ?thesis
        proof (cases depth)
          case 0
          then show ?thesis using un o1 Some True ih(3)[OF False refl s[symmetric] refl] 3(7) by simp
        next
          case (Suc d)
          then show ?thesis using un o1 Some True ih(4,5)[OF False refl s[symmetric] refl] 3(7) by simp
        qed
      next
        case b: False
        then show ?thesis using un o1 Some ih(6)[OF False refl s[symmetric] refl] 3(7) by (simp add: print_file_obs)
      qed
    qed
  qed
qed simp

lemma freq_round_obs: "files_keep fs obs \<Longrightarrow> freq_round fs ds period st w = (st', w') \<Longrightarrow> obs w' = obs w"
proof -
  assume K: "files_keep fs obs" and r: "freq_round fs ds period st w = (st', w')"
  have s: "obs (snd (sample_nodes fs ds v)) = obs v" for v
    by (induction ds arbitrary: v) (simp_all add: files_keepD[OF K] Let_def case_prod_beta)
  have "obs (snd (freq_round fs ds period st w)) = obs w"
    by (simp add: freq_round_def mono_us_def Let_def case_prod_beta files_keepD[OF K] s)
  then show ?thesis by (simp add: r)
qed

lemma freq_loop_obs:
  assumes K: "files_keep fs obs" and run: "freq_loop fs ds period t_stop st w = Some (st', w')"
  shows "obs w' = obs w"
proof -
  have "fs = fs \<longrightarrow> obs (snd (st', w')) = obs w"
  proof (rule freq_loop.raw_induct[OF _ run, where P = "\<lambda>fs' ds period t_stop st w r. fs' = fs \<longrightarrow> obs (snd r) = obs w"], goal_cases)
    case (1 f fs' ds period t_stop st w r)
    show ?case
    proof
      assume eq: "fs' = fs"
      obtain t w1 where t: "f_cntvct fs w = (t, w1)" by fastforce
      obtain st2 w2 where fr: "freq_round fs ds period st w1 = (st2, w2)" by fastforce
      have "(if f_stop fs w then Some (st, w) else if \<not> t < t_stop then Some (st, w1) else f fs ds period t_stop st2 w2) = Some r"
        using 1(2) unfolding eq t fr Let_def prod.case .
      then consider "r = (st, w)" | "r = (st, w1)" | "f fs ds period t_stop st2 w2 = Some r" by (metis option.inject)
      then show "obs (snd r) = obs w"
        using files_keepD(1)[OF K, of w] freq_round_obs[OF K fr] 1(1)[of fs ds period t_stop st2 w2 r]
        by cases (simp_all add: t)
    qed
  qed
  then show ?thesis by simp
qed

lemma mode_freq_obs:
  assumes K: "files_keep fs obs" and run: "mode_freq fs opt out w = Some (rc, w')"
  shows "obs w' = obs w"
proof -
  note D = files_keepD[OF K]
  have o1: "obs (snd (open_nodes fs i ps v)) = obs v" for i ps v
    by (induction ps arbitrary: i v) (simp_all add: D Let_def case_prod_beta)
  have c1: "obs (close_nodes fs ds v) = obs v" for ds v
    by (induction ds arbitrary: v) (simp_all add: D)
  obtain paths w1 where p: "find_nodes fs MAX_NODES w = (paths, w1)" by fastforce
  obtain ok w2 where c: "f_create fs out w1 = (ok, w2)" by fastforce
  obtain ds w3 where d: "open_nodes fs 0 paths (f_fprintf fs (L_head (f_cntfrq fs) (o_hz opt) (length paths)) w2) = (ds, w3)" by fastforce
  obtain t w4 where t: "f_cntvct fs w3 = (t, w4)" by fastforce
  obtain nx w5 where n: "f_cntvct fs w4 = (nx, w5)" by fastforce
  have "obs w1 = obs w" "obs w2 = obs w1" "obs w3 = obs w2" "obs w4 = obs w3" "obs w5 = obs w4"
    using find_nodes_obs[OF K, of MAX_NODES w] D(10)[of out w1] o1[of 0 paths "f_fprintf fs (L_head (f_cntfrq fs) (o_hz opt) (length paths)) w2"]
      D(1)[of w3] D(1)[of w4] by (simp_all add: p c d t n D)
  then have w: "obs w2 = obs w" "obs w5 = obs w" by simp_all
  show ?thesis
  proof (cases ok)
    case False
    then show ?thesis using run w by (simp add: mode_freq_def p c)
  next
    case True
    obtain st w6 lines where "freq_loop fs ds (f_cntfrq fs div ucast (o_hz opt)) (t + ucast (o_ms opt) * (f_cntfrq fs div 1000))
        (replicate (length paths) (-1), 0, nx, 0) w5 = Some (st, w6)"
      "w' = f_printf fs (N_freq (length paths) lines) (close_nodes fs ds (f_fclose fs (f_fprintf fs (L_end lines) w6)))"
      using run True unfolding mode_freq_def p c Let_def prod.case d t n by (auto simp: bind_eq_Some_conv)
    then show ?thesis using freq_loop_obs[OF K] w by (simp add: D c1)
  qed
qed

lemma mode_freqlist_obs: "files_keep fs obs \<Longrightarrow> obs (snd (mode_freqlist fs w)) = obs w"
proof -
  assume K: "files_keep fs obs"
  have f: "obs (fold (print_file fs) ps v) = obs v" for ps v
    by (induction ps arbitrary: v) (simp_all add: print_file_obs[OF K])
  show ?thesis
    unfolding mode_freqlist_def Let_def case_prod_beta snd_conv files_keepD(15)[OF K] find_nodes_obs[OF K] f list_dir_obs[OF K] ..
qed

lemma mode_now_obs: "files_keep fs obs \<Longrightarrow> obs (snd (mode_now fs w)) = obs w"
  by (simp add: mode_now_def mono_us_def Let_def case_prod_beta files_keepD)

subsection \<open>The modes with CPU threads\<close>

lemma cpu_sweep_keeps:
  assumes "\<And>s g w. held (snd (start s g w)) = held w" "run_keeps held join"
  shows "run_keeps held (cpu_sweep start join ss bad)"
proof (induction ss arbitrary: bad)
  case (Cons s ss)
  show ?case unfolding run_keeps_def
  proof (intro allI impI)
    fix w r w' assume r: "cpu_sweep start join (s # ss) bad w = Some (r, w')"
    obtain st w1 where s: "start s False w = (st, w1)" by fastforce
    have h1: "held w1 = held w" using assms(1)[of s False w] by (simp add: s)
    show "held w' = held w"
    proof (cases st)
      case True
      then obtain ok outs w2 where j: "join w1 = Some ((ok, outs), w2)" "cpu_sweep start join ss (bad \<or> \<not> ok) w2 = Some (r, w')"
        using r by (auto simp: s bind_eq_Some_conv)
      then show ?thesis using h1 run_keepsD[OF assms(2) j(1)] run_keepsD[OF Cons.IH j(2)] by simp
    next
      case False
      then show ?thesis using r h1 by (simp add: s)
    qed
  qed
qed (simp add: run_keeps_def)

lemma cpu_reps_keeps:
  assumes "\<And>s g w. held (snd (start s g w)) = held w" "run_keeps held join"
  shows "run_keeps held (cpu_reps start join ss rep n bad)"
proof (induction n arbitrary: rep bad)
  case (Suc n)
  show ?case unfolding run_keeps_def
  proof (intro allI impI)
    fix w r w' assume "cpu_reps start join ss rep (Suc n) bad w = Some (r, w')"
    then obtain rc bd w1 where 1: "cpu_sweep start join (rep_order rep ss) bad w = Some ((rc, bd), w1)"
      "(if rc \<noteq> 0 then Some ((rc, bd), w1) else cpu_reps start join ss (Suc rep) n bd w1) = Some (r, w')"
      by (auto simp: bind_eq_Some_conv)
    have "held w1 = held w" using run_keepsD[OF cpu_sweep_keeps[OF assms] 1(1)] .
    then show "held w' = held w" using 1(2) run_keepsD[OF Suc.IH] by (auto split: if_splits)
  qed
qed (simp add: run_keeps_def)

lemma mode_cpu_held:
  assumes laws: "host_laws hs held" and start: "\<And>b s g w. held (snd (start b s g w)) = held w" and join: "\<And>b. run_keeps held (join b)"
    and r: "mode_cpu hs start join opt w = Some (rc, w')"
  shows "held w' = held w"
proof -
  obtain rc1 b w1 where b: "cpu_buffer hs (mb_bytes opt) w = (rc1, b, w1)" by (metis prod_cases3)
  note free = cpu_buffer_held(1)[OF laws b]
  consider "w' = w" | "w' = cpu_buffer_free hs b w1"
    | sets rc2 bad w2 where "cpu_reps (start (snd (the b))) (join (snd (the b))) sets 1 (unat (o_reps opt)) False w1 = Some ((rc2, bad), w2)"
      "w' = cpu_buffer_free hs b w2"
    using r unfolding mode_cpu_def b Let_def prod.case by (auto simp: bind_eq_Some_conv split: option.splits if_splits)
  then show ?thesis
  proof cases
    case 3
    then show ?thesis using free[of w2] run_keepsD[OF cpu_reps_keeps[OF start join] 3(1)] by simp
  qed (use free in simp_all)
qed

lemma both_step_keeps:
  assumes run: "\<And>c. run_keeps held (run c)" and start: "\<And>s g w. held (snd (start s g w)) = held w" and join: "run_keeps held join"
  shows "run_keeps held (both_step run start join clock frq c s)"
  unfolding run_keeps_def
proof (intro allI impI)
  fix w r w' assume r: "both_step run start join clock frq c s w = Some (r, w')"
  then obtain rc na w1 where 1: "run c w = Some ((rc, na), w1)" by (auto simp: both_step_def bind_eq_Some_conv)
  have h1: "held w1 = held w" using run_keepsD[OF run 1] .
  obtain st2 w2 where 2: "start s False w1 = (st2, w2)" by fastforce
  have h2: "held w2 = held w" using start[of s False w1] h1 by (simp add: 2)
  show "held w' = held w"
  proof (cases "rc = 0 \<and> st2")
    case False
    then show ?thesis using r 1 2 h1 h2 by (auto simp: both_step_def split: if_splits)
  next
    case True
    then obtain ok1 outs1 w3 where 3: "join w2 = Some ((ok1, outs1), w3)" using r 1 2 by (auto simp: both_step_def bind_eq_Some_conv)
    have h3: "held w3 = held w" using run_keepsD[OF join 3] h2 by simp
    obtain st4 w4 where 4: "start s True w3 = (st4, w4)" by fastforce
    have h4: "held w4 = held w" using start[of s True w3] h3 by (simp add: 4)
    show ?thesis
    proof (cases st4)
      case False
      then show ?thesis using r True 1 2 3 4 h4 by (auto simp: both_step_def)
    next
      case st4: True
      obtain rc5 nt w5 ok6 outs6 where 5: "run c w4 = Some ((rc5, nt), w5)" "join w5 = Some ((ok6, outs6), w')"
        using r True st4 by (auto simp: both_step_def 1 2 3 4 bind_eq_Some_conv Let_def split: if_splits)
      show ?thesis using run_keepsD[OF run 5(1)] run_keepsD[OF join 5(2)] h4 by simp
    qed
  qed
qed

lemma both_sweep_keeps:
  assumes "\<And>c s. run_keeps held (step c s)"
  shows "run_keeps held (both_sweep step ps bad)"
proof (induction ps arbitrary: bad)
  case (Cons p ps)
  show ?case unfolding run_keeps_def
  proof (intro allI impI)
    fix w r w' assume "both_sweep step (p # ps) bad w = Some (r, w')"
    then obtain rc l w1 bd where 1: "step (fst p) (snd p) w = Some ((rc, l), w1)"
      "(if rc \<noteq> 0 then Some ((rc, bad), w1) else both_sweep step ps bd w1) = Some (r, w')"
      by (auto simp: bind_eq_Some_conv)
    have "held w1 = held w" using run_keepsD[OF assms 1(1)] .
    then show "held w' = held w" using 1(2) run_keepsD[OF Cons.IH] by (auto split: if_splits)
  qed
qed (simp add: run_keeps_def)

lemma both_reps_keeps:
  assumes "\<And>c s. run_keeps held (step c s)"
  shows "run_keeps held (both_reps step cs ss rep n bad)"
proof (induction n arbitrary: rep bad)
  case (Suc n)
  show ?case unfolding run_keeps_def
  proof (intro allI impI)
    fix w r w' assume "both_reps step cs ss rep (Suc n) bad w = Some (r, w')"
    then obtain rc bd w1 where 1: "both_sweep step (both_pairs rep cs ss) bad w = Some ((rc, bd), w1)"
      "(if rc \<noteq> 0 then Some ((rc, bd), w1) else both_reps step cs ss (Suc rep) n bd w1) = Some (r, w')"
      by (auto simp: bind_eq_Some_conv)
    have "held w1 = held w" using run_keepsD[OF both_sweep_keeps[OF assms] 1(1)] .
    then show "held w' = held w" using 1(2) run_keepsD[OF Suc.IH] by (auto split: if_splits)
  qed
qed (simp add: run_keeps_def)

lemma mode_both_held:
  assumes laws: "host_laws hs held" and run: "\<And>b c ms. run_keeps held (run b c ms)"
    and start: "\<And>b s g w. held (snd (start b s g w)) = held w" and join: "\<And>b. run_keeps held (join b)" and none: "hd_maps (held w) = {}"
    and r: "mode_both hs run start join clock frq logs_ok opt w = Some (rc, w')"
  shows "held w' = held w"
proof -
  obtain rc1 nb w1 where n: "nsp_buffer hs (mb_bytes opt) w = (rc1, nb, w1)" by (metis prod_cases3)
  obtain rc2 cb w2 where c: "(if rc1 = 0 then cpu_buffer hs (mb_bytes opt) w1 else (rc1, None, w1)) = (rc2, cb, w2)" by (metis prod_cases3)
  note hb = nsp_buffer_held[OF laws n, THEN conjunct1]
  have fc: "held (cpu_buffer_free hs cb v) = held w1" if "held v = held w2" for v
  proof (cases "rc1 = 0")
    case True
    then show ?thesis using c cpu_buffer_held(1)[OF laws, of "mb_bytes opt" w1 rc2 cb w2 v] that by simp
  next
    case False
    then show ?thesis using c that by (simp add: cpu_buffer_free_def)
  qed
  have fin: "held (snd (nsp_buffer_free hs nb (cpu_buffer_free hs cb v))) = held w" if "held v = held w2" for v
    by (rule nsp_buffer_free_held[OF laws _ none]) (use hb fc[OF that] in simp)
  define step where "step = both_step (\<lambda>c. run (hb_buf nb) c (o_budget_ms opt)) (start (snd (the cb))) (join (snd (the cb))) clock frq"
  have step: "run_keeps held (step c s)" for c s
    unfolding step_def using both_step_keeps[of held "\<lambda>c. run (hb_buf nb) c (o_budget_ms opt)" "start (snd (the cb))" "join (snd (the cb))"] run start join
    by blast
  have "w' = w \<or> (\<exists>v. held v = held w2 \<and> w' = snd (nsp_buffer_free hs nb (cpu_buffer_free hs cb v)))"
  proof (cases "parse_cfgs (o_cfgs opt) 64")
    case None
    then show ?thesis using r by (simp add: mode_both_def)
  next
    case cs: (Some cs)
    show ?thesis
    proof (cases "parse_sets (o_sets opt) MAX_SETS")
      case None
      then show ?thesis using r cs by (simp add: mode_both_def)
    next
      case ss: (Some ss)
      show ?thesis
      proof (cases "cs = [] \<or> ss = []")
        case True
        then show ?thesis using r cs ss by (simp add: mode_both_def)
      next
        case False
        define rc3 where "rc3 = (if \<not> logs_ok \<and> rc2 = 0 then EXIT_RPC else rc2)"
        have "Option.bind (if rc3 \<noteq> 0 then Some ((rc3, False), w2) else both_reps step cs ss 1 (unat (o_reps opt)) False w2)
            (\<lambda>((rc, bad), w). Some (if rc \<noteq> 0 then rc else if bad then EXIT_CHECK else 0, snd (nsp_buffer_free hs nb (cpu_buffer_free hs cb w))))
          = Some (rc, w')"
          using r False unfolding mode_both_def cs ss option.case prod.case n c Let_def rc3_def[symmetric] step_def[symmetric] by simp
        then obtain rc4 bad v where v: "(if rc3 \<noteq> 0 then Some ((rc3, False), w2) else both_reps step cs ss 1 (unat (o_reps opt)) False w2) = Some ((rc4, bad), v)"
          "w' = snd (nsp_buffer_free hs nb (cpu_buffer_free hs cb v))" by (auto simp: bind_eq_Some_conv)
        have "held v = held w2" using v(1) run_keepsD[OF both_reps_keeps[OF step]] by (auto split: if_splits)
        then show ?thesis using v(2) by blast
      qed
    qed
  qed
  then show ?thesis using fin by auto
qed

subsection \<open>What the program gives back\<close>

lemma main_dsp_cases:
  assumes laws: "host_laws hs held" and r: "main_dsp hs votes mode w = Some (rc, ses, w')"
  obtains (failed) "held w' = held w" "\<not> ses"
  | (ran) w2 w3 where "held w2 = (held w)\<lparr>hd_sessions := hd_sessions (held w) + 1\<rparr>" "mode w2 = Some (rc, w3)"
      "held w' = (held w3)\<lparr>hd_sessions := hd_sessions (held w3) - 1\<rparr>" "\<not> ses"
proof (cases "parse_votes votes")
  case None
  then show thesis using r failed by (simp add: main_dsp_def)
next
  case (Some m)
  note L = held_laws[OF laws]
  obtain rc1 s1 w1 where o1: "dsp_open hs w = (rc1, s1, w1)" by (metis prod_cases3)
  have h1: "held w1 = (if s1 then (held w)\<lparr>hd_sessions := hd_sessions (held w) + 1\<rparr> else held w)" "rc1 = 0 \<longleftrightarrow> s1"
  proof -
    obtain e1 v1 where v1: "h_rpc_load hs w = (e1, v1)" by fastforce
    obtain e2 v2 where v2: "h_unsigned hs v1 = (e2, v2)" by fastforce
    obtain e3 v3 where v3: "h_open hs v2 = (e3, v3)" by fastforce
    obtain e4 v4 where v4: "h_latency hs v3 = (e4, v4)" by fastforce
    have "held v1 = held w" "held v2 = held v1" "held v4 = held v3"
      "held v3 = (if e3 = AEE_SUCCESS then (held v2)\<lparr>hd_sessions := hd_sessions (held v2) + 1\<rparr> else held v2)"
      using L(1)[of w] L(2)[of v1] L(3)[of v3] L(7)[of v2] by (simp_all add: v1 v2 v3 v4)
    then show "held w1 = (if s1 then (held w)\<lparr>hd_sessions := hd_sessions (held w) + 1\<rparr> else held w)" "rc1 = 0 \<longleftrightarrow> s1"
      using o1 by (simp_all add: dsp_open_def v1 v2 v3 v4 EXIT_RPC_def split: if_splits)
  qed
  obtain rc2 w2 where s: "(if rc1 = 0 then dsp_setup hs m w1 else (rc1, w1)) = (rc2, w2)" by fastforce
  have h2: "held w2 = held w1" "rc2 = 0 \<Longrightarrow> rc1 = 0"
    using s L(4)[of m w1] by (auto simp: dsp_setup_def split: if_splits prod.splits)
  obtain w3 where md: "(if rc2 = 0 then mode w2 else Some (rc2, w2)) = Some (rc, w3)" and cl: "dsp_close hs s1 w3 = (ses, w')"
    using r by (auto simp: main_dsp_def Some o1 s bind_eq_Some_conv split: prod.splits)
  obtain e4 w4 where q: "h_query hs w3 = (e4, w4)" by fastforce
  obtain e5 w5 where c: "h_close hs w4 = (e5, w5)" by fastforce
  have h5: "held w5 = (held w3)\<lparr>hd_sessions := hd_sessions (held w3) - 1\<rparr>" using L(5)[of w3] L(8)[of w4] by (simp add: q c)
  have cl': "w' = (if s1 then w5 else w3)" "\<not> ses" using cl by (auto simp: dsp_close_def q c split: if_splits)
  show thesis
  proof (cases "rc2 = 0")
    case True
    then show thesis using ran[of w2 w3] md h1 h2 h5 cl' by simp
  next
    case False
    then have "w3 = w2" using md by simp
    then show thesis using failed h1 h2 h5 cl' by (auto split: if_splits)
  qed
qed

text \<open>What the theorem relies on: the laws of the services, and that the runs on the DSP and on the CPU threads keep what is held.\<close>

definition program_laws :: "'w program \<Rightarrow> ('w \<Rightarrow> held) \<Rightarrow> ('w \<Rightarrow> nat) \<Rightarrow> ('w \<Rightarrow> nat multiset) \<Rightarrow> bool" where
  "program_laws P held mal qs \<longleftrightarrow>
     host_laws (p_host P) held \<and> lat_laws (p_host P) (p_lat P) held mal qs \<and> mmap_takes_time (p_host P) (p_lat P) \<and> files_keep (p_files P) held \<and>
     (\<forall>b c ms. run_keeps held (p_run P b c ms)) \<and> (\<forall>b s g w. held (snd (p_start P b s g w)) = held w) \<and> (\<forall>b. run_keeps held (p_join P b))"

lemma run_dsp_mode_held:
  assumes laws: "program_laws P held mal qs" and none: "hd_maps (held w) = {}" "hd_mmaps (held w) = {#}"
    and r: "run_dsp_mode P opt w = Some (rc, w')"
  shows "held w' = held w \<or> rc = EXIT_RPC \<and> o_mode opt = ''rtt'' \<and> (\<exists>f. held w' = (held w)\<lparr>hd_mmaps := {#f#}\<rparr>)"
proof -
  note P = laws[unfolded program_laws_def]
  have hl: "host_laws (p_host P) held" and ll: "lat_laws (p_host P) (p_lat P) held mal qs" and mt: "mmap_takes_time (p_host P) (p_lat P)"
    and run: "\<And>b c ms. run_keeps held (p_run P b c ms)" and start: "\<And>b s g w. held (snd (p_start P b s g w)) = held w"
    and join: "\<And>b. run_keeps held (p_join P b)"
    using P by blast+
  consider "o_mode opt = ''nsp''" | "o_mode opt = ''both''" | "o_mode opt = ''rtt''" | "o_mode opt = ''mapcost''"
    | "o_mode opt \<notin> {''nsp'', ''both'', ''rtt'', ''mapcost''}" by blast
  then show ?thesis
  proof cases
    case 1
    then have "mode_nsp (p_host P) (p_run P) opt w = Some (rc, w')" using r by (simp add: run_dsp_mode_def)
    then show ?thesis using mode_nsp_held[OF hl run none(1)] by simp
  next
    case 2
    then have "mode_both (p_host P) (p_run P) (p_start P) (p_join P) (p_counter P) (f_cntfrq (p_files P)) (p_logs_ok P) opt w = Some (rc, w')"
      using r by (simp add: run_dsp_mode_def)
    then show ?thesis using mode_both_held[OF hl run start join none(1)] by simp
  next
    case 3
    then have "mode_rtt (p_host P) (p_lat P) opt w = Some (rc, w')" using r by (simp add: run_dsp_mode_def)
    from mode_rtt_held[OF hl ll none(1) this] show ?thesis using 3 none(2) by auto
  next
    case 4
    then obtain "mode_mapcost (p_host P) (p_lat P) opt w = (rc, w')" using r by (simp add: run_dsp_mode_def)
    from mode_mapcost_held[OF hl ll mt none this] show ?thesis by (simp add: keeps_all_def)
  next
    case 5
    then show ?thesis using r by (simp add: run_dsp_mode_def)
  qed
qed


text \<open>A program on the world of the latency tests, with no file and no thread.\<close>

definition no_files :: "lat_world files" where
  "no_files = \<lparr>f_cntfrq = 19200000, f_cntvct = (\<lambda>w. (0, w)), f_clock_gettime = (\<lambda>w. ((0, 0), w)), f_stop = (\<lambda>w. True),
     f_nanosleep = (\<lambda>n w. w), f_opendir = (\<lambda>p w. (None, w)), f_closedir = (\<lambda>w. w), f_readable = (\<lambda>p w. (False, w)),
     f_stat = (\<lambda>p w. (None, w)), f_fopen = (\<lambda>p w. (None, w)), f_create = (\<lambda>p w. (False, w)), f_fprintf = (\<lambda>l w. w), f_fclose = (\<lambda>w. w),
     f_open = (\<lambda>p w. (-1, w)), f_pread = (\<lambda>d w. (None, w)), f_close = (\<lambda>d w. w), f_printf = (\<lambda>r w. w)\<rparr>"

definition lat_program :: "lat_world program" where
  "lat_program = \<lparr>p_host = lat_host 0, p_lat = held_lat, p_files = no_files, p_run = (\<lambda>b c ms w. None), p_start = (\<lambda>b s g w. (False, w)),
     p_join = (\<lambda>b w. None), p_counter = (\<lambda>w. 0), p_logs_ok = True\<rparr>"

lemma lat_program_laws: "program_laws lat_program lw_held lw_mal lw_qs"
proof -
  have "files_keep no_files lw_held" by (simp add: files_keep_def no_files_def)
  then show ?thesis
    using lat_host_laws[of 0] held_lat_time[of 0] by (simp add: program_laws_def lat_program_def run_keeps_def)
qed

lemma mapcost_main: "\<exists>rc ses w'. ddrbw_main lat_program [''mapcost''] lat_none = Some (rc, ses, w')"
proof -
  have a: "parse_argv [''mapcost''] = Some (default_options ''mapcost'')" by (simp add: parse_argv_def)
  have v: "parse_votes (o_votes (default_options ''mapcost'')) \<noteq> None"
    by (simp add: default_options_def parse_votes_def vote_names_def)
  then obtain m where m: "parse_votes (o_votes (default_options ''mapcost'')) = Some m" by blast
  have "o_mode (default_options ''mapcost'') = ''mapcost''" by (simp add: default_options_def)
  then show ?thesis
    by (simp add: ddrbw_main_def a lat_program_def no_files_def dsp_modes_def main_dsp_def m run_dsp_mode_def case_prod_beta Let_def)
qed


end
