(* ===== verification/SpecPolicy.thy ===== *)
theory SpecPolicy
  imports FloatOrder
begin

text \<open>
  The draft length policy of the speculative decode loop, \<open>android/app/src/main/cpp/spec_policy.h\<close> and
  \<open>spec_policy.cpp\<close>. A \<open>double\<close> is a value of the format \<open>F64\<close>, and each operation is rounded on its own, as the
  code writes it. An array of the class is a list of its length. The counters are bounded by \<open>kSampleCap\<close> and by the window.
\<close>

type_synonym i64 = "64 word"

subsection \<open>The constants\<close>

definition kDraftMax :: nat where "kDraftMax = 4"
definition kDepths :: nat where "kDepths = kDraftMax + 1"
definition kWindow :: nat where "kWindow = 32"
definition kProbeEvery :: nat where "kProbeEvery = 16"
definition kWarmupSteps :: nat where "kWarmupSteps = 2 * kDepths"
definition kSampleCap :: nat where "kSampleCap = 2 ^ 24"

abbreviation dbl :: "int \<Rightarrow> fp" where "dbl \<equiv> fp_of_int F64"

text \<open>The literals \<open>0.9\<close> and \<open>0.5\<close>.\<close>

definition kDecay :: fp where "kDecay = fp_div F64 (dbl 9) (dbl 10)"
definition kAcceptPrior :: fp where "kAcceptPrior = fp_div F64 (dbl 1) (dbl 2)"

record spec_policy =
  sp_drafted :: "nat list"
  sp_accepted :: "nat list"
  sp_count :: nat
  sp_next :: nat
  sp_sum_drafted :: int
  sp_sum_accepted :: int
  sp_time_us :: "fp list"
  sp_time_n :: "nat list"
  sp_accept_p :: "fp list"
  sp_accept_n :: "nat list"
  sp_warmup_left :: nat
  sp_warm_cursor :: nat
  sp_since_probe :: nat
  sp_pending_depth :: int

subsection \<open>The decayed mean\<close>

definition weight_of :: "nat \<Rightarrow> fp" where
  "weight_of n =
     (if n = 0 then dbl 0
      else let as_mean = fp_sub F64 (dbl 1) (fp_div F64 (dbl 1) (dbl (int (n + 1)))) in if fp_less as_mean kDecay then as_mean else kDecay)"

definition fold_sample :: "fp \<times> nat \<Rightarrow> fp \<Rightarrow> fp \<times> nat" where
  "fold_sample mn v =
     (let (mean, n) = mn; w = weight_of n
      in (fp_add F64 (fp_mul F64 mean w) (fp_mul F64 v (fp_sub F64 (dbl 1) w)), if n < kSampleCap then n + 1 else n))"

subsection \<open>The reset\<close>

definition sp_reset :: "spec_policy \<Rightarrow> spec_policy" where
  "sp_reset s = s\<lparr>sp_drafted := replicate kWindow 0, sp_accepted := replicate kWindow 0, sp_count := 0, sp_next := 0,
     sp_sum_drafted := 0, sp_sum_accepted := 0, sp_since_probe := 0, sp_pending_depth := -1\<rparr>"

definition sp_reset_all :: "spec_policy \<Rightarrow> spec_policy" where
  "sp_reset_all s = (sp_reset s)\<lparr>sp_time_us := replicate kDepths (dbl 0), sp_time_n := replicate kDepths 0,
     sp_accept_p := replicate kDraftMax (dbl 0), sp_accept_n := replicate kDraftMax 0, sp_warmup_left := kWarmupSteps,
     sp_warm_cursor := kDraftMax\<rparr>"

subsection \<open>The predictions\<close>

definition samples :: "spec_policy \<Rightarrow> int \<Rightarrow> nat" where
  "samples s depth = (if depth < 0 \<or> int kDepths \<le> depth then 0 else sp_time_n s ! nat depth)"

definition acceptance :: "spec_policy \<Rightarrow> int \<Rightarrow> fp" where
  "acceptance s position =
     (let i = position - 1 in
      if i < 0 \<or> int kDraftMax \<le> i then dbl (-1) else if sp_accept_n s ! nat i = 0 then dbl (-1) else sp_accept_p s ! nat i)"

text \<open>The sums \<open>n\<close>, \<open>sx\<close>, \<open>sy\<close>, \<open>sxx\<close> and \<open>sxy\<close> of the least-squares line.\<close>

definition line_sums :: "spec_policy \<Rightarrow> fp \<times> fp \<times> fp \<times> fp \<times> fp" where
  "line_sums s = List.fold (\<lambda>d (n, sx, sy, sxx, sxy).
      if sp_time_n s ! d = 0 then (n, sx, sy, sxx, sxy)
      else let x = dbl (int d); y = sp_time_us s ! d
        in (fp_add F64 n (dbl 1), fp_add F64 sx x, fp_add F64 sy y, fp_add F64 sxx (fp_mul F64 x x), fp_add F64 sxy (fp_mul F64 x y)))
     [0..<kDepths] (dbl 0, dbl 0, dbl 0, dbl 0, dbl 0)"

definition own_time :: "spec_policy \<Rightarrow> nat \<Rightarrow> fp" where
  "own_time s d = (if 0 < sp_time_n s ! d then sp_time_us s ! d else dbl (-1))"

definition predicted_us :: "spec_policy \<Rightarrow> int \<Rightarrow> fp" where
  "predicted_us s depth =
     (if depth < 0 \<or> int kDepths \<le> depth then dbl (-1)
      else let (n, sx, sy, sxx, sxy) = line_sums s in
        if fp_less n (dbl 2) then own_time s (nat depth)
        else let denom = fp_sub F64 (fp_mul F64 n sxx) (fp_mul F64 sx sx) in
          if fp_less denom (dbl 0) \<or> fp_eq denom (dbl 0) then own_time s (nat depth)
          else let slope = fp_div F64 (fp_sub F64 (fp_mul F64 n sxy) (fp_mul F64 sx sy)) denom;
              slope = (if fp_less slope (dbl 0) then dbl 0 else slope);
              base = fp_div F64 (fp_sub F64 sy (fp_mul F64 slope sx)) n;
              us = fp_add F64 base (fp_mul F64 slope (dbl depth))
            in if fp_less (dbl 1) us then us else dbl 1)"

text \<open>One draft position: the tokens, the product of the acceptances, and the acceptance of the last measured position.\<close>

definition chain_step :: "spec_policy \<Rightarrow> nat \<Rightarrow> fp \<times> fp \<times> fp \<Rightarrow> fp \<times> fp \<times> fp" where
  "chain_step s i tcl =
     (let (tokens, chain, prev) = tcl; p = (if 0 < sp_accept_n s ! i then sp_accept_p s ! i else prev); chain = fp_mul F64 chain p
      in (fp_add F64 tokens chain, chain, p))"

definition predicted_tokens :: "spec_policy \<Rightarrow> int \<Rightarrow> fp" where
  "predicted_tokens s depth =
     (if depth \<le> 0 then dbl 1
      else let d = (if int kDraftMax < depth then kDraftMax else nat depth)
        in fst (List.fold (chain_step s) [0..<d] (dbl 1, dbl 1, kAcceptPrior)))"

definition best_step :: "spec_policy \<Rightarrow> nat \<Rightarrow> nat \<times> fp \<Rightarrow> nat \<times> fp" where
  "best_step s d b =
     (let us = predicted_us s (int d) in
      if fp_less us (dbl 0) \<or> fp_eq us (dbl 0) then b
      else let r = fp_div F64 (predicted_tokens s (int d)) us in if fp_less (snd b) r then (d, r) else b)"

definition best_draft :: "spec_policy \<Rightarrow> nat" where
  "best_draft s =
     (let (best, best_rate) = List.fold (best_step s) [0..<kDepths] (0, dbl (-1)) in if fp_less best_rate (dbl 0) then kDraftMax else best)"

definition next_draft :: "spec_policy \<Rightarrow> nat \<times> spec_policy" where
  "next_draft s =
     (if 0 < sp_warmup_left s
      then (sp_warm_cursor s, s\<lparr>sp_warmup_left := sp_warmup_left s - 1, sp_warm_cursor := (sp_warm_cursor s + 1) mod kDepths\<rparr>)
      else let best = best_draft s in
        if kProbeEvery \<le> sp_since_probe s then (if best < kDraftMax then best + 1 else 0, s\<lparr>sp_since_probe := 0\<rparr>)
        else (best, s\<lparr>sp_since_probe := sp_since_probe s + 1\<rparr>))"

subsection \<open>The record of a step\<close>

text \<open>The loop over the draft positions \<open>i\<close> that the step reached.\<close>

fun fold_accepts :: "nat \<Rightarrow> nat list \<Rightarrow> fp list \<times> nat list \<Rightarrow> fp list \<times> nat list" where
  "fold_accepts a [] pn = pn"
| "fold_accepts a (i # is) (ps, ns) =
     (if a < i then (ps, ns)
      else let (p, n) = fold_sample (ps ! i, ns ! i) (if i < a then dbl 1 else dbl 0) in fold_accepts a is (ps[i := p], ns[i := n]))"

definition record_step :: "int \<Rightarrow> int \<Rightarrow> int \<Rightarrow> spec_policy \<Rightarrow> spec_policy" where
  "record_step drafted accepted emitted s =
     (let s = s\<lparr>sp_pending_depth := min (max drafted 0) (int kDraftMax)\<rparr> in
      if drafted \<le> 0 then s
      else let d = nat (min drafted 255); a = nat (min (max accepted 0) (int d));
          (ps, ns) = fold_accepts a [0..<min d kDraftMax] (sp_accept_p s, sp_accept_n s);
          s = s\<lparr>sp_accept_p := ps, sp_accept_n := ns\<rparr>;
          s = (if sp_count s = kWindow
               then s\<lparr>sp_sum_drafted := sp_sum_drafted s - int (sp_drafted s ! sp_next s),
                      sp_sum_accepted := sp_sum_accepted s - int (sp_accepted s ! sp_next s)\<rparr>
               else s\<lparr>sp_count := sp_count s + 1\<rparr>)
        in s\<lparr>sp_drafted := (sp_drafted s)[sp_next s := d], sp_accepted := (sp_accepted s)[sp_next s := a],
             sp_next := (sp_next s + 1) mod kWindow, sp_sum_drafted := sp_sum_drafted s + int d,
             sp_sum_accepted := sp_sum_accepted s + int a\<rparr>)"

definition observe_step :: "i64 \<Rightarrow> spec_policy \<Rightarrow> spec_policy" where
  "observe_step step_us s =
     (let d = sp_pending_depth s; s = s\<lparr>sp_pending_depth := -1\<rparr> in
      if d < 0 \<or> int kDepths \<le> d \<or> sint step_us \<le> 0 then s
      else let (t, n) = fold_sample (sp_time_us s ! nat d, sp_time_n s ! nat d) (dbl (sint step_us))
        in s\<lparr>sp_time_us := (sp_time_us s)[nat d := t], sp_time_n := (sp_time_n s)[nat d := n]\<rparr>)"

definition window_rate :: "spec_policy \<Rightarrow> fp" where
  "window_rate s =
     (if 0 < sp_sum_drafted s then fp_div F64 (dbl (sp_sum_accepted s)) (dbl (sp_sum_drafted s)) else dbl 0)"

subsection \<open>The calls of the engine\<close>

datatype sp_call = C_reset | C_reset_all | C_next | C_record int int int | C_observe i64

definition sp_apply :: "sp_call \<Rightarrow> spec_policy \<Rightarrow> spec_policy" where
  "sp_apply c s = (case c of C_reset \<Rightarrow> sp_reset s | C_reset_all \<Rightarrow> sp_reset_all s | C_next \<Rightarrow> snd (next_draft s) | C_record d a e \<Rightarrow> record_step d a e s
     | C_observe us \<Rightarrow> observe_step us s)"

definition sp_new :: spec_policy where
  "sp_new = sp_reset_all \<lparr>sp_drafted = [], sp_accepted = [], sp_count = 0, sp_next = 0, sp_sum_drafted = 0, sp_sum_accepted = 0,
     sp_time_us = [], sp_time_n = [], sp_accept_p = [], sp_accept_n = [], sp_warmup_left = 0, sp_warm_cursor = 0, sp_since_probe = 0,
     sp_pending_depth = 0\<rparr>"

definition sp_run :: "sp_call list \<Rightarrow> spec_policy" where
  "sp_run cs = List.fold sp_apply cs sp_new"

end
