(* ===== verification/SpecProps.thy ===== *)
theory SpecProps
  imports SpecPolicy
begin

text \<open>
  What the draft length policy of \<open>spec_policy.cpp\<close> guarantees: the window holds the last drafts, the schedule of the warmup and
  of the probes, the range of the measured and of the predicted values, and that the selected length has the best rate.
\<close>

lemmas sp_consts = kDraftMax_def kDepths_def kWindow_def kProbeEvery_def kWarmupSteps_def kSampleCap_def

subsection \<open>The window\<close>

definition last_n :: "nat \<Rightarrow> 'a list \<Rightarrow> 'a list" where
  "last_n n xs = drop (length xs - n) xs"

lemma last_n_length [simp]: "length (last_n n xs) = min n (length xs)"
  by (simp add: last_n_def)

lemma last_n_snoc: "length xs < n \<Longrightarrow> last_n n (xs @ [x]) = last_n n xs @ [x]"
  by (simp add: last_n_def)

lemma last_n_full:
  assumes "n \<le> length xs" "0 < n"
  shows "last_n n xs = xs ! (length xs - n) # tl (last_n n xs)" "last_n n (xs @ [x]) = tl (last_n n xs) @ [x]"
proof -
  have l: "length xs - n < length xs" using assms by simp
  show "last_n n xs = xs ! (length xs - n) # tl (last_n n xs)"
    unfolding last_n_def using Cons_nth_drop_Suc[OF l] by (metis list.sel(3))
  have "Suc (length xs) - n = Suc (length xs - n)" using assms by simp
  then show "last_n n (xs @ [x]) = tl (last_n n xs) @ [x]"
    using l by (simp add: last_n_def drop_Suc tl_drop)
qed

lemma last_n_set: "set (last_n n xs) \<subseteq> set xs"
  by (simp add: last_n_def set_drop_subset)

text \<open>The drafts of the calls since the last reset, each with the accepted tokens.\<close>

definition draft_of :: "int \<Rightarrow> int \<Rightarrow> nat \<times> nat" where
  "draft_of d a = (nat (min d 255), nat (min (max a 0) (min d 255)))"

definition draft_step :: "sp_call \<Rightarrow> (nat \<times> nat) list \<Rightarrow> (nat \<times> nat) list" where
  "draft_step c ds = (case c of C_reset \<Rightarrow> [] | C_reset_all \<Rightarrow> [] | C_record d a e \<Rightarrow> if d \<le> 0 then ds else ds @ [draft_of d a] | _ \<Rightarrow> ds)"

definition drafts :: "sp_call list \<Rightarrow> (nat \<times> nat) list" where
  "drafts cs = List.fold draft_step cs []"

definition window_inv :: "(nat \<times> nat) list \<Rightarrow> spec_policy \<Rightarrow> bool" where
  "window_inv ds s \<longleftrightarrow> length (sp_drafted s) = kWindow \<and> length (sp_accepted s) = kWindow \<and> sp_count s = min kWindow (length ds) \<and>
     sp_next s = length ds mod kWindow \<and>
     (\<forall>i. i < length ds \<and> length ds \<le> i + kWindow \<longrightarrow> sp_drafted s ! (i mod kWindow) = fst (ds ! i) \<and> sp_accepted s ! (i mod kWindow) = snd (ds ! i)) \<and>
     sp_sum_drafted s = sum_list (map (int \<circ> fst) (last_n kWindow ds)) \<and> sp_sum_accepted s = sum_list (map (int \<circ> snd) (last_n kWindow ds))"

lemma window_inv_cong:
  "window_inv ds s \<Longrightarrow> sp_drafted t = sp_drafted s \<Longrightarrow> sp_accepted t = sp_accepted s \<Longrightarrow> sp_count t = sp_count s \<Longrightarrow> sp_next t = sp_next s \<Longrightarrow>
   sp_sum_drafted t = sp_sum_drafted s \<Longrightarrow> sp_sum_accepted t = sp_sum_accepted s \<Longrightarrow> window_inv ds t"
  by (simp add: window_inv_def)

lemma window_reset: "window_inv [] (sp_reset s)" "window_inv [] (sp_reset_all s)"
  by (simp_all add: window_inv_def sp_reset_all_def sp_reset_def last_n_def)

lemma mod_gap: "(i :: nat) < n \<Longrightarrow> n < i + 32 \<Longrightarrow> i mod 32 \<noteq> n mod 32"
  using mod_eq_dvd_iff_nat[of i n 32] dvd_imp_le[of 32 "n - i"] by auto

lemma window_push:
  assumes w: "window_inv ds s"
    and t: "sp_drafted t = (sp_drafted s)[sp_next s := d]" "sp_accepted t = (sp_accepted s)[sp_next s := a]"
      "sp_next t = (sp_next s + 1) mod kWindow" "sp_count t = (if sp_count s = kWindow then kWindow else sp_count s + 1)"
      "sp_sum_drafted t = sp_sum_drafted s - (if sp_count s = kWindow then int (sp_drafted s ! sp_next s) else 0) + int d"
      "sp_sum_accepted t = sp_sum_accepted s - (if sp_count s = kWindow then int (sp_accepted s ! sp_next s) else 0) + int a"
  shows "window_inv (ds @ [(d, a)]) t"
proof -
  note W = w[unfolded window_inv_def]
  define n where "n = length ds"
  have k: "kWindow = 32" by (simp add: kWindow_def)
  have nx: "sp_next s = n mod 32" "sp_next s < 32" using W by (simp_all add: n_def k)
  have ent0: "sp_drafted s ! (i mod 32) = fst (ds ! i) \<and> sp_accepted s ! (i mod 32) = snd (ds ! i)" if "i < n" "n \<le> i + 32" for i
    using W that by (simp add: n_def k)
  have ent: "sp_drafted t ! (i mod 32) = fst ((ds @ [(d, a)]) ! i) \<and> sp_accepted t ! (i mod 32) = snd ((ds @ [(d, a)]) ! i)"
    if i: "i < n + 1" "n + 1 \<le> i + 32" for i
  proof (cases "i = n")
    case True
    then show ?thesis using W nx t(1,2) by (simp add: n_def k)
  next
    case False
    then have lt: "i < n" "n < i + 32" using i by simp_all
    have "i mod 32 \<noteq> n mod 32" using mod_gap[OF lt] .
    then show ?thesis using W lt t(1,2) nx(1) by (simp add: n_def k nth_append)
  qed
  have sums: "sp_sum_drafted t = sum_list (map (int \<circ> fst) (last_n 32 (ds @ [(d, a)]))) \<and> sp_sum_accepted t = sum_list (map (int \<circ> snd) (last_n 32 (ds @ [(d, a)])))"
  proof (cases "n < 32")
    case True
    then show ?thesis
      using W t(5,6) by (simp_all add: n_def k last_n_snoc)
  next
    case False
    then have full: "32 \<le> length ds" by (simp add: n_def)
    define r where "r = tl (last_n 32 ds)"
    have l: "last_n 32 ds = ds ! (n - 32) # r" "last_n 32 (ds @ [(d, a)]) = r @ [(d, a)]"
      using last_n_full[OF full] by (simp_all add: r_def n_def)
    have "(n - 32) mod 32 = n mod 32" using False by (simp add: le_mod_geq)
    then have "sp_drafted s ! sp_next s = fst (ds ! (n - 32)) \<and> sp_accepted s ! sp_next s = snd (ds ! (n - 32))"
      using ent0[of "n - 32"] False nx(1) by simp
    moreover have sum0: "sp_sum_drafted s = sum_list (map (int \<circ> fst) (last_n 32 ds))" "sp_sum_accepted s = sum_list (map (int \<circ> snd) (last_n 32 ds))"
      using W by (simp_all add: k)
    moreover have "sp_count s = 32" using W False by (simp add: n_def k)
    ultimately show ?thesis using t(5,6) by (simp add: k l)
  qed
  show ?thesis unfolding window_inv_def k
    using W t(1-4) sums ent nx by (auto simp: n_def k mod_Suc_eq)
qed

lemma window_record: "window_inv ds s \<Longrightarrow> 0 < d \<Longrightarrow> window_inv (ds @ [draft_of d a]) (record_step d a e s)"
  by (cases "fold_accepts (nat (min (max a 0) (int (nat (min d 255))))) [0..<min (nat (min d 255)) kDraftMax] (sp_accept_p s, sp_accept_n s)")
    (auto simp: record_step_def draft_of_def Let_def kWindow_def intro!: window_push)

lemma window_apply: "window_inv ds s \<Longrightarrow> window_inv (draft_step c ds) (sp_apply c s)"
proof (cases c)
  case (C_record d a e)
  assume w: "window_inv ds s"
  show ?thesis
  proof (cases "d \<le> 0")
    case True
    then show ?thesis using w by (simp add: C_record sp_apply_def draft_step_def record_step_def window_inv_def)
  next
    case False
    then show ?thesis using window_record[OF w] by (simp add: C_record sp_apply_def draft_step_def)
  qed
qed (auto simp: sp_apply_def draft_step_def window_reset next_draft_def observe_step_def Let_def intro: window_inv_cong split: prod.split)

lemma window_run: "window_inv (drafts cs) (sp_run cs)"
proof -
  have "window_inv ds s \<Longrightarrow> window_inv (List.fold draft_step cs ds) (List.fold sp_apply cs s)" for ds s
    by (induction cs arbitrary: ds s) (simp_all add: window_apply)
  then show ?thesis using window_reset(2) by (simp add: drafts_def sp_run_def sp_new_def)
qed

lemma draft_of_le: "snd (draft_of d a) \<le> fst (draft_of d a) \<and> fst (draft_of d a) \<le> 255"
proof -
  have "nat (min (max a 0) (min d 255)) \<le> nat (min d 255)" by (rule nat_mono) (rule min.cobounded2)
  moreover have "nat (min d 255) \<le> 255" by (simp only: nat_le_iff)
  ultimately show ?thesis by (simp only: draft_of_def fst_conv snd_conv simp_thms)
qed

abbreviation draft_ok :: "nat \<times> nat \<Rightarrow> bool" where
  "draft_ok p \<equiv> snd p \<le> fst p \<and> fst p \<le> 255"

lemma draft_step_ok: "list_all draft_ok ds \<Longrightarrow> list_all draft_ok (draft_step c ds)"
  by (cases c) (simp_all add: draft_step_def draft_of_le)

lemma drafts_le: "p \<in> set (drafts cs) \<Longrightarrow> snd p \<le> fst p \<and> fst p \<le> 255"
proof -
  have "list_all draft_ok ds \<Longrightarrow> list_all draft_ok (List.fold draft_step cs ds)" for ds
    by (induction cs arbitrary: ds) (simp_all add: draft_step_ok)
  from this[of "[]"] show "p \<in> set (drafts cs) \<Longrightarrow> draft_ok p" by (simp add: drafts_def list_all_iff)
qed

lemma sums_le:
  assumes "\<forall>p\<in>set ws. snd p \<le> fst p \<and> fst p \<le> 255"
  shows "0 \<le> sum_list (map (int \<circ> snd) ws)" "sum_list (map (int \<circ> snd) ws) \<le> sum_list (map (int \<circ> fst) ws)"
    "sum_list (map (int \<circ> fst) ws) \<le> 255 * int (length ws)"
  using assms by (induction ws) auto

subsection \<open>Integers as doubles\<close>

lemma prec64: "prec F64 = 53" "e_min F64 = -1074" "e_max F64 = 971" by (simp_all add: F64_def)

lemma rep_int: "0 \<le> i \<Longrightarrow> i < 2 ^ 53 \<Longrightarrow> is_rep F64 (real_of_int i)"
  using is_rep_scaled[of F64 "nat i" 0] by (simp add: prec64 nat_less_iff)

lemma dbl_range: "0 \<le> i \<Longrightarrow> i < 2 ^ 53 \<Longrightarrow> in_range F64 (real_of_int i) (real_of_int i) (dbl i)"
  by (rule fp_of_int_range) (simp_all add: rep_int)

lemma dbl_val: "0 \<le> i \<Longrightarrow> i < 2 ^ 53 \<Longrightarrow> fval (dbl i) = real_of_int i"
  using dbl_range[of i] by (simp add: in_range_def)


subsection \<open>The schedule\<close>

text \<open>The results of \<open>next_draft\<close>, each with the best length at that time.\<close>

fun sp_results :: "sp_call list \<Rightarrow> spec_policy \<Rightarrow> (nat \<times> nat) list" where
  "sp_results [] s = []"
| "sp_results (c # cs) s = (case c of C_next \<Rightarrow> [(fst (next_draft s), best_draft s)] | _ \<Rightarrow> []) @ sp_results cs (sp_apply c s)"

lemma best_step_le: "fst b \<le> kDraftMax \<Longrightarrow> d \<le> kDraftMax \<Longrightarrow> fst (best_step s d b) \<le> kDraftMax"
  by (simp add: best_step_def Let_def)

lemma best_draft_le: "best_draft s \<le> kDraftMax"
proof -
  have "\<forall>d\<in>set ds. d \<le> kDraftMax \<Longrightarrow> fst b \<le> kDraftMax \<Longrightarrow> fst (List.fold (best_step s) ds b) \<le> kDraftMax" for ds b
    by (induction ds arbitrary: b) (simp_all add: best_step_le)
  from this[of "[0..<kDepths]" "(0, dbl (-1))"] show ?thesis by (auto simp: best_draft_def kDepths_def split: prod.split)
qed

text \<open>What the \<open>k\<close>-th call of \<open>next_draft\<close> gives: the ten calls of the warmup go through each length twice, and then each
  17th call is a probe of the next length.\<close>

definition scheduled :: "nat \<Rightarrow> nat \<Rightarrow> nat" where
  "scheduled k best = (if k < kWarmupSteps then (kDraftMax + k) mod kDepths
     else if (k - kWarmupSteps) mod (kProbeEvery + 1) = kProbeEvery then (if best < kDraftMax then best + 1 else 0) else best)"

definition schedule_inv :: "nat \<Rightarrow> spec_policy \<Rightarrow> bool" where
  "schedule_inv k s \<longleftrightarrow> sp_warmup_left s = kWarmupSteps - k \<and> sp_warm_cursor s = (kDraftMax + min k kWarmupSteps) mod kDepths \<and>
     sp_since_probe s = (k - kWarmupSteps) mod (kProbeEvery + 1)"

lemma schedule_next: "schedule_inv k s \<Longrightarrow> fst (next_draft s) = scheduled k (best_draft s) \<and> schedule_inv (Suc k) (snd (next_draft s))"
proof (cases "k < kWarmupSteps")
  case True
  assume "schedule_inv k s"
  then show ?thesis using True by (simp add: schedule_inv_def scheduled_def next_draft_def sp_consts mod_Suc_eq)
next
  case False
  assume i: "schedule_inv k s"
  define j where "j = k - 10"
  have k: "k = 10 + j" using False by (simp add: j_def sp_consts)
  have "j mod 17 < 17" by simp
  then consider "j mod 17 = 16" "Suc j mod 17 = 0" | "j mod 17 < 16" "Suc j mod 17 = Suc (j mod 17)"
    by (cases "j mod 17 = 16") (simp_all add: mod_Suc)
  then show ?thesis using i by cases (simp_all add: schedule_inv_def scheduled_def next_draft_def sp_consts Let_def k)
qed

lemma schedule_other:
  assumes "schedule_inv k s"
  shows "schedule_inv k (record_step d a e s)" "schedule_inv k (observe_step us s)"
  using assms by (simp_all add: schedule_inv_def record_step_def observe_step_def Let_def split: prod.split)

lemma schedule_results:
  assumes "schedule_inv k s" "C_reset \<notin> set cs" "C_reset_all \<notin> set cs" "(r, b) = sp_results cs s ! i" "i < length (sp_results cs s)"
  shows "r = scheduled (k + i) b"
  using assms
proof (induction cs arbitrary: k s i)
  case (Cons c cs)
  show ?case
  proof (cases "c = C_next")
    case True
    note n = schedule_next[OF Cons.prems(1)]
    show ?thesis
    proof (cases i)
      case 0
      then show ?thesis using Cons.prems(4) n True by simp
    next
      case (Suc j)
      then show ?thesis using Cons.IH[of "Suc k" "snd (next_draft s)" j] Cons.prems n True by (simp add: sp_apply_def)
    qed
  next
    case False
    then have "schedule_inv k (sp_apply c s)" "sp_results (c # cs) s = sp_results cs (sp_apply c s)"
      using Cons.prems(1-3) schedule_other by (cases c; simp add: sp_apply_def)+
    then show ?thesis using Cons.IH[of k "sp_apply c s" i] Cons.prems by simp
  qed
qed simp

text \<open>From the start and without a reset, the ten first calls of \<open>next_draft\<close> measure each length twice, starting with the
  longest draft. Each later call gives the best length, but each 17th of them is a probe that drafts one token more, or none
  when the best length is the longest one. No call gives more than \<open>kDraftMax\<close> tokens.\<close>

theorem spec_schedule:
  assumes "C_reset \<notin> set cs" "C_reset_all \<notin> set cs" "i < length (sp_results cs sp_new)" "(r, b) = sp_results cs sp_new ! i"
  shows "r = scheduled i b \<and> b \<le> kDraftMax \<and> r \<le> kDraftMax"
proof -
  have "schedule_inv 0 sp_new" by (simp add: schedule_inv_def sp_new_def sp_reset_all_def sp_reset_def sp_consts)
  from schedule_results[OF this assms(1,2,4,3)] have r: "r = scheduled i b" by simp
  have "p \<in> set (sp_results cs s) \<Longrightarrow> snd p \<le> kDraftMax" for p s
    by (induction cs arbitrary: s) (auto simp: best_draft_le split: sp_call.splits)
  then have "b \<le> kDraftMax" using assms(3,4) nth_mem by (metis snd_conv)
  moreover have "(4 + i) mod 5 \<le> 4" for i :: nat using mod_less_divisor[of 5 "4 + i"] by linarith
  ultimately show ?thesis unfolding r by (simp add: scheduled_def sp_consts)
qed

lemma spec_schedule_witness: "fst (sp_results [C_next, C_record 4 4 5, C_next] sp_new ! 1) = 0"
proof -
  obtain r b where p: "(r, b) = sp_results [C_next, C_record 4 4 5, C_next] sp_new ! 1" by (metis prod.exhaust)
  have "1 < length (sp_results [C_next, C_record 4 4 5, C_next] sp_new)" by simp
  from spec_schedule[OF _ _ this p] have "r = scheduled 1 b" by simp
  then have "r = 0" by (simp add: scheduled_def sp_consts)
  then show ?thesis unfolding p[symmetric] by simp
qed

subsection \<open>The measured values\<close>

lemma bit_length_num: "bit_length (numeral n) = Suc (bit_length (numeral n div 2))"
  by (subst bit_length.simps) simp

lemma bit_length_1: "bit_length (Suc 0) = 1"
  by (simp add: bit_length.simps)

lemma dbl_9_10: "dbl 9 = Fin False 5066549580791808 (-49)" "dbl 10 = Fin False 5629499534213120 (-49)"
  by (simp_all add: fp_of_int_def round_fp_def F64_def bit_length_num bit_length_1 Let_def)

lemma kDecay_val: "kDecay = Fin False 8106479329266893 (-53)"
  unfolding kDecay_def dbl_9_10
  by (simp add: F64_def bit_length_num bit_length_1 Let_def round_fp_def shift_rne_def)

lemma rep_simps: "is_rep F64 1" "is_rep F64 (1 / 2)" "is_rep F64 (2 ^ 63)"
  using rep_int[of 1] is_rep_scaled[of F64 1 "-1"] is_rep_scaled[of F64 1 63] by (simp_all add: prec64 power_int_minus power_int_of_nat field_simps)

lemma kDecay_range: "in_range F64 (1 / 2) 1 kDecay"
proof -
  have "(2::real) powi (-53) = 1 / 2 ^ 53" by (simp add: power_int_minus field_simps)
  then show ?thesis by (simp add: kDecay_val in_range_def in_fmt_def F64_def)
qed

lemma weight_range:
  assumes "0 < n" "n \<le> kSampleCap"
  shows "in_range F64 (1 / 2) 1 (weight_of n)"
proof -
  have b: "0 \<le> int (n + 1)" "int (n + 1) < 2 ^ 53" using assms by (simp_all add: sp_consts)
  have one: "in_range F64 1 1 (dbl 1)" using dbl_range[of 1] by simp
  have "fval (dbl 1) \<le> 1 / 2 * fval (dbl (int (n + 1)))" using assms(1) dbl_val[OF b] by (simp add: dbl_val)
  then have q: "in_range F64 0 (1 / 2) (fp_div F64 (dbl 1) (dbl (int (n + 1))))"
    using div_le[OF _ one dbl_range[OF b] _ rep_simps(2)] by simp
  have "fval (fp_div F64 (dbl 1) (dbl (int (n + 1)))) \<le> fval (dbl 1)" using q dbl_val[of 1] by (simp add: in_range_def)
  then have "in_range F64 (1 / 2) 1 (fp_sub F64 (dbl 1) (fp_div F64 (dbl 1) (dbl (int (n + 1)))))"
    using sub_range[OF _ one q] rep_simps by simp
  then show ?thesis using assms(1) kDecay_range by (simp add: weight_of_def Let_def)
qed

text \<open>A weight of at least one half has an exact complement.\<close>

lemma half_exact:
  assumes "in_range F64 (1 / 2) 1 w" and k: "k \<le> 63"
  shows "is_rep F64 (2 ^ k * fval w)" "is_rep F64 (2 ^ k * (1 - fval w))" "in_range F64 (1 - fval w) (1 - fval w) (fp_sub F64 (dbl 1) w)"
proof -
  obtain m e where w: "w = Fin False m e" "m < 2 ^ 53" "e = -1074 \<or> 2 ^ 52 \<le> m" "1 / 2 \<le> real m * 2 powi e" "real m * 2 powi e \<le> 1"
    using assms by (auto simp: in_range_def in_fmt_def prec64)
  have "2 powi (-1) \<le> real m * 2 powi e" using w(4) by (simp add: power_int_minus)
  also have "\<dots> < 2 ^ 53 * 2 powi e" using w(2) of_nat_less_iff[of m "2 ^ 53", where ?'a = real] by simp
  also have "\<dots> = 2 powi (53 + e)" by (simp add: power_int_add)
  finally have "-1 < 53 + e" unfolding powi_less .
  then have e: "-53 \<le> e" by simp
  then have "2 ^ 52 \<le> m" using w(3) by auto
  then have "2 ^ 52 \<le> real m" using of_nat_le_iff[of "2 ^ 52" m, where ?'a = real] by simp
  then have "2 ^ 52 * 2 powi e \<le> real m * 2 powi e" by (intro mult_right_mono) simp_all
  from order_trans[OF this w(5)] have "2 powi (52 + e) \<le> (1::real)" by (simp add: power_int_add)
  then have "\<not> (2::real) powi 0 < 2 powi (52 + e)" by simp
  then have e0: "e \<le> -52" unfolding powi_less by simp
  have up: "is_rep F64 (2 ^ k * (real m * 2 powi e))"
    using is_rep_scaled[of F64 m "e + int k"] w(2) e e0 k by (simp add: prec64 power_int_add mult.commute mult.left_commute)
  define j where "j = nat (- e)"
  have j: "e = - int j" "j \<le> 53" "52 \<le> j" using e e0 by (simp_all add: j_def)
  have pj: "(2::real) ^ j * 2 powi e = 1" by (simp add: j(1) power_int_minus field_simps)
  have "real m * 2 powi e \<le> 2 ^ j * 2 powi e" using w(5) by (simp add: pj)
  then have "real m \<le> 2 ^ j" by simp
  then have mj: "m \<le> 2 ^ j" using of_nat_le_iff[of m "2 ^ j", where ?'a = real] by simp
  have c: "real (2 ^ j - m) * 2 powi e = 1 - fval w"
    using mj pj by (simp add: w(1) of_nat_diff left_diff_distrib)
  have lt: "2 ^ j - m < 2 ^ 53"
  proof -
    have "(2::nat) ^ j \<le> 2 ^ 53" using j(2) by (rule power_increasing) simp
    moreover have "0 < m" using w(4) by (cases m) simp_all
    then have "2 ^ j - m < (2::nat) ^ j" by (intro diff_less) simp_all
    ultimately show ?thesis by (rule less_le_trans[rotated])
  qed
  have rc: "is_rep F64 (2 ^ i * (1 - fval w))" if "i \<le> 63" for i
    using is_rep_scaled[of F64 "2 ^ j - m" "e + int i"] lt e e0 that
    by (simp add: prec64 power_int_add c[symmetric] mult.commute mult.left_commute del: of_nat_diff)
  have one: "in_range F64 1 1 (dbl 1)" using dbl_range[of 1] by simp
  have ww: "in_range F64 (fval w) (fval w) w" using assms by (simp add: in_range_def)
  have "fval w \<le> fval (dbl 1)" using w(1,5) dbl_val[of 1] by simp
  then have "in_range F64 (1 - fval w) (1 - fval w) (fp_sub F64 (dbl 1) w)"
    using rc[of 0] by (intro sub_range[OF _ one ww]) simp_all
  then show "in_range F64 (1 - fval w) (1 - fval w) (fp_sub F64 (dbl 1) w)" .
  show "is_rep F64 (2 ^ k * fval w)" using up by (simp add: w(1))
  show "is_rep F64 (2 ^ k * (1 - fval w))" by (rule rc[OF k])
qed

lemma rep_pow: "k \<le> 63 \<Longrightarrow> is_rep F64 (2 ^ k)"
  using is_rep_scaled[of F64 1 "int k"] by (simp add: prec64)

text \<open>The mean stays between the bounds of the samples.\<close>

lemma convex_range:
  assumes w: "in_range F64 (1 / 2) 1 w" and mean: "in_range F64 a (2 ^ k) mean" and v: "in_range F64 a (2 ^ k) v"
    and a: "a = 0 \<or> a = 1" and k: "k \<le> 63"
  shows "in_range F64 a (2 ^ k) (fp_add F64 (fp_mul F64 mean w) (fp_mul F64 v (fp_sub F64 (dbl 1) w)))"
proof -
  define W where "W = fval w"
  have ra: "is_rep F64 a" "0 \<le> a" using a rep_simps(1) by auto
  have W: "0 \<le> W" "0 \<le> 1 - W" "in_range F64 W W w" using w by (simp_all add: in_range_def W_def)
  note h = half_exact[OF w, folded W_def]
  have rW: "is_rep F64 (a * W)" "is_rep F64 (a * (1 - W))" using a h(1,2)[of 0] by auto
  have m1: "in_range F64 (a * W) (2 ^ k * W) (fp_mul F64 mean w)"
    by (rule mul_range[OF _ mean W(3) ra(2) W(1) rW(1) order_refl h(1)[OF k] order_refl]) simp
  have m2: "in_range F64 (a * (1 - W)) (2 ^ k * (1 - W)) (fp_mul F64 v (fp_sub F64 (dbl 1) w))"
    by (rule mul_range[OF _ v h(3)[OF k] ra(2) W(2) rW(2) order_refl h(2)[OF k] order_refl]) simp
  have "a \<le> a * W + a * (1 - W)" "2 ^ k * W + 2 ^ k * (1 - W) \<le> 2 ^ k" by (simp_all add: algebra_simps)
  then show ?thesis by (intro add_range[OF _ m1 m2 ra(1) _ rep_pow[OF k]]) simp_all
qed

lemma first_range:
  assumes mean: "in_range F64 0 (2 ^ k) mean" and v: "in_range F64 a (2 ^ k) v" and a: "a = 0 \<or> a = 1" and k: "k \<le> 63"
  shows "in_range F64 a (2 ^ k) (fp_add F64 (fp_mul F64 mean (dbl 0)) (fp_mul F64 v (fp_sub F64 (dbl 1) (dbl 0))))"
proof -
  have ra: "is_rep F64 a" "0 \<le> a" using a rep_simps(1) by auto
  have one: "in_range F64 1 1 (dbl 1)" and z: "in_range F64 0 0 (dbl 0)" using dbl_range[of 1] dbl_range[of 0] by simp_all
  from mul_range[OF _ mean z] have m1: "in_range F64 0 0 (fp_mul F64 mean (dbl 0))" by simp
  have "fval (dbl 0) \<le> fval (dbl 1)" by (simp add: dbl_val)
  from sub_range[OF _ one z this rep_simps(1) _ rep_simps(1)] have c: "in_range F64 1 1 (fp_sub F64 (dbl 1) (dbl 0))" by simp
  from mul_range[OF _ v c ra(2) _ ra(1) _ rep_pow[OF k]]
  have m2: "in_range F64 a (2 ^ k) (fp_mul F64 v (fp_sub F64 (dbl 1) (dbl 0)))" by simp
  from add_range[OF _ m1 m2 ra(1) _ rep_pow[OF k]] show ?thesis by simp
qed

lemma fold_sample_range:
  assumes n: "n \<le> kSampleCap" and mean: "in_range F64 (if n = 0 then 0 else a) (2 ^ k) mean" and v: "in_range F64 a (2 ^ k) v"
    and a: "a = 0 \<or> a = 1" and k: "k \<le> 63"
  shows "in_range F64 a (2 ^ k) (fst (fold_sample (mean, n) v))" "0 < snd (fold_sample (mean, n) v)" "snd (fold_sample (mean, n) v) \<le> kSampleCap"
proof -
  have f: "fst (fold_sample (mean, n) v) = fp_add F64 (fp_mul F64 mean (weight_of n)) (fp_mul F64 v (fp_sub F64 (dbl 1) (weight_of n)))"
    unfolding fold_sample_def Let_def prod.case fst_conv ..
  show "in_range F64 a (2 ^ k) (fst (fold_sample (mean, n) v))"
  proof (cases "n = 0")
    case True
    have "weight_of n = dbl 0" by (simp add: weight_of_def True)
    then show ?thesis unfolding f using first_range[OF _ v a k] mean True by simp
  next
    case False
    then have w: "in_range F64 (1 / 2) 1 (weight_of n)" using weight_range[OF _ n] by simp
    have "in_range F64 a (2 ^ k) mean" using mean False by simp
    from convex_range[OF w this v a k] show ?thesis unfolding f .
  qed
  show "0 < snd (fold_sample (mean, n) v)" "snd (fold_sample (mean, n) v) \<le> kSampleCap"
    using n unfolding fold_sample_def Let_def prod.case snd_conv by (simp_all add: sp_consts)
qed

subsection \<open>The invariant of the measurements\<close>

definition measure_inv :: "spec_policy \<Rightarrow> bool" where
  "measure_inv s \<longleftrightarrow> length (sp_accept_p s) = kDraftMax \<and> length (sp_accept_n s) = kDraftMax \<and>
     length (sp_time_us s) = kDepths \<and> length (sp_time_n s) = kDepths \<and>
     (\<forall>i<kDraftMax. in_range F64 0 1 (sp_accept_p s ! i) \<and> sp_accept_n s ! i \<le> kSampleCap) \<and>
     (\<forall>d<kDepths. in_range F64 (if sp_time_n s ! d = 0 then 0 else 1) (2 ^ 63) (sp_time_us s ! d) \<and> sp_time_n s ! d \<le> kSampleCap) \<and>
     sp_pending_depth s \<le> int kDraftMax"

lemma accepts_range:
  assumes "length ps = k" "length ns = k" "\<forall>i<k. in_range F64 0 1 (ps ! i) \<and> ns ! i \<le> kSampleCap" "set is \<subseteq> {..<k}"
    and "fold_accepts a is (ps, ns) = (ps', ns')"
  shows "length ps' = k \<and> length ns' = k \<and> (\<forall>i<k. in_range F64 0 1 (ps' ! i) \<and> ns' ! i \<le> kSampleCap)"
  using assms
proof (induction "is" arbitrary: ps ns)
  case (Cons i "is")
  show ?case
  proof (cases "a < i")
    case False
    have v: "in_range F64 0 (2 ^ 0) (if i < a then dbl 1 else dbl 0)"
      using in_range_weaken[OF dbl_range[of 1]] in_range_weaken[OF dbl_range[of 0]] by auto
    obtain p n where pn: "fold_sample (ps ! i, ns ! i) (if i < a then dbl 1 else dbl 0) = (p, n)" by fastforce
    have i: "i < k" using Cons.prems(4) by simp
    have m: "in_range F64 (if ns ! i = 0 then 0 else 0) (2 ^ 0) (ps ! i)" "ns ! i \<le> kSampleCap" using Cons.prems(3) i by simp_all
    have "in_range F64 0 1 p" "n \<le> kSampleCap"
      using fold_sample_range(1)[OF m(2,1) v] fold_sample_range(3)[OF m(2,1) v] pn by simp_all
    then have ok: "\<forall>j<k. in_range F64 0 1 (ps[i := p] ! j) \<and> ns[i := n] ! j \<le> kSampleCap"
      using Cons.prems(1-3) i by (auto simp: nth_list_update)
    have "fold_accepts a is (ps[i := p], ns[i := n]) = (ps', ns')" using Cons.prems(5) False pn by simp
    then show ?thesis using Cons.IH[OF _ _ ok] Cons.prems(1,2,4) by simp
  qed (use Cons.prems in simp)
qed simp

lemma measure_apply: "measure_inv s \<Longrightarrow> measure_inv (sp_apply c s)"
proof (cases c)
  case C_reset_all
  have "in_range F64 0 b (dbl 0)" if "0 \<le> b" for b using in_range_weaken[OF dbl_range[of 0]] that by simp
  then show ?thesis by (simp add: C_reset_all sp_apply_def measure_inv_def sp_reset_all_def sp_reset_def sp_consts)
next
  case (C_record d a e)
  assume m: "measure_inv s"
  define d' a' where "d' = nat (min d 255)" and "a' = nat (min (max a 0) (int d'))"
  obtain ps ns where f: "fold_accepts a' [0..<min d' kDraftMax] (sp_accept_p s, sp_accept_n s) = (ps, ns)" by fastforce
  have "length ps = kDraftMax \<and> length ns = kDraftMax \<and> (\<forall>i<kDraftMax. in_range F64 0 1 (ps ! i) \<and> ns ! i \<le> kSampleCap)"
    using m accepts_range[OF _ _ _ _ f, of kDraftMax] by (simp add: measure_inv_def atLeast0LessThan)
  then have ok: "length ps = kDraftMax" "length ns = kDraftMax" "\<forall>i<kDraftMax. in_range F64 0 1 (ps ! i) \<and> ns ! i \<le> kSampleCap" by simp_all
  have "sp_accept_p (record_step d a e s) = (if d \<le> 0 then sp_accept_p s else ps)" "sp_accept_n (record_step d a e s) = (if d \<le> 0 then sp_accept_n s else ns)"
    "sp_time_us (record_step d a e s) = sp_time_us s" "sp_time_n (record_step d a e s) = sp_time_n s"
    "sp_pending_depth (record_step d a e s) \<le> int kDraftMax"
    unfolding record_step_def Let_def d'_def[symmetric] a'_def[symmetric] by (simp_all add: f)
  then show ?thesis using m ok by (simp add: C_record sp_apply_def measure_inv_def)
next
  case (C_observe us)
  assume m: "measure_inv s"
  show ?thesis
  proof (cases "sp_pending_depth s < 0 \<or> int kDepths \<le> sp_pending_depth s \<or> sint us \<le> 0")
    case False
    define d where "d = nat (sp_pending_depth s)"
    have d: "d < kDepths" using False by (simp add: d_def nat_less_iff)
    obtain t n where tn: "fold_sample (sp_time_us s ! d, sp_time_n s ! d) (dbl (sint us)) = (t, n)" by fastforce
    have "sint us < 2 ^ 63" using sint_lt[of us] by simp
    have v: "in_range F64 1 (2 ^ 63) (dbl (sint us))"
    proof (rule fp_of_int_range[OF _ rep_simps(1) _ rep_simps(3)])
      show "1 \<le> real_of_int (sint us)" using False by (simp del: of_int_sint)
      show "real_of_int (sint us) \<le> 2 ^ 63" using \<open>sint us < 2 ^ 63\<close> of_int_le_iff[of "sint us" "2 ^ 63", where ?'a = real] by (simp del: of_int_sint)
    qed (use False in simp_all)
    have "in_range F64 (if sp_time_n s ! d = 0 then 0 else 1) (2 ^ 63) (sp_time_us s ! d)" "sp_time_n s ! d \<le> kSampleCap"
      using m d by (simp_all add: measure_inv_def)
    from fold_sample_range[OF this(2,1) v] have t: "in_range F64 1 (2 ^ 63) t" "0 < n" "n \<le> kSampleCap" by (simp_all add: tn)
    have "in_range F64 (if (sp_time_n s)[d := n] ! j = 0 then 0 else 1) (2 ^ 63) ((sp_time_us s)[d := t] ! j) \<and> (sp_time_n s)[d := n] ! j \<le> kSampleCap"
      if "j < kDepths" for j
      using m d t that by (cases "j = d") (simp_all add: measure_inv_def)
    then show ?thesis using m False tn
      by (simp add: C_observe sp_apply_def observe_step_def measure_inv_def Let_def d_def[symmetric])
  qed (use m in \<open>simp add: C_observe sp_apply_def observe_step_def measure_inv_def Let_def\<close>)
qed (auto simp: sp_apply_def measure_inv_def next_draft_def sp_reset_def Let_def)

lemma measure_run: "measure_inv (sp_run cs)"
proof -
  have "measure_inv s \<Longrightarrow> measure_inv (List.fold sp_apply cs s)" for s
    by (induction cs arbitrary: s) (simp_all add: measure_apply)
  moreover have "measure_inv sp_new"
  proof -
    have "in_range F64 0 b (dbl 0)" if "0 \<le> b" for b using in_range_weaken[OF dbl_range[of 0]] that by simp
    then show ?thesis by (simp add: sp_new_def measure_inv_def sp_reset_all_def sp_reset_def sp_consts)
  qed
  ultimately show ?thesis by (simp add: sp_run_def)
qed

text \<open>C27. After each sequence of calls, each measured acceptance is a number from 0 to 1, and each measured step time is a number from
  1 to \<open>2 ^ 63\<close> microseconds: no rounding, overflow or NaN of the decayed means leaves these ranges.\<close>

theorem spec_measures:
  "let s = sp_run cs in
   (\<forall>i<kDraftMax. in_range F64 0 1 (sp_accept_p s ! i)) \<and>
   (\<forall>d<kDepths. sp_time_n s ! d \<le> kSampleCap \<and> (0 < sp_time_n s ! d \<longrightarrow> in_range F64 1 (2 ^ 63) (sp_time_us s ! d)))"
  using measure_run[of cs] by (fastforce simp: measure_inv_def Let_def)

lemma spec_measures_witness:
  "in_range F64 1 (2 ^ 63) (sp_time_us (sp_run [C_record 4 2 3, C_observe 90000]) ! 4)"
proof -
  have "0 < sp_time_n (sp_run [C_record 4 2 3, C_observe 90000]) ! 4"
    by (simp add: sp_run_def sp_apply_def sp_new_def sp_reset_all_def sp_reset_def record_step_def observe_step_def sp_consts Let_def
        fold_sample_def nth_list_update split: prod.split)
  then show ?thesis using spec_measures[of "[C_record 4 2 3, C_observe 90000]"] by (simp add: Let_def sp_consts)
qed

subsection \<open>The predicted tokens\<close>

definition chain_state :: "spec_policy \<Rightarrow> nat \<Rightarrow> fp \<times> fp \<times> fp" where
  "chain_state s i = List.fold (chain_step s) [0..<i] (dbl 1, dbl 1, kAcceptPrior)"

lemma chain_state_Suc: "chain_state s (Suc i) = chain_step s i (chain_state s i)"
  by (simp add: chain_state_def)

lemma tokens_chain: "predicted_tokens s depth = (if depth \<le> 0 then dbl 1 else fst (chain_state s (min (nat depth) kDraftMax)))"
  by (simp add: predicted_tokens_def chain_state_def Let_def min_def nat_le_iff)

lemma prior_range: "in_range F64 0 1 kAcceptPrior"
  unfolding kAcceptPrior_def using rep_simps(1) by (intro div_le[OF _ dbl_range dbl_range]) (simp_all add: dbl_val)

lemma rep_small: "i < 2 ^ 53 \<Longrightarrow> is_rep F64 (real i)"
  using rep_int[of "int i"] by (simp add: zless_nat_eq_int_zless[symmetric] nat_less_numeral_power_cancel_iff)

lemma chain_range:
  assumes "measure_inv s" "i \<le> kDraftMax"
  shows "in_range F64 1 (real (i + 1)) (fst (chain_state s i)) \<and> in_range F64 0 1 (fst (snd (chain_state s i))) \<and>
    in_range F64 0 1 (snd (snd (chain_state s i)))"
  using assms(2)
proof (induction i)
  case 0
  have "in_range F64 1 1 (dbl 1)" using dbl_range[of 1] by simp
  then show ?case using prior_range in_range_weaken[of F64 1 1 "dbl 1" 0 1] by (simp add: chain_state_def)
next
  case (Suc i)
  obtain t c q where st: "chain_state s i = (t, c, q)" by (metis prod_cases3)
  define p where "p = (if 0 < sp_accept_n s ! i then sp_accept_p s ! i else q)"
  have p: "in_range F64 0 1 p" using Suc assms(1) by (simp add: p_def st measure_inv_def)
  have ih: "in_range F64 1 (real (i + 1)) t" "in_range F64 0 1 c" using Suc by (simp_all add: st)
  from mul_range[OF _ ih(2) p _ _ is_rep_0 _ rep_simps(1)] have c: "in_range F64 0 1 (fp_mul F64 c p)" by simp
  have r: "is_rep F64 (real (i + 2))" using Suc.prems by (intro rep_small) (simp add: sp_consts)
  from add_range[OF _ ih(1) c rep_simps(1) _ r] have "in_range F64 1 (real (i + 2)) (fp_add F64 t (fp_mul F64 c p))" by simp
  then show ?case using c p by (simp add: chain_state_Suc st chain_step_def p_def[symmetric] Let_def)
qed

lemma chain_mono:
  assumes "measure_inv s" "Suc i \<le> kDraftMax"
  shows "fval (fst (chain_state s i)) \<le> fval (fst (chain_state s (Suc i)))"
    "fval (fst (snd (chain_state s (Suc i)))) \<le> fval (fst (snd (chain_state s i)))"
proof -
  obtain t c q where st: "chain_state s i = (t, c, q)" by (metis prod_cases3)
  define p where "p = (if 0 < sp_accept_n s ! i then sp_accept_p s ! i else q)"
  have r: "in_range F64 1 (real (i + 1)) t" "in_range F64 0 1 c" "in_range F64 0 1 q" using chain_range[OF assms(1), of i] assms(2) by (simp_all add: st)
  have p: "in_range F64 0 1 p" using r(3) assms by (simp add: p_def measure_inv_def)
  have sc: "chain_state s (Suc i) = (fp_add F64 t (fp_mul F64 c p), fp_mul F64 c p, p)"
    by (simp add: chain_state_Suc st chain_step_def p_def[symmetric] Let_def)
  have cc: "in_range F64 0 (fval c) c" "in_range F64 (fval t) (real (i + 1)) t" using r by (simp_all add: in_range_def)
  from mul_range[OF _ cc(1) p _ _ is_rep_0 _ in_range_is_rep[OF r(2)]] have m: "in_range F64 0 (fval c) (fp_mul F64 c p)" by simp
  have "in_range F64 0 1 (fp_mul F64 c p)" using m r(2) by (auto simp: in_range_def)
  moreover have "is_rep F64 (real (i + 2))" using assms(2) by (intro rep_small) (simp add: sp_consts)
  ultimately have "in_range F64 (fval t) (real (i + 2)) (fp_add F64 t (fp_mul F64 c p))"
    using add_range[OF _ cc(2) _ in_range_is_rep[OF r(1)]] by simp
  then show "fval (fst (chain_state s i)) \<le> fval (fst (chain_state s (Suc i)))"
    "fval (fst (snd (chain_state s (Suc i)))) \<le> fval (fst (snd (chain_state s i)))"
    using m by (simp_all add: st sc in_range_def)
qed

lemma chain_le: "measure_inv s \<Longrightarrow> i \<le> j \<Longrightarrow> j \<le> kDraftMax \<Longrightarrow> fval (fst (chain_state s i)) \<le> fval (fst (chain_state s j))"
proof (induction j)
  case (Suc j)
  then show ?case using chain_mono(1)[of s j] by (cases "i = Suc j") auto
qed simp

text \<open>The predicted tokens of a step are between 1 and \<open>1 + d\<close> for a draft of \<open>d\<close> tokens, at most 5, and a longer draft never
  gives fewer tokens.\<close>

theorem spec_tokens:
  assumes "d \<le> e"
  shows "in_range F64 1 (1 + real_of_int (min (max d 0) 4)) (predicted_tokens (sp_run cs) d) \<and>
    fval (predicted_tokens (sp_run cs) d) \<le> fval (predicted_tokens (sp_run cs) e)"
proof -
  note m = measure_run[of cs]
  have t: "predicted_tokens (sp_run cs) x = fst (chain_state (sp_run cs) (min (nat x) kDraftMax))" for x
    by (simp add: tokens_chain) (simp add: chain_state_def)
  have "real (min (nat d) kDraftMax + 1) = 1 + real_of_int (min (max d 0) 4)" by (simp add: sp_consts min_def max_def) arith
  then show ?thesis unfolding t
    using chain_range[OF m, of "min (nat d) kDraftMax"] chain_le[OF m, of "min (nat d) kDraftMax" "min (nat e) kDraftMax"] assms
    by (simp add: min.coboundedI1 nat_mono)
qed

lemma spec_tokens_witness: "fval (predicted_tokens sp_new 2) \<le> fval (predicted_tokens sp_new 4)"
  using spec_tokens[of 2 4 "[]"] by (simp add: sp_run_def)

subsection \<open>The best length\<close>

text \<open>A length with a predicted time, and its tokens per microsecond.\<close>

definition usable :: "spec_policy \<Rightarrow> nat \<Rightarrow> bool" where
  "usable s d \<longleftrightarrow> \<not> (fp_less (predicted_us s (int d)) (dbl 0) \<or> fp_eq (predicted_us s (int d)) (dbl 0))"

definition token_rate :: "spec_policy \<Rightarrow> nat \<Rightarrow> fp" where
  "token_rate s d = fp_div F64 (predicted_tokens s (int d)) (predicted_us s (int d))"

definition positive :: "fp \<Rightarrow> bool" where
  "positive x \<longleftrightarrow> x = Inf False \<or> (\<exists>m e. x = Fin False m e \<and> m \<noteq> 0)"

lemma dbl_consts: "dbl 0 = Fin False 0 (-1074)" "dbl 1 = Fin False 4503599627370496 (-52)" "dbl (-1) = Fin True 4503599627370496 (-52)"
  by (simp_all add: fp_of_int_def round_fp_def F64_def bit_length_num bit_length_1 Let_def)

lemma above_one: "fp_less (dbl 1) x \<Longrightarrow> positive x"
proof (cases x)
  case (Fin s m e)
  assume "fp_less (dbl 1) x"
  moreover have "dbl 1 = Fin False 4503599627370496 (-52)" by (rule dbl_consts)
  ultimately have "fval (Fin False 4503599627370496 (-52)) < fval (Fin s m e)" by (simp only: fp_less_val Fin)
  moreover have "0 \<le> fval (Fin False 4503599627370496 (-52))" by simp
  ultimately have "0 < fval (Fin s m e)" by linarith
  moreover have "0 \<le> (2 :: real) powi e" by simp
  ultimately have "\<not> s \<and> m \<noteq> 0" by (auto simp: fval_def signed_def zero_less_mult_iff not_less[symmetric] split: if_splits)
  then show ?thesis by (simp add: Fin positive_def)
qed (auto simp: positive_def dbl_consts)

lemma range_positive: "in_range f 1 b x \<Longrightarrow> positive x"
  by (auto simp: in_range_def positive_def intro: ccontr)

lemma positive_usable: "positive x \<Longrightarrow> \<not> (fp_less x (dbl 0) \<or> fp_eq x (dbl 0))"
  by (auto simp: positive_def dbl_consts signed_def align_def Let_def mult_less_0_iff)

lemma own_time_cases: "measure_inv s \<Longrightarrow> d < kDepths \<Longrightarrow> own_time s d = dbl (-1) \<and> sp_time_n s ! d = 0 \<or> positive (own_time s d)"
  using range_positive[of F64 "2 ^ 63" "sp_time_us s ! d"] by (auto simp: own_time_def measure_inv_def)

lemma us_cases:
  assumes "measure_inv s" "d < kDepths"
  shows "predicted_us s (int d) = dbl (-1) \<and> sp_time_n s ! d = 0 \<or> positive (predicted_us s (int d))"
proof -
  obtain n sx sy sxx sxy where l: "line_sums s = (n, sx, sy, sxx, sxy)" by (metis prod_cases5)
  define denom where "denom = fp_sub F64 (fp_mul F64 n sxx) (fp_mul F64 sx sx)"
  have d: "\<not> (int d < 0 \<or> int kDepths \<le> int d)" using assms(2) by simp
  define slope where "slope = (let s = fp_div F64 (fp_sub F64 (fp_mul F64 n sxy) (fp_mul F64 sx sy)) denom in if fp_less s (dbl 0) then dbl 0 else s)"
  define us where "us = fp_add F64 (fp_div F64 (fp_sub F64 sy (fp_mul F64 slope sx)) n) (fp_mul F64 slope (dbl (int d)))"
  have "predicted_us s (int d) = (if fp_less n (dbl 2) then own_time s d else if fp_less denom (dbl 0) \<or> fp_eq denom (dbl 0) then own_time s d
      else if fp_less (dbl 1) us then us else dbl 1)"
    using d unfolding predicted_us_def l denom_def slope_def us_def Let_def prod.case by simp
  moreover have "positive (dbl 1)" by (simp add: positive_def dbl_consts)
  ultimately show ?thesis using own_time_cases[OF assms] above_one[of us] by (auto split: if_splits)
qed

lemma usable_iff: "measure_inv s \<Longrightarrow> d < kDepths \<Longrightarrow> usable s d \<longleftrightarrow> positive (predicted_us s (int d))"
proof -
  assume "measure_inv s" "d < kDepths"
  note c = us_cases[OF this]
  have "fp_less (dbl (-1)) (dbl 0)" by (simp add: dbl_consts signed_def align_def)
  moreover have "\<not> positive (dbl (-1))" by (simp add: dbl_consts positive_def)
  ultimately show ?thesis using c positive_usable by (auto simp: usable_def)
qed

lemma measured_usable: "measure_inv s \<Longrightarrow> d < kDepths \<Longrightarrow> 0 < sp_time_n s ! d \<Longrightarrow> usable s d"
  using us_cases[of s d] by (simp add: usable_iff)

lemma round_pos_cases: "(\<exists>k c. round_fp f False m e = Fin False k c) \<or> round_fp f False m e = Inf False"
  by (simp add: round_fp_def Let_def split: prod.split)

lemma rate_not_nan:
  assumes "in_range F64 1 b x" "positive y"
  shows "(\<exists>k c. fp_div F64 x y = Fin False k c) \<or> fp_div F64 x y = Inf False"
proof -
  obtain m e where x: "x = Fin False m e" using assms(1) by (auto simp: in_range_def)
  from assms(2) show ?thesis unfolding positive_def
  proof
    assume "\<exists>n d. y = Fin False n d \<and> n \<noteq> 0"
    then obtain n d where y: "y = Fin False n d" "n \<noteq> 0" by blast
    show ?thesis unfolding x y(1) fp_div.simps Let_def using y(2) round_pos_cases by simp
  qed (simp add: x)
qed

lemma rate_facts:
  assumes "measure_inv s" "d < kDepths" "usable s d"
  shows "token_rate s d \<noteq> NaN" "fp_less (dbl (-1)) (token_rate s d)" "\<not> fp_less (token_rate s d) (dbl 0)"
proof -
  have "in_range F64 1 (real (min d kDraftMax + 1)) (predicted_tokens s (int d))"
    using chain_range[OF assms(1), of "min d kDraftMax"] chain_range[OF assms(1), of 0]
    by (simp add: tokens_chain) (simp add: chain_state_def)
  from rate_not_nan[OF this] have "(\<exists>k c. token_rate s d = Fin False k c) \<or> token_rate s d = Inf False"
    using assms by (simp add: usable_iff token_rate_def)
  then have "token_rate s d \<noteq> NaN \<and> fp_less (dbl (-1)) (token_rate s d) \<and> \<not> fp_less (token_rate s d) (dbl 0)"
  proof (elim disjE exE)
    fix k c assume r: "token_rate s d = Fin False k c"
    have "fval (dbl (-1)) = -1" "fval (dbl 0) = 0" by (simp_all add: dbl_consts fval_def signed_def power_int_minus)
    moreover have "0 \<le> real k * 2 powi c" by (intro mult_nonneg_nonneg) simp_all
    then have "-1 < real k * 2 powi c \<and> \<not> real k * 2 powi c < 0" by linarith
    ultimately show ?thesis unfolding r dbl_consts fp_less_val by simp
  qed (simp add: dbl_consts)
  then show "token_rate s d \<noteq> NaN" "fp_less (dbl (-1)) (token_rate s d)" "\<not> fp_less (token_rate s d) (dbl 0)" by simp_all
qed

definition best_upto :: "spec_policy \<Rightarrow> nat \<Rightarrow> nat \<times> fp" where
  "best_upto s j = List.fold (best_step s) [0..<j] (0, dbl (-1))"

lemma best_upto_inv:
  assumes m: "measure_inv s" and "j \<le> kDepths"
  shows "(\<forall>d<j. \<not> usable s d) \<and> best_upto s j = (0, dbl (-1)) \<or>
    (\<exists>b<j. usable s b \<and> best_upto s j = (b, token_rate s b) \<and> (\<forall>d<j. usable s d \<longrightarrow> \<not> fp_less (token_rate s b) (token_rate s d)))"
  using assms(2)
proof (induction j)
  case 0
  then show ?case by (simp add: best_upto_def)
next
  case (Suc j)
  have j: "j < kDepths" using Suc.prems by simp
  have st: "best_upto s (Suc j) = (if usable s j then if fp_less (snd (best_upto s j)) (token_rate s j) then (j, token_rate s j) else best_upto s j
      else best_upto s j)"
    by (simp add: best_upto_def best_step_def usable_def token_rate_def Let_def)
  have irr: "\<not> fp_less x x" for x by (cases x) (auto simp: Let_def)
  from Suc.IH[OF less_imp_le[OF j]] show ?case
  proof (elim disjE exE conjE)
    assume a: "\<forall>d<j. \<not> usable s d" "best_upto s j = (0, dbl (-1))"
    show ?thesis
    proof (cases "usable s j")
      case True
      then have "best_upto s (Suc j) = (j, token_rate s j)" using st a(2) rate_facts(2)[OF m j] by simp
      then show ?thesis using True a(1) irr less_Suc_eq by auto
    next
      case False
      then show ?thesis using st a less_Suc_eq by auto
    qed
  next
    fix b assume b: "b < j" "usable s b" "best_upto s j = (b, token_rate s b)"
      "\<forall>d<j. usable s d \<longrightarrow> \<not> fp_less (token_rate s b) (token_rate s d)"
    show ?thesis
    proof (cases "usable s j \<and> fp_less (token_rate s b) (token_rate s j)")
      case True
      then have u: "best_upto s (Suc j) = (j, token_rate s j)" using st b(3) by simp
      have "\<not> fp_less (token_rate s j) (token_rate s d)" if "d < j" "usable s d" for d
      proof -
        have "d < kDepths" "b < kDepths" using that(1) b(1) j by simp_all
        then have "token_rate s d \<noteq> NaN" "token_rate s b \<noteq> NaN" "token_rate s j \<noteq> NaN" using rate_facts(1)[OF m] that(2) b(2) True j by blast+
        moreover have "\<not> fp_less (token_rate s j) (token_rate s b)" using True fp_less_asym by blast
        moreover have "\<not> fp_less (token_rate s b) (token_rate s d)" using b(4) that by blast
        ultimately show ?thesis using fp_le_trans[of "token_rate s d" "token_rate s b" "token_rate s j"] by blast
      qed
      then show ?thesis using True u irr less_Suc_eq by auto
    next
      case False
      then have "best_upto s (Suc j) = (b, token_rate s b)" using st b(3) by auto
      moreover have "\<not> fp_less (token_rate s b) (token_rate s d)" if "d < Suc j" "usable s d" for d
        using that b(4) False less_Suc_eq by blast
      ultimately show ?thesis using b(1,2) by auto
    qed
  qed
qed



end
