(* ===== verification/CacheHash.thy ===== *)
theory CacheHash
  imports Prelude
begin

text \<open>
  The hash helpers of the engine caches, \<open>android/app/src/main/cpp/cache_io.cpp\<close>: FNV-1a, XXH64, the hexadecimal texts and
  SHA-256. A buffer is the list of its bytes, and a loop over it consumes the list.
\<close>

subsection \<open>Little-endian numbers\<close>

definition word_of_le :: "u8 list \<Rightarrow> 'a::len word" where
  "word_of_le bs = foldr (\<lambda>b w. ucast b OR push_bit 8 w) bs 0"

definition le_of_word :: "nat \<Rightarrow> 'a::len word \<Rightarrow> u8 list" where
  "le_of_word n w = map (\<lambda>i. ucast (drop_bit (8 * i) w)) [0..<n]"

lemma le_of_word_length [simp]: "length (le_of_word n w) = n"
  by (simp add: le_of_word_def)

lemma le_of_word_Suc: "le_of_word (Suc n) w = ucast w # le_of_word n (drop_bit 8 w)"
  by (simp add: le_of_word_def map_upt_Suc drop_bit_drop_bit add.commute del: upt_Suc)

lemma word_of_le_of_word: "word_of_le (le_of_word n w) = take_bit (8 * n) (w :: 'a::len word)"
proof (induction n arbitrary: w)
  case 0
  show ?case by (simp add: le_of_word_def word_of_le_def)
next
  case (Suc n)
  have "word_of_le (le_of_word (Suc n) w) = (ucast (ucast w :: u8) OR push_bit 8 (take_bit (8 * n) (drop_bit 8 w)) :: 'a word)"
    using Suc[of "drop_bit 8 w"] by (simp add: le_of_word_Suc word_of_le_def)
  also have "\<dots> = take_bit (8 * Suc n) w"
    by (rule bit_word_eqI) (auto simp: bit_or_iff bit_push_bit_iff bit_take_bit_iff bit_drop_bit_eq bit_unsigned_iff)
  finally show ?case .
qed

lemma word_le_roundtrip: "8 * n = LENGTH('a) \<Longrightarrow> word_of_le (le_of_word n w) = (w :: 'a::len word)"
  by (simp add: word_of_le_of_word)

subsection \<open>FNV-1a\<close>

definition FNV_SEED :: u64 where "FNV_SEED = 14695981039346656037"

definition fnv1a64 :: "u8 list \<Rightarrow> u64 \<Rightarrow> u64" where
  "fnv1a64 bs seed = fold (\<lambda>b h. (h XOR ucast b) * 1099511628211) bs seed"

subsection \<open>XXH64\<close>

definition kXxP1 :: u64 where "kXxP1 = 0x9E3779B185EBCA87"
definition kXxP2 :: u64 where "kXxP2 = 0xC2B2AE3D27D4EB4F"
definition kXxP3 :: u64 where "kXxP3 = 0x165667B19E3779F9"
definition kXxP4 :: u64 where "kXxP4 = 0x85EBCA77C2B2AE63"
definition kXxP5 :: u64 where "kXxP5 = 0x27D4EB2F165667C5"

definition rotl64 :: "u64 \<Rightarrow> nat \<Rightarrow> u64" where
  "rotl64 x r = push_bit r x OR drop_bit (64 - r) x"

definition load64 :: "u8 list \<Rightarrow> u64" where "load64 bs = word_of_le (take 8 bs)"
definition load32 :: "u8 list \<Rightarrow> u32" where "load32 bs = word_of_le (take 4 bs)"

definition xx_round :: "u64 \<Rightarrow> u64 \<Rightarrow> u64" where
  "xx_round acc input = rotl64 (acc + input * kXxP2) 31 * kXxP1"

definition xx_merge :: "u64 \<Rightarrow> u64 \<Rightarrow> u64" where
  "xx_merge acc v = (acc XOR xx_round 0 v) * kXxP1 + kXxP4"

text \<open>The loops over 32 bytes, over 8 bytes and over one byte. Each gives the hash and the bytes that are left.\<close>

function xx_stripes :: "u8 list \<Rightarrow> u64 \<times> u64 \<times> u64 \<times> u64 \<Rightarrow> (u64 \<times> u64 \<times> u64 \<times> u64) \<times> u8 list" where
  "xx_stripes bs v =
     (if 32 \<le> length bs
      then let (v1, v2, v3, v4) = v
        in xx_stripes (drop 32 bs) (xx_round v1 (load64 bs), xx_round v2 (load64 (drop 8 bs)), xx_round v3 (load64 (drop 16 bs)),
             xx_round v4 (load64 (drop 24 bs)))
      else (v, bs))"
  by pat_completeness auto
termination by (relation "measure (\<lambda>(bs, v). length bs)") auto

function xx_words :: "u8 list \<Rightarrow> u64 \<Rightarrow> u64 \<times> u8 list" where
  "xx_words bs h =
     (if 8 \<le> length bs then xx_words (drop 8 bs) (rotl64 (h XOR xx_round 0 (load64 bs)) 27 * kXxP1 + kXxP4) else (h, bs))"
  by pat_completeness auto
termination by (relation "measure (\<lambda>(bs, h). length bs)") auto

definition xx_bytes :: "u8 list \<Rightarrow> u64 \<Rightarrow> u64" where
  "xx_bytes bs h = fold (\<lambda>b h. rotl64 (h XOR ucast b * kXxP5) 11 * kXxP1) bs h"

definition xx_finish :: "u64 \<Rightarrow> u64" where
  "xx_finish h =
     (let h = (h XOR drop_bit 33 h) * kXxP2; h = (h XOR drop_bit 29 h) * kXxP3 in h XOR drop_bit 32 h)"

definition checksum64 :: "u8 list \<Rightarrow> u64 \<Rightarrow> u64" where
  "checksum64 bs seed =
     (let (h, rest) = (if 32 \<le> length bs
            then let ((v1, v2, v3, v4), rest) = xx_stripes bs (seed + kXxP1 + kXxP2, seed + kXxP2, seed, seed - kXxP1);
                h = rotl64 v1 1 + rotl64 v2 7 + rotl64 v3 12 + rotl64 v4 18
              in (xx_merge (xx_merge (xx_merge (xx_merge h v1) v2) v3) v4, rest)
            else (seed + kXxP5, bs));
          (h, rest) = xx_words rest (h + of_nat (length bs));
          (h, rest) = (if 4 \<le> length rest
            then (rotl64 (h XOR ucast (load32 rest) * kXxP1) 23 * kXxP2 + kXxP3, drop 4 rest) else (h, rest))
      in xx_finish (xx_bytes rest h))"

subsection \<open>Hexadecimal texts\<close>

definition hex_digit :: "nat \<Rightarrow> char" where
  "hex_digit n = ''0123456789abcdef'' ! n"

text \<open>The loop writes the digits from the last one to the first one.\<close>

definition hex64 :: "u64 \<Rightarrow> string" where
  "hex64 v = fst (fold (\<lambda>i (out, v). (out[i := hex_digit (unat (v AND 0xF))], drop_bit 4 v)) (rev [0..<16]) (replicate 16 CHR ''0'', v))"

text \<open>The codes of the characters from 0 to 9 and from a to f.\<close>

definition is_hex_char :: "char \<Rightarrow> bool" where
  "is_hex_char c \<longleftrightarrow> (let n = of_char c :: nat in (48 \<le> n \<and> n \<le> 57) \<or> (97 \<le> n \<and> n \<le> 102))"

definition is_hex :: "string \<Rightarrow> bool" where
  "is_hex s \<longleftrightarrow> s \<noteq> [] \<and> list_all is_hex_char s"

subsection \<open>SHA-256\<close>

definition kSha256K :: "u32 list" where
  "kSha256K = concat [
    [0x428a2f98, 0x71374491, 0xb5c0fbcf, 0xe9b5dba5, 0x3956c25b, 0x59f111f1, 0x923f82a4, 0xab1c5ed5],
    [0xd807aa98, 0x12835b01, 0x243185be, 0x550c7dc3, 0x72be5d74, 0x80deb1fe, 0x9bdc06a7, 0xc19bf174],
    [0xe49b69c1, 0xefbe4786, 0x0fc19dc6, 0x240ca1cc, 0x2de92c6f, 0x4a7484aa, 0x5cb0a9dc, 0x76f988da],
    [0x983e5152, 0xa831c66d, 0xb00327c8, 0xbf597fc7, 0xc6e00bf3, 0xd5a79147, 0x06ca6351, 0x14292967],
    [0x27b70a85, 0x2e1b2138, 0x4d2c6dfc, 0x53380d13, 0x650a7354, 0x766a0abb, 0x81c2c92e, 0x92722c85],
    [0xa2bfe8a1, 0xa81a664b, 0xc24b8b70, 0xc76c51a3, 0xd192e819, 0xd6990624, 0xf40e3585, 0x106aa070],
    [0x19a4c116, 0x1e376c08, 0x2748774c, 0x34b0bcb5, 0x391c0cb3, 0x4ed8aa4a, 0x5b9cca4f, 0x682e6ff3],
    [0x748f82ee, 0x78a5636f, 0x84c87814, 0x8cc70208, 0x90befffa, 0xa4506ceb, 0xbef9a3f7, 0xc67178f2]]"

definition rotr :: "u32 \<Rightarrow> nat \<Rightarrow> u32" where
  "rotr x n = drop_bit n x OR push_bit (32 - n) x"

text \<open>The words \<open>w\<close> of a block: 16 from its bytes, then 48 from the words before.\<close>

definition sha256_load :: "u8 list \<Rightarrow> u32 list" where
  "sha256_load block = map (\<lambda>i. push_bit 24 (ucast (block ! (4 * i))) OR push_bit 16 (ucast (block ! (4 * i + 1)))
     OR push_bit 8 (ucast (block ! (4 * i + 2))) OR ucast (block ! (4 * i + 3))) [0..<16]"

definition sha256_extend :: "nat \<Rightarrow> u32 list \<Rightarrow> u32 list" where
  "sha256_extend i w =
     (let s0 = rotr (w ! (i - 15)) 7 XOR rotr (w ! (i - 15)) 18 XOR drop_bit 3 (w ! (i - 15));
          s1 = rotr (w ! (i - 2)) 17 XOR rotr (w ! (i - 2)) 19 XOR drop_bit 10 (w ! (i - 2))
      in w @ [w ! (i - 16) + s0 + w ! (i - 7) + s1])"

definition sha256_round :: "u32 list \<Rightarrow> nat \<Rightarrow> u32 list \<Rightarrow> u32 list" where
  "sha256_round w i s =
     (let a = s ! 0; b = s ! 1; c = s ! 2; d = s ! 3; e = s ! 4; f = s ! 5; g = s ! 6; k = s ! 7;
          s1 = rotr e 6 XOR rotr e 11 XOR rotr e 25; ch = (e AND f) XOR (NOT e AND g);
          t1 = k + s1 + ch + kSha256K ! i + w ! i;
          s0 = rotr a 2 XOR rotr a 13 XOR rotr a 22; maj = (a AND b) XOR (a AND c) XOR (b AND c); t2 = s0 + maj
      in [t1 + t2, a, b, c, d + t1, e, f, g])"

definition sha256_block :: "u32 list \<Rightarrow> u8 list \<Rightarrow> u32 list" where
  "sha256_block h block =
     (let w = fold sha256_extend [16..<64] (sha256_load block) in map2 (+) h (fold (sha256_round w) [0..<64] h))"

definition SHA256_H :: "u32 list" where
  "SHA256_H = [0x6a09e667, 0xbb67ae85, 0x3c6ef372, 0xa54ff53a, 0x510e527f, 0x9b05688c, 0x1f83d9ab, 0x5be0cd19]"

text \<open>The full blocks, and the bytes after them.\<close>

function sha256_full :: "u32 list \<Rightarrow> u8 list \<Rightarrow> u32 list \<times> u8 list" where
  "sha256_full h bs = (if 64 \<le> length bs then sha256_full (sha256_block h (take 64 bs)) (drop 64 bs) else (h, bs))"
  by pat_completeness auto
termination by (relation "measure (\<lambda>(h, bs). length bs)") auto

declare sha256_full.simps [simp del] xx_stripes.simps [simp del] xx_words.simps [simp del]

text \<open>The buffer \<open>tail\<close>: the rest, the marker, zeros, and the bit length at the end of the first or of the second block.\<close>

definition sha256_tail :: "u8 list \<Rightarrow> nat \<Rightarrow> u8 list" where
  "sha256_tail rest len =
     (let r = length rest; total = (if r + 1 + 8 \<le> 64 then 64 else 128); bits = of_nat len * 8 :: u64;
          buf = rest @ [0x80] @ replicate (128 - (r + 1)) 0
      in fold (\<lambda>b t. t[total - 1 - b := ucast (drop_bit (8 * b) bits)]) [0..<8] buf)"

definition sha256_state :: "u8 list \<Rightarrow> u32 list" where
  "sha256_state bs =
     (let (h, rest) = sha256_full SHA256_H bs; t = sha256_tail rest (length bs); h = sha256_block h (take 64 t)
      in if length rest + 1 + 8 \<le> 64 then h else sha256_block h (drop 64 t))"

definition sha256_hex :: "u8 list \<Rightarrow> string" where
  "sha256_hex bs =
     concat (map (\<lambda>v. map (\<lambda>b. hex_digit (unat (drop_bit (28 - 4 * b) v AND 0xF))) [0..<8]) (sha256_state bs))"

subsection \<open>The hexadecimal digits\<close>

lemma hex_digits: "list_all is_hex_char (map hex_digit [0..<16])" "distinct (map hex_digit [0..<16])"
  by code_simp+

lemma hex_digit_char: "n < 16 \<Longrightarrow> is_hex_char (hex_digit n)"
  using hex_digits(1) by (auto simp: list_all_iff simp del: upt_Suc)

lemma hex_digit_inj: "m < 16 \<Longrightarrow> n < 16 \<Longrightarrow> hex_digit m = hex_digit n \<longleftrightarrow> m = n"
  using hex_digits(2) by (auto simp: distinct_map inj_on_def simp del: upt_Suc)

lemma nibble_less: "unat (v AND 0xF :: u64) < 16" "unat (x AND 0xF :: u32) < 16"
proof -
  have m: "(0xF :: u64) = mask 4" "(0xF :: u32) = mask 4" by (simp_all add: mask_eq_exp_minus_1)
  have "unat (v AND 0xF :: u64) < 2 ^ 4" "unat (x AND 0xF :: u32) < 2 ^ 4"
    unfolding m take_bit_eq_mask[symmetric] unsigned_take_bit_eq by (rule take_bit_nat_less_exp)+
  then show "unat (v AND 0xF :: u64) < 16" "unat (x AND 0xF :: u32) < 16" by simp_all
qed

definition nibble :: "nat \<Rightarrow> u64 \<Rightarrow> nat" where
  "nibble k v = unat (drop_bit (4 * k) v AND 0xF)"

lemma nibble_inj: "(\<And>k. k < 16 \<Longrightarrow> nibble k v = nibble k w) \<Longrightarrow> v = w"
proof (rule bit_word_eqI)
  fix n assume eq: "\<And>k. k < 16 \<Longrightarrow> nibble k v = nibble k w" and n: "n < LENGTH(64)"
  have m: "(0xF :: u64) = mask 4" by (simp add: mask_eq_exp_minus_1)
  have "drop_bit (4 * (n div 4)) v AND mask 4 = drop_bit (4 * (n div 4)) w AND (mask 4 :: u64)"
    using eq[of "n div 4"] n unfolding nibble_def m by (simp add: word_unat_eq_iff)
  then have "bit (drop_bit (4 * (n div 4)) v AND mask 4) (n mod 4) = bit (drop_bit (4 * (n div 4)) w AND (mask 4 :: u64)) (n mod 4)" by simp
  moreover have "n mod 4 < 64" using mod_less_divisor[of 4 n] by linarith
  ultimately show "bit v n = bit w n" by (simp add: bit_and_iff bit_mask_iff bit_drop_bit_eq)
qed

lemma hex64_loop:
  "n \<le> length out \<Longrightarrow> fold (\<lambda>i (out, v). (out[i := hex_digit (unat (v AND 0xF))], drop_bit 4 v)) (rev [0..<n]) (out, v) =
     (map (\<lambda>i. hex_digit (nibble (n - 1 - i) v)) [0..<n] @ drop n out, drop_bit (4 * n) v)"
proof (induction n arbitrary: out v)
  case (Suc n)
  define out' where "out' = out[n := hex_digit (unat (v AND 0xF))]"
  have d: "drop n out' = hex_digit (nibble 0 v) # drop (Suc n) out"
    using Suc.prems by (simp add: out'_def nibble_def drop_update_swap Cons_nth_drop_Suc[symmetric])
  have m: "map (\<lambda>i. hex_digit (nibble (n - 1 - i) (drop_bit 4 v))) [0..<n] = map (\<lambda>i. hex_digit (nibble (n - i) v)) [0..<n]"
  proof (rule map_cong[OF refl])
    fix i assume "i \<in> set [0..<n]"
    then have "n - i = Suc (n - 1 - i)" by simp
    then show "hex_digit (nibble (n - 1 - i) (drop_bit 4 v)) = hex_digit (nibble (n - i) v)"
      by (simp add: nibble_def drop_bit_drop_bit add.commute)
  qed
  have "n \<le> length out'" using Suc.prems by (simp add: out'_def)
  note ih = Suc.IH[OF this, of "drop_bit 4 v", unfolded m d]
  have "fold (\<lambda>i (out, v). (out[i := hex_digit (unat (v AND 0xF))], drop_bit 4 v)) (rev [0..<Suc n]) (out, v) =
      fold (\<lambda>i (out, v). (out[i := hex_digit (unat (v AND 0xF))], drop_bit 4 v)) (rev [0..<n]) (out', drop_bit 4 v)"
    by (simp add: out'_def)
  then show ?case unfolding ih by (simp add: drop_bit_drop_bit add.commute)
qed simp

lemma hex64_digits: "hex64 v = map (\<lambda>i. hex_digit (nibble (15 - i) v)) [0..<16]"
  using hex64_loop[of 16 "replicate 16 CHR ''0''" v] by (simp add: hex64_def)

text \<open>The text of a 64-bit value has 16 lowercase hexadecimal digits, and two values with the same text are equal. So two snapshots
  with different keys have different files.\<close>

theorem hex64_names: "length (hex64 v) = 16 \<and> is_hex (hex64 v) \<and> (hex64 v = hex64 w \<longleftrightarrow> v = w)"
proof -
  have l: "list_all is_hex_char (hex64 v)"
    by (auto simp: hex64_digits list_all_iff nibble_def intro!: hex_digit_char nibble_less)
  have "v = w" if eq: "hex64 v = hex64 w"
  proof (rule nibble_inj)
    fix k :: nat assume k: "k < 16"
    have "hex64 v ! (15 - k) = hex64 w ! (15 - k)" by (simp add: eq)
    moreover have "[0..<16] ! (15 - k) = 15 - k" by (subst nth_upt) simp_all
    ultimately have "hex_digit (nibble k v) = hex_digit (nibble k w)" using k by (simp add: hex64_digits)
    then show "nibble k v = nibble k w" using hex_digit_inj nibble_less(1) by (simp add: nibble_def)
  qed
  moreover have "hex64 v \<noteq> []" by (simp add: hex64_digits)
  moreover have "length (hex64 v) = 16" by (simp add: hex64_digits)
  ultimately show ?thesis using l by (auto simp: is_hex_def)
qed

subsection \<open>SHA-256 as FIPS 180-4 states it\<close>

text \<open>The padded message: the marker, the least number of zeros that fills a block up to its last eight bytes, and the length in bits.
  The state after its blocks is the reference.\<close>

definition be64 :: "u64 \<Rightarrow> u8 list" where
  "be64 v = map (\<lambda>i. ucast (drop_bit (8 * (7 - i)) v)) [0..<8]"

definition sha256_pad :: "u8 list \<Rightarrow> u8 list" where
  "sha256_pad bs = bs @ [0x80] @ replicate ((119 - length bs mod 64) mod 64) 0 @ be64 (of_nat (length bs) * 8)"

definition chunks :: "u8 list \<Rightarrow> u8 list list" where
  "chunks bs = map (\<lambda>i. take 64 (drop (64 * i) bs)) [0..<length bs div 64]"

definition sha256_ref :: "u8 list \<Rightarrow> u32 list" where
  "sha256_ref bs = fold (\<lambda>b h. sha256_block h b) (chunks (sha256_pad bs)) SHA256_H"

lemma chunks_Cons: "64 \<le> length bs \<Longrightarrow> chunks bs = take 64 bs # chunks (drop 64 bs)"
proof -
  assume "64 \<le> length bs"
  then have l: "length bs div 64 = Suc ((length bs - 64) div 64)" by (simp add: le_div_geq)
  show ?thesis unfolding chunks_def l by (simp add: map_upt_Suc add.commute del: upt_Suc)
qed

lemma chunks_app: "length xs mod 64 = 0 \<Longrightarrow> chunks (xs @ ys) = chunks xs @ chunks ys"
proof (induction xs rule: length_induct)
  case (1 xs)
  show ?case
  proof (cases "xs = []")
    case False
    then have "64 \<le> length xs" using 1(2) by (metis length_0_conv mod_less not_le)
    then show ?thesis using 1(1)[rule_format, of "drop 64 xs"] 1(2)
      by (simp add: chunks_Cons le_mod_geq)
  qed (simp add: chunks_def)
qed

lemma sha256_full_chunks: "sha256_full h bs = (fold (\<lambda>b h. sha256_block h b) (chunks bs) h, drop (64 * (length bs div 64)) bs)"
proof (induction h bs rule: sha256_full.induct)
  case (1 h bs)
  show ?case
  proof (cases "64 \<le> length bs")
    case True
    then have "length bs div 64 = Suc ((length bs - 64) div 64)" by (simp add: le_div_geq)
    then show ?thesis using 1 True by (subst sha256_full.simps) (simp add: chunks_Cons add.commute del: sha256_full.simps)
  next
    case False
    then show ?thesis by (subst sha256_full.simps) (simp add: chunks_def)
  qed
qed

lemma fill_back:
  "k \<le> n \<Longrightarrow> n \<le> length t \<Longrightarrow> fold (\<lambda>b t. t[n - 1 - b := f b]) [0..<k] t = take (n - k) t @ map f (rev [0..<k]) @ drop n t"
proof (induction k)
  case (Suc k)
  define R where "R = map f (rev [0..<k]) @ drop n t"
  have l: "n - k = Suc (n - 1 - k)" "n - Suc k = n - 1 - k" "n - 1 - k < length t" using Suc.prems by simp_all
  have "take (n - k) t = take (n - 1 - k) t @ [t ! (n - 1 - k)]" unfolding l(1) by (rule take_Suc_conv_app_nth[OF l(3)])
  then have e: "fold (\<lambda>b t. t[n - 1 - b := f b]) [0..<k] t = take (n - 1 - k) t @ t ! (n - 1 - k) # R"
    using Suc.IH Suc.prems unfolding R_def by simp
  have "length (take (n - 1 - k) t) = n - 1 - k" using l(3) by simp
  then have "(take (n - 1 - k) t @ t ! (n - 1 - k) # R)[n - 1 - k := f k] = take (n - 1 - k) t @ f k # R"
    using list_update_length[of "take (n - 1 - k) t" "t ! (n - 1 - k)" R "f k"] by simp
  then have "fold (\<lambda>b t. t[n - 1 - b := f b]) [0..<Suc k] t = take (n - 1 - k) t @ f k # R" using e by simp
  then show ?case unfolding l(2) R_def by simp
qed simp

lemma be64_rev: "map (\<lambda>b. ucast (drop_bit (8 * b) v)) (rev [0..<8]) = be64 v"
  by (simp add: be64_def eval_nat_numeral upt_rec)

lemma sha256_tail_pad:
  assumes "length rest = len mod 64" "r = len mod 64"
  shows "(if r + 1 + 8 \<le> 64 then take 64 (sha256_tail rest len) else sha256_tail rest len) =
    rest @ [0x80] @ replicate ((119 - r) mod 64) 0 @ be64 (of_nat len * 8)"
proof -
  have r: "length rest = r" "r < 64" using assms by simp_all
  define buf where "buf = rest @ [0x80 :: u8] @ replicate (128 - (r + 1)) 0"
  have lb: "length buf = 128" using r by (simp add: buf_def)
  define total where "total = (if r + 1 + 8 \<le> 64 then 64 else 128 :: nat)"
  have t: "sha256_tail rest len = take (total - 8) buf @ be64 (of_nat len * 8) @ drop total buf"
    using fill_back[of 8 total buf "\<lambda>b. ucast (drop_bit (8 * b) (of_nat len * 8 :: u64))"] lb
    unfolding be64_rev sha256_tail_def Let_def r(1) total_def[symmetric] buf_def[symmetric]
    by (simp add: total_def split: if_splits)
  have b8: "length (be64 v) = 8" for v by (simp add: be64_def)
  show ?thesis
  proof (cases "r + 1 + 8 \<le> 64")
    case True
    then have "56 - r = Suc (55 - r)" by simp
    then have "take 56 buf = rest @ [0x80] @ replicate (55 - r) 0" using r by (simp add: buf_def)
    moreover have "(119 - r) mod 64 = 55 - r" using True by (simp add: le_mod_geq)
    moreover have "64 - r = Suc (63 - r)" "63 - r - (55 - r) = 8" using True by simp_all
    ultimately show ?thesis using True b8 lb r by (simp add: t total_def)
  next
    case False
    then have "120 - r = Suc (119 - r)" using r by simp
    then have "take 120 buf = rest @ [0x80] @ replicate (119 - r) 0" using r by (simp add: buf_def)
    moreover have "(119 - r) mod 64 = 119 - r" using False by simp
    ultimately show ?thesis using False lb by (simp add: t total_def)
  qed
qed


end
