(* ===== verification/TaskThread.thy ===== *)
theory TaskThread
  imports Prelude
begin

text \<open>
  The background threads of the engine. The locale \<open>fifo_worker\<close> is the contract of a thread that runs the jobs of a queue in
  order, and \<open>android/app/src/main/cpp/engine_tasks.cpp\<close> (the class \<open>TaskThread\<close> and \<open>draft_head_file\<close>) is its first instance; the
  writer of the caches in \<open>CacheFiles\<close> is the second one.

  A step is a critical section of the mutex, or the end of a job. A wait on the condition variable is a step that is not
  enabled until its predicate holds: each change of the predicate is followed by \<open>notify_all\<close>.
\<close>

subsection \<open>The contract of a worker\<close>

datatype 'j event = Accept 'j | Refuse 'j | Start 'j | Finish 'j | Query | Close | Exit

fun by_worker :: "'j event \<Rightarrow> bool" where
  "by_worker (Start j) = True"
| "by_worker (Finish j) = True"
| "by_worker Exit = True"
| "by_worker e = False"

definition accepted :: "'j event list \<Rightarrow> 'j list" where
  "accepted es = concat (map (\<lambda>e. case e of Accept j \<Rightarrow> [j] | _ \<Rightarrow> []) es)"

definition started :: "'j event list \<Rightarrow> 'j list" where
  "started es = concat (map (\<lambda>e. case e of Start j \<Rightarrow> [j] | _ \<Rightarrow> []) es)"

definition finished :: "'j event list \<Rightarrow> 'j list" where
  "finished es = concat (map (\<lambda>e. case e of Finish j \<Rightarrow> [j] | _ \<Rightarrow> []) es)"

lemma event_logs [simp]:
  "accepted [] = []" "accepted (es @ fs) = accepted es @ accepted fs" "started [] = []" "started (es @ fs) = started es @ started fs"
  "finished [] = []" "finished (es @ fs) = finished es @ finished fs"
  by (simp_all add: accepted_def started_def finished_def)

inductive run :: "('s \<Rightarrow> 'j event \<Rightarrow> 's \<Rightarrow> bool) \<Rightarrow> 's \<Rightarrow> 'j event list \<Rightarrow> 's \<Rightarrow> bool" for step s where
  run_nil: "run step s [] s"
| run_snoc: "run step s es t \<Longrightarrow> step t e u \<Longrightarrow> run step s (es @ [e]) u"

inductive_cases run_nilE: "run step s [] t"

lemma run_one: "step s e t \<Longrightarrow> run step s [e] t"
  using run_snoc[of step s "[]" s e t] run_nil[of step s] by simp

lemma run_append: "run step s es t \<Longrightarrow> run step t fs u \<Longrightarrow> run step s (es @ fs) u"
proof (induction fs arbitrary: u rule: rev_induct)
  case Nil
  then show ?case by (auto elim: run_nilE)
next
  case (snoc f fs)
  from snoc.prems(2) obtain v where "run step t fs v" "step v f u" by (cases rule: run.cases) auto
  then show ?case using snoc.IH[OF snoc.prems(1)] run_snoc[of step s "es @ fs" v f u] by simp
qed

locale fifo_worker =
  fixes queue :: "'s \<Rightarrow> 'j list" and current :: "'s \<Rightarrow> 'j option" and closed :: "'s \<Rightarrow> bool" and exited :: "'s \<Rightarrow> bool"
    and step :: "'s \<Rightarrow> 'j event \<Rightarrow> 's \<Rightarrow> bool" and fresh :: 's
  assumes start_state: "queue fresh = []" "current fresh = None" "\<not> closed fresh" "\<not> exited fresh"
    and accept_law: "step s (Accept j) t \<Longrightarrow> \<not> closed s \<and> queue t = queue s @ [j] \<and> current t = current s \<and> closed t = closed s \<and> exited t = exited s"
    and refuse_law: "step s (Refuse j) t \<Longrightarrow> t = s"
    and query_law: "step s Query t \<Longrightarrow> queue t = queue s \<and> current t = current s \<and> closed t = closed s \<and> exited t = exited s"
    and start_law: "step s (Start j) t \<Longrightarrow> queue s = j # queue t \<and> current s = None \<and> current t = Some j \<and> closed t = closed s \<and> exited t = exited s"
    and finish_law: "step s (Finish j) t \<Longrightarrow> queue t = queue s \<and> current s = Some j \<and> current t = None \<and> closed t = closed s \<and> exited t = exited s"
    and close_law: "step s Close t \<Longrightarrow> queue t = queue s \<and> current t = current s \<and> closed t \<and> exited t = exited s"
    and exit_law: "step s Exit t \<Longrightarrow> closed s \<and> queue s = [] \<and> current s = None \<and> queue t = [] \<and> current t = None \<and> closed t \<and> \<not> exited s \<and> exited t"
    and live: "\<not> exited s \<Longrightarrow> current s \<noteq> None \<or> queue s \<noteq> [] \<or> closed s \<Longrightarrow> \<exists>e t. by_worker e \<and> step s e t"
begin

abbreviation worker_list :: "'j option \<Rightarrow> 'j list" where
  "worker_list c \<equiv> (case c of None \<Rightarrow> [] | Some j \<Rightarrow> [j])"

text \<open>The jobs run in the order in which they were accepted, each one time.\<close>

lemma fifo_order:
  assumes "run step fresh es s"
  shows "accepted es = started es @ queue s \<and> started es = finished es @ worker_list (current s) \<and>
    (exited s \<longrightarrow> closed s \<and> queue s = [] \<and> current s = None)"
  using assms
proof (induction rule: run.induct)
  case run_nil
  then show ?case using start_state by (simp add: accepted_def started_def finished_def)
next
  case (run_snoc es t e u)
  note ih = run_snoc.IH
  show ?case
  proof (cases e)
    case (Accept j)
    then show ?thesis using ih accept_law[of t j u] run_snoc.hyps(2) by (auto simp: accepted_def started_def finished_def)
  next
    case (Refuse j)
    then show ?thesis using ih refuse_law[of t j u] run_snoc.hyps(2) by (auto simp: accepted_def started_def finished_def)
  next
    case (Start j)
    then show ?thesis using ih start_law[of t j u] run_snoc.hyps(2) by (auto simp: accepted_def started_def finished_def)
  next
    case (Finish j)
    then show ?thesis using ih finish_law[of t j u] run_snoc.hyps(2) by (auto simp: accepted_def started_def finished_def)
  next
    case Query
    then show ?thesis using ih query_law[of t u] run_snoc.hyps(2) by (auto simp: accepted_def started_def finished_def)
  next
    case Close
    then show ?thesis using ih close_law[of t u] run_snoc.hyps(2) by (auto simp: accepted_def started_def finished_def)
  next
    case Exit
    then show ?thesis using ih exit_law[of t u] run_snoc.hyps(2) by (auto simp: accepted_def started_def finished_def)
  qed
qed

lemma idle_done: "run step fresh es s \<Longrightarrow> queue s = [] \<Longrightarrow> current s = None \<Longrightarrow> finished es = accepted es"
  using fifo_order[of es s] by simp

lemma exit_done: "run step fresh es s \<Longrightarrow> exited s \<Longrightarrow> finished es = accepted es"
  using fifo_order[of es s] by simp

text \<open>A closed worker accepts nothing more, and its own steps bring it to the end.\<close>

definition work_left :: "'s \<Rightarrow> nat" where
  "work_left s = 2 * length (queue s) + (if current s = None then 0 else 1) + (if exited s then 0 else 1)"

lemma worker_progress: "by_worker e \<Longrightarrow> step s e t \<Longrightarrow> work_left t < work_left s \<and> closed t = closed s"
  using start_law[of s _ t] finish_law[of s _ t] exit_law[of s t] by (cases e) (auto simp: work_left_def)

lemma worker_run_bound: "run step s es t \<Longrightarrow> list_all by_worker es \<Longrightarrow> length es + work_left t \<le> work_left s \<and> closed t = closed s"
proof (induction rule: run.induct)
  case (run_snoc es t e u)
  then show ?case using worker_progress[of e t u] by simp
qed simp

lemma closed_exits: "closed s \<Longrightarrow> \<exists>es t. run step s es t \<and> list_all by_worker es \<and> exited t"
proof (induction "work_left s" arbitrary: s rule: less_induct)
  case less
  show ?case
  proof (cases "exited s")
    case True
    then show ?thesis using run_nil[of step s] by (intro exI[of _ "[]"] exI[of _ s]) simp
  next
    case False
    then obtain e t where e: "by_worker e" "step s e t" using live less.prems by blast
    then obtain es u where "run step t es u" "list_all by_worker es" "exited u"
      using less.hyps[of t] worker_progress[OF e] less.prems by auto
    moreover have "run step s [e] t" using e(2) run_one[of step s e t] by simp
    ultimately show ?thesis using e(1) run_append[of step s "[e]" t es u] by (intro exI[of _ "[e] @ es"] exI[of _ u]) simp
  qed
qed

lemma open_drains: "\<not> exited s \<Longrightarrow> \<exists>es t. run step s es t \<and> list_all by_worker es \<and> queue t = [] \<and> current t = None"
proof (induction "work_left s" arbitrary: s rule: less_induct)
  case less
  show ?case
  proof (cases "queue s = [] \<and> current s = None")
    case True
    then show ?thesis using run_nil[of step s] by (intro exI[of _ "[]"] exI[of _ s]) simp
  next
    case False
    then obtain e t where e: "by_worker e" "step s e t" using live less.prems by blast
    have one: "run step s [e] t" using e(2) run_one[of step s e t] by simp
    show ?thesis
    proof (cases "exited t")
      case True
      then show ?thesis using e exit_law[of s t] start_law[of s _ t] finish_law[of s _ t] less.prems False by (cases e) auto
    next
      case nt: False
      then obtain es u where "run step t es u" "list_all by_worker es" "queue u = []" "current u = None"
        using less.hyps[of t] worker_progress[OF e] by auto
      then show ?thesis using e(1) one run_append[of step s "[e]" t es u] by (intro exI[of _ "[e] @ es"] exI[of _ u]) simp
    qed
  qed
qed

end

subsection \<open>The task thread\<close>

text \<open>\<open>tt_running\<close> is the task that runs without the lock, and \<open>tt_exited\<close> tells that \<open>run\<close> has returned.\<close>

record 'j task_thread =
  tt_tasks :: "'j list"
  tt_busy :: bool
  tt_stopped :: bool
  tt_running :: "'j option"
  tt_exited :: bool

definition tt_new :: "'j task_thread" where
  "tt_new = \<lparr>tt_tasks = [], tt_busy = False, tt_stopped = False, tt_running = None, tt_exited = False\<rparr>"

definition tt_post :: "'j \<Rightarrow> 'j task_thread \<Rightarrow> bool \<times> 'j task_thread" where
  "tt_post t s = (if tt_stopped s then (False, s) else (True, s\<lparr>tt_tasks := tt_tasks s @ [t]\<rparr>))"

text \<open>The predicate of the wait in \<open>drain\<close>.\<close>

definition tt_drained :: "'j task_thread \<Rightarrow> bool" where
  "tt_drained s \<longleftrightarrow> tt_tasks s = [] \<and> \<not> tt_busy s"

text \<open>The flag of \<open>stop\<close>; the call returns when the thread has joined.\<close>

definition tt_stop :: "'j task_thread \<Rightarrow> 'j task_thread" where
  "tt_stop s = (if tt_stopped s then s else s\<lparr>tt_stopped := True\<rparr>)"

text \<open>The loop of \<open>run\<close>: the critical section that takes a task or ends, and the one after a task, which may have thrown.\<close>

definition tt_take :: "'j task_thread \<Rightarrow> ('j option \<times> 'j task_thread) option" where
  "tt_take s =
     (if \<not> (tt_stopped s \<or> tt_tasks s \<noteq> []) then None
      else case tt_tasks s of
        [] \<Rightarrow> Some (None, s\<lparr>tt_exited := True\<rparr>)
      | t # ts \<Rightarrow> Some (Some t, s\<lparr>tt_tasks := ts, tt_busy := True, tt_running := Some t\<rparr>))"

definition tt_finish :: "'j task_thread \<Rightarrow> 'j task_thread" where
  "tt_finish s = s\<lparr>tt_busy := False, tt_running := None\<rparr>"

inductive tt_step :: "'j task_thread \<Rightarrow> 'j event \<Rightarrow> 'j task_thread \<Rightarrow> bool" where
  tt_accept: "tt_post t s = (True, s') \<Longrightarrow> tt_step s (Accept t) s'"
| tt_refuse: "tt_post t s = (False, s') \<Longrightarrow> tt_step s (Refuse t) s'"
| tt_close: "tt_step s Close (tt_stop s)"
| tt_start: "tt_running s = None \<Longrightarrow> \<not> tt_exited s \<Longrightarrow> tt_take s = Some (Some t, s') \<Longrightarrow> tt_step s (Start t) s'"
| tt_exit: "tt_running s = None \<Longrightarrow> \<not> tt_exited s \<Longrightarrow> tt_take s = Some (None, s') \<Longrightarrow> tt_step s Exit s'"
| tt_end: "tt_running s = Some t \<Longrightarrow> tt_step s (Finish t) (tt_finish s)"

inductive_simps tt_step_simps:
  "tt_step s (Accept j) t" "tt_step s (Refuse j) t" "tt_step s Query t" "tt_step s Close t" "tt_step s (Start j) t" "tt_step s Exit t" "tt_step s (Finish j) t"

lemma tt_live:
  assumes "\<not> tt_exited s" "tt_running s \<noteq> None \<or> tt_tasks s \<noteq> [] \<or> tt_stopped s"
  shows "\<exists>e t. by_worker e \<and> tt_step s e t"
proof (cases "tt_running s")
  case (Some t)
  then have "tt_step s (Finish t) (tt_finish s)" by (rule tt_end)
  then show ?thesis by (meson by_worker.simps(2))
next
  case None
  show ?thesis
  proof (cases "tt_tasks s")
    case Nil
    then have "tt_take s = Some (None, s\<lparr>tt_exited := True\<rparr>)" using None assms(2) by (simp add: tt_take_def)
    from tt_exit[OF None assms(1) this] show ?thesis by (meson by_worker.simps(3))
  next
    case (Cons t ts)
    then have "tt_take s = Some (Some t, s\<lparr>tt_tasks := ts, tt_busy := True, tt_running := Some t\<rparr>)" by (simp add: tt_take_def)
    from tt_start[OF None assms(1) this] show ?thesis by (meson by_worker.simps(1))
  qed
qed

interpretation tt: fifo_worker tt_tasks tt_running tt_stopped tt_exited tt_step tt_new
proof unfold_locales
  show "\<not> tt_exited s \<Longrightarrow> tt_running s \<noteq> None \<or> tt_tasks s \<noteq> [] \<or> tt_stopped s \<Longrightarrow> \<exists>e t. by_worker e \<and> tt_step s e t" for s :: "'j task_thread"
    by (rule tt_live)
qed (auto simp: tt_new_def tt_step_simps tt_post_def tt_stop_def tt_take_def tt_finish_def split: list.splits if_splits)

text \<open>The flag \<open>busy\<close> tells that a task runs.\<close>

lemma tt_busy_running: "run tt_step tt_new es s \<Longrightarrow> tt_busy s \<longleftrightarrow> tt_running s \<noteq> None"
proof (induction rule: run.induct)
  case (run_snoc es t e u)
  from run_snoc.hyps(2) run_snoc.IH show ?case
    by (cases rule: tt_step.cases) (auto simp: tt_post_def tt_stop_def tt_take_def tt_finish_def split: list.splits if_splits)
qed (simp add: tt_new_def)

text \<open>C33. In each interleaving of posts, drains, stops and the steps of the thread: the tasks run one at a time, in the order of the
  posts, each accepted task one time. When the predicate of \<open>drain\<close> holds, and when the thread that \<open>stop\<close> joins has ended, all
  accepted tasks have run. After \<open>stop\<close> a post is refused.\<close>

theorem task_thread_order:
  assumes "run tt_step tt_new es s"
  shows "(\<exists>rest. accepted es = finished es @ rest) \<and> (tt_drained s \<longrightarrow> finished es = accepted es) \<and>
    (tt_exited s \<longrightarrow> tt_stopped s \<and> finished es = accepted es) \<and> (tt_stopped s \<longrightarrow> tt_post t s = (False, s))"
  using tt.fifo_order[OF assms] tt.idle_done[OF assms] tt.exit_done[OF assms] tt_busy_running[OF assms]
  by (auto simp: tt_drained_def tt_post_def)

lemma task_thread_order_witness:
  "\<exists>s :: nat task_thread. run tt_step tt_new [Accept 7, Start 7, Finish 7] s \<and> tt_drained s \<and> finished [Accept 7, Start 7, Finish 7] = [7 :: nat]"
proof -
  define s1 s2 :: "nat task_thread" where "s1 = snd (tt_post 7 tt_new)" and "s2 = s1\<lparr>tt_tasks := [], tt_busy := True, tt_running := Some 7\<rparr>"
  have "tt_step tt_new (Accept 7) s1" "tt_step s1 (Start 7) s2" "tt_step s2 (Finish 7) (tt_finish s2)"
    by (simp_all add: tt_step_simps s1_def s2_def tt_new_def tt_post_def tt_take_def)
  then have r: "run tt_step tt_new ((([] @ [Accept 7]) @ [Start 7]) @ [Finish 7]) (tt_finish s2)" by (blast intro: run_nil run_snoc)
  have d: "tt_drained (tt_finish s2)" by (simp add: s2_def s1_def tt_post_def tt_new_def tt_drained_def tt_finish_def)
  then have "finished [Accept 7, Start 7, Finish (7 :: nat)] = accepted [Accept 7, Start 7, Finish 7]" using task_thread_order[OF r] by simp
  then show ?thesis using r d by (auto simp: accepted_def)
qed



subsection \<open>The file of the draft head\<close>

text \<open>\<open>is_reg p\<close> tells that \<open>stat\<close> finds a regular file.\<close>

definition ends_with :: "string \<Rightarrow> string \<Rightarrow> bool" where
  "ends_with s suffix \<longleftrightarrow> length suffix \<le> length s \<and> drop (length s - length suffix) s = suffix"

definition draft_head_file :: "(string \<Rightarrow> bool) \<Rightarrow> string \<Rightarrow> string" where
  "draft_head_file is_reg path =
     (if length path \<le> 5 \<or> \<not> ends_with path ''.gguf'' then []
      else let stem = take (length path - 5) path in
        if ends_with stem ''-draft32k'' then []
        else let cand = stem @ ''-draft32k'' @ ''.gguf'' in if \<not> is_reg cand then [] else cand)"

lemma ends_with_app [simp]: "ends_with (s @ t) t"
  by (simp add: ends_with_def)

text \<open>A file that \<open>draft_head_file\<close> has given has no draft head of its own.\<close>

lemma draft_head_once: "draft_head_file is_reg (draft_head_file is_reg path) = []"
proof (cases "draft_head_file is_reg path = []")
  case True
  then show ?thesis by (simp add: draft_head_file_def)
next
  case False
  define stem where "stem = take (length path - 5) path @ ''-draft32k''"
  have p: "draft_head_file is_reg path = stem @ ''.gguf''" using False by (simp add: draft_head_file_def Let_def stem_def split: if_splits)
  have "ends_with stem ''-draft32k''" unfolding stem_def by (rule ends_with_app)
  moreover have "take (length (stem @ ''.gguf'') - 5) (stem @ ''.gguf'') = stem" by simp
  ultimately show ?thesis unfolding p draft_head_file_def Let_def by simp
qed

end
