(* ===== verification/CacheFiles.thy ===== *)
theory CacheFiles
  imports CacheHash TaskThread
begin

text \<open>
  The file helpers and the writer thread of the engine caches, \<open>android/app/src/main/cpp/cache_io.cpp\<close>. The calls of POSIX are the
  fields of the record \<open>posix\<close>: each gives its result and the new state \<open>'w\<close> of the world. A read call gives the bytes, and
  \<open>None\<close> on an error.
\<close>

datatype file_kind = Regular | Directory | Other_kind

record file_stat =
  st_kind :: file_kind
  st_size :: u64
  st_mtime :: "64 word"

text \<open>The second result of \<open>px_mkdir\<close> and of \<open>px_unlink\<close> tells if \<open>errno\<close> is \<open>EEXIST\<close> or \<open>ENOENT\<close>.\<close>

record 'w posix =
  px_creat :: "string \<Rightarrow> 'w \<Rightarrow> int \<times> 'w"
  px_write :: "int \<Rightarrow> u8 list \<Rightarrow> 'w \<Rightarrow> int \<times> 'w"
  px_fsync :: "int \<Rightarrow> 'w \<Rightarrow> int \<times> 'w"
  px_close :: "int \<Rightarrow> 'w \<Rightarrow> 'w"
  px_rename :: "string \<Rightarrow> string \<Rightarrow> 'w \<Rightarrow> int \<times> 'w"
  px_unlink :: "string \<Rightarrow> 'w \<Rightarrow> (int \<times> bool) \<times> 'w"
  px_open :: "string \<Rightarrow> 'w \<Rightarrow> int \<times> 'w"
  px_pread :: "int \<Rightarrow> nat \<Rightarrow> nat \<Rightarrow> 'w \<Rightarrow> u8 list option \<times> 'w"
  px_stat :: "string \<Rightarrow> 'w \<Rightarrow> file_stat option \<times> 'w"
  px_mkdir :: "string \<Rightarrow> 'w \<Rightarrow> (int \<times> bool) \<times> 'w"
  px_rmdir :: "string \<Rightarrow> 'w \<Rightarrow> 'w"
  px_opendir :: "string \<Rightarrow> 'w \<Rightarrow> string list option \<times> 'w"
  px_closedir :: "'w \<Rightarrow> 'w"

subsection \<open>Directories\<close>

text \<open>The loop over the positions \<open>pos\<close> of the path.\<close>

fun mkdir_parts :: "'w posix \<Rightarrow> string \<Rightarrow> nat list \<Rightarrow> 'w \<Rightarrow> bool \<times> 'w" where
  "mkdir_parts px path [] w = (True, w)"
| "mkdir_parts px path (pos # ps) w =
     (if pos = length path \<or> path ! pos = CHR ''/''
      then let ((r, eexist), w) = px_mkdir px (take pos path) w in if r \<noteq> 0 \<and> \<not> eexist then (False, w) else mkdir_parts px path ps w
      else mkdir_parts px path ps w)"

definition make_dirs :: "'w posix \<Rightarrow> string \<Rightarrow> 'w \<Rightarrow> bool \<times> 'w" where
  "make_dirs px path w =
     (if path = [] then (False, w)
      else let (ok, w) = mkdir_parts px path [1..<Suc (length path)] w in
        if \<not> ok then (False, w)
        else let (st, w) = px_stat px path w in (case st of None \<Rightarrow> False | Some st \<Rightarrow> st_kind st = Directory, w))"

definition stat_file :: "'w posix \<Rightarrow> string \<Rightarrow> 'w \<Rightarrow> (u64 \<times> 64 word) option \<times> 'w" where
  "stat_file px path w =
     (let (st, w) = px_stat px path w in
      (case st of None \<Rightarrow> None | Some st \<Rightarrow> if st_kind st = Regular then Some (st_size st, st_mtime st) else None, w))"

fun entries_from :: "'w posix \<Rightarrow> string \<Rightarrow> bool \<Rightarrow> string \<Rightarrow> string list \<Rightarrow> string list \<Rightarrow> 'w \<Rightarrow> string list \<times> 'w" where
  "entries_from px dir want_dirs suffix [] out w = (out, w)"
| "entries_from px dir want_dirs suffix (name # ns) out w =
     (if name = ''.'' \<or> name = ''..'' then entries_from px dir want_dirs suffix ns out w
      else if \<not> ends_with name suffix then entries_from px dir want_dirs suffix ns out w
      else let (st, w) = px_stat px (dir @ ''/'' @ name) w in
        case st of None \<Rightarrow> entries_from px dir want_dirs suffix ns out w
        | Some st \<Rightarrow> entries_from px dir want_dirs suffix ns
            (if (if want_dirs then st_kind st = Directory else st_kind st = Regular) then out @ [name] else out) w)"

definition list_entries :: "'w posix \<Rightarrow> string \<Rightarrow> bool \<Rightarrow> string \<Rightarrow> 'w \<Rightarrow> string list \<times> 'w" where
  "list_entries px dir want_dirs suffix w =
     (let (d, w) = px_opendir px dir w in
      case d of None \<Rightarrow> ([], w)
      | Some names \<Rightarrow> let (out, w) = entries_from px dir want_dirs suffix names [] w in (out, px_closedir px w))"

definition list_files :: "'w posix \<Rightarrow> string \<Rightarrow> string \<Rightarrow> 'w \<Rightarrow> string list \<times> 'w" where
  "list_files px dir suffix = list_entries px dir False suffix"

definition list_dirs :: "'w posix \<Rightarrow> string \<Rightarrow> 'w \<Rightarrow> string list \<times> 'w" where
  "list_dirs px dir = list_entries px dir True []"

subsection \<open>Reads\<close>

text \<open>The buffer of a \<open>pread\<close> has the size that is asked for.\<close>

function read_loop :: "'w posix \<Rightarrow> int \<Rightarrow> nat \<Rightarrow> nat \<Rightarrow> 'w \<Rightarrow> u8 list option \<times> 'w" where
  "read_loop px d off n w =
     (if n = 0 then (Some [], w)
      else let (got, w) = px_pread px d n off w in
        case got of None \<Rightarrow> (None, w)
        | Some bs \<Rightarrow> let bs = take n bs in if bs = [] then (None, w)
            else let (rest, w) = read_loop px d (off + length bs) (n - length bs) w in (map_option ((@) bs) rest, w))"
  by pat_completeness auto
termination by (relation "measure (\<lambda>(px, d, off, n, w). n)") auto

declare read_loop.simps [simp del]

lemma read_loop_length: "read_loop px d off n w = (Some bs, w') \<Longrightarrow> length bs = n"
proof (induction n arbitrary: off w bs w' rule: less_induct)
  case (less n)
  note eq = less.prems[unfolded read_loop.simps[of px d off n w]]
  show ?case
  proof (cases "n = 0")
    case True
    then show ?thesis using eq by simp
  next
    case False
    obtain got w1 where g: "px_pread px d n off w = (got, w1)" by (cases "px_pread px d n off w")
    show ?thesis
    proof (cases got)
      case None
      then show ?thesis using eq False g by simp
    next
      case (Some b)
      define k where "k = length (take n b)"
      obtain rest w2 where r: "read_loop px d (off + k) (n - k) w1 = (rest, w2)" by (cases "read_loop px d (off + k) (n - k) w1")
      have c: "take n b \<noteq> [] \<and> map_option ((@) (take n b)) rest = Some bs"
        using eq False r unfolding g Some Let_def k_def by (auto simp del: take_eq_Nil split: if_splits)
      then obtain rs where rs: "rest = Some rs" "bs = take n b @ rs" by auto
      have "0 < k" "k \<le> n" using c by (auto simp: k_def)
      then have "length rs = n - k" using less.IH[of "n - k" "off + k" w1 rs w2] r rs(1) by simp
      then show ?thesis using rs(2) \<open>k \<le> n\<close> by (simp add: k_def)
    qed
  qed
qed

definition read_range :: "'w posix \<Rightarrow> string \<Rightarrow> nat \<Rightarrow> nat \<Rightarrow> 'w \<Rightarrow> u8 list option \<times> 'w" where
  "read_range px path off n w =
     (let (d, w) = px_open px path w in
      if d < 0 then (None, w) else let (bs, w) = read_loop px d off n w in (bs, px_close px d w))"

lemma read_range_length: "read_range px path off n w = (Some bs, w') \<Longrightarrow> length bs = n"
  by (auto simp: read_range_def Let_def split: prod.splits if_splits dest: read_loop_length)

definition read_file :: "'w posix \<Rightarrow> string \<Rightarrow> nat \<Rightarrow> 'w \<Rightarrow> u8 list option \<times> 'w" where
  "read_file px path max_bytes w =
     (let (st, w) = stat_file px path w in
      case st of None \<Rightarrow> (None, w) | Some (sz, _) \<Rightarrow> if max_bytes < unat sz then (None, w) else read_range px path 0 (unat sz) w)"

subsection \<open>Writes\<close>

definition temp_path :: "string \<Rightarrow> string" where
  "temp_path path = path @ ''.tmp''"

function write_part :: "'w posix \<Rightarrow> int \<Rightarrow> u8 list \<Rightarrow> 'w \<Rightarrow> bool \<times> 'w" where
  "write_part px d bs w =
     (if bs = [] then (True, w)
      else let (put, w) = px_write px d bs w in if put \<le> 0 then (False, w) else write_part px d (drop (nat put) bs) w)"
  by pat_completeness auto
termination by (relation "measure (\<lambda>(px, d, bs, w). length bs)") auto

declare write_part.simps [simp del]

fun write_parts :: "'w posix \<Rightarrow> int \<Rightarrow> u8 list list \<Rightarrow> 'w \<Rightarrow> bool \<times> 'w" where
  "write_parts px d [] w = (True, w)"
| "write_parts px d (p # ps) w = (let (ok, w) = write_part px d p w in if ok then write_parts px d ps w else (False, w))"

definition write_file_atomic :: "'w posix \<Rightarrow> string \<Rightarrow> u8 list list \<Rightarrow> 'w \<Rightarrow> bool \<times> 'w" where
  "write_file_atomic px path parts w =
     (let tmp = temp_path path; (d, w) = px_creat px tmp w in
      if d < 0 then (False, w)
      else let (ok, w) = write_parts px d parts w;
          (ok, w) = (if ok then let (r, w) = px_fsync px d w in (r = 0, w) else (False, w));
          w = px_close px d w;
          (ok, w) = (if ok then let (r, w) = px_rename px tmp path w in (r = 0, w) else (False, w))
        in (ok, if \<not> ok then snd (px_unlink px tmp w) else w))"

definition remove_file :: "'w posix \<Rightarrow> string \<Rightarrow> 'w \<Rightarrow> bool \<times> 'w" where
  "remove_file px path w = (let ((r, enoent), w) = px_unlink px path w in (r = 0 \<or> enoent, w))"

text \<open>The directory, or the rest \<open>names\<close> of its subdirectories. A cycle of links gives a call that does not return.\<close>

partial_function (option) remove_tree :: "'w posix \<Rightarrow> string \<Rightarrow> string list option \<Rightarrow> 'w \<Rightarrow> 'w option" where
  "remove_tree px path names w =
     (case names of
        None \<Rightarrow>
          let (ds, w) = list_dirs px path w in
          Option.bind (remove_tree px path (Some ds) w) (\<lambda>w.
            let (fs, w) = list_files px path [] w
            in Some (px_rmdir px path (fold (\<lambda>name w. snd (px_unlink px (path @ ''/'' @ name) w)) fs w)))
      | Some [] \<Rightarrow> Some w
      | Some (name # ns) \<Rightarrow> Option.bind (remove_tree px (path @ ''/'' @ name) None w) (remove_tree px path (Some ns)))"

subsection \<open>The writer thread\<close>

datatype cache_job = Write_job string "u8 list" "u8 list" | Remove_job string

fun job_path :: "cache_job \<Rightarrow> string" where
  "job_path (Write_job p h b) = p"
| "job_path (Remove_job p) = p"

text \<open>What the thread does with a job without the lock. The result of a remove is not used.\<close>

fun do_job :: "'w posix \<Rightarrow> cache_job \<Rightarrow> 'w \<Rightarrow> bool \<times> 'w" where
  "do_job px (Write_job p h b) w = write_file_atomic px p [h, b] w"
| "do_job px (Remove_job p) w = (True, snd (remove_file px p w))"

text \<open>\<open>aw_running\<close> is the job of the thread, \<open>aw_active\<close> the counter of the class, \<open>aw_world\<close> the file system,
  and \<open>aw_reported\<close> the paths that \<open>take_failed\<close> has given so far.\<close>

record 'w writer =
  aw_jobs :: "cache_job list"
  aw_failed :: "string list"
  aw_active :: nat
  aw_stop :: bool
  aw_running :: "cache_job option"
  aw_exited :: bool
  aw_reported :: "string list"
  aw_world :: 'w

definition aw_new :: "'w \<Rightarrow> 'w writer" where
  "aw_new w = \<lparr>aw_jobs = [], aw_failed = [], aw_active = 0, aw_stop = False, aw_running = None, aw_exited = False, aw_reported = [], aw_world = w\<rparr>"

definition aw_write :: "string \<Rightarrow> u8 list \<Rightarrow> u8 list \<Rightarrow> 'w writer \<Rightarrow> 'w writer" where
  "aw_write p h b s = s\<lparr>aw_jobs := aw_jobs s @ [Write_job p h b]\<rparr>"

definition aw_remove :: "string \<Rightarrow> 'w writer \<Rightarrow> 'w writer" where
  "aw_remove p s = s\<lparr>aw_jobs := aw_jobs s @ [Remove_job p]\<rparr>"

definition aw_drained :: "'w writer \<Rightarrow> bool" where
  "aw_drained s \<longleftrightarrow> aw_jobs s = [] \<and> aw_active s = 0"

definition aw_take_failed :: "'w writer \<Rightarrow> string list \<times> 'w writer" where
  "aw_take_failed s = (aw_failed s, s\<lparr>aw_failed := [], aw_reported := aw_reported s @ aw_failed s\<rparr>)"

definition aw_take :: "'w writer \<Rightarrow> (cache_job option \<times> 'w writer) option" where
  "aw_take s =
     (if \<not> (aw_stop s \<or> aw_jobs s \<noteq> []) then None
      else case aw_jobs s of
        [] \<Rightarrow> Some (None, s\<lparr>aw_exited := True\<rparr>)
      | j # js \<Rightarrow> Some (Some j, s\<lparr>aw_jobs := js, aw_active := 1, aw_running := Some j\<rparr>))"

definition aw_finish :: "'w posix \<Rightarrow> cache_job \<Rightarrow> 'w writer \<Rightarrow> 'w writer" where
  "aw_finish px j s =
     (let (ok, w) = do_job px j (aw_world s)
      in s\<lparr>aw_failed := (if ok then aw_failed s else aw_failed s @ [job_path j]), aw_active := 0, aw_running := None, aw_world := w\<rparr>)"

text \<open>The steps of the owner and of the thread; \<open>Close\<close> is the destructor, after which the owner makes no call. \<open>Query\<close> is
  \<open>take_failed\<close>.\<close>

inductive aw_step :: "'w posix \<Rightarrow> 'w writer \<Rightarrow> cache_job event \<Rightarrow> 'w writer \<Rightarrow> bool" for px where
  aw_accept_write: "\<not> aw_stop s \<Longrightarrow> aw_step px s (Accept (Write_job p h b)) (aw_write p h b s)"
| aw_accept_remove: "\<not> aw_stop s \<Longrightarrow> aw_step px s (Accept (Remove_job p)) (aw_remove p s)"
| aw_query: "\<not> aw_stop s \<Longrightarrow> aw_step px s Query (snd (aw_take_failed s))"
| aw_close: "aw_step px s Close (s\<lparr>aw_stop := True\<rparr>)"
| aw_start: "aw_running s = None \<Longrightarrow> \<not> aw_exited s \<Longrightarrow> aw_take s = Some (Some j, s') \<Longrightarrow> aw_step px s (Start j) s'"
| aw_exit: "aw_running s = None \<Longrightarrow> \<not> aw_exited s \<Longrightarrow> aw_take s = Some (None, s') \<Longrightarrow> aw_step px s Exit s'"
| aw_end: "aw_running s = Some j \<Longrightarrow> aw_step px s (Finish j) (aw_finish px j s)"

inductive_simps aw_step_simps:
  "aw_step px s (Accept j) t" "aw_step px s (Refuse j) t" "aw_step px s Query t" "aw_step px s Close t" "aw_step px s (Start j) t" "aw_step px s Exit t"
  "aw_step px s (Finish j) t"

lemma aw_live:
  assumes "\<not> aw_exited s" "aw_running s \<noteq> None \<or> aw_jobs s \<noteq> [] \<or> aw_stop s"
  shows "\<exists>e t. by_worker e \<and> aw_step px s e t"
proof (cases "aw_running s")
  case (Some j)
  then have "aw_step px s (Finish j) (aw_finish px j s)" by (rule aw_end)
  then show ?thesis by (meson by_worker.simps(2))
next
  case None
  show ?thesis
  proof (cases "aw_jobs s")
    case Nil
    then have "aw_take s = Some (None, s\<lparr>aw_exited := True\<rparr>)" using None assms(2) by (simp add: aw_take_def)
    from aw_exit[OF None assms(1) this] show ?thesis by (meson by_worker.simps(3))
  next
    case (Cons j js)
    then have "aw_take s = Some (Some j, s\<lparr>aw_jobs := js, aw_active := 1, aw_running := Some j\<rparr>)" by (simp add: aw_take_def)
    from aw_start[OF None assms(1) this] show ?thesis by (meson by_worker.simps(1))
  qed
qed

interpretation aw: fifo_worker aw_jobs aw_running aw_stop aw_exited "aw_step px" "aw_new w"
proof unfold_locales
  show "\<not> aw_exited s \<Longrightarrow> aw_running s \<noteq> None \<or> aw_jobs s \<noteq> [] \<or> aw_stop s \<Longrightarrow> \<exists>e t. by_worker e \<and> aw_step px s e t" for s
    by (rule aw_live)
qed (auto simp: aw_new_def aw_step_simps aw_write_def aw_remove_def aw_take_def aw_finish_def aw_take_failed_def Let_def split: list.splits if_splits prod.splits)

subsection \<open>The order of the writes\<close>

text \<open>The jobs one after the other: the world, and the paths of the writes that failed.\<close>

definition do_jobs :: "'w posix \<Rightarrow> cache_job list \<Rightarrow> 'w \<Rightarrow> string list \<times> 'w" where
  "do_jobs px js w = fold (\<lambda>j (failed, w). let (ok, w) = do_job px j w in (if ok then failed else failed @ [job_path j], w)) js ([], w)"

lemma do_jobs_snoc:
  "do_jobs px (js @ [j]) w = (let (failed, w) = do_jobs px js w; (ok, w) = do_job px j w in (if ok then failed else failed @ [job_path j], w))"
  by (simp add: do_jobs_def split: prod.split)

lemma writer_state:
  assumes "run (aw_step px) (aw_new w) es s"
  shows "do_jobs px (finished es) w = (aw_reported s @ aw_failed s, aw_world s) \<and> (aw_active s = 0 \<longleftrightarrow> aw_running s = None)"
  using assms
proof (induction rule: run.induct)
  case (run_snoc es t e u)
  from run_snoc.hyps(2) show ?case
  proof cases
    case (aw_end j)
    have "do_jobs px (finished (es @ [e])) w = (aw_reported u @ aw_failed u, aw_world u)"
      using run_snoc.IH by (simp add: aw_end finished_def do_jobs_snoc aw_finish_def split: prod.split)
    then show ?thesis by (simp add: aw_end aw_finish_def split: prod.split)
  qed (use run_snoc.IH in \<open>auto simp: finished_def aw_write_def aw_remove_def aw_take_def aw_take_failed_def split: list.splits if_splits\<close>)
qed (simp add: aw_new_def finished_def do_jobs_def)


subsection \<open>The atomic write\<close>

text \<open>The documented effect of the calls on the files. \<open>files w p\<close> is the content of the file at the path \<open>p\<close>, with a flag that tells
  if all its bytes are on the disk; \<open>target w d\<close> is the path that a descriptor writes to, and \<open>views w\<close> has the files that another
  process could see, or a power loss could leave, after each call so far.\<close>

type_synonym disk = "string \<Rightarrow> (u8 list \<times> bool) option"

definition px_creat_effect :: "'w posix \<Rightarrow> ('w \<Rightarrow> disk) \<Rightarrow> ('w \<Rightarrow> int \<Rightarrow> string) \<Rightarrow> ('w \<Rightarrow> disk list) \<Rightarrow> bool" where
  "px_creat_effect px files target views \<longleftrightarrow> (\<forall>p w d w'. px_creat px p w = (d, w') \<longrightarrow>
     files w' = (if d < 0 then files w else (files w)(p \<mapsto> ([], False))) \<and> (0 \<le> d \<longrightarrow> target w' d = p) \<and> views w' = views w @ [files w'])"

definition px_write_effect :: "'w posix \<Rightarrow> ('w \<Rightarrow> disk) \<Rightarrow> ('w \<Rightarrow> int \<Rightarrow> string) \<Rightarrow> ('w \<Rightarrow> disk list) \<Rightarrow> bool" where
  "px_write_effect px files target views \<longleftrightarrow> (\<forall>d bs w put w'. px_write px d bs w = (put, w') \<longrightarrow>
     put \<le> int (length bs) \<and> target w' d = target w d \<and> views w' = views w @ [files w'] \<and>
     files w' = (if put \<le> 0 then files w else (files w)(target w d \<mapsto> (fst (the (files w (target w d))) @ take (nat put) bs, False))))"

definition px_fsync_effect :: "'w posix \<Rightarrow> ('w \<Rightarrow> disk) \<Rightarrow> ('w \<Rightarrow> int \<Rightarrow> string) \<Rightarrow> ('w \<Rightarrow> disk list) \<Rightarrow> bool" where
  "px_fsync_effect px files target views \<longleftrightarrow> (\<forall>d w r w'. px_fsync px d w = (r, w') \<longrightarrow> target w' d = target w d \<and> views w' = views w @ [files w'] \<and>
     files w' = (if r \<noteq> 0 then files w else (files w)(target w d := map_option (\<lambda>(bs, _). (bs, True)) (files w (target w d)))))"

definition px_close_effect :: "'w posix \<Rightarrow> ('w \<Rightarrow> disk) \<Rightarrow> ('w \<Rightarrow> disk list) \<Rightarrow> bool" where
  "px_close_effect px files views \<longleftrightarrow> (\<forall>d w. files (px_close px d w) = files w \<and> views (px_close px d w) = views w @ [files w])"

definition px_rename_effect :: "'w posix \<Rightarrow> ('w \<Rightarrow> disk) \<Rightarrow> ('w \<Rightarrow> disk list) \<Rightarrow> bool" where
  "px_rename_effect px files views \<longleftrightarrow> (\<forall>a b w r w'. px_rename px a b w = (r, w') \<longrightarrow>
     files w' = (if r = 0 then (files w)(b := files w a, a := None) else files w) \<and> views w' = views w @ [files w'])"

definition px_unlink_effect :: "'w posix \<Rightarrow> ('w \<Rightarrow> disk) \<Rightarrow> ('w \<Rightarrow> disk list) \<Rightarrow> bool" where
  "px_unlink_effect px files views \<longleftrightarrow> (\<forall>p w r e w'. px_unlink px p w = ((r, e), w') \<longrightarrow>
     files w' = (if r = 0 then (files w)(p := None) else files w) \<and> views w' = views w @ [files w'])"

definition posix_laws :: "'w posix \<Rightarrow> ('w \<Rightarrow> disk) \<Rightarrow> ('w \<Rightarrow> int \<Rightarrow> string) \<Rightarrow> ('w \<Rightarrow> disk list) \<Rightarrow> bool" where
  "posix_laws px files target views \<longleftrightarrow> px_creat_effect px files target views \<and> px_write_effect px files target views \<and>
     px_fsync_effect px files target views \<and> px_close_effect px files views \<and> px_rename_effect px files views \<and> px_unlink_effect px files views"

text \<open>The files, and the views since \<open>w\<close>, differ from the files of \<open>w\<close> at the temporary path only.\<close>

definition only_tmp :: "('w \<Rightarrow> disk) \<Rightarrow> ('w \<Rightarrow> disk list) \<Rightarrow> string \<Rightarrow> 'w \<Rightarrow> 'w \<Rightarrow> bool" where
  "only_tmp files views tmp w w' \<longleftrightarrow> (\<forall>q. q \<noteq> tmp \<longrightarrow> files w' q = files w q) \<and>
     (\<exists>vs. views w' = views w @ vs \<and> (\<forall>v\<in>set vs. \<forall>q. q \<noteq> tmp \<longrightarrow> v q = files w q))"

lemma only_tmp_trans: "only_tmp files views tmp u v \<Longrightarrow> only_tmp files views tmp v w \<Longrightarrow> only_tmp files views tmp u w"
  unfolding only_tmp_def by fastforce

lemma only_tmp_refl: "only_tmp files views tmp w w"
  by (simp add: only_tmp_def)

lemma only_tmp_step:
  "views w' = views w @ [files w'] \<Longrightarrow> (\<And>q. q \<noteq> tmp \<Longrightarrow> files w' q = files w q) \<Longrightarrow> only_tmp files views tmp w w'"
  by (simp add: only_tmp_def)

lemma write_part_file:
  assumes "posix_laws px files target views" "write_part px d bs w = (ok, w')" "target w d = tmp" "files w tmp = Some (old, b)"
  shows "only_tmp files views tmp w w' \<and> target w' d = tmp \<and> (\<exists>c b'. files w' tmp = Some (c, b') \<and> (ok \<longrightarrow> c = old @ bs))"
  using assms
proof (induction px d bs w arbitrary: old b rule: write_part.induct)
  case (1 px d bs w)
  obtain put w1 where w1: "px_write px d bs w = (put, w1)" by (cases "px_write px d bs w")
  have law: "put \<le> int (length bs)" "target w1 d = target w d" "views w1 = views w @ [files w1]"
    "files w1 = (if put \<le> 0 then files w else (files w)(target w d \<mapsto> (fst (the (files w (target w d))) @ take (nat put) bs, False)))"
    using 1(2) w1 unfolding posix_laws_def px_write_effect_def by blast+
  have s: "only_tmp files views tmp w w1" using law 1(4) by (intro only_tmp_step) auto
  show ?case
  proof (cases "bs = [] \<or> put \<le> 0")
    case True
    then show ?thesis
    proof
      assume "bs = []"
      then show ?thesis using 1(3-5) by (subst (asm) write_part.simps) (simp add: only_tmp_refl)
    next
      assume "put \<le> 0"
      then show ?thesis using 1(3-5) w1 law s by (subst (asm) write_part.simps) (auto simp: only_tmp_refl split: if_splits)
    qed
  next
    case False
    then have rec: "write_part px d (drop (nat put) bs) w1 = (ok, w')" using 1(3) w1 by (subst (asm) write_part.simps) simp
    have f1: "files w1 tmp = Some (old @ take (nat put) bs, False)" using law 1(4,5) False by simp
    have "target w1 d = tmp" using law 1(4) by simp
    from 1(1)[OF _ w1[symmetric] refl _ 1(2) rec this f1] False
    have "only_tmp files views tmp w1 w' \<and> target w' d = tmp \<and>
        (\<exists>c b'. files w' tmp = Some (c, b') \<and> (ok \<longrightarrow> c = (old @ take (nat put) bs) @ drop (nat put) bs))" by simp
    then show ?thesis using only_tmp_trans[OF s] by simp
  qed
qed

lemma write_parts_file:
  assumes "posix_laws px files target views" "write_parts px d ps w = (ok, w')" "target w d = tmp" "files w tmp = Some (old, b)"
  shows "only_tmp files views tmp w w' \<and> target w' d = tmp \<and> (\<exists>c b'. files w' tmp = Some (c, b') \<and> (ok \<longrightarrow> c = old @ concat ps))"
  using assms(2-)
proof (induction ps arbitrary: w old b)
  case Nil
  then show ?case by (simp add: only_tmp_refl)
next
  case (Cons p ps)
  obtain ok1 w1 where w1: "write_part px d p w = (ok1, w1)" by (cases "write_part px d p w")
  note h = write_part_file[OF assms(1) w1 Cons.prems(2,3)]
  show ?case
  proof (cases ok1)
    case False
    then show ?thesis using h w1 Cons.prems(1) by auto
  next
    case True
    then obtain b1 where f1: "files w1 tmp = Some (old @ p, b1)" using h by auto
    have "write_parts px d ps w1 = (ok, w')" using Cons.prems(1) w1 True by simp
    from Cons.IH[OF this _ f1] h only_tmp_trans[of files views tmp w w1 w'] show ?thesis by simp
  qed
qed

lemma temp_written:
  assumes laws: "posix_laws px files target views" and w2: "write_parts px d parts w1 = (ok2, w2)" and t1: "target w1 d = tmp"
    and f1: "files w1 tmp = Some ([], False)" and f: "px_fsync px d w2 = (r, w3')" and w4: "w4 = px_close px d (if ok2 then w3' else w2)"
  shows "only_tmp files views tmp w1 w4 \<and> (ok2 \<and> r = 0 \<longrightarrow> files w4 tmp = Some (concat parts, True))"
proof -
  note ls = laws[unfolded posix_laws_def]
  from write_parts_file[OF laws w2 t1 f1]
  have h2: "only_tmp files views tmp w1 w2" "target w2 d = tmp" "ok2 \<Longrightarrow> \<exists>b'. files w2 tmp = Some (concat parts, b')" by auto
  define w3 where "w3 = (if ok2 then w3' else w2)"
  have f': "views w3' = views w2 @ [files w3']"
    "files w3' = (if r \<noteq> 0 then files w2 else (files w2)(tmp := map_option (\<lambda>(bs, _). (bs, True)) (files w2 tmp)))"
    using ls f h2(2) unfolding px_fsync_effect_def by blast+
  have "only_tmp files views tmp w2 w3'" using f' by (intro only_tmp_step) auto
  then have o3: "only_tmp files views tmp w2 w3" using f by (auto simp: w3_def only_tmp_refl)
  have t3: "ok2 \<and> r = 0 \<Longrightarrow> files w3 tmp = Some (concat parts, True)" using h2(3) f' f by (auto simp: w3_def)
  have f4: "files (px_close px d w3) = files w3" "views (px_close px d w3) = views w3 @ [files w3]"
    using ls unfolding px_close_effect_def by blast+
  have "only_tmp files views tmp w3 (px_close px d w3)" using f4 by (intro only_tmp_step) auto
  then have "only_tmp files views tmp w1 (px_close px d w3)" using h2(1) o3 only_tmp_trans[of files views tmp] by blast
  with t3 f4(1) show ?thesis unfolding w4 w3_def[symmetric] by simp
qed

text \<open>What \<open>write_file_atomic\<close> does to the files.\<close>

definition written :: "('w \<Rightarrow> disk) \<Rightarrow> ('w \<Rightarrow> disk list) \<Rightarrow> string \<Rightarrow> u8 list \<Rightarrow> bool \<Rightarrow> 'w \<Rightarrow> 'w \<Rightarrow> bool" where
  "written files views path bs ok w w' \<longleftrightarrow>
     files w' path = (if ok then Some (bs, True) else files w path) \<and> (ok \<longrightarrow> files w' (temp_path path) = None) \<and>
     (\<forall>q. q \<noteq> path \<and> q \<noteq> temp_path path \<longrightarrow> files w' q = files w q) \<and>
     (\<exists>vs. views w' = views w @ vs \<and> (\<forall>v\<in>set vs. v path = files w path \<or> ok \<and> v path = Some (bs, True)))"

lemma temp_path_neq [simp]: "path \<noteq> temp_path path" "temp_path path \<noteq> path"
  by (simp_all add: temp_path_def)

lemma written_failed: "only_tmp files views (temp_path path) w w' \<Longrightarrow> written files views path bs False w w'"
  unfolding only_tmp_def written_def by auto

lemma written_renamed:
  assumes "only_tmp files views (temp_path path) w w4" "files w5 = (files w4)(path \<mapsto> (bs, True), temp_path path := None)"
    "views w5 = views w4 @ [files w5]"
  shows "written files views path bs True w w5"
proof -
  obtain vs where "views w4 = views w @ vs" "\<forall>v\<in>set vs. \<forall>q. q \<noteq> temp_path path \<longrightarrow> v q = files w q"
    using assms(1) unfolding only_tmp_def by blast
  then have "views w5 = views w @ (vs @ [files w5])" "\<forall>v\<in>set (vs @ [files w5]). v path = files w path \<or> v path = Some (bs, True)"
    using assms(2,3) by auto
  then show ?thesis using assms(1,2) unfolding only_tmp_def written_def by auto
qed

lemma atomic_write_effect:
  assumes laws: "posix_laws px files target views" and run: "write_file_atomic px path parts w = (ok, w')"
  shows "written files views path (concat parts) ok w w'"
proof -
  define tmp where "tmp = temp_path path"
  note ls = laws[unfolded posix_laws_def]
  obtain d w1 where w1: "px_creat px tmp w = (d, w1)" by (cases "px_creat px tmp w")
  have c: "files w1 = (if d < 0 then files w else (files w)(tmp \<mapsto> ([], False)))" "0 \<le> d \<longrightarrow> target w1 d = tmp" "views w1 = views w @ [files w1]"
    using ls w1 unfolding px_creat_effect_def by blast+
  have o1: "only_tmp files views tmp w w1" using c by (intro only_tmp_step) auto
  show ?thesis
  proof (cases "d < 0")
    case True
    then have "ok = False" "w' = w1" using run w1 by (simp_all add: write_file_atomic_def tmp_def)
    then show ?thesis using o1 written_failed by (simp add: tmp_def)
  next
    case False
    obtain ok2 w2 where w2: "write_parts px d parts w1 = (ok2, w2)" by (cases "write_parts px d parts w1")
    obtain r w3' where f: "px_fsync px d w2 = (r, w3')" by (cases "px_fsync px d w2")
    define w4 where "w4 = px_close px d (if ok2 then w3' else w2)"
    have f1: "files w1 tmp = Some ([], False)" "target w1 d = tmp" using c False by auto
    have h: "only_tmp files views tmp w1 w4" "ok2 \<and> r = 0 \<Longrightarrow> files w4 tmp = Some (concat parts, True)"
      using temp_written[OF laws w2 f1(2,1) f w4_def] by blast+
    have o: "only_tmp files views tmp w w4" by (rule only_tmp_trans[OF o1 h(1)])
    obtain r5 w5 where w5: "px_rename px tmp path w4 = (r5, w5)" by (cases "px_rename px tmp path w4")
    have f5: "files w5 = (if r5 = 0 then (files w4)(path := files w4 tmp, tmp := None) else files w4)" "views w5 = views w4 @ [files w5]"
      using ls w5 unfolding px_rename_effect_def by blast+
    have run': "ok = (ok2 \<and> r = 0 \<and> r5 = 0)" "w' = (if ok then w5 else snd (px_unlink px tmp (if ok2 \<and> r = 0 then w5 else w4)))"
      using run w1 w2 w5 f False by (auto simp: write_file_atomic_def tmp_def[symmetric] w4_def Let_def split: if_splits)
    show ?thesis
    proof (cases ok)
      case True
      then show ?thesis using run' h(2) f5 o written_renamed[of files views path w w4 w5 "concat parts"] by (simp add: tmp_def)
    next
      case nok: False
      define v where "v = (if ok2 \<and> r = 0 then w5 else w4)"
      have "only_tmp files views tmp w4 w5" if "r5 \<noteq> 0" using f5 that by (intro only_tmp_step) auto
      then have o5: "only_tmp files views tmp w4 v" using nok run'(1) by (auto simp: v_def only_tmp_refl)
      obtain r6 e6 w6 where w6: "px_unlink px tmp v = ((r6, e6), w6)" by (metis prod.collapse)
      have "files w6 = (if r6 = 0 then (files v)(tmp := None) else files v)" "views w6 = views v @ [files w6]"
        using ls w6 unfolding px_unlink_effect_def by blast+
      then have "only_tmp files views tmp v w6" by (intro only_tmp_step) auto
      then have "only_tmp files views tmp w w'" using only_tmp_trans[OF only_tmp_trans[OF o o5]] nok run'(2) w6 by (simp add: v_def)
      then show ?thesis using nok written_failed by (simp add: tmp_def)
    qed
  qed
qed

text \<open>A file system in memory with one directory \<open>d\<close>, which takes at most three bytes in one write.\<close>

record mem_disk =
  md_files :: disk
  md_target :: string
  md_views :: "disk list"

definition md_set :: "disk \<Rightarrow> mem_disk \<Rightarrow> mem_disk" where
  "md_set f w = w\<lparr>md_files := f, md_views := md_views w @ [f]\<rparr>"

definition mem_posix :: "mem_disk posix" where
  "mem_posix = \<lparr>
     px_creat = \<lambda>p w. (3, md_set ((md_files w)(p \<mapsto> ([], False))) (w\<lparr>md_target := p\<rparr>)),
     px_write = \<lambda>d bs w. (int (length (take 3 bs)), md_set (if bs = [] then md_files w
        else (md_files w)(md_target w \<mapsto> (fst (the (md_files w (md_target w))) @ take 3 bs, False))) w),
     px_fsync = \<lambda>d w. (0, md_set ((md_files w)(md_target w := map_option (\<lambda>(bs, _). (bs, True)) (md_files w (md_target w)))) w),
     px_close = \<lambda>d w. md_set (md_files w) w,
     px_rename = \<lambda>a b w. (0, md_set ((md_files w)(b := md_files w a, a := None)) w),
     px_unlink = \<lambda>p w. ((if md_files w p = None then - 1 else 0, md_files w p = None), md_set ((md_files w)(p := None)) w),
     px_open = \<lambda>p w. (if md_files w p = None then - 1 else 3, w\<lparr>md_target := p\<rparr>),
     px_pread = \<lambda>d n off w. (map_option (\<lambda>(bs, _). take n (drop off bs)) (md_files w (md_target w)), w),
     px_stat = \<lambda>p w. (case md_files w p of
         None \<Rightarrow> if p = ''d'' then Some \<lparr>st_kind = Directory, st_size = 0, st_mtime = 0\<rparr> else None
       | Some (bs, _) \<Rightarrow> Some \<lparr>st_kind = Regular, st_size = of_nat (length bs), st_mtime = 0\<rparr>, w),
     px_mkdir = \<lambda>p w. ((0, False), w), px_rmdir = \<lambda>p w. w, px_opendir = \<lambda>p w. (None, w), px_closedir = \<lambda>w. w\<rparr>"

lemma mem_posix_laws: "posix_laws mem_posix md_files (\<lambda>w d. md_target w) md_views"
  unfolding posix_laws_def
proof (intro conjI)
  show "px_write_effect mem_posix md_files (\<lambda>w d. md_target w) md_views"
    by (auto simp: px_write_effect_def mem_posix_def md_set_def min_def split: if_splits)
  show "px_unlink_effect mem_posix md_files md_views" by (auto simp: px_unlink_effect_def mem_posix_def md_set_def)
qed (auto simp: mem_posix_def md_set_def px_creat_effect_def px_fsync_effect_def px_close_effect_def px_rename_effect_def)

lemma mem_write_part: "fst (write_part mem_posix d bs w)"
proof (induction bs arbitrary: w rule: length_induct)
  case (1 bs)
  show ?case
  proof (cases "bs = []")
    case True
    then show ?thesis by (subst write_part.simps) simp
  next
    case False
    obtain put w1 where p: "px_write mem_posix d bs w = (put, w1)" by (cases "px_write mem_posix d bs w")
    have "0 < put" using p False by (auto simp: mem_posix_def)
    moreover have "fst (write_part mem_posix d (drop (nat put) bs) w1)" using 1 False \<open>0 < put\<close> by simp
    ultimately show ?thesis using p False by (subst write_part.simps) simp
  qed
qed

lemma mem_write: "fst (write_file_atomic mem_posix path parts w)"
proof -
  have ps: "fst (write_parts mem_posix d ps w)" for d ps w
  proof (induction ps arbitrary: w)
    case (Cons p ps)
    then show ?case using mem_write_part[of d p w] by (cases "write_part mem_posix d p w") simp
  qed simp
  obtain d w1 where 1: "px_creat mem_posix (temp_path path) w = (d, w1)" "d = 3" by (simp add: mem_posix_def)
  obtain w2 where 2: "write_parts mem_posix d parts w1 = (True, w2)" using ps[of d parts w1] by (cases "write_parts mem_posix d parts w1") simp
  have "fst (px_fsync mem_posix d w) = 0" "fst (px_rename mem_posix a b w) = 0" for a b w by (simp_all add: mem_posix_def)
  then show ?thesis using 1 2 by (simp add: write_file_atomic_def Let_def split: prod.split) (metis fst_conv)
qed

definition mem_disk0 :: mem_disk where
  "mem_disk0 = \<lparr>md_files = (\<lambda>_. None)(''a'' \<mapsto> ([7], True)), md_target = [], md_views = []\<rparr>"

text \<open>C30. \<open>write_file_atomic\<close> on a file system with the documented calls: after a success the file has the bytes of the parts, all on the
  disk, and the temporary file is gone; after a failure the file is as before. No other file changes. Each state that another
  process sees, or a power loss leaves, has the old file or the complete new file, and the new one only after a success.\<close>

theorem atomic_write:
  assumes "posix_laws px files target views" "write_file_atomic px path parts w = (ok, w')"
  shows "files w' path = (if ok then Some (concat parts, True) else files w path) \<and> (ok \<longrightarrow> files w' (temp_path path) = None) \<and>
    (\<forall>q. q \<noteq> path \<and> q \<noteq> temp_path path \<longrightarrow> files w' q = files w q) \<and>
    (\<exists>vs. views w' = views w @ vs \<and> (\<forall>v\<in>set vs. v path = files w path \<or> ok \<and> v path = Some (concat parts, True)))"
  using atomic_write_effect[OF assms] unfolding written_def .

lemma atomic_write_witness:
  "\<exists>w'. write_file_atomic mem_posix ''a'' [[1, 2, 3, 4], [], [5]] mem_disk0 = (True, w') \<and> md_files w' ''a'' = Some ([1, 2, 3, 4, 5], True)"
proof -
  have "fst (write_file_atomic mem_posix ''a'' [[1, 2, 3, 4], [], [5]] mem_disk0)" by code_simp
  then obtain w' where r: "write_file_atomic mem_posix ''a'' [[1, 2, 3, 4], [], [5]] mem_disk0 = (True, w')" by (metis prod.collapse)
  then show ?thesis using atomic_write[OF mem_posix_laws r] by simp
qed


subsection \<open>The last write of a file\<close>

text \<open>A job changes the file of its path and its temporary file only.\<close>

lemma do_job_other:
  assumes laws: "posix_laws px files target views" and "do_job px j w = (ok, w')" "job_path j \<noteq> p" "temp_path (job_path j) \<noteq> p"
  shows "files w' p = files w p"
proof (cases j)
  case (Write_job q h b)
  then have "write_file_atomic px q [h, b] w = (ok, w')" using assms(2) by simp
  from atomic_write_effect[OF laws this] have "written files views q (h @ b) ok w w'" by simp
  then show ?thesis using assms(3,4) Write_job unfolding written_def by simp
next
  case (Remove_job q)
  obtain r e w1 where u: "px_unlink px q w = ((r, e), w1)" by (metis prod.collapse)
  have "files w1 = (if r = 0 then (files w)(q := None) else files w)"
    using laws u unfolding posix_laws_def px_unlink_effect_def by blast
  then show ?thesis using assms(2,3) Remove_job u by (auto simp: remove_file_def)
qed

lemma do_jobs_app:
  "do_jobs px (js @ ks) w = (let (f1, w1) = do_jobs px js w; (f2, w2) = do_jobs px ks w1 in (f1 @ f2, w2))"
proof (induction ks rule: rev_induct)
  case Nil
  show ?case by (simp add: do_jobs_def split: prod.split)
next
  case (snoc k ks)
  show ?case unfolding append_assoc[symmetric] do_jobs_snoc snoc by (simp split: prod.split)
qed

lemma do_jobs_other:
  assumes laws: "posix_laws px files target views"
  shows "\<forall>k\<in>set ks. job_path k \<noteq> p \<and> temp_path (job_path k) \<noteq> p \<Longrightarrow> files (snd (do_jobs px ks w)) p = files w p"
proof (induction ks rule: rev_induct)
  case (snoc k ks)
  obtain f w1 where 1: "do_jobs px ks w = (f, w1)" by fastforce
  obtain ok w2 where 2: "do_job px k w1 = (ok, w2)" by fastforce
  show ?case using snoc do_job_other[OF laws 2, of p] 1 2 by (simp add: do_jobs_snoc)
qed (simp add: do_jobs_def)

text \<open>C31. When \<open>drain\<close> has returned, the file of a path has the bytes of the last write that the owner has queued for it, all on the disk,
  if that write is not one of the failed ones: no earlier write and no earlier removal can undo it.\<close>

theorem last_write_wins:
  assumes "posix_laws px files target views" "run (aw_step px) (aw_new w) es s" "aw_drained s" "accepted es = js @ Write_job p h b # ks"
    and "\<forall>k\<in>set ks. job_path k \<noteq> p \<and> temp_path (job_path k) \<noteq> p" "p \<notin> set (aw_reported s @ aw_failed s)"
  shows "files (aw_world s) p = Some (h @ b, True)"
proof -
  have "aw_running s = None" using assms(3) writer_state[OF assms(2)] by (simp add: aw_drained_def)
  then have "finished es = js @ [Write_job p h b] @ ks" using assms(3,4) aw.idle_done[OF assms(2)] by (simp add: aw_drained_def)
  with writer_state[OF assms(2)] have all: "do_jobs px (js @ [Write_job p h b] @ ks) w = (aw_reported s @ aw_failed s, aw_world s)" by simp
  obtain f1 w1 where 1: "do_jobs px js w = (f1, w1)" by fastforce
  obtain ok w2 where 2: "write_file_atomic px p [h, b] w1 = (ok, w2)" by fastforce
  then have one: "do_jobs px [Write_job p h b] w1 = (if ok then [] else [p], w2)" by (simp add: do_jobs_def)
  obtain f3 w3 where 3: "do_jobs px ks w2 = (f3, w3)" by fastforce
  have "f1 @ (if ok then [] else [p]) @ f3 = aw_reported s @ aw_failed s" "w3 = aw_world s"
    using all one 1 3 by (simp_all add: do_jobs_app[of px js] do_jobs_app[of px "[Write_job p h b]"] split: if_splits del: append_Cons append_Nil)
  moreover from this(1) have ok using assms(6) by (metis Un_iff list.set_intros(1) set_append)
  ultimately show ?thesis
    using atomic_write_effect[OF assms(1) 2] do_jobs_other[OF assms(1,5), of w2] 3 unfolding written_def by simp
qed

lemma last_write_wins_witness:
  "\<exists>s. run (aw_step mem_posix) (aw_new mem_disk0) [Accept (Write_job ''a'' [1] [2]), Start (Write_job ''a'' [1] [2]), Finish (Write_job ''a'' [1] [2])] s \<and>
     md_files (aw_world s) ''a'' = Some ([1, 2], True)"
proof -
  define j where "j = Write_job ''a'' [1] [2]"
  define s1 s2 where "s1 = aw_write ''a'' [1] [2] (aw_new mem_disk0)" and "s2 = s1\<lparr>aw_jobs := [], aw_active := 1, aw_running := Some j\<rparr>"
  have "aw_step mem_posix (aw_new mem_disk0) (Accept j) s1" "aw_step mem_posix s1 (Start j) s2" "aw_step mem_posix s2 (Finish j) (aw_finish mem_posix j s2)"
    by (simp_all add: aw_step_simps s1_def s2_def j_def aw_new_def aw_write_def aw_take_def)
  then have r: "run (aw_step mem_posix) (aw_new mem_disk0) ((([] @ [Accept j]) @ [Start j]) @ [Finish j]) (aw_finish mem_posix j s2)"
    by (blast intro: run_nil run_snoc)
  have "fst (write_file_atomic mem_posix ''a'' [[1], [2]] mem_disk0)" by code_simp
  then have d: "aw_drained (aw_finish mem_posix j s2)" "aw_reported (aw_finish mem_posix j s2) @ aw_failed (aw_finish mem_posix j s2) = []"
    by (auto simp: s2_def s1_def j_def aw_write_def aw_new_def aw_drained_def aw_finish_def split: prod.split)
  have "md_files (aw_world (aw_finish mem_posix j s2)) ''a'' = Some ([1] @ [2], True)"
    by (rule last_write_wins[OF mem_posix_laws r d(1), of "[]" _ _ _ "[]"]) (auto simp: accepted_def j_def d(2)[unfolded j_def])
  then show ?thesis using r unfolding j_def by auto
qed

end
