(* ===== verification/RpcLoader.thy ===== *)
theory RpcLoader
  imports DspEnv
begin

text \<open>
  The run-time loaders of \<open>libcdsprpc.so\<close>: \<open>tools/ddrbw/host/rpc.c\<close> (18 functions, some of them optional)
  and \<open>tools/htp-lab/probe/host/cdsprpc.c\<close> (5 functions, all required).

  A loaded library is its symbol table, \<^typ>\<open>string \<Rightarrow> 'f option\<close>: \<open>dlsym\<close> is the lookup, and \<open>None\<close> is a
  \<open>NULL\<close> result. \<^typ>\<open>'f\<close> stands for the code addresses of the library. A failed \<open>dlopen\<close> is \<open>None\<close>.
  The value of a wrapper is the call that it makes, with its arguments in their order (pointers are their
  addresses), or the value that it returns without a call. The messages on \<open>stderr\<close> are not modelled.
\<close>

type_synonym 'f library = "string \<Rightarrow> 'f option"

text \<open>What a wrapper does. \<open>NullCall\<close> is a call through a null pointer, which has no defined behaviour in C.\<close>

datatype 'f outcome = Call 'f "int list" | Return int | NullCall

definition call :: "'f option \<Rightarrow> int list \<Rightarrow> 'f outcome" where
  "call fn args = (case fn of Some f \<Rightarrow> Call f args | None \<Rightarrow> NullCall)"

subsection \<open>The loader of the bandwidth probe\<close>

record 'f rpc =
  lib :: "'f library option"
  handle64_open :: "'f option"
  handle64_invoke :: "'f option"
  handle64_close :: "'f option"
  handle_control :: "'f option"
  handle64_control :: "'f option"
  session_control :: "'f option"
  alloc :: "'f option"
  alloc2 :: "'f option"
  rpc_free :: "'f option"
  to_fd :: "'f option"
  mmap :: "'f option"
  munmap :: "'f option"
  dq_create :: "'f option"
  dq_close :: "'f option"
  dq_export :: "'f option"
  dq_write :: "'f option"
  dq_read :: "'f option"
  dq_read_noblock :: "'f option"

text \<open>The zero-initialised static \<open>g_rpc\<close>.\<close>

definition g_rpc :: "'f rpc" where
  "g_rpc = \<lparr>lib = None, handle64_open = None, handle64_invoke = None, handle64_close = None,
     handle_control = None, handle64_control = None, session_control = None, alloc = None, alloc2 = None,
     rpc_free = None, to_fd = None, mmap = None, munmap = None, dq_create = None, dq_close = None,
     dq_export = None, dq_write = None, dq_read = None, dq_read_noblock = None\<rparr>"

text \<open>\<open>find\<close> for a loaded library; its argument \<open>required\<close> only selects the message.\<close>

definition find_fn :: "'f library \<Rightarrow> string \<Rightarrow> 'f option" where
  "find_fn l name = l name"

definition fill_rpc :: "'f library \<Rightarrow> 'f rpc \<Rightarrow> 'f rpc" where
  "fill_rpc l g = g\<lparr>
     handle64_open := find_fn l ''remote_handle64_open'',
     handle64_invoke := find_fn l ''remote_handle64_invoke'',
     handle64_close := find_fn l ''remote_handle64_close'',
     handle_control := find_fn l ''remote_handle_control'',
     handle64_control := find_fn l ''remote_handle64_control'',
     session_control := find_fn l ''remote_session_control'',
     alloc := find_fn l ''rpcmem_alloc'',
     alloc2 := find_fn l ''rpcmem_alloc2'',
     rpc_free := find_fn l ''rpcmem_free'',
     to_fd := find_fn l ''rpcmem_to_fd'',
     mmap := find_fn l ''fastrpc_mmap'',
     munmap := find_fn l ''fastrpc_munmap'',
     dq_create := find_fn l ''dspqueue_create'',
     dq_close := find_fn l ''dspqueue_close'',
     dq_export := find_fn l ''dspqueue_export'',
     dq_write := find_fn l ''dspqueue_write'',
     dq_read := find_fn l ''dspqueue_read'',
     dq_read_noblock := find_fn l ''dspqueue_read_noblock''\<rparr>"

definition rpc_incomplete :: "'f rpc \<Rightarrow> bool" where
  "rpc_incomplete g \<longleftrightarrow> handle64_open g = None \<or> handle64_invoke g = None \<or> handle64_close g = None \<or>
     handle_control g = None \<or> session_control g = None \<or> alloc g = None \<or>
     rpc_free g = None \<or> to_fd g = None \<or> mmap g = None \<or> munmap g = None"

text \<open>\<open>rpc_load\<close>: the argument is what \<open>dlopen\<close> gives if the code calls it.\<close>

definition rpc_load :: "'f library option \<Rightarrow> 'f rpc \<Rightarrow> int \<times> 'f rpc" where
  "rpc_load opened g = (if lib g \<noteq> None then (0, g)
     else case opened of
       None \<Rightarrow> (-1, g\<lparr>lib := None\<rparr>)
     | Some l \<Rightarrow>
         let g = fill_rpc l (g\<lparr>lib := Some l\<rparr>) in
         if rpc_incomplete g then (-1, g\<lparr>lib := None\<rparr>) else (0, g))"

text \<open>The codes of \<open>AEEStdErr.h\<close> that the wrappers return. The SDK gives their values.\<close>

record rpc_codes =
  AEE_EUNABLETOLOAD :: int
  AEE_EUNSUPPORTED :: int

definition remote_handle64_open :: "rpc_codes \<Rightarrow> 'f rpc \<Rightarrow> int \<Rightarrow> int \<Rightarrow> 'f outcome" where
  "remote_handle64_open E g name ph = (if lib g \<noteq> None then call (handle64_open g) [name, ph]
     else Return (AEE_EUNABLETOLOAD E))"

definition remote_handle64_invoke :: "rpc_codes \<Rightarrow> 'f rpc \<Rightarrow> int \<Rightarrow> int \<Rightarrow> int \<Rightarrow> 'f outcome" where
  "remote_handle64_invoke E g h scalars pra = (if lib g \<noteq> None then call (handle64_invoke g) [h, scalars, pra]
     else Return (AEE_EUNABLETOLOAD E))"

definition remote_handle64_close :: "rpc_codes \<Rightarrow> 'f rpc \<Rightarrow> int \<Rightarrow> 'f outcome" where
  "remote_handle64_close E g h = (if lib g \<noteq> None then call (handle64_close g) [h]
     else Return (AEE_EUNABLETOLOAD E))"

definition remote_handle_control :: "rpc_codes \<Rightarrow> 'f rpc \<Rightarrow> int \<Rightarrow> int \<Rightarrow> int \<Rightarrow> 'f outcome" where
  "remote_handle_control E g req ptr datalen = (if lib g \<noteq> None then call (handle_control g) [req, ptr, datalen]
     else Return (AEE_EUNABLETOLOAD E))"

definition remote_handle64_control :: "rpc_codes \<Rightarrow> 'f rpc \<Rightarrow> int \<Rightarrow> int \<Rightarrow> int \<Rightarrow> int \<Rightarrow> 'f outcome" where
  "remote_handle64_control E g h req ptr datalen = (if handle64_control g \<noteq> None
     then call (handle64_control g) [h, req, ptr, datalen] else Return (AEE_EUNSUPPORTED E))"

definition remote_session_control :: "rpc_codes \<Rightarrow> 'f rpc \<Rightarrow> int \<Rightarrow> int \<Rightarrow> int \<Rightarrow> 'f outcome" where
  "remote_session_control E g req ptr datalen = (if lib g \<noteq> None then call (session_control g) [req, ptr, datalen]
     else Return (AEE_EUNABLETOLOAD E))"

text \<open>A null pointer is the address 0.\<close>

definition rpcmem_alloc :: "'f rpc \<Rightarrow> int \<Rightarrow> int \<Rightarrow> int \<Rightarrow> 'f outcome" where
  "rpcmem_alloc g heapid flags sz = (if alloc g \<noteq> None then call (alloc g) [heapid, flags, sz] else Return 0)"

definition rpcmem_alloc2 :: "'f rpc \<Rightarrow> int \<Rightarrow> int \<Rightarrow> nat \<Rightarrow> 'f outcome" where
  "rpcmem_alloc2 g heapid flags sz =
     (if alloc2 g \<noteq> None then call (alloc2 g) [heapid, flags, int sz]
      else if sz \<le> 0x7fffffff then rpcmem_alloc g heapid flags (int sz) else Return 0)"

text \<open>\<open>rpcmem_free\<close> returns nothing, which the model writes as \<open>Return 0\<close>.\<close>

definition rpcmem_free :: "'f rpc \<Rightarrow> int \<Rightarrow> 'f outcome" where
  "rpcmem_free g po = (if rpc_free g \<noteq> None then call (rpc_free g) [po] else Return 0)"

definition rpcmem_to_fd :: "'f rpc \<Rightarrow> int \<Rightarrow> 'f outcome" where
  "rpcmem_to_fd g po = (if to_fd g \<noteq> None then call (to_fd g) [po] else Return (-1))"

definition fastrpc_mmap :: "rpc_codes \<Rightarrow> 'f rpc \<Rightarrow> int \<Rightarrow> int \<Rightarrow> int \<Rightarrow> int \<Rightarrow> int \<Rightarrow> int \<Rightarrow> 'f outcome" where
  "fastrpc_mmap E g domain f addr offset len flags = (if mmap g \<noteq> None
     then call (mmap g) [domain, f, addr, offset, len, flags] else Return (AEE_EUNABLETOLOAD E))"

definition fastrpc_munmap :: "rpc_codes \<Rightarrow> 'f rpc \<Rightarrow> int \<Rightarrow> int \<Rightarrow> int \<Rightarrow> int \<Rightarrow> 'f outcome" where
  "fastrpc_munmap E g domain f addr len = (if munmap g \<noteq> None
     then call (munmap g) [domain, f, addr, len] else Return (AEE_EUNABLETOLOAD E))"

definition dspqueue_create ::
  "rpc_codes \<Rightarrow> 'f rpc \<Rightarrow> int \<Rightarrow> int \<Rightarrow> int \<Rightarrow> int \<Rightarrow> int \<Rightarrow> int \<Rightarrow> int \<Rightarrow> int \<Rightarrow> 'f outcome" where
  "dspqueue_create E g domain flags req_size resp_size packet_cb error_cb ctx q = (if dq_create g \<noteq> None
     then call (dq_create g) [domain, flags, req_size, resp_size, packet_cb, error_cb, ctx, q]
     else Return (AEE_EUNSUPPORTED E))"

definition dspqueue_close :: "rpc_codes \<Rightarrow> 'f rpc \<Rightarrow> int \<Rightarrow> 'f outcome" where
  "dspqueue_close E g q = (if dq_close g \<noteq> None then call (dq_close g) [q] else Return (AEE_EUNSUPPORTED E))"

definition dspqueue_export :: "rpc_codes \<Rightarrow> 'f rpc \<Rightarrow> int \<Rightarrow> int \<Rightarrow> 'f outcome" where
  "dspqueue_export E g q qid = (if dq_export g \<noteq> None then call (dq_export g) [q, qid]
     else Return (AEE_EUNSUPPORTED E))"

definition dspqueue_write ::
  "rpc_codes \<Rightarrow> 'f rpc \<Rightarrow> int \<Rightarrow> int \<Rightarrow> int \<Rightarrow> int \<Rightarrow> int \<Rightarrow> int \<Rightarrow> int \<Rightarrow> 'f outcome" where
  "dspqueue_write E g q flags n_buffers buffers len msg timeout = (if dq_write g \<noteq> None
     then call (dq_write g) [q, flags, n_buffers, buffers, len, msg, timeout]
     else Return (AEE_EUNSUPPORTED E))"

definition dspqueue_read ::
  "rpc_codes \<Rightarrow> 'f rpc \<Rightarrow> int \<Rightarrow> int \<Rightarrow> int \<Rightarrow> int \<Rightarrow> int \<Rightarrow> int \<Rightarrow> int \<Rightarrow> int \<Rightarrow> int \<Rightarrow> 'f outcome" where
  "dspqueue_read E g q flags max_buffers n_buffers buffers max_len len msg timeout = (if dq_read g \<noteq> None
     then call (dq_read g) [q, flags, max_buffers, n_buffers, buffers, max_len, len, msg, timeout]
     else Return (AEE_EUNSUPPORTED E))"

definition dspqueue_read_noblock ::
  "rpc_codes \<Rightarrow> 'f rpc \<Rightarrow> int \<Rightarrow> int \<Rightarrow> int \<Rightarrow> int \<Rightarrow> int \<Rightarrow> int \<Rightarrow> int \<Rightarrow> int \<Rightarrow> 'f outcome" where
  "dspqueue_read_noblock E g q flags max_buffers n_buffers buffers max_len len msg =
     (if dq_read_noblock g \<noteq> None
      then call (dq_read_noblock g) [q, flags, max_buffers, n_buffers, buffers, max_len, len, msg]
      else Return (AEE_EUNSUPPORTED E))"

subsection \<open>The loader of the ISA probe\<close>

record 'f cdsprpc =
  c_lib :: "'f library option"
  c_open :: "'f option"
  c_invoke :: "'f option"
  c_close :: "'f option"
  c_handle_control :: "'f option"
  c_session_control :: "'f option"

definition g_cdsprpc :: "'f cdsprpc" where
  "g_cdsprpc = \<lparr>c_lib = None, c_open = None, c_invoke = None, c_close = None, c_handle_control = None,
     c_session_control = None\<rparr>"

definition cdsprpc_find :: "'f library \<Rightarrow> string \<Rightarrow> 'f option" where
  "cdsprpc_find l name = l name"

definition cdsprpc_load :: "'f library option \<Rightarrow> 'f cdsprpc \<Rightarrow> int \<times> 'f cdsprpc" where
  "cdsprpc_load opened g = (if c_lib g \<noteq> None then (0, g)
     else case opened of
       None \<Rightarrow> (-1, g\<lparr>c_lib := None\<rparr>)
     | Some l \<Rightarrow>
         let g = g\<lparr>c_lib := Some l,
               c_open := cdsprpc_find l ''remote_handle64_open'',
               c_invoke := cdsprpc_find l ''remote_handle64_invoke'',
               c_close := cdsprpc_find l ''remote_handle64_close'',
               c_handle_control := cdsprpc_find l ''remote_handle_control'',
               c_session_control := cdsprpc_find l ''remote_session_control''\<rparr> in
         if c_open g = None \<or> c_invoke g = None \<or> c_close g = None \<or> c_handle_control g = None \<or>
            c_session_control g = None
         then (-1, g\<lparr>c_lib := None\<rparr>) else (0, g))"

definition cdsprpc_handle64_open :: "rpc_codes \<Rightarrow> 'f cdsprpc \<Rightarrow> int \<Rightarrow> int \<Rightarrow> 'f outcome" where
  "cdsprpc_handle64_open E g name ph = (if c_lib g \<noteq> None then call (c_open g) [name, ph]
     else Return (AEE_EUNABLETOLOAD E))"

definition cdsprpc_handle64_invoke :: "rpc_codes \<Rightarrow> 'f cdsprpc \<Rightarrow> int \<Rightarrow> int \<Rightarrow> int \<Rightarrow> 'f outcome" where
  "cdsprpc_handle64_invoke E g h scalars pra = (if c_lib g \<noteq> None then call (c_invoke g) [h, scalars, pra]
     else Return (AEE_EUNABLETOLOAD E))"

definition cdsprpc_handle64_close :: "rpc_codes \<Rightarrow> 'f cdsprpc \<Rightarrow> int \<Rightarrow> 'f outcome" where
  "cdsprpc_handle64_close E g h = (if c_lib g \<noteq> None then call (c_close g) [h]
     else Return (AEE_EUNABLETOLOAD E))"

definition cdsprpc_remote_handle_control :: "rpc_codes \<Rightarrow> 'f cdsprpc \<Rightarrow> int \<Rightarrow> int \<Rightarrow> int \<Rightarrow> 'f outcome" where
  "cdsprpc_remote_handle_control E g req ptr datalen = (if c_lib g \<noteq> None
     then call (c_handle_control g) [req, ptr, datalen] else Return (AEE_EUNABLETOLOAD E))"

definition cdsprpc_remote_session_control :: "rpc_codes \<Rightarrow> 'f cdsprpc \<Rightarrow> int \<Rightarrow> int \<Rightarrow> int \<Rightarrow> 'f outcome" where
  "cdsprpc_remote_session_control E g req ptr datalen = (if c_lib g \<noteq> None
     then call (c_session_control g) [req, ptr, datalen] else Return (AEE_EUNABLETOLOAD E))"

subsection \<open>Properties\<close>

definition required_names :: "string set" where
  "required_names = {''remote_handle64_open'', ''remote_handle64_invoke'', ''remote_handle64_close'',
     ''remote_handle_control'', ''remote_session_control'', ''rpcmem_alloc'', ''rpcmem_free'',
     ''rpcmem_to_fd'', ''fastrpc_mmap'', ''fastrpc_munmap''}"

definition required_cdsprpc :: "string set" where
  "required_cdsprpc = {''remote_handle64_open'', ''remote_handle64_invoke'', ''remote_handle64_close'',
     ''remote_handle_control'', ''remote_session_control''}"

text \<open>What a client may expect of an entry point: the function of that name of the library, called with the
  arguments of the entry point, or a fixed result when the library has no such function.\<close>

definition forwards :: "'f library \<Rightarrow> string \<Rightarrow> int list \<Rightarrow> int \<Rightarrow> 'f outcome" where
  "forwards l name args missing = (case l name of Some f \<Rightarrow> Call f args | None \<Rightarrow> Return missing)"

text \<open>The states after any sequence of calls of the loader, each with its own result of \<open>dlopen\<close>.\<close>

inductive rpc_reachable :: "'f rpc \<Rightarrow> bool" where
  start: "rpc_reachable g_rpc"
| load: "rpc_reachable g \<Longrightarrow> rpc_reachable (snd (rpc_load opened g))"

inductive cdsprpc_reachable :: "'f cdsprpc \<Rightarrow> bool" where
  c_start: "cdsprpc_reachable g_cdsprpc"
| c_load: "cdsprpc_reachable g \<Longrightarrow> cdsprpc_reachable (snd (cdsprpc_load opened g))"

definition rpc_inv :: "'f rpc \<Rightarrow> bool" where
  "rpc_inv g \<longleftrightarrow> (case lib g of None \<Rightarrow> True
     | Some l \<Rightarrow> required_names \<subseteq> dom l \<and> g = fill_rpc l (g_rpc\<lparr>lib := Some l\<rparr>))"

definition cdsprpc_inv :: "'f cdsprpc \<Rightarrow> bool" where
  "cdsprpc_inv g \<longleftrightarrow> (case c_lib g of None \<Rightarrow> True
     | Some l \<Rightarrow> required_cdsprpc \<subseteq> dom l \<and> g = \<lparr>c_lib = Some l,
         c_open = l ''remote_handle64_open'', c_invoke = l ''remote_handle64_invoke'',
         c_close = l ''remote_handle64_close'', c_handle_control = l ''remote_handle_control'',
         c_session_control = l ''remote_session_control''\<rparr>)"

lemma complete_iff: "rpc_incomplete (fill_rpc l g) \<longleftrightarrow> \<not> required_names \<subseteq> dom l"
  by (auto simp: rpc_incomplete_def fill_rpc_def find_fn_def required_names_def)

lemma fill_rpc_start: "fill_rpc l (g\<lparr>lib := Some l\<rparr>) = fill_rpc l (g_rpc\<lparr>lib := Some l\<rparr>)"
  by (simp add: fill_rpc_def g_rpc_def)

lemma lib_fill [simp]: "lib (fill_rpc l g) = lib g"
  by (simp add: fill_rpc_def)

lemma rpc_load_inv: "rpc_inv g \<Longrightarrow> rpc_inv (snd (rpc_load opened g))"
  using fill_rpc_start[of _ g]
  by (auto simp: rpc_load_def rpc_inv_def Let_def complete_iff split: option.splits)

lemma rpc_reachable_inv: "rpc_reachable g \<Longrightarrow> rpc_inv g"
  by (induction rule: rpc_reachable.induct) (simp_all add: rpc_load_inv, simp add: rpc_inv_def g_rpc_def)

lemma cdsprpc_load_inv: "cdsprpc_inv g \<Longrightarrow> cdsprpc_inv (snd (cdsprpc_load opened g))"
  by (auto simp: cdsprpc_load_def cdsprpc_inv_def required_cdsprpc_def cdsprpc_find_def Let_def split: option.splits)

lemma cdsprpc_reachable_inv: "cdsprpc_reachable g \<Longrightarrow> cdsprpc_inv g"
  by (induction rule: cdsprpc_reachable.induct)
    (simp_all add: cdsprpc_load_inv, simp add: cdsprpc_inv_def g_cdsprpc_def)

lemmas rpc_wrappers = remote_handle64_open_def remote_handle64_invoke_def remote_handle64_close_def
  remote_handle_control_def remote_handle64_control_def remote_session_control_def rpcmem_alloc_def
  rpcmem_free_def rpcmem_to_fd_def fastrpc_mmap_def fastrpc_munmap_def dspqueue_create_def
  dspqueue_close_def dspqueue_export_def dspqueue_write_def dspqueue_read_def dspqueue_read_noblock_def

lemmas cdsprpc_wrappers = cdsprpc_handle64_open_def cdsprpc_handle64_invoke_def cdsprpc_handle64_close_def
  cdsprpc_remote_handle_control_def cdsprpc_remote_session_control_def

text \<open>The pointers of a load that failed stay set: an entry point that tests its pointer, not \<open>lib\<close>, then calls
  into the library that \<open>dlclose\<close> closed.\<close>

lemma failed_load_keeps_pointers:
  assumes "l ''fastrpc_munmap'' = None" "l ''rpcmem_alloc'' = Some f"
  shows "\<exists>g. rpc_load (Some l) g_rpc = (-1, g) \<and> lib g = None \<and> rpcmem_alloc g h fl n = Call f [h, fl, n]"
  using assms by (simp add: rpc_load_def rpc_incomplete_def fill_rpc_def find_fn_def Let_def g_rpc_def
      rpcmem_alloc_def call_def)

lemma forwards_required: "required_names \<subseteq> dom l \<Longrightarrow> name \<in> required_names \<Longrightarrow> call (l name) args = forwards l name args e"
  by (auto simp: call_def forwards_def)

lemma forwards_optional: "(if l name \<noteq> None then call (l name) args else Return e) = forwards l name args e"
  by (auto simp: call_def forwards_def)

text \<open>Whatever \<open>dlopen\<close> gave in the calls of \<open>rpc_load\<close> before, a call of \<open>rpc_load\<close> returns 0 exactly when
  a library is already loaded or when \<open>dlopen\<close> gives one with each of the ten required functions; otherwise it
  returns -1 and no library is loaded. After a 0, each of the 18 entry points calls the function of its own name in
  the loaded library, with its arguments in their order; an optional function that the library does not have
  gives \<open>AEE_EUNSUPPORTED\<close>, and \<open>rpcmem_alloc2\<close> falls back on \<open>rpcmem_alloc\<close> for a size that an \<open>int\<close> holds.\<close>

theorem rpc_forwards:
  assumes reach: "rpc_reachable g" and load: "rpc_load opened g = (r, g')"
  shows "(r = 0 \<longleftrightarrow> lib g \<noteq> None \<or> (\<exists>l. opened = Some l \<and> required_names \<subseteq> dom l)) \<and>
    (r \<noteq> 0 \<longrightarrow> r = -1 \<and> lib g' = None) \<and>
    (r = 0 \<longrightarrow> (\<exists>l. lib g' = Some l \<and> (lib g = Some l \<or> lib g = None \<and> opened = Some l) \<and>
      (\<forall>a b c d e f h i j.
        remote_handle64_open E g' a b = forwards l ''remote_handle64_open'' [a, b] (AEE_EUNABLETOLOAD E) \<and>
        remote_handle64_invoke E g' a b c = forwards l ''remote_handle64_invoke'' [a, b, c] (AEE_EUNABLETOLOAD E) \<and>
        remote_handle64_close E g' a = forwards l ''remote_handle64_close'' [a] (AEE_EUNABLETOLOAD E) \<and>
        remote_handle_control E g' a b c = forwards l ''remote_handle_control'' [a, b, c] (AEE_EUNABLETOLOAD E) \<and>
        remote_handle64_control E g' a b c d =
          forwards l ''remote_handle64_control'' [a, b, c, d] (AEE_EUNSUPPORTED E) \<and>
        remote_session_control E g' a b c = forwards l ''remote_session_control'' [a, b, c] (AEE_EUNABLETOLOAD E) \<and>
        rpcmem_alloc g' a b c = forwards l ''rpcmem_alloc'' [a, b, c] 0 \<and>
        (\<forall>n. rpcmem_alloc2 g' a b n = (if l ''rpcmem_alloc2'' = None \<and> n < 2 ^ 31
           then forwards l ''rpcmem_alloc'' [a, b, int n] 0 else forwards l ''rpcmem_alloc2'' [a, b, int n] 0)) \<and>
        rpcmem_free g' a = forwards l ''rpcmem_free'' [a] 0 \<and>
        rpcmem_to_fd g' a = forwards l ''rpcmem_to_fd'' [a] (-1) \<and>
        fastrpc_mmap E g' a b c d e f = forwards l ''fastrpc_mmap'' [a, b, c, d, e, f] (AEE_EUNABLETOLOAD E) \<and>
        fastrpc_munmap E g' a b c d = forwards l ''fastrpc_munmap'' [a, b, c, d] (AEE_EUNABLETOLOAD E) \<and>
        dspqueue_create E g' a b c d e f h i =
          forwards l ''dspqueue_create'' [a, b, c, d, e, f, h, i] (AEE_EUNSUPPORTED E) \<and>
        dspqueue_close E g' a = forwards l ''dspqueue_close'' [a] (AEE_EUNSUPPORTED E) \<and>
        dspqueue_export E g' a b = forwards l ''dspqueue_export'' [a, b] (AEE_EUNSUPPORTED E) \<and>
        dspqueue_write E g' a b c d e f h =
          forwards l ''dspqueue_write'' [a, b, c, d, e, f, h] (AEE_EUNSUPPORTED E) \<and>
        dspqueue_read E g' a b c d e f h i j =
          forwards l ''dspqueue_read'' [a, b, c, d, e, f, h, i, j] (AEE_EUNSUPPORTED E) \<and>
        dspqueue_read_noblock E g' a b c d e f h i =
          forwards l ''dspqueue_read_noblock'' [a, b, c, d, e, f, h, i] (AEE_EUNSUPPORTED E))))"
proof (cases "r = 0")
  case False
  then show ?thesis
    using load by (auto simp: rpc_load_def complete_iff Let_def split: if_splits option.splits)
next
  case True
  have load: "rpc_load opened g = (0, g')" using load True by simp
  then obtain l where l: "lib g' = Some l" "lib g = Some l \<or> lib g = None \<and> opened = Some l"
    by (auto simp: rpc_load_def Let_def split: if_splits option.splits)
  have "rpc_inv g'" using rpc_load_inv[OF rpc_reachable_inv[OF reach], of opened] load by simp
  then have req: "required_names \<subseteq> dom l" and g': "g' = fill_rpc l (g_rpc\<lparr>lib := Some l\<rparr>)"
    using l(1) by (auto simp: rpc_inv_def)
  have ok: "lib g \<noteq> None \<or> (\<exists>l. opened = Some l \<and> required_names \<subseteq> dom l)"
    using l(2) req by auto
  have call: "call (l name) args = forwards l name args e" if "name \<in> required_names" for name args e
    using forwards_required[OF req that] .
  show ?thesis
    using True l ok req
    by (intro conjI impI exI[of _ l] allI iffI;
      (simp add: rpc_wrappers rpcmem_alloc2_def g' fill_rpc_def find_fn_def g_rpc_def)?;
      (rule call)?; (auto simp: call_def forwards_def required_names_def split: option.splits)?)
qed

lemma rpc_forwards_witness:
  "fst (rpc_load (Some (\<lambda>n. if n \<in> required_names then Some (CHR ''f'') else None)) (g_rpc :: char rpc)) = 0"
  using rpc_forwards[OF start prod.collapse[symmetric],
    of "Some (\<lambda>n. if n \<in> required_names then Some (CHR ''f'') else None)"]
  by (auto simp: dom_def)

text \<open>The same for the loader of the ISA probe: \<open>cdsprpc_load\<close> returns 0 exactly when a library is loaded or
  \<open>dlopen\<close> gives one with each of the five functions; after a 0 each entry point calls the function of its own name,
  and as long as no library is loaded each entry point returns \<open>AEE_EUNABLETOLOAD\<close> and calls nothing, also after
  a load that failed.\<close>

theorem cdsprpc_forwards:
  assumes reach: "cdsprpc_reachable g" and load: "cdsprpc_load opened g = (r, g')"
  shows "(r = 0 \<longleftrightarrow> c_lib g \<noteq> None \<or> (\<exists>l. opened = Some l \<and> required_cdsprpc \<subseteq> dom l)) \<and>
    (r = 0 \<longleftrightarrow> c_lib g' \<noteq> None) \<and> r \<in> {0, -1} \<and>
    (let client = (\<lambda>name args. case c_lib g' of None \<Rightarrow> Return (AEE_EUNABLETOLOAD E)
         | Some l \<Rightarrow> forwards l name args (AEE_EUNABLETOLOAD E)) in
     \<forall>a b c. cdsprpc_handle64_open E g' a b = client ''remote_handle64_open'' [a, b] \<and>
        cdsprpc_handle64_invoke E g' a b c = client ''remote_handle64_invoke'' [a, b, c] \<and>
        cdsprpc_handle64_close E g' a = client ''remote_handle64_close'' [a] \<and>
        cdsprpc_remote_handle_control E g' a b c = client ''remote_handle_control'' [a, b, c] \<and>
        cdsprpc_remote_session_control E g' a b c = client ''remote_session_control'' [a, b, c])"
proof -
  have inv: "cdsprpc_inv g'" using cdsprpc_load_inv[OF cdsprpc_reachable_inv[OF reach], of opened] load by simp
  have res: "(r = 0 \<longleftrightarrow> c_lib g \<noteq> None \<or> (\<exists>l. opened = Some l \<and> required_cdsprpc \<subseteq> dom l)) \<and>
    (r = 0 \<longleftrightarrow> c_lib g' \<noteq> None) \<and> r \<in> {0, -1}"
    using load by (auto simp: cdsprpc_load_def Let_def cdsprpc_find_def required_cdsprpc_def
        split: if_splits option.splits)
  show ?thesis
  proof (cases "c_lib g'")
    case None
    with res show ?thesis by (auto simp: cdsprpc_wrappers)
  next
    case (Some l)
    then have "required_cdsprpc \<subseteq> dom l" and g': "g' = \<lparr>c_lib = Some l,
         c_open = l ''remote_handle64_open'', c_invoke = l ''remote_handle64_invoke'',
         c_close = l ''remote_handle64_close'', c_handle_control = l ''remote_handle_control'',
         c_session_control = l ''remote_session_control''\<rparr>"
      using inv by (auto simp: cdsprpc_inv_def)
    then have call: "call (l name) args = forwards l name args e" if "name \<in> required_cdsprpc" for name args e
      using that by (auto simp: call_def forwards_def)
    with res Some show ?thesis
      by (auto simp: cdsprpc_wrappers g' call required_cdsprpc_def)
  qed
qed

lemma cdsprpc_forwards_witness:
  "fst (cdsprpc_load (Some (\<lambda>n. if n \<in> required_cdsprpc then Some (CHR ''f'') else None)) (g_cdsprpc :: char cdsprpc)) = 0"
  using cdsprpc_forwards[OF c_start prod.collapse[symmetric],
    of "Some (\<lambda>n. if n \<in> required_cdsprpc then Some (CHR ''f'') else None)"]
  by (auto simp: dom_def)

end
