(* ===== verification/CensusIO.thy ===== *)
theory CensusIO
  imports Prelude
begin

text \<open>
  The files of the HVX census: \<open>isa_hash\<close> and the file header of \<open>tools/htp-lab/isa/isa_kernels.h\<close>, and the
  functions of \<open>tools/htp-lab/probe/host/census_io.c\<close>.

  A file is the list of its bytes. The calls of the C library (\<open>fopen\<close>, \<open>fseek\<close>, \<open>ftell\<close>, \<open>malloc\<close>,
  \<open>fread\<close>, \<open>fwrite\<close>, \<open>fclose\<close>) may fail; their results are the fields of the records \<open>file_in\<close> and \<open>file_out\<close>.
  A result \<^const>\<open>None\<close> is the return value -1 after a message.
\<close>

subsection \<open>The hash\<close>

definition word_at :: "u8 list \<Rightarrow> nat \<Rightarrow> u32" where
  "word_at bs i = ld32 (nth bs) (4 * i)"

definition fnv :: "u32 \<Rightarrow> u32 \<Rightarrow> u32" where
  "fnv h w = (h XOR w) * 16777619"

function hash_blocks :: "u8 list \<Rightarrow> nat \<Rightarrow> nat \<Rightarrow> u32 list \<Rightarrow> u32 list" where
  "hash_blocks bs n i h = (if i + 32 \<le> n div 4
     then hash_blocks bs n (i + 32) (map (\<lambda>k. fnv (h ! k) (word_at bs (i + k))) [0..<32]) else h)"
  by pat_completeness auto
termination by (relation "measure (\<lambda>(bs, n, i, h). n div 4 - i)") auto

declare hash_blocks.simps [simp del]

definition isa_hash :: "u8 list \<Rightarrow> nat \<Rightarrow> u32" where
  "isa_hash bs n = fold (\<lambda>x r. fnv r x) (hash_blocks bs n 0 (replicate 32 2166136261)) 2166136261"

lemma hash_blocks_cong:
  "(\<And>k. k < n div 4 \<Longrightarrow> word_at a k = word_at b k) \<Longrightarrow> hash_blocks a n i h = hash_blocks b n i h"
proof (induction a n i h rule: hash_blocks.induct)
  case (1 a n i h)
  have "map (\<lambda>k. fnv (h ! k) (word_at a (i + k))) [0..<32] = map (\<lambda>k. fnv (h ! k) (word_at b (i + k))) [0..<32]"
    if "i + 32 \<le> n div 4"
    using 1(2) that by (intro map_cong) auto
  then show ?case
    using 1(1)[OF _ 1(2)] by (subst (1 2) hash_blocks.simps) (auto simp del: map_eq_conv)
qed

lemma isa_hash_take: "n \<le> length bs \<Longrightarrow> isa_hash (take n bs) n = isa_hash bs n"
  unfolding isa_hash_def
  by (subst hash_blocks_cong[of n "take n bs" bs]) (auto simp: word_at_def intro!: ld32_cong)

text \<open>A change of one word changes one lane, because each step of the hash is a bijection of the lane.\<close>

definition differ_at :: "nat \<Rightarrow> u32 list \<Rightarrow> u32 list \<Rightarrow> bool" where
  "differ_at k h h' \<longleftrightarrow> length h = 32 \<and> length h' = 32 \<and> k < 32 \<and> h ! k \<noteq> h' ! k \<and> (\<forall>i<32. i \<noteq> k \<longrightarrow> h ! i = h' ! i)"

lemma fnv_prime_odd: "(x :: u32) * 16777619 * 899433627 = x"
proof -
  have "(16777619 :: u32) * 899433627 = 1" by simp
  then show ?thesis by (simp only: mult.assoc mult_1_right)
qed

lemma fnv_eq: "fnv a w = fnv b v \<longleftrightarrow> a XOR w = b XOR v"
  unfolding fnv_def by (metis fnv_prime_odd)

lemma fnv_eq_left: "fnv a w = fnv b w \<longleftrightarrow> a = b"
  unfolding fnv_eq by (metis xor.assoc xor_self_eq xor.right_neutral)

lemma fnv_eq_right: "fnv a w = fnv a v \<longleftrightarrow> w = v"
  unfolding fnv_eq by (metis xor.assoc xor_self_eq xor.left_neutral)

lemma differ_at_block:
  assumes "differ_at k h h'"
  shows "differ_at k (map (\<lambda>k. fnv (h ! k) (w k)) [0..<32]) (map (\<lambda>k. fnv (h' ! k) (w k)) [0..<32])"
  using assms by (simp add: differ_at_def fnv_eq_left)

lemma differ_at_blocks:
  "differ_at k h h' \<Longrightarrow> (\<And>q. i \<le> q \<Longrightarrow> q < n div 4 \<Longrightarrow> word_at a q = word_at b q) \<Longrightarrow>
    differ_at k (hash_blocks a n i h) (hash_blocks b n i h')"
proof (induction a n i h arbitrary: h' rule: hash_blocks.induct)
  case (1 a n i h)
  show ?case
  proof (cases "i + 32 \<le> n div 4")
    case True
    have eq: "map (\<lambda>k. fnv (h' ! k) (word_at b (i + k))) [0..<32] = map (\<lambda>k. fnv (h' ! k) (word_at a (i + k))) [0..<32]"
      using 1(3) True by (intro map_cong) auto
    show ?thesis
      using 1(1)[OF True differ_at_block[OF 1(2)]] 1(3) True
      by (subst (1 2) hash_blocks.simps) (auto simp: eq simp del: map_eq_conv)
  qed (use 1(2) in \<open>subst (1 2) hash_blocks.simps, simp\<close>)
qed

lemma word_change_blocks:
  assumes "length h = 32" "i \<le> j" "i mod 32 = 0" "j < n div 4" "n mod 128 = 0" "word_at a j \<noteq> word_at b j"
    and "\<And>q. q < n div 4 \<Longrightarrow> q \<noteq> j \<Longrightarrow> word_at a q = word_at b q"
  shows "differ_at (j mod 32) (hash_blocks a n i h) (hash_blocks b n i h)"
  using assms
proof (induction a n i h rule: hash_blocks.induct)
  case (1 a n i h)
  obtain m where n: "n = 128 * m" using 1(6) by auto
  obtain c where i: "i = 32 * c" using 1(4) by auto
  have "c < m" using 1(3,5) by (simp add: n i)
  then have fits: "i + 32 \<le> n div 4" by (simp add: n i)
  let ?w = "\<lambda>a k. fnv (h ! k) (word_at a (i + k))"
  show ?case
  proof (cases "j < i + 32")
    case True
    obtain x where x: "j = i + x" using 1(3) le_Suc_ex by blast
    then have j: "j = i + j mod 32" using True by (simp add: i)
    have "differ_at (j mod 32) (map (?w a) [0..<32]) (map (?w b) [0..<32])"
      using 1(7,8) j fits by (auto simp: differ_at_def fnv_eq_right)
    from differ_at_blocks[OF this, of "i + 32" n a b] True 1(8) fits show ?thesis
      by (subst (1 2) hash_blocks.simps) (auto simp del: map_eq_conv)
  next
    case False
    have eq: "map (?w b) [0..<32] = map (?w a) [0..<32]"
      using 1(8) False fits by (intro map_cong) auto
    have "differ_at (j mod 32) (hash_blocks a n (i + 32) (map (?w a) [0..<32])) (hash_blocks b n (i + 32) (map (?w a) [0..<32]))"
      using 1(1)[OF fits] 1(4-8) False by (simp add: mod_add_left_eq)
    then show ?thesis using fits by (subst (1 2) hash_blocks.simps) (simp add: eq del: map_eq_conv)
  qed
qed

lemma fold_fnv_left: "fold (\<lambda>x r. fnv r x) xs r = fold (\<lambda>x r. fnv r x) xs r' \<longleftrightarrow> r = r'"
  by (induction xs arbitrary: r r') (simp_all add: fnv_eq_left)

lemma differ_at_fold:
  assumes "differ_at k h h'"
  shows "fold (\<lambda>x r. fnv r x) h r \<noteq> fold (\<lambda>x r. fnv r x) h' r"
proof -
  have len: "length h = 32" "length h' = 32" "k < 32" and ne: "h ! k \<noteq> h' ! k"
    and same: "\<forall>i<32. i \<noteq> k \<longrightarrow> h ! i = h' ! i"
    using assms by (auto simp: differ_at_def)
  have pre: "take k h = take k h'" using len same by (intro nth_equalityI) auto
  have post: "drop (Suc k) h = drop (Suc k) h'" using len same by (intro nth_equalityI) auto
  have h: "h = take k h @ h ! k # drop (Suc k) h" and h': "h' = take k h' @ h' ! k # drop (Suc k) h'"
    using len by (simp_all add: id_take_nth_drop[symmetric])
  show ?thesis
    by (subst h, subst h') (simp add: pre post fold_fnv_left fnv_eq_right ne)
qed

lemma hash_word_change:
  assumes "n mod 128 = 0" "j < n div 4" "word_at a j \<noteq> word_at b j"
    and "\<And>q. q < n div 4 \<Longrightarrow> q \<noteq> j \<Longrightarrow> word_at a q = word_at b q"
  shows "isa_hash a n \<noteq> isa_hash b n"
  unfolding isa_hash_def using assms by (intro differ_at_fold[of "j mod 32"] word_change_blocks) auto

subsection \<open>The header\<close>

record isa_file_header =
  h_magic :: "u8 list"
  h_version :: u32
  h_id :: u32
  h_n_vectors :: u32
  h_bytes_per_vector :: u32
  h_arch :: u32
  h_hash :: u32
  h_source :: u32
  h_name :: "u8 list"
  h_reserved :: "u8 list"

definition wf_header :: "isa_file_header \<Rightarrow> bool" where
  "wf_header h \<longleftrightarrow> length (h_magic h) = 4 \<and> length (h_name h) = 64 \<and> length (h_reserved h) = 32"

text \<open>The bytes of a header in memory (all fields are little endian), and the header that \<open>memcpy\<close> makes of them.\<close>

definition le32 :: "u32 \<Rightarrow> u8 list" where
  "le32 v = [ucast v, ucast (drop_bit 8 v), ucast (drop_bit 16 v), ucast (drop_bit 24 v)]"

definition header_bytes :: "isa_file_header \<Rightarrow> u8 list" where
  "header_bytes h = h_magic h @ le32 (h_version h) @ le32 (h_id h) @ le32 (h_n_vectors h) @
     le32 (h_bytes_per_vector h) @ le32 (h_arch h) @ le32 (h_hash h) @ le32 (h_source h) @ h_name h @ h_reserved h"

definition header_of :: "u8 list \<Rightarrow> isa_file_header" where
  "header_of b = \<lparr>h_magic = take 4 b, h_version = ld32 (nth b) 4, h_id = ld32 (nth b) 8,
     h_n_vectors = ld32 (nth b) 12, h_bytes_per_vector = ld32 (nth b) 16, h_arch = ld32 (nth b) 20,
     h_hash = ld32 (nth b) 24, h_source = ld32 (nth b) 28, h_name = take 64 (drop 32 b),
     h_reserved = take 32 (drop 96 b)\<rparr>"

definition chars :: "string \<Rightarrow> u8 list" where
  "chars s = map of_char s"

definition ISA_FILE_MAGIC_CORPUS :: "u8 list" where "ISA_FILE_MAGIC_CORPUS = chars ''HVXC''"
definition ISA_FILE_MAGIC_OUTPUT :: "u8 list" where "ISA_FILE_MAGIC_OUTPUT = chars ''HVXO''"
definition ISA_FILE_VERSION :: u32 where "ISA_FILE_VERSION = 1"
definition ISA_VEC_BYTES :: u32 where "ISA_VEC_BYTES = 128"

subsection \<open>The functions of the host\<close>

text \<open>\<open>snprintf(out, size, "%s/%s", dir, name)\<close> gives the length of the full text, or a negative number on an
  encoding error (\<open>enc_error\<close>).\<close>

definition census_join :: "bool \<Rightarrow> nat \<Rightarrow> string \<Rightarrow> string \<Rightarrow> string option" where
  "census_join enc_error sz dir name =
     (let n = if enc_error then -1 else int (length dir + 1 + length name) in
      if n < 0 \<or> nat n \<ge> sz then None else Some (dir @ ''/'' @ name))"

record file_in =
  f_opens :: bool
  f_seek_end :: bool
  f_ftell :: int
  f_seek_set :: bool
  f_malloc :: bool
  f_fread :: "u8 list"

definition census_read_file :: "file_in \<Rightarrow> u8 list option" where
  "census_read_file f = (if \<not> f_opens f then None
     else let sz = if f_seek_end f then f_ftell f else -1 in
       if sz < 0 \<or> \<not> f_seek_set f then None
       else if \<not> f_malloc f then None
       else if 0 < sz \<and> length (f_fread f) \<noteq> nat sz then None
       else Some (if 0 < sz then f_fread f else []))"

text \<open>The reasons for which a stream is refused, in the order of the tests.\<close>

datatype refusal = TooShort | BadMagic | BadVersion | BadId | BadCount | BadHash

definition stream_refusal :: "u8 list \<Rightarrow> u32 \<Rightarrow> refusal option" where
  "stream_refusal b ident = (if length b < 128 then Some TooShort
     else let h = header_of b; n = length b - 128 in
       if h_magic h \<noteq> ISA_FILE_MAGIC_CORPUS then Some BadMagic
       else if h_version h \<noteq> ISA_FILE_VERSION then Some BadVersion
       else if h_id h \<noteq> ident then Some BadId
       else if h_bytes_per_vector h \<noteq> ISA_VEC_BYTES \<or> unat (h_n_vectors h) * unat ISA_VEC_BYTES \<noteq> n then Some BadCount
       else if h_hash h \<noteq> isa_hash (drop 128 b) n then Some BadHash
       else None)"

definition census_read_stream :: "file_in \<Rightarrow> u32 \<Rightarrow> (u8 list \<times> nat) option" where
  "census_read_stream f ident = (case census_read_file f of None \<Rightarrow> None
     | Some b \<Rightarrow> (case stream_refusal b ident of Some why \<Rightarrow> None | None \<Rightarrow> Some (b, length b - 128)))"

record file_out =
  o_opens :: bool
  o_header_ok :: bool
  o_data_ok :: bool
  o_closes :: bool

text \<open>\<open>snprintf(h.name, sizeof(h.name), "%s", name)\<close> into a zeroed array of 64 bytes.\<close>

definition name_field :: "string \<Rightarrow> u8 list" where
  "name_field name = (let c = take 63 (chars name) in c @ replicate (64 - length c) 0)"

definition output_header :: "u32 \<Rightarrow> string \<Rightarrow> u32 \<Rightarrow> u32 \<Rightarrow> u32 \<Rightarrow> u32 \<Rightarrow> u8 list \<Rightarrow> nat \<Rightarrow> isa_file_header" where
  "output_header ident name n_vectors bytes_per_vector arch source bs len =
     \<lparr>h_magic = ISA_FILE_MAGIC_OUTPUT, h_version = ISA_FILE_VERSION, h_id = ident, h_n_vectors = n_vectors,
      h_bytes_per_vector = bytes_per_vector, h_arch = arch, h_hash = isa_hash bs len, h_source = source,
      h_name = name_field name, h_reserved = replicate 32 0\<rparr>"

text \<open>The value is the return code, and the contents of the file when each \<open>fwrite\<close> and the \<open>fclose\<close> worked.\<close>

definition census_write_output ::
  "file_out \<Rightarrow> u32 \<Rightarrow> string \<Rightarrow> u32 \<Rightarrow> u32 \<Rightarrow> u32 \<Rightarrow> u32 \<Rightarrow> u8 list \<Rightarrow> nat \<Rightarrow> int \<times> u8 list option" where
  "census_write_output f ident name n_vectors bytes_per_vector arch source bs len =
     (let h = output_header ident name n_vectors bytes_per_vector arch source bs len in
      if \<not> o_opens f then (-1, None)
      else let write_ok = o_header_ok f \<and> (len = 0 \<or> o_data_ok f) in
        if \<not> write_ok \<or> \<not> o_closes f then (-1, None) else (0, Some (header_bytes h @ take len bs)))"

subsection \<open>Encoding and decoding\<close>

lemma length_le32 [simp]: "length (le32 v) = 4"
  by (simp add: le32_def)

lemma ld32_le32: "length a = k \<Longrightarrow> ld32 (nth (a @ le32 v @ b)) k = v"
  using word32_bytes[of v] by (simp add: ld32_def le32_def nth_append)

lemma byte_of_ld32:
  "ucast (ld32 m a) = m a" "ucast (drop_bit 8 (ld32 m a)) = m (a + 1)"
  "ucast (drop_bit 16 (ld32 m a)) = m (a + 2)" "ucast (drop_bit 24 (ld32 m a)) = m (a + 3)"
  unfolding ld32_def
  by (rule bit_word_eqI; auto simp: bit_or_iff bit_push_bit_iff bit_unsigned_iff bit_drop_bit_eq
      dest: bit_imp_le_length)+

lemma le32_ld32: "k + 4 \<le> length b \<Longrightarrow> le32 (ld32 (nth b) k) = take 4 (drop k b)"
  unfolding le32_def byte_of_ld32
  by (rule nth_equalityI) (auto simp: less_Suc_eq numeral_eq_Suc)

lemma header_bytes_length [simp]: "wf_header h \<Longrightarrow> length (header_bytes h) = 128"
  by (simp add: wf_header_def header_bytes_def)

lemma header_of_bytes:
  assumes wf: "wf_header h"
  shows "header_of (header_bytes h @ d) = h"
proof -
  let ?b = "header_bytes h @ d"
  have len: "length (h_magic h) = 4" "length (h_name h) = 64" "length (h_reserved h) = 32"
    using wf by (auto simp: wf_header_def)
  note fields = ld32_le32[of "h_magic h" 4 "h_version h"]
    ld32_le32[of "h_magic h @ le32 (h_version h)" 8 "h_id h"]
    ld32_le32[of "h_magic h @ le32 (h_version h) @ le32 (h_id h)" 12 "h_n_vectors h"]
    ld32_le32[of "h_magic h @ le32 (h_version h) @ le32 (h_id h) @ le32 (h_n_vectors h)" 16 "h_bytes_per_vector h"]
    ld32_le32[of "h_magic h @ le32 (h_version h) @ le32 (h_id h) @ le32 (h_n_vectors h) @
      le32 (h_bytes_per_vector h)" 20 "h_arch h"]
    ld32_le32[of "h_magic h @ le32 (h_version h) @ le32 (h_id h) @ le32 (h_n_vectors h) @
      le32 (h_bytes_per_vector h) @ le32 (h_arch h)" 24 "h_hash h"]
    ld32_le32[of "h_magic h @ le32 (h_version h) @ le32 (h_id h) @ le32 (h_n_vectors h) @
      le32 (h_bytes_per_vector h) @ le32 (h_arch h) @ le32 (h_hash h)" 28 "h_source h"]
  show ?thesis
    using fields len by (simp add: header_of_def header_bytes_def)
qed

lemma take_drop_add: "take m (drop k b) @ take n (drop (k + m) b) = take (m + n) (drop k b)"
  by (simp add: take_add drop_drop add.commute)

lemma header_bytes_of:
  assumes "128 \<le> length b"
  shows "header_bytes (header_of b) = take 128 b" "wf_header (header_of b)"
proof -
  have "header_bytes (header_of b) = take 4 (drop 0 b) @ take 4 (drop 4 b) @ take 4 (drop 8 b) @ take 4 (drop 12 b) @
     take 4 (drop 16 b) @ take 4 (drop 20 b) @ take 4 (drop 24 b) @ take 4 (drop 28 b) @ take 64 (drop 32 b) @
     take 32 (drop 96 b)"
    using assms by (simp add: header_bytes_def header_of_def le32_ld32)
  also have "\<dots> = take 128 b"
    using take_drop_add[of 64 32 b 32] take_drop_add[of 4 28 b 96] take_drop_add[of 4 24 b 100]
      take_drop_add[of 4 20 b 104] take_drop_add[of 4 16 b 108] take_drop_add[of 4 12 b 112]
      take_drop_add[of 4 8 b 116] take_drop_add[of 4 4 b 120] take_drop_add[of 4 0 b 124]
    by simp
  finally show "header_bytes (header_of b) = take 128 b" .
  show "wf_header (header_of b)" using assms by (simp add: wf_header_def header_of_def)
qed

lemma wf_output [simp]: "wf_header (output_header ident name n_vectors bpv arch source bs len)"
  by (simp add: wf_header_def output_header_def name_field_def chars_def ISA_FILE_MAGIC_OUTPUT_def Let_def)

lemma drop_header: "wf_header h \<Longrightarrow> drop 128 (header_bytes h @ d) = d"
  by simp

subsection \<open>The reader\<close>

lemma stream_refusal_None: "stream_refusal b ident = None \<longleftrightarrow>
    (\<exists>h d. wf_header h \<and> b = header_bytes h @ d \<and> h_magic h = ISA_FILE_MAGIC_CORPUS \<and>
      h_version h = ISA_FILE_VERSION \<and> h_id h = ident \<and> h_bytes_per_vector h = ISA_VEC_BYTES \<and>
      length d = unat (h_n_vectors h) * 128 \<and> h_hash h = isa_hash d (length d))" (is "_ \<longleftrightarrow> ?ex")
proof
  assume *: "stream_refusal b ident = None"
  then have len: "128 \<le> length b" by (auto simp: stream_refusal_def split: if_splits)
  have b: "b = header_bytes (header_of b) @ drop 128 b" using header_bytes_of(1)[OF len] by simp
  show ?ex
    by (rule exI[of _ "header_of b"], rule exI[of _ "drop 128 b"])
      (use * b len header_bytes_of(2)[OF len] in \<open>auto simp: stream_refusal_def ISA_VEC_BYTES_def Let_def split: if_splits\<close>)
next
  assume ?ex
  then show "stream_refusal b ident = None"
    by (auto simp: stream_refusal_def header_of_bytes ISA_VEC_BYTES_def Let_def)
qed

lemma census_read_file_iff: "census_read_file f = Some b \<longleftrightarrow> f_opens f \<and> f_seek_end f \<and> 0 \<le> f_ftell f \<and>
    f_seek_set f \<and> f_malloc f \<and> int (length b) = f_ftell f \<and> (f_ftell f \<noteq> 0 \<longrightarrow> b = f_fread f)"
  by (cases "f_ftell f = 0") (auto simp: census_read_file_def Let_def)

text \<open>\<open>census_read_stream\<close> accepts a file exactly when each call of the C library works and the file is a header
  with the magic, the version and the id, 128 bytes for a vector and the hash of the rest, followed by the
  number of vectors that the header gives. It then gives the bytes of the file and the length of the vectors.\<close>

theorem read_stream_exact:
  "census_read_stream f ident = Some (b, n) \<longleftrightarrow> census_read_file f = Some b \<and>
    (\<exists>h d. wf_header h \<and> b = header_bytes h @ d \<and> n = length d \<and>
      h_magic h = ISA_FILE_MAGIC_CORPUS \<and> h_version h = ISA_FILE_VERSION \<and> h_id h = ident \<and>
      h_bytes_per_vector h = ISA_VEC_BYTES \<and> length d = unat (h_n_vectors h) * 128 \<and>
      h_hash h = isa_hash d (length d))"
  using stream_refusal_None[of b ident]
  by (auto simp: census_read_stream_def split: option.splits)

subsection \<open>The writer\<close>



subsection \<open>Damage\<close>

lemma header_of_prefix: "128 \<le> length b \<Longrightarrow> 128 \<le> length b' \<Longrightarrow> take 128 b' = take 128 b \<Longrightarrow> header_of b' = header_of b"
  by (metis append_take_drop_id header_bytes_of header_of_bytes)

text \<open>C22. A copy of a valid corpus stream in which the bytes of exactly one aligned 32-bit word of the vectors are not
  those of the file (a flipped bit, a damaged byte) is refused, and the reason is the hash.\<close>

theorem damage_refused:
  assumes ok: "stream_refusal b ident = None"
    and len: "length b' = length b" and head: "take 128 b' = take 128 b"
    and j: "128 + 4 * j + 4 \<le> length b" "take 4 (drop (128 + 4 * j) b') \<noteq> take 4 (drop (128 + 4 * j) b)"
    and same: "take (4 * j) (drop 128 b') = take (4 * j) (drop 128 b)"
      "drop (128 + 4 * j + 4) b' = drop (128 + 4 * j + 4) b"
  shows "stream_refusal b' ident = Some BadHash"
proof -
  let ?n = "length b - 128" and ?d = "drop 128 b" and ?d' = "drop 128 b'"
  have l: "128 \<le> length b" using j(1) by simp
  have hd: "header_of b' = header_of b" using header_of_prefix[OF l _ head] l len by simp
  have n: "?n = unat (h_n_vectors (header_of b)) * 128" and hash: "h_hash (header_of b) = isa_hash ?d ?n"
    using ok l by (auto simp: stream_refusal_def ISA_VEC_BYTES_def Let_def split: if_splits)
  have word: "word_at (drop 128 c) i = ld32 (nth c) (128 + 4 * i)" if "128 + 4 * i + 4 \<le> length c" for c i
    unfolding word_at_def using that by (intro ld32_cong) (simp add: add.assoc)
  have "isa_hash ?d' ?n \<noteq> isa_hash ?d ?n"
  proof (rule hash_word_change[of _ j])
    show "?n mod 128 = 0" by (simp add: n)
    show "j < ?n div 4" using j(1) by simp
    show "word_at ?d' j \<noteq> word_at ?d j"
      using j len le32_ld32[of "128 + 4 * j" b] le32_ld32[of "128 + 4 * j" b'] by (auto simp: word)
    show "word_at ?d' q = word_at ?d q" if q: "q < ?n div 4" "q \<noteq> j" for q
    proof (cases "q < j")
      case True
      have "?d' ! (4 * q + k) = ?d ! (4 * q + k)" if "k < 4" for k
        using arg_cong[OF same(1), of "\<lambda>c. c ! (4 * q + k)"] that True by simp
      then show ?thesis unfolding word_at_def by (intro ld32_cong) simp
    next
      case False
      then have "4 * j + 4 \<le> 4 * q" using q(2) by simp
      then obtain r where r: "4 * q = 4 * j + 4 + r" using le_Suc_ex by blast
      have "?d' ! (4 * q + k) = ?d ! (4 * q + k)" if "k < 4" for k
        using arg_cong[OF same(2), of "\<lambda>c. c ! (r + k)"] that q len r by (simp add: add.assoc add.commute add.left_commute)
      then show ?thesis unfolding word_at_def by (intro ld32_cong) simp
    qed
  qed
  then show ?thesis
    using ok l len hash by (auto simp: stream_refusal_def hd Let_def split: if_splits)
qed

lemma damage_refused_witness:
  "\<exists>b b'. stream_refusal b 7 = None \<and> length b' = length b \<and> stream_refusal b' 7 = Some BadHash"
proof -
  let ?d = "replicate 128 (0 :: u8)" and ?d' = "1 # replicate 127 (0 :: u8)"
  let ?h = "\<lparr>h_magic = ISA_FILE_MAGIC_CORPUS, h_version = ISA_FILE_VERSION, h_id = 7, h_n_vectors = 1,
    h_bytes_per_vector = ISA_VEC_BYTES, h_arch = 79, h_hash = isa_hash ?d 128, h_source = 0,
    h_name = replicate 64 0, h_reserved = replicate 32 0\<rparr>"
  let ?b = "header_bytes ?h @ ?d" and ?b' = "header_bytes ?h @ ?d'"
  have wf: "wf_header ?h" by (simp add: wf_header_def ISA_FILE_MAGIC_CORPUS_def chars_def)
  have ok: "stream_refusal ?b 7 = None"
    unfolding stream_refusal_None by (intro exI[of _ ?h] exI[of _ ?d]) (simp add: wf)
  have len: "length (header_bytes ?h) = 128" by (rule header_bytes_length[OF wf])
  have d: "drop (Suc 131) ?b' = drop (Suc 131) ?b" "drop 128 ?b = ?d" "drop 128 ?b' = ?d'"
    using len by simp_all
  have "stream_refusal ?b' 7 = Some BadHash"
    by (rule damage_refused[OF ok, of _ 0]) (use len d in \<open>simp_all add: numeral_eq_Suc\<close>)
  then show ?thesis using ok len by (intro exI[of _ ?b] exI[of _ ?b']) simp
qed

end
