(* ===== verification/FloatBits.thy ===== *)
theory FloatBits
  imports SoftFloat
begin

text \<open>
  The bit patterns of the IEEE 754 formats of \<open>SoftFloat\<close>. A pattern without its sign bit is a number: the
  exponent field times the implicit bit, plus the fraction. A carry out of the fraction then moves to the next
  exponent, which is the fact that integer implementations of the rounding rely on (\<open>round_fp_code\<close>).
\<close>

text \<open>The exponent field of Inf and NaN.\<close>

definition top_exp :: "fmt \<Rightarrow> nat" where
  "top_exp f = nat (e_max f - e_min f) + 2"

definition decode :: "fmt \<Rightarrow> bool \<Rightarrow> nat \<Rightarrow> fp" where
  "decode f s c = (let E = c div 2 ^ (prec f - 1); M = c mod 2 ^ (prec f - 1) in
     if E = top_exp f then (if M = 0 then Inf s else NaN)
     else if E = 0 then Fin s M (e_min f)
     else Fin s (M + 2 ^ (prec f - 1)) (e_min f + int E - 1))"

text \<open>The sign and the pattern of a value. A NaN gives the quiet NaN without a payload.\<close>

definition encode :: "fmt \<Rightarrow> fp \<Rightarrow> bool \<times> nat" where
  "encode f x = (case x of
     Fin s m e \<Rightarrow> (s, if m < 2 ^ (prec f - 1) then m else nat (e - e_min f) * 2 ^ (prec f - 1) + m)
   | Inf s \<Rightarrow> (s, top_exp f * 2 ^ (prec f - 1))
   | NaN \<Rightarrow> (False, top_exp f * 2 ^ (prec f - 1) + 2 ^ (prec f - 2)))"

definition f32_of :: "u32 \<Rightarrow> fp" where
  "f32_of w = decode F32 (2 ^ 31 \<le> unat w) (unat w mod 2 ^ 31)"

definition f16_of :: "u16 \<Rightarrow> fp" where
  "f16_of w = decode F16 (2 ^ 15 \<le> unat w) (unat w mod 2 ^ 15)"

lemma div_mod_code: "M < 2 ^ k \<Longrightarrow> (E * 2 ^ k + M) div 2 ^ k = E \<and> (E * 2 ^ k + M) mod 2 ^ k = (M::nat)"
  by simp

lemma prec_halves:
  assumes "good_fmt f"
  shows "(2::nat) ^ prec f = 2 * 2 ^ (prec f - 1)" "(2::nat) ^ prec f div 2 = 2 ^ (prec f - 1)"
    "(2::nat) ^ (prec f - 1) < 2 ^ prec f"
  using assms by (cases "prec f"; simp add: good_fmt_def)+

text \<open>A significand of at most \<open>prec\<close> bits, or the carry \<open>2 ^ prec\<close> of the rounding, added to its exponent.\<close>

lemma decode_carry:
  assumes f: "good_fmt f" and q: "q \<le> 2 ^ prec f" and E: "int E \<le> e_max f - e_min f"
    and n: "E = 0 \<or> 2 ^ (prec f - 1) \<le> q"
  shows "decode f s (E * 2 ^ (prec f - 1) + q) =
    (let (q', E') = (if q = 2 ^ prec f then (q div 2, E + 1) else (q, E))
     in if int E' > e_max f - e_min f then Inf s else Fin s q' (e_min f + int E'))"
proof -
  let ?h = "(2::nat) ^ (prec f - 1)"
  note p = prec_halves[OF f]
  have K: "int (top_exp f) = e_max f - e_min f + 2" using f by (simp add: top_exp_def good_fmt_def)
  consider "q < ?h" | "?h \<le> q" "q < 2 * ?h" | "q = 2 * ?h" using q p(1) by linarith
  then show ?thesis
  proof cases
    case 1
    then show ?thesis using n K f p by (auto simp: decode_def Let_def good_fmt_def)
  next
    case 2
    then have "E * ?h + q = (E + 1) * ?h + (q - ?h)" "q - ?h < ?h" by (simp_all add: algebra_simps)
    from div_mod_code[OF this(2), of "E + 1", folded this(1)] 2 K E show ?thesis
      by (auto simp: decode_def Let_def p)
  next
    case 3
    then have "E * ?h + q = (E + 2) * ?h + 0" by (simp add: algebra_simps)
    moreover have "(0::nat) < ?h" by simp
    ultimately have "(E * ?h + q) div ?h = E + 2 \<and> (E * ?h + q) mod ?h = 0" using div_mod_code[of 0 "prec f - 1" "E + 2"] by simp
    then show ?thesis using 3 K E by (auto simp: decode_def Let_def p)
  qed
qed

text \<open>The rounded value as the pattern that the exponent and the rounded significand make.\<close>

lemma round_fp_code:
  assumes f: "good_fmt f" and m: "0 < m"
    and e1: "e1 = max (e_min f) (e + int (bit_length m) - int (prec f))" "e1 \<le> e_max f" "e \<le> e1"
  shows "round_fp f s m e = decode f s (nat (e1 - e_min f) * 2 ^ (prec f - 1) + shift_rne m (nat (e1 - e)))"
proof -
  define L q where "L = bit_length m" and "q = shift_rne m (nat (e1 - e))"
  have L: "2 ^ (L - 1) \<le> m" "m < 2 ^ L" "0 < L" using bit_length_bounds[OF m] unfolding L_def by auto
  have p: "1 < prec f" using f by (simp add: good_fmt_def)
  have "L \<le> prec f + nat (e1 - e)" using e1 by (simp add: L_def)
  then have "(2::nat) ^ L \<le> 2 ^ (prec f + nat (e1 - e))" by (rule power_increasing) simp
  then have "m \<le> 2 ^ prec f * 2 ^ nat (e1 - e)" using L(2) by (simp add: power_add)
  then have up: "q \<le> 2 ^ prec f" unfolding q_def by (rule shift_rne_le)
  have low: "nat (e1 - e_min f) = 0 \<or> 2 ^ (prec f - 1) \<le> q"
  proof (cases "e1 = e_min f")
    case False
    then have "L - 1 = prec f - 1 + nat (e1 - e)" using e1 p L(3) by (auto simp: L_def max_def split: if_splits)
    then have "2 ^ (prec f - 1) * 2 ^ nat (e1 - e) \<le> m" using L(1) by (simp add: power_add)
    then show ?thesis unfolding q_def by (intro disjI2 shift_rne_ge)
  qed simp
  have e0: "e_min f \<le> e1" by (simp add: e1)
  have r: "round_fp f s m e = (let (q', e2) = (if q = 2 ^ prec f then (q div 2, e1 + 1) else (q, e1))
      in if e2 > e_max f then Inf s else Fin s q' e2)"
    using m e1(3) unfolding round_fp_def e1(1)[symmetric] q_def by (simp only: Let_def if_True) simp
  have E: "int (nat (e1 - e_min f)) = e1 - e_min f" "int (nat (e1 - e_min f) + 1) = e1 - e_min f + 1" using e0 by simp_all
  have bound: "int (nat (e1 - e_min f)) \<le> e_max f - e_min f" using e1(2) E(1) by simp
  show ?thesis
    unfolding q_def[symmetric] r decode_carry[OF f up bound low]
    by (cases "q = 2 ^ prec f") (simp_all only: if_True if_False Let_def prod.case E, simp_all add: e0)
qed

subsection \<open>Rounding of numbers\<close>

lemma shift_rne_small: "m < 2 ^ (k - 1) \<Longrightarrow> 0 < k \<Longrightarrow> shift_rne m k = 0"
  by (cases k) (simp_all add: shift_rne_def)

lemma shift_rne_add: "0 < k \<Longrightarrow> shift_rne (z * 2 ^ (k + 1) + m) k = z * 2 + shift_rne m k"
proof -
  have "z * 2 ^ (k + 1) + m = 2 ^ k * (2 * z) + m" by simp
  then have "(z * 2 ^ (k + 1) + m) div 2 ^ k = 2 * z + m div 2 ^ k" "(z * 2 ^ (k + 1) + m) mod 2 ^ k = m mod 2 ^ k"
    by (simp_all only: div_mult_self4 mod_mult_self4 power_not_zero zero_neq_numeral not_False_eq_True)
  then show ?thesis by (simp add: shift_rne_def Let_def)
qed

text \<open>The rounding by an addition of half a unit less one, and the odd bit.\<close>

lemma add_half_rne:
  assumes k: "0 < k"
  shows "(n + (2 ^ (k - 1) - 1) + n div 2 ^ k mod 2) div 2 ^ k = shift_rne n k"
proof -
  define q r h :: nat where "q = n div 2 ^ k" and "r = n mod 2 ^ k" and "h = 2 ^ (k - 1)"
  have n: "n = q * 2 ^ k + r" unfolding q_def r_def by (rule div_mult_mod_eq[symmetric])
  have h: "(2::nat) ^ k = 2 * h" "0 < h" using k by (cases k; simp add: h_def)+
  have r: "r < 2 * h" unfolding h(1)[symmetric] r_def by simp
  have o: "q mod 2 \<le> 1" "odd q \<longleftrightarrow> q mod 2 = 1" by (simp_all add: odd_iff_mod_2_eq_one)
  have "(n + (h - 1) + q mod 2) div (2 * h) = q + (r + (h - 1) + q mod 2) div (2 * h)"
    using h(2) div_mult_self3[of "2 * h" q "r + (h - 1) + q mod 2"] unfolding n h(1) by (simp add: add.assoc)
  moreover have "(r + (h - 1) + q mod 2) div (2 * h) = (if 2 * r > 2 * h \<or> (2 * r = 2 * h \<and> odd q) then 1 else 0)"
  proof (cases "2 * r > 2 * h \<or> (2 * r = 2 * h \<and> odd q)")
    case True
    then have "2 * h \<le> r + (h - 1) + q mod 2" "r + (h - 1) + q mod 2 < 2 * (2 * h)" using h(2) o r by auto
    then have "(r + (h - 1) + q mod 2) div (2 * h) = 1" by (intro div_nat_eqI) simp_all
    then show ?thesis using True by simp
  next
    case False
    then have "r + (h - 1) + q mod 2 < 2 * h" using h(2) o by (cases "r = h") auto
    then show ?thesis using False by simp
  qed
  ultimately show ?thesis
    unfolding shift_rne_def Let_def q_def[symmetric] r_def[symmetric] h_def[symmetric] unfolding h(1) by simp
qed

lemma round_fp_overflow:
  assumes "good_fmt f" "0 < m" "e_max f < e + int (bit_length m) - int (prec f)"
  shows "round_fp f s m e = Inf s"
proof -
  have "e_min f \<le> e_max f" using assms(1) by (simp add: good_fmt_def)
  then have "e_max f < max (e_min f) (e + int (bit_length m) - int (prec f))" using assms(3) by simp
  then show ?thesis using assms(2) by (simp add: round_fp_def Let_def)
qed

lemma bit_length_hidden: "M < 2 ^ 23 \<Longrightarrow> bit_length (M + 2 ^ 23) = 24"
  by (rule bit_length_eq) simp_all

text \<open>The parts of an f32 pattern.\<close>

lemma decode_f32: "decode F32 s c = (if c div 2 ^ 23 = 255 then (if c mod 2 ^ 23 = 0 then Inf s else NaN)
    else if c div 2 ^ 23 = 0 then Fin s (c mod 2 ^ 23) (-149)
    else Fin s (c mod 2 ^ 23 + 2 ^ 23) (int (c div 2 ^ 23) - 150))"
  by (simp add: decode_def top_exp_def F32_def Let_def)

lemma f32_cases:
  fixes x :: u32
  defines "a \<equiv> unat x mod 2 ^ 31" and "s \<equiv> 2 ^ 31 \<le> unat x"
  obtains (nan) "0x7f800000 < a" "f32_of x = NaN"
  | (inf) "a = 0x7f800000" "f32_of x = Inf s"
  | (normal) E M where "a = E * 2 ^ 23 + M" "0 < E" "E < 255" "M < 2 ^ 23" "f32_of x = Fin s (M + 2 ^ 23) (int E - 150)"
  | (subnormal) "a < 2 ^ 23" "f32_of x = Fin s a (-149)"
proof -
  define E M where "E = a div 2 ^ 23" and "M = a mod 2 ^ 23"
  have a: "a = E * 2 ^ 23 + M" "M < 2 ^ 23" unfolding E_def M_def by simp_all
  have "a < 2 ^ 31" unfolding a_def by simp
  then have E: "E \<le> 255" using a by simp
  have dec: "f32_of x = (if E = 255 then (if M = 0 then Inf s else NaN) else if E = 0 then Fin s M (-149)
      else Fin s (M + 2 ^ 23) (int E - 150))"
    unfolding f32_of_def decode_f32 a_def[symmetric] s_def[symmetric] E_def[symmetric] M_def[symmetric] ..
  consider "E = 255" "M \<noteq> 0" | "E = 255" "M = 0" | "0 < E" "E < 255" | "E = 0" using E by linarith
  then show thesis
  proof cases
    case 1
    have "0x7f800000 < a" unfolding a(1) using 1 by simp
    then show thesis using 1 dec by (intro nan) simp_all
  next
    case 2
    have "a = 0x7f800000" unfolding a(1) using 2 by simp
    then show thesis using 2 dec by (intro inf) simp_all
  next
    case 3
    then show thesis using a dec by (intro normal[of E M]) simp_all
  next
    case 4
    have "a = M" unfolding a(1) using 4 by simp
    then show thesis using 4 a(2) dec by (intro subnormal) simp_all
  qed
qed

lemma decode_f16: "decode F16 s c = (if c div 2 ^ 10 = 31 then (if c mod 2 ^ 10 = 0 then Inf s else NaN)
    else if c div 2 ^ 10 = 0 then Fin s (c mod 2 ^ 10) (-24)
    else Fin s (c mod 2 ^ 10 + 2 ^ 10) (int (c div 2 ^ 10) - 25))"
  by (simp add: decode_def top_exp_def F16_def Let_def)

lemma f16_cases:
  fixes x :: u16
  defines "a \<equiv> unat x mod 2 ^ 15" and "s \<equiv> 2 ^ 15 \<le> unat x"
  obtains (nan) M where "a = 31 * 2 ^ 10 + M" "0 < M" "M < 2 ^ 10" "f16_of x = NaN"
  | (inf) "a = 31 * 2 ^ 10" "f16_of x = Inf s"
  | (normal) E M where "a = E * 2 ^ 10 + M" "0 < E" "E < 31" "M < 2 ^ 10" "f16_of x = Fin s (M + 2 ^ 10) (int E - 25)"
  | (subnormal) "a < 2 ^ 10" "f16_of x = Fin s a (-24)"
proof -
  define E M where "E = a div 2 ^ 10" and "M = a mod 2 ^ 10"
  have a: "a = E * 2 ^ 10 + M" "M < 2 ^ 10" unfolding E_def M_def by simp_all
  have "a < 2 ^ 15" unfolding a_def by simp
  then have E: "E \<le> 31" using a by simp
  have dec: "f16_of x = (if E = 31 then (if M = 0 then Inf s else NaN) else if E = 0 then Fin s M (-24)
      else Fin s (M + 2 ^ 10) (int E - 25))"
    unfolding f16_of_def decode_f16 a_def[symmetric] s_def[symmetric] E_def[symmetric] M_def[symmetric] ..
  consider "E = 31" "M \<noteq> 0" | "E = 31" "M = 0" | "0 < E" "E < 31" | "E = 0" using E by linarith
  then show thesis
  proof cases
    case 1
    have "a = 31 * 2 ^ 10 + M" unfolding a(1) using 1 by simp
    then show thesis using 1 a(2) dec by (intro nan[of M]) simp_all
  next
    case 2
    have "a = 31 * 2 ^ 10" unfolding a(1) using 2 by simp
    then show thesis using 2 dec by (intro inf) simp_all
  next
    case 3
    then show thesis using a dec by (intro normal[of E M]) simp_all
  next
    case 4
    have "a = M" unfolding a(1) using 4 by simp
    then show thesis using 4 a(2) dec by (intro subnormal) simp_all
  qed
qed

text \<open>The fields of an f32 pattern as the routines extract them.\<close>

lemma f32_fields:
  "f32_of x = (let E = unat x div 2 ^ 23 mod 2 ^ 8; M = unat x mod 2 ^ 23; s = (2 ^ 31 \<le> unat x) in
     if E = 255 then (if M = 0 then Inf s else NaN)
     else if E = 0 then Fin s M (-149) else Fin s (M + 2 ^ 23) (int E - 150))"
proof -
  have "unat x mod 2 ^ 31 div 2 ^ 23 = unat x div 2 ^ 23 mod 2 ^ 8" "unat x mod 2 ^ 31 mod 2 ^ 23 = unat x mod 2 ^ 23"
    using mod_mult2_eq[of "unat x" "2 ^ 23" "2 ^ 8"] by (simp_all add: mod_mod_cancel)
  then show ?thesis unfolding f32_of_def decode_f32 Let_def by (simp only:)
qed

lemma normalise: "0 < em \<Longrightarrow> bit_length em \<le> k \<Longrightarrow> 2 ^ (k - 1) \<le> em * 2 ^ (k - bit_length em) \<and> em * 2 ^ (k - bit_length em) < 2 ^ k"
proof -
  assume em: "0 < em" and L: "bit_length em \<le> k"
  have b: "2 ^ (bit_length em - 1) \<le> em" "em < 2 ^ bit_length em" "0 < bit_length em" using bit_length_bounds[OF em] by auto
  have "(2::nat) ^ (k - 1) = 2 ^ (bit_length em - 1) * 2 ^ (k - bit_length em)" "(2::nat) ^ k = 2 ^ bit_length em * 2 ^ (k - bit_length em)"
    using L b(3) by (simp_all add: power_add[symmetric])
  then show ?thesis using b by simp
qed

lemma f32_of_signed: "c < 2 ^ 31 \<Longrightarrow> unat w = c + (if b then 2 ^ 31 else 0) \<Longrightarrow> f32_of w = decode F32 b c"
  by (auto simp: f32_of_def)

lemma f16_of_signed: "c < 2 ^ 15 \<Longrightarrow> unat w = c + (if b then 2 ^ 15 else 0) \<Longrightarrow> f16_of (ucast (w :: u32)) = decode F16 b c"
  by (auto simp: f16_of_def unsigned_ucast_eq take_bit_eq_mod)

end
