(* ===== verification/FloatJam.thy ===== *)
theory FloatJam
  imports FloatBits
begin

text \<open>
  Rounding with a sticky bit: a significand that is shifted right keeps in its lowest bit that a one was dropped. When
  it still has two bits more than the format, it rounds as the full significand, and sums and
  differences of jammed significands are the jammed sums and differences.
\<close>

subsection \<open>Rounding with a sticky bit\<close>

text \<open>\<open>jam m d\<close> is \<open>m / 2 ^ d\<close> with the lowest bit set when a one is dropped.\<close>

definition jam :: "nat \<Rightarrow> nat \<Rightarrow> nat" where
  "jam m d = (let q = m div 2 ^ d in if q * 2 ^ d = m then q else 2 * (q div 2) + 1)"

lemma shift_rne_scale: "shift_rne (m * 2 ^ j) (k + j) = shift_rne m k"
proof -
  have p: "(2::nat) ^ (k + j) = 2 ^ k * 2 ^ j" by (simp add: power_add)
  have c: "(2::nat) * (m mod 2 ^ k * 2 ^ j) > 2 ^ k * 2 ^ j \<longleftrightarrow> 2 * (m mod 2 ^ k) > 2 ^ k"
    "(2::nat) * (m mod 2 ^ k * 2 ^ j) = 2 ^ k * 2 ^ j \<longleftrightarrow> 2 * (m mod 2 ^ k) = 2 ^ k"
    by (simp_all only: mult.assoc[symmetric] mult_less_cancel2 mult_right_cancel) simp_all
  have d: "m * 2 ^ j div 2 ^ (k + j) = m div 2 ^ k" "m * 2 ^ j mod 2 ^ (k + j) = m mod 2 ^ k * 2 ^ j"
    unfolding p by (simp_all add: mod_mult_mult2)
  show ?thesis unfolding shift_rne_def Let_def d unfolding p c ..
qed

lemma shift_rne_jam:
  assumes k: "2 \<le> k"
  shows "shift_rne (jam m d) k = shift_rne m (k + d)"
proof -
  define q r where "q = m div 2 ^ d" and "r = m mod 2 ^ d"
  have m: "m = q * 2 ^ d + r" "r < 2 ^ d" unfolding q_def r_def by (simp_all add: div_mult_mod_eq)
  show ?thesis
  proof (cases "r = 0")
    case True
    then have "jam m d = q" "m = q * 2 ^ d" using m by (simp_all add: jam_def q_def[symmetric] Let_def)
    then show ?thesis by (simp add: shift_rne_scale)
  next
    case False
    then have J: "jam m d = 2 * (q div 2) + 1" using m by (simp add: jam_def q_def[symmetric] Let_def)
    obtain h where h: "(2::nat) ^ k = 4 * h" "0 < h" using k by (cases k; cases "k - 1") auto
    define Q v where "Q = q div 2 ^ k" and "v = q mod 2 ^ k"
    have q: "q = Q * (4 * h) + v" "v < 4 * h" unfolding Q_def v_def h(1)[symmetric] using h by (simp_all add: div_mult_mod_eq)
    have half: "q div 2 = Q * (2 * h) + v div 2" using div_mult_self3[of 2 "Q * (2 * h)" v] unfolding q(1) by (simp add: mult.assoc mult.left_commute)
    define R where "R = 2 * (v div 2) + 1"
    have R: "R < 4 * h" "R = v \<or> R = v + 1" "odd R" using q(2) unfolding R_def by presburger+
    have JR: "jam m d = Q * (4 * h) + R" unfolding J half R_def by simp
    then have JQ: "jam m d div 2 ^ k = Q" "jam m d mod 2 ^ k = R" using R(1) unfolding h(1) by simp_all
    have p: "(2::nat) ^ (k + d) = 4 * h * 2 ^ d" by (simp add: power_add h(1))
    have mm: "m = Q * (4 * h * 2 ^ d) + (v * 2 ^ d + r)" unfolding m(1) q(1) by (simp add: algebra_simps)
    have lt: "v * 2 ^ d + r < 4 * h * 2 ^ d"
    proof -
      have "v * 2 ^ d + r < (v + 1) * 2 ^ d" using m(2) by simp
      also have "\<dots> \<le> 4 * h * 2 ^ d" using q(2) by (intro mult_le_mono1) simp
      finally show ?thesis .
    qed
    have mQ: "m div 2 ^ (k + d) = Q" "m mod 2 ^ (k + d) = v * 2 ^ d + r" using lt h(2) unfolding mm p by simp_all
    have cmp: "2 * (v * 2 ^ d + r) > 4 * h * 2 ^ d \<longleftrightarrow> 2 * h \<le> v" "2 * (v * 2 ^ d + r) \<noteq> 4 * h * 2 ^ d"
    proof -
      define X where "X = h * 2 ^ d"
      have X: "4 * h * 2 ^ d = 4 * X" by (simp add: X_def)
      have "(2 * (v * 2 ^ d + r) > 4 * X \<longleftrightarrow> 2 * h \<le> v) \<and> 2 * (v * 2 ^ d + r) \<noteq> 4 * X"
      proof (cases "2 * h \<le> v")
        case True
        then have "2 * X \<le> v * 2 ^ d" using mult_le_mono1[OF True, of "2 ^ d"] by (simp add: X_def)
        then show ?thesis using True False by simp
      next
        case c: False
        then have "v * 2 ^ d + 2 ^ d \<le> 2 * X" using mult_le_mono1[of "v + 1" "2 * h" "2 ^ d"] by (simp add: X_def)
        then have "v * 2 ^ d + r < 2 * X" using m(2) by simp
        then have "2 * (v * 2 ^ d + r) < 4 * X" by simp
        then show ?thesis using c by simp
      qed
      then show "2 * (v * 2 ^ d + r) > 4 * h * 2 ^ d \<longleftrightarrow> 2 * h \<le> v" "2 * (v * 2 ^ d + r) \<noteq> 4 * h * 2 ^ d"
        unfolding X by blast+
    qed
    have "2 * R > 4 * h \<longleftrightarrow> 2 * h \<le> v" "2 * R \<noteq> 4 * h" using R(2,3) by (auto, presburger+)
    then show ?thesis unfolding shift_rne_def Let_def JQ mQ unfolding h(1) p using cmp by simp
  qed
qed

lemma bit_length_jam: "2 ^ d \<le> m \<Longrightarrow> 2 \<le> m div 2 ^ d \<or> jam m d * 2 ^ d = m \<Longrightarrow> bit_length (jam m d) + d = bit_length m"
proof -
  assume m: "2 ^ d \<le> m" and big: "2 \<le> m div 2 ^ d \<or> jam m d * 2 ^ d = m"
  show ?thesis
  proof (cases "jam m d * 2 ^ d = m")
    case True
    have "0 < m" using m by (rule less_le_trans[rotated]) simp
    then have "0 < jam m d" using True by (cases "jam m d") auto
    then show ?thesis using bit_length_shift[of "jam m d" d] True by simp
  next
    case False
    define q where "q = m div 2 ^ d"
    have q: "2 \<le> q" using big False by (simp add: q_def)
    have J: "jam m d = 2 * (q div 2) + 1" using False by (auto simp: jam_def q_def[symmetric] Let_def)
    define n where "n = bit_length (q div 2)"
    have n: "2 ^ (n - 1) \<le> q div 2" "q div 2 < 2 ^ n" "0 < n"
      using bit_length_bounds[of "q div 2"] q by (simp_all add: n_def)
    have n2: "(2::nat) ^ n = 2 * 2 ^ (n - 1)" using n(3) by (cases n) simp_all
    have bJ: "bit_length (jam m d) = Suc n" unfolding J using n n2 by (intro bit_length_eq) simp_all
    have "m < (q + 1) * 2 ^ d" "q * 2 ^ d \<le> m" unfolding q_def by (simp_all add: dividend_less_div_times)
    moreover have "2 * (q div 2) \<le> q" "q < 2 * (q div 2) + 2" by presburger+
    then have "2 ^ n \<le> q" "q + 1 \<le> 2 ^ Suc n" using n n2 unfolding power_Suc by linarith+
    then have "2 ^ n * 2 ^ d \<le> q * 2 ^ d" "(q + 1) * 2 ^ d \<le> 2 ^ Suc n * 2 ^ d" using mult_le_mono1 by blast+
    ultimately have "2 ^ n * 2 ^ d \<le> m" "m < 2 ^ Suc n * 2 ^ d" by linarith+
    then have "bit_length m = Suc n + d" by (intro bit_length_eq) (simp_all add: power_add)
    then show ?thesis by (simp add: bJ)
  qed
qed

lemma round_fp_scale:
  assumes "0 < m"
  shows "round_fp f s (m * 2 ^ k) (e - int k) = round_fp f s m e"
proof -
  define e1 where "e1 = max (e_min f) (e + int (bit_length m) - int (prec f))"
  have e1: "max (e_min f) (e - int k + int (bit_length (m * 2 ^ k)) - int (prec f)) = e1"
    using assms by (simp add: bit_length_shift e1_def)
  have q: "(if e1 \<ge> e - int k then shift_rne (m * 2 ^ k) (nat (e1 - (e - int k))) else m * 2 ^ k * 2 ^ nat (e - int k - e1))
      = (if e1 \<ge> e then shift_rne m (nat (e1 - e)) else m * 2 ^ nat (e - e1))"
  proof (cases "e1 \<ge> e")
    case True
    then have "nat (e1 - (e - int k)) = nat (e1 - e) + k" by simp
    then show ?thesis using True by (simp add: shift_rne_scale)
  next
    case c: False
    show ?thesis
    proof (cases "e1 \<ge> e - int k")
      case True
      have "k = nat (e - e1) + nat (e1 - (e - int k))" using True c by simp
      then have "m * 2 ^ k = m * 2 ^ nat (e - e1) * 2 ^ nat (e1 - (e - int k))" by (metis mult.assoc power_add)
      then have "shift_rne (m * 2 ^ k) (nat (e1 - (e - int k))) = m * 2 ^ nat (e - e1)" by (simp only: shift_rne_exact)
      then show ?thesis using True c by simp
    next
      case False
      then have "nat (e - e1) = k + nat (e - int k - e1)" by simp
      then show ?thesis using False c by (simp add: power_add mult.assoc)
    qed
  qed
  show ?thesis using assms unfolding round_fp_def e1 e1_def[symmetric] Let_def q by simp
qed

text \<open>A jammed significand of at least two more bits than the format rounds as the full one.\<close>

lemma round_fp_jam:
  assumes m: "2 ^ d \<le> m" and L: "jam m d * 2 ^ d = m \<or> prec f + 2 \<le> bit_length (jam m d)" and f: "good_fmt f"
  shows "round_fp f s m (e - int d) = round_fp f s (jam m d) e"
proof (cases "jam m d * 2 ^ d = m")
  case True
  have "0 < m" using m by (rule less_le_trans[rotated]) simp
  then have "0 < jam m d" using True by (cases "jam m d") auto
  then show ?thesis using round_fp_scale[of "jam m d" f s d e] True by simp
next
  case False
  then have p: "prec f + 2 \<le> bit_length (jam m d)" using L by simp
  have big: "2 \<le> m div 2 ^ d"
  proof (rule ccontr)
    assume "\<not> 2 \<le> m div 2 ^ d"
    then have "jam m d \<le> 1" by (auto simp: jam_def Let_def)
    then have "bit_length (jam m d) \<le> 1" by (intro bit_length_le) simp
    then show False using p by simp
  qed
  have bl: "bit_length (jam m d) + d = bit_length m" using bit_length_jam[OF m] big by blast
  define e1 where "e1 = max (e_min f) (e + int (bit_length (jam m d)) - int (prec f))"
  have e1: "max (e_min f) (e - int d + int (bit_length m) - int (prec f)) = e1" using bl by (simp add: e1_def)
  have k: "2 \<le> nat (e1 - e)" "nat (e1 - (e - int d)) = nat (e1 - e) + d" "e \<le> e1" "e - int d \<le> e1" using p by (simp_all add: e1_def)
  have "shift_rne m (nat (e1 - (e - int d))) = shift_rne (jam m d) (nat (e1 - e))" unfolding k(2) using shift_rne_jam[OF k(1)] by simp
  moreover have "0 < m" using m by (rule less_le_trans[rotated]) simp
  moreover have "0 < jam m d" using p bit_length_0 by (cases "jam m d") auto
  ultimately show ?thesis using k unfolding round_fp_def e1 e1_def[symmetric] Let_def by simp
qed

subsection \<open>Jammed operands\<close>

lemma jam_half: "jam m 1 = m div 2 + (if odd m \<and> even (m div 2) then 1 else 0)"
  by (auto simp: jam_def Let_def elim!: oddE evenE)

lemma jam_add:
  assumes "even a"
  shows "a + jam b d = jam (a * 2 ^ d + b) d"
proof -
  have q: "(a * 2 ^ d + b) div 2 ^ d = a + b div 2 ^ d" by simp
  have x: "(a + b div 2 ^ d) * 2 ^ d = a * 2 ^ d + b \<longleftrightarrow> b div 2 ^ d * 2 ^ d = b" by (simp add: algebra_simps)
  have "2 * ((a + b div 2 ^ d) div 2) = a + 2 * (b div 2 ^ d div 2)" using assms by (elim evenE) simp
  then show ?thesis unfolding jam_def Let_def q x by simp
qed

lemma jam_sub:
  assumes a: "even a" and b: "b \<le> a * 2 ^ d"
  shows "a - jam b d = jam (a * 2 ^ d - b) d" "jam b d \<le> a"
proof -
  define q r where "q = b div 2 ^ d" and "r = b mod 2 ^ d"
  have m: "b = q * 2 ^ d + r" "r < 2 ^ d" unfolding q_def r_def by (simp_all add: div_mult_mod_eq)
  have qa: "q \<le> a" using b unfolding q_def by (metis div_le_mono nonzero_mult_div_cancel_right power_not_zero zero_neq_numeral)
  have "a - jam b d = jam (a * 2 ^ d - b) d \<and> jam b d \<le> a"
  proof (cases "r = 0")
    case True
    then have "jam b d = q" using m by (simp add: jam_def q_def[symmetric] Let_def)
    moreover have "a * 2 ^ d - b = (a - q) * 2 ^ d" using True m by (simp add: diff_mult_distrib)
    then have "jam (a * 2 ^ d - b) d = a - q" by (simp add: jam_def Let_def)
    ultimately show ?thesis using qa by simp
  next
    case False
    have "q < a"
    proof (rule ccontr)
      assume "\<not> q < a"
      then have "a * 2 ^ d \<le> q * 2 ^ d" by (intro mult_le_mono1) simp
      then show False using b m(1) False by linarith
    qed
    then obtain z where z: "a = q + 1 + z" using less_natE by (metis Suc_eq_plus1 add_Suc less_iff_Suc_add)
    have J: "jam b d = 2 * (q div 2) + 1" using False m by (simp add: jam_def q_def[symmetric] Let_def)
    have v: "a * 2 ^ d - b = z * 2 ^ d + (2 ^ d - r)" unfolding z m(1) using m(2) by (simp add: algebra_simps)
    have "(z * 2 ^ d + (2 ^ d - r)) div 2 ^ d = z" using False by (subst div_mult_self3) simp_all
    then have "jam (a * 2 ^ d - b) d = 2 * (z div 2) + 1"
      unfolding v jam_def Let_def using False m(2) by simp
    moreover have "q + 1 + z - (2 * (q div 2) + 1) = 2 * (z div 2) + 1" "2 * (q div 2) + 1 \<le> q + 1 + z"
      using a unfolding z by presburger+
    ultimately show ?thesis using J z by simp
  qed
  then show "a - jam b d = jam (a * 2 ^ d - b) d" "jam b d \<le> a" by blast+
qed

lemma jam_cap: "b < 2 ^ 31 \<Longrightarrow> jam b (min d 31) = jam b d"
proof (cases "d \<le> 31")
  case False
  assume b: "b < 2 ^ 31"
  have "(2::nat) ^ 31 \<le> 2 ^ d" using False by (intro power_increasing) simp_all
  then have "b div 2 ^ d = 0" "b div 2 ^ 31 = 0" using b by simp_all
  then show ?thesis using False unfolding jam_def Let_def by (simp add: min_def)
qed simp

lemma jam_le: "b < 2 ^ k \<Longrightarrow> d \<le> k \<Longrightarrow> jam b d \<le> 2 ^ (k - d)"
proof -
  assume b: "b < 2 ^ k" and d: "d \<le> k"
  have "(2::nat) ^ k = 2 ^ (k - d) * 2 ^ d" using d by (simp add: power_add[symmetric])
  then have q: "b div 2 ^ d < 2 ^ (k - d)" using b by (simp add: less_mult_imp_div_less)
  have "2 * (b div 2 ^ d div 2) + 1 \<le> b div 2 ^ d + 1" by simp
  then show ?thesis using q unfolding jam_def Let_def by (auto simp del: div_mult2_eq)
qed

lemma jam_exact: "jam (m * 2 ^ d) d = m"
  by (simp add: jam_def Let_def)

lemma jam_small_shift: "D \<le> 7 \<Longrightarrow> jam (q * 2 ^ 7) D * 2 ^ D = q * 2 ^ 7"
proof -
  assume "D \<le> 7"
  then have "q * 2 ^ 7 = q * 2 ^ (7 - D) * 2 ^ D" by (simp add: power_add[symmetric] mult.assoc)
  then show ?thesis by (metis jam_exact)
qed


end
