(* ===== verification/HvxLanes.thy ===== *)
theory HvxLanes
  imports FloatBits
begin

text \<open>
  The word lanes of the HVX vectors, for the integer routines of \<open>tools/htp-lab/isa/isa_kernels.c\<close>. Each of these
  routines works on the 32 word lanes of a vector independently, so a routine is modelled as the function of one lane.

  The lane operations are those of the HVX word instructions (\<open>vadd\<close> is \<open>+\<close>, \<open>vand\<close> is \<open>AND\<close>, and so on). A
  variable shift by 0 to 31 is a shift. The value of another count is an argument of the model (\<open>lane_shift\<close>):
  the routines select such a lane away, and the theorems hold for every value.
\<close>

record lane_shift =
  lsr_out :: "u32 \<Rightarrow> u32 \<Rightarrow> u32"
  asl_out :: "u32 \<Rightarrow> u32 \<Rightarrow> u32"

definition vlsr :: "lane_shift \<Rightarrow> u32 \<Rightarrow> u32 \<Rightarrow> u32" where
  "vlsr sh x n = (if unat n < 32 then drop_bit (unat n) x else lsr_out sh x n)"

definition vasl :: "lane_shift \<Rightarrow> u32 \<Rightarrow> u32 \<Rightarrow> u32" where
  "vasl sh x n = (if unat n < 32 then push_bit (unat n) x else asl_out sh x n)"

definition vw_gt :: "u32 \<Rightarrow> u32 \<Rightarrow> bool" where "vw_gt a b \<longleftrightarrow> sint b < sint a"
definition vuw_gt :: "u32 \<Rightarrow> u32 \<Rightarrow> bool" where "vuw_gt a b \<longleftrightarrow> unat b < unat a"
definition vw_min :: "u32 \<Rightarrow> u32 \<Rightarrow> u32" where "vw_min a b = (if sint a < sint b then a else b)"
definition vmux :: "bool \<Rightarrow> u32 \<Rightarrow> u32 \<Rightarrow> u32" where "vmux q a b = (if q then a else b)"
definition condacc :: "bool \<Rightarrow> u32 \<Rightarrow> u32 \<Rightarrow> u32" where "condacc q x y = (if q then x + y else x)"
definition vcl0 :: "u32 \<Rightarrow> u32" where "vcl0 x = of_nat (32 - bit_length (unat x))"

subsection \<open>Lanes as numbers\<close>

lemma unat_push: "unat (push_bit k (x :: u32)) = unat x * 2 ^ k mod 2 ^ 32"
  unfolding unsigned_push_bit_eq by (simp add: take_bit_eq_mod push_bit_eq_mult)

lemma unat_drop: "unat (drop_bit k (x :: u32)) = unat x div 2 ^ k"
  unfolding unat_drop_bit_eq by (rule drop_bit_eq_div)

lemma unat_mask: "unat ((x :: u32) AND mask k) = unat x mod 2 ^ k"
  by (simp add: unsigned_take_bit_eq flip: take_bit_eq_mask take_bit_eq_mod)

lemma lane_masks:
  "unat ((x :: u32) AND 0x7fffffff) = unat x mod 2 ^ 31" "unat (x AND 0x007fffff) = unat x mod 2 ^ 23"
  "unat (x AND 0x7fff) = unat x mod 2 ^ 15" "unat (x AND 0xff) = unat x mod 2 ^ 8" "unat (x AND 1) = unat x mod 2"
  using unat_mask[of x 31] unat_mask[of x 23] unat_mask[of x 15] unat_mask[of x 8] unat_mask[of x 1]
  by (simp_all add: mask_eq_exp_minus_1)

lemma bit_less: "n < 2 ^ k \<Longrightarrow> bit (n :: nat) i \<Longrightarrow> i < k"
  by (metis bit_take_bit_iff take_bit_nat_eq_self_iff)

lemma bit_shifted: "bit (z * 2 ^ k :: nat) i \<Longrightarrow> k \<le> i"
  by (metis bit_push_bit_iff push_bit_eq_mult)

lemma or_nat_add: "x < 2 ^ k \<Longrightarrow> x OR (z * 2 ^ k) = x + z * (2 ^ k :: nat)"
  by (rule disjunctive_add_eq_or[symmetric], rule bit_eqI) (metis bit_0_eq bit_and_iff bit_less bit_shifted bot_apply bot_bool_def not_le)

lemma unat_or_add: "unat (x :: u32) < 2 ^ k \<Longrightarrow> 2 ^ k dvd unat y \<Longrightarrow> unat (x OR y) = unat x + unat y"
  unfolding unsigned_or_eq by (elim dvdE) (simp add: or_nat_add mult.commute[of "2 ^ k"])

lemma hidden_one: "unat (((x :: u32) AND 0x007fffff) OR 0x00800000) = unat x mod 2 ^ 23 + 2 ^ 23"
  using unat_or_add[of "x AND 0x007fffff" 23 "0x00800000"] by (simp add: lane_masks)

lemma sint_small: "unat (x :: u32) < 2 ^ 31 \<Longrightarrow> sint x = int (unat x)"
proof -
  assume "unat x < 2 ^ 31"
  then have "unat x < 2147483648" by simp
  moreover have "uint x = int (unat x)" by simp
  ultimately have "uint x < 2147483648" by linarith
  then show ?thesis using signed_take_bit_int_eq_self[of 31 "uint x"] order_trans[of "- (2 ^ 31)" 0 "uint x"] by (simp add: sint_uint)
qed

lemma sint_big: "2 ^ 31 \<le> unat (x :: u32) \<Longrightarrow> sint x = int (unat x) - 2 ^ 32"
proof -
  assume x: "2 ^ 31 \<le> unat x"
  have "unat x < 4294967296" "2147483648 \<le> unat x" using unat_lt2p[of x] x by simp_all
  moreover have u: "uint x = int (unat x)" by simp
  ultimately have "\<not> uint x < 2147483648" "uint x < 4294967296" by linarith+
  moreover have "(uint x + 2147483648) mod 4294967296 = (uint x - 2147483648 + 4294967296) mod 4294967296" by (rule arg_cong) simp
  moreover have "(uint x - 2147483648 + 4294967296) mod 4294967296 = (uint x - 2147483648) mod 4294967296" by (rule mod_add_self2)
  ultimately show ?thesis
    by (simp add: sint_uint signed_take_bit_eq_take_bit_shift take_bit_eq_mod)
qed

lemma vw_gt_small: "unat a < 2 ^ 31 \<Longrightarrow> unat b < 2 ^ 31 \<Longrightarrow> vw_gt a b \<longleftrightarrow> unat b < unat a"
  unfolding vw_gt_def by (simp only: sint_small of_nat_less_iff)

lemma vw_min_small: "unat a < 2 ^ 31 \<Longrightarrow> unat b < 2 ^ 31 \<Longrightarrow> unat (vw_min a b) = min (unat a) (unat b)"
  unfolding vw_min_def by (simp only: sint_small of_nat_less_iff) auto

lemma unat_sub_small: "unat b \<le> unat a \<Longrightarrow> unat (a - b :: u32) = unat a - unat b"
  by (simp add: unat_sub_if')

text \<open>A word with its sign bit.\<close>

lemma sign_bit: "unat ((x :: u32) AND 0x80000000) = (if 2 ^ 31 \<le> unat x then 2 ^ 31 else 0)"
proof -
  have "x AND 0x80000000 = push_bit 31 (drop_bit 31 x AND 1)"
  proof -
    have "(0x80000000 :: u32) = push_bit 31 1" by simp
    then show ?thesis
      apply (simp only:)
      apply (rule bit_word_eqI)
      apply (simp only: bit_and_iff bit_push_bit_iff bit_drop_bit_eq bit_1_iff)
      subgoal for n by (cases "n = 31") auto
      done
  qed
  moreover have "unat x div 2 ^ 31 < 2" using unat_lt2p[of x] by (simp add: div_less_iff_less_mult)
  ultimately have u: "unat (x AND 0x80000000) = (unat x div 2 ^ 31 mod 2) * 2 ^ 31 mod 2 ^ 32" "unat x div 2 ^ 31 = 0 \<or> unat x div 2 ^ 31 = 1"
    by (simp_all only: unat_push unat_drop lane_masks less_2_cases_iff One_nat_def)
  show ?thesis
  proof (cases "2 ^ 31 \<le> unat x")
    case True
    then have "unat x div 2 ^ 31 \<noteq> 0" by (simp add: div_eq_0_iff)
    then show ?thesis using u True by simp
  qed (use u in \<open>simp add: not_le\<close>)
qed

lemma unat_or_sign: "unat (r :: u32) < 2 ^ 31 \<Longrightarrow> unat s = (if b then 2 ^ 31 else 0) \<Longrightarrow>
    unat (r OR s) = unat r + (if b then 2 ^ 31 else 0)"
  using unat_or_add[of r 31 s] by auto

text \<open>The rounding step of the routines: \<open>q\<close> is the quotient, and \<open>rest\<close> holds the dropped bits at the top of the word.\<close>

lemma rne_step:
  assumes q: "unat q = m div 2 ^ k" "unat q < 2 ^ 31" and rest: "unat rest = (m mod 2 ^ k) * 2 ^ (32 - k)"
    and k: "0 < k" "k < 32"
  shows "unat (condacc (vuw_gt (rest OR (q AND 1)) 0x80000000) q 1) = shift_rne m k"
proof -
  define r where "r = m mod 2 ^ k"
  have two: "(2::nat) ^ (32 - k) = 2 * 2 ^ (31 - k)" using k by (simp add: power_Suc[symmetric] Suc_diff_le del: power_Suc)
  have even: "2 ^ 1 dvd unat rest" unfolding rest two by simp
  have "unat ((q AND 1) OR rest) = unat (q AND 1) + unat rest" by (rule unat_or_add[OF _ even]) (simp add: lane_masks)
  then have sum: "unat (rest OR (q AND 1)) = unat q mod 2 + 2 * (r * 2 ^ (31 - k))"
    by (simp add: or.commute lane_masks rest two r_def)
  have half: "(2::nat) ^ 31 = 2 ^ k * 2 ^ (31 - k)" using k by (simp add: power_add[symmetric])
  have "2 ^ k * 2 ^ (31 - k) < unat q mod 2 + 2 * (r * 2 ^ (31 - k)) \<longleftrightarrow> 2 * r > 2 ^ k \<or> (2 * r = 2 ^ k \<and> odd (unat q))"
  proof -
    have ev: "even (2 ^ k * 2 ^ (31 - k) :: nat)" using k by simp
    consider "2 * r < 2 ^ k" | "2 * r = 2 ^ k" | "2 ^ k < 2 * r" by linarith
    then show ?thesis
    proof cases
      case 1
      then have "2 * r * 2 ^ (31 - k) < 2 ^ k * 2 ^ (31 - k)" by simp
      then have "2 * (r * 2 ^ (31 - k)) < 2 ^ k * 2 ^ (31 - k)" by (simp add: mult.assoc)
      moreover have "unat q mod 2 \<le> 1" by simp
      ultimately have "unat q mod 2 + 2 * (r * 2 ^ (31 - k)) \<le> 2 ^ k * 2 ^ (31 - k)" by linarith
      then show ?thesis using 1 by simp
    next
      case 2
      have "2 * (r * 2 ^ (31 - k)) = 2 ^ k * 2 ^ (31 - k)" using arg_cong[OF 2, of "\<lambda>x. x * 2 ^ (31 - k)"] by (simp add: mult.assoc)
      moreover have "unat q mod 2 \<le> 1" by simp
      ultimately have "2 ^ k * 2 ^ (31 - k) < unat q mod 2 + 2 * (r * 2 ^ (31 - k)) \<longleftrightarrow> unat q mod 2 = 1" by linarith
      then show ?thesis using 2 by (simp add: odd_iff_mod_2_eq_one)
    next
      case 3
      then have "2 ^ k * 2 ^ (31 - k) < 2 * r * 2 ^ (31 - k)" by simp
      then have "2 ^ k * 2 ^ (31 - k) < 2 * (r * 2 ^ (31 - k))" by (simp only: mult.assoc)
      then have "2 ^ k * 2 ^ (31 - k) < unat q mod 2 + 2 * (r * 2 ^ (31 - k))" by linarith
      then show ?thesis using 3 by blast
    qed
  qed
  then have up: "vuw_gt (rest OR (q AND 1)) 0x80000000 \<longleftrightarrow> 2 * r > 2 ^ k \<or> (2 * r = 2 ^ k \<and> odd (unat q))"
    using half by (simp add: vuw_gt_def sum)
  have inc: "unat (q + 1) = unat q + 1" using q(2) by (simp add: unat_add_le)
  show ?thesis
    unfolding condacc_def shift_rne_def Let_def up by (simp add: inc q(1)[symmetric] r_def[symmetric])
qed

lemma shifted_out: "k \<le> 32 \<Longrightarrow> m * 2 ^ (32 - k) mod 2 ^ 32 = (m mod 2 ^ k) * (2 ^ (32 - k) :: nat)"
  using mod_mult_mult2[of m "2 ^ (32 - k)" "2 ^ k"] by (simp add: power_add[symmetric] del: mod_mult_mult2)

text \<open>Rounding of a significand by a lane shift.\<close>

lemma rne_shift_lane:
  assumes "unat n = k" "0 < k" "k < 32" "unat m < 2 ^ 31"
  shows "unat (condacc (vuw_gt (vasl sh m (32 - n) OR (vlsr sh m n AND 1)) 0x80000000) (vlsr sh m n) 1) = shift_rne (unat m) k"
proof (rule rne_step[OF _ _ _ assms(2,3)])
  have "unat (32 - n) = 32 - k" using assms by (simp add: unat_sub_small)
  then show "unat (vasl sh m (32 - n)) = unat m mod 2 ^ k * 2 ^ (32 - k)"
    using assms(2,3) shifted_out[of k "unat m"] by (simp add: vasl_def unat_push)
  show q: "unat (vlsr sh m n) = unat m div 2 ^ k" using assms(1,3) by (simp add: vlsr_def unat_drop)
  show "unat (vlsr sh m n) < 2 ^ 31" unfolding q using assms(4) div_le_dividend[of "unat m" "2 ^ k"] by linarith
qed

lemma sign16: "unat (drop_bit 16 (x :: u32) AND 0x8000) = (if 2 ^ 31 \<le> unat x then 2 ^ 15 else 0)"
proof -
  have "drop_bit 16 x AND 0x8000 = drop_bit 16 (x AND 0x80000000)"
    by (simp add: drop_bit_and)
  then show ?thesis unfolding unat_drop sign_bit by (simp only: unat_drop sign_bit) simp
qed

lemma exp_field: "unat (drop_bit 23 (x :: u32) AND 0xff) = unat x div 2 ^ 23 mod 2 ^ 8"
  by (simp only: lane_masks unat_drop)

lemma bit31: "bit (x :: u32) 31 \<longleftrightarrow> 2 ^ 31 \<le> unat x"
proof -
  have "bit x 31 \<longleftrightarrow> bit (unat x) 31" by (simp add: bit_unsigned_iff)
  also have "\<dots> \<longleftrightarrow> odd (unat x div 2 ^ 31)" by (rule bit_iff_odd)
  finally have "bit x 31 \<longleftrightarrow> odd (unat x div 2 ^ 31)" .
  moreover have "unat x div 2 ^ 31 < 2" using unat_lt2p[of x] by (simp add: less_mult_imp_div_less)
  ultimately show ?thesis by (cases "unat x < 2 ^ 31") (auto simp: div_less less_2_cases_iff not_less div_eq_0_iff)
qed

lemma xor_sign: "unat (((x :: u32) XOR y) AND 0x80000000) = (if (2 ^ 31 \<le> unat x) \<noteq> (2 ^ 31 \<le> unat y) then 2 ^ 31 else 0)"
  unfolding sign_bit bit31[symmetric] by (simp add: bit_xor_iff)

lemma nan_lane: "vuw_gt (x AND 0x7fffffff) 0x7f800000 \<longleftrightarrow> unat x div 2 ^ 23 mod 2 ^ 8 = 255 \<and> unat x mod 2 ^ 23 \<noteq> 0"
proof -
  have "unat x mod 2 ^ 31 = (unat x div 2 ^ 23 mod 2 ^ 8) * 2 ^ 23 + unat x mod 2 ^ 23"
    using mod_mult2_eq[of "unat x" "2 ^ 23" "2 ^ 8"] by simp
  moreover have "unat x div 2 ^ 23 mod 2 ^ 8 \<le> 255" "unat x mod 2 ^ 23 < 2 ^ 23"
    using pos_mod_bound[of 256 "int (unat x div 2 ^ 23)"] by (simp_all flip: less_Suc_eq_le)
  moreover have "0x7f800000 < E * 2 ^ 23 + M \<longleftrightarrow> E = 255 \<and> M \<noteq> 0" if "E \<le> 255" "M < 2 ^ 23" for E M :: nat
    using that by auto
  ultimately show ?thesis unfolding vuw_gt_def lane_masks by simp
qed

end
