(* ===== verification/HvxExact.thy ===== *)
theory HvxExact
  imports HvxLanes
begin

text \<open>
  The exact conversions of \<open>tools/htp-lab/isa/isa_kernels.c\<close> (copies of \<open>hvx-exact.h\<close> of the DSP kernels, and
  \<open>isa_sf_to_w_rne\<close>): f16 to f32, f32 to f16 and f32 to int32, with integer instructions only. They are
  compared with the IEEE arithmetic of \<open>SoftFloat\<close>.
\<close>

subsection \<open>The routines\<close>

definition isa_hvx_exact_hf_to_sf :: "lane_shift \<Rightarrow> u32 \<Rightarrow> u32" where
  "isa_hvx_exact_hf_to_sf sh h =
     (let sign = push_bit 16 (h AND 0x8000);
          em = h AND 0x7fff;
          q_infnan = vw_gt em 0x7bff;
          bias = vmux q_infnan 0x70000000 0x38000000;
          r_norm = push_bit 13 em + bias;
          lz = vcl0 em;
          r_sub = vasl sh em (lz - 8) + push_bit 23 (133 - lz);
          q_sub = vw_gt 0x0400 em;
          r = vmux q_sub r_sub r_norm;
          r = vmux (em = 0) 0 r
      in r OR sign)"

definition isa_hvx_exact_sf_to_hf :: "lane_shift \<Rightarrow> u32 \<Rightarrow> u32" where
  "isa_hvx_exact_sf_to_hf sh x =
     (let sign = drop_bit 16 x AND 0x8000;
          a = x AND 0x7fffffff;
          odd_bit = drop_bit 13 a AND 1;
          r_norm = a + (odd_bit + (0x0fff - 0x38000000));
          r_norm = vw_min (drop_bit 13 r_norm) 0x7c00;
          e = drop_bit 23 a;
          m = (a AND 0x007fffff) OR 0x00800000;
          k = vw_min (126 - e) 31;
          q = vlsr sh m k;
          rest = vasl sh m (32 - k);
          q_up = vuw_gt (rest OR (q AND 1)) 0x80000000;
          q = condacc q_up q 1;
          r = vmux (vw_gt 0x38800000 a) q r_norm;
          r = vmux (vw_gt a 0x7f800000) 0x7e00 r
      in r OR sign)"

definition isa_sf_to_w_rne :: "lane_shift \<Rightarrow> u32 \<Rightarrow> u32" where
  "isa_sf_to_w_rne sh x =
     (let a = x AND 0x7fffffff;
          e = drop_bit 23 a;
          m = (a AND 0x007fffff) OR 0x00800000;
          s = vw_min (150 - e) 31;
          q = vlsr sh m s;
          rest = vasl sh m (32 - s);
          up = vuw_gt (rest OR (q AND 1)) 0x80000000;
          q = condacc up q 1;
          l = vasl sh m (e - 150);
          r = vmux (vw_gt 150 e) q l;
          neg = vw_gt 0 x;
          r = vmux neg (0 - r) r;
          r = vmux (vw_gt e 157) (vmux neg 0x80000000 0x7fffffff) r
      in vmux (vw_gt a 0x7f800000) 0 r)"

subsection \<open>The f16 value of an f32 value\<close>

text \<open>The pattern of the result without the sign.\<close>

definition hf_code :: "nat \<Rightarrow> nat" where
  "hf_code a = (if 0x7f800000 < a then 0x7e00
     else if 0x38800000 \<le> a then min (shift_rne (a - 0x38000000) 13) 0x7c00
     else shift_rne (a mod 2 ^ 23 + 2 ^ 23) (min (126 - a div 2 ^ 23) 31))"

lemma normal_hf_lane:
  assumes a: "unat aw = a" "0x38800000 \<le> a" "a < 2 ^ 31"
  shows "unat (vw_min (drop_bit 13 (aw + ((drop_bit 13 aw AND 1) + (0x0fff - 0x38000000)))) 0x7c00)
    = min (shift_rne (a - 0x38000000) 13) 0x7c00"
proof -
  define b where "b = a - 0x38000000"
  have ab: "a = b + 0x1c000 * 2 ^ 13" using a by (simp add: b_def)
  have "a div 2 ^ 13 = b div 2 ^ 13 + 0x1c000" unfolding ab by (subst div_mult_self1) simp_all
  then have "a div 2 ^ 13 mod 2 = b div 2 ^ 13 mod 2" by (simp add: mod_add_right_eq[symmetric] del: mod_add_right_eq)
  then have o: "unat (drop_bit 13 aw AND 1) = b div 2 ^ 13 mod 2" by (simp only: lane_masks unat_drop a(1))
  have reorder: "aw + ((drop_bit 13 aw AND 1) + (0x0fff - 0x38000000)) = (aw - 0x38000000) + ((drop_bit 13 aw AND 1) + 0x0fff)"
    by (simp add: algebra_simps)
  have b: "unat (aw - 0x38000000) = b" "b < 2 ^ 31" using a by (simp_all add: unat_sub_small b_def)
  have o1: "unat ((drop_bit 13 aw AND 1) + 0x0fff) = b div 2 ^ 13 mod 2 + 0xfff"
    using o by (subst unat_add_le) simp_all
  have "b div 2 ^ 13 mod 2 < 2" by simp
  then have sum: "unat ((aw - 0x38000000) + ((drop_bit 13 aw AND 1) + 0x0fff)) = b + (b div 2 ^ 13 mod 2 + 0xfff)"
    using b o1 by (subst unat_add_le) simp_all
  have "unat (drop_bit 13 (aw + ((drop_bit 13 aw AND 1) + (0x0fff - 0x38000000)))) = shift_rne b 13"
    using add_half_rne[of 13 b] unfolding reorder unat_drop sum by (simp add: add.commute add.left_commute)
  moreover have "shift_rne b 13 \<le> 2 ^ 18" using b(2) by (intro shift_rne_le) simp
  ultimately show ?thesis by (subst vw_min_small) (simp_all add: b_def)
qed

lemma small_hf_lane:
  assumes a: "unat aw = a" "a < 0x38800000"
  defines "m \<equiv> (aw AND 0x007fffff) OR 0x00800000" and "k \<equiv> vw_min (126 - drop_bit 23 aw) 31"
  shows "unat (condacc (vuw_gt (vasl sh m (32 - k) OR (vlsr sh m k AND 1)) 0x80000000) (vlsr sh m k) 1)
    = shift_rne (a mod 2 ^ 23 + 2 ^ 23) (min (126 - a div 2 ^ 23) 31)"
proof -
  have m: "unat m = a mod 2 ^ 23 + 2 ^ 23" unfolding m_def hidden_one a(1) ..
  have e: "unat (drop_bit 23 aw) = a div 2 ^ 23" by (simp only: unat_drop a(1))
  have "a div 2 ^ 23 \<le> 112" using a(2) by (simp add: div_le_mono less_eq_div_iff_mult_less_eq not_less[symmetric])
  then have d: "unat (126 - drop_bit 23 aw) = 126 - a div 2 ^ 23" "a div 2 ^ 23 \<le> 112" using e by (simp_all add: unat_sub_small)
  have k: "unat k = min (126 - a div 2 ^ 23) 31" unfolding k_def using d by (subst vw_min_small) simp_all
  have "a mod 2 ^ 23 < 2 ^ 23" by simp
  then have "unat m < 2 ^ 31" unfolding m by simp
  from rne_shift_lane[OF k _ _ this, of sh] show ?thesis using d(2) unfolding m by simp
qed

lemma hf_code_bound: "a < 2 ^ 31 \<Longrightarrow> hf_code a < 2 ^ 15"
proof -
  have "shift_rne (a mod 2 ^ 23 + 2 ^ 23) (min (126 - a div 2 ^ 23) 31) \<le> 2 ^ 10" if "a < 0x38800000"
  proof (rule shift_rne_le)
    have "a div 2 ^ 23 \<le> 112" using that by (simp add: div_le_mono less_eq_div_iff_mult_less_eq not_less[symmetric])
    then have "(2::nat) ^ 14 \<le> 2 ^ min (126 - a div 2 ^ 23) 31" by (intro power_increasing) simp_all
    then have "(2::nat) ^ 10 * 2 ^ 14 \<le> 2 ^ 10 * 2 ^ min (126 - a div 2 ^ 23) 31" by (rule mult_le_mono2)
    moreover have "a mod 2 ^ 23 < 2 ^ 23" by simp
    then have "a mod 2 ^ 23 + 2 ^ 23 \<le> 2 ^ 10 * 2 ^ 14" by simp
    ultimately show "a mod 2 ^ 23 + 2 ^ 23 \<le> 2 ^ 10 * 2 ^ min (126 - a div 2 ^ 23) 31" by (rule le_trans[rotated])
  qed
  then show ?thesis by (auto simp: hf_code_def)
qed

lemma sf_to_hf_word:
  "unat (isa_hvx_exact_sf_to_hf sh x) = hf_code (unat x mod 2 ^ 31) + (if 2 ^ 31 \<le> unat x then 2 ^ 15 else 0)"
proof -
  define aw where "aw = x AND 0x7fffffff"
  define a where "a = unat x mod 2 ^ 31"
  have a: "unat aw = a" "a < 2 ^ 31" unfolding aw_def a_def by (simp_all only: lane_masks) simp
  define r where "r = vmux (vw_gt aw 0x7f800000) 0x7e00
     (vmux (vw_gt 0x38800000 aw)
       (condacc (vuw_gt (vasl sh ((aw AND 0x007fffff) OR 0x00800000) (32 - vw_min (126 - drop_bit 23 aw) 31) OR
          (vlsr sh ((aw AND 0x007fffff) OR 0x00800000) (vw_min (126 - drop_bit 23 aw) 31) AND 1)) 0x80000000)
          (vlsr sh ((aw AND 0x007fffff) OR 0x00800000) (vw_min (126 - drop_bit 23 aw) 31)) 1)
       (vw_min (drop_bit 13 (aw + ((drop_bit 13 aw AND 1) + (0x0fff - 0x38000000)))) 0x7c00))"
  have code: "isa_hvx_exact_sf_to_hf sh x = r OR (drop_bit 16 x AND 0x8000)"
    unfolding isa_hvx_exact_sf_to_hf_def Let_def aw_def[symmetric] r_def ..
  have gts: "vw_gt 0x38800000 aw \<longleftrightarrow> a < 0x38800000" "vw_gt aw 0x7f800000 \<longleftrightarrow> 0x7f800000 < a"
    using a by (simp_all add: vw_gt_small)
  have r: "unat r = hf_code a"
    unfolding r_def vmux_def gts hf_code_def
    using normal_hf_lane[OF a(1) _ a(2)] small_hf_lane[OF a(1), of sh] by (simp only: if_distrib not_less) auto
  have "unat (r OR (drop_bit 16 x AND 0x8000)) = unat r + unat (drop_bit 16 x AND 0x8000)"
    using hf_code_bound[OF a(2)] by (intro unat_or_add[of _ 15]) (simp_all add: r sign16)
  then show ?thesis unfolding code r a_def sign16 .
qed

text \<open>The pattern for a subnormal, a normal and an infinite result.\<close>

lemma hf_code_fields:
  assumes "M < 2 ^ 23"
  shows "E \<le> 112 \<Longrightarrow> hf_code (E * 2 ^ 23 + M) = shift_rne (M + 2 ^ 23) (126 - E)"
    "113 \<le> E \<Longrightarrow> E \<le> 142 \<Longrightarrow> hf_code (E * 2 ^ 23 + M) = (E - 113) * 2 ^ 10 + shift_rne (M + 2 ^ 23) 13"
    "143 \<le> E \<Longrightarrow> E < 255 \<Longrightarrow> hf_code (E * 2 ^ 23 + M) = 0x7c00"
proof -
  let ?m = "M + 2 ^ 23" and ?a = "E * 2 ^ 23 + M"
  have am: "?a div 2 ^ 23 = E" "?a mod 2 ^ 23 = M" using assms by simp_all
  show "hf_code ?a = shift_rne ?m (126 - E)" if "E \<le> 112"
  proof -
    have "shift_rne ?m (min (126 - E) 31) = shift_rne ?m (126 - E)"
    proof (cases "126 - E \<le> 31")
      case False
      have "?m < 2 ^ 24" using assms by simp
      also have "(2::nat) ^ 24 \<le> 2 ^ (126 - E - 1)" using False by (intro power_increasing) simp_all
      finally have "shift_rne ?m (126 - E) = 0" using False by (intro shift_rne_small) simp_all
      moreover have "shift_rne ?m 31 = 0" using assms by (intro shift_rne_small) simp_all
      ultimately show ?thesis using False by simp
    qed simp
    then show ?thesis using that assms unfolding hf_code_def am by simp
  qed
  show "hf_code ?a = (E - 113) * 2 ^ 10 + shift_rne ?m 13" if E: "113 \<le> E" "E \<le> 142"
  proof -
    define z where "z = E - 113"
    have E': "E = z + 113" using E by (simp add: z_def)
    have "?a - 0x38000000 = z * 2 ^ (22 + 1) + ?m" unfolding E' by simp
    then have "?a - 0x38000000 = z * 2 ^ 9 * 2 ^ (13 + 1) + ?m" by simp
    then have sh: "shift_rne (?a - 0x38000000) 13 = z * 2 ^ 10 + shift_rne ?m 13" by (simp only: shift_rne_add) simp
    have "shift_rne ?m 13 \<le> 2 ^ 11" using assms by (intro shift_rne_le) simp
    then have "z * 2 ^ 10 + shift_rne ?m 13 \<le> 0x7c00" using E by (simp add: z_def)
    then show ?thesis using E assms sh by (simp add: hf_code_def E')
  qed
  show "hf_code ?a = 0x7c00" if "143 \<le> E" "E < 255"
  proof -
    have "31 * 2 ^ 10 \<le> shift_rne (?a - 0x38000000) 13" using that by (intro shift_rne_ge) simp
    then show ?thesis using that assms by (simp add: hf_code_def)
  qed
qed

lemma round_f32_f16:
  assumes "0 < E" "E < 255" "M < 2 ^ 23"
  shows "round_fp F16 s (M + 2 ^ 23) (int E - 150) = decode F16 s (hf_code (E * 2 ^ 23 + M))"
proof -
  let ?m = "M + 2 ^ 23"
  note L = bit_length_hidden[OF assms(3)] bit_length_hidden[OF assms(3), simplified]
  consider "E \<le> 112" | "113 \<le> E" "E \<le> 142" | "143 \<le> E" by linarith
  then show ?thesis
  proof cases
    case 1
    have "round_fp F16 s ?m (int E - 150) = decode F16 s (nat (-24 - e_min F16) * 2 ^ (prec F16 - 1) + shift_rne ?m (nat (-24 - (int E - 150))))"
      using 1 by (intro round_fp_code) (simp_all add: L, simp_all add: F16_def L)
    also have "nat (-24 - (int E - 150)) = 126 - E" using 1 by linarith
    finally show ?thesis unfolding hf_code_fields(1)[OF assms(3) 1] by (simp add: F16_def)
  next
    case 2
    have "round_fp F16 s ?m (int E - 150) = decode F16 s (nat (int E - 137 - e_min F16) * 2 ^ (prec F16 - 1) + shift_rne ?m (nat (int E - 137 - (int E - 150))))"
      using 2 by (intro round_fp_code) (simp_all add: L, simp_all add: F16_def L)
    moreover have "nat (int E - 137 - (int E - 150)) = 13" "nat (int E - 137 - e_min F16) = E - 113" using 2 by (simp_all add: F16_def)
    ultimately show ?thesis unfolding hf_code_fields(2)[OF assms(3) 2] by (simp add: F16_def)
  next
    case 3
    have "round_fp F16 s ?m (int E - 150) = Inf s"
      using 3 by (intro round_fp_overflow) (simp_all add: L, simp add: F16_def L)
    then show ?thesis unfolding hf_code_fields(3)[OF assms(3) 3 assms(2)] by (simp add: decode_f16)
  qed
qed

lemma hf_code_subnormal:
  assumes "a < 2 ^ 23"
  shows "round_fp F16 s a (-149) = decode F16 s (hf_code a)"
proof -
  have "shift_rne (a + 2 ^ 23) 31 = 0" using assms by (intro shift_rne_small) simp_all
  then have c: "hf_code a = 0" using assms by (simp add: hf_code_def)
  show ?thesis
  proof (cases "a = 0")
    case False
    have L: "bit_length a \<le> 23" using assms by (rule bit_length_le)
    have "round_fp F16 s a (-149) = decode F16 s (nat (-24 - e_min F16) * 2 ^ (prec F16 - 1) + shift_rne a (nat (-24 - -149)))"
      using False L by (intro round_fp_code) (simp_all, simp_all add: F16_def)
    moreover have "shift_rne a 125 = 0"
      using assms power_increasing[of 23 124 "2::nat"] by (intro shift_rne_small) simp_all
    ultimately show ?thesis unfolding c by (simp add: F16_def)
  qed (use c in \<open>simp add: decode_f16\<close>, simp add: F16_def)
qed

lemma hf_code_value: "decode F16 (2 ^ 31 \<le> unat x) (hf_code (unat x mod 2 ^ 31)) = fp_cvt F16 (f32_of x)"
proof (cases rule: f32_cases[of x])
  case nan
  then show ?thesis by (simp add: hf_code_def decode_f16)
next
  case inf
  have "hf_code 0x7f800000 = 0x7c00" by (simp add: hf_code_def shift_rne_def)
  then show ?thesis using inf by (simp add: decode_f16)
next
  case (normal E M)
  show ?thesis unfolding normal(5) fp_cvt.simps normal(1) by (rule round_f32_f16[OF normal(2-4), symmetric])
next
  case subnormal
  then show ?thesis by (simp add: hf_code_subnormal)
qed

text \<open>C8. \<open>isa_hvx_exact_sf_to_hf\<close> gives the f16 value of each f32 value as IEEE 754 defines it: rounded to nearest, ties to
  even, with f16 subnormal results, Inf for 65520 or more, and a NaN for a NaN. The result is in the low halfword.\<close>

theorem exact_sf_to_hf:
  "f16_of (ucast (isa_hvx_exact_sf_to_hf sh x)) = fp_cvt F16 (f32_of x) \<and> unat (isa_hvx_exact_sf_to_hf sh x) < 2 ^ 16"
proof -
  have b: "hf_code (unat x mod 2 ^ 31) < 2 ^ 15" by (rule hf_code_bound) simp
  then show ?thesis using f16_of_signed[OF b sf_to_hf_word[of sh x]] hf_code_value[of x] unfolding sf_to_hf_word by auto
qed

subsection \<open>The f32 value of an f16 value\<close>

text \<open>The pattern of the result without the sign.\<close>

definition sf_code :: "nat \<Rightarrow> nat" where
  "sf_code em = (if em = 0 then 0
     else if em < 0x400 then em * 2 ^ (24 - bit_length em) + (101 + bit_length em) * 2 ^ 23
     else em * 2 ^ 13 + (if 0x7bff < em then 0x70000000 else 0x38000000))"

lemma small_em: "0 < em \<Longrightarrow> em < 0x400 \<Longrightarrow> 0 < bit_length em \<and> bit_length em \<le> 10"
  using bit_length_bounds[of em] bit_length_le[of em 10] by simp

lemma hf_to_sf_word:
  assumes "unat h < 2 ^ 16"
  shows "unat (isa_hvx_exact_hf_to_sf sh h) = sf_code (unat h mod 2 ^ 15) + (if 2 ^ 15 \<le> unat h then 2 ^ 31 else 0)
    \<and> sf_code (unat h mod 2 ^ 15) < 2 ^ 31"
proof -
  define w em where "w = h AND 0x7fff" and "em = unat h mod 2 ^ 15"
  have w: "unat w = em" "em < 2 ^ 15" unfolding w_def em_def by (simp_all only: lane_masks) simp
  define r where "r = vmux (w = 0) 0 (vmux (vw_gt 0x400 w) (vasl sh w (vcl0 w - 8) + push_bit 23 (133 - vcl0 w))
    (push_bit 13 w + vmux (vw_gt w 0x7bff) 0x70000000 0x38000000))"
  have code: "isa_hvx_exact_hf_to_sf sh h = r OR push_bit 16 (h AND 0x8000)"
    unfolding isa_hvx_exact_hf_to_sf_def Let_def w_def[symmetric] r_def ..
  have gts: "vw_gt 0x400 w \<longleftrightarrow> em < 0x400" "vw_gt w 0x7bff \<longleftrightarrow> 0x7bff < em" "w = 0 \<longleftrightarrow> em = 0"
    using w by (simp_all add: vw_gt_small unat_eq_0[symmetric])
  have r: "unat r = sf_code em \<and> sf_code em < 2 ^ 31"
  proof -
    consider "em = 0" | "0 < em" "em < 0x400" | "0x400 \<le> em" by linarith
    then show ?thesis
    proof cases
      case 1
      then show ?thesis by (simp add: r_def vmux_def gts sf_code_def)
    next
      case 2
      define L where "L = bit_length em"
      have L: "0 < L" "L \<le> 10" using small_em[OF 2] by (simp_all add: L_def)
      have lz: "unat (vcl0 w) = 32 - L" unfolding vcl0_def w(1) L_def[symmetric] by (rule unat_of_nat_less) simp
      have n: "em * 2 ^ (24 - L) < 2 ^ 24" using normalise[OF 2(1), of 24] L by (simp add: L_def)
      have "unat (vcl0 w - 8) = 24 - L" "unat (133 - vcl0 w) = 101 + L" using L lz by (simp_all add: unat_sub_small)
      then have "unat (vasl sh w (vcl0 w - 8)) = em * 2 ^ (24 - L)" "unat (push_bit 23 (133 - vcl0 w)) = (101 + L) * 2 ^ 23"
        using n L less_imp_diff_less[of 24 32 L] by (simp_all add: vasl_def unat_push w(1))
      then have "unat (vasl sh w (vcl0 w - 8) + push_bit 23 (133 - vcl0 w)) = em * 2 ^ (24 - L) + (101 + L) * 2 ^ 23"
        using n L by (subst unat_add_le) simp_all
      then show ?thesis using 2 n L by (simp add: r_def vmux_def gts sf_code_def L_def[symmetric])
    next
      case 3
      have p: "unat (push_bit 13 w) = em * 2 ^ 13" using w by (simp add: unat_push)
      have "unat (push_bit 13 w + vmux (vw_gt w 0x7bff) 0x70000000 0x38000000)
          = em * 2 ^ 13 + (if 0x7bff < em then 0x70000000 else 0x38000000)"
        unfolding vmux_def gts using w p by (subst unat_add_le) simp_all
      then show ?thesis using 3 w(2) by (simp add: r_def vmux_def gts sf_code_def)
    qed
  qed
  have "push_bit 16 (h AND 0x8000) = push_bit 16 h AND 0x80000000" by (simp add: push_bit_and)
  then have "unat (push_bit 16 (h AND 0x8000)) = (if 2 ^ 31 \<le> unat (push_bit 16 h) then 2 ^ 31 else 0)"
    by (simp only: sign_bit)
  also have "unat (push_bit 16 h) = unat h * 2 ^ 16" using assms by (simp add: unat_push)
  finally have s: "unat (push_bit 16 (h AND 0x8000)) = (if 2 ^ 15 \<le> unat h then 2 ^ 31 else 0)" by simp
  show ?thesis unfolding code em_def[symmetric] using unat_or_sign[OF _ s, of r] r by simp
qed

text \<open>\<open>isa_hvx_exact_hf_to_sf\<close> gives the f32 value of each f16 value: the IEEE conversion of normal values,
  subnormal values, signed zeros, Inf and NaN, and it is exact (the two values compare equal, except for a NaN).\<close>

theorem exact_hf_to_sf:
  "f32_of (isa_hvx_exact_hf_to_sf sh (ucast h)) = fp_cvt F32 (f16_of h) \<and>
   fp_eq (f32_of (isa_hvx_exact_hf_to_sf sh (ucast h))) (f16_of h) = (f16_of h \<noteq> NaN)"
proof -
  let ?a = "unat h mod 2 ^ 15" and ?s = "2 ^ 15 \<le> unat h"
  have h: "unat (ucast h :: u32) = unat h" by (rule unat_ucast_up) simp
  have "unat h < 2 ^ 16" using unat_lt2p[of h] by simp
  then have word: "unat (isa_hvx_exact_hf_to_sf sh (ucast h)) = sf_code ?a + (if ?s then 2 ^ 31 else 0)" "sf_code ?a < 2 ^ 31"
    using hf_to_sf_word[of "ucast h" sh] by (simp_all add: h)
  have dec: "f32_of (isa_hvx_exact_hf_to_sf sh (ucast h)) = decode F32 ?s (sf_code ?a)"
    by (rule f32_of_signed[OF word(2,1)])
  show ?thesis
    unfolding dec
  proof (cases rule: f16_cases[of h])
    case (nan M)
    have "sf_code ?a = 255 * 2 ^ 23 + M * 2 ^ 13" unfolding nan(1) sf_code_def by simp
    then show "decode F32 ?s (sf_code ?a) = fp_cvt F32 (f16_of h) \<and> fp_eq (decode F32 ?s (sf_code ?a)) (f16_of h) = (f16_of h \<noteq> NaN)"
      using nan(2-4) div_mod_code[of "M * 2 ^ 13" 23 255] by (simp add: decode_f32)
  next
    case inf
    have "sf_code ?a = 255 * 2 ^ 23" unfolding inf(1) sf_code_def by simp
    then show "decode F32 ?s (sf_code ?a) = fp_cvt F32 (f16_of h) \<and> fp_eq (decode F32 ?s (sf_code ?a)) (f16_of h) = (f16_of h \<noteq> NaN)"
      using inf(2) by (simp add: decode_f32)
  next
    case (normal E M)
    have c: "sf_code ?a = (E + 112) * 2 ^ 23 + M * 2 ^ 13"
      unfolding normal(1) sf_code_def using normal(2-4) by (simp add: algebra_simps)
    have L: "bit_length (M + 2 ^ 10) = 11" using normal(4) by (intro bit_length_eq) simp_all
    have d: "decode F32 ?s (sf_code ?a) = Fin ?s (M * 2 ^ 13 + 2 ^ 23) (int E - 38)"
      using div_mod_code[of "M * 2 ^ 13" 23 "E + 112"] normal(2-4) unfolding c decode_f32 by simp
    have "round_fp F32 ?s (M + 2 ^ 10) (int E - 25) = Fin ?s ((M + 2 ^ 10) * 2 ^ 13) (int E - 38)"
      using normal(2-4) L by (simp add: round_fp_def Let_def F32_def)
    then show "decode F32 ?s (sf_code ?a) = fp_cvt F32 (f16_of h) \<and> fp_eq (decode F32 ?s (sf_code ?a)) (f16_of h) = (f16_of h \<noteq> NaN)"
      unfolding d normal(5) by (simp add: align_def Let_def)
  next
    case subnormal
    show "decode F32 ?s (sf_code ?a) = fp_cvt F32 (f16_of h) \<and> fp_eq (decode F32 ?s (sf_code ?a)) (f16_of h) = (f16_of h \<noteq> NaN)"
    proof (cases "?a = 0")
      case True
      then have "decode F32 ?s (sf_code ?a) = Fin ?s 0 (-149)" by (simp add: sf_code_def decode_f32)
      moreover have "fp_cvt F32 (f16_of h) = Fin ?s 0 (-149)" using True subnormal by (simp add: F32_def)
      ultimately show ?thesis using True subnormal(2) by (simp add: signed_def align_def Let_def)
    next
      case False
      define em L q where "em = ?a" and "L = bit_length em" and "q = em * 2 ^ (24 - L)"
      have em: "0 < em" "em < 0x400" using False subnormal(1) by (simp_all add: em_def)
      have L: "0 < L" "L \<le> 10" using small_em[OF em] by (simp_all add: L_def)
      have q: "2 ^ 23 \<le> q" "q < 2 ^ 24" using normalise[OF em(1), of 24] L by (simp_all add: L_def q_def)
      have "sf_code em = q + (101 + L) * 2 ^ 23" using em by (simp add: sf_code_def L_def q_def)
      then have "sf_code em = (102 + L) * 2 ^ 23 + (q - 2 ^ 23)" using q(1) by simp
      then have d: "decode F32 ?s (sf_code em) = Fin ?s q (int L - 48)"
        using div_mod_code[of "q - 2 ^ 23" 23 "102 + L"] q L unfolding decode_f32 by simp
      have "nat (-24 - (int L - 48)) = 24 - L" by simp
      then have "round_fp F32 ?s em (-24) = Fin ?s q (int L - 48)"
        using em L q by (simp add: round_fp_def Let_def F32_def L_def[symmetric] q_def)
      moreover have "int L - 48 \<le> -24" "nat (int L - 48 - (int L - 48)) = 0" "nat (- 24 - (int L - 48)) = 24 - L" using L by simp_all
      ultimately show ?thesis
        unfolding subnormal(2) em_def[symmetric] d by (simp add: align_def Let_def q_def min_def)
    qed
  qed
qed

subsection \<open>The int32 value of an f32 value\<close>

text \<open>The rule of the ARM instruction \<open>vcvtnq_s32_f32\<close>: round to nearest, ties to even, saturate, and 0 for a NaN.\<close>

fun rne_int :: "fp \<Rightarrow> int" where
  "rne_int (Fin s m e) = max (- (2 ^ 31)) (min (2 ^ 31 - 1)
     (signed s (if 0 \<le> e then m * 2 ^ nat e else shift_rne m (nat (- e)))))"
| "rne_int (Inf s) = (if s then - (2 ^ 31) else 2 ^ 31 - 1)"
| "rne_int NaN = 0"

lemma sint_signed_lane: "unat (r :: u32) < 2 ^ 31 \<Longrightarrow> sint (if b then 0 - r else r) = signed b (unat r)"
proof -
  assume r: "unat r < 2 ^ 31"
  show ?thesis
  proof (cases "b \<and> unat r \<noteq> 0")
    case True
    have "r \<noteq> 0" using True by (auto simp: unat_eq_0)
    then have "unat (0 - r) = 2 ^ 32 - unat r" using unat_sub_if'[of 0 r] True by (simp add: unat_eq_0)
    then show ?thesis using True r sint_big[of "0 - r"] by (simp add: signed_def of_nat_diff)
  next
    case False
    then have "b \<longrightarrow> r = 0" by (auto simp: unat_eq_0)
    then show ?thesis using r sint_small[of r] by (auto simp: signed_def)
  qed
qed

text \<open>The magnitude before the saturation.\<close>

lemma w_lane:
  assumes a: "unat aw = a" "a < 158 * 2 ^ 23"
  defines "m \<equiv> (aw AND 0x007fffff) OR 0x00800000" and "n \<equiv> vw_min (150 - drop_bit 23 aw) 31"
  shows "unat (vmux (vw_gt 150 (drop_bit 23 aw))
      (condacc (vuw_gt (vasl sh m (32 - n) OR (vlsr sh m n AND 1)) 0x80000000) (vlsr sh m n) 1)
      (vasl sh m (drop_bit 23 aw - 150)))
    = (if a div 2 ^ 23 < 150 then shift_rne (a mod 2 ^ 23 + 2 ^ 23) (min (150 - a div 2 ^ 23) 31)
       else (a mod 2 ^ 23 + 2 ^ 23) * 2 ^ (a div 2 ^ 23 - 150))"
proof -
  define E where "E = a div 2 ^ 23"
  have m: "unat m = a mod 2 ^ 23 + 2 ^ 23" unfolding m_def hidden_one a(1) ..
  have mlt: "unat m < 2 ^ 24" unfolding m by simp
  have e: "unat (drop_bit 23 aw) = E" by (simp only: unat_drop a(1) E_def)
  have E: "E < 158" unfolding E_def using a(2) by (simp add: less_mult_imp_div_less)
  have gt: "vw_gt 150 (drop_bit 23 aw) \<longleftrightarrow> E < 150" using e E by (simp add: vw_gt_small)
  show ?thesis
  proof (cases "E < 150")
    case True
    then have "unat (150 - drop_bit 23 aw) = 150 - E" using e by (simp add: unat_sub_small)
    then have n: "unat n = min (150 - E) 31" unfolding n_def using E by (subst vw_min_small) simp_all
    show ?thesis using rne_shift_lane[OF n, of m sh] True mlt unfolding vmux_def gt E_def[symmetric] m by simp
  next
    case False
    then have d: "unat (drop_bit 23 aw - 150) = E - 150" "E - 150 \<le> 7" using e E by (simp_all add: unat_sub_small)
    have "unat m * 2 ^ (E - 150) < 2 ^ 24 * 2 ^ 7"
      using mlt d(2) by (intro mult_less_le_imp_less power_increasing) simp_all
    then show ?thesis using False d unfolding vmux_def gt E_def[symmetric] m[symmetric]
      by (simp add: vasl_def unat_push)
  qed
qed

lemma w_lane_bound:
  assumes "a < 158 * 2 ^ 23"
  shows "(if a div 2 ^ 23 < 150 then shift_rne (a mod 2 ^ 23 + 2 ^ 23) (min (150 - a div 2 ^ 23) 31)
       else (a mod 2 ^ 23 + 2 ^ 23) * 2 ^ (a div 2 ^ 23 - 150)) < (2::nat) ^ 31"
proof -
  have m: "a mod 2 ^ 23 + 2 ^ 23 < 2 ^ 24" by simp
  have E: "a div 2 ^ 23 < 158" using assms by (simp add: less_mult_imp_div_less)
  show ?thesis
  proof (cases "a div 2 ^ 23 < 150")
    case True
    have "shift_rne (a mod 2 ^ 23 + 2 ^ 23) (min (150 - a div 2 ^ 23) 31) \<le> 2 ^ 24"
      using m one_le_power[of "2::nat" "min (150 - a div 2 ^ 23) 31"] by (intro shift_rne_le) (simp add: mult_le_mono[of _ _ 1, simplified] less_imp_le order_trans[OF _ mult_le_mono[OF order_refl]])
    then show ?thesis using True by simp
  next
    case False
    have "(a mod 2 ^ 23 + 2 ^ 23) * 2 ^ (a div 2 ^ 23 - 150) < 2 ^ 24 * 2 ^ 7"
      using m E False by (intro mult_less_le_imp_less power_increasing) simp_all
    then show ?thesis using False by simp
  qed
qed

text \<open>\<open>isa_sf_to_w_rne\<close> gives for each f32 pattern the int32 value of the ARM instruction \<open>vcvtnq_s32_f32\<close>.\<close>

theorem exact_sf_to_w: "sint (isa_sf_to_w_rne sh x) = rne_int (f32_of x)"
proof -
  define aw where "aw = x AND 0x7fffffff"
  define a where "a = unat x mod 2 ^ 31"
  define s where "s \<longleftrightarrow> 2 ^ 31 \<le> unat x"
  have a: "unat aw = a" "a < 2 ^ 31" unfolding aw_def a_def by (simp_all only: lane_masks) simp
  define m n where "m = (aw AND 0x007fffff) OR 0x00800000" and "n = vw_min (150 - drop_bit 23 aw) 31"
  define r where "r = vmux (vw_gt 150 (drop_bit 23 aw))
      (condacc (vuw_gt (vasl sh m (32 - n) OR (vlsr sh m n AND 1)) 0x80000000) (vlsr sh m n) 1)
      (vasl sh m (drop_bit 23 aw - 150))"
  have ux: "uint x < 2 ^ 32" by (rule order_less_le_trans[OF unsigned_less]) simp
  have neg: "vw_gt 0 x \<longleftrightarrow> s"
    using sint_small[of x] sint_big[of x] ux by (cases s) (simp_all add: vw_gt_def s_def not_le)
  have e: "unat (drop_bit 23 aw) = a div 2 ^ 23" by (simp only: unat_drop a(1))
  have "a div 2 ^ 23 < 2 ^ 8" using a(2) by (simp add: less_mult_imp_div_less)
  then have gts: "vw_gt aw 0x7f800000 \<longleftrightarrow> 0x7f800000 < a" "vw_gt (drop_bit 23 aw) 157 \<longleftrightarrow> 157 < a div 2 ^ 23"
    using a e by (simp_all add: vw_gt_small)
  have code: "isa_sf_to_w_rne sh x = (if 0x7f800000 < a then 0
      else if 157 < a div 2 ^ 23 then (if s then 0x80000000 else 0x7fffffff) else (if s then 0 - r else r))"
    unfolding isa_sf_to_w_rne_def Let_def aw_def[symmetric] m_def[symmetric] n_def[symmetric] r_def[symmetric] neg gts
    by (simp add: vmux_def)
  have big: "sint (if s then 0x80000000 else 0x7fffffff :: u32) = (if s then - (2 ^ 31) else 2 ^ 31 - 1)"
    using sint_big[of "0x80000000"] sint_small[of "0x7fffffff"] by simp
  have small: "sint (if s then 0 - r else r) = signed s (if a div 2 ^ 23 < 150 then shift_rne (a mod 2 ^ 23 + 2 ^ 23) (min (150 - a div 2 ^ 23) 31)
       else (a mod 2 ^ 23 + 2 ^ 23) * 2 ^ (a div 2 ^ 23 - 150))" if "a < 158 * 2 ^ 23"
  proof -
    note w = w_lane[OF a(1) that, of sh, folded m_def n_def, folded r_def]
    show ?thesis using sint_signed_lane[of r s] w_lane_bound[OF that] unfolding w by blast
  qed
  have clamp: "max (- (2 ^ 31)) (min (2 ^ 31 - 1) (signed s v)) = signed s v" if "v < 2 ^ 31" for v
    using that by (auto simp: signed_def)
  show ?thesis
  proof (cases rule: f32_cases[of x])
    case nan
    then show ?thesis by (simp add: code a_def)
  next
    case inf
    then have "a = 0x7f800000" by (simp add: a_def)
    then show ?thesis using inf(2) big by (simp add: code s_def)
  next
    case (normal E M)
    have am: "a div 2 ^ 23 = E" "a mod 2 ^ 23 = M" "\<not> 0x7f800000 < a" using normal(1-4) by (simp_all add: a_def)
    have a158: "E \<le> 157 \<Longrightarrow> a < 158 * 2 ^ 23" using normal(1,4) by (simp add: a_def)
    have val: "rne_int (f32_of x) = max (- (2 ^ 31)) (min (2 ^ 31 - 1) (signed s (if 150 \<le> E then (M + 2 ^ 23) * 2 ^ (E - 150)
        else shift_rne (M + 2 ^ 23) (150 - E))))"
      unfolding normal(5) s_def by (simp add: nat_diff_distrib)
    consider "157 < E" | "150 \<le> E" "E \<le> 157" | "E < 150" by linarith
    then show ?thesis
    proof cases
      case 1
      have "(2::nat) ^ 23 * 2 ^ 8 \<le> (M + 2 ^ 23) * 2 ^ (E - 150)"
        using 1 by (intro mult_le_mono power_increasing) simp_all
      then have "2 ^ 31 \<le> (M + 2 ^ 23) * 2 ^ (E - 150)" by simp
      then have "2 ^ 31 \<le> int ((M + 2 ^ 23) * 2 ^ (E - 150))" by (metis of_nat_le_iff of_nat_numeral of_nat_power)
      then have "rne_int (f32_of x) = (if s then - (2 ^ 31) else 2 ^ 31 - 1)"
        unfolding val using 1 by (simp add: signed_def)
      then show ?thesis using 1 am big by (simp add: code)
    next
      case 2
      have "(M + 2 ^ 23) * 2 ^ (E - 150) < 2 ^ 31" using w_lane_bound[OF a158[OF 2(2)], unfolded am] 2 by simp
      then show ?thesis using 2 am(3) small[OF a158[OF 2(2)], unfolded am] clamp unfolding val code am by simp
    next
      case 3
      have same: "shift_rne (M + 2 ^ 23) (min (150 - E) 31) = shift_rne (M + 2 ^ 23) (150 - E)"
      proof (cases "150 - E \<le> 31")
        case False
        have "M + 2 ^ 23 < 2 ^ 24" using normal(4) by simp
        also have "(2::nat) ^ 24 \<le> 2 ^ (150 - E - 1)" using False by (intro power_increasing) simp_all
        finally have "shift_rne (M + 2 ^ 23) (150 - E) = 0" using False by (intro shift_rne_small) simp_all
        moreover have "shift_rne (M + 2 ^ 23) 31 = 0" using normal(4) by (intro shift_rne_small) simp_all
        ultimately show ?thesis using False by simp
      qed simp
      have "shift_rne (M + 2 ^ 23) (150 - E) < 2 ^ 31" using w_lane_bound[OF a158, unfolded am] 3 same by simp
      then show ?thesis using 3 am(3) small[OF a158, unfolded am] clamp same unfolding val code am by simp
    qed
  next
    case subnormal
    have sub: "a < 2 ^ 23" using subnormal(1) by (simp add: a_def)
    have "shift_rne (a + 2 ^ 23) 31 = 0" using sub by (intro shift_rne_small) simp_all
    then have l: "sint (isa_sf_to_w_rne sh x) = 0" using sub small by (simp add: code signed_def)
    have "shift_rne a 149 = 0" using sub power_increasing[of 23 148 "2::nat"] by (intro shift_rne_small) simp_all
    then show ?thesis unfolding l subnormal(2) a_def[symmetric] by (simp add: signed_def)
  qed
qed

end
