(* ===== verification/HvxMul.thy ===== *)
theory HvxMul
  imports HvxLanes
begin

text \<open>
  The f32 product of \<open>tools/htp-lab/isa/isa_kernels.c\<close> (a copy of \<open>hvx-exact.h\<close> of the DSP kernels), which uses
  integer instructions only and rounds one time. A subnormal input counts as a zero, and a product below the
  smallest normal value is a zero.
\<close>

subsection \<open>The routine\<close>

text \<open>The argument \<open>mpy\<close> is the pair of instructions \<open>vmpye\<close> and \<open>vmpyoacc\<close>, which gives the high and the low word
  of a product.\<close>

definition isa_hvx_exact_sf_mul :: "lane_shift \<Rightarrow> (u32 \<Rightarrow> u32 \<Rightarrow> u32 \<times> u32) \<Rightarrow> u32 \<Rightarrow> u32 \<Rightarrow> u32" where
  "isa_hvx_exact_sf_mul sh mpy a b =
     (let sign = (a XOR b) AND 0x80000000;
          ea = drop_bit 23 a AND 0xff;
          eb = drop_bit 23 b AND 0xff;
          ma = (a AND 0x007fffff) OR 0x00800000;
          mb = (b AND 0x007fffff) OR 0x00800000;
          (hi, lo) = mpy ma mb;
          t = drop_bit 15 hi;
          s9 = 9 - t;
          m = vasl sh hi s9 OR vlsr sh lo (t + 23);
          rest = vasl sh lo s9;
          q_up = vuw_gt (rest OR (m AND 1)) 0x80000000;
          m = condacc q_up m 1;
          e2 = (ea + eb) + (t - 128);
          r = push_bit 23 e2 + m;
          r = vmux (vw_gt 0 e2) 0 r;
          r = vmux (vw_gt e2 253) 0x7f800000 r;
          q_z = (ea = 0 \<or> eb = 0);
          q_s = (ea = 0xff \<or> eb = 0xff);
          q_nan = (q_z \<or> (vuw_gt (a AND 0x7fffffff) 0x7f800000 \<or> vuw_gt (b AND 0x7fffffff) 0x7f800000));
          r = vmux q_z 0 r;
          r = vmux q_s (vmux q_nan 0x7fc00000 0x7f800000) r
      in r OR vmux (q_s \<and> \<not> q_nan) sign (vmux q_s 0 sign))"

subsection \<open>The product\<close>

text \<open>The rules of the routine: a subnormal input is a zero, and a product below the smallest normal value is a zero.\<close>

definition daz :: "fp \<Rightarrow> fp" where
  "daz x = (case x of Fin s m e \<Rightarrow> if m < 2 ^ 23 then Fin s 0 (-149) else x | _ \<Rightarrow> x)"

definition tiny :: "nat \<Rightarrow> int \<Rightarrow> bool" where
  "tiny m e \<longleftrightarrow> e < -126 \<and> m < 2 ^ nat (-126 - e)"

definition mul_ftz :: "fp \<Rightarrow> fp \<Rightarrow> fp" where
  "mul_ftz x y = (case (daz x, daz y) of
     (Fin s m e, Fin t n d) \<Rightarrow> if tiny (m * n) (e + d) then Fin (s \<noteq> t) 0 (-149) else fp_mul F32 (daz x) (daz y)
   | _ \<Rightarrow> fp_mul F32 (daz x) (daz y))"

text \<open>What the routine relies on for the two multiply instructions.\<close>

definition product_pair :: "(u32 \<Rightarrow> u32 \<Rightarrow> u32 \<times> u32) \<Rightarrow> bool" where
  "product_pair mpy \<longleftrightarrow> (\<forall>a b. unat a < 2 ^ 31 \<longrightarrow> unat b < 2 ^ 31 \<longrightarrow>
     unat (fst (mpy a b)) * 2 ^ 32 + unat (snd (mpy a b)) = unat a * unat b)"

text \<open>The significand and the exponent field of the product of two normal values.\<close>

lemma mul_significand:
  fixes sh :: lane_shift
  assumes P: "unat hi * 2 ^ 32 + unat lo = P" "P < 2 ^ 48"
  defines "t \<equiv> drop_bit 15 hi"
  defines "m \<equiv> vasl sh hi (9 - t) OR vlsr sh lo (t + 23)"
  shows "unat t = P div 2 ^ 47 \<and> P div 2 ^ 47 \<le> 1 \<and>
    unat (condacc (vuw_gt (vasl sh lo (9 - t) OR (m AND 1)) 0x80000000) m 1) = shift_rne P (23 + P div 2 ^ 47)"
proof -
  define T where "T = P div 2 ^ 47"
  have lo: "unat lo < 2 ^ 32" using unat_lt2p[of lo] by simp
  have hi: "unat hi = P div 2 ^ 32" unfolding P(1)[symmetric] using lo by simp
  have t: "unat t = T" unfolding t_def unat_drop hi T_def by (simp add: div_mult2_eq[symmetric])
  have T1: "T \<le> 1" unfolding T_def using P(2) by (simp add: less_mult_imp_div_less flip: less_Suc_eq_le)
  have hi16: "unat hi < 2 ^ 16" unfolding hi using P(2) by (simp add: less_mult_imp_div_less)
  have n: "unat (9 - t) = 9 - T" "unat (t + 23) = 23 + T"
    using t T1 by (simp add: unat_sub_small, subst unat_add_le) simp_all
  have "unat hi * 2 ^ (9 - T) < 2 ^ 16 * 2 ^ 9"
    using hi16 by (intro mult_less_le_imp_less power_increasing) simp_all
  then have a: "unat (vasl sh hi (9 - t)) = unat hi * 2 ^ (9 - T)" using n T1 less_imp_diff_less[of 9 32 T] by (simp add: vasl_def unat_push)
  have b: "unat (vlsr sh lo (t + 23)) = unat lo div 2 ^ (23 + T)" using n T1 by (simp add: vlsr_def unat_drop)
  have two: "(2::nat) ^ 32 = 2 ^ (9 - T) * 2 ^ (23 + T)" using T1 by (simp add: power_add[symmetric])
  have split: "P = (unat hi * 2 ^ (9 - T)) * 2 ^ (23 + T) + unat lo" by (simp only: P(1)[symmetric] two mult.assoc)
  have "unat lo div 2 ^ (23 + T) < 2 ^ (9 - T)" using lo two by (simp add: less_mult_imp_div_less)
  then have "unat (vlsr sh lo (t + 23) OR vasl sh hi (9 - t)) = unat lo div 2 ^ (23 + T) + unat hi * 2 ^ (9 - T)"
    using unat_or_add[of "vlsr sh lo (t + 23)" "9 - T" "vasl sh hi (9 - t)"] unfolding a b by simp
  also have "\<dots> = P div 2 ^ (23 + T)"
    unfolding split by (subst div_mult_self3) simp_all
  finally have m: "unat m = P div 2 ^ (23 + T)" unfolding m_def by (simp add: or.commute)
  have "unat (vasl sh lo (9 - t)) = unat lo * 2 ^ (32 - (23 + T)) mod 2 ^ 32" using n T1 less_imp_diff_less[of 9 32 T] by (simp add: vasl_def unat_push)
  also have "\<dots> = (unat lo mod 2 ^ (23 + T)) * 2 ^ (32 - (23 + T))" using T1 by (intro shifted_out) simp
  also have "unat lo mod 2 ^ (23 + T) = P mod 2 ^ (23 + T)"
    unfolding split by (simp only: mod_mult_self3)
  finally have rest: "unat (vasl sh lo (9 - t)) = (P mod 2 ^ (23 + T)) * 2 ^ (32 - (23 + T))" .
  have "P div 2 ^ (23 + T) < 2 ^ 31"
  proof -
    have "P div 2 ^ (23 + T) \<le> P div 2 ^ 23" by (intro div_le_mono2 power_increasing) simp_all
    also have "\<dots> < 2 ^ 31" using P(2) by (simp add: less_mult_imp_div_less)
    finally show ?thesis .
  qed
  then have "unat (condacc (vuw_gt (vasl sh lo (9 - t) OR (m AND 1)) 0x80000000) m 1) = shift_rne P (23 + T)"
    using m rest T1 by (intro rne_step) simp_all
  then show ?thesis using t T1 by (simp add: T_def)
qed

lemma mul_exponent:
  assumes e: "unat ea = E" "unat eb = F" "unat t = T" and b: "E < 255" "F < 255" "T \<le> 1"
  defines "e2 \<equiv> (ea + eb) + (t - 128)"
  shows "vw_gt 0 e2 \<longleftrightarrow> E + F + T < 128" "128 \<le> E + F + T \<Longrightarrow> unat e2 = E + F + T - 128"
    "vw_gt e2 253 \<longleftrightarrow> 253 + 128 < E + F + T"
proof -
  have sum: "unat (ea + eb + t) = E + F + T" using e b by (subst unat_add_le, subst unat_add_le) (simp_all add: unat_add_le)
  have e2: "e2 = (ea + eb + t) - 128" by (simp add: e2_def)
  show u: "128 \<le> E + F + T \<Longrightarrow> unat e2 = E + F + T - 128"
    unfolding e2 by (subst unat_sub_small) (simp_all add: sum)
  have neg: "sint e2 = int (E + F + T) - 128"
  proof (cases "128 \<le> E + F + T")
    case True
    then show ?thesis using u b by (subst sint_small) (simp_all add: of_nat_diff)
  next
    case False
    have "unat e2 = 2 ^ 32 + (E + F + T) - 128" unfolding e2 using False by (subst unat_sub_if') (simp add: sum)
    then show ?thesis using False by (subst sint_big) (simp_all add: of_nat_diff)
  qed
  show "vw_gt 0 e2 \<longleftrightarrow> E + F + T < 128" unfolding vw_gt_def neg by simp linarith
  have "sint (253 :: u32) = 253" using sint_small[of 253] by simp
  then show "vw_gt e2 253 \<longleftrightarrow> 253 + 128 < E + F + T" unfolding vw_gt_def neg by simp linarith
qed


text \<open>The pattern without the sign, for two normal values.\<close>

definition mul_code :: "nat \<Rightarrow> nat \<Rightarrow> nat \<Rightarrow> nat" where
  "mul_code P E F = (let T = P div 2 ^ 47 in
     if E + F + T < 128 then 0
     else if 253 + 128 < E + F + T then 0x7f800000
     else (E + F + T - 128) * 2 ^ 23 + shift_rne P (23 + T))"

lemma mul_code_round:
  assumes M: "M < 2 ^ 23" "N < 2 ^ 23" and E: "0 < E" "0 < F"
  defines "P \<equiv> (M + 2 ^ 23) * (N + 2 ^ 23)"
  shows "decode F32 s (mul_code P E F) = (if tiny P (int E - 150 + (int F - 150)) then Fin s 0 (-149)
      else round_fp F32 s P (int E - 150 + (int F - 150)))" "mul_code P E F < 2 ^ 31"
    "2 ^ 46 \<le> P" "P < 2 ^ 48"
proof -
  define T where "T = P div 2 ^ 47"
  have "(2::nat) ^ 23 * 2 ^ 23 \<le> P" unfolding P_def by (intro mult_le_mono) simp_all
  then show P0: "2 ^ 46 \<le> P" by simp
  have "P < 2 ^ 24 * 2 ^ 24" unfolding P_def using M by (intro mult_strict_mono) simp_all
  then show P1: "P < 2 ^ 48" by simp
  have T: "T \<le> 1" unfolding T_def using P1 by (simp add: less_mult_imp_div_less flip: less_Suc_eq_le)
  have bounds: "2 ^ (46 + T) \<le> P \<and> P < 2 ^ (47 + T)"
  proof (cases "P < 2 ^ 47")
    case True
    then have "T = 0" by (simp add: T_def)
    then show ?thesis using P0 True by simp
  next
    case False
    then have "T = 1" using T by (auto simp: T_def div_eq_0_iff le_Suc_eq)
    then show ?thesis using P1 False by simp
  qed
  then have L: "bit_length P = 47 + T" by (intro bit_length_eq) simp_all
  have "(2::nat) ^ (47 + T) = 2 ^ 24 * 2 ^ (23 + T)" by (simp add: power_add)
  then have "P \<le> 2 ^ 24 * 2 ^ (23 + T)" using bounds by linarith
  then have T24: "shift_rne P (23 + T) \<le> 2 ^ 24" by (rule shift_rne_le)
  have tiny: "tiny P (int E - 150 + (int F - 150)) \<longleftrightarrow> E + F + T < 128"
  proof (cases "E + F + T < 128")
    case True
    then have "nat (-126 - (int E - 150 + (int F - 150))) = 174 - (E + F)" "E + F \<le> 127" by simp_all
    moreover have "(2::nat) ^ (47 + T) \<le> 2 ^ (174 - (E + F))" using True by (intro power_increasing) simp_all
    then have "P < 2 ^ (174 - (E + F))" using bounds by linarith
    ultimately show ?thesis using True by (simp add: tiny_def)
  next
    case False
    have "(2::nat) ^ nat (-126 - (int E - 150 + (int F - 150))) \<le> 2 ^ (46 + T)"
      using False by (intro power_increasing) simp_all
    then have "\<not> P < 2 ^ nat (-126 - (int E - 150 + (int F - 150)))" using bounds by linarith
    then show ?thesis using False by (simp add: tiny_def)
  qed
  show "mul_code P E F < 2 ^ 31"
    using T24 by (auto simp: mul_code_def Let_def T_def[simplified, symmetric])
  show "decode F32 s (mul_code P E F) = (if tiny P (int E - 150 + (int F - 150)) then Fin s 0 (-149)
      else round_fp F32 s P (int E - 150 + (int F - 150)))"
  proof -
    consider "E + F + T < 128" | "253 + 128 < E + F + T" | "128 \<le> E + F + T" "E + F + T \<le> 253 + 128" by linarith
    then show ?thesis
    proof cases
      case 1
      then have "mul_code P E F = 0" unfolding mul_code_def T_def[symmetric] Let_def by simp
      then show ?thesis using 1 tiny by (simp add: decode_f32)
    next
      case 2
      then have c: "mul_code P E F = 0x7f800000" unfolding mul_code_def T_def[symmetric] Let_def by simp
      have "0 < P" using P0 by (rule less_le_trans[rotated]) simp
      then have "round_fp F32 s P (int E - 150 + (int F - 150)) = Inf s"
        using 2 by (intro round_fp_overflow) (simp_all add: L F32_def good_fmt_def)
      then show ?thesis using 2 tiny c by (simp add: decode_f32)
    next
      case 3
      have c: "mul_code P E F = (E + F + T - 128) * 2 ^ 23 + shift_rne P (23 + T)"
        using 3 unfolding mul_code_def T_def[symmetric] Let_def by simp
      let ?e1 = "int (E + F + T) - 277" and ?e = "int E - 150 + (int F - 150)"
      have "0 < P" using P0 by (rule less_le_trans[rotated]) simp
      then have "round_fp F32 s P ?e = decode F32 s (nat (?e1 - e_min F32) * 2 ^ (prec F32 - 1) + shift_rne P (nat (?e1 - ?e)))"
        using 3 by (intro round_fp_code) (simp_all add: L F32_def good_fmt_def)
      moreover have "nat (?e1 - ?e) = 23 + T" "nat (?e1 - e_min F32) = E + F + T - 128" using 3 by (simp_all add: F32_def)
      ultimately show ?thesis using 3 tiny c by (simp add: F32_def)
    qed
  qed
qed

lemma normal_product_lane:
  fixes sh :: lane_shift
  assumes P: "unat hi * 2 ^ 32 + unat lo = P" "2 ^ 46 \<le> P" "P < 2 ^ 48"
    and e: "unat ea = E" "unat eb = F" "E < 255" "F < 255"
  defines "t \<equiv> drop_bit 15 hi"
  defines "m \<equiv> vasl sh hi (9 - t) OR vlsr sh lo (t + 23)" and "e2 \<equiv> (ea + eb) + (t - 128)"
  shows "unat (vmux (vw_gt e2 253) 0x7f800000 (vmux (vw_gt 0 e2) 0
      (push_bit 23 e2 + condacc (vuw_gt (vasl sh lo (9 - t) OR (m AND 1)) 0x80000000) m 1))) = mul_code P E F"
proof -
  define T where "T = P div 2 ^ 47"
  note sig = mul_significand[OF P(1,3), of sh, folded t_def, folded m_def, folded T_def]
  have t: "unat t = T" "T \<le> 1" using sig by blast+
  note ex = mul_exponent[OF e(1,2) t(1) e(3,4) t(2), folded e2_def]
  show ?thesis
  proof (cases "128 \<le> E + F + T \<and> E + F + T \<le> 253 + 128")
    case True
    have "shift_rne P (23 + T) \<le> 2 ^ 24"
    proof (rule shift_rne_le)
      have "P < 2 ^ 24 * 2 ^ (23 + T)"
      proof (cases "T = 0")
        case True
        then have "P < 2 ^ 47" by (simp add: T_def div_eq_0_iff)
        then show ?thesis using True by simp
      next
        case False
        then show ?thesis using t(2) P(3) by (simp add: le_Suc_eq)
      qed
      then show "P \<le> 2 ^ 24 * 2 ^ (23 + T)" by (rule less_imp_le)
    qed
    moreover have X: "E + F + T - 128 \<le> 253" using True by linarith
    moreover have "unat (push_bit 23 e2) = (E + F + T - 128) * 2 ^ 23" using True ex(2) X by (simp add: unat_push)
    ultimately have "unat (push_bit 23 e2 + condacc (vuw_gt (vasl sh lo (9 - t) OR (m AND 1)) 0x80000000) m 1)
        = (E + F + T - 128) * 2 ^ 23 + shift_rne P (23 + T)"
      using sig by (subst unat_add_le) simp_all
    then show ?thesis using True ex unfolding vmux_def mul_code_def T_def[symmetric] Let_def by simp
  next
    case False
    then show ?thesis using ex unfolding vmux_def mul_code_def T_def[symmetric] Let_def by auto
  qed
qed

text \<open>C7. For each two f32 patterns \<open>isa_hvx_exact_sf_mul\<close> gives the IEEE product, rounded to nearest, ties to even,
  of the values with subnormal inputs taken as zeros, and a signed zero when the exact product is below the smallest
  normal value; Inf, NaN and signed zeros are those of IEEE 754. It relies on the two multiply instructions giving
  the 64-bit product (\<open>product_pair\<close>).\<close>

theorem exact_sf_mul:
  assumes mpy: "product_pair mpy"
  shows "f32_of (isa_hvx_exact_sf_mul sh mpy a b) = mul_ftz (f32_of a) (f32_of b)"
proof -
  define E F M N where "E = unat a div 2 ^ 23 mod 2 ^ 8" and "F = unat b div 2 ^ 23 mod 2 ^ 8"
    and "M = unat a mod 2 ^ 23" and "N = unat b mod 2 ^ 23"
  define s t where "s \<longleftrightarrow> 2 ^ 31 \<le> unat a" and "t \<longleftrightarrow> 2 ^ 31 \<le> unat b"
  have M: "M < 2 ^ 23" "N < 2 ^ 23" "E \<le> 255" "F \<le> 255"
    using pos_mod_bound[of "2 ^ 8" "int (unat a div 2 ^ 23)"] unfolding M_def N_def E_def F_def by (simp_all flip: less_Suc_eq_le)
  define ea eb where "ea = drop_bit 23 a AND 0xff" and "eb = drop_bit 23 b AND 0xff"
  define ma mb where "ma = (a AND 0x007fffff) OR 0x00800000" and "mb = (b AND 0x007fffff) OR 0x00800000"
  obtain hi lo where hl: "mpy ma mb = (hi, lo)" by force
  have e: "unat ea = E" "unat eb = F" unfolding ea_def eb_def E_def F_def by (rule exp_field)+
  have m: "unat ma = M + 2 ^ 23" "unat mb = N + 2 ^ 23" unfolding ma_def mb_def M_def N_def by (rule hidden_one)+
  define P where "P = (M + 2 ^ 23) * (N + 2 ^ 23)"
  have "unat ma < 2 ^ 31" "unat mb < 2 ^ 31" using M m by simp_all
  then have P: "unat hi * 2 ^ 32 + unat lo = P" using mpy[unfolded product_pair_def, rule_format, of ma mb] by (simp add: hl m P_def)
  define sgn where "sgn = (a XOR b) AND 0x80000000"
  have sgn: "unat sgn = (if s \<noteq> t then 2 ^ 31 else 0)" unfolding sgn_def s_def t_def by (rule xor_sign)
  have dz: "daz (f32_of a) = (if E = 255 then if M = 0 then Inf s else NaN else if E = 0 then Fin s 0 (-149) else Fin s (M + 2 ^ 23) (int E - 150))"
    "daz (f32_of b) = (if F = 255 then if N = 0 then Inf t else NaN else if F = 0 then Fin t 0 (-149) else Fin t (N + 2 ^ 23) (int F - 150))"
    using M(1,2) unfolding f32_fields E_def[symmetric] F_def[symmetric] M_def[symmetric] N_def[symmetric] s_def[symmetric] t_def[symmetric]
    by (simp_all add: daz_def Let_def)
  have nans: "vuw_gt (a AND 0x7fffffff) 0x7f800000 \<longleftrightarrow> E = 255 \<and> M \<noteq> 0"
    "vuw_gt (b AND 0x7fffffff) 0x7f800000 \<longleftrightarrow> F = 255 \<and> N \<noteq> 0"
    unfolding E_def F_def M_def N_def by (rule nan_lane)+
  have zero: "ea = 0 \<longleftrightarrow> E = 0" "eb = 0 \<longleftrightarrow> F = 0" "ea = 0xff \<longleftrightarrow> E = 255" "eb = 0xff \<longleftrightarrow> F = 255"
    using e by (simp_all add: word_unat_eq_iff)
  define core where "core = vmux (vw_gt ((ea + eb) + (drop_bit 15 hi - 128)) 253) 0x7f800000 (vmux (vw_gt 0 ((ea + eb) + (drop_bit 15 hi - 128))) 0
      (push_bit 23 ((ea + eb) + (drop_bit 15 hi - 128)) + condacc (vuw_gt (vasl sh lo (9 - drop_bit 15 hi) OR
        ((vasl sh hi (9 - drop_bit 15 hi) OR vlsr sh lo (drop_bit 15 hi + 23)) AND 1)) 0x80000000)
        (vasl sh hi (9 - drop_bit 15 hi) OR vlsr sh lo (drop_bit 15 hi + 23)) 1))"
  have code: "isa_hvx_exact_sf_mul sh mpy a b =
      vmux (E = 255 \<or> F = 255) (vmux ((E = 0 \<or> F = 0) \<or> (E = 255 \<and> M \<noteq> 0) \<or> (F = 255 \<and> N \<noteq> 0)) 0x7fc00000 0x7f800000)
        (vmux (E = 0 \<or> F = 0) 0 core) OR
      vmux ((E = 255 \<or> F = 255) \<and> \<not> ((E = 0 \<or> F = 0) \<or> (E = 255 \<and> M \<noteq> 0) \<or> (F = 255 \<and> N \<noteq> 0))) sgn
        (vmux (E = 255 \<or> F = 255) 0 sgn)"
    unfolding isa_hvx_exact_sf_mul_def Let_def ea_def[symmetric] eb_def[symmetric] ma_def[symmetric] mb_def[symmetric]
      sgn_def[symmetric] hl prod.case nans zero core_def ..
  have pat: "f32_of (r OR sgn) = decode F32 (s \<noteq> t) (unat r)" if "unat r < 2 ^ 31" for r
    by (rule f32_of_signed[OF that unat_or_sign[OF that sgn]])
  have inf: "f32_of (0x7f800000 OR sgn) = Inf (s \<noteq> t)" and zer: "f32_of (0 OR sgn) = Fin (s \<noteq> t) 0 (-149)"
    by (subst pat; simp add: decode_f32)+
  consider (special) "E = 255 \<or> F = 255" | (zero) "E \<noteq> 255" "F \<noteq> 255" "E = 0 \<or> F = 0"
    | (normal) "0 < E" "E < 255" "0 < F" "F < 255" using M(3,4) by linarith
  then show ?thesis
  proof cases
    case special
    have nan: "f32_of (0x7fc00000 OR 0) = NaN" by (simp add: f32_of_def decode_f32)
    show ?thesis
      using special inf nan M(1,2) unfolding code mul_ftz_def dz by (auto simp: vmux_def)
  next
    case zero
    have "mul_ftz (f32_of a) (f32_of b) = Fin (s \<noteq> t) 0 (-149)"
      using zero M(1,2) unfolding mul_ftz_def dz by (auto simp: F32_def)
    then show ?thesis using zero zer unfolding code by (simp add: vmux_def)
  next
    case normal
    note r = mul_code_round[OF M(1,2) normal(1,3), folded P_def]
    have u: "unat core = mul_code P E F"
      unfolding core_def using P r(3,4) e normal(2,4) by (intro normal_product_lane) simp_all
    have "f32_of (isa_hvx_exact_sf_mul sh mpy a b) = decode F32 (s \<noteq> t) (mul_code P E F)"
      using pat[of core] r(2) normal unfolding code u by (simp add: vmux_def)
    also have "\<dots> = mul_ftz (f32_of a) (f32_of b)"
      using normal unfolding mul_ftz_def dz r(1) by (simp add: P_def)
    finally show ?thesis .
  qed
qed

lemma exact_sf_mul_witness:
  "\<exists>mpy. product_pair mpy \<and> f32_of (isa_hvx_exact_sf_mul \<lparr>lsr_out = \<lambda>x n. 0, asl_out = \<lambda>x n. 0\<rparr> mpy 0x3fc00000 0xbfc00000)
     = Fin True 0x900000 (-22)"
proof -
  let ?mpy = "\<lambda>a b. (of_nat (unat a * unat b div 2 ^ 32), of_nat (unat a * unat b mod 2 ^ 32)) :: u32 \<times> u32"
  have pp: "product_pair ?mpy"
    unfolding product_pair_def
  proof (intro allI impI)
    fix a b :: u32
    assume "unat a < 2 ^ 31" "unat b < 2 ^ 31"
    then have "unat a * unat b < 2 ^ 31 * 2 ^ 31" by (intro mult_strict_mono) simp_all
    then have "unat a * unat b div 2 ^ 32 < 2 ^ 32" by (simp add: less_mult_imp_div_less)
    then have "unat (of_nat (unat a * unat b div 2 ^ 32) :: u32) = unat a * unat b div 2 ^ 32" by (intro unat_of_nat_less) simp
    moreover have "unat (of_nat (unat a * unat b mod 2 ^ 32) :: u32) = unat a * unat b mod 2 ^ 32" by (intro unat_of_nat_less) simp
    ultimately show "unat (fst (?mpy a b)) * 2 ^ 32 + unat (snd (?mpy a b)) = unat a * unat b"
      by (simp only: fst_conv snd_conv div_mult_mod_eq)
  qed
  have "f32_of 0x3fc00000 = Fin False 0xc00000 (-23)" "f32_of 0xbfc00000 = Fin True 0xc00000 (-23)"
    by (simp_all add: f32_of_def decode_f32)
  moreover have "bit_length 0x900000000000 = 48" by (rule bit_length_eq) simp_all
  ultimately show ?thesis
    using pp exact_sf_mul[OF pp, of "\<lparr>lsr_out = \<lambda>x n. 0, asl_out = \<lambda>x n. 0\<rparr>" "0x3fc00000" "0xbfc00000"]
    by (intro exI[of _ ?mpy]) (simp add: mul_ftz_def daz_def tiny_def round_fp_def F32_def shift_rne_def Let_def)
qed

end
