(* ===== verification/HvxAdd.thy ===== *)
theory HvxAdd
  imports HvxMul FloatJam
begin

text \<open>
  The f32 sum of \<open>tools/htp-lab/isa/isa_kernels.c\<close> (a copy of \<open>hvx-exact.h\<close> of the DSP kernels): integer
  instructions only, seven guard bits with a sticky bit, and one rounding. A subnormal input counts as a zero, and a sum
  below the smallest normal value is a zero.
\<close>

subsection \<open>The routine\<close>

definition isa_hvx_exact_sf_add :: "lane_shift \<Rightarrow> u32 \<Rightarrow> u32 \<Rightarrow> u32" where
  "isa_hvx_exact_sf_add sh a b =
     (let aa = a AND 0x7fffffff;
          ab = b AND 0x7fffffff;
          q_x = vw_gt ab aa;
          A = vmux q_x b a;
          AA = vmux q_x ab aa;
          BB = vmux q_x aa ab;
          eA = drop_bit 23 AA;
          eB = drop_bit 23 BB;
          mA = push_bit 7 ((AA AND 0x007fffff) OR 0x00800000);
          mB = push_bit 7 ((BB AND 0x007fffff) OR 0x00800000);
          mB = vmux (eB = 0) 0 mB;
          d = vw_min (eA - eB) 31;
          mBs = vlsr sh mB d;
          q_st = (vasl sh mBs d = mB);
          mBs = vmux q_st mBs (mBs OR 1);
          q_sub = vw_gt 0 (a XOR b);
          M = vmux q_sub (mA - mBs) (mA + mBs);
          lz = vcl0 M;
          Mc = drop_bit 1 M OR (M AND 1);
          Mn = vasl sh M (lz - 1);
          M' = vmux (lz = 0) Mc Mn;
          e = (eA + 1) - lz;
          m = drop_bit 7 M';
          rest = push_bit 25 M';
          q_up = vuw_gt (rest OR (m AND 1)) 0x80000000;
          m = condacc q_up m 1;
          r = push_bit 23 (e - 1) + m;
          r = vmux (vw_gt 1 e) 0 r;
          r = vmux (vw_gt e 254) 0x7f800000 r;
          r = r OR (A AND 0x80000000);
          r = vmux (M' = 0) 0 r;
          r = vmux (eA = 0) (a AND b AND 0x80000000) r;
          q_s = vw_gt AA 0x7f7fffff;
          q_nan = (vw_gt AA 0x7f800000 \<or> (q_sub \<and> BB = 0x7f800000))
      in vmux q_s (vmux q_nan 0x7fc00000 A) r)"

subsection \<open>The aligned sum\<close>

lemma tiny_iff: "0 < m \<Longrightarrow> tiny m e \<longleftrightarrow> e + int (bit_length m) \<le> -126"
proof -
  assume m: "0 < m"
  have b: "2 ^ (bit_length m - 1) \<le> m" "m < 2 ^ bit_length m" "0 < bit_length m" using bit_length_bounds[OF m] by auto
  show ?thesis
  proof (cases "e + int (bit_length m) \<le> -126")
    case True
    then have "(2::nat) ^ bit_length m \<le> 2 ^ nat (-126 - e)" by (intro power_increasing) simp_all
    then have "m < 2 ^ nat (-126 - e)" using b(2) by linarith
    then show ?thesis using True b(3) by (simp add: tiny_def)
  next
    case False
    have "\<not> m < 2 ^ nat (-126 - e)" if "e < -126"
    proof -
      have "(2::nat) ^ nat (-126 - e) \<le> 2 ^ (bit_length m - 1)" using False that by (intro power_increasing) linarith+
      then show ?thesis using b by linarith
    qed
    then show ?thesis using False by (auto simp: tiny_def)
  qed
qed

text \<open>The lane of the aligned operand.\<close>

lemma jam_lane:
  assumes n: "unat n = d" "d < 32" and m: "unat m < 2 ^ 31"
  shows "unat (vmux (vasl sh (vlsr sh m n) n = m) (vlsr sh m n) (vlsr sh m n OR 1)) = jam (unat m) d"
proof -
  have q: "unat (vlsr sh m n) = unat m div 2 ^ d" using n by (simp add: vlsr_def unat_drop)
  have le: "unat m div 2 ^ d * 2 ^ d \<le> unat m" by simp
  then have "unat (vasl sh (vlsr sh m n) n) = unat m div 2 ^ d * 2 ^ d"
    using n mod_less[OF le_less_trans[OF le, of "2 ^ 32"]] m by (simp add: vasl_def unat_push q)
  then have eq: "vasl sh (vlsr sh m n) n = m \<longleftrightarrow> unat m div 2 ^ d * 2 ^ d = unat m" by (simp add: word_unat_eq_iff)
  have one: "unat (w OR 1) = 2 * (unat w div 2) + 1" for w :: u32
  proof -
    have "n OR 1 = 2 * (n div 2) + 1" for n :: nat unfolding or_one_eq by (auto elim!: oddE evenE)
    then show ?thesis by (simp only: unsigned_or_eq unsigned_1)
  qed
  show ?thesis unfolding vmux_def eq jam_def Let_def by (simp add: q one)
qed

text \<open>The sum of the aligned significands, jammed as in the routine, and the exact sum.\<close>

definition sum_jam :: "bool \<Rightarrow> nat \<Rightarrow> nat \<Rightarrow> nat \<Rightarrow> nat" where
  "sum_jam neg p q D = (if neg then p * 2 ^ 7 - jam (q * 2 ^ 7) D else p * 2 ^ 7 + jam (q * 2 ^ 7) D)"

definition sum_exact :: "bool \<Rightarrow> nat \<Rightarrow> nat \<Rightarrow> nat \<Rightarrow> nat" where
  "sum_exact neg p q D = (if neg then p * 2 ^ 7 * 2 ^ D - q * 2 ^ 7 else p * 2 ^ 7 * 2 ^ D + q * 2 ^ 7)"

lemma sum_jam_jam: "q \<le> p * 2 ^ D \<Longrightarrow> sum_jam neg p q D = jam (sum_exact neg p q D) D"
  using jam_add[of "p * 2 ^ 7" "q * 2 ^ 7" D] jam_sub(1)[of "p * 2 ^ 7" "q * 2 ^ 7" D]
  by (simp add: sum_jam_def sum_exact_def)

lemma sum_jam_bounds:
  assumes p: "2 ^ 23 \<le> p" "p < 2 ^ 24" and q: "q < 2 ^ 24" "q \<le> p * 2 ^ D"
  shows "sum_jam neg p q D < 2 ^ 32"
    and "sum_jam neg p q D * 2 ^ D = sum_exact neg p q D \<or> 2 ^ 25 \<le> sum_jam neg p q D"
proof -
  have q31: "q * 2 ^ 7 < 2 ^ 31" using q(1) by simp
  have "jam (q * 2 ^ 7) (min D 31) \<le> 2 ^ (31 - min D 31)" using q31 by (intro jam_le) simp_all
  then have j: "jam (q * 2 ^ 7) D \<le> 2 ^ (31 - min D 31)" unfolding jam_cap[OF q31] .
  have j2: "jam (q * 2 ^ 7) D * 2 ^ D = q * 2 ^ 7 \<or> jam (q * 2 ^ 7) D \<le> 2 ^ 23"
  proof (cases "D \<le> 7")
    case False
    have "(2::nat) ^ (31 - min D 31) \<le> 2 ^ 23" using False by (intro power_increasing) simp_all
    then show ?thesis using j by linarith
  qed (simp only: jam_small_shift simp_thms)
  have "jam (q * 2 ^ 7) D \<le> q * 2 ^ 7 \<or> jam (q * 2 ^ 7) D \<le> 2 ^ 23"
    using j2
  proof
    assume e: "jam (q * 2 ^ 7) D * 2 ^ D = q * 2 ^ 7"
    have "jam (q * 2 ^ 7) D * 1 \<le> jam (q * 2 ^ 7) D * 2 ^ D" by (rule mult_le_mono2) simp
    then show ?thesis unfolding e by simp
  qed simp
  then have "jam (q * 2 ^ 7) D < 2 ^ 31" using q31 by auto
  then show "sum_jam neg p q D < 2 ^ 32" using p by (auto simp: sum_jam_def)
  show "sum_jam neg p q D * 2 ^ D = sum_exact neg p q D \<or> 2 ^ 25 \<le> sum_jam neg p q D"
    using j2
  proof
    assume "jam (q * 2 ^ 7) D * 2 ^ D = q * 2 ^ 7"
    then have "sum_jam neg p q D * 2 ^ D = sum_exact neg p q D"
      by (simp add: sum_jam_def sum_exact_def add_mult_distrib diff_mult_distrib)
    then show ?thesis ..
  next
    assume "jam (q * 2 ^ 7) D \<le> 2 ^ 23"
    then show ?thesis using p by (auto simp: sum_jam_def)
  qed
qed

text \<open>The rounded sum is the rounded jammed sum.\<close>

lemma round_sum_jam:
  assumes p: "2 ^ 23 \<le> p" "p < 2 ^ 24" and q: "q < 2 ^ 24" "q \<le> p * 2 ^ D"
    and w: "w * 2 ^ k = sum_exact neg p q D"
  defines "M \<equiv> sum_jam neg p q D"
  shows "w = 0 \<longleftrightarrow> M = 0"
    and "M \<noteq> 0 \<Longrightarrow> round_fp F32 s w (e - int D + int k) = round_fp F32 s M e"
    and "M \<noteq> 0 \<Longrightarrow> tiny w (e - int D + int k) \<longleftrightarrow> e + int (bit_length M) \<le> -126"
proof -
  let ?V = "sum_exact neg p q D"
  have MV: "M = jam ?V D" unfolding M_def by (rule sum_jam_jam[OF q(2)])
  have ex: "M * 2 ^ D = ?V \<or> 2 ^ 25 \<le> M" unfolding M_def by (rule sum_jam_bounds(2)[OF p q])
  have V0: "?V = 0 \<longleftrightarrow> M = 0"
  proof
    assume "?V = 0"
    then show "M = 0" unfolding MV by (simp add: jam_def)
  next
    assume "M = 0"
    then show "?V = 0" using ex by simp
  qed
  then show "w = 0 \<longleftrightarrow> M = 0" using w by auto
  assume M: "M \<noteq> 0"
  have VD: "2 ^ D \<le> ?V \<and> (2 \<le> ?V div 2 ^ D \<or> M * 2 ^ D = ?V)"
  proof (cases "M * 2 ^ D = ?V")
    case True
    then show ?thesis using M mult_le_mono1[of 1 M "2 ^ D"] by simp
  next
    case False
    then have "2 ^ 25 \<le> M" using ex by simp
    moreover have "M \<le> ?V div 2 ^ D + 1" unfolding MV jam_def Let_def by simp
    ultimately have "2 \<le> ?V div 2 ^ D" by simp
    moreover from this have "2 ^ D \<le> ?V" by (metis div_less not_less not_numeral_le_zero)
    ultimately show ?thesis by simp
  qed
  have w0: "0 < w" using M V0 w by (cases w) auto
  have "round_fp F32 s w (e - int D + int k) = round_fp F32 s ?V (e - int D)"
    using round_fp_scale[OF w0, of F32 s k "e - int D + int k"] w by simp
  also have "\<dots> = round_fp F32 s (jam ?V D) e"
  proof (rule round_fp_jam)
    have "26 \<le> bit_length M" if "2 ^ 25 \<le> M"
    proof -
      have "M < 2 ^ bit_length M" using bit_length_bounds[of M] M by simp
      with that have "(2::nat) ^ 25 < 2 ^ bit_length M" by (rule le_less_trans)
      then have "25 < bit_length M" by (rule power_less_imp_less_exp[rotated]) simp
      then show ?thesis by simp
    qed
    then show "jam ?V D * 2 ^ D = ?V \<or> prec F32 + 2 \<le> bit_length (jam ?V D)"
      using ex unfolding MV[symmetric] by (auto simp: F32_def)
  qed (use VD in \<open>simp_all\<close>)
  also have "jam ?V D = M" by (rule MV[symmetric])
  finally show "round_fp F32 s w (e - int D + int k) = round_fp F32 s M e" .
  have "bit_length M + D = bit_length w + k"
    using bit_length_jam[of D ?V] VD bit_length_shift[OF w0, of k] w unfolding MV by simp
  then show "tiny w (e - int D + int k) \<longleftrightarrow> e + int (bit_length M) \<le> -126"
    unfolding tiny_iff[OF w0] by linarith
qed

lemma sint_diff:
  assumes "unat (a :: u32) < 2 ^ 31" "unat b < 2 ^ 31"
  shows "sint (a - b) = int (unat a) - int (unat b)"
proof (cases "unat b \<le> unat a")
  case True
  then show ?thesis using assms by (subst sint_small) (simp_all add: unat_sub_small of_nat_diff)
next
  case False
  then have "unat (a - b) = 2 ^ 32 - (unat b - unat a)" using assms by (simp add: unat_sub_if')
  then show ?thesis using False assms by (subst sint_big) (simp_all add: of_nat_diff)
qed

lemma sum_lane:
  fixes sh :: lane_shift
  assumes a: "unat mA = p * 2 ^ 7" "unat mB = q * 2 ^ 7" and d: "unat d = min D 31"
    and p: "2 ^ 23 \<le> p" "p < 2 ^ 24" and q: "q < 2 ^ 24" "q \<le> p * 2 ^ D"
  defines "mBs \<equiv> vmux (vasl sh (vlsr sh mB d) d = mB) (vlsr sh mB d) (vlsr sh mB d OR 1)"
  shows "unat (vmux neg (mA - mBs) (mA + mBs)) = sum_jam neg p q D"
proof -
  have "unat mBs = jam (q * 2 ^ 7) (min D 31)"
    unfolding mBs_def using jam_lane[OF d, of mB sh] q(1) by (simp add: a)
  also have "\<dots> = jam (q * 2 ^ 7) D" using q(1) by (intro jam_cap) simp
  finally have j: "unat mBs = jam (q * 2 ^ 7) D" .
  have "q * 2 ^ 7 \<le> p * 2 ^ 7 * 2 ^ D" using q(2) by simp
  then have le: "jam (q * 2 ^ 7) D \<le> p * 2 ^ 7" by (intro jam_sub(2)) simp_all
  have "sum_jam False p q D < 2 ^ 32" by (rule sum_jam_bounds(1)[OF p q])
  then have "unat (mA + mBs) = p * 2 ^ 7 + jam (q * 2 ^ 7) D"
    by (subst unat_add_le) (simp_all add: a j sum_jam_def)
  moreover have "unat (mA - mBs) = p * 2 ^ 7 - jam (q * 2 ^ 7) D"
    using le by (subst unat_sub_small) (simp_all add: a j)
  ultimately show ?thesis by (simp add: vmux_def sum_jam_def)
qed

text \<open>The leading one goes to bit 30.\<close>

definition norm31 :: "nat \<Rightarrow> nat" where
  "norm31 M = (if bit_length M = 32 then jam M 1 else M * 2 ^ (31 - bit_length M))"

lemma unat_vcl0: "unat (vcl0 x) = 32 - bit_length (unat x)"
  unfolding vcl0_def by (rule unat_of_nat_less) simp

lemma norm31_bounds: "0 < M \<Longrightarrow> M < 2 ^ 32 \<Longrightarrow> 2 ^ 30 \<le> norm31 M \<and> norm31 M < 2 ^ 31"
proof -
  assume M: "0 < M" "M < 2 ^ 32"
  have L: "bit_length M \<le> 32" using M(2) by (rule bit_length_le)
  show ?thesis
  proof (cases "bit_length M = 32")
    case True
    then have "2 ^ 31 \<le> M" using bit_length_bounds[OF M(1)] by simp
    then have "2 ^ 30 \<le> M div 2" "M div 2 < 2 ^ 31" using M(2) by simp_all
    moreover have "M div 2 + 1 < 2 ^ 31" if "even (M div 2)"
      using that \<open>M div 2 < 2 ^ 31\<close> by (elim evenE) simp
    ultimately show ?thesis using True unfolding norm31_def jam_half by auto
  next
    case False
    then show ?thesis using normalise[OF M(1), of 31] L by (simp add: norm31_def)
  qed
qed

lemma or_parity: "(n :: nat) OR (k mod 2) = n + (if odd k \<and> even n then 1 else 0)"
proof (cases "even k")
  case True
  then show ?thesis by simp
next
  case False
  then have "k mod 2 = 1" by (simp add: odd_iff_mod_2_eq_one)
  then show ?thesis using False by (simp only: or_one_eq) simp
qed

lemma norm_lane:
  assumes "0 < unat M"
  shows "unat (vmux (vcl0 M = 0) (drop_bit 1 M OR (M AND 1)) (vasl sh M (vcl0 M - 1))) = norm31 (unat M)"
proof -
  have lt: "unat M < 2 ^ 32" using unat_lt2p[of M] by simp
  have L: "bit_length (unat M) \<le> 32" "0 < bit_length (unat M)"
    using bit_length_le[OF lt] bit_length_bounds[OF assms] by blast+
  have z: "vcl0 M = 0 \<longleftrightarrow> bit_length (unat M) = 32" using L by (simp add: unat_eq_0[symmetric] unat_vcl0)
  show ?thesis
  proof (cases "bit_length (unat M) = 32")
    case True
    have "unat (drop_bit 1 M OR (M AND 1)) = jam (unat M) 1"
      unfolding unsigned_or_eq lane_masks unat_drop jam_half or_parity power_one_right ..
    then show ?thesis using True z by (simp add: vmux_def norm31_def)
  next
    case False
    then have n: "unat (vcl0 M - 1) = 31 - bit_length (unat M)" using L by (simp add: unat_sub_small unat_vcl0)
    have "norm31 (unat M) < 2 ^ 31" using norm31_bounds[OF assms lt] by blast
    then have "unat (vasl sh M (vcl0 M - 1)) = unat M * 2 ^ (31 - bit_length (unat M))"
      using False n less_imp_diff_less[of 31 32] by (simp add: vasl_def unat_push norm31_def)
    then show ?thesis using False z by (simp add: vmux_def norm31_def)
  qed
qed

lemma norm_lane_zero: "unat M = 0 \<Longrightarrow> unat (vmux (vcl0 M = 0) (drop_bit 1 M OR (M AND 1)) (vasl sh M (vcl0 M - 1))) = 0"
proof -
  assume "unat M = 0"
  then have M: "M = 0" by (simp add: unat_eq_0)
  have "vcl0 M = 32" by (simp add: vcl0_def M)
  then show ?thesis by (simp add: vmux_def vasl_def M)
qed

lemma round_lane: "unat M < 2 ^ 31 \<Longrightarrow>
  unat (condacc (vuw_gt (push_bit 25 M OR (drop_bit 7 M AND 1)) 0x80000000) (drop_bit 7 M) 1) = shift_rne (unat M) 7"
  using shifted_out[of 7 "unat M"] by (intro rne_step) (simp_all add: unat_drop unat_push)

text \<open>The pattern without the sign for a sum that is not 0.\<close>

definition add_code :: "nat \<Rightarrow> nat \<Rightarrow> nat" where
  "add_code E M = (if E + bit_length M \<le> 31 then 0 else if 254 + 31 < E + bit_length M then 0x7f800000
     else (E + bit_length M - 32) * 2 ^ 23 + shift_rne (norm31 M) 7)"

lemma round_norm31:
  assumes M: "0 < M" "M < 2 ^ 32"
  shows "round_fp F32 s M e = round_fp F32 s (norm31 M) (e + int (bit_length M) - 31)"
proof (cases "bit_length M = 32")
  case True
  have "2 ^ 31 \<le> M" using bit_length_bounds[OF M(1)] True by simp
  then have two: "2 ^ 1 \<le> M" by simp
  have "bit_length (norm31 M) = 31" using norm31_bounds[OF M] by (intro bit_length_eq) simp_all
  then have "round_fp F32 s M (e + 1 - int 1) = round_fp F32 s (jam M 1) (e + 1)"
    using True two by (intro round_fp_jam) (simp_all add: norm31_def F32_def good_fmt_def)
  then show ?thesis using True by (simp add: norm31_def add.commute)
next
  case False
  have L: "bit_length M \<le> 32" using M(2) by (rule bit_length_le)
  then have eq: "e - int (31 - bit_length M) = e + int (bit_length M) - 31" using False by simp
  then show ?thesis using False round_fp_scale[OF M(1), of F32 s "31 - bit_length M" e] unfolding norm31_def eq by simp
qed

lemma add_code_round:
  assumes M: "0 < M" "M < 2 ^ 32"
  shows "decode F32 s (add_code E M) = (if E + bit_length M \<le> 31 then Fin s 0 (-149) else round_fp F32 s M (int E - 157))"
    "add_code E M < 2 ^ 31"
proof -
  let ?N = "norm31 M" and ?L = "bit_length M"
  have N: "2 ^ 30 \<le> ?N" "?N < 2 ^ 31" using norm31_bounds[OF M] by blast+
  have bN: "bit_length ?N = 31" using N by (intro bit_length_eq) simp_all
  have "shift_rne ?N 7 \<le> 2 ^ 24" using N by (intro shift_rne_le) simp
  then show "add_code E M < 2 ^ 31" by (auto simp: add_code_def)
  show "decode F32 s (add_code E M) = (if E + ?L \<le> 31 then Fin s 0 (-149) else round_fp F32 s M (int E - 157))"
  proof -
    consider "E + ?L \<le> 31" | "254 + 31 < E + ?L" | "31 < E + ?L" "E + ?L \<le> 254 + 31" by linarith
    then show ?thesis
    proof cases
      case 1
      then show ?thesis by (simp add: add_code_def decode_f32)
    next
      case 2
      have "round_fp F32 s M (int E - 157) = Inf s"
        using 2 M(1) by (intro round_fp_overflow) (simp_all add: F32_def good_fmt_def)
      then show ?thesis using 2 by (simp add: add_code_def decode_f32)
    next
      case 3
      let ?e = "int E - 157 + int ?L - 31"
      have "round_fp F32 s ?N ?e = decode F32 s (nat (?e + 7 - e_min F32) * 2 ^ (prec F32 - 1) + shift_rne ?N (nat (?e + 7 - ?e)))"
        using 3 N by (intro round_fp_code) (simp_all add: bN F32_def good_fmt_def)
      moreover have "nat (?e + 7 - e_min F32) = E + ?L - 32" "nat (?e + 7 - ?e) = 7" using 3 by (simp_all add: F32_def)
      ultimately show ?thesis using 3 unfolding round_norm31[OF M] by (simp add: add_code_def F32_def)
    qed
  qed
qed

lemma add_code_lane:
  assumes M: "0 < unat M" and e: "unat eA = E" "E < 255" and N: "unat N = norm31 (unat M)"
  defines "e \<equiv> (eA + 1) - vcl0 M"
  shows "unat (vmux (vw_gt e 254) 0x7f800000 (vmux (vw_gt 1 e) 0 (push_bit 23 (e - 1) +
      condacc (vuw_gt (push_bit 25 N OR (drop_bit 7 N AND 1)) 0x80000000) (drop_bit 7 N) 1))) = add_code E (unat M)"
proof -
  let ?L = "bit_length (unat M)"
  have lt: "unat M < 2 ^ 32" using unat_lt2p[of M] by simp
  have L: "?L \<le> 32" using bit_length_le[OF lt] .
  have e1: "unat (eA + 1) = E + 1" using e by (subst unat_add_le) simp_all
  have se: "sint e = int (E + ?L) - 31"
    unfolding e_def using e L by (subst sint_diff) (simp_all add: e1 unat_vcl0 of_nat_diff)
  have gts: "vw_gt e 254 \<longleftrightarrow> 254 + 31 < E + ?L" "vw_gt 1 e \<longleftrightarrow> E + ?L \<le> 31"
    unfolding vw_gt_def se using sint_small[of 254] by simp_all linarith+
  have m: "unat (condacc (vuw_gt (push_bit 25 N OR (drop_bit 7 N AND 1)) 0x80000000) (drop_bit 7 N) 1) = shift_rne (norm31 (unat M)) 7"
    using round_lane[of N] norm31_bounds[OF M lt] by (simp add: N)
  show ?thesis
  proof (cases "31 < E + ?L \<and> E + ?L \<le> 254 + 31")
    case True
    have "unat e = E + ?L - 31" unfolding e_def using True L by (subst unat_sub_small) (simp_all add: e1 unat_vcl0, linarith+)
    then have "unat (e - 1) = E + ?L - 32" using True by (subst unat_sub_small) (simp_all, linarith+)
    moreover have X: "E + ?L - 32 \<le> 253" using True by linarith
    ultimately have "unat (push_bit 23 (e - 1)) = (E + ?L - 32) * 2 ^ 23" by (simp add: unat_push)
    moreover have "shift_rne (norm31 (unat M)) 7 \<le> 2 ^ 24" using norm31_bounds[OF M lt] by (intro shift_rne_le) simp
    ultimately show ?thesis using True X gts m by (simp add: vmux_def add_code_def) (subst unat_add_le, simp_all)
  next
    case False
    then show ?thesis using gts by (auto simp: vmux_def add_code_def)
  qed
qed

subsection \<open>The specification\<close>

definition add_ftz :: "fp \<Rightarrow> fp \<Rightarrow> fp" where
  "add_ftz x y = (case (daz x, daz y) of
     (Fin s m e, Fin t n d) \<Rightarrow>
       (let c = min e d; v = signed s (align m e c) + signed t (align n d c) in
        if v \<noteq> 0 \<and> tiny (nat \<bar>v\<bar>) c then Fin (v < 0) 0 (-149) else fp_add F32 (daz x) (daz y))
   | _ \<Rightarrow> fp_add F32 (daz x) (daz y))"

lemma fp_add_commute: "fp_add f x y = fp_add f y x"
  by (cases x; cases y) (auto simp: Let_def min.commute add.commute conj_commute)

lemma add_ftz_commute: "add_ftz x y = add_ftz y x"
  unfolding add_ftz_def
  by (cases "daz x"; cases "daz y") (simp_all add: Let_def min.commute add.commute conj_commute fp_add_commute[of F32 "daz x"])

text \<open>The routine after it has put the larger magnitude first.\<close>

definition add_lane :: "lane_shift \<Rightarrow> u32 \<Rightarrow> u32 \<Rightarrow> u32" where
  "add_lane sh A B =
     (let AA = A AND 0x7fffffff; BB = B AND 0x7fffffff;
          eA = drop_bit 23 AA; eB = drop_bit 23 BB;
          mA = push_bit 7 ((AA AND 0x007fffff) OR 0x00800000);
          mB = vmux (eB = 0) 0 (push_bit 7 ((BB AND 0x007fffff) OR 0x00800000));
          d = vw_min (eA - eB) 31;
          mBs = vmux (vasl sh (vlsr sh mB d) d = mB) (vlsr sh mB d) (vlsr sh mB d OR 1);
          q_sub = vw_gt 0 (A XOR B);
          M = vmux q_sub (mA - mBs) (mA + mBs);
          M' = vmux (vcl0 M = 0) (drop_bit 1 M OR (M AND 1)) (vasl sh M (vcl0 M - 1));
          e = (eA + 1) - vcl0 M;
          r = vmux (vw_gt e 254) 0x7f800000 (vmux (vw_gt 1 e) 0 (push_bit 23 (e - 1) +
                condacc (vuw_gt (push_bit 25 M' OR (drop_bit 7 M' AND 1)) 0x80000000) (drop_bit 7 M') 1));
          r = vmux (eA = 0) (A AND B AND 0x80000000) (vmux (M' = 0) 0 (r OR (A AND 0x80000000)));
          q_nan = (vw_gt AA 0x7f800000 \<or> (q_sub \<and> BB = 0x7f800000))
      in vmux (vw_gt AA 0x7f7fffff) (vmux q_nan 0x7fc00000 A) r)"

lemma sf_add_swap:
  "isa_hvx_exact_sf_add sh a b = (if vw_gt (b AND 0x7fffffff) (a AND 0x7fffffff) then add_lane sh b a else add_lane sh a b)"
proof -
  have c: "a XOR b = b XOR a" "a AND b AND 0x80000000 = b AND a AND 0x80000000"
    by (rule xor.commute, simp only: and.left_commute)
  show ?thesis
    unfolding isa_hvx_exact_sf_add_def add_lane_def Let_def vmux_def c
    by (cases "vw_gt (b AND 0x7fffffff) (a AND 0x7fffffff)") (simp_all only: if_True if_False)
qed

lemma and_sign: "unat ((x :: u32) AND y AND 0x80000000) = (if 2 ^ 31 \<le> unat x \<and> 2 ^ 31 \<le> unat y then 2 ^ 31 else 0)"
  unfolding and.assoc[symmetric] sign_bit bit31[symmetric] by (simp add: bit_and_iff)

lemma xor_neg: "vw_gt 0 ((x :: u32) XOR y) \<longleftrightarrow> (2 ^ 31 \<le> unat x) \<noteq> (2 ^ 31 \<le> unat y)"
proof -
  have "vw_gt 0 w \<longleftrightarrow> 2 ^ 31 \<le> unat w" for w :: u32
  proof -
    have "uint w < 2 ^ 32" by (rule order_less_le_trans[OF unsigned_less]) simp
    then show ?thesis using sint_small[of w] sint_big[of w] by (cases "2 ^ 31 \<le> unat w") (simp_all add: vw_gt_def not_le)
  qed
  then show ?thesis unfolding bit31[symmetric] by (simp add: bit_xor_iff)
qed

lemma daz_fields:
  "daz (f32_of x) = (let E = unat x div 2 ^ 23 mod 2 ^ 8; M = unat x mod 2 ^ 23; s = (2 ^ 31 \<le> unat x) in
     if E = 255 then (if M = 0 then Inf s else NaN) else if E = 0 then Fin s 0 (-149) else Fin s (M + 2 ^ 23) (int E - 150))"
  unfolding f32_fields by (simp add: daz_def Let_def)

lemma signed_sum: "Q \<le> P \<Longrightarrow> signed s P + signed t Q = signed s (if s \<noteq> t then P - Q else P + Q)"
  by (auto simp: signed_def of_nat_diff)

lemma signed_parts: "nat \<bar>signed s w\<bar> = w" "signed s w = 0 \<longleftrightarrow> w = 0" "w \<noteq> 0 \<Longrightarrow> signed s w < 0 \<longleftrightarrow> s"
  by (auto simp: signed_def)

text \<open>The value of the sum of a normal value and a value of no larger magnitude.\<close>

lemma add_ftz_normal:
  assumes x: "daz x = Fin s p (int EA - 150)" "0 < EA" and p: "2 ^ 23 \<le> p" "p < 2 ^ 24"
    and y: "daz y = (if EB = 0 then Fin t 0 (-149) else Fin t q (int EB - 150))" "EB \<le> EA"
    and q: "q < 2 ^ 24" "q \<le> p * 2 ^ (EA - EB)" "EB = 0 \<Longrightarrow> q = 0"
  defines "M \<equiv> sum_jam (s \<noteq> t) p q (EA - EB)"
  shows "add_ftz x y = (if M = 0 then Fin False 0 (-149)
    else if EA + bit_length M \<le> 31 then Fin s 0 (-149) else round_fp F32 s M (int EA - 157))"
proof -
  define D k c where "D = EA - EB" and "k = (if EB = 0 then 8 else 7 :: nat)" and "c = (if EB = 0 then -149 else int EB - 150)"
  define w where "w = (if s \<noteq> t then p * 2 ^ nat (int EA - 150 - c) - q else p * 2 ^ nat (int EA - 150 - c) + q)"
  have D: "D + EB = EA" using y(2) by (simp add: D_def)
  have sh: "p * 2 ^ nat (int EA - 150 - c) * 2 ^ k = p * 2 ^ 7 * 2 ^ D"
  proof (cases "EB = 0")
    case True
    then have "nat (int EA - 150 - c) + k = 7 + D" using D x(2) by (simp add: c_def k_def)
    then show ?thesis by (metis mult.assoc power_add)
  next
    case False
    then have "nat (int EA - 150 - c) + k = 7 + D" using D by (simp add: c_def k_def)
    then show ?thesis by (metis mult.assoc power_add)
  qed
  have qk: "q * 2 ^ k = q * 2 ^ 7" using q(3) by (simp add: k_def)
  have w: "w * 2 ^ k = sum_exact (s \<noteq> t) p q D"
    unfolding w_def sum_exact_def
    by (cases "s \<noteq> t") (simp_all only: simp_thms if_True if_False diff_mult_distrib add_mult_distrib sh qk)
  have cD: "c = int EA - 157 - int D + int k" using D[symmetric] by (simp add: c_def k_def)
  note r = round_sum_jam[OF p q(1) q(2)[folded D_def] w, folded M_def[folded D_def]]
  have le: "q \<le> p * 2 ^ nat (int EA - 150 - c)"
  proof -
    have "q * 2 ^ k \<le> p * 2 ^ nat (int EA - 150 - c) * 2 ^ k" unfolding sh qk using q(2) by (simp add: D_def)
    then show ?thesis by simp
  qed
  have min: "min (int EA - 150) (if EB = 0 then -149 else int EB - 150) = c" using x(2) y(2) by (auto simp: c_def)
  have v: "signed s (align p (int EA - 150) c) + signed t (align (if EB = 0 then 0 else q) (if EB = 0 then -149 else int EB - 150) c) = signed s w"
    using signed_sum[OF le, of s t] q(3) by (auto simp: align_def w_def c_def)
  have y': "daz y = Fin t (if EB = 0 then 0 else q) (if EB = 0 then -149 else int EB - 150)" using y(1) by simp
  have a: "add_ftz x y = (if signed s w \<noteq> 0 \<and> tiny (nat \<bar>signed s w\<bar>) c then Fin (signed s w < 0) 0 (-149)
      else if signed s w = 0 then Fin (s \<and> t) 0 (e_min F32) else round_fp F32 (signed s w < 0) (nat \<bar>signed s w\<bar>) c)"
    unfolding add_ftz_def x(1) y' prod.case fp.case min Let_def v fp_add.simps ..
  show ?thesis
  proof (cases "M = 0")
    case True
    then have "s \<noteq> t" using p(1) by (auto simp: M_def sum_jam_def split: if_splits)
    then show ?thesis using True r(1) unfolding a signed_parts by (auto simp: F32_def)
  next
    case False
    then have w0: "w \<noteq> 0" using r(1) by simp
    have "tiny w c \<longleftrightarrow> EA + bit_length M \<le> 31" unfolding cD r(3)[OF False] by linarith
    then show ?thesis using False w0 r(2)[OF False, of s "int EA - 157"] unfolding a signed_parts(1,2) signed_parts(3)[OF w0] cD[symmetric] by simp
  qed
qed


text \<open>The lane for a normal first operand.\<close>

lemma add_lane_normal:
  assumes s: "s \<longleftrightarrow> 2 ^ 31 \<le> unat A" "t \<longleftrightarrow> 2 ^ 31 \<le> unat B"
    and a: "unat A mod 2 ^ 31 = EA * 2 ^ 23 + MA" "MA < 2 ^ 23" "0 < EA" "EA < 255"
    and b: "unat B mod 2 ^ 31 = EB * 2 ^ 23 + MB" "MB < 2 ^ 23" "EB \<le> EA"
    and q: "q = (if EB = 0 then 0 else MB + 2 ^ 23)" "q \<le> (MA + 2 ^ 23) * 2 ^ (EA - EB)"
  defines "M \<equiv> sum_jam (s \<noteq> t) (MA + 2 ^ 23) q (EA - EB)"
  shows "f32_of (add_lane sh A B) = (if M = 0 then Fin False 0 (-149)
    else if EA + bit_length M \<le> 31 then Fin s 0 (-149) else round_fp F32 s M (int EA - 157))"
proof -
  define AA BB where "AA = A AND 0x7fffffff" and "BB = B AND 0x7fffffff"
  have AA: "unat AA = EA * 2 ^ 23 + MA" "unat BB = EB * 2 ^ 23 + MB" unfolding AA_def BB_def lane_masks by (rule a(1) b(1))+
  define eA eB where "eA = drop_bit 23 AA" and "eB = drop_bit 23 BB"
  have e: "unat eA = EA" "unat eB = EB" unfolding eA_def eB_def unat_drop AA using a(2) b(2) by simp_all
  have z: "eA = 0 \<longleftrightarrow> False" "eB = 0 \<longleftrightarrow> EB = 0" using e a(3) by (auto simp: unat_eq_0[symmetric])
  define mA mB where "mA = push_bit 7 ((AA AND 0x007fffff) OR 0x00800000)" and
    "mB = vmux (eB = 0) 0 (push_bit 7 ((BB AND 0x007fffff) OR 0x00800000))"
  have "unat AA mod 2 ^ 23 = MA" "unat BB mod 2 ^ 23 = MB" unfolding AA using a(2) b(2) by simp_all
  then have h: "unat ((AA AND 0x007fffff) OR 0x00800000) = MA + 2 ^ 23" "unat ((BB AND 0x007fffff) OR 0x00800000) = MB + 2 ^ 23"
    by (simp_all only: hidden_one)
  have mA: "unat mA = (MA + 2 ^ 23) * 2 ^ 7" unfolding mA_def unat_push h using a(2) by simp
  have "unat (push_bit 7 ((BB AND 0x007fffff) OR 0x00800000)) = (MB + 2 ^ 23) * 2 ^ 7" unfolding unat_push h using b(2) by simp
  then have mB: "unat mB = q * 2 ^ 7" unfolding mB_def z vmux_def q(1) by simp
  define d where "d = vw_min (eA - eB) 31"
  have "unat (eA - eB) = EA - EB" using e b(3) by (simp add: unat_sub_small)
  then have d: "unat d = min (EA - EB) 31" unfolding d_def using a(4) by (subst vw_min_small) simp_all
  define W where "W = vmux (s \<noteq> t) (mA - vmux (vasl sh (vlsr sh mB d) d = mB) (vlsr sh mB d) (vlsr sh mB d OR 1))
      (mA + vmux (vasl sh (vlsr sh mB d) d = mB) (vlsr sh mB d) (vlsr sh mB d OR 1))"
  have q24: "q < 2 ^ 24" using b(2) by (simp add: q(1))
  have W: "unat W = M"
    unfolding W_def M_def using a(2) q24 q(2) by (intro sum_lane mA mB d) simp_all
  define N where "N = vmux (vcl0 W = 0) (drop_bit 1 W OR (W AND 1)) (vasl sh W (vcl0 W - 1))"
  define r where "r = vmux (vw_gt ((eA + 1) - vcl0 W) 254) 0x7f800000 (vmux (vw_gt 1 ((eA + 1) - vcl0 W)) 0
     (push_bit 23 ((eA + 1) - vcl0 W - 1) + condacc (vuw_gt (push_bit 25 N OR (drop_bit 7 N AND 1)) 0x80000000) (drop_bit 7 N) 1))"
  have "EA * 2 ^ 23 + MA \<le> 0x7f7fffff" using a(2,4) by simp
  then have fin: "vw_gt AA 0x7f7fffff \<longleftrightarrow> False" using AA by (subst vw_gt_small) simp_all
  have sub: "vw_gt 0 (A XOR B) \<longleftrightarrow> s \<noteq> t" unfolding s by (rule xor_neg)
  have code: "add_lane sh A B = vmux (N = 0) 0 (r OR (A AND 0x80000000))"
    unfolding add_lane_def Let_def AA_def[symmetric] BB_def[symmetric] eA_def[symmetric] eB_def[symmetric] z(1)
      mA_def[symmetric] mB_def[symmetric] d_def[symmetric] sub W_def[symmetric] N_def[symmetric] r_def[symmetric] fin
    by (simp add: vmux_def)
  show ?thesis
  proof (cases "M = 0")
    case True
    then have "N = 0" using norm_lane_zero[of W sh] W by (simp add: N_def unat_eq_0)
    then have "add_lane sh A B = 0" by (simp add: code vmux_def)
    then show ?thesis using True by (simp add: f32_of_def decode_f32)
  next
    case False
    then have W0: "0 < unat W" using W by simp
    have N: "unat N = norm31 M" using norm_lane[OF W0, of sh] W by (simp add: N_def)
    have M32: "M < 2 ^ 32" using unat_lt2p[of W] W by simp
    have "0 < unat N" using norm31_bounds[of M] False M32 N by simp
    then have N0: "N \<noteq> 0" by auto
    have r: "unat r = add_code EA M"
      using add_code_lane[OF W0 e(1) a(4), of N] N W by (simp add: r_def)
    have "unat (A AND 0x80000000) = (if s then 2 ^ 31 else 0)" unfolding s by (rule sign_bit)
    then have "unat (r OR (A AND 0x80000000)) = add_code EA M + (if s then 2 ^ 31 else 0)"
      using unat_or_sign[of r] add_code_round(2)[of M EA] False M32 by (simp add: r)
    then have "f32_of (r OR (A AND 0x80000000)) = decode F32 s (add_code EA M)"
      using add_code_round(2)[of M EA] False M32 by (intro f32_of_signed) simp_all
    then show ?thesis using False N0 M32 add_code_round(1)[of M s EA] by (simp add: code vmux_def)
  qed
qed


lemma add_lane_value:
  assumes le: "unat B mod 2 ^ 31 \<le> unat A mod 2 ^ 31"
  shows "f32_of (add_lane sh A B) = add_ftz (f32_of A) (f32_of B)"
proof -
  define EA MA EB MB where "EA = unat A div 2 ^ 23 mod 2 ^ 8" and "MA = unat A mod 2 ^ 23"
    and "EB = unat B div 2 ^ 23 mod 2 ^ 8" and "MB = unat B mod 2 ^ 23"
  define s t where "s \<longleftrightarrow> 2 ^ 31 \<le> unat A" and "t \<longleftrightarrow> 2 ^ 31 \<le> unat B"
  have ab: "unat A mod 2 ^ 31 = EA * 2 ^ 23 + MA" "unat B mod 2 ^ 31 = EB * 2 ^ 23 + MB"
    using mod_mult2_eq[of _ "2 ^ 23" "2 ^ 8"] by (simp_all add: EA_def MA_def EB_def MB_def)
  have lt: "MA < 2 ^ 23" "MB < 2 ^ 23" "EA \<le> 255" "EB \<le> 255"
    using mod_less_divisor[of 256] by (simp_all add: MA_def MB_def EA_def EB_def less_Suc_eq_le[symmetric])
  have EE: "EB \<le> EA" "EB = EA \<Longrightarrow> MB \<le> MA" using le lt(1,2) unfolding ab by auto
  have dz: "daz (f32_of A) = (if EA = 255 then if MA = 0 then Inf s else NaN else if EA = 0 then Fin s 0 (-149) else Fin s (MA + 2 ^ 23) (int EA - 150))"
    "daz (f32_of B) = (if EB = 255 then if MB = 0 then Inf t else NaN else if EB = 0 then Fin t 0 (-149) else Fin t (MB + 2 ^ 23) (int EB - 150))"
    unfolding daz_fields EA_def[symmetric] MA_def[symmetric] EB_def[symmetric] MB_def[symmetric] s_def[symmetric] t_def[symmetric] Let_def
    by (rule refl)+
  have AA: "unat (A AND 0x7fffffff) = EA * 2 ^ 23 + MA" "unat (B AND 0x7fffffff) = EB * 2 ^ 23 + MB" unfolding lane_masks ab by (rule refl)+
  have sub: "vw_gt 0 (A XOR B) \<longleftrightarrow> s \<noteq> t" unfolding s_def t_def by (rule xor_neg)
  have "EB * 2 ^ 23 + MB = 0x7f800000 \<longleftrightarrow> EB = 255 \<and> MB = 0"
    using lt(2,4) by (cases "EB = 255") simp_all
  then have inf: "(B AND 0x7fffffff) = 0x7f800000 \<longleftrightarrow> EB = 255 \<and> MB = 0"
    by (simp add: word_unat_eq_iff AA)
  have top: "vw_gt (A AND 0x7fffffff) 0x7f7fffff \<longleftrightarrow> EA = 255" "vw_gt (A AND 0x7fffffff) 0x7f800000 \<longleftrightarrow> EA = 255 \<and> MA \<noteq> 0"
    using lt by (subst vw_gt_small; simp add: AA; auto)+
  consider (special) "EA = 255" | (zero) "EA = 0" | (normal) "0 < EA" "EA < 255" using lt(3) by linarith
  then show ?thesis
  proof cases
    case special
    have "add_lane sh A B = (if MA \<noteq> 0 \<or> (s \<noteq> t \<and> EB = 255 \<and> MB = 0) then 0x7fc00000 else A)"
      using special unfolding add_lane_def Let_def top sub inf by (simp add: vmux_def)
    moreover have "f32_of 0x7fc00000 = NaN" by (simp add: f32_of_def decode_f32)
    moreover have "MA = 0 \<Longrightarrow> f32_of A = Inf s"
      using special unfolding f32_fields EA_def[symmetric] MA_def[symmetric] s_def[symmetric] Let_def by simp
    ultimately show ?thesis
      using special EE unfolding add_ftz_def dz by auto
  next
    case zero
    have "unat (drop_bit 23 (A AND 0x7fffffff)) = 0" unfolding unat_drop AA using zero lt(1) by simp
    then have z: "drop_bit 23 (A AND 0x7fffffff) = 0" by (simp only: unat_eq_0)
    have "add_lane sh A B = A AND B AND 0x80000000"
      using zero unfolding add_lane_def Let_def top z by (simp add: vmux_def)
    moreover have "f32_of (A AND B AND 0x80000000) = Fin (s \<and> t) 0 (-149)"
      using f32_of_signed[of 0 "A AND B AND 0x80000000" "s \<and> t"] unfolding and_sign s_def t_def by (simp add: decode_f32)
    ultimately show ?thesis using zero EE unfolding add_ftz_def dz by (simp add: signed_def align_def F32_def)
  next
    case normal
    define q where "q = (if EB = 0 then 0 else MB + 2 ^ 23)"
    have qle: "q \<le> (MA + 2 ^ 23) * 2 ^ (EA - EB)"
    proof (cases "EB = EA")
      case True
      then show ?thesis using EE(2) by (simp add: q_def)
    next
      case False
      have "q \<le> 2 ^ 23 * 2 ^ 1" using lt(2) by (simp add: q_def)
      also have "\<dots> \<le> (MA + 2 ^ 23) * 2 ^ (EA - EB)"
        using False EE(1) by (intro mult_le_mono power_increasing) simp_all
      finally show ?thesis .
    qed
    have lane: "f32_of (add_lane sh A B) = (if sum_jam (s \<noteq> t) (MA + 2 ^ 23) q (EA - EB) = 0 then Fin False 0 (-149)
      else if EA + bit_length (sum_jam (s \<noteq> t) (MA + 2 ^ 23) q (EA - EB)) \<le> 31 then Fin s 0 (-149)
      else round_fp F32 s (sum_jam (s \<noteq> t) (MA + 2 ^ 23) q (EA - EB)) (int EA - 157))"
      by (rule add_lane_normal[OF s_def t_def ab(1) lt(1) normal ab(2) lt(2) EE(1) q_def qle])
    have val: "add_ftz (f32_of A) (f32_of B) = (if sum_jam (s \<noteq> t) (MA + 2 ^ 23) q (EA - EB) = 0 then Fin False 0 (-149)
      else if EA + bit_length (sum_jam (s \<noteq> t) (MA + 2 ^ 23) q (EA - EB)) \<le> 31 then Fin s 0 (-149)
      else round_fp F32 s (sum_jam (s \<noteq> t) (MA + 2 ^ 23) q (EA - EB)) (int EA - 157))"
    proof (rule add_ftz_normal[OF _ normal(1) _ _ _ EE(1) _ qle])
      show "daz (f32_of A) = Fin s (MA + 2 ^ 23) (int EA - 150)" using normal unfolding dz by simp
      show "daz (f32_of B) = (if EB = 0 then Fin t 0 (-149) else Fin t q (int EB - 150))"
        using normal EE(1) unfolding dz by (simp add: q_def)
    qed (use lt in \<open>simp_all add: q_def\<close>)
    show ?thesis unfolding lane val ..
  qed
qed

text \<open>C3. For each two f32 patterns \<open>isa_hvx_exact_sf_add\<close> gives the IEEE sum, rounded to nearest, ties to even, of the
  values with subnormal inputs taken as zeros, and a signed zero when the exact sum is not zero and below the smallest
  normal value; an exact cancellation gives +0, and Inf, NaN and signed zeros are those of IEEE 754.\<close>

theorem exact_sf_add: "f32_of (isa_hvx_exact_sf_add sh a b) = add_ftz (f32_of a) (f32_of b)"
proof -
  have "vw_gt (b AND 0x7fffffff) (a AND 0x7fffffff) \<longleftrightarrow> unat a mod 2 ^ 31 < unat b mod 2 ^ 31"
    by (subst vw_gt_small) (simp_all add: lane_masks)
  then show ?thesis
    unfolding sf_add_swap using add_lane_value[of b a sh] add_lane_value[of a b sh] add_ftz_commute by auto
qed

end
