(* ===== verification/Oracle.thy ===== *)
theory Oracle
  imports FloatBits CensusIO
begin

text \<open>
  The CPU oracle of the HVX census, \<open>tools/htp-lab/probe/host/oracle.c\<close>: the table of the ops, the acceptance test
  \<open>oracle_find\<close> and the computation \<open>oracle_run\<close>.

  A \<open>float\<close> is its bit pattern of 32 bits, and its arithmetic is that of \<open>SoftFloat\<close>. What the C standard leaves open is
  a field of the record \<open>fenv\<close>: the pattern of a NaN result and the function \<open>exp2f\<close>. An input is the list of
  its bytes, or \<^const>\<open>None\<close> for \<open>NULL\<close>. The result \<^const>\<open>None\<close> of a function stands for undefined
  behaviour: an access outside of a buffer or of \<open>NULL\<close>, or a division by 0.
\<close>

subsection \<open>The table\<close>

datatype kind = K_COPY | K_ABS | K_NEG | K_ADD | K_SUB | K_MUL | K_MAX | K_MIN | K_MUL_ADD | K_ADD_ADD | K_MUL_MUL
  | K_DMPY | K_DMPY_ACC | K_CVT | K_CMP_GT | K_CMP_EQ | K_EXP2

datatype layout = L_ELEM | L_SCALAR_B | L_WIDEN_EO | L_WIDEN_CONTIG | L_WIDEN8_H | L_NARROW_UV | L_NARROW_CONTIG | L_DMPY

datatype pred = P_NONE | P_AND | P_OR | P_XOR

type_synonym table_entry = "string \<times> kind \<times> layout \<times> pred"

definition k_table :: "table_entry list" where
  "k_table = [
    (''Q6_Vhf_vabs_Vhf'', K_ABS, L_ELEM, P_NONE),
    (''Q6_Vsf_vabs_Vsf'', K_ABS, L_ELEM, P_NONE),
    (''Q6_Vqf16_vabs_Vhf'', K_ABS, L_ELEM, P_NONE),
    (''Q6_Vqf32_vabs_Vsf'', K_ABS, L_ELEM, P_NONE),
    (''Q6_Vhf_vfneg_Vhf'', K_NEG, L_ELEM, P_NONE),
    (''Q6_Vsf_vfneg_Vsf'', K_NEG, L_ELEM, P_NONE),
    (''Q6_Vqf16_vneg_Vhf'', K_NEG, L_ELEM, P_NONE),
    (''Q6_Vqf32_vneg_Vsf'', K_NEG, L_ELEM, P_NONE),
    (''Q6_Vqf16_equals_Vhf'', K_COPY, L_ELEM, P_NONE),
    (''Q6_Vqf32_equals_Vsf'', K_COPY, L_ELEM, P_NONE),
    (''seq.qfpair.sf_roundtrip'', K_COPY, L_ELEM, P_NONE),
    (''seq.qfpair.hf_roundtrip_qf16'', K_COPY, L_ELEM, P_NONE),
    (''seq.hvx_vec_exp2_f16'', K_EXP2, L_ELEM, P_NONE),
    (''Q6_Vhf_vadd_VhfVhf'', K_ADD, L_ELEM, P_NONE),
    (''Q6_Vsf_vadd_VsfVsf'', K_ADD, L_ELEM, P_NONE),
    (''Q6_Vqf16_vadd_VhfVhf'', K_ADD, L_ELEM, P_NONE),
    (''Q6_Vqf32_vadd_VsfVsf'', K_ADD, L_ELEM, P_NONE),
    (''seq.hvx_vec_add_f32_f32'', K_ADD, L_ELEM, P_NONE),
    (''seq.hvx_vec_add_f16_f16'', K_ADD, L_ELEM, P_NONE),
    (''seq.qfpair.add_f32'', K_ADD, L_ELEM, P_NONE),
    (''seq.qfpair.add_f16_qf16'', K_ADD, L_ELEM, P_NONE),
    (''seq.qfext.add_f32_via_mem'', K_ADD, L_ELEM, P_NONE),
    (''Q6_Vhf_vsub_VhfVhf'', K_SUB, L_ELEM, P_NONE),
    (''Q6_Vsf_vsub_VsfVsf'', K_SUB, L_ELEM, P_NONE),
    (''Q6_Vqf16_vsub_VhfVhf'', K_SUB, L_ELEM, P_NONE),
    (''Q6_Vqf32_vsub_VsfVsf'', K_SUB, L_ELEM, P_NONE),
    (''seq.hvx_vec_sub_f32_f32'', K_SUB, L_ELEM, P_NONE),
    (''seq.hvx_vec_sub_f16_f16'', K_SUB, L_ELEM, P_NONE),
    (''seq.qfpair.sub_f32'', K_SUB, L_ELEM, P_NONE),
    (''seq.qfpair.sub_f16_qf16'', K_SUB, L_ELEM, P_NONE),
    (''seq.qfext.sub_f16_via_mem'', K_SUB, L_ELEM, P_NONE),
    (''Q6_Vhf_vmpy_VhfVhf'', K_MUL, L_ELEM, P_NONE),
    (''Q6_Vsf_vmpy_VsfVsf'', K_MUL, L_ELEM, P_NONE),
    (''Q6_Vqf16_vmpy_VhfVhf'', K_MUL, L_ELEM, P_NONE),
    (''Q6_Vqf32_vmpy_VsfVsf'', K_MUL, L_ELEM, P_NONE),
    (''Q6_Vqf32_vmpy_VsfRsf'', K_MUL, L_SCALAR_B, P_NONE),
    (''seq.hvx_vec_mul_f32_f32'', K_MUL, L_ELEM, P_NONE),
    (''seq.hvx_vec_mul_f16_f16'', K_MUL, L_ELEM, P_NONE),
    (''seq.qfpair.mul_f32'', K_MUL, L_ELEM, P_NONE),
    (''seq.qfpair.mul_f16_wqf32'', K_MUL, L_ELEM, P_NONE),
    (''seq.qfpair.mul_f16_qf16'', K_MUL, L_ELEM, P_NONE),
    (''seq.qfext.mul_f32_via_mem'', K_MUL, L_ELEM, P_NONE),
    (''seq.qfext.mul_f16_via_mem'', K_MUL, L_ELEM, P_NONE),
    (''Q6_Vhf_vfmax_VhfVhf'', K_MAX, L_ELEM, P_NONE),
    (''Q6_Vsf_vfmax_VsfVsf'', K_MAX, L_ELEM, P_NONE),
    (''Q6_Vhf_vmax_VhfVhf'', K_MAX, L_ELEM, P_NONE),
    (''Q6_Vsf_vmax_VsfVsf'', K_MAX, L_ELEM, P_NONE),
    (''Q6_Vbf_vmax_VbfVbf'', K_MAX, L_ELEM, P_NONE),
    (''Q6_Vhf_vfmin_VhfVhf'', K_MIN, L_ELEM, P_NONE),
    (''Q6_Vsf_vfmin_VsfVsf'', K_MIN, L_ELEM, P_NONE),
    (''Q6_Vhf_vmin_VhfVhf'', K_MIN, L_ELEM, P_NONE),
    (''Q6_Vsf_vmin_VsfVsf'', K_MIN, L_ELEM, P_NONE),
    (''Q6_Vbf_vmin_VbfVbf'', K_MIN, L_ELEM, P_NONE),
    (''Q6_Vhf_vmpyacc_VhfVhfVhf'', K_MUL_ADD, L_ELEM, P_NONE),
    (''seq.chain.mul_add_f32'', K_MUL_ADD, L_ELEM, P_NONE),
    (''seq.chain.mul_add_f16'', K_MUL_ADD, L_ELEM, P_NONE),
    (''seq.chain.qf_mul_cvt_add_f32'', K_MUL_ADD, L_ELEM, P_NONE),
    (''seq.chain.qf_mul_cvt_add_f32_barrier'', K_MUL_ADD, L_ELEM, P_NONE),
    (''seq.chain.add_add_f32'', K_ADD_ADD, L_ELEM, P_NONE),
    (''seq.chain.mul_mul_f32'', K_MUL_MUL, L_ELEM, P_NONE),
    (''Q6_Vh_vcvt_Vhf'', K_CVT, L_ELEM, P_NONE),
    (''Q6_Vuh_vcvt_Vhf'', K_CVT, L_ELEM, P_NONE),
    (''Q6_Vh_equals_Vhf'', K_CVT, L_ELEM, P_NONE),
    (''Q6_Vh_equals_Vhf_rnd'', K_CVT, L_ELEM, P_NONE),
    (''seq.hvx_vec_i16_from_hf_rnd_sat'', K_CVT, L_ELEM, P_NONE),
    (''Q6_Vhf_vcvt_Vh'', K_CVT, L_ELEM, P_NONE),
    (''Q6_Vhf_vcvt_Vuh'', K_CVT, L_ELEM, P_NONE),
    (''Q6_Vhf_equals_Vh'', K_CVT, L_ELEM, P_NONE),
    (''Q6_Vsf_equals_Vw'', K_CVT, L_ELEM, P_NONE),
    (''Q6_Vw_equals_Vsf'', K_CVT, L_ELEM, P_NONE),
    (''Q6_Wsf_vadd_VhfVhf'', K_ADD, L_WIDEN_EO, P_NONE),
    (''Q6_Wsf_vadd_VbfVbf'', K_ADD, L_WIDEN_EO, P_NONE),
    (''Q6_Wsf_vsub_VhfVhf'', K_SUB, L_WIDEN_EO, P_NONE),
    (''Q6_Wsf_vsub_VbfVbf'', K_SUB, L_WIDEN_EO, P_NONE),
    (''Q6_Wsf_vmpy_VhfVhf'', K_MUL, L_WIDEN_EO, P_NONE),
    (''Q6_Wsf_vmpy_VbfVbf'', K_MUL, L_WIDEN_EO, P_NONE),
    (''Q6_Wqf32_vmpy_VhfVhf'', K_MUL, L_WIDEN_EO, P_NONE),
    (''Q6_Wsf_vmpyacc_WsfVhfVhf'', K_MUL_ADD, L_WIDEN_EO, P_NONE),
    (''Q6_Wsf_vmpyacc_WsfVbfVbf'', K_MUL_ADD, L_WIDEN_EO, P_NONE),
    (''seq.hvx_vec_mpyacc_f32_f16'', K_MUL_ADD, L_WIDEN_EO, P_NONE),
    (''Q6_Wsf_vcvt_Vhf'', K_CVT, L_WIDEN_EO, P_NONE),
    (''seq.hvx_vec_f16_to_f32_shuff'', K_CVT, L_WIDEN_EO, P_NONE),
    (''seq.qfpair.f16_to_f32'', K_CVT, L_WIDEN_EO, P_NONE),
    (''seq.hvx_vec_f16_to_f32'', K_CVT, L_WIDEN_CONTIG, P_NONE),
    (''Q6_Whf_vcvt_Vb'', K_CVT, L_WIDEN8_H, P_NONE),
    (''Q6_Whf_vcvt_Vub'', K_CVT, L_WIDEN8_H, P_NONE),
    (''Q6_Vhf_vcvt_VsfVsf'', K_CVT, L_NARROW_UV, P_NONE),
    (''Q6_Vbf_vcvt_VsfVsf'', K_CVT, L_NARROW_UV, P_NONE),
    (''Q6_Vb_vcvt_VhfVhf'', K_CVT, L_NARROW_UV, P_NONE),
    (''Q6_Vub_vcvt_VhfVhf'', K_CVT, L_NARROW_UV, P_NONE),
    (''seq.hvx_vec_f32_to_f16_shuff'', K_CVT, L_NARROW_UV, P_NONE),
    (''seq.qfpair.f32_to_f16_vadd0'', K_CVT, L_NARROW_UV, P_NONE),
    (''seq.qfpair.f32_to_f16_equals'', K_CVT, L_NARROW_UV, P_NONE),
    (''seq.qfpair.f32_to_f16_mpy1'', K_CVT, L_NARROW_UV, P_NONE),
    (''seq.hvx_vec_f32_to_f16'', K_CVT, L_NARROW_CONTIG, P_NONE),
    (''Q6_Vsf_vdmpy_VhfVhf'', K_DMPY, L_DMPY, P_NONE),
    (''Q6_Vsf_vdmpyacc_VsfVhfVhf'', K_DMPY_ACC, L_DMPY, P_NONE),
    (''Q6_Q_vcmp_gt_VhfVhf'', K_CMP_GT, L_ELEM, P_NONE),
    (''Q6_Q_vcmp_gt_VsfVsf'', K_CMP_GT, L_ELEM, P_NONE),
    (''Q6_Q_vcmp_gt_VbfVbf'', K_CMP_GT, L_ELEM, P_NONE),
    (''Q6_Q_vcmp_gtand_QVhfVhf'', K_CMP_GT, L_ELEM, P_AND),
    (''Q6_Q_vcmp_gtand_QVsfVsf'', K_CMP_GT, L_ELEM, P_AND),
    (''Q6_Q_vcmp_gtand_QVbfVbf'', K_CMP_GT, L_ELEM, P_AND),
    (''Q6_Q_vcmp_gtor_QVhfVhf'', K_CMP_GT, L_ELEM, P_OR),
    (''Q6_Q_vcmp_gtor_QVsfVsf'', K_CMP_GT, L_ELEM, P_OR),
    (''Q6_Q_vcmp_gtor_QVbfVbf'', K_CMP_GT, L_ELEM, P_OR),
    (''Q6_Q_vcmp_gtxacc_QVhfVhf'', K_CMP_GT, L_ELEM, P_XOR),
    (''Q6_Q_vcmp_gtxacc_QVsfVsf'', K_CMP_GT, L_ELEM, P_XOR),
    (''Q6_Q_vcmp_gtxacc_QVbfVbf'', K_CMP_GT, L_ELEM, P_XOR),
    (''Q6_Q_vcmp_eq_VhfVhf'', K_CMP_EQ, L_ELEM, P_NONE),
    (''Q6_Q_vcmp_eq_VsfVsf'', K_CMP_EQ, L_ELEM, P_NONE),
    (''Q6_Q_vcmp_eqand_QVhfVhf'', K_CMP_EQ, L_ELEM, P_AND),
    (''Q6_Q_vcmp_eqand_QVsfVsf'', K_CMP_EQ, L_ELEM, P_AND),
    (''Q6_Q_vcmp_eqor_QVhfVhf'', K_CMP_EQ, L_ELEM, P_OR),
    (''Q6_Q_vcmp_eqor_QVsfVsf'', K_CMP_EQ, L_ELEM, P_OR),
    (''Q6_Q_vcmp_eqxacc_QVhfVhf'', K_CMP_EQ, L_ELEM, P_XOR),
    (''Q6_Q_vcmp_eqxacc_QVsfVsf'', K_CMP_EQ, L_ELEM, P_XOR)
  ]"

text \<open>The element types of \<open>isa_kernels.h\<close>.\<close>

definition ISA_T_SF :: nat where "ISA_T_SF = 1"
definition ISA_T_HF :: nat where "ISA_T_HF = 2"
definition ISA_T_QF32 :: nat where "ISA_T_QF32 = 3"
definition ISA_T_QF16 :: nat where "ISA_T_QF16 = 4"
definition ISA_T_BF :: nat where "ISA_T_BF = 5"
definition ISA_T_B :: nat where "ISA_T_B = 8"
definition ISA_T_UB :: nat where "ISA_T_UB = 9"
definition ISA_T_H :: nat where "ISA_T_H = 10"
definition ISA_T_UH :: nat where "ISA_T_UH = 11"
definition ISA_T_W :: nat where "ISA_T_W = 12"
definition ISA_T_UW :: nat where "ISA_T_UW = 13"
definition ISA_T_PRED :: nat where "ISA_T_PRED = 14"

lemmas isa_types = ISA_T_SF_def ISA_T_HF_def ISA_T_QF32_def ISA_T_QF16_def ISA_T_BF_def ISA_T_B_def ISA_T_UB_def
  ISA_T_H_def ISA_T_UH_def ISA_T_W_def ISA_T_UW_def ISA_T_PRED_def

record oracle_op =
  op_name :: string
  in_type :: "nat list"
  in_bytes :: "nat list"
  out_type :: nat
  out_bytes :: nat
  n_vectors :: nat

record oracle_spec =
  s_kind :: kind
  s_layout :: layout
  s_pred :: pred

definition lane_bytes :: "nat \<Rightarrow> nat" where
  "lane_bytes t = (if t \<in> {ISA_T_SF, ISA_T_W, ISA_T_UW} then 4
     else if t \<in> {ISA_T_HF, ISA_T_BF, ISA_T_H, ISA_T_UH} then 2
     else if t \<in> {ISA_T_B, ISA_T_UB, ISA_T_PRED} then 1 else 0)"

definition is_float :: "nat \<Rightarrow> bool" where
  "is_float t \<longleftrightarrow> t = ISA_T_SF \<or> t = ISA_T_HF \<or> t = ISA_T_BF"

definition oracle_out_type :: "nat \<Rightarrow> nat" where
  "oracle_out_type t = (if t = ISA_T_QF32 then ISA_T_SF else if t = ISA_T_QF16 then ISA_T_HF else t)"

definition n_inputs :: "kind \<Rightarrow> layout \<Rightarrow> pred \<Rightarrow> nat" where
  "n_inputs kind layout pr = (if pr \<noteq> P_NONE then 3
     else case kind of K_COPY \<Rightarrow> 1 | K_ABS \<Rightarrow> 1 | K_NEG \<Rightarrow> 1 | K_EXP2 \<Rightarrow> 1
       | K_CVT \<Rightarrow> (if layout = L_NARROW_UV \<or> layout = L_NARROW_CONTIG then 2 else 1)
       | K_MUL_ADD \<Rightarrow> 3 | K_ADD_ADD \<Rightarrow> 3 | K_MUL_MUL \<Rightarrow> 3 | K_DMPY_ACC \<Rightarrow> 3 | _ \<Rightarrow> 2)"

text \<open>The lane and the input slot.\<close>

definition in_lane :: "layout \<Rightarrow> kind \<Rightarrow> nat \<Rightarrow> nat \<Rightarrow> nat \<Rightarrow> nat \<Rightarrow> (nat \<times> nat) option" where
  "in_lane layout kind j o' l_out l_in =
     (if kind \<in> {K_MUL_ADD, K_ADD_ADD, K_MUL_MUL, K_DMPY_ACC} \<and> j = 2 then Some (o', j)
      else case layout of
        L_SCALAR_B \<Rightarrow> Some (if j = 1 then 0 else o', j)
      | L_WIDEN_EO \<Rightarrow> if l_out div 2 = 0 then None else Some (2 * (o' mod (l_out div 2)) + o' div (l_out div 2), j)
      | L_WIDEN8_H \<Rightarrow> if l_out div 2 = 0 then None
          else (let t = o' mod (l_out div 2) in Some (4 * (t div 2) + t mod 2 + 2 * (o' div (l_out div 2)), j))
      | L_NARROW_UV \<Rightarrow> Some (o' div 2, o' mod 2)
      | L_NARROW_CONTIG \<Rightarrow> if l_in = 0 then None else Some (o' mod l_in, o' div l_in)
      | L_DMPY \<Rightarrow> Some (2 * o', j)
      | _ \<Rightarrow> Some (o', j))"

definition out_lanes :: "oracle_op \<Rightarrow> nat" where
  "out_lanes op = (let b = lane_bytes (oracle_out_type (out_type op)) in if b \<noteq> 0 then out_bytes op div b else 0)"

subsection \<open>The acceptance test\<close>

text \<open>A loop of tests ends at the first one that is not passed.\<close>

fun all_ok :: "bool option list \<Rightarrow> bool option" where
  "all_ok [] = Some True"
| "all_ok (Some True # xs) = all_ok xs"
| "all_ok (x # xs) = x"

definition is_cmp :: "kind \<Rightarrow> bool" where
  "is_cmp kind \<longleftrightarrow> kind = K_CMP_GT \<or> kind = K_CMP_EQ"

definition lane_ok :: "oracle_op \<Rightarrow> kind \<Rightarrow> layout \<Rightarrow> nat \<Rightarrow> nat \<Rightarrow> nat \<Rightarrow> nat \<Rightarrow> bool option" where
  "lane_ok op kind layout n_in j l_in o' =
     (let lb = lane_bytes (in_type op ! j); v = (if is_cmp kind \<and> j < 2 then o' div lb else o') in
      case in_lane layout kind j v (out_lanes op) l_in of None \<Rightarrow> None
      | Some (lane, slot) \<Rightarrow>
          let last_lane = lane + (if layout = L_DMPY \<and> \<not> (kind = K_DMPY_ACC \<and> j = 2) then 1 else 0) in
          Some (\<not> (last_lane \<ge> l_in \<or> slot \<ge> n_in)))"

definition input_ok :: "oracle_op \<Rightarrow> kind \<Rightarrow> layout \<Rightarrow> nat \<Rightarrow> nat \<Rightarrow> bool option" where
  "input_ok op kind layout n_in j =
     (let t = in_type op ! j; lb = lane_bytes t; out_t = oracle_out_type (out_type op) in
      if lb = 0 \<or> in_bytes op ! j = 0 \<or> (t = ISA_T_PRED) \<noteq> (is_cmp kind \<and> j = 2) then Some False
      else if \<not> is_cmp kind \<and> \<not> is_float t \<and> \<not> (kind = K_CVT \<and> is_float out_t) then Some False
      else all_ok (map (lane_ok op kind layout n_in j (in_bytes op ! j div lb)) [0..<out_lanes op]))"

definition base_name :: "string \<Rightarrow> string" where
  "base_name name = (if take 5 name = ''ieee.'' then drop 5 name
     else if take 3 name = ''cc.'' then drop 3 name else name)"

text \<open>\<open>Some None\<close> is the return value 0.\<close>

definition oracle_find :: "oracle_op \<Rightarrow> oracle_spec option option" where
  "oracle_find op = (case find (\<lambda>e. fst e = base_name (op_name op)) k_table of
     None \<Rightarrow> Some None
   | Some (_, kind, layout, pr) \<Rightarrow>
       let out_t = oracle_out_type (out_type op); l_out = out_lanes op; cmp = is_cmp kind in
       if l_out = 0 \<or> (cmp \<and> out_t \<noteq> ISA_T_PRED) \<or> (\<not> cmp \<and> kind \<noteq> K_CVT \<and> \<not> is_float out_t) \<or>
          (kind = K_CVT \<and> out_t = ISA_T_PRED)
       then Some None
       else let n_in = n_inputs kind layout pr in
         case all_ok (map (input_ok op kind layout n_in) [0..<n_in]) of
           None \<Rightarrow> None
         | Some False \<Rightarrow> Some None
         | Some True \<Rightarrow> Some (Some \<lparr>s_kind = kind, s_layout = layout, s_pred = pr\<rparr>))"

subsection \<open>Lane access\<close>

record fenv =
  nan_op :: "u32 \<Rightarrow> u32 \<Rightarrow> u32"
  nan_of_half :: "u16 \<Rightarrow> u32"
  nan_to_half :: "u32 \<Rightarrow> u16"
  exp2f :: "u32 \<Rightarrow> u32"

text \<open>The pattern of a value that is not a NaN.\<close>

definition f32_bits :: "fp \<Rightarrow> u32" where
  "f32_bits x = (let (s, c) = encode F32 x in of_nat (c + (if s then 2 ^ 31 else 0)))"

definition f16_bits :: "fp \<Rightarrow> u16" where
  "f16_bits x = (let (s, c) = encode F16 x in of_nat (c + (if s then 2 ^ 15 else 0)))"

definition is_nan :: "u32 \<Rightarrow> bool" where "is_nan x \<longleftrightarrow> f32_of x = NaN"

definition half_to_f32 :: "fenv \<Rightarrow> u16 \<Rightarrow> u32" where
  "half_to_f32 E h = (if f16_of h = NaN then nan_of_half E h else f32_bits (fp_cvt F32 (f16_of h)))"

definition f32_to_half :: "fenv \<Rightarrow> u32 \<Rightarrow> u16" where
  "f32_to_half E x = (if is_nan x then nan_to_half E x else f16_bits (fp_cvt F16 (f32_of x)))"

definition bf_to_f32 :: "u16 \<Rightarrow> u32" where
  "bf_to_f32 b = push_bit 16 (ucast b)"

definition f32_to_bf :: "u32 \<Rightarrow> u16" where
  "f32_to_bf u = (if unat (u AND 0x7fffffff) > 0x7f800000 then ucast (drop_bit 16 u OR 0x40)
     else ucast (drop_bit 16 (u + 0x7fff + (drop_bit 16 u AND 1))))"

text \<open>The bytes of a buffer at an offset.\<close>

definition bytes_at :: "u8 list option \<Rightarrow> nat \<Rightarrow> nat \<Rightarrow> u8 list option" where
  "bytes_at buf off n = (case buf of None \<Rightarrow> None | Some bs \<Rightarrow> if off + n \<le> length bs then Some (take n (drop off bs)) else None)"

definition le16 :: "u16 \<Rightarrow> u8 list" where
  "le16 v = [ucast v, ucast (drop_bit 8 v)]"

definition u16_of :: "u8 list \<Rightarrow> u16" where
  "u16_of bs = ucast (bs ! 0) OR push_bit 8 (ucast (bs ! 1))"

definition u32_of :: "u8 list \<Rightarrow> u32" where
  "u32_of bs = ld32 (nth bs) 0"

text \<open>A pointer is a buffer and an offset.\<close>

type_synonym cptr = "u8 list option \<times> nat"

definition get_f :: "fenv \<Rightarrow> nat \<Rightarrow> cptr \<Rightarrow> nat \<Rightarrow> u32 option" where
  "get_f E t p lane = (if t = ISA_T_SF then map_option u32_of (bytes_at (fst p) (snd p + 4 * lane) 4)
     else map_option (\<lambda>bs. if t = ISA_T_BF then bf_to_f32 (u16_of bs) else half_to_f32 E (u16_of bs))
       (bytes_at (fst p) (snd p + 2 * lane) 2))"

definition get_i :: "nat \<Rightarrow> cptr \<Rightarrow> nat \<Rightarrow> int option" where
  "get_i t p lane =
     (if t = ISA_T_B then map_option (\<lambda>bs. sint (bs ! 0)) (bytes_at (fst p) (snd p + lane) 1)
      else if t = ISA_T_UB then map_option (\<lambda>bs. uint (bs ! 0)) (bytes_at (fst p) (snd p + lane) 1)
      else if t = ISA_T_PRED then map_option (\<lambda>bs. uint (bs ! 0 AND 1)) (bytes_at (fst p) (snd p + lane) 1)
      else if t = ISA_T_H then map_option (\<lambda>bs. sint (u16_of bs)) (bytes_at (fst p) (snd p + 2 * lane) 2)
      else if t = ISA_T_UH then map_option (\<lambda>bs. uint (u16_of bs)) (bytes_at (fst p) (snd p + 2 * lane) 2)
      else if t = ISA_T_W then map_option (\<lambda>bs. sint (u32_of bs)) (bytes_at (fst p) (snd p + 4 * lane) 4)
      else map_option (\<lambda>bs. uint (u32_of bs)) (bytes_at (fst p) (snd p + 4 * lane) 4))"

definition round_to :: "fenv \<Rightarrow> nat \<Rightarrow> u32 \<Rightarrow> u32" where
  "round_to E t x = (if t = ISA_T_HF then half_to_f32 E (f32_to_half E x)
     else if t = ISA_T_BF then bf_to_f32 (f32_to_bf x) else x)"

text \<open>The bytes that \<open>put_f\<close> and \<open>put_i\<close> store at the lane, which starts at \<open>lane_bytes\<close> times its index.\<close>

definition put_f :: "fenv \<Rightarrow> nat \<Rightarrow> u32 \<Rightarrow> u8 list" where
  "put_f E t x = (if t = ISA_T_SF then le32 x else if t = ISA_T_BF then le16 (f32_to_bf x) else le16 (f32_to_half E x))"

definition put_i :: "nat \<Rightarrow> int \<Rightarrow> u8 list" where
  "put_i t v = (if t \<in> {ISA_T_B, ISA_T_UB, ISA_T_PRED} then [word_of_int v]
     else if t \<in> {ISA_T_H, ISA_T_UH} then le16 (word_of_int v) else le32 (word_of_int v))"

subsection \<open>Arithmetic\<close>

definition f32_result :: "u32 \<Rightarrow> fp \<Rightarrow> u32" where
  "f32_result nan v = (if v = NaN then nan else f32_bits v)"

definition f_add :: "fenv \<Rightarrow> u32 \<Rightarrow> u32 \<Rightarrow> u32" where
  "f_add E a b = f32_result (nan_op E a b) (fp_add F32 (f32_of a) (f32_of b))"

definition f_sub :: "fenv \<Rightarrow> u32 \<Rightarrow> u32 \<Rightarrow> u32" where
  "f_sub E a b = f32_result (nan_op E a b) (fp_sub F32 (f32_of a) (f32_of b))"

definition f_mul :: "fenv \<Rightarrow> u32 \<Rightarrow> u32 \<Rightarrow> u32" where
  "f_mul E a b = f32_result (nan_op E a b) (fp_mul F32 (f32_of a) (f32_of b))"

definition f_gt :: "u32 \<Rightarrow> u32 \<Rightarrow> bool" where "f_gt a b \<longleftrightarrow> fp_less (f32_of b) (f32_of a)"
definition f_eq :: "u32 \<Rightarrow> u32 \<Rightarrow> bool" where "f_eq a b \<longleftrightarrow> fp_eq (f32_of a) (f32_of b)"
definition signbit :: "u32 \<Rightarrow> bool" where "signbit a \<longleftrightarrow> bit a 31"
definition f_abs :: "u32 \<Rightarrow> u32" where "f_abs a = a AND 0x7fffffff"
definition f_neg :: "u32 \<Rightarrow> u32" where "f_neg a = a XOR 0x80000000"
definition f_of_int :: "int \<Rightarrow> u32" where "f_of_int v = f32_bits (fp_of_int F32 v)"

text \<open>\<open>rintf\<close>, and the conversion of a \<open>float\<close> to \<open>int64_t\<close>, which drops the fraction.\<close>

fun rint_fp :: "fp \<Rightarrow> fp" where
  "rint_fp (Fin s m e) = (if 0 \<le> e then Fin s m e else round_fp F32 s (shift_rne m (nat (- e))) 0)"
| "rint_fp x = x"

fun trunc_int :: "fp \<Rightarrow> int" where
  "trunc_int (Fin s m e) = signed s (if 0 \<le> e then m * 2 ^ nat e else m div 2 ^ nat (- e))"
| "trunc_int x = 0"

text \<open>\<open>r < lo ? lo : r > hi ? hi : r\<close>, and its conversion.\<close>

definition clip :: "fp \<Rightarrow> int \<Rightarrow> int \<Rightarrow> int" where
  "clip r lo hi = trunc_int (if fp_less r (fp_of_int F32 lo) then fp_of_int F32 lo
     else if fp_less (fp_of_int F32 hi) r then fp_of_int F32 hi else r)"

definition to_int :: "nat \<Rightarrow> u32 \<Rightarrow> int" where
  "to_int t x = (if is_nan x then 0
     else let r = rint_fp (f32_of x) in
       if t = ISA_T_B then clip r (-128) 127
       else if t = ISA_T_UB then clip r 0 255
       else if t = ISA_T_H then clip r (-32768) 32767
       else if t = ISA_T_UH then clip r 0 65535
       else if t = ISA_T_W then
         (if fp_less (fp_of_int F32 2147483648) r \<or> fp_eq r (fp_of_int F32 2147483648) then 2147483647
          else if fp_less r (fp_of_int F32 (-2147483648)) then -2147483648 else trunc_int r)
       else
         (if fp_less (fp_of_int F32 4294967296) r \<or> fp_eq r (fp_of_int F32 4294967296) then 4294967295
          else if fp_less r (fp_of_int F32 0) then 0 else trunc_int r))"

definition max_num :: "u32 \<Rightarrow> u32 \<Rightarrow> u32" where
  "max_num a b = (if is_nan a then b else if is_nan b then a
     else if f_eq a b then (if signbit a then b else a) else if f_gt a b then a else b)"

definition min_num :: "u32 \<Rightarrow> u32 \<Rightarrow> u32" where
  "min_num a b = (if is_nan a then b else if is_nan b then a
     else if f_eq a b then (if signbit a then a else b) else if f_gt b a then a else b)"

subsection \<open>The computation\<close>

text \<open>The lanes of one iteration of an input.\<close>

definition lanes_in :: "oracle_op \<Rightarrow> nat \<Rightarrow> nat" where
  "lanes_in op j = in_bytes op ! j div lane_bytes (in_type op ! j)"

text \<open>The pointer \<open>c[j]\<close> of iteration \<open>i\<close>.\<close>

definition chunk :: "oracle_op \<Rightarrow> nat \<Rightarrow> u8 list option list \<Rightarrow> nat \<Rightarrow> nat \<Rightarrow> cptr" where
  "chunk op n_in ins i j = (if j < n_in then (ins ! j, i * (in_bytes op ! j)) else (None, 0))"

definition spec_inputs :: "oracle_spec \<Rightarrow> nat" where
  "spec_inputs sp = n_inputs (s_kind sp) (s_layout sp) (s_pred sp)"

text \<open>The value of input \<open>j\<close> for lane \<open>v\<close>, read with the type of input \<open>j\<close>; \<open>nxt\<close> is 1 for the second lane of a
  dot product.\<close>

definition lane_value :: "fenv \<Rightarrow> oracle_op \<Rightarrow> oracle_spec \<Rightarrow> u8 list option list \<Rightarrow> nat \<Rightarrow> nat \<Rightarrow> nat \<Rightarrow> nat \<Rightarrow> u32 option" where
  "lane_value E op sp ins i v j nxt =
     (case in_lane (s_layout sp) (s_kind sp) j v (out_lanes op) (lanes_in op j) of None \<Rightarrow> None
      | Some (lane, _) \<Rightarrow> get_f E (in_type op ! j) (chunk op (spec_inputs sp) ins i j) (lane + nxt))"

definition pred_update :: "pred \<Rightarrow> int \<Rightarrow> int \<Rightarrow> int" where
  "pred_update pr q r = (case pr of P_AND \<Rightarrow> q AND r | P_OR \<Rightarrow> q OR r | P_XOR \<Rightarrow> q XOR r | P_NONE \<Rightarrow> r)"

definition cmp_lane :: "fenv \<Rightarrow> oracle_op \<Rightarrow> oracle_spec \<Rightarrow> u8 list option list \<Rightarrow> nat \<Rightarrow> nat \<Rightarrow> u8 list option" where
  "cmp_lane E op sp ins i o' =
     (let v = o' div lane_bytes (in_type op ! 0) in
      case (lane_value E op sp ins i v 0 0, lane_value E op sp ins i v 1 0,
        if s_pred sp \<noteq> P_NONE then get_i ISA_T_PRED (chunk op (spec_inputs sp) ins i 2) o' else Some 0) of
        (Some a, Some b, Some q) \<Rightarrow>
          Some (put_i ISA_T_PRED (pred_update (s_pred sp) q (of_bool (if s_kind sp = K_CMP_GT then f_gt a b else f_eq a b))))
      | _ \<Rightarrow> None)"

definition cvt_lane :: "fenv \<Rightarrow> nat \<Rightarrow> nat \<Rightarrow> cptr \<Rightarrow> nat \<Rightarrow> u8 list option" where
  "cvt_lane E out_t t0 c lane =
     (if is_float t0 then map_option (\<lambda>a. if is_float out_t then put_f E out_t a else put_i out_t (to_int out_t a)) (get_f E t0 c lane)
      else map_option (\<lambda>v. put_f E out_t (f_of_int v)) (get_i t0 c lane))"

text \<open>The value of an op other than a conversion or a compare, from its operands: \<open>a\<close>, \<open>b\<close> and \<open>x\<close>, and \<open>a1\<close> and
  \<open>b1\<close> for a dot product.\<close>

definition arith :: "fenv \<Rightarrow> kind \<Rightarrow> nat \<Rightarrow> u32 \<Rightarrow> u32 \<Rightarrow> u32 \<Rightarrow> u32 \<Rightarrow> u32 \<Rightarrow> u32" where
  "arith E kind out_t a b x a1 b1 = (case kind of
       K_COPY \<Rightarrow> a | K_ABS \<Rightarrow> f_abs a | K_NEG \<Rightarrow> f_neg a | K_EXP2 \<Rightarrow> exp2f E a
     | K_ADD \<Rightarrow> f_add E a b | K_SUB \<Rightarrow> f_sub E a b | K_MUL \<Rightarrow> f_mul E a b
     | K_MAX \<Rightarrow> max_num a b | K_MIN \<Rightarrow> min_num a b
     | K_MUL_ADD \<Rightarrow> f_add E (round_to E out_t (f_mul E a b)) x
     | K_ADD_ADD \<Rightarrow> f_add E (round_to E out_t (f_add E a b)) x
     | K_MUL_MUL \<Rightarrow> f_mul E (round_to E out_t (f_mul E a b)) x
     | K_DMPY \<Rightarrow> f_add E (f_mul E a b) (f_mul E a1 b1)
     | K_DMPY_ACC \<Rightarrow> f_add E x (f_add E (f_mul E a b) (f_mul E a1 b1))
     | _ \<Rightarrow> a)"

definition is_dot :: "kind \<Rightarrow> bool" where
  "is_dot kind \<longleftrightarrow> kind = K_DMPY \<or> kind = K_DMPY_ACC"

definition oracle_lane :: "fenv \<Rightarrow> oracle_op \<Rightarrow> oracle_spec \<Rightarrow> u8 list option list \<Rightarrow> nat \<Rightarrow> nat \<Rightarrow> u8 list option" where
  "oracle_lane E op sp ins i o' =
     (let out_t = oracle_out_type (out_type op); n_in = spec_inputs sp; kind = s_kind sp in
      if is_cmp kind then cmp_lane E op sp ins i o'
      else case in_lane (s_layout sp) kind 0 o' (out_lanes op) (lanes_in op 0) of None \<Rightarrow> None
        | Some (lane0, slot0) \<Rightarrow>
          let t0 = in_type op ! slot0; c0 = chunk op n_in ins i slot0 in
          if kind = K_CVT then cvt_lane E out_t t0 c0 lane0
          else (case (get_f E t0 c0 lane0,
              if 2 \<le> n_in then lane_value E op sp ins i o' 1 0 else Some 0,
              if n_in = 3 then lane_value E op sp ins i o' 2 0 else Some 0,
              if is_dot kind then get_f E (in_type op ! 0) (chunk op n_in ins i 0) (lane0 + 1) else Some 0,
              if is_dot kind then lane_value E op sp ins i o' 1 1 else Some 0) of
            (Some a, Some b, Some x, Some a1, Some b1) \<Rightarrow> Some (put_f E out_t (arith E kind out_t a b x a1 b1))
          | _ \<Rightarrow> None))"

text \<open>A loop that stops at undefined behaviour.\<close>

fun loop :: "('a \<Rightarrow> 's \<Rightarrow> 's option) \<Rightarrow> 'a list \<Rightarrow> 's \<Rightarrow> 's option" where
  "loop f [] s = Some s"
| "loop f (x # xs) s = (case f x s of None \<Rightarrow> None | Some s' \<Rightarrow> loop f xs s')"

definition store :: "nat \<Rightarrow> u8 list \<Rightarrow> u8 list \<Rightarrow> u8 list option" where
  "store off bs buf = (if off + length bs \<le> length buf then Some (take off buf @ bs @ drop (off + length bs) buf) else None)"

definition oracle_step :: "fenv \<Rightarrow> oracle_op \<Rightarrow> oracle_spec \<Rightarrow> u8 list option list \<Rightarrow> nat \<Rightarrow> nat \<Rightarrow> u8 list \<Rightarrow> u8 list option" where
  "oracle_step E op sp ins i o' out = (case oracle_lane E op sp ins i o' of None \<Rightarrow> None
     | Some bs \<Rightarrow> store (i * out_bytes op + o' * lane_bytes (oracle_out_type (out_type op))) bs out)"

definition oracle_run :: "fenv \<Rightarrow> oracle_op \<Rightarrow> oracle_spec \<Rightarrow> u8 list option list \<Rightarrow> u8 list \<Rightarrow> u8 list option" where
  "oracle_run E op sp ins out =
     loop (\<lambda>i. loop (oracle_step E op sp ins i) [0..<out_lanes op]) [0..<n_vectors op] out"

definition oracle_kind_name :: "nat \<Rightarrow> string" where
  "oracle_kind_name kind = (let names = [[], ''copy'', ''abs'', ''neg'', ''add'', ''sub'', ''mul'', ''max'', ''min'', ''mul_add'',
      ''add_add'', ''mul_mul'', ''dmpy'', ''dmpy_acc'', ''cvt'', ''cmp_gt'', ''cmp_eq'', ''exp2''] in
     if 0 < kind \<and> kind < length names then names ! kind else ''?'')"

end
