(* ===== verification/OracleLanes.thy ===== *)
theory OracleLanes
  imports Oracle
begin

text \<open>
  The lanes of the oracle: the acceptance test covers each lane that the computation reads, so \<^const>\<open>oracle_lane\<close> of an
  accepted op is defined and gives the bytes of one output lane.
\<close>

subsection \<open>Loops over lanes\<close>

lemma loop_append: "loop f (xs @ ys) s = (case loop f xs s of None \<Rightarrow> None | Some s' \<Rightarrow> loop f ys s')"
  by (induction xs arbitrary: s) (auto split: option.splits)

text \<open>A loop that stores blocks of the same length one after the other.\<close>

lemma loop_fill:
  assumes f: "\<And>k buf. k < m \<Longrightarrow> length buf = n \<Longrightarrow>
      f k buf = Some (take (base + k * w) buf @ b k @ drop (base + k * w + w) buf)"
    and b: "\<And>k. k < m \<Longrightarrow> length (b k) = w" and len: "length buf = n" "base + m * w \<le> n"
  shows "loop f [0..<m] buf = Some (take base buf @ concat (map b [0..<m]) @ drop (base + m * w) buf)"
  using f b len
proof (induction m)
  case 0
  then show ?case by simp
next
  case (Suc m)
  have ih: "loop f [0..<m] buf = Some (take base buf @ concat (map b [0..<m]) @ drop (base + m * w) buf)"
    using Suc by simp
  have "length (concat (map b [0..<k])) = k * w" if "k \<le> m" for k
    using that Suc(3) by (induction k) simp_all
  then have c: "length (concat (map b [0..<m])) = m * w" by simp
  let ?buf = "take base buf @ concat (map b [0..<m]) @ drop (base + m * w) buf"
  have "length ?buf = n" using Suc(4,5) c by simp
  moreover have "take (base + m * w) ?buf = take base buf @ concat (map b [0..<m])"
    "drop (base + m * w + w) ?buf = drop (base + m * w + w) buf"
    using Suc(4,5) c by (simp_all add: add.commute)
  ultimately show ?case
    using Suc(2)[of m ?buf] by (simp add: loop_append ih add.commute add.left_commute)
qed

subsection \<open>What an accepted op reads\<close>

lemma all_ok_True: "all_ok xs = Some True \<longleftrightarrow> (\<forall>x\<in>set xs. x = Some True)"
  by (induction xs rule: all_ok.induct) auto

lemma all_ok_None: "all_ok xs = None \<Longrightarrow> None \<in> set xs"
  by (induction xs rule: all_ok.induct) auto

lemma table_shapes:
  "\<forall>(n, k, l, p)\<in>set k_table. ((l = L_NARROW_UV \<or> l = L_NARROW_CONTIG) \<longrightarrow> k = K_CVT) \<and> (is_cmp k \<longrightarrow> l = L_ELEM) \<and>
     (p \<noteq> P_NONE \<longrightarrow> is_cmp k) \<and> (l = L_DMPY \<longleftrightarrow> is_dot k)"
  by (simp add: k_table_def is_cmp_def is_dot_def)

definition vector_op :: "oracle_op \<Rightarrow> bool" where
  "vector_op op \<longleftrightarrow> length (in_type op) = 3 \<and> length (in_bytes op) = 3 \<and> out_bytes op \<in> {128, 256} \<and>
     set (in_bytes op) \<subseteq> {0, 128, 256}"

text \<open>What \<open>oracle_find\<close> has checked.\<close>

lemma find_accepts:
  assumes "oracle_find op = Some (Some sp)"
  shows "\<exists>n. (n, s_kind sp, s_layout sp, s_pred sp) \<in> set k_table" "out_lanes op \<noteq> 0"
    "is_cmp (s_kind sp) \<Longrightarrow> oracle_out_type (out_type op) = ISA_T_PRED"
    "\<not> is_cmp (s_kind sp) \<Longrightarrow> s_kind sp \<noteq> K_CVT \<Longrightarrow> is_float (oracle_out_type (out_type op))"
    "s_kind sp = K_CVT \<Longrightarrow> oracle_out_type (out_type op) \<noteq> ISA_T_PRED"
    "j < spec_inputs sp \<Longrightarrow> input_ok op (s_kind sp) (s_layout sp) (spec_inputs sp) j = Some True"
proof -
  obtain n k l p where f: "find (\<lambda>e. fst e = base_name (op_name op)) k_table = Some (n, k, l, p)"
    using assms by (auto simp: oracle_find_def split: option.splits)
  then have mem: "(n, k, l, p) \<in> set k_table" by (auto simp: find_Some_iff)
  have r: "sp = \<lparr>s_kind = k, s_layout = l, s_pred = p\<rparr> \<and> out_lanes op \<noteq> 0 \<and> (is_cmp k \<longrightarrow> oracle_out_type (out_type op) = ISA_T_PRED) \<and>
      (\<not> is_cmp k \<and> k \<noteq> K_CVT \<longrightarrow> is_float (oracle_out_type (out_type op))) \<and> (k = K_CVT \<longrightarrow> oracle_out_type (out_type op) \<noteq> ISA_T_PRED) \<and>
      all_ok (map (input_ok op k l (n_inputs k l p)) [0..<n_inputs k l p]) = Some True"
    using assms unfolding oracle_find_def f by (auto simp: Let_def split: if_splits option.splits bool.splits)
  show "\<exists>n. (n, s_kind sp, s_layout sp, s_pred sp) \<in> set k_table" using r mem by auto
  show "out_lanes op \<noteq> 0" using r by blast
  show "is_cmp (s_kind sp) \<Longrightarrow> oracle_out_type (out_type op) = ISA_T_PRED"
    "\<not> is_cmp (s_kind sp) \<Longrightarrow> s_kind sp \<noteq> K_CVT \<Longrightarrow> is_float (oracle_out_type (out_type op))"
    "s_kind sp = K_CVT \<Longrightarrow> oracle_out_type (out_type op) \<noteq> ISA_T_PRED" using r by auto
  show "j < spec_inputs sp \<Longrightarrow> input_ok op (s_kind sp) (s_layout sp) (spec_inputs sp) j = Some True"
    using r by (auto simp: all_ok_True spec_inputs_def)
qed

lemma input_ok_True:
  assumes "input_ok op kind layout n_in j = Some True"
  shows "lane_bytes (in_type op ! j) \<noteq> 0" "in_type op ! j = ISA_T_PRED \<longleftrightarrow> is_cmp kind \<and> j = 2"
    "\<not> is_cmp kind \<Longrightarrow> is_float (in_type op ! j) \<or> kind = K_CVT \<and> is_float (oracle_out_type (out_type op))"
    "o' < out_lanes op \<Longrightarrow> lane_ok op kind layout n_in j (lanes_in op j) o' = Some True"
  using assms by (auto simp: input_ok_def Let_def all_ok_True lanes_in_def split: if_splits)

text \<open>The lane that an accepted op reads exists.\<close>

lemma lane_ok_True:
  assumes "lane_ok op kind layout n_in j l_in o' = Some True"
  obtains lane slot where "in_lane layout kind j (if is_cmp kind \<and> j < 2 then o' div lane_bytes (in_type op ! j) else o') (out_lanes op) l_in
      = Some (lane, slot)" "lane < l_in" "slot < n_in" "layout = L_DMPY \<Longrightarrow> \<not> (kind = K_DMPY_ACC \<and> j = 2) \<Longrightarrow> lane + 1 < l_in"
  using assms by (auto simp: lane_ok_def Let_def split: option.splits prod.splits if_splits)

text \<open>Each input holds its vectors.\<close>

definition inputs_hold :: "oracle_op \<Rightarrow> nat \<Rightarrow> u8 list option list \<Rightarrow> bool" where
  "inputs_hold op n_in ins \<longleftrightarrow> (\<forall>j<n_in. case ins ! j of None \<Rightarrow> False | Some bs \<Rightarrow> n_vectors op * (in_bytes op ! j) \<le> length bs)"

lemma read_lane:
  assumes h: "inputs_hold op n_in ins" "j < n_in" and i: "i < n_vectors op" and l: "lane < lanes_in op j"
    and w: "w = lane_bytes (in_type op ! j)" "w \<noteq> 0"
  shows "\<exists>bs. bytes_at (fst (chunk op n_in ins i j)) (snd (chunk op n_in ins i j) + w * lane) w = Some bs \<and> length bs = w"
proof -
  obtain bs where bs: "ins ! j = Some bs" "n_vectors op * (in_bytes op ! j) \<le> length bs"
    using h by (auto simp: inputs_hold_def split: option.splits)
  have "(lane + 1) * w \<le> lanes_in op j * w" using l by (intro mult_le_mono1) simp
  also have "\<dots> \<le> in_bytes op ! j" by (simp add: lanes_in_def w(1))
  finally have "i * (in_bytes op ! j) + (lane + 1) * w \<le> (i + 1) * (in_bytes op ! j)" by simp
  also have "\<dots> \<le> n_vectors op * (in_bytes op ! j)" using i by (intro mult_le_mono1) simp
  finally have "i * (in_bytes op ! j) + w * lane + w \<le> length bs" using bs(2) by (simp add: algebra_simps)
  then show ?thesis using bs(1) h(2) by (simp add: chunk_def bytes_at_def)
qed

lemma get_f_ok:
  assumes "inputs_hold op n_in ins" "j < n_in" "i < n_vectors op" "lane < lanes_in op j" "is_float (in_type op ! j)"
  shows "\<exists>v. get_f E (in_type op ! j) (chunk op n_in ins i j) lane = Some v"
  using read_lane[OF assms(1-4), of "lane_bytes (in_type op ! j)"] assms(5)
  by (auto simp: get_f_def lane_bytes_def is_float_def isa_types)

lemma get_i_ok:
  assumes "inputs_hold op n_in ins" "j < n_in" "i < n_vectors op" "lane < lanes_in op j" "lane_bytes (in_type op ! j) \<noteq> 0"
    "\<not> is_float (in_type op ! j)"
  shows "\<exists>v. get_i (in_type op ! j) (chunk op n_in ins i j) lane = Some v"
  using read_lane[OF assms(1-4), of "lane_bytes (in_type op ! j)"] assms(5,6)
  by (auto simp: get_i_def lane_bytes_def is_float_def isa_types split: if_splits)

lemma put_f_length: "is_float t \<Longrightarrow> length (put_f E t x) = lane_bytes t"
  by (auto simp: put_f_def lane_bytes_def is_float_def isa_types le16_def)

lemma put_i_length: "lane_bytes t \<noteq> 0 \<Longrightarrow> \<not> is_float t \<Longrightarrow> length (put_i t v) = lane_bytes t"
  by (auto simp: put_i_def lane_bytes_def is_float_def isa_types le16_def split: if_splits)

lemma in_lane_slot: "in_lane layout kind j o' l_out l_in = Some (lane, slot) \<Longrightarrow> layout \<noteq> L_NARROW_UV \<Longrightarrow> layout \<noteq> L_NARROW_CONTIG \<Longrightarrow> slot = j"
  by (auto simp: in_lane_def Let_def split: if_splits layout.splits)

lemma spec_shape:
  assumes "oracle_find op = Some (Some sp)"
  shows "s_layout sp = L_NARROW_UV \<or> s_layout sp = L_NARROW_CONTIG \<Longrightarrow> s_kind sp = K_CVT" "is_cmp (s_kind sp) \<Longrightarrow> s_layout sp = L_ELEM"
    "\<not> is_cmp (s_kind sp) \<Longrightarrow> s_pred sp = P_NONE" "s_layout sp = L_DMPY \<longleftrightarrow> is_dot (s_kind sp)"
  using find_accepts(1)[OF assms] table_shapes by auto

text \<open>A comparison reads both of its inputs at the lane of the first one.\<close>

definition cmp_types :: "oracle_op \<Rightarrow> oracle_spec \<Rightarrow> bool" where
  "cmp_types op sp \<longleftrightarrow> (is_cmp (s_kind sp) \<longrightarrow> is_float (in_type op ! 0) \<and> is_float (in_type op ! 1) \<and>
     lane_bytes (in_type op ! 0) = lane_bytes (in_type op ! 1))"

text \<open>A value of input \<open>j\<close> of an accepted op.\<close>

lemma lane_value_ok:
  assumes found: "oracle_find op = Some (Some sp)" and hold: "inputs_hold op (spec_inputs sp) ins"
    and i: "i < n_vectors op" and o': "o' < out_lanes op" and j: "j < spec_inputs sp"
    and v: "v = (if is_cmp (s_kind sp) \<and> j < 2 then o' div lane_bytes (in_type op ! j) else o')"
    and fl: "is_float (in_type op ! j)" and nxt: "nxt = 0 \<or> nxt = 1 \<and> is_dot (s_kind sp) \<and> j < 2"
  shows "\<exists>lane slot x. in_lane (s_layout sp) (s_kind sp) j v (out_lanes op) (lanes_in op j) = Some (lane, slot) \<and>
    get_f E (in_type op ! j) (chunk op (spec_inputs sp) ins i j) (lane + nxt) = Some x \<and>
    lane_value E op sp ins i v j nxt = Some x"
proof -
  note ok = input_ok_True(4)[OF find_accepts(6)[OF found j] o']
  obtain lane slot where l: "in_lane (s_layout sp) (s_kind sp) j v (out_lanes op) (lanes_in op j) = Some (lane, slot)"
    "lane < lanes_in op j" "s_layout sp = L_DMPY \<Longrightarrow> \<not> (s_kind sp = K_DMPY_ACC \<and> j = 2) \<Longrightarrow> lane + 1 < lanes_in op j"
    using lane_ok_True[OF ok] unfolding v by metis
  have "lane + nxt < lanes_in op j"
    using nxt l(2,3) spec_shape(4)[OF found] by auto
  then obtain x where "get_f E (in_type op ! j) (chunk op (spec_inputs sp) ins i j) (lane + nxt) = Some x"
    using get_f_ok[OF hold j i _ fl] by blast
  then show ?thesis using l(1) by (simp add: lane_value_def)
qed

lemma n_inputs_cases:
  "n_inputs kind layout pr = 1 \<or> n_inputs kind layout pr = 2 \<or> n_inputs kind layout pr = 3"
  by (simp add: n_inputs_def split: kind.split)

lemma cmp_lane_ok:
  assumes found: "oracle_find op = Some (Some sp)" and hold: "inputs_hold op (spec_inputs sp) ins"
    and i: "i < n_vectors op" and o': "o' < out_lanes op" and types: "cmp_types op sp" and c: "is_cmp (s_kind sp)"
  shows "\<exists>bs. oracle_lane E op sp ins i o' = Some bs \<and> length bs = lane_bytes (oracle_out_type (out_type op))"
proof -
  have t: "is_float (in_type op ! 0)" "is_float (in_type op ! 1)" "lane_bytes (in_type op ! 0) = lane_bytes (in_type op ! 1)"
    using types c by (simp_all add: cmp_types_def)
  have n: "0 < spec_inputs sp" "1 < spec_inputs sp" "s_pred sp \<noteq> P_NONE \<Longrightarrow> 2 < spec_inputs sp"
    using c by (auto simp: spec_inputs_def n_inputs_def is_cmp_def)
  obtain a where a: "lane_value E op sp ins i (o' div lane_bytes (in_type op ! 0)) 0 0 = Some a"
    using lane_value_ok[OF found hold i o' n(1) _ t(1), of "o' div lane_bytes (in_type op ! 0)" 0] c by auto
  obtain b where b: "lane_value E op sp ins i (o' div lane_bytes (in_type op ! 0)) 1 0 = Some b"
    using lane_value_ok[OF found hold i o' n(2) _ t(2), of "o' div lane_bytes (in_type op ! 0)" 0] c t(3) by auto
  have "\<exists>q. get_i ISA_T_PRED (chunk op (spec_inputs sp) ins i 2) o' = Some q" if p: "s_pred sp \<noteq> P_NONE"
  proof -
    note ok = find_accepts(6)[OF found n(3)[OF p]]
    have t2: "in_type op ! 2 = ISA_T_PRED" using input_ok_True(2)[OF ok] c by simp
    have "o' < lanes_in op 2"
      using lane_ok_True[OF input_ok_True(4)[OF ok o']] c spec_shape(2)[OF found c] by (force simp: in_lane_def is_cmp_def)
    then show ?thesis
      using get_i_ok[OF hold n(3)[OF p] i, of o'] t2 by (simp add: lane_bytes_def is_float_def isa_types)
  qed
  then obtain q where q: "(if s_pred sp \<noteq> P_NONE then get_i ISA_T_PRED (chunk op (spec_inputs sp) ins i 2) o' else Some 0) = Some q"
    by (cases "s_pred sp = P_NONE") auto
  show ?thesis
    using c a b q find_accepts(3)[OF found c]
    by (simp add: oracle_lane_def cmp_lane_def Let_def lane_bytes_def put_i_def isa_types)
qed

lemma lane_ok_cvt:
  assumes "lane_ok op K_CVT layout n_in j l_in o' = Some True"
  obtains lane slot where "in_lane layout K_CVT j o' (out_lanes op) l_in = Some (lane, slot)" "lane < l_in" "slot < n_in"
  using assms by (auto simp: lane_ok_def is_cmp_def Let_def split: option.splits prod.splits)

lemma cvt_lane_ok:
  assumes found: "oracle_find op = Some (Some sp)" and hold: "inputs_hold op (spec_inputs sp) ins"
    and i: "i < n_vectors op" and o': "o' < out_lanes op" and k: "s_kind sp = K_CVT"
  shows "\<exists>bs. oracle_lane E op sp ins i o' = Some bs \<and> length bs = lane_bytes (oracle_out_type (out_type op))"
proof -
  let ?out = "oracle_out_type (out_type op)"
  have nc: "\<not> is_cmp (s_kind sp)" by (simp add: k is_cmp_def)
  have n0: "0 < spec_inputs sp" using n_inputs_cases unfolding spec_inputs_def by (metis less_numeral_extra(1) zero_less_numeral)
  note ok0 = find_accepts(6)[OF found n0]
  obtain lane slot where l: "in_lane (s_layout sp) K_CVT 0 o' (out_lanes op) (lanes_in op 0) = Some (lane, slot)"
    "lane < lanes_in op 0" "slot < spec_inputs sp"
    using lane_ok_cvt[OF input_ok_True(4)[OF ok0 o', unfolded k]] by blast
  have lane: "lane < lanes_in op slot"
  proof (cases "slot = 0")
    case False
    then have sl: "s_layout sp = L_NARROW_UV \<or> s_layout sp = L_NARROW_CONTIG" using in_lane_slot[OF l(1)] by blast
    then have two: "spec_inputs sp = 2" using spec_shape(3)[OF found nc] by (auto simp: spec_inputs_def n_inputs_def k)
    then have s1: "slot = 1" using l(3) False by simp
    have n1: "1 < spec_inputs sp" using two by simp
    obtain lane1 slot1 where l1: "in_lane (s_layout sp) K_CVT 1 o' (out_lanes op) (lanes_in op 1) = Some (lane1, slot1)"
      "lane1 < lanes_in op 1" "slot1 < 2"
      using lane_ok_cvt[OF input_ok_True(4)[OF find_accepts(6)[OF found n1] o', unfolded k two]] by blast
    from sl show ?thesis
    proof
      assume "s_layout sp = L_NARROW_UV"
      then show ?thesis using l(1) l1(1,2) s1 by (auto simp: in_lane_def)
    next
      assume "s_layout sp = L_NARROW_CONTIG"
      then have d: "lane = o' mod lanes_in op 0" "o' div lanes_in op 0 = 1" "o' div lanes_in op 1 < 2" "lanes_in op 1 \<noteq> 0"
        using l(1) l1(1,3) s1 by (auto simp: in_lane_def split: if_splits)
      have "o' = lanes_in op 0 + lane" using d(1,2) div_mult_mod_eq[of o' "lanes_in op 0"] by simp
      moreover have "o' < 2 * lanes_in op 1" using d(3,4) by (simp add: div_less_iff_less_mult mult.commute)
      ultimately show ?thesis using l(2) s1 by simp
    qed
  qed (use l(2) in simp)
  note ok = find_accepts(6)[OF found l(3)]
  have lb: "lane_bytes ?out \<noteq> 0" using find_accepts(2)[OF found] by (auto simp: out_lanes_def Let_def split: if_splits)
  show ?thesis
  proof (cases "is_float (in_type op ! slot)")
    case True
    then obtain v where "get_f E (in_type op ! slot) (chunk op (spec_inputs sp) ins i slot) lane = Some v"
      using get_f_ok[OF hold l(3) i lane] by blast
    then show ?thesis
      using True l(1) lb by (simp add: oracle_lane_def k is_cmp_def cvt_lane_def Let_def put_f_length put_i_length)
  next
    case False
    then have fo: "is_float ?out" using input_ok_True(3)[OF ok nc] by blast
    obtain v where "get_i (in_type op ! slot) (chunk op (spec_inputs sp) ins i slot) lane = Some v"
      using get_i_ok[OF hold l(3) i lane input_ok_True(1)[OF ok] False] by blast
    then show ?thesis
      using False fo l(1) by (simp add: oracle_lane_def k is_cmp_def cvt_lane_def Let_def put_f_length)
  qed
qed

lemma arith_lane_ok:
  assumes found: "oracle_find op = Some (Some sp)" and hold: "inputs_hold op (spec_inputs sp) ins"
    and i: "i < n_vectors op" and o': "o' < out_lanes op" and k: "s_kind sp \<noteq> K_CVT" and nc: "\<not> is_cmp (s_kind sp)"
  shows "\<exists>bs. oracle_lane E op sp ins i o' = Some bs \<and> length bs = lane_bytes (oracle_out_type (out_type op))"
proof -
  have nl: "s_layout sp \<noteq> L_NARROW_UV" "s_layout sp \<noteq> L_NARROW_CONTIG" using spec_shape(1)[OF found] k by auto
  have fl: "is_float (in_type op ! j)" if "j < spec_inputs sp" for j
    using input_ok_True(3)[OF find_accepts(6)[OF found that] nc] k by blast
  have n0: "0 < spec_inputs sp" using n_inputs_cases unfolding spec_inputs_def by (metis less_numeral_extra(1) zero_less_numeral)
  have val: "\<exists>lane slot x. in_lane (s_layout sp) (s_kind sp) j o' (out_lanes op) (lanes_in op j) = Some (lane, slot) \<and>
      get_f E (in_type op ! j) (chunk op (spec_inputs sp) ins i j) (lane + nxt) = Some x \<and> lane_value E op sp ins i o' j nxt = Some x"
    if "j < spec_inputs sp" "nxt = 0 \<or> nxt = 1 \<and> is_dot (s_kind sp) \<and> j < 2" for j nxt
    using lane_value_ok[OF found hold i o' that(1) _ fl[OF that(1)] that(2), of o'] nc by auto
  obtain lane slot a where a: "in_lane (s_layout sp) (s_kind sp) 0 o' (out_lanes op) (lanes_in op 0) = Some (lane, slot)"
    "get_f E (in_type op ! 0) (chunk op (spec_inputs sp) ins i 0) lane = Some a"
    using val[OF n0, of 0] by auto
  have slot: "slot = 0" using in_lane_slot[OF a(1) nl] .
  have dot: "is_dot (s_kind sp) \<Longrightarrow> 1 < spec_inputs sp" using spec_shape(3)[OF found nc] by (auto simp: spec_inputs_def n_inputs_def is_dot_def)
  obtain b where b: "(if 2 \<le> spec_inputs sp then lane_value E op sp ins i o' 1 0 else Some 0) = Some b"
    using val[of 1 0] by (cases "2 \<le> spec_inputs sp") auto
  obtain x where x: "(if spec_inputs sp = 3 then lane_value E op sp ins i o' 2 0 else Some 0) = Some x"
    using val[of 2 0] by (cases "spec_inputs sp = 3") auto
  obtain a1 where a1: "(if is_dot (s_kind sp) then get_f E (in_type op ! 0) (chunk op (spec_inputs sp) ins i 0) (lane + 1) else Some 0) = Some a1"
    using val[OF n0, of 1] a(1) by (cases "is_dot (s_kind sp)") auto
  obtain b1 where b1: "(if is_dot (s_kind sp) then lane_value E op sp ins i o' 1 1 else Some 0) = Some b1"
    using val[OF dot, of 1] by (cases "is_dot (s_kind sp)") auto
  have out: "is_float (oracle_out_type (out_type op))" using find_accepts(4)[OF found nc k] .
  show ?thesis
    unfolding oracle_lane_def Let_def a(1) slot
    using nc k by (simp add: a(2) b x a1[simplified] b1[simplified] put_f_length[OF out])
qed

lemma oracle_lane_ok:
  assumes "oracle_find op = Some (Some sp)" "inputs_hold op (spec_inputs sp) ins" "i < n_vectors op" "o' < out_lanes op" "cmp_types op sp"
  shows "\<exists>bs. oracle_lane E op sp ins i o' = Some bs \<and> length bs = lane_bytes (oracle_out_type (out_type op))"
  using assms cmp_lane_ok cvt_lane_ok arith_lane_ok by blast

end
