(* ===== verification/OracleRun.thy ===== *)
theory OracleRun
  imports OracleLanes
begin

text \<open>
  The run of an accepted op: \<^const>\<open>oracle_find\<close> is defined, and \<^const>\<open>oracle_run\<close> writes each output lane once.
\<close>

subsection \<open>The run of an accepted op\<close>

lemma lane_bytes_values: "lane_bytes t \<in> {0, 1, 2, 4}"
  by (simp add: lane_bytes_def)

lemma out_lanes_full: "vector_op op \<Longrightarrow> out_lanes op \<noteq> 0 \<Longrightarrow> out_lanes op * lane_bytes (oracle_out_type (out_type op)) = out_bytes op"
  using lane_bytes_values[of "oracle_out_type (out_type op)"]
  by (auto simp: vector_op_def out_lanes_def Let_def)

lemma in_lane_defined: "2 \<le> l_out \<Longrightarrow> l_in \<noteq> 0 \<Longrightarrow> in_lane layout kind j o' l_out l_in \<noteq> None"
  by (auto simp: in_lane_def Let_def split: layout.splits)

lemma input_ok_None:
  assumes "input_ok op k l n j = None"
  obtains o' where "o' < out_lanes op" "lane_ok op k l n j (in_bytes op ! j div lane_bytes (in_type op ! j)) o' = None"
    "lane_bytes (in_type op ! j) \<noteq> 0" "in_bytes op ! j \<noteq> 0"
proof -
  have "lane_bytes (in_type op ! j) \<noteq> 0" "in_bytes op ! j \<noteq> 0"
    "all_ok (map (lane_ok op k l n j (in_bytes op ! j div lane_bytes (in_type op ! j))) [0..<out_lanes op]) = None"
    using assms by (simp_all add: input_ok_def Let_def split: if_splits)
  moreover from all_ok_None[OF this(3)] obtain o' where "o' < out_lanes op"
    "lane_ok op k l n j (in_bytes op ! j div lane_bytes (in_type op ! j)) o' = None" by (metis atLeastLessThan_iff image_iff list.set_map set_upt)
  ultimately show thesis using that by blast
qed

lemma lane_ok_defined:
  assumes "2 \<le> out_lanes op" "l_in \<noteq> 0"
  shows "lane_ok op k l n j l_in o' \<noteq> None"
proof -
  obtain lane slot where "in_lane l k j (if is_cmp k \<and> j < 2 then o' div lane_bytes (in_type op ! j) else o') (out_lanes op) l_in = Some (lane, slot)"
    using in_lane_defined[OF assms] by fastforce
  then show ?thesis by (simp add: lane_ok_def Let_def)
qed

lemma find_undefined:
  assumes "oracle_find op = None"
  obtains k l p j where "j < n_inputs k l p" "input_ok op k l (n_inputs k l p) j = None"
proof -
  obtain k l p where "all_ok (map (input_ok op k l (n_inputs k l p)) [0..<n_inputs k l p]) = None"
    using assms unfolding oracle_find_def by (auto simp: Let_def split: option.splits bool.splits if_splits)
  from all_ok_None[OF this] show thesis using that by auto
qed

lemma find_defined:
  assumes "vector_op op"
  shows "oracle_find op \<noteq> None"
proof -
  have lanes: "out_lanes op = 0 \<or> 2 \<le> out_lanes op"
    using assms lane_bytes_values[of "oracle_out_type (out_type op)"]
    by (auto simp: vector_op_def out_lanes_def Let_def)
  have "input_ok op k l n j \<noteq> None" if "j < 3" for k l n j
  proof
    assume "input_ok op k l n j = None"
    then obtain o' where o': "o' < out_lanes op" "lane_ok op k l n j (in_bytes op ! j div lane_bytes (in_type op ! j)) o' = None"
      "lane_bytes (in_type op ! j) \<noteq> 0" "in_bytes op ! j \<noteq> 0"
      by (rule input_ok_None)
    have "in_bytes op ! j \<in> {0, 128, 256}" using assms that by (auto simp: vector_op_def subset_iff)
    then have "in_bytes op ! j div lane_bytes (in_type op ! j) \<noteq> 0"
      using o'(3,4) lane_bytes_values[of "in_type op ! j"] by auto
    moreover have "2 \<le> out_lanes op" using lanes o'(1) by simp
    ultimately show False using lane_ok_defined o'(2) by blast
  qed
  moreover have "n_inputs k l p \<le> 3" for k l p using n_inputs_cases[of k l p] by auto
  ultimately show ?thesis using find_undefined by (metis order.strict_trans2)
qed

text \<open>The bytes that the oracle makes of an iteration.\<close>

definition oracle_row :: "fenv \<Rightarrow> oracle_op \<Rightarrow> oracle_spec \<Rightarrow> u8 list option list \<Rightarrow> nat \<Rightarrow> u8 list" where
  "oracle_row E op sp ins i = concat (map (\<lambda>o'. the (oracle_lane E op sp ins i o')) [0..<out_lanes op])"

lemma row_length:
  assumes "oracle_find op = Some (Some sp)" "inputs_hold op (spec_inputs sp) ins" "i < n_vectors op" "cmp_types op sp" "vector_op op"
  shows "length (oracle_row E op sp ins i) = out_bytes op"
proof -
  let ?w = "lane_bytes (oracle_out_type (out_type op))"
  have "length (the (oracle_lane E op sp ins i o')) = ?w" if "o' < out_lanes op" for o'
    using oracle_lane_ok[OF assms(1-3) that assms(4), of E] by auto
  then have "length (concat (map (\<lambda>o'. the (oracle_lane E op sp ins i o')) [0..<k])) = k * ?w" if "k \<le> out_lanes op" for k
    using that by (induction k) simp_all
  then show ?thesis using out_lanes_full[OF assms(5) find_accepts(2)[OF assms(1)]] by (simp add: oracle_row_def)
qed

text \<open>C18. For op descriptors with vectors of 128 or 256 bytes: when \<open>oracle_find\<close> accepts the op, then \<open>oracle_run\<close> on inputs that hold the vectors of the op reads only bytes of the inputs, writes only
  bytes of the output, and each output byte is that of its own lane: row after row, the lanes of the op in their
  order, whatever the output held before. For a comparison this needs that its two inputs have float types of the
  same size, which \<open>oracle_find\<close> does not test.\<close>

theorem oracle_run_lanes:
  assumes v: "vector_op op" and found: "oracle_find op = Some (Some sp)" and hold: "inputs_hold op (spec_inputs sp) ins"
    and types: "cmp_types op sp" and out: "length out = n_vectors op * out_bytes op"
  shows "oracle_run E op sp ins out = Some (concat (map (oracle_row E op sp ins) [0..<n_vectors op])) \<and>
    (\<forall>i<n_vectors op. \<forall>o'<out_lanes op. \<exists>bs. oracle_lane E op sp ins i o' = Some bs \<and>
       length bs = lane_bytes (oracle_out_type (out_type op)))"
proof -
  let ?w = "lane_bytes (oracle_out_type (out_type op))" and ?n = "n_vectors op * out_bytes op"
  have full: "out_lanes op * ?w = out_bytes op" using out_lanes_full[OF v find_accepts(2)[OF found]] .
  have lane: "oracle_lane E op sp ins i o' = Some (the (oracle_lane E op sp ins i o'))"
    "length (the (oracle_lane E op sp ins i o')) = ?w" if "i < n_vectors op" "o' < out_lanes op" for i o'
    using oracle_lane_ok[OF found hold that types, of E] by auto
  have row: "loop (oracle_step E op sp ins i) [0..<out_lanes op] buf
      = Some (take (0 + i * out_bytes op) buf @ oracle_row E op sp ins i @ drop (0 + i * out_bytes op + out_bytes op) buf)"
    if "i < n_vectors op" "length buf = ?n" for i buf
  proof -
    have "(i + 1) * out_bytes op \<le> ?n" using that(1) by (intro mult_le_mono1) simp
    then have fit: "i * out_bytes op + out_lanes op * ?w \<le> ?n" by (simp add: full)
    have "loop (oracle_step E op sp ins i) [0..<out_lanes op] buf = Some (take (i * out_bytes op) buf @
        concat (map (\<lambda>o'. the (oracle_lane E op sp ins i o')) [0..<out_lanes op]) @ drop (i * out_bytes op + out_lanes op * ?w) buf)"
    proof (rule loop_fill[OF _ _ that(2) fit])
      fix k b assume k: "k < out_lanes op" "length (b :: u8 list) = ?n"
      have "(k + 1) * ?w \<le> out_lanes op * ?w" using k(1) by (intro mult_le_mono1) simp
      then have "i * out_bytes op + k * ?w + ?w \<le> ?n" using fit by simp
      then show "oracle_step E op sp ins i k b = Some (take (i * out_bytes op + k * ?w) b @
          the (oracle_lane E op sp ins i k) @ drop (i * out_bytes op + k * ?w + ?w) b)"
        using lane[OF that(1) k(1)] k(2) by (auto simp: oracle_step_def store_def split: option.splits)
    qed (use lane that in simp)
    then show ?thesis by (simp add: oracle_row_def full)
  qed
  have "oracle_run E op sp ins out = Some (take 0 out @ concat (map (oracle_row E op sp ins) [0..<n_vectors op]) @
      drop (0 + n_vectors op * out_bytes op) out)"
    unfolding oracle_run_def
    by (rule loop_fill[OF row _ out]) (use row_length[OF found hold _ types v] in simp_all)
  then show ?thesis using out oracle_lane_ok[OF found hold _ _ types, of _ _ E] by simp
qed

text \<open>One vector of halves under \<open>vabs\<close>.\<close>

definition abs_op :: oracle_op where
  "abs_op = \<lparr>op_name = ''ieee.Q6_Vhf_vabs_Vhf'', in_type = [ISA_T_HF, 0, 0], in_bytes = [128, 0, 0], out_type = ISA_T_HF,
     out_bytes = 128, n_vectors = 1\<rparr>"

definition abs_spec :: oracle_spec where "abs_spec = \<lparr>s_kind = K_ABS, s_layout = L_ELEM, s_pred = P_NONE\<rparr>"

definition plain_env :: fenv where
  "plain_env = \<lparr>nan_op = (\<lambda>a b. 0x7fc00000), nan_of_half = (\<lambda>h. 0x7fc00000), nan_to_half = (\<lambda>x. 0x7e00), exp2f = (\<lambda>x. x)\<rparr>"

lemma abs_lanes: "out_lanes abs_op = 64"
  by (simp add: out_lanes_def abs_op_def oracle_out_type_def lane_bytes_def isa_types)

lemma abs_input: "input_ok abs_op K_ABS L_ELEM 1 0 = Some True"
proof -
  have "lane_ok abs_op K_ABS L_ELEM 1 0 64 o' = Some True" if "o' < 64" for o'
    using that by (simp add: lane_ok_def is_cmp_def in_lane_def Let_def)
  then have "all_ok (map (lane_ok abs_op K_ABS L_ELEM 1 0 64) [0..<64]) = Some True"
    by (auto simp: all_ok_True)
  then show ?thesis
    unfolding input_ok_def abs_lanes by (simp add: abs_op_def lane_bytes_def isa_types is_cmp_def is_float_def)
qed

lemma abs_found: "oracle_find abs_op = Some (Some abs_spec)"
proof -
  have "find (\<lambda>e. fst e = base_name (op_name abs_op)) k_table = Some (''Q6_Vhf_vabs_Vhf'', K_ABS, L_ELEM, P_NONE)"
    by (simp add: k_table_def base_name_def abs_op_def)
  then show ?thesis
    using abs_input abs_lanes
    by (simp add: oracle_find_def n_inputs_def is_cmp_def abs_spec_def) (simp add: abs_op_def oracle_out_type_def is_float_def isa_types)
qed

lemma oracle_run_lanes_witness:
  "oracle_run plain_env abs_op abs_spec [Some (replicate 128 0)] (replicate 128 1)
     = Some (oracle_row plain_env abs_op abs_spec [Some (replicate 128 0)] 0)"
proof -
  have "vector_op abs_op" by (simp add: vector_op_def abs_op_def)
  moreover have "inputs_hold abs_op (spec_inputs abs_spec) [Some (replicate 128 0)]"
    by (simp add: inputs_hold_def spec_inputs_def n_inputs_def abs_spec_def abs_op_def)
  moreover have "cmp_types abs_op abs_spec" by (simp add: cmp_types_def abs_spec_def is_cmp_def)
  ultimately show ?thesis
    using oracle_run_lanes[of abs_op abs_spec "[Some (replicate 128 0)]" "replicate 128 1" plain_env] abs_found
    by (simp add: abs_op_def)
qed

end
