(* ===== verification/OracleFloat.thy ===== *)
theory OracleFloat
  imports Oracle HvxLanes
begin

text \<open>
  The conversions of the oracle that are written on bits: bfloat16, and the saturating conversions to integers.
\<close>

definition bf16_of :: "u16 \<Rightarrow> fp" where
  "bf16_of w = decode BF16 (2 ^ 15 \<le> unat w) (unat w mod 2 ^ 15)"

lemma decode_bf16: "decode BF16 s c = (if c div 2 ^ 7 = 255 then (if c mod 2 ^ 7 = 0 then Inf s else NaN)
    else if c div 2 ^ 7 = 0 then Fin s (c mod 2 ^ 7) (-133)
    else Fin s (c mod 2 ^ 7 + 2 ^ 7) (int (c div 2 ^ 7) - 134))"
  by (simp add: decode_def top_exp_def BF16_def Let_def)

lemma shift_rne_hidden: "shift_rne (E * 2 ^ 23 + M) 16 = E * 2 ^ 7 + shift_rne M 16"
  using shift_rne_add[of 16 "E * 2 ^ 6" M] by (simp add: mult.commute)

lemma round_f32_bf16:
  assumes "0 < E" "E < 255" "M < 2 ^ 23"
  shows "round_fp BF16 s (M + 2 ^ 23) (int E - 150) = decode BF16 s (shift_rne (E * 2 ^ 23 + M) 16)"
proof -
  have "round_fp BF16 s (M + 2 ^ 23) (int E - 150)
      = decode BF16 s (nat (int E - 134 - e_min BF16) * 2 ^ (prec BF16 - 1) + shift_rne (M + 2 ^ 23) (nat (int E - 134 - (int E - 150))))"
    by (rule round_fp_code) (use assms bit_length_hidden[OF assms(3)] in \<open>auto simp: BF16_def good_fmt_def\<close>)
  also have "nat (int E - 134 - e_min BF16) = E - 1" using assms(1) by (simp add: BF16_def)
  also have "shift_rne (M + 2 ^ 23) (nat (int E - 134 - (int E - 150))) = 2 ^ 7 + shift_rne M 16"
    using shift_rne_hidden[of 1 M] by (simp add: add.commute)
  also have "(E - 1) * 2 ^ (prec BF16 - 1) + (2 ^ 7 + shift_rne M 16) = E * 2 ^ 7 + shift_rne M 16"
    using assms(1) by (cases E) (simp_all add: BF16_def)
  finally show ?thesis by (simp only: shift_rne_hidden)
qed

lemma round_f32_bf16_subnormal:
  assumes "a < 2 ^ 23"
  shows "round_fp BF16 s a (-149) = decode BF16 s (shift_rne a 16)"
proof (cases "a = 0")
  case True
  then show ?thesis by (simp add: round_fp_def shift_rne_def decode_bf16) (simp add: BF16_def)
next
  case False
  have "bit_length a \<le> 23" using assms by (rule bit_length_le)
  then have "round_fp BF16 s a (-149)
      = decode BF16 s (nat (-133 - e_min BF16) * 2 ^ (prec BF16 - 1) + shift_rne a (nat (-133 - (-149))))"
    using False by (intro round_fp_code) (auto simp: BF16_def good_fmt_def)
  then show ?thesis by (simp add: BF16_def)
qed

text \<open>The word that \<open>f32_to_bf\<close> makes of a number.\<close>

lemma f32_to_bf_word:
  assumes "unat x mod 2 ^ 31 \<le> 0x7f800000"
  shows "unat (f32_to_bf x) = shift_rne (unat x mod 2 ^ 31) 16 + (if 2 ^ 31 \<le> unat x then 2 ^ 15 else 0)"
    "shift_rne (unat x mod 2 ^ 31) 16 < 2 ^ 15"
proof -
  define a S where "a = unat x mod 2 ^ 31" and "S = unat x div 2 ^ 31"
  have x: "unat x = S * 2 ^ 31 + a" unfolding a_def S_def by (rule div_mult_mod_eq[symmetric])
  have S: "S \<le> 1" "2 ^ 31 \<le> unat x \<longleftrightarrow> S = 1"
  proof -
    have "S < 2" using unat_lt2p[of x] unfolding S_def by (simp add: less_mult_imp_div_less)
    then show "S \<le> 1" by simp
    show "2 ^ 31 \<le> unat x \<longleftrightarrow> S = 1" using \<open>S < 2\<close> x a_def by (cases "S = 0") auto
  qed
  have o: "unat x div 2 ^ 16 mod 2 = a div 2 ^ 16 mod 2"
  proof -
    have "unat x = 2 ^ 16 * (S * 2 ^ 15) + a" unfolding x by simp
    then have "unat x div 2 ^ 16 = S * 2 ^ 15 + a div 2 ^ 16" by (simp only: div_mult_self4 power_not_zero zero_neq_numeral not_False_eq_True)
    then show ?thesis by (simp add: mod_add_left_eq[symmetric])
  qed
  have b: "unat (drop_bit 16 x AND 1) = a div 2 ^ 16 mod 2" by (simp only: lane_masks unat_drop o)
  have a: "a \<le> 0x7f800000" using assms by (simp add: a_def)
  have "unat x + 0x7fff < 2 ^ 32" using x a S(1) by simp
  then have s1: "unat (x + 0x7fff) = unat x + 0x7fff" by (subst unat_add_lem[THEN iffD1]) simp_all
  have "unat (x + 0x7fff) + unat (drop_bit 16 x AND 1) < 2 ^ 32" unfolding s1 b using x a S(1) by (simp add: mod_less_divisor less_imp_le trans_le_add1)
  then have s2: "unat (x + 0x7fff + (drop_bit 16 x AND 1)) = unat x + 0x7fff + a div 2 ^ 16 mod 2"
    by (subst unat_add_lem[THEN iffD1]) (simp_all add: s1 b)
  have r: "(a + 0x7fff + a div 2 ^ 16 mod 2) div 2 ^ 16 = shift_rne a 16" using add_half_rne[of 16 a] by (simp add: add.assoc)
  have sm: "shift_rne a 16 \<le> 0x7f80" using a by (intro shift_rne_le) simp
  have "unat x + 0x7fff + a div 2 ^ 16 mod 2 = 2 ^ 16 * (S * 2 ^ 15) + (a + 0x7fff + a div 2 ^ 16 mod 2)" unfolding x by simp
  then have "(unat x + 0x7fff + a div 2 ^ 16 mod 2) div 2 ^ 16 = S * 2 ^ 15 + shift_rne a 16" using r by (simp only: div_mult_self4 power_not_zero zero_neq_numeral not_False_eq_True)
  then have q: "unat (drop_bit 16 (x + 0x7fff + (drop_bit 16 x AND 1))) = S * 2 ^ 15 + shift_rne a 16" unfolding unat_drop s2 .
  have n: "\<not> unat (x AND 0x7fffffff) > 0x7f800000" using assms unfolding lane_masks by simp
  have "unat (f32_to_bf x) = (S * 2 ^ 15 + shift_rne a 16) mod 2 ^ 16"
    using n unfolding f32_to_bf_def by (simp only: if_False unsigned_ucast_eq q take_bit_eq_mod) simp
  then show "unat (f32_to_bf x) = shift_rne (unat x mod 2 ^ 31) 16 + (if 2 ^ 31 \<le> unat x then 2 ^ 15 else 0)"
    using S sm unfolding a_def[symmetric] by (cases "S = 1") simp_all
  show "shift_rne (unat x mod 2 ^ 31) 16 < 2 ^ 15" using sm unfolding a_def[symmetric] by simp
qed

text \<open>A NaN stays one: its exponent field has all its bits, and bit 6 of the fraction is set.\<close>

lemma f32_to_bf_nan:
  assumes "0x7f800000 < unat x mod 2 ^ 31"
  shows "bf16_of (f32_to_bf x) = NaN"
proof -
  define c where "c = unat x mod 2 ^ 31 div 2 ^ 16"
  have c: "0x7f80 \<le> c" "c < 2 ^ 15" using assms by (simp_all add: c_def less_eq_div_iff_mult_less_eq less_mult_imp_div_less)
  have "unat x div 2 ^ 16 mod 2 ^ 15 = c" using mod_mult2_eq[of "unat x" "2 ^ 16" "2 ^ 15"] by (simp add: c_def)
  then have "take_bit 15 (unat x div 2 ^ 16) = c" by (simp add: take_bit_eq_mod)
  moreover have "unat (f32_to_bf x) mod 2 ^ 15 = take_bit 15 (unat x div 2 ^ 16 OR 0x40)"
    using assms unfolding f32_to_bf_def lane_masks
    by (simp add: unsigned_ucast_eq unsigned_or_eq unat_drop take_bit_or min_def
        flip: take_bit_eq_mod[of 15 "_ :: nat", simplified])
  ultimately have r: "unat (f32_to_bf x) mod 2 ^ 15 = c OR 0x40" by (simp add: take_bit_or)
  have "c div 2 ^ 7 = 255" using c by (intro div_nat_eqI) simp_all
  then have "(c OR 0x40) div 2 ^ 7 = 255" unfolding drop_bit_eq_div[symmetric] drop_bit_or by simp
  moreover have "(c OR 0x40) mod 2 ^ 7 = take_bit 7 c OR 0x40" unfolding take_bit_eq_mod[symmetric] take_bit_or by simp
  moreover have "take_bit 7 c OR 0x40 \<noteq> (0::nat)" by (metis or_eq_0_iff zero_neq_numeral)
  ultimately show ?thesis unfolding bf16_of_def r decode_bf16 by simp
qed

text \<open>The conversion from bfloat16 moves the pattern up.\<close>

lemma round_bf16_f32:
  assumes "M < 2 ^ 7"
  shows "round_fp F32 s M (-133) = Fin s (M * 2 ^ 16) (-149)"
    "0 < E \<Longrightarrow> E < 255 \<Longrightarrow> round_fp F32 s (M + 2 ^ 7) (int E - 134) = Fin s ((M + 2 ^ 7) * 2 ^ 16) (int E - 150)"
proof -
  have "bit_length M \<le> 7" using assms by (rule bit_length_le)
  then show "round_fp F32 s M (-133) = Fin s (M * 2 ^ 16) (-149)"
    using assms by (auto simp: round_fp_def F32_def Let_def max_def)
  have "bit_length (M + 2 ^ 7) = 8" using assms by (intro bit_length_eq) simp_all
  then show "0 < E \<Longrightarrow> E < 255 \<Longrightarrow> round_fp F32 s (M + 2 ^ 7) (int E - 134) = Fin s ((M + 2 ^ 7) * 2 ^ 16) (int E - 150)"
    using assms by (auto simp: round_fp_def F32_def Let_def max_def)
qed

lemma bf_to_f32_exact: "f32_of (bf_to_f32 b) = fp_cvt F32 (bf16_of b)"
proof -
  define c E M where "c = unat b mod 2 ^ 15" and "E = c div 2 ^ 7" and "M = c mod 2 ^ 7"
  have b: "unat b < 2 ^ 16" using unsigned_less[of b] by simp
  have c: "c = E * 2 ^ 7 + M" "M < 2 ^ 7" unfolding E_def M_def by simp_all
  have "c < 2 ^ 15" unfolding c_def by simp
  then have E: "E \<le> 255" using c by simp
  have w: "unat (bf_to_f32 b) = c * 2 ^ 16 + (if 2 ^ 15 \<le> unat b then 2 ^ 31 else 0)"
  proof -
    have "unat (bf_to_f32 b) = unat b * 2 ^ 16" using b unfolding bf_to_f32_def unat_push by (simp add: unat_ucast_up)
    moreover have "unat b = c + (if 2 ^ 15 \<le> unat b then 2 ^ 15 else 0)"
      using b unfolding c_def by (auto simp: le_mod_geq)
    ultimately show ?thesis by (auto split: if_splits)
  qed
  have m: "M * 2 ^ 16 < 2 ^ 23" using c by simp
  have "f32_of (bf_to_f32 b) = decode F32 (2 ^ 15 \<le> unat b) (c * 2 ^ 16)"
    by (rule f32_of_signed[OF _ w]) (use \<open>c < 2 ^ 15\<close> in simp)
  also have "c * 2 ^ 16 = E * 2 ^ 23 + M * 2 ^ 16" using c by simp
  finally have d: "f32_of (bf_to_f32 b) = (if E = 255 then (if M = 0 then Inf (2 ^ 15 \<le> unat b) else NaN)
      else if E = 0 then Fin (2 ^ 15 \<le> unat b) (M * 2 ^ 16) (-149)
      else Fin (2 ^ 15 \<le> unat b) (M * 2 ^ 16 + 2 ^ 23) (int E - 150))"
    unfolding decode_f32 using div_mod_code[OF m, of E] by (simp only: mult_eq_0_iff power_not_zero) simp
  show ?thesis
    unfolding d bf16_of_def c_def[symmetric] decode_bf16 E_def[symmetric] M_def[symmetric]
    using round_bf16_f32[OF c(2)] E by (auto simp: add_mult_distrib)
qed

text \<open>\<open>f32_to_bf\<close> is the IEEE conversion to bfloat16 (to nearest, ties to even, a NaN stays a NaN), \<open>bf_to_f32\<close> is
  exact, and the value of a bfloat16 pattern comes back from \<open>float\<close> unchanged.\<close>

theorem bf_conversions:
  "bf16_of (f32_to_bf x) = fp_cvt BF16 (f32_of x) \<and> f32_of (bf_to_f32 b) = fp_cvt F32 (bf16_of b) \<and>
   bf16_of (f32_to_bf (bf_to_f32 b)) = bf16_of b"
proof -
  have down: "bf16_of (f32_to_bf x) = fp_cvt BF16 (f32_of x)" for x
  proof (cases "0x7f800000 < unat x mod 2 ^ 31")
    case True
    then show ?thesis using f32_to_bf_nan by (cases x rule: f32_cases) auto
  next
    case False
    note w = f32_to_bf_word[OF False[unfolded not_less]]
    have "bf16_of (f32_to_bf x) = decode BF16 (2 ^ 31 \<le> unat x) (shift_rne (unat x mod 2 ^ 31) 16)"
      unfolding bf16_of_def w(1) using w(2) by auto
    also have "\<dots> = fp_cvt BF16 (f32_of x)"
    proof (cases x rule: f32_cases)
      case inf
      have "shift_rne (255 * 2 ^ 23 + 0) 16 = 255 * 2 ^ 7" unfolding shift_rne_hidden by (simp add: shift_rne_def)
      then show ?thesis using inf by (simp add: decode_bf16)
    next
      case (normal E M)
      then show ?thesis using round_f32_bf16 by simp
    next
      case subnormal
      then show ?thesis using round_f32_bf16_subnormal by simp
    qed (use False in simp)
    finally show ?thesis .
  qed
  have again: "fp_cvt BF16 (fp_cvt F32 (bf16_of b)) = bf16_of b"
  proof -
    define s c E M where "s \<longleftrightarrow> 2 ^ 15 \<le> unat b" and "c = unat b mod 2 ^ 15" and "E = c div 2 ^ 7" and "M = c mod 2 ^ 7"
    have M: "M < 2 ^ 7" unfolding M_def by simp
    have "c < 2 ^ 15" unfolding c_def by simp
    then have E: "E < 256" unfolding E_def by (simp add: less_mult_imp_div_less)
    have fmt: "in_fmt BF16 (Fin s M (-133))" "0 < E \<Longrightarrow> E < 255 \<Longrightarrow> in_fmt BF16 (Fin s (M + 2 ^ 7) (int E - 134))"
      using M by (simp_all add: in_fmt_def BF16_def)
    have "round_fp BF16 s (M * 2 ^ 16) (-149) = Fin s M (-133)"
      using round_fp_exact[OF fmt(1), of 16] by (cases "M = 0"; simp; simp add: BF16_def)
    moreover have "0 < E \<Longrightarrow> E < 255 \<Longrightarrow> round_fp BF16 s ((M + 2 ^ 7) * 2 ^ 16) (int E - 150) = Fin s (M + 2 ^ 7) (int E - 134)"
      using round_fp_exact[OF fmt(2), of 16] by simp
    ultimately show ?thesis
      unfolding bf16_of_def decode_bf16 s_def[symmetric] c_def[symmetric] E_def[symmetric] M_def[symmetric]
      using round_bf16_f32[OF M, where s = s] E by auto
  qed
  show ?thesis using down bf_to_f32_exact again by simp
qed

subsection \<open>Conversions to integers\<close>

text \<open>The value of a float that is the integer \<open>i\<close>.\<close>

fun int_val :: "fp \<Rightarrow> int \<Rightarrow> bool" where
  "int_val (Fin s m e) i \<longleftrightarrow> (if 0 \<le> e then signed s m * 2 ^ nat e = i else signed s m = i * 2 ^ nat (- e))"
| "int_val _ i \<longleftrightarrow> False"

lemma signed_mult: "signed s (m * n) = signed s m * int n"
  by (simp add: signed_def)

lemma align_val:
  assumes v: "int_val (Fin s m e) i" and c: "c \<le> e"
  shows "signed s (align m e c) * 2 ^ nat c = i * 2 ^ nat (- c)"
proof (cases "0 \<le> e")
  case True
  have "nat (e - c) + nat c = nat e + nat (- c)" using True c by linarith
  then have "(2::int) ^ nat (e - c) * 2 ^ nat c = 2 ^ nat e * 2 ^ nat (- c)" by (simp flip: power_add)
  then show ?thesis using v True by (simp add: align_def signed_mult mult.assoc)
next
  case False
  have "nat (- e) + nat (e - c) = nat (- c)" "nat c = 0" using False c by linarith+
  then have "(2::int) ^ nat (- e) * 2 ^ nat (e - c) = 2 ^ nat (- c)" by (simp flip: power_add)
  then show ?thesis using v False \<open>nat c = 0\<close> by (simp add: align_def signed_mult mult.assoc)
qed

lemma int_val_compare:
  assumes "int_val x i" "int_val y j"
  shows "fp_less x y \<longleftrightarrow> i < j" "fp_eq x y \<longleftrightarrow> i = j"
proof -
  obtain s m e where x: "x = Fin s m e" using assms(1) by (cases x) auto
  obtain t n d where y: "y = Fin t n d" using assms(2) by (cases y) auto
  define c where "c = min e d"
  have "signed s (align m e c) * 2 ^ nat c = i * 2 ^ nat (- c)" "signed t (align n d c) * 2 ^ nat c = j * 2 ^ nat (- c)"
    using assms align_val[of s m e i c] align_val[of t n d j c] by (simp_all add: x y c_def)
  then have k: "signed s (align m e c) < signed t (align n d c) \<longleftrightarrow> i < j" "signed s (align m e c) = signed t (align n d c) \<longleftrightarrow> i = j"
    by (metis mult_less_cancel_right_pos zero_less_numeral zero_less_power, metis mult_right_cancel power_not_zero zero_neq_numeral)
  show "fp_less x y \<longleftrightarrow> i < j" "fp_eq x y \<longleftrightarrow> i = j" using k by (simp_all add: x y Let_def c_def)
qed

lemma int_val_inf:
  assumes "int_val y j"
  shows "fp_less (Inf s) y \<longleftrightarrow> s" "fp_less y (Inf s) \<longleftrightarrow> \<not> s" "\<not> fp_eq (Inf s) y"
  using assms by (cases y; simp)+

lemma int_val_trunc: "int_val x i \<Longrightarrow> trunc_int x = i"
proof (cases x)
  case (Fin s m e)
  assume v: "int_val x i"
  show ?thesis
  proof (cases "0 \<le> e")
    case False
    then have "signed s m = i * 2 ^ nat (- e)" using v Fin by simp
    then have "int m = (if s then - i else i) * 2 ^ nat (- e)" by (auto simp: signed_def split: if_splits)
    then have "int (m div 2 ^ nat (- e)) = (if s then - i else i)" by (simp add: zdiv_int)
    then show ?thesis using Fin False by (simp add: signed_def split: if_splits)
  qed (use v Fin in \<open>simp add: signed_mult\<close>)
qed simp_all

text \<open>An integer of at most 24 bits is a \<open>float\<close>.\<close>

lemma round_small: "n < 2 ^ 24 \<Longrightarrow> int_val (round_fp F32 s n 0) (signed s n)"
proof (cases "n = 0")
  case False
  assume n: "n < 2 ^ 24"
  define L where "L = bit_length n"
  have L: "L \<le> 24" "0 < L" using bit_length_le[OF n] bit_length_bounds[of n] False by (simp_all add: L_def)
  have q: "n * 2 ^ (24 - L) < 2 ^ 24" using normalise[of n 24] False L by (simp add: L_def)
  have "round_fp F32 s n 0 = Fin s (n * 2 ^ (24 - L)) (int L - 24)"
    using q False L shift_rne_exact[of n 0]
    by (cases "L = 24") (auto simp: round_fp_def F32_def Let_def max_def L_def[symmetric] nat_diff_distrib)
  then show ?thesis using L by (cases "L = 24") (simp_all add: signed_mult nat_diff_distrib)
qed (simp add: signed_def F32_def)

lemma of_int_val:
  assumes "\<bar>i\<bar> < 2 ^ 24"
  shows "int_val (fp_of_int F32 i) i"
  using round_small[of "nat \<bar>i\<bar>" "i < 0"] assms by (simp add: fp_of_int_def signed_def nat_less_iff split: if_splits)

lemma big_vals:
  "int_val (fp_of_int F32 2147483648) 2147483648" "int_val (fp_of_int F32 (-2147483648)) (-2147483648)"
  "int_val (fp_of_int F32 4294967296) 4294967296"
proof -
  have "bit_length 2147483648 = 32" "bit_length 4294967296 = 33" by (rule bit_length_eq; simp)+
  then show "int_val (fp_of_int F32 2147483648) 2147483648" "int_val (fp_of_int F32 (-2147483648)) (-2147483648)"
    "int_val (fp_of_int F32 4294967296) 4294967296"
    by (simp_all add: fp_of_int_def round_fp_def F32_def Let_def shift_rne_def signed_def)
qed

text \<open>The integer nearest to a finite value, ties to even.\<close>

fun rne_value :: "bool \<Rightarrow> nat \<Rightarrow> int \<Rightarrow> int" where
  "rne_value s m e = signed s (if 0 \<le> e then m * 2 ^ nat e else shift_rne m (nat (- e)))"

lemma rint_val:
  assumes "m < 2 ^ 24"
  shows "int_val (rint_fp (Fin s m e)) (rne_value s m e)"
proof (cases "0 \<le> e")
  case False
  then obtain k where "nat (- e) = Suc k" by (cases "nat (- e)") auto
  moreover have "m \<le> 2 ^ 24 * 2 ^ k" using assms mult_le_mono[of m "2 ^ 24" 1 "2 ^ k"] by simp
  ultimately have "shift_rne m (nat (- e)) \<le> 2 ^ 23" by (intro shift_rne_le) simp
  then show ?thesis using False round_small[of "shift_rne m (nat (- e))" s] by simp
qed (simp add: signed_mult)

lemma f32_significand: "f32_of x = Fin s m e \<Longrightarrow> m < 2 ^ 24"
  by (cases x rule: f32_cases) auto

text \<open>The range of an integer type, and the conversion with saturation.\<close>

definition int_range :: "nat \<Rightarrow> int \<times> int" where
  "int_range t = (if t = ISA_T_B then (-128, 127) else if t = ISA_T_UB then (0, 255) else if t = ISA_T_H then (-32768, 32767)
     else if t = ISA_T_UH then (0, 65535) else if t = ISA_T_W then (- (2 ^ 31), 2 ^ 31 - 1) else (0, 2 ^ 32 - 1))"

fun sat_rne :: "int \<times> int \<Rightarrow> fp \<Rightarrow> int" where
  "sat_rne (lo, hi) (Fin s m e) = max lo (min hi (rne_value s m e))"
| "sat_rne (lo, hi) (Inf s) = (if s then lo else hi)"
| "sat_rne (lo, hi) NaN = 0"

lemma clip_val:
  assumes "\<bar>lo\<bar> < 2 ^ 24" "\<bar>hi\<bar> < 2 ^ 24" "lo \<le> hi"
  shows "int_val r i \<Longrightarrow> clip r lo hi = max lo (min hi i)" "clip (Inf s) lo hi = (if s then lo else hi)"
proof -
  note v = of_int_val[OF assms(1)] of_int_val[OF assms(2)]
  show "int_val r i \<Longrightarrow> clip r lo hi = max lo (min hi i)"
    using assms(3)
    by (auto simp: clip_def int_val_compare(1)[OF _ v(1)] int_val_compare(1)[OF v(2)] int_val_trunc[OF v(1)] int_val_trunc[OF v(2)] int_val_trunc)
  show "clip (Inf s) lo hi = (if s then lo else hi)"
    by (simp add: clip_def int_val_inf(1)[OF v(1)] int_val_inf(2)[OF v(2)] int_val_trunc[OF v(1)] int_val_trunc[OF v(2)])
qed

text \<open>\<open>to_int\<close> gives for each type the nearest integer of the range of the type, ties to even; it saturates, and a NaN
  gives 0.\<close>

theorem to_int_saturates: "to_int t x = sat_rne (int_range t) (f32_of x)"
proof (cases "f32_of x")
  case (Fin s m e)
  note r = rint_val[OF f32_significand[OF Fin], of s e]
  have "0 \<le> rne_value s m e \<or> rne_value s m e < 0" by linarith
  then show ?thesis
    unfolding to_int_def is_nan_def Fin int_range_def Let_def
    using clip_val(1)[of _ _ "rint_fp (Fin s m e)", OF _ _ _ r] int_val_compare[OF r big_vals(2)]
      int_val_compare[OF big_vals(1) r] int_val_compare[OF r big_vals(1)] int_val_compare[OF big_vals(3) r]
      int_val_compare[OF r big_vals(3)] int_val_compare[OF r of_int_val[of 0]] int_val_trunc[OF r]
    by (simp del: rint_fp.simps rne_value.simps)
next
  case (Inf s)
  then show ?thesis
    unfolding to_int_def is_nan_def Inf int_range_def Let_def
    using clip_val(2)[of _ _ s] int_val_inf[OF big_vals(1)] int_val_inf[OF big_vals(2)] int_val_inf[OF big_vals(3)]
      int_val_inf[OF of_int_val[of 0]]
    by simp
qed (simp add: to_int_def is_nan_def int_range_def)

end
