(* ===== verification/IsaprobeDsp.thy ===== *)
theory IsaprobeDsp
  imports DspEnv "HOL-Library.Multiset"
begin

text \<open>
  The DSP library of the ISA probe, \<open>tools/htp-lab/probe/dsp/isaprobe_dsp.c\<close>: the setup of a handle, the run of a
  census op or of a candidate kernel on a thread with the HVX and the HMX locked, the guard after the output, and the
  allocator of the VTCM.

  The environment (HAP, QuRT, the C allocator) is a function from the history of the calls to the reply, thus the
  environment can do all that its history permits. The history is a part of the state: the lemmas state on it what the
  library has acquired and released.
\<close>

subsection \<open>The environment\<close>

datatype power_vote = V_apptype | V_HVX | V_HMX | V_HMX_v2

datatype dsp_call = C_calloc | C_memalign u32 u32 | C_malloc u32 | C_free u32
  | C_power_set power_vote | C_power_destroy
  | C_query_vtcm | C_acquire u32 bool | C_vtcm_ptr | C_release u32
  | C_hvx_lock | C_hvx_unlock | C_hmx_lock u32 | C_hmx_unlock u32
  | C_thread_create | C_thread_join | C_cache_clean u32 | C_arch | C_hvx_units | C_qtimer | C_upcycles
  | C_work

record reply =
  re_err :: u32
  re_ptr :: u32
  re_size :: u32
  re_time :: u64

type_synonym hist = "(dsp_call \<times> reply) list"

text \<open>The codes of the SDK that no file of the repository gives, the weak symbols, and the version of the build.\<close>

record penv =
  ans :: "hist \<Rightarrow> dsp_call \<Rightarrow> reply"
  HVX_ARCH :: nat
  hvx_lock_linked :: bool
  arch_linked :: bool
  QURT_EOK :: u32
  QURT_ENOTHREAD :: u32
  AEE_ENORESOURCE :: u32
  AEE_EBUFFERTOOSMALL :: u32
  us_of_ticks :: "u64 \<Rightarrow> u64"

definition ask :: "penv \<Rightarrow> dsp_call \<Rightarrow> hist \<Rightarrow> reply \<times> hist" where
  "ask E c h = (ans E h c, h @ [(c, ans E h c)])"

definition AEE_EUNSUPPORTED :: aee where "AEE_EUNSUPPORTED = 0x80000414"
definition AEE_EUNSUPPORTEDAPI :: aee where "AEE_EUNSUPPORTEDAPI = 0x8000046C"

subsection \<open>The codes of the probe\<close>

definition ISAPROBE_STATUS_HVX_LOCK :: u32 where "ISAPROBE_STATUS_HVX_LOCK = 0x15A00001"
definition ISAPROBE_STATUS_HMX_LOCK :: u32 where "ISAPROBE_STATUS_HMX_LOCK = 0x15A00002"
definition ISAPROBE_STATUS_OVERRUN :: u32 where "ISAPROBE_STATUS_OVERRUN = 0x15A00003"
definition ISAPROBE_STATUS_VTCM_FULL :: u32 where "ISAPROBE_STATUS_VTCM_FULL = 0x15A00004"

lemmas probe_statuses = ISAPROBE_STATUS_HVX_LOCK_def ISAPROBE_STATUS_HMX_LOCK_def ISAPROBE_STATUS_OVERRUN_def
  ISAPROBE_STATUS_VTCM_FULL_def

datatype setup_step = SETUP_OK | SETUP_APPTYPE | SETUP_HVX_POWER | SETUP_HMX_POWER | SETUP_VTCM_QUERY
  | SETUP_ACQUIRE_HMX | SETUP_ACQUIRE_VTCM | SETUP_VTCM_PTR

definition ISAPROBE_SETUP_IS_FATAL :: "setup_step \<Rightarrow> bool" where
  "ISAPROBE_SETUP_IS_FATAL step \<longleftrightarrow> step = SETUP_APPTYPE \<or> step = SETUP_HVX_POWER"

definition ISAPROBE_ALIGN :: u32 where "ISAPROBE_ALIGN = 128"
definition ISAPROBE_INPUT_TAIL :: u32 where "ISAPROBE_INPUT_TAIL = 16384"
definition ISAPROBE_OUTPUT_GUARD :: u32 where "ISAPROBE_OUTPUT_GUARD = 16384"
definition ISAPROBE_GUARD_BYTE :: u8 where "ISAPROBE_GUARD_BYTE = 0xA5"
definition ISAPROBE_STACK_BYTES :: u32 where "ISAPROBE_STACK_BYTES = 262144"

subsection \<open>The state\<close>

text \<open>A handle, and the VTCM of the lab functions. Pointers have 32 bits; 0 is \<open>NULL\<close>.\<close>

record probe_ctx =
  p_setup_done :: bool
  p_setup_status :: setup_step
  p_setup_error :: u32
  p_hmx_powered :: bool
  p_hmx_held :: bool
  p_rctx :: u32
  p_vtcm_base :: u32
  p_vtcm_bytes :: u32

definition ctx_zero :: probe_ctx where
  "ctx_zero = \<lparr>p_setup_done = False, p_setup_status = SETUP_OK, p_setup_error = 0, p_hmx_powered = False,
     p_hmx_held = False, p_rctx = 0, p_vtcm_base = 0, p_vtcm_bytes = 0\<rparr>"

record lab_vtcm =
  g_vtcm_base :: u32
  g_vtcm_size :: u32
  g_vtcm_used :: u32
  g_vtcm_overflow :: bool

subsection \<open>The setup\<close>

definition setup_fail :: "setup_step \<Rightarrow> u32 \<Rightarrow> probe_ctx \<Rightarrow> probe_ctx" where
  "setup_fail step error ctx = (if p_setup_status ctx = SETUP_OK
     then ctx\<lparr>p_setup_status := step, p_setup_error := error\<rparr> else ctx)"

definition setup_power :: "penv \<Rightarrow> probe_ctx \<Rightarrow> hist \<Rightarrow> u32 \<times> probe_ctx \<times> hist" where
  "setup_power E ctx h =
     (let (r, h) = ask E (C_power_set V_apptype) h in
      if re_err r \<noteq> 0 then (re_err r, setup_fail SETUP_APPTYPE (re_err r) ctx, h)
      else let (r, h) = ask E (C_power_set V_HVX) h in
      if re_err r \<noteq> 0 then (re_err r, setup_fail SETUP_HVX_POWER (re_err r) ctx, h)
      else let (r, h) = ask E (C_power_set (if 75 \<le> HVX_ARCH E then V_HMX_v2 else V_HMX)) h in
      if re_err r \<noteq> 0 then (0, (setup_fail SETUP_HMX_POWER (re_err r) ctx)\<lparr>p_hmx_powered := False\<rparr>, h)
      else (0, ctx\<lparr>p_hmx_powered := True\<rparr>, h))"

definition acquire_vtcm :: "penv \<Rightarrow> u32 \<Rightarrow> bool \<Rightarrow> hist \<Rightarrow> u32 \<times> hist" where
  "acquire_vtcm E vtcm_bytes with_hmx h = (let (r, h) = ask E (C_acquire vtcm_bytes with_hmx) h in (re_ptr r, h))"

text \<open>The first attempt, with the HMX, and the second one without it.\<close>

definition acquire_hmx :: "penv \<Rightarrow> u32 \<Rightarrow> probe_ctx \<Rightarrow> hist \<Rightarrow> u32 \<times> probe_ctx \<times> hist" where
  "acquire_hmx E vtcm_bytes ctx h =
     (if p_hmx_powered ctx
      then let (rctx, h) = acquire_vtcm E vtcm_bytes True h in
        if rctx = 0 then (0, setup_fail SETUP_ACQUIRE_HMX (AEE_ENORESOURCE E) ctx, h) else (rctx, ctx\<lparr>p_hmx_held := True\<rparr>, h)
      else (0, ctx, h))"

definition acquire_any :: "penv \<Rightarrow> u32 \<Rightarrow> probe_ctx \<Rightarrow> hist \<Rightarrow> u32 \<times> probe_ctx \<times> hist" where
  "acquire_any E vtcm_bytes ctx h =
     (let (rctx, ctx, h) = acquire_hmx E vtcm_bytes ctx h in
      if rctx = 0 then let (rctx, h) = acquire_vtcm E vtcm_bytes False h in
        (rctx, if rctx = 0 then setup_fail SETUP_ACQUIRE_VTCM (AEE_ENORESOURCE E) ctx else ctx, h)
      else (rctx, ctx, h))"

definition setup_resources :: "penv \<Rightarrow> probe_ctx \<Rightarrow> lab_vtcm \<Rightarrow> hist \<Rightarrow> probe_ctx \<times> lab_vtcm \<times> hist" where
  "setup_resources E ctx g h =
     (let (r, h) = ask E C_query_vtcm h in
      if re_err r \<noteq> 0 \<or> re_size r = 0
      then (setup_fail SETUP_VTCM_QUERY (if re_err r \<noteq> 0 then re_err r else AEE_ENOMEMORY) ctx, g, h)
      else let (rctx, ctx, h) = acquire_any E (re_size r) ctx h in
        if rctx = 0 then (ctx, g, h)
        else let (r, h) = ask E C_vtcm_ptr h in
          if re_err r \<noteq> 0 \<or> re_ptr r = 0 \<or> re_size r = 0
          then let ctx = setup_fail SETUP_VTCM_PTR (if re_err r \<noteq> 0 then re_err r else AEE_ENOMEMORY) ctx;
                 (r, h) = ask E (C_release rctx) h in (ctx\<lparr>p_hmx_held := False\<rparr>, g, h)
          else (ctx\<lparr>p_rctx := rctx, p_vtcm_base := re_ptr r, p_vtcm_bytes := re_size r\<rparr>,
                g\<lparr>g_vtcm_base := re_ptr r, g_vtcm_size := re_size r, g_vtcm_used := 0\<rparr>, h))"

definition probe_setup :: "penv \<Rightarrow> probe_ctx \<Rightarrow> lab_vtcm \<Rightarrow> hist \<Rightarrow> u32 \<times> probe_ctx \<times> lab_vtcm \<times> hist" where
  "probe_setup E ctx g h =
     (if p_setup_done ctx
      then (if ISAPROBE_SETUP_IS_FATAL (p_setup_status ctx) then p_setup_error ctx else 0, ctx, g, h)
      else let (err, ctx, h) = setup_power E (ctx\<lparr>p_setup_done := True\<rparr>) h in
        if err \<noteq> 0 then (err, ctx, g, h)
        else let (ctx, g, h) = setup_resources E ctx g h in (0, ctx, g, h))"

subsection \<open>Buffers\<close>

definition round_up :: "u32 \<Rightarrow> u32 \<Rightarrow> u32" where
  "round_up n a = (n + a - 1) AND NOT (a - 1)"

text \<open>The result of \<open>copy_input\<close> is the pointer with the bytes of the copy. \<open>src\<close> is the memory from the address of the
  input.\<close>

type_synonym pbuffer = "u32 \<times> u8 list"

definition copy_input :: "penv \<Rightarrow> (nat \<Rightarrow> u8) \<Rightarrow> i32 \<Rightarrow> bool \<Rightarrow> hist \<Rightarrow> pbuffer \<times> bool \<times> hist" where
  "copy_input E src len fail h =
     (if sint len \<le> 0 then ((0, []), fail, h)
      else let (r, h) = ask E (C_memalign ISAPROBE_ALIGN (round_up len ISAPROBE_ALIGN + ISAPROBE_INPUT_TAIL)) h in
        if re_ptr r = 0 then ((0, []), True, h)
        else ((re_ptr r, map src [0..<unat len] @
          replicate (unat (round_up len ISAPROBE_ALIGN - len + ISAPROBE_INPUT_TAIL)) 0), fail, h))"

definition guard_intact :: "u8 list \<Rightarrow> nat \<Rightarrow> bool" where
  "guard_intact out len = list_all (\<lambda>i. out ! (len + i) = ISAPROBE_GUARD_BYTE) [0..<unat ISAPROBE_OUTPUT_GUARD]"

definition alloc_output :: "penv \<Rightarrow> u32 \<Rightarrow> hist \<Rightarrow> u32 \<times> hist" where
  "alloc_output E out_len h =
     (let (r, h) = ask E (C_memalign ISAPROBE_ALIGN (round_up out_len ISAPROBE_ALIGN + ISAPROBE_OUTPUT_GUARD)) h in (re_ptr r, h))"

definition free :: "penv \<Rightarrow> u32 \<Rightarrow> hist \<Rightarrow> hist" where
  "free E p h = snd (ask E (C_free p) h)"

subsection \<open>The thread of one op\<close>

text \<open>The work of a call: it gets the output buffer with its guard and the allocator of the VTCM, and gives a status, an
  additional result, and their new states.\<close>

type_synonym 'r work = "u8 list \<Rightarrow> lab_vtcm \<Rightarrow> hist \<Rightarrow> u32 \<times> 'r \<times> u8 list \<times> lab_vtcm \<times> hist"

text \<open>The locks of the thread. The HVX lock is a weak symbol, and the HMX is locked only when the setup has got it.\<close>

definition hvx_lock :: "penv \<Rightarrow> hist \<Rightarrow> u32 \<times> hist" where
  "hvx_lock E h = (if hvx_lock_linked E then let (r, h) = ask E C_hvx_lock h in (re_err r, h) else (QURT_EOK E, h))"

definition hvx_unlock :: "penv \<Rightarrow> hist \<Rightarrow> hist" where
  "hvx_unlock E h = (if hvx_lock_linked E then snd (ask E C_hvx_unlock h) else h)"

definition hmx_lock :: "penv \<Rightarrow> probe_ctx \<Rightarrow> hist \<Rightarrow> u32 \<times> hist" where
  "hmx_lock E ctx h = (if p_hmx_held ctx then let (r, h) = ask E (C_hmx_lock (p_rctx ctx)) h in (re_err r, h) else (0, h))"

definition hmx_unlock :: "penv \<Rightarrow> probe_ctx \<Rightarrow> hist \<Rightarrow> hist" where
  "hmx_unlock E ctx h = (if p_hmx_held ctx then snd (ask E (C_hmx_unlock (p_rctx ctx)) h) else h)"

definition probe_thread :: "penv \<Rightarrow> probe_ctx \<Rightarrow> 'r work \<Rightarrow> 'r \<Rightarrow> u8 list \<Rightarrow> lab_vtcm \<Rightarrow> hist \<Rightarrow>
    u32 \<times> 'r \<times> u8 list \<times> lab_vtcm \<times> hist" where
  "probe_thread E ctx fn none out g h =
     (let (hvx_err, h) = hvx_lock E h in
      if hvx_err \<noteq> QURT_EOK E then (ISAPROBE_STATUS_HVX_LOCK, none, out, g, h)
      else let (hmx_err, h) = hmx_lock E ctx h in
        if hmx_err \<noteq> 0 then (ISAPROBE_STATUS_HMX_LOCK, none, out, g, hvx_unlock E h)
        else let (status, res, out, g, h) = fn out g (snd (ask E C_work h))
             in (status, res, out, g, hvx_unlock E (hmx_unlock E ctx h)))"

definition run_on_thread :: "penv \<Rightarrow> probe_ctx \<Rightarrow> 'r work \<Rightarrow> 'r \<Rightarrow> u8 list \<Rightarrow> lab_vtcm \<Rightarrow> hist \<Rightarrow>
    aee \<times> u32 \<times> 'r \<times> u8 list \<times> lab_vtcm \<times> hist" where
  "run_on_thread E ctx fn none out g h =
     (let (r, h) = ask E (C_memalign 4096 ISAPROBE_STACK_BYTES) h; stack = re_ptr r in
      if stack = 0 then (AEE_ENOMEMORY, 0, none, out, g, h)
      else let (r, h) = ask E C_thread_create h in
        if re_err r \<noteq> QURT_EOK E then (AEE_EFAILED, 0, none, out, g, free E stack h)
        else let (status, res, out, g, h) = probe_thread E ctx fn none out g h;
               (r, h) = ask E C_thread_join h;
               h = free E stack h
             in (if re_err r \<noteq> QURT_EOK E \<and> re_err r \<noteq> QURT_ENOTHREAD E then AEE_EFAILED else AEE_SUCCESS, status, res, out, g, h))"

text \<open>The status of the work after the checks.\<close>

definition guarded_status :: "u32 \<Rightarrow> u8 list \<Rightarrow> nat \<Rightarrow> lab_vtcm \<Rightarrow> u32" where
  "guarded_status status out len g =
     (if status = ISAPROBE_STATUS_HVX_LOCK \<or> status = ISAPROBE_STATUS_HMX_LOCK then status
      else if \<not> guard_intact out len then ISAPROBE_STATUS_OVERRUN
      else if g_vtcm_overflow g then ISAPROBE_STATUS_VTCM_FULL else status)"

text \<open>The result holds the status and the bytes of \<open>dst\<close>, which are written only on success.\<close>

definition run_guarded :: "penv \<Rightarrow> probe_ctx \<Rightarrow> 'r work \<Rightarrow> 'r \<Rightarrow> u32 \<Rightarrow> u32 \<Rightarrow> lab_vtcm \<Rightarrow> hist \<Rightarrow>
    aee \<times> (u32 \<times> u8 list) option \<times> 'r \<times> lab_vtcm \<times> hist" where
  "run_guarded E ctx fn none dst out_len g h =
     (let out = replicate (unat out_len) 0 @ replicate (unat ISAPROBE_OUTPUT_GUARD) ISAPROBE_GUARD_BYTE;
          (result, status, res, out, g, h) = run_on_thread E ctx fn none out (g\<lparr>g_vtcm_used := 0, g_vtcm_overflow := False\<rparr>) h in
      if result \<noteq> AEE_SUCCESS then (result, None, res, g, h)
      else let status = guarded_status status out (unat out_len) g;
             h = (if out_len > 0 then snd (ask E (C_cache_clean dst) h) else h)
           in (AEE_SUCCESS, Some (status, take (unat out_len) out), res, g, h))"

subsection \<open>The handles\<close>

definition isaprobe_open :: "penv \<Rightarrow> hist \<Rightarrow> aee \<times> (u32 \<times> probe_ctx) option \<times> hist" where
  "isaprobe_open E h = (let (r, h) = ask E C_calloc h in
     if re_ptr r = 0 then (AEE_ENOMEMORY, None, h) else (AEE_SUCCESS, Some (re_ptr r, ctx_zero), h))"

definition isaprobe_close :: "penv \<Rightarrow> (u32 \<times> probe_ctx) option \<Rightarrow> lab_vtcm \<Rightarrow> hist \<Rightarrow> aee \<times> lab_vtcm \<times> hist" where
  "isaprobe_close E handle g h = (case handle of None \<Rightarrow> (AEE_EBADPARM, g, h)
     | Some (p, ctx) \<Rightarrow>
         let (g, h) = (if p_rctx ctx \<noteq> 0
               then (if g_vtcm_base g = p_vtcm_base ctx then g\<lparr>g_vtcm_base := 0, g_vtcm_size := 0, g_vtcm_used := 0\<rparr> else g,
                     snd (ask E (C_release (p_rctx ctx)) h))
               else (g, h));
             h = (if p_setup_done ctx then snd (ask E C_power_destroy h) else h)
         in (AEE_SUCCESS, g, free E p h))"

record probe_info =
  i_arch :: u32
  i_skel_arch :: u32
  i_hvx_threads :: u32
  i_hmx_count :: u32
  i_vtcm_bytes :: u32
  i_setup_status :: setup_step
  i_setup_error :: u32
  i_n_ops :: u32
  i_n_streams :: u32

text \<open>The census table of the build: \<^const>\<open>None\<close> is the build with the stub kernels.\<close>

record isa_op_desc =
  d_name :: string
  d_kind :: u8
  d_min_arch :: u8
  d_out_type :: u8
  d_in_type :: "u8 list"
  d_in_stream :: "u8 list"
  d_in_bytes :: "u16 list"
  d_out_bytes :: u16
  d_n_vectors :: u16

record isa_tables =
  isa_ops :: "isa_op_desc list"
  isa_stream_names :: "string list"
  isa_available :: "nat \<Rightarrow> bool"

definition isaprobe_info :: "penv \<Rightarrow> isa_tables option \<Rightarrow> probe_ctx option \<Rightarrow> bool \<Rightarrow> lab_vtcm \<Rightarrow> hist \<Rightarrow>
    aee \<times> probe_info option \<times> probe_ctx option \<times> lab_vtcm \<times> hist" where
  "isaprobe_info E tables handle outs_ok g h = (case handle of None \<Rightarrow> (AEE_EBADPARM, None, None, g, h)
     | Some ctx \<Rightarrow>
       if \<not> outs_ok then (AEE_EBADPARM, None, handle, g, h)
       else let (err, ctx, g, h) = probe_setup E ctx g h;
           (arch, h) = (if arch_linked E then let (r, h) = ask E C_arch h in (if re_err r = QURT_EOK E then re_size r else 0, h) else (0, h));
           (r, h) = ask E C_hvx_units h
         in (AEE_SUCCESS, Some \<lparr>i_arch = arch, i_skel_arch = of_nat (HVX_ARCH E), i_hvx_threads = drop_bit 8 (re_size r) AND 0xFF,
               i_hmx_count = (if p_hmx_held ctx then 1 else 0), i_vtcm_bytes = p_vtcm_bytes ctx,
               i_setup_status = p_setup_status ctx, i_setup_error = p_setup_error ctx,
               i_n_ops = (case tables of None \<Rightarrow> 0 | Some t \<Rightarrow> of_nat (length (isa_ops t))),
               i_n_streams = (case tables of None \<Rightarrow> 0 | Some t \<Rightarrow> of_nat (length (isa_stream_names t)))\<rparr>, Some ctx, g, h))"

text \<open>The buffer of \<open>copy_name\<close> holds the string and its terminator.\<close>

definition copy_name :: "penv \<Rightarrow> string \<Rightarrow> bool \<Rightarrow> i32 \<Rightarrow> aee \<times> string option" where
  "copy_name E src dst_null dst_len =
     (if dst_null \<or> sint dst_len \<le> 0 \<or> unat dst_len \<le> length src then (AEE_EBUFFERTOOSMALL E, None) else (AEE_SUCCESS, Some src))"

record isaprobe_op =
  o_kind :: u32
  o_min_arch :: u32
  o_out_type :: u32
  o_in_type :: "u32 list"
  o_in_stream :: "u32 list"
  o_in_bytes :: "u32 list"
  o_out_bytes :: u32
  o_n_vectors :: u32
  o_available :: u32

definition isaprobe_op_info :: "penv \<Rightarrow> isa_tables option \<Rightarrow> bool \<Rightarrow> u32 \<Rightarrow> bool \<Rightarrow> i32 \<Rightarrow> aee \<times> isaprobe_op option \<times> string option" where
  "isaprobe_op_info E tables args_ok op_id name_null name_len =
     (if \<not> args_ok then (AEE_EBADPARM, None, None)
      else case tables of None \<Rightarrow> (AEE_EUNSUPPORTED, None, None)
      | Some t \<Rightarrow>
        if length (isa_ops t) \<le> unat op_id then (AEE_EBADPARM, None, None)
        else let op = isa_ops t ! unat op_id; (r, name) = copy_name E (d_name op) name_null name_len in
          (r, Some \<lparr>o_kind = ucast (d_kind op), o_min_arch = ucast (d_min_arch op), o_out_type = ucast (d_out_type op),
             o_in_type = map ucast (take 3 (d_in_type op)), o_in_stream = map ucast (take 3 (d_in_stream op)),
             o_in_bytes = map ucast (take 3 (d_in_bytes op)), o_out_bytes = ucast (d_out_bytes op),
             o_n_vectors = ucast (d_n_vectors op), o_available = (if isa_available t (unat op_id) then 1 else 0)\<rparr>, name))"

definition isaprobe_stream_name :: "penv \<Rightarrow> isa_tables option \<Rightarrow> bool \<Rightarrow> u32 \<Rightarrow> bool \<Rightarrow> i32 \<Rightarrow> aee \<times> string option" where
  "isaprobe_stream_name E tables handle_ok stream_id name_null name_len =
     (if \<not> handle_ok then (AEE_EBADPARM, None)
      else case tables of None \<Rightarrow> (AEE_EUNSUPPORTED, None)
      | Some t \<Rightarrow> if length (isa_stream_names t) \<le> unat stream_id then (AEE_EBADPARM, None)
          else copy_name E (isa_stream_names t ! unat stream_id) name_null name_len)"

subsection \<open>The run of a census op\<close>

text \<open>\<open>isa_run\<close> is generated code: it gets the op, the three inputs (\<^const>\<open>None\<close> is \<open>NULL\<close>), the number of vectors, the
  output buffer and the VTCM.\<close>

type_synonym isa_run_fn = "i32 \<Rightarrow> u8 list option list \<Rightarrow> i32 \<Rightarrow> u8 list \<Rightarrow> lab_vtcm \<Rightarrow> u32 \<times> u8 list \<times> lab_vtcm"

definition input_of :: "pbuffer \<Rightarrow> u8 list option" where
  "input_of b = (if fst b = 0 then None else Some (snd b))"

definition isa_call_fn :: "isa_run_fn \<Rightarrow> i32 \<Rightarrow> u8 list option list \<Rightarrow> i32 \<Rightarrow> unit work" where
  "isa_call_fn isa_run op_id ins n_vectors out g h =
     (let (status, out, g) = isa_run op_id ins n_vectors out g in (status, (), out, g, h))"

text \<open>An input is its memory and its length.\<close>

type_synonym input = "(nat \<Rightarrow> u8) \<times> i32"

definition isaprobe_run :: "penv \<Rightarrow> isa_run_fn \<Rightarrow> probe_ctx option \<Rightarrow> bool \<Rightarrow> i32 \<Rightarrow> input \<Rightarrow> input \<Rightarrow> input \<Rightarrow> u32 \<Rightarrow> i32 \<Rightarrow> i32 \<Rightarrow>
    lab_vtcm \<Rightarrow> hist \<Rightarrow> aee \<times> (u32 \<times> u8 list) option \<times> probe_ctx option \<times> lab_vtcm \<times> hist" where
  "isaprobe_run E isa_run handle status_ok op_id in0 in1 in2 dst dstLen n_vectors g h =
     (case handle of None \<Rightarrow> (AEE_EBADPARM, None, None, g, h)
      | Some ctx \<Rightarrow>
        if \<not> status_ok \<or> sint n_vectors < 0 \<or> sint (snd in0) < 0 \<or> sint (snd in1) < 0 \<or> sint (snd in2) < 0 \<or> sint dstLen < 0 \<or>
           (sint dstLen > 0 \<and> dst = 0)
        then (AEE_EBADPARM, None, handle, g, h)
        else let (setup_err, ctx, g, h) = probe_setup E ctx g h in
          if setup_err \<noteq> 0 then (setup_err, None, Some ctx, g, h)
          else let (b0, fail, h) = copy_input E (fst in0) (snd in0) False h;
              (b1, fail, h) = copy_input E (fst in1) (snd in1) fail h;
              (b2, fail, h) = copy_input E (fst in2) (snd in2) fail h;
              (b_out, h) = alloc_output E dstLen h;
              (result, res, u, g, h) = (if fail \<or> b_out = 0 then (AEE_ENOMEMORY, None, (), g, h)
                 else run_guarded E ctx (isa_call_fn isa_run op_id [input_of b0, input_of b1, input_of b2] n_vectors) () dst dstLen g h)
            in (result, res, Some ctx, g, free E b_out (free E (fst b2) (free E (fst b1) (free E (fst b0) h)))))"

end
