(* ===== verification/IsaprobeKernel.thy ===== *)
theory IsaprobeKernel
  imports IsaprobeDsp
begin

text \<open>
  The candidate kernels of the DSP library of the ISA probe (\<open>kernel_call_fn\<close>, \<open>isaprobe_kernel_info\<close> and
  \<open>isaprobe_kernel_run\<close> of \<open>isaprobe_dsp.c\<close>, and the interface \<open>candidates.h\<close>), and the lab functions for the VTCM.
  The state of a kernel is a value of the type \<open>'s\<close>; the table of the kernels is a parameter here.
\<close>

subsection \<open>The interface of a kernel\<close>

definition CAND_OP_MATVEC_Q8_0 :: u32 where "CAND_OP_MATVEC_Q8_0 = 1"
definition CAND_OK :: u32 where "CAND_OK = 0"
definition CAND_ERR_SHAPE :: u32 where "CAND_ERR_SHAPE = -1"
definition CAND_ERR_MEMORY :: u32 where "CAND_ERR_MEMORY = -2"
definition CAND_ERR_RUNTIME :: u32 where "CAND_ERR_RUNTIME = -3"

lemmas cand_codes = CAND_OK_def CAND_ERR_SHAPE_def CAND_ERR_MEMORY_def CAND_ERR_RUNTIME_def

text \<open>The output \<open>y\<close> of a problem is the output buffer of the work, thus it is not a field.\<close>

record cand_problem =
  c_op :: u32
  c_rows :: u32
  c_cols :: u32
  c_w :: "u8 list"
  c_x :: "u8 list"
  c_vtcm :: u32
  c_vtcm_bytes :: u32

record 's cand_kernel =
  k_name :: string
  k_op :: u32
  k_prepare :: "penv \<Rightarrow> cand_problem \<Rightarrow> hist \<Rightarrow> u32 \<times> 's \<times> hist"
  k_run :: "cand_problem \<Rightarrow> 's \<Rightarrow> u8 list \<Rightarrow> u32 \<times> 's \<times> u8 list"
  k_release :: "penv \<Rightarrow> 's \<Rightarrow> hist \<Rightarrow> hist"

subsection \<open>The measured runs\<close>

text \<open>The minimum of the cycles and of the microseconds.\<close>

type_synonym times = "u64 \<times> u64"

definition kernel_measure :: "penv \<Rightarrow> 's cand_kernel \<Rightarrow> cand_problem \<Rightarrow> 's \<Rightarrow> u8 list \<Rightarrow> times \<Rightarrow> hist \<Rightarrow>
    u32 \<times> 's \<times> u8 list \<times> times \<times> hist" where
  "kernel_measure E k p st out mins h =
     (let (t0, h) = ask E C_qtimer h; (c0, h) = ask E C_upcycles h;
          (err, st, out) = k_run k p st out;
          (c1, h) = ask E C_upcycles h; (t1, h) = ask E C_qtimer h;
          cycles = re_time c1 - re_time c0; us = us_of_ticks E (re_time t1 - re_time t0)
      in (err, st, out, (if cycles < fst mins then cycles else fst mins, if us < snd mins then us else snd mins), h))"

fun kernel_loop :: "penv \<Rightarrow> 's cand_kernel \<Rightarrow> cand_problem \<Rightarrow> nat \<Rightarrow> 's \<Rightarrow> u8 list \<Rightarrow> times \<Rightarrow> hist \<Rightarrow>
    u32 \<times> 's \<times> u8 list \<times> times \<times> hist" where
  "kernel_loop E k p 0 st out mins h = (CAND_OK, st, out, mins, h)"
| "kernel_loop E k p (Suc n) st out mins h =
     (let (err, st, out, mins, h) = kernel_measure E k p st out mins h in
      if err \<noteq> CAND_OK then (err, st, out, mins, h) else kernel_loop E k p n st out mins h)"

definition kernel_call_fn :: "penv \<Rightarrow> 's cand_kernel \<Rightarrow> cand_problem \<Rightarrow> u32 \<Rightarrow> times work" where
  "kernel_call_fn E k p iters out g h =
     (let (err, st, h) = k_prepare k E p h in
      if err \<noteq> CAND_OK then (err, (0, 0), out, g, h)
      else let (err, st, out, mins, h) = kernel_loop E k p (unat iters) st out (-1, -1) h
        in (err, mins, out, g, k_release k E st h))"

subsection \<open>The calls of the host\<close>

definition isaprobe_kernel_info :: "penv \<Rightarrow> 's cand_kernel list \<Rightarrow> bool \<Rightarrow> u32 \<Rightarrow> bool \<Rightarrow> i32 \<Rightarrow>
    aee \<times> u32 option \<times> u32 option \<times> string option" where
  "isaprobe_kernel_info E kernels args_ok kernel_id name_null name_len =
     (if \<not> args_ok then (AEE_EBADPARM, None, None, None)
      else if length kernels \<le> unat kernel_id then (AEE_EBADPARM, Some (of_nat (length kernels)), None, None)
      else let k = kernels ! unat kernel_id; (r, name) = copy_name E (k_name k) name_null name_len in
        (r, Some (of_nat (length kernels)), Some (k_op k), name))"

record kparams =
  kp_op :: u32
  kp_rows :: u32
  kp_cols :: u32
  kp_iters :: u32

text \<open>The sizes are numbers of 64 bits, as the code compares them.\<close>

definition sizes_differ :: "kparams \<Rightarrow> u32 \<Rightarrow> i32 \<Rightarrow> i32 \<Rightarrow> i32 \<Rightarrow> bool" where
  "sizes_differ p op in0Len in1Len dstLen \<longleftrightarrow>
     kp_op p \<noteq> op \<or> kp_op p \<noteq> CAND_OP_MATVEC_Q8_0 \<or> kp_cols p mod 32 \<noteq> 0 \<or>
     (scast in0Len :: u64) \<noteq> ucast (kp_rows p) * ucast (kp_cols p div 32) * 34 \<or>
     (scast in1Len :: u64) \<noteq> ucast (kp_cols p) * 4 \<or> (scast dstLen :: u64) \<noteq> ucast (kp_rows p) * 4"

definition problem_of :: "kparams \<Rightarrow> pbuffer \<Rightarrow> pbuffer \<Rightarrow> probe_ctx \<Rightarrow> cand_problem" where
  "problem_of p w x ctx = \<lparr>c_op = kp_op p, c_rows = kp_rows p, c_cols = kp_cols p, c_w = snd w, c_x = snd x,
     c_vtcm = p_vtcm_base ctx, c_vtcm_bytes = p_vtcm_bytes ctx\<rparr>"

text \<open>The result of a run that was started has the status and the bytes of \<open>dst\<close> on success, and the times.\<close>

definition isaprobe_kernel_run :: "penv \<Rightarrow> 's cand_kernel list \<Rightarrow> probe_ctx option \<Rightarrow> bool \<Rightarrow> u32 \<Rightarrow> kparams \<Rightarrow> input \<Rightarrow> input \<Rightarrow>
    u32 \<Rightarrow> i32 \<Rightarrow> lab_vtcm \<Rightarrow> hist \<Rightarrow>
    aee \<times> (u32 \<times> u8 list) option \<times> times option \<times> probe_ctx option \<times> lab_vtcm \<times> hist" where
  "isaprobe_kernel_run E kernels handle args_ok kernel_id params in0 in1 dst dstLen g h =
     (case handle of None \<Rightarrow> (AEE_EBADPARM, None, None, None, g, h)
      | Some ctx \<Rightarrow>
        if \<not> args_ok \<or> sint (snd in0) < 0 \<or> sint (snd in1) < 0 \<or> sint dstLen < 0 \<or> (sint dstLen > 0 \<and> dst = 0) \<or>
           length kernels \<le> unat kernel_id \<or> kp_iters params = 0
        then (AEE_EBADPARM, None, None, handle, g, h)
        else let k = kernels ! unat kernel_id in
          if sizes_differ params (k_op k) (snd in0) (snd in1) dstLen then (AEE_EBADPARM, None, None, handle, g, h)
          else let (setup_err, ctx, g, h) = probe_setup E ctx g h in
            if setup_err \<noteq> 0 then (setup_err, None, None, Some ctx, g, h)
            else let (w, fail, h) = copy_input E (fst in0) (snd in0) False h;
                (x, fail, h) = copy_input E (fst in1) (snd in1) fail h;
                (b_out, h) = alloc_output E dstLen h;
                (result, res, ts, g, h) = (if fail \<or> b_out = 0 then (AEE_ENOMEMORY, None, None, g, h)
                   else let (result, res, mins, g, h) =
                       run_guarded E ctx (kernel_call_fn E k (problem_of params w x ctx) (kp_iters params)) (0, 0) dst dstLen g h
                     in (result, res, Some mins, g, h))
              in (result, res, ts, Some ctx, g, free E b_out (free E (fst x) (free E (fst w) h))))"

subsection \<open>The lab functions\<close>

definition lab_vtcm_base :: "lab_vtcm \<Rightarrow> u32" where "lab_vtcm_base g = g_vtcm_base g"
definition lab_vtcm_size :: "lab_vtcm \<Rightarrow> u32" where "lab_vtcm_size g = g_vtcm_size g"
definition lab_hmx_enable :: "lab_vtcm \<Rightarrow> lab_vtcm" where "lab_hmx_enable g = g"

definition lab_vtcm_alloc :: "u32 \<Rightarrow> u32 \<Rightarrow> lab_vtcm \<Rightarrow> u32 \<times> lab_vtcm" where
  "lab_vtcm_alloc bytes align g =
     (if g_vtcm_base g = 0 \<or> align = 0 \<or> align AND (align - 1) \<noteq> 0 then (0, g\<lparr>g_vtcm_overflow := True\<rparr>)
      else let off = round_up (g_vtcm_used g) align in
        if off > g_vtcm_size g \<or> bytes > g_vtcm_size g - off then (0, g\<lparr>g_vtcm_overflow := True\<rparr>)
        else (g_vtcm_base g + off, g\<lparr>g_vtcm_used := off + bytes\<rparr>))"

end
