(* ===== verification/IsaprobeProps.thy ===== *)
theory IsaprobeProps
  imports IsaprobeDsp
begin

text \<open>
  What the calls of the DSP library of the ISA probe keep: the memory, the compute resource contexts, and the locks of the
  HVX and the HMX, in each environment. A resource is counted on the history of the calls.
\<close>

subsection \<open>Resources on a history\<close>

definition tally :: "(dsp_call \<times> reply \<Rightarrow> 'a::comm_monoid_add) \<Rightarrow> hist \<Rightarrow> 'a" where
  "tally f h = (\<Sum>e\<leftarrow>h. f e)"

lemma tally_ask [simp]: "tally f (snd (ask E c h)) = tally f h + f (c, ans E h c)"
  by (simp add: tally_def ask_def)

lemma ask_fst [simp]: "fst (ask E c h) = ans E h c"
  by (simp add: ask_def)

text \<open>What a call acquires and what it releases. A failed call acquires nothing, and \<open>free(NULL)\<close> releases nothing.\<close>

definition block :: "u32 \<Rightarrow> u32 multiset" where
  "block p = (if p = 0 then {#} else {#p#})"

fun mem_in :: "dsp_call \<times> reply \<Rightarrow> u32 multiset" where
  "mem_in (C_calloc, r) = block (re_ptr r)"
| "mem_in (C_memalign a n, r) = block (re_ptr r)"
| "mem_in (C_malloc n, r) = block (re_ptr r)"
| "mem_in _ = {#}"

fun mem_out :: "dsp_call \<times> reply \<Rightarrow> u32 multiset" where
  "mem_out (C_free p, r) = block p"
| "mem_out _ = {#}"

fun res_in :: "dsp_call \<times> reply \<Rightarrow> u32 multiset" where
  "res_in (C_acquire n hmx, r) = block (re_ptr r)"
| "res_in _ = {#}"

fun res_out :: "dsp_call \<times> reply \<Rightarrow> u32 multiset" where
  "res_out (C_release c, r) = block c"
| "res_out _ = {#}"

text \<open>The locks are counted at each successful lock and at each unlock.\<close>

fun hvx_in :: "u32 \<Rightarrow> dsp_call \<times> reply \<Rightarrow> nat" where
  "hvx_in ok (C_hvx_lock, r) = (if re_err r = ok then 1 else 0)"
| "hvx_in ok _ = 0"

fun hvx_out :: "dsp_call \<times> reply \<Rightarrow> nat" where
  "hvx_out (C_hvx_unlock, r) = 1"
| "hvx_out _ = 0"

fun hmx_in :: "dsp_call \<times> reply \<Rightarrow> u32 multiset" where
  "hmx_in (C_hmx_lock c, r) = (if re_err r = 0 then {#c#} else {#})"
| "hmx_in _ = {#}"

fun hmx_out :: "dsp_call \<times> reply \<Rightarrow> u32 multiset" where
  "hmx_out (C_hmx_unlock c, r) = {#c#}"
| "hmx_out _ = {#}"

text \<open>Between two histories the resources have changed from \<open>x\<close> to \<open>y\<close>.\<close>

definition changed :: "(dsp_call \<times> reply \<Rightarrow> 'a::cancel_comm_monoid_add) \<Rightarrow> (dsp_call \<times> reply \<Rightarrow> 'a) \<Rightarrow> 'a \<Rightarrow> 'a \<Rightarrow> hist \<Rightarrow> hist \<Rightarrow> bool" where
  "changed a r x y h h' \<longleftrightarrow> tally a h' + tally r h + x = tally a h + tally r h' + y"

lemma changed_refl: "changed a r x x h h"
  by (simp add: changed_def)

lemma changed_trans: "changed a r x y h h' \<Longrightarrow> changed a r y z h' h'' \<Longrightarrow> changed a r x z h h''"
proof -
  assume "changed a r x y h h'" "changed a r y z h' h''"
  then have "(tally a h' + tally r h + x) + (tally a h'' + tally r h' + y) = (tally a h + tally r h' + y) + (tally a h' + tally r h'' + z)"
    by (simp only: changed_def)
  then have "(tally a h'' + tally r h + x) + (tally a h' + tally r h' + y) = (tally a h + tally r h'' + z) + (tally a h' + tally r h' + y)"
    by (simp only: ac_simps)
  then show ?thesis unfolding changed_def by (simp only: add_right_cancel)
qed

lemma changed_ask: "changed a r x y h (snd (ask E c h)) \<longleftrightarrow> a (c, ans E h c) + x = r (c, ans E h c) + y"
proof -
  have "tally a h + a (c, ans E h c) + tally r h + x = tally a h + tally r h + (a (c, ans E h c) + x)" by (simp add: ac_simps)
  moreover have "tally a h + (tally r h + r (c, ans E h c)) + y = tally a h + tally r h + (r (c, ans E h c) + y)" by (simp add: ac_simps)
  ultimately show ?thesis by (simp add: changed_def)
qed

lemma changed_ask2: "a (c, ans E h c) = 0 \<Longrightarrow> r (c, ans E h c) = 0 \<Longrightarrow> changed a r x y h0 (snd (ask E c h)) \<longleftrightarrow> changed a r x y h0 h"
  by (simp add: changed_def)

text \<open>A resource that is held beside the ones of a part of the program.\<close>

lemma changed_frame: "changed a r (x + z) (y + z) h h' \<longleftrightarrow> changed a r x y h h'"
  unfolding changed_def by (simp only: add.assoc[symmetric] add_right_cancel)

text \<open>What is held: memory, resource contexts, HVX locks and HMX locks. Between two histories it has changed from \<open>s\<close> to \<open>t\<close>.\<close>

record holding =
  h_mem :: "u32 multiset"
  h_res :: "u32 multiset"
  h_hvx :: nat
  h_hmx :: "u32 multiset"

definition nothing :: holding where "nothing = \<lparr>h_mem = {#}, h_res = {#}, h_hvx = 0, h_hmx = {#}\<rparr>"

definition moved :: "penv \<Rightarrow> holding \<Rightarrow> holding \<Rightarrow> hist \<Rightarrow> hist \<Rightarrow> bool" where
  "moved E s t h h' \<longleftrightarrow> changed mem_in mem_out (h_mem s) (h_mem t) h h' \<and> changed res_in res_out (h_res s) (h_res t) h h' \<and>
     changed (hvx_in (QURT_EOK E)) hvx_out (h_hvx s) (h_hvx t) h h' \<and> changed hmx_in hmx_out (h_hmx s) (h_hmx t) h h'"

lemma moved_refl [simp]: "moved E s s h h"
  by (simp add: moved_def changed_refl)

lemma moved_trans: "moved E s t h h' \<Longrightarrow> moved E t u h' h'' \<Longrightarrow> moved E s u h h''"
  unfolding moved_def by (blast intro: changed_trans)

text \<open>The calls that acquire and release nothing.\<close>

fun neutral :: "dsp_call \<Rightarrow> bool" where
  "neutral C_thread_create = True" | "neutral C_thread_join = True" | "neutral (C_cache_clean p) = True"
| "neutral C_arch = True" | "neutral C_hvx_units = True" | "neutral C_qtimer = True" | "neutral C_upcycles = True"
| "neutral C_work = True" | "neutral (C_power_set v) = True" | "neutral C_query_vtcm = True" | "neutral C_vtcm_ptr = True"
| "neutral C_power_destroy = True" | "neutral _ = False"

lemma moved_neutral [simp]: "neutral c \<Longrightarrow> moved E s t h0 (snd (ask E c h)) \<longleftrightarrow> moved E s t h0 h"
  by (cases c) (simp_all add: moved_def changed_ask2)

text \<open>The calls that acquire and release.\<close>

lemma moved_add:
  assumes "moved E s t h0 h" "changed mem_in mem_out (h_mem t) (h_mem u) h h'" "changed res_in res_out (h_res t) (h_res u) h h'"
    "changed (hvx_in (QURT_EOK E)) hvx_out (h_hvx t) (h_hvx u) h h'" "changed hmx_in hmx_out (h_hmx t) (h_hmx u) h h'"
  shows "moved E s u h0 h'"
  using assms by (intro moved_trans[of E s t h0 h u h']) (simp_all add: moved_def)

lemma moved_memalign: "moved E s t h0 h \<Longrightarrow>
    moved E s (t\<lparr>h_mem := h_mem t + block (re_ptr (ans E h (C_memalign a n)))\<rparr>) h0 (snd (ask E (C_memalign a n) h))"
  by (erule moved_add) (simp_all add: changed_ask)

lemma moved_malloc: "moved E s t h0 h \<Longrightarrow>
    moved E s (t\<lparr>h_mem := h_mem t + block (re_ptr (ans E h (C_malloc n)))\<rparr>) h0 (snd (ask E (C_malloc n) h))"
  by (erule moved_add) (simp_all add: changed_ask)

lemma moved_free: "moved E s (t\<lparr>h_mem := h_mem t + block p\<rparr>) h0 h \<Longrightarrow> moved E s t h0 (free E p h)"
  unfolding free_def by (erule moved_add) (simp_all add: changed_ask)

lemma moved_acquire: "moved E s t h0 h \<Longrightarrow>
    moved E s (t\<lparr>h_res := h_res t + block (re_ptr (ans E h (C_acquire n b)))\<rparr>) h0 (snd (ask E (C_acquire n b) h))"
  by (erule moved_add) (simp_all add: changed_ask)

lemma moved_release: "moved E s (t\<lparr>h_res := h_res t + block c\<rparr>) h0 h \<Longrightarrow> moved E s t h0 (snd (ask E (C_release c) h))"
  by (erule moved_add) (simp_all add: changed_ask)

lemma moved_hvx_lock: "moved E s t h0 h \<Longrightarrow>
    moved E s (if re_err (ans E h C_hvx_lock) = QURT_EOK E then t\<lparr>h_hvx := Suc (h_hvx t)\<rparr> else t) h0 (snd (ask E C_hvx_lock h))"
  by (erule moved_add) (simp_all add: changed_ask)

lemma moved_hvx_unlock: "moved E s (t\<lparr>h_hvx := Suc (h_hvx t)\<rparr>) h0 h \<Longrightarrow> moved E s t h0 (snd (ask E C_hvx_unlock h))"
  by (erule moved_add) (simp_all add: changed_ask)

lemma moved_hmx_lock: "moved E s t h0 h \<Longrightarrow>
    moved E s (if re_err (ans E h (C_hmx_lock c)) = 0 then t\<lparr>h_hmx := h_hmx t + {#c#}\<rparr> else t) h0 (snd (ask E (C_hmx_lock c) h))"
  by (erule moved_add) (simp_all add: changed_ask)

lemma moved_hmx_unlock: "moved E s (t\<lparr>h_hmx := h_hmx t + {#c#}\<rparr>) h0 h \<Longrightarrow> moved E s t h0 (snd (ask E (C_hmx_unlock c) h))"
  by (erule moved_add) (simp_all add: changed_ask)

subsection \<open>The setup\<close>

text \<open>What a handle holds.\<close>

definition held :: "probe_ctx \<Rightarrow> holding" where
  "held ctx = nothing\<lparr>h_res := block (p_rctx ctx)\<rparr>"

text \<open>The invariant of a handle.\<close>

definition ctx_ok :: "probe_ctx \<Rightarrow> bool" where
  "ctx_ok ctx \<longleftrightarrow> (p_rctx ctx = 0 \<longleftrightarrow> p_vtcm_base ctx = 0) \<and> (p_rctx ctx = 0 \<longleftrightarrow> p_vtcm_bytes ctx = 0) \<and>
     (p_hmx_held ctx \<longrightarrow> p_rctx ctx \<noteq> 0 \<and> p_hmx_powered ctx) \<and> (p_setup_status ctx = SETUP_OK \<longrightarrow> p_setup_error ctx = 0) \<and>
     (\<not> p_setup_done ctx \<longrightarrow> ctx = ctx_zero) \<and>
     (ISAPROBE_SETUP_IS_FATAL (p_setup_status ctx) \<longrightarrow> p_rctx ctx = 0 \<and> p_setup_error ctx \<noteq> 0)"

lemma ctx_zero_ok: "ctx_ok ctx_zero"
  by (simp add: ctx_ok_def ctx_zero_def ISAPROBE_SETUP_IS_FATAL_def)

definition after_power :: "probe_ctx \<Rightarrow> bool" where
  "after_power ctx \<longleftrightarrow> p_rctx ctx = 0 \<and> p_vtcm_base ctx = 0 \<and> p_vtcm_bytes ctx = 0 \<and> \<not> p_hmx_held ctx \<and> p_setup_done ctx \<and>
     (p_setup_status ctx = SETUP_OK \<longrightarrow> p_setup_error ctx = 0)"

lemma setup_power_ok:
  assumes "setup_power E (ctx_zero\<lparr>p_setup_done := True\<rparr>) h = (err, ctx, h')"
  shows "moved E s s h h'" "after_power ctx" "err \<noteq> 0 \<longleftrightarrow> ISAPROBE_SETUP_IS_FATAL (p_setup_status ctx)"
    "err \<noteq> 0 \<Longrightarrow> p_setup_error ctx = err"
  using assms
  by (auto simp: setup_power_def case_prod_beta Let_def setup_fail_def ctx_zero_def ISAPROBE_SETUP_IS_FATAL_def after_power_def
      split: if_splits)

lemma fatal_steps [simp]: "ISAPROBE_SETUP_IS_FATAL SETUP_APPTYPE" "ISAPROBE_SETUP_IS_FATAL SETUP_HVX_POWER"
  "\<not> ISAPROBE_SETUP_IS_FATAL SETUP_OK" "\<not> ISAPROBE_SETUP_IS_FATAL SETUP_HMX_POWER" "\<not> ISAPROBE_SETUP_IS_FATAL SETUP_VTCM_QUERY"
  "\<not> ISAPROBE_SETUP_IS_FATAL SETUP_ACQUIRE_HMX" "\<not> ISAPROBE_SETUP_IS_FATAL SETUP_ACQUIRE_VTCM" "\<not> ISAPROBE_SETUP_IS_FATAL SETUP_VTCM_PTR"
  by (simp_all add: ISAPROBE_SETUP_IS_FATAL_def)

text \<open>A context without resources, before and after an attempt to get them.\<close>

definition no_fatal :: "probe_ctx \<Rightarrow> bool" where
  "no_fatal ctx \<longleftrightarrow> \<not> ISAPROBE_SETUP_IS_FATAL (p_setup_status ctx)"

lemma setup_fail_fields [simp]:
  "p_setup_done (setup_fail step e ctx) = p_setup_done ctx" "p_hmx_powered (setup_fail step e ctx) = p_hmx_powered ctx"
  "p_hmx_held (setup_fail step e ctx) = p_hmx_held ctx" "p_rctx (setup_fail step e ctx) = p_rctx ctx"
  "p_vtcm_base (setup_fail step e ctx) = p_vtcm_base ctx" "p_vtcm_bytes (setup_fail step e ctx) = p_vtcm_bytes ctx"
  "p_setup_status (setup_fail step e ctx) = (if p_setup_status ctx = SETUP_OK then step else p_setup_status ctx)"
  by (simp_all add: setup_fail_def)

lemma setup_fail_keeps: "after_power ctx \<Longrightarrow> no_fatal ctx \<Longrightarrow> \<not> ISAPROBE_SETUP_IS_FATAL step \<Longrightarrow> step \<noteq> SETUP_OK \<Longrightarrow>
    after_power (setup_fail step e ctx) \<and> no_fatal (setup_fail step e ctx)"
  by (simp add: after_power_def no_fatal_def)

lemma after_power_ok: "after_power ctx \<Longrightarrow> no_fatal ctx \<Longrightarrow> ctx_ok ctx \<and> held ctx = nothing \<and> p_setup_done ctx"
  by (simp add: after_power_def no_fatal_def ctx_ok_def held_def block_def nothing_def)

lemma acquire_any_ok:
  assumes "acquire_any E n ctx h = (cx, ctx', h')" "after_power ctx" "no_fatal ctx"
  shows "moved E nothing (nothing\<lparr>h_res := block cx\<rparr>) h h'" "no_fatal ctx'"
    "after_power (ctx'\<lparr>p_hmx_held := False\<rparr>)" "p_hmx_held ctx' \<longrightarrow> cx \<noteq> 0 \<and> p_hmx_powered ctx'"
proof -
  have acq: "moved E nothing (nothing\<lparr>h_res := block (re_ptr (ans E h0 (C_acquire n b)))\<rparr>) h (snd (ask E (C_acquire n b) h0))"
    if "moved E nothing nothing h h0" for h0 b
    using moved_acquire[OF that, of n b] by (simp add: nothing_def)
  show "moved E nothing (nothing\<lparr>h_res := block cx\<rparr>) h h'"
  proof (cases "p_hmx_powered ctx \<and> re_ptr (ans E h (C_acquire n True)) = 0")
    case True
    then have "moved E nothing nothing h (snd (ask E (C_acquire n True) h))" using acq[of h True] by (simp add: block_def nothing_def)
    from acq[OF this, of False] show ?thesis
      using assms(1) True by (auto simp: acquire_any_def acquire_hmx_def acquire_vtcm_def case_prod_beta Let_def split: if_splits)
  next
    case False
    then show ?thesis
      using assms(1) acq[of h True] acq[of h False] by (auto simp: acquire_any_def acquire_hmx_def acquire_vtcm_def case_prod_beta Let_def split: if_splits)
  qed
  show "no_fatal ctx'" "after_power (ctx'\<lparr>p_hmx_held := False\<rparr>)" "p_hmx_held ctx' \<longrightarrow> cx \<noteq> 0 \<and> p_hmx_powered ctx'"
    using assms by (auto simp: acquire_any_def acquire_hmx_def acquire_vtcm_def case_prod_beta Let_def setup_fail_def
        after_power_def no_fatal_def split: if_splits)
qed


lemma setup_resources_ok:
  assumes "setup_resources E ctx g h = (ctx', g', h')" "after_power ctx" "no_fatal ctx"
  shows "moved E nothing (held ctx') h h'" "no_fatal ctx'" "ctx_ok ctx'" "p_setup_done ctx'"
proof -
  define r h1 where "r = ans E h C_query_vtcm" and "h1 = snd (ask E C_query_vtcm h)"
  have h1: "ask E C_query_vtcm h = (r, h1)" by (simp add: r_def h1_def ask_def)
  obtain cx c2 h2 where a: "acquire_any E (re_size r) ctx h1 = (cx, c2, h2)" by (cases "acquire_any E (re_size r) ctx h1")
  note ok = acquire_any_ok[OF a assms(2,3)]
  define q h3 where "q = ans E h2 C_vtcm_ptr" and "h3 = snd (ask E C_vtcm_ptr h2)"
  have h3: "ask E C_vtcm_ptr h2 = (q, h3)" by (simp add: q_def h3_def ask_def)
  have m1: "moved E nothing nothing h h1" by (simp add: h1_def)
  have m2: "moved E nothing (nothing\<lparr>h_res := block cx\<rparr>) h h2" using moved_trans[OF m1 ok(1)] .
  have m3: "moved E nothing (nothing\<lparr>h_res := block cx\<rparr>) h h3" using m2 by (simp add: h3_def)
  have m4: "moved E nothing nothing h (snd (ask E (C_release cx) h3))"
    by (rule moved_release) (use m3 in \<open>simp add: nothing_def\<close>)
  consider "re_err r \<noteq> 0 \<or> re_size r = 0" | "re_err r = 0" "re_size r \<noteq> 0" "cx = 0"
    | "re_err r = 0" "re_size r \<noteq> 0" "cx \<noteq> 0" "re_err q \<noteq> 0 \<or> re_ptr q = 0 \<or> re_size q = 0"
    | "re_err r = 0" "re_size r \<noteq> 0" "cx \<noteq> 0" "re_err q = 0" "re_ptr q \<noteq> 0" "re_size q \<noteq> 0" by blast
  then have "moved E nothing (held ctx') h h' \<and> no_fatal ctx' \<and> ctx_ok ctx' \<and> p_setup_done ctx'"
  proof cases
    case 1
    then obtain e where "ctx' = setup_fail SETUP_VTCM_QUERY e ctx" "h' = h1"
      using assms(1) by (auto simp: setup_resources_def h1 Let_def)
    then show ?thesis using setup_fail_keeps[OF assms(2,3), of SETUP_VTCM_QUERY e] after_power_ok[of ctx'] m1 by simp
  next
    case 2
    then have "ctx' = c2" "h' = h2" "\<not> p_hmx_held c2"
      using assms(1) ok(4) by (auto simp: setup_resources_def h1 a Let_def)
    moreover have "after_power c2" using ok(3) \<open>\<not> p_hmx_held c2\<close> by (simp add: after_power_def)
    ultimately show ?thesis using after_power_ok[of c2] ok(2) m2 2(3) by (simp add: block_def nothing_def)
  next
    case 3
    then obtain e where "ctx' = (setup_fail SETUP_VTCM_PTR e c2)\<lparr>p_hmx_held := False\<rparr>" "h' = snd (ask E (C_release cx) h3)"
      using assms(1) by (auto simp: setup_resources_def h1 a h3 Let_def case_prod_beta)
    moreover have "setup_fail SETUP_VTCM_PTR e c2\<lparr>p_hmx_held := False\<rparr> = setup_fail SETUP_VTCM_PTR e (c2\<lparr>p_hmx_held := False\<rparr>)"
      by (simp add: setup_fail_def)
    moreover have "no_fatal (c2\<lparr>p_hmx_held := False\<rparr>)" using ok(2) by (simp add: no_fatal_def)
    ultimately show ?thesis using setup_fail_keeps[OF ok(3), of SETUP_VTCM_PTR e] after_power_ok[of ctx'] m4 by simp
  next
    case 4
    then have "ctx' = c2\<lparr>p_rctx := cx, p_vtcm_base := re_ptr q, p_vtcm_bytes := re_size q\<rparr>" "h' = h3"
      using assms(1) by (auto simp: setup_resources_def h1 a h3 Let_def)
    then show ?thesis
      using m3 ok(2-4) 4 by (simp add: held_def after_power_def no_fatal_def ctx_ok_def)
  qed
  then show "moved E nothing (held ctx') h h'" "no_fatal ctx'" "ctx_ok ctx'" "p_setup_done ctx'" by blast+
qed

lemma setup_ok:
  assumes "probe_setup E ctx g h = (err, ctx', g', h')" "ctx_ok ctx"
  shows "moved E (held ctx) (held ctx') h h'" "ctx_ok ctx'" "p_setup_done ctx'"
    "err \<noteq> 0 \<longleftrightarrow> ISAPROBE_SETUP_IS_FATAL (p_setup_status ctx')" "err \<noteq> 0 \<Longrightarrow> err = p_setup_error ctx'"
    "probe_setup E ctx' g'' h'' = (err, ctx', g'', h'')"
proof -
  have "moved E (held ctx) (held ctx') h h' \<and> ctx_ok ctx' \<and> p_setup_done ctx' \<and>
      (err \<noteq> 0 \<longleftrightarrow> ISAPROBE_SETUP_IS_FATAL (p_setup_status ctx')) \<and> (err \<noteq> 0 \<longrightarrow> err = p_setup_error ctx')"
  proof (cases "p_setup_done ctx")
    case True
    then show ?thesis using assms by (auto simp: probe_setup_def ctx_ok_def split: if_splits)
  next
    case False
    then have z: "ctx = ctx_zero" using assms(2) by (simp add: ctx_ok_def)
    obtain e c1 h1 where p: "setup_power E (ctx_zero\<lparr>p_setup_done := True\<rparr>) h = (e, c1, h1)"
      by (cases "setup_power E (ctx_zero\<lparr>p_setup_done := True\<rparr>) h")
    note power = setup_power_ok[OF p]
    have n: "held ctx = nothing" by (simp add: z held_def ctx_zero_def block_def nothing_def)
    show ?thesis
    proof (cases "e = 0")
      case e: False
      then show ?thesis
        using assms(1) False power n unfolding z probe_setup_def p
        by (auto simp: ctx_ok_def after_power_def held_def block_def nothing_def)
    next
      case True
      obtain c2 g2 h2 where r: "setup_resources E c1 g h1 = (c2, g2, h2)" by (cases "setup_resources E c1 g h1")
      have c1: "no_fatal c1" using power(3) True by (simp add: no_fatal_def)
      note res = setup_resources_ok[OF r power(2) c1]
      have "err = 0 \<and> ctx' = c2 \<and> h' = h2"
        using assms(1) False True unfolding z probe_setup_def p by (simp add: r)
      moreover have "moved E nothing (held c2) h h2" by (rule moved_trans[OF power(1) res(1)])
      ultimately show ?thesis using res n unfolding no_fatal_def by auto
    qed
  qed
  then show "moved E (held ctx) (held ctx') h h'" "ctx_ok ctx'" "p_setup_done ctx'"
    "err \<noteq> 0 \<longleftrightarrow> ISAPROBE_SETUP_IS_FATAL (p_setup_status ctx')" "err \<noteq> 0 \<Longrightarrow> err = p_setup_error ctx'"
    "probe_setup E ctx' g'' h'' = (err, ctx', g'', h'')"
    by (auto simp: probe_setup_def)
qed

end
