(* ===== verification/IsaprobeRun.thy ===== *)
theory IsaprobeRun
  imports IsaprobeProps IsaprobeKernel
begin

text \<open>
  The run of a census op and of a candidate kernel: what it holds when the work runs, what it gives back, and its result.
\<close>

subsection \<open>The thread\<close>

lemma hvx_lock_moved:
  assumes "hvx_lock E h = (err, h')"
  shows "moved E s (if hvx_lock_linked E \<and> err = QURT_EOK E then s\<lparr>h_hvx := Suc (h_hvx s)\<rparr> else s) h h'"
  using assms moved_hvx_lock[of E s s h h] by (auto simp: hvx_lock_def case_prod_beta split: if_splits)

lemma hvx_unlock_moved:
  "moved E s (if hvx_lock_linked E then t\<lparr>h_hvx := Suc (h_hvx t)\<rparr> else t) h h' \<Longrightarrow> moved E s t h (hvx_unlock E h')"
  by (auto simp: hvx_unlock_def intro: moved_hvx_unlock split: if_splits)

lemma hmx_lock_moved:
  assumes "hmx_lock E ctx h = (err, h')"
  shows "moved E s (if p_hmx_held ctx \<and> err = 0 then s\<lparr>h_hmx := h_hmx s + {#p_rctx ctx#}\<rparr> else s) h h'"
  using assms moved_hmx_lock[of E s s h h "p_rctx ctx"] by (auto simp: hmx_lock_def case_prod_beta split: if_splits)

lemma hmx_unlock_moved:
  "moved E s (if p_hmx_held ctx then t\<lparr>h_hmx := h_hmx t + {#p_rctx ctx#}\<rparr> else t) h h' \<Longrightarrow> moved E s t h (hmx_unlock E ctx h')"
  by (auto simp: hmx_unlock_def intro: moved_hmx_unlock split: if_splits)

text \<open>What is held while the work runs.\<close>

definition with_locks :: "penv \<Rightarrow> probe_ctx \<Rightarrow> holding \<Rightarrow> holding" where
  "with_locks E ctx s =
     (let s = (if hvx_lock_linked E then s\<lparr>h_hvx := Suc (h_hvx s)\<rparr> else s)
      in if p_hmx_held ctx then s\<lparr>h_hmx := h_hmx s + {#p_rctx ctx#}\<rparr> else s)"

text \<open>The work gives back what it has acquired.\<close>

definition keeps :: "penv \<Rightarrow> 'r work \<Rightarrow> bool" where
  "keeps E fn \<longleftrightarrow> (\<forall>s out g h. moved E s s h (snd (snd (snd (snd (fn out g h))))))"

text \<open>The thread runs the work under the locks, or it does not run it and tells which lock failed.\<close>

lemma probe_thread_cases:
  assumes "probe_thread E ctx fn none out g h = (status, res, out', g', h')"
  obtains (hvx) "status = ISAPROBE_STATUS_HVX_LOCK" "res = none" "out' = out" "g' = g" "\<And>s. moved E s s h h'"
  | (hmx) "status = ISAPROBE_STATUS_HMX_LOCK" "res = none" "out' = out" "g' = g" "\<And>s. moved E s s h h'"
  | (work) h1 h2 where "fn out g h1 = (status, res, out', g', h2)" "\<And>s. moved E s (with_locks E ctx s) h h1"
      "\<And>s. moved E (with_locks E ctx s) (with_locks E ctx s) h1 h2 \<Longrightarrow> moved E s s h h'"
proof -
  obtain e1 h1 where l1: "hvx_lock E h = (e1, h1)" by (cases "hvx_lock E h")
  obtain e2 h2 where l2: "hmx_lock E ctx h1 = (e2, h2)" by (cases "hmx_lock E ctx h1")
  have m1: "moved E s (if hvx_lock_linked E \<and> e1 = QURT_EOK E then s\<lparr>h_hvx := Suc (h_hvx s)\<rparr> else s) h h1" for s
    by (rule hvx_lock_moved[OF l1])
  consider "e1 \<noteq> QURT_EOK E" | "e1 = QURT_EOK E" "e2 \<noteq> 0" | "e1 = QURT_EOK E" "e2 = 0" by blast
  then show thesis
  proof cases
    case 1
    then show thesis using assms m1 by (intro hvx) (auto simp: probe_thread_def l1)
  next
    case 2
    have "moved E s (if hvx_lock_linked E then s\<lparr>h_hvx := Suc (h_hvx s)\<rparr> else s) h h2" for s
      using moved_trans[OF m1[of s] hmx_lock_moved[OF l2]] 2 by (auto split: if_splits)
    then show thesis using assms 2 by (intro hmx) (auto simp: probe_thread_def l1 l2 intro: hvx_unlock_moved)
  next
    case 3
    define w where "w = snd (ask E C_work h2)"
    obtain h3 where f: "fn out g w = (status, res, out', g', h3)" "h' = hvx_unlock E (hmx_unlock E ctx h3)"
      using assms 3 by (auto simp: probe_thread_def l1 l2 w_def case_prod_beta prod_eq_iff)
    have h2: "moved E s (with_locks E ctx s) h w" for s
      using moved_trans[OF m1[of s] hmx_lock_moved[OF l2]] 3 by (auto simp: with_locks_def Let_def w_def split: if_splits)
    show thesis
    proof (rule work[OF f(1) h2])
      fix s assume "moved E (with_locks E ctx s) (with_locks E ctx s) w h3"
      with h2 have "moved E s (with_locks E ctx s) h h3" by (rule moved_trans)
      then show "moved E s s h h'"
        unfolding f(2) with_locks_def Let_def by (intro hvx_unlock_moved hmx_unlock_moved) (auto split: if_splits)
    qed
  qed
qed

lemma probe_thread_keeps:
  assumes "probe_thread E ctx fn none out g h = (status, res, out', g', h')" "keeps E fn"
  shows "moved E s s h h'"
  using assms(1)
proof (cases rule: probe_thread_cases)
  case (work h1 h2)
  then show ?thesis using assms(2) by (simp add: keeps_def) (metis snd_conv)
qed auto


lemma run_on_thread_cases:
  assumes "run_on_thread E ctx fn none out g h = (result, status, res, out', g', h')"
  obtains (failed) "result = AEE_ENOMEMORY \<or> result = AEE_EFAILED" "g' = g" "\<And>s. moved E s s h h'"
  | (ran) h1 h2 where "probe_thread E ctx fn none out g h1 = (status, res, out', g', h2)" "result = AEE_SUCCESS \<or> result = AEE_EFAILED"
      "\<And>s. (\<And>t. moved E t t h1 h2) \<Longrightarrow> moved E s s h h'"
proof -
  define stack h1 where "stack = re_ptr (ans E h (C_memalign 4096 ISAPROBE_STACK_BYTES))"
    and "h1 = snd (ask E (C_memalign 4096 ISAPROBE_STACK_BYTES) h)"
  define r h2 where "r = ans E h1 C_thread_create" and "h2 = snd (ask E C_thread_create h1)"
  have a1: "ask E (C_memalign 4096 ISAPROBE_STACK_BYTES) h = (ans E h (C_memalign 4096 ISAPROBE_STACK_BYTES), h1)"
    and a2: "ask E C_thread_create h1 = (r, h2)" by (simp_all add: h1_def r_def h2_def ask_def)
  have m1: "moved E s (s\<lparr>h_mem := h_mem s + block stack\<rparr>) h h1" for s
    unfolding stack_def h1_def by (rule moved_memalign) simp
  have m2: "moved E s (s\<lparr>h_mem := h_mem s + block stack\<rparr>) h h2" for s using m1 by (simp add: h2_def)
  consider "stack = 0" | "stack \<noteq> 0" "re_err r \<noteq> QURT_EOK E" | "stack \<noteq> 0" "re_err r = QURT_EOK E" by blast
  then show thesis
  proof cases
    case 1
    have "moved E s s h h1" for s using m1[of s] 1 by (simp add: block_def)
    then show thesis using assms 1 by (intro failed) (auto simp: run_on_thread_def a1 Let_def stack_def[symmetric])
  next
    case 2
    then show thesis
      using assms m2 by (intro failed) (auto simp: run_on_thread_def a1 a2 Let_def stack_def[symmetric] intro: moved_free)
  next
    case 3
    obtain st rs o1 g1 h3 where t: "probe_thread E ctx fn none out g h2 = (st, rs, o1, g1, h3)"
      by (cases "probe_thread E ctx fn none out g h2")
    have e: "h' = free E stack (snd (ask E C_thread_join h3))" "st = status" "rs = res" "o1 = out'" "g1 = g'"
      "result = AEE_SUCCESS \<or> result = AEE_EFAILED"
      using assms 3 by (auto simp: run_on_thread_def a1 a2 t Let_def case_prod_beta stack_def[symmetric] r_def[symmetric] split: if_splits)
    show thesis
    proof (rule ran[of h2 h3])
      show "probe_thread E ctx fn none out g h2 = (status, res, out', g', h3)" using t e by simp
    next
      fix s assume "\<And>t. moved E t t h2 h3"
      from moved_trans[OF m2[of s] this] have "moved E s (s\<lparr>h_mem := h_mem s + block stack\<rparr>) h (snd (ask E C_thread_join h3))" by simp
      then show "moved E s s h h'" unfolding e(1) by (rule moved_free)
    qed (rule e(6))
  qed
qed

lemma run_guarded_keeps:
  assumes "run_guarded E ctx fn none dst n g h = (result, res, x, g', h')" "keeps E fn"
  shows "moved E s s h h'"
proof -
  let ?out = "replicate (unat n) 0 @ replicate (unat ISAPROBE_OUTPUT_GUARD) ISAPROBE_GUARD_BYTE"
  obtain r st rs o1 g1 h1 where t: "run_on_thread E ctx fn none ?out (g\<lparr>g_vtcm_used := 0, g_vtcm_overflow := False\<rparr>) h = (r, st, rs, o1, g1, h1)"
    by (cases "run_on_thread E ctx fn none ?out (g\<lparr>g_vtcm_used := 0, g_vtcm_overflow := False\<rparr>) h")
  have "moved E s s h h1"
    using t
  proof (cases rule: run_on_thread_cases)
    case (ran h2 h3)
    show ?thesis by (rule ran(3)) (rule probe_thread_keeps[OF ran(1) assms(2)])
  qed auto
  then show ?thesis
    using assms(1) by (auto simp: run_guarded_def t Let_def split: if_splits)
qed

subsection \<open>The buffers\<close>

definition with_mem :: "u32 \<Rightarrow> holding \<Rightarrow> holding" where
  "with_mem p s = s\<lparr>h_mem := h_mem s + block p\<rparr>"

lemma copy_input_moved:
  assumes "copy_input E src len fail h = (b, fail', h')"
  shows "moved E s (with_mem (fst b) s) h h'" "fail' = (fail \<or> 0 < sint len \<and> fst b = 0)"
  using assms moved_memalign[of E s s h h ISAPROBE_ALIGN "round_up len ISAPROBE_ALIGN + ISAPROBE_INPUT_TAIL"]
  by (auto simp: copy_input_def Let_def case_prod_beta with_mem_def block_def[of 0] split: if_splits)

lemma alloc_output_moved:
  assumes "alloc_output E n h = (p, h')"
  shows "moved E s (with_mem p s) h h'"
  using assms moved_memalign[of E s s h h] by (auto simp: alloc_output_def Let_def case_prod_beta with_mem_def)

lemma free_moved: "moved E s (with_mem p t) h h' \<Longrightarrow> moved E s t h (free E p h')"
  unfolding with_mem_def by (rule moved_free)

lemma keeps_isa_call: "keeps E (isa_call_fn isa_run op_id ins n_vectors)"
  by (simp add: keeps_def isa_call_fn_def case_prod_beta)

lemma with_mem_swap: "with_mem a (with_mem b s) = with_mem b (with_mem a s)"
  by (simp add: with_mem_def ac_simps)

text \<open>The ways of a call of \<open>isaprobe_run\<close>.\<close>

lemma isaprobe_run_cases:
  assumes "isaprobe_run E isa_run (Some ctx) status_ok op_id in0 in1 in2 dst dstLen n_vectors g h = (result, res, ctx', g', h')"
  obtains (refused) "result = AEE_EBADPARM" "res = None" "ctx' = Some ctx" "g' = g" "h' = h"
  | (failed) c where "probe_setup E ctx g h = (result, c, g', h')" "result \<noteq> 0" "res = None" "ctx' = Some c"
  | (ran) c g1 h1 b0 f0 k0 b1 f1 k1 b2 f2 k2 b3 k3 k4 where "probe_setup E ctx g h = (0, c, g1, h1)"
      "copy_input E (fst in0) (snd in0) False h1 = (b0, f0, k0)" "copy_input E (fst in1) (snd in1) f0 k0 = (b1, f1, k1)"
      "copy_input E (fst in2) (snd in2) f1 k1 = (b2, f2, k2)" "alloc_output E dstLen k2 = (b3, k3)"
      "(if f2 \<or> b3 = 0 then (AEE_ENOMEMORY, None, (), g1, k3)
        else run_guarded E c (isa_call_fn isa_run op_id [input_of b0, input_of b1, input_of b2] n_vectors) () dst dstLen g1 k3)
       = (result, res, (), g', k4)" "ctx' = Some c"
      "h' = free E b3 (free E (fst b2) (free E (fst b1) (free E (fst b0) k4)))"
      "0 \<le> sint n_vectors" "0 \<le> sint (snd in0)" "0 \<le> sint (snd in1)" "0 \<le> sint (snd in2)" "0 \<le> sint dstLen"
proof -
  define bad where "bad \<longleftrightarrow> \<not> status_ok \<or> sint n_vectors < 0 \<or> sint (snd in0) < 0 \<or> sint (snd in1) < 0 \<or> sint (snd in2) < 0 \<or> sint dstLen < 0 \<or>
           (sint dstLen > 0 \<and> dst = 0)"
  note run = assms(1)[unfolded isaprobe_run_def option.case bad_def[symmetric]]
  obtain e c g1 h1 where s: "probe_setup E ctx g h = (e, c, g1, h1)" by (cases "probe_setup E ctx g h")
  consider bad | "\<not> bad" "e \<noteq> 0" | "\<not> bad" "e = 0" by blast
  then show thesis
  proof cases
    case 1
    then show thesis using run by (intro refused) auto
  next
    case 2
    then show thesis using run s by (intro failed[of c]) auto
  next
    case 3
    obtain b0 f0 k0 where b0: "copy_input E (fst in0) (snd in0) False h1 = (b0, f0, k0)" by (cases "copy_input E (fst in0) (snd in0) False h1")
    obtain b1 f1 k1 where b1: "copy_input E (fst in1) (snd in1) f0 k0 = (b1, f1, k1)" by (cases "copy_input E (fst in1) (snd in1) f0 k0")
    obtain b2 f2 k2 where b2: "copy_input E (fst in2) (snd in2) f1 k1 = (b2, f2, k2)" by (cases "copy_input E (fst in2) (snd in2) f1 k1")
    obtain b3 k3 where b3: "alloc_output E dstLen k2 = (b3, k3)" by (cases "alloc_output E dstLen k2")
    obtain r rs u g4 k4 where w: "(if f2 \<or> b3 = 0 then (AEE_ENOMEMORY, None, (), g1, k3)
        else run_guarded E c (isa_call_fn isa_run op_id [input_of b0, input_of b1, input_of b2] n_vectors) () dst dstLen g1 k3) = (r, rs, u, g4, k4)"
      by (metis prod_cases5)
    have "result = r" "res = rs" "ctx' = Some c" "g' = g4" "h' = free E b3 (free E (fst b2) (free E (fst b1) (free E (fst b0) k4)))"
      using run 3 by (simp_all add: s b0 b1 b2 b3 w)
    moreover have "0 \<le> sint n_vectors" "0 \<le> sint (snd in0)" "0 \<le> sint (snd in1)" "0 \<le> sint (snd in2)" "0 \<le> sint dstLen"
      using 3(1) by (simp_all add: bad_def not_less)
    ultimately show thesis using w by (intro ran[OF s[unfolded 3(2)] b0 b1 b2 b3]) auto
  qed
qed

text \<open>The resources of a call: only those of the handle change.\<close>

lemma isaprobe_run_moved:
  assumes "isaprobe_run E isa_run (Some ctx) status_ok op_id in0 in1 in2 dst dstLen n_vectors g h = (result, res, ctx', g', h')"
    "ctx_ok ctx"
  obtains c' where "ctx' = Some c'" "ctx_ok c'" "moved E (held ctx) (held c') h h'"
  using assms(1)
proof (cases rule: isaprobe_run_cases)
  case refused
  then show thesis using that[of ctx] assms(2) by simp
next
  case (failed c)
  then show thesis using that[of c] setup_ok(1,2)[OF failed(1) assms(2)] failed by simp
next
  case (ran c g1 h1 b0 f0 k0 b1 f1 k1 b2 f2 k2 b3 k3 k4)
  note ok = setup_ok[OF ran(1) assms(2)]
  have m4: "moved E s s k3 k4" for s
    using ran(6) run_guarded_keeps[OF _ keeps_isa_call, of E c isa_run op_id "[input_of b0, input_of b1, input_of b2]" n_vectors "()" dst dstLen g1 k3]
    by (auto split: if_splits)
  define t where "t = with_mem b3 (with_mem (fst b2) (with_mem (fst b1) (with_mem (fst b0) (held c))))"
  have "moved E (held ctx) t h k4"
    unfolding t_def
    by (rule moved_trans[OF moved_trans[OF moved_trans[OF moved_trans[OF moved_trans[OF ok(1)
      copy_input_moved(1)[OF ran(2)]] copy_input_moved(1)[OF ran(3)]] copy_input_moved(1)[OF ran(4)]] alloc_output_moved[OF ran(5)]] m4])
  also have "t = with_mem (fst b0) (with_mem (fst b1) (with_mem (fst b2) (with_mem b3 (held c))))"
    by (simp add: t_def with_mem_def ac_simps)
  finally have "moved E (held ctx) (held c) h h'"
    unfolding ran(8) by (intro free_moved)
  then show thesis using that[of c] ok(2) ran(7) by simp
qed

subsection \<open>The contract of a candidate kernel\<close>

text \<open>\<open>prepare\<close> acquires at most one block of memory, which the state holds until \<open>release\<close>; it acquires nothing when it fails,
  and \<open>run\<close> does not change the block.\<close>

locale candidate =
  fixes k :: "'s cand_kernel" and blk :: "'s \<Rightarrow> u32"
  assumes prepare: "k_prepare k E p h = (err, st, h') \<Longrightarrow> moved E s (if err = CAND_OK then with_mem (blk st) s else s) h h'"
    and run: "k_run k p st out = (err, st', out') \<Longrightarrow> blk st' = blk st"
    and release: "moved E s (with_mem (blk st) t) h0 h \<Longrightarrow> moved E s t h0 (k_release k E st h)"
begin

lemma measure_keeps:
  assumes "kernel_measure E k p st out mins h = (err, st', out', mins', h')"
  shows "blk st' = blk st" "moved E s t h0 h \<Longrightarrow> moved E s t h0 h'"
  using assms run by (auto simp: kernel_measure_def Let_def case_prod_beta prod_eq_iff)

lemma loop_keeps:
  "kernel_loop E k p n st out mins h = (err, st', out', mins', h') \<Longrightarrow> blk st' = blk st \<and> (moved E s t h0 h \<longrightarrow> moved E s t h0 h')"
proof (induction n arbitrary: st out mins h)
  case (Suc n)
  obtain e st1 o1 m1 h1 where m: "kernel_measure E k p st out mins h = (e, st1, o1, m1, h1)"
    by (cases "kernel_measure E k p st out mins h")
  note keep = measure_keeps[OF m]
  show ?case
    using Suc.prems Suc.IH[of st1 o1 m1 h1] keep by (auto simp: m split: if_splits)
qed simp

lemma call_keeps: "keeps E (kernel_call_fn E k p iters)"
  unfolding keeps_def
proof (intro allI)
  fix s out g h
  obtain err st h1 where p: "k_prepare k E p h = (err, st, h1)" by (cases "k_prepare k E p h")
  note prep = prepare[OF p, of s]
  obtain e st2 o2 m2 h2 where l: "kernel_loop E k p (unat iters) st out (-1, -1) h1 = (e, st2, o2, m2, h2)"
    by (cases "kernel_loop E k p (unat iters) st out (-1, -1) h1")
  show "moved E s s h (snd (snd (snd (snd (kernel_call_fn E k p iters out g h)))))"
    using prep loop_keeps[OF l, of s "with_mem (blk st) s" h] release[of E s st2 s h h2]
    by (auto simp: kernel_call_fn_def p l)
qed

end

text \<open>The work of a kernel does not change the VTCM of the lab functions.\<close>

lemma kernel_call_vtcm: "kernel_call_fn E k p iters out g h = (err, mins, out', g', h') \<Longrightarrow> g' = g"
  by (auto simp: kernel_call_fn_def case_prod_beta Let_def prod_eq_iff split: if_splits)

end
