(* ===== verification/IsaprobeSession.thy ===== *)
theory IsaprobeSession
  imports IsaprobeRun
begin

text \<open>
  A session with the DSP library of the ISA probe: a handle is opened, it serves calls, and it is closed.
\<close>

subsection \<open>The run of a candidate kernel\<close>

lemma kernel_run_moved:
  assumes "isaprobe_kernel_run E kernels (Some ctx) args_ok kernel_id params in0 in1 dst dstLen g h = (result, res, ts, ctx', g', h')"
    "ctx_ok ctx" and kernels: "\<And>k p n. k \<in> set kernels \<Longrightarrow> keeps E (kernel_call_fn E k p n)"
  obtains c' where "ctx' = Some c'" "ctx_ok c'" "moved E (held ctx) (held c') h h'"
proof -
  define bad where "bad \<longleftrightarrow> \<not> args_ok \<or> sint (snd in0) < 0 \<or> sint (snd in1) < 0 \<or> sint dstLen < 0 \<or> (sint dstLen > 0 \<and> dst = 0) \<or>
           length kernels \<le> unat kernel_id \<or> kp_iters params = 0"
  note run = assms(1)[unfolded isaprobe_kernel_run_def option.case bad_def[symmetric] Let_def]
  define k where "k = kernels ! unat kernel_id"
  show thesis
  proof (cases "bad \<or> sizes_differ params (k_op k) (snd in0) (snd in1) dstLen")
    case True
    then show thesis using that[of ctx] run assms(2) by (cases bad) (auto simp: k_def)
  next
    case nb: False
    then have k: "k \<in> set kernels" by (simp add: bad_def k_def)
    obtain e c g1 h1 where s: "probe_setup E ctx g h = (e, c, g1, h1)" by (cases "probe_setup E ctx g h")
    note ok = setup_ok[OF s assms(2)]
    show thesis
    proof (cases "e = 0")
      case False
      then show thesis using that[of c] run ok(1,2) nb by (auto simp: s k_def)
    next
      case True
      obtain w f0 k0 where b0: "copy_input E (fst in0) (snd in0) False h1 = (w, f0, k0)" by (cases "copy_input E (fst in0) (snd in0) False h1")
      obtain x f1 k1 where b1: "copy_input E (fst in1) (snd in1) f0 k0 = (x, f1, k1)" by (cases "copy_input E (fst in1) (snd in1) f0 k0")
      obtain b2 k2 where b2: "alloc_output E dstLen k1 = (b2, k2)" by (cases "alloc_output E dstLen k1")
      let ?fn = "kernel_call_fn E k (problem_of params w x c) (kp_iters params)"
      obtain r rs t g3 k3 where w: "(if f1 \<or> b2 = 0 then (AEE_ENOMEMORY, None, None, g1, k2)
          else case run_guarded E c ?fn (0, 0) dst dstLen g1 k2 of (result, res, mins, g, h) \<Rightarrow> (result, res, Some mins, g, h)) = (r, rs, t, g3, k3)"
        by (metis prod_cases5)
      have m3: "moved E s s k2 k3" for s
        using w run_guarded_keeps[OF _ kernels[OF k], of c "problem_of params w x c" "kp_iters params" "(0, 0)" dst dstLen g1 k2]
        by (auto split: if_splits prod.splits)
      define u where "u = with_mem b2 (with_mem (fst x) (with_mem (fst w) (held c)))"
      have "moved E (held ctx) u h k3"
        unfolding u_def
        by (rule moved_trans[OF moved_trans[OF moved_trans[OF moved_trans[OF ok(1)
          copy_input_moved(1)[OF b0]] copy_input_moved(1)[OF b1]] alloc_output_moved[OF b2]] m3])
      also have "u = with_mem (fst w) (with_mem (fst x) (with_mem b2 (held c)))"
        by (simp add: u_def with_mem_def ac_simps)
      finally have m: "moved E (held ctx) (held c) h (free E b2 (free E (fst x) (free E (fst w) k3)))"
        by (intro free_moved)
      have "ctx' = Some c \<and> h' = free E b2 (free E (fst x) (free E (fst w) k3))"
        using run nb[unfolded k_def] True by (simp add: s b0 b1 b2 w[unfolded k_def])
      then show thesis using that[of c] ok(2) m by simp
    qed
  qed
qed

subsection \<open>The VTCM of the lab functions\<close>

text \<open>The VTCM pointer of the lab functions is \<open>NULL\<close>, or it is the one of the handle.\<close>

definition vtcm_ok :: "probe_ctx \<Rightarrow> lab_vtcm \<Rightarrow> bool" where
  "vtcm_ok ctx g \<longleftrightarrow> g_vtcm_base g = 0 \<or> p_rctx ctx \<noteq> 0 \<and> g_vtcm_base g = p_vtcm_base ctx"

text \<open>A work that does not change the base and the size of the VTCM, such as a kernel that uses \<open>lab_vtcm_alloc\<close>.\<close>

definition vtcm_fixed :: "'r work \<Rightarrow> bool" where
  "vtcm_fixed fn \<longleftrightarrow> (\<forall>out g h. g_vtcm_base (fst (snd (snd (snd (fn out g h))))) = g_vtcm_base g)"

lemma run_guarded_vtcm:
  assumes "run_guarded E ctx fn none dst n g h = (result, res, x, g', h')" "vtcm_fixed fn"
  shows "g_vtcm_base g' = g_vtcm_base g"
proof -
  let ?out = "replicate (unat n) 0 @ replicate (unat ISAPROBE_OUTPUT_GUARD) ISAPROBE_GUARD_BYTE"
    and ?g = "g\<lparr>g_vtcm_used := 0, g_vtcm_overflow := False\<rparr>"
  obtain r st rs o1 g1 h1 where t: "run_on_thread E ctx fn none ?out ?g h = (r, st, rs, o1, g1, h1)"
    by (cases "run_on_thread E ctx fn none ?out ?g h")
  have "g_vtcm_base g1 = g_vtcm_base ?g"
    using t
  proof (cases rule: run_on_thread_cases)
    case (ran h2 h3)
    show ?thesis
      using ran(1)
    proof (cases rule: probe_thread_cases)
      case (work h4 h5)
      then show ?thesis using assms(2) unfolding vtcm_fixed_def by (metis fst_conv snd_conv)
    qed simp_all
  qed simp
  moreover have "g' = g1" using assms(1) by (auto simp: run_guarded_def t Let_def split: if_splits)
  ultimately show ?thesis by simp
qed

lemma setup_vtcm:
  assumes "probe_setup E ctx g h = (err, ctx', g', h')" "ctx_ok ctx" "vtcm_ok ctx g"
  shows "vtcm_ok ctx' g'"
proof (cases "p_setup_done ctx")
  case False
  then have z: "ctx = ctx_zero" using assms(2) by (simp add: ctx_ok_def)
  then have g: "g_vtcm_base g = 0" using assms(3) by (simp add: vtcm_ok_def ctx_zero_def)
  then show ?thesis
    using assms(1) False
    by (auto simp: probe_setup_def setup_resources_def case_prod_beta Let_def vtcm_ok_def split: if_splits)
qed (use assms in \<open>auto simp: probe_setup_def\<close>)


lemma with_mem_frame: "moved E s t h h' \<Longrightarrow> moved E (with_mem p s) (with_mem p t) h h'"
  by (simp add: moved_def with_mem_def changed_frame)

subsection \<open>The calls of a handle\<close>

datatype 's request = Req_info bool
  | Req_run isa_run_fn bool i32 input input input u32 i32 i32
  | Req_kernel "'s cand_kernel list" bool u32 kparams input input u32 i32

type_synonym served = "probe_ctx \<times> lab_vtcm \<times> hist"

fun serve :: "penv \<Rightarrow> isa_tables option \<Rightarrow> 's request \<Rightarrow> served \<Rightarrow> served" where
  "serve E tables (Req_info outs_ok) (ctx, g, h) =
     (let (_, _, ctx', g, h) = isaprobe_info E tables (Some ctx) outs_ok g h in (the ctx', g, h))"
| "serve E tables (Req_run isa_run status_ok op_id in0 in1 in2 dst dstLen n_vectors) (ctx, g, h) =
     (let (_, _, ctx', g, h) = isaprobe_run E isa_run (Some ctx) status_ok op_id in0 in1 in2 dst dstLen n_vectors g h in (the ctx', g, h))"
| "serve E tables (Req_kernel kernels args_ok kernel_id params in0 in1 dst dstLen) (ctx, g, h) =
     (let (_, _, _, ctx', g, h) = isaprobe_kernel_run E kernels (Some ctx) args_ok kernel_id params in0 in1 dst dstLen g h
      in (the ctx', g, h))"

text \<open>The code that is not in the repository: \<open>isa_run\<close> does not move the VTCM, and a kernel gives back its memory.\<close>

fun request_ok :: "penv \<Rightarrow> 's request \<Rightarrow> bool" where
  "request_ok E (Req_info outs_ok) \<longleftrightarrow> True"
| "request_ok E (Req_run isa_run status_ok op_id in0 in1 in2 dst dstLen n_vectors) \<longleftrightarrow>
     (\<forall>op ins n out g. g_vtcm_base (snd (snd (isa_run op ins n out g))) = g_vtcm_base g)"
| "request_ok E (Req_kernel kernels args_ok kernel_id params in0 in1 dst dstLen) \<longleftrightarrow>
     (\<forall>k\<in>set kernels. \<forall>p n. keeps E (kernel_call_fn E k p n))"

lemma isa_call_fixed: "(\<forall>op ins n out g. g_vtcm_base (snd (snd (isa_run op ins n out g))) = g_vtcm_base g) \<Longrightarrow>
    vtcm_fixed (isa_call_fn isa_run op_id ins n_vectors)"
  by (simp add: vtcm_fixed_def isa_call_fn_def case_prod_beta)

lemma kernel_call_fixed: "vtcm_fixed (kernel_call_fn E k p n)"
proof -
  have "fst (snd (snd (snd (kernel_call_fn E k p n out g h)))) = g" for out g h
    using kernel_call_vtcm[of E k p n out g h] by (metis prod.collapse)
  then show ?thesis by (simp add: vtcm_fixed_def)
qed

lemma run_vtcm:
  assumes "isaprobe_run E isa_run (Some ctx) status_ok op_id in0 in1 in2 dst dstLen n_vectors g h = (result, res, ctx', g', h')"
    "ctx_ok ctx" "vtcm_ok ctx g" "\<forall>op ins n out g. g_vtcm_base (snd (snd (isa_run op ins n out g))) = g_vtcm_base g"
  shows "vtcm_ok (the ctx') g'"
  using assms(1)
proof (cases rule: isaprobe_run_cases)
  case (failed c)
  then show ?thesis using setup_vtcm[OF failed(1) assms(2,3)] by simp
next
  case (ran c g1 h1 b0 f0 k0 b1 f1 k1 b2 f2 k2 b3 k3 k4)
  have "g_vtcm_base g' = g_vtcm_base g1"
    using ran(6) run_guarded_vtcm[OF _ isa_call_fixed[OF assms(4)]] by (auto split: if_splits)
  then show ?thesis using setup_vtcm[OF ran(1) assms(2,3)] ran(7) by (simp add: vtcm_ok_def)
qed (use assms(3) in simp)

lemma kernel_vtcm:
  assumes "isaprobe_kernel_run E kernels (Some ctx) args_ok kernel_id params in0 in1 dst dstLen g h = (result, res, ts, ctx', g', h')"
    "ctx_ok ctx" "vtcm_ok ctx g"
  shows "vtcm_ok (the ctx') g'"
proof -
  obtain e c g1 h1 where s: "probe_setup E ctx g h = (e, c, g1, h1)" by (cases "probe_setup E ctx g h")
  have v: "vtcm_ok c g1" by (rule setup_vtcm[OF s assms(2,3)])
  have keep: "vtcm_ok c g2" if "run_guarded E c (kernel_call_fn E k p n) (0, 0) dst dstLen g1 h2 = (r, rs, u, g2, h3)"
    for k :: "'s cand_kernel" and p n h2 r rs u g2 h3
    using v run_guarded_vtcm[OF that kernel_call_fixed] by (simp add: vtcm_ok_def)
  show ?thesis
    using assms(1,3) v keep
    by (auto simp: isaprobe_kernel_run_def s Let_def split: if_splits prod.splits)
qed

lemma serve_keeps:
  assumes "serve E tables req (ctx, g, h) = (ctx', g', h')" "request_ok E req" "ctx_ok ctx" "vtcm_ok ctx g"
  shows "ctx_ok ctx' \<and> vtcm_ok ctx' g' \<and> moved E (held ctx) (held ctx') h h'"
proof (cases req)
  case (Req_info outs_ok)
  show ?thesis
  proof (cases outs_ok)
    case True
    obtain e c g1 h1 where s: "probe_setup E ctx g h = (e, c, g1, h1)" by (cases "probe_setup E ctx g h")
    note ok = setup_ok[OF s assms(3)] setup_vtcm[OF s assms(3,4)]
    show ?thesis
      using assms(1) True ok(1,2,7) by (auto simp: Req_info isaprobe_info_def s Let_def case_prod_beta split: if_splits)
  qed (use assms Req_info in \<open>auto simp: isaprobe_info_def\<close>)
next
  case (Req_run isa_run status_ok op_id in0 in1 in2 dst dstLen n_vectors)
  obtain r rs c2 g2 h2 where run: "isaprobe_run E isa_run (Some ctx) status_ok op_id in0 in1 in2 dst dstLen n_vectors g h = (r, rs, c2, g2, h2)"
    by (metis prod_cases5)
  obtain c' where "c2 = Some c'" "ctx_ok c'" "moved E (held ctx) (held c') h h2" by (rule isaprobe_run_moved[OF run assms(3)])
  moreover have "vtcm_ok (the c2) g2" using run_vtcm[OF run assms(3,4)] assms(2) Req_run by simp
  ultimately show ?thesis using assms(1) by (simp add: Req_run run)
next
  case (Req_kernel kernels args_ok kernel_id params in0 in1 dst dstLen)
  obtain r rs t c2 g2 h2 where run: "isaprobe_kernel_run E kernels (Some ctx) args_ok kernel_id params in0 in1 dst dstLen g h = (r, rs, t, c2, g2, h2)"
    by (metis prod_cases6)
  have k: "\<And>k p n. k \<in> set kernels \<Longrightarrow> keeps E (kernel_call_fn E k p n)" using assms(2) Req_kernel by simp
  obtain c' where "c2 = Some c'" "ctx_ok c'" "moved E (held ctx) (held c') h h2" by (rule kernel_run_moved[OF run assms(3) k])
  moreover have "vtcm_ok (the c2) g2" by (rule kernel_vtcm[OF run assms(3,4)])
  ultimately show ?thesis using assms(1) by (simp add: Req_kernel run)
qed

fun serve_all :: "penv \<Rightarrow> isa_tables option \<Rightarrow> 's request list \<Rightarrow> served \<Rightarrow> served" where
  "serve_all E tables [] s = s"
| "serve_all E tables (req # reqs) s = serve_all E tables reqs (serve E tables req s)"

lemma serve_all_keeps:
  assumes "\<forall>r\<in>set reqs. request_ok E r" "ctx_ok ctx" "vtcm_ok ctx g" "serve_all E tables reqs (ctx, g, h) = (ctx', g', h')"
  shows "ctx_ok ctx' \<and> vtcm_ok ctx' g' \<and> moved E (held ctx) (held ctx') h h'"
  using assms
proof (induction reqs arbitrary: ctx g h)
  case (Cons req reqs)
  obtain c1 g1 h1 where s: "serve E tables req (ctx, g, h) = (c1, g1, h1)" by (cases "serve E tables req (ctx, g, h)")
  have one: "ctx_ok c1 \<and> vtcm_ok c1 g1 \<and> moved E (held ctx) (held c1) h h1"
    by (rule serve_keeps[OF s]) (use Cons.prems in auto)
  then show ?case using Cons.IH[of c1 g1 h1] Cons.prems s moved_trans[of E "held ctx" "held c1" h h1] by auto
qed simp

lemma close_moved:
  assumes "isaprobe_close E (Some (p, ctx)) g h = (r, g', h')"
  shows "r = AEE_SUCCESS" "moved E (with_mem p (held ctx)) nothing h h'"
    "ctx_ok ctx \<Longrightarrow> vtcm_ok ctx g \<Longrightarrow> g_vtcm_base g' = 0"
proof -
  show "r = AEE_SUCCESS" using assms by (simp add: isaprobe_close_def case_prod_beta Let_def)
  define h1 where "h1 = (if p_rctx ctx \<noteq> 0 then snd (ask E (C_release (p_rctx ctx)) h) else h)"
  define h2 where "h2 = (if p_setup_done ctx then snd (ask E C_power_destroy h1) else h1)"
  have m: "moved E (with_mem p (held ctx)) (nothing\<lparr>h_mem := h_mem nothing + block p, h_res := h_res nothing + block (p_rctx ctx)\<rparr>) h h"
    by (simp add: with_mem_def held_def nothing_def)
  have "moved E (with_mem p (held ctx)) (with_mem p nothing) h h1"
  proof (cases "p_rctx ctx = 0")
    case True
    then show ?thesis by (simp add: h1_def held_def with_mem_def nothing_def block_def)
  next
    case False
    have "moved E (with_mem p (held ctx)) (with_mem p nothing) h (snd (ask E (C_release (p_rctx ctx)) h))"
      by (rule moved_release) (simp add: held_def with_mem_def nothing_def)
    then show ?thesis using False by (simp add: h1_def)
  qed
  then have "moved E (with_mem p (held ctx)) (with_mem p nothing) h h2" by (simp add: h2_def)
  then have "moved E (with_mem p (held ctx)) nothing h (free E p h2)" by (rule free_moved)
  moreover have "h' = free E p h2" using assms by (auto simp: isaprobe_close_def h1_def h2_def Let_def split: if_splits)
  ultimately show "moved E (with_mem p (held ctx)) nothing h h'" by simp
  show "ctx_ok ctx \<Longrightarrow> vtcm_ok ctx g \<Longrightarrow> g_vtcm_base g' = 0"
    using assms by (auto simp: isaprobe_close_def Let_def vtcm_ok_def split: if_splits)
qed

text \<open>C12. A session with the DSP library of the ISA probe: \<open>isaprobe_open\<close>, each sequence of calls of \<open>info\<close>, \<open>run\<close> and
  \<open>kernel_run\<close>, and \<open>isaprobe_close\<close>. In each environment, also when allocations, votes, locks, threads or the
  resource manager fail, the session gives back each memory block, each resource context, and each lock of the HVX and the
  HMX that it got, and the lab functions hold no pointer into the VTCM after it. The hypotheses are about the code that is
  not in the repository: \<open>isa_run\<close> does not move the VTCM, and each kernel keeps its contract.\<close>

theorem probe_session_releases:
  assumes "isaprobe_open E h = (AEE_SUCCESS, Some (p, ctx), h1)" "g_vtcm_base g = 0" "\<forall>r\<in>set reqs. request_ok E r"
    "serve_all E tables reqs (ctx, g, h1) = (ctx', g', h2)" "isaprobe_close E (Some (p, ctx')) g' h2 = (result, g'', h3)"
  shows "result = AEE_SUCCESS \<and> moved E nothing nothing h h3 \<and> g_vtcm_base g'' = 0 \<and> ctx_ok ctx'"
proof -
  have ctx: "ctx = ctx_zero" "p = re_ptr (ans E h C_calloc)" "h1 = snd (ask E C_calloc h)"
    using assms(1) by (auto simp: isaprobe_open_def case_prod_beta Let_def AEE_SUCCESS_def AEE_ENOMEMORY_def split: if_splits)
  have z: "held ctx = nothing" by (simp add: ctx(1) held_def ctx_zero_def nothing_def block_def)
  have "vtcm_ok ctx g" using assms(2) by (simp add: vtcm_ok_def)
  then have s: "ctx_ok ctx' \<and> vtcm_ok ctx' g' \<and> moved E (held ctx) (held ctx') h1 h2"
    using serve_all_keeps[OF assms(3) _ _ assms(4)] ctx_zero_ok ctx(1) by simp
  have "moved E nothing (with_mem p nothing) h h1"
    unfolding ctx(2,3) by (rule moved_add[of E nothing nothing h h]) (simp_all add: changed_ask with_mem_def nothing_def)
  moreover have "moved E (with_mem p nothing) (with_mem p (held ctx')) h1 h2"
    using s unfolding z by (blast intro: with_mem_frame)
  ultimately have "moved E nothing (with_mem p (held ctx')) h h2" by (rule moved_trans)
  then have "moved E nothing nothing h h3" using close_moved(2)[OF assms(5)] by (rule moved_trans)
  then show ?thesis using s close_moved(1,3)[OF assms(5)] by blast
qed

text \<open>A DSP on which each call succeeds, and a session with two calls.\<close>

definition ready_env :: penv where
  "ready_env = \<lparr>ans = (\<lambda>h c. \<lparr>re_err = 0, re_ptr = 4096, re_size = 1024, re_time = 0\<rparr>), HVX_ARCH = 79, hvx_lock_linked = True,
     arch_linked = True, QURT_EOK = 0, QURT_ENOTHREAD = 1, AEE_ENORESOURCE = 2, AEE_EBUFFERTOOSMALL = 3, us_of_ticks = (\<lambda>t. t)\<rparr>"

definition no_vtcm :: lab_vtcm where
  "no_vtcm = \<lparr>g_vtcm_base = 0, g_vtcm_size = 0, g_vtcm_used = 0, g_vtcm_overflow = False\<rparr>"

definition two_requests :: "unit request list" where
  "two_requests = [Req_info True, Req_run (\<lambda>op ins n out g. (0, out, g)) True 3 (\<lambda>i. 7, 128) (\<lambda>i. 0, 0) (\<lambda>i. 0, 0) 8192 128 1]"

lemma probe_session_releases_witness:
  "case serve_all ready_env None two_requests (ctx_zero, no_vtcm, snd (ask ready_env C_calloc [])) of (ctx', g', h2) \<Rightarrow>
   case isaprobe_close ready_env (Some (4096, ctx')) g' h2 of (result, g'', h3) \<Rightarrow>
     result = AEE_SUCCESS \<and> moved ready_env nothing nothing [] h3 \<and> g_vtcm_base g'' = 0"
proof -
  obtain ctx' g' h2 where s: "serve_all ready_env None two_requests (ctx_zero, no_vtcm, snd (ask ready_env C_calloc [])) = (ctx', g', h2)"
    by (metis prod_cases3)
  obtain r g'' h3 where c: "isaprobe_close ready_env (Some (4096, ctx')) g' h2 = (r, g'', h3)" by (metis prod_cases3)
  have "isaprobe_open ready_env [] = (AEE_SUCCESS, Some (4096, ctx_zero), snd (ask ready_env C_calloc []))"
    by (simp add: isaprobe_open_def ask_def ready_env_def Let_def)
  moreover have "\<forall>r\<in>set two_requests. request_ok ready_env r" by (simp add: two_requests_def)
  ultimately show ?thesis
    using probe_session_releases[of ready_env "[]" 4096 ctx_zero _ no_vtcm two_requests None ctx' g' h2 r g'' h3] s c
    by (simp add: no_vtcm_def)
qed

end
