(* ===== verification/IsaprobeResult.thy ===== *)
theory IsaprobeResult
  imports IsaprobeSession
begin

text \<open>
  The results of the DSP library of the ISA probe: what the work gets, what the host gets back, and the blocks that
  \<open>lab_vtcm_alloc\<close> gives to a kernel.
\<close>

subsection \<open>Rounding up\<close>

lemma and_predecessor_power: "0 < n \<Longrightarrow> n AND (n - 1) = 0 \<Longrightarrow> \<exists>k. n = 2 ^ k" for n :: nat
proof (induction n rule: less_induct)
  case (less n)
  show ?case
  proof (cases "even n")
    case True
    then obtain m where m: "n = 2 * m" by (elim evenE)
    then have pos: "0 < m" using less.prems(1) by simp
    then obtain j where j: "m = Suc j" by (cases m) auto
    have "(2 * m) AND (2 * j + 1) = 2 * (m AND j)" by (subst and_rec) simp
    moreover have "n - 1 = 2 * j + 1" using m j by simp
    ultimately have "m AND (m - 1) = 0" using less.prems(2) m j by simp
    then obtain k where "m = 2 ^ k" using less.IH[of m] m pos by auto
    then show ?thesis using m by (intro exI[of _ "Suc k"]) simp
  next
    case False
    then obtain m where m: "n = 2 * m + 1" by (elim oddE)
    have "(2 * m + 1) AND (2 * m) = 2 * m" by (subst and_rec) simp
    then have "m = 0" using less.prems(2) m by simp
    then show ?thesis using m by (intro exI[of _ 0]) simp
  qed
qed


lemma unat_pow32: "k < 32 \<Longrightarrow> unat (2 ^ k :: u32) = 2 ^ k"
proof -
  assume "k < 32"
  then have "(2::nat) ^ k < 2 ^ 32" by (rule power_strict_increasing) simp
  then show ?thesis using unat_of_nat_less[of "2 ^ k", where 'a = 32] by simp
qed

lemma align_power: "align \<noteq> 0 \<Longrightarrow> align AND (align - 1) = 0 \<Longrightarrow> \<exists>k<32. align = (2 ^ k :: u32)"
proof -
  assume a: "align \<noteq> 0" "align AND (align - 1) = 0"
  then have "unat align AND (unat align - 1) = 0"
    by (metis unat_minus_one unsigned_0 unsigned_and_eq)
  moreover have "0 < unat align" using a(1) by (simp add: unat_gt_0)
  ultimately obtain k where k: "unat align = 2 ^ k" using and_predecessor_power by blast
  have "(2::nat) ^ k < 2 ^ 32" using unat_lt2p[of align] by (simp add: k[symmetric])
  then have "k < 32" by (rule power_less_imp_less_exp[rotated]) simp
  moreover have "align = 2 ^ k" by (rule word_unat_eq_iff[THEN iffD2]) (simp add: k unat_pow32 \<open>k < 32\<close>)
  ultimately show ?thesis by blast
qed

lemma round_up_power:
  assumes "k < 32" "unat n + 2 ^ k \<le> 2 ^ 32"
  shows "unat (round_up n (2 ^ k)) = (unat n + (2 ^ k - 1)) div 2 ^ k * 2 ^ k"
proof -
  have p: "unat (2 ^ k :: u32) = 2 ^ k" using assms(1) by (rule unat_pow32)
  have eq: "n + 2 ^ k - 1 = n + (2 ^ k - 1)" by (rule add_diff_eq[symmetric])
  have s: "unat (n + (2 ^ k - 1)) = unat n + (2 ^ k - 1)"
  proof -
    have "(2 ^ k :: u32) \<noteq> 0" using p by (metis power_not_zero unsigned_0 zero_neq_numeral)
    then have "unat (2 ^ k - 1 :: u32) = 2 ^ k - 1" using p by (simp add: unat_minus_one)
    moreover have "unat n + (2 ^ k - 1) < 2 ^ 32" using assms(2) by (metis Nat.add_diff_assoc One_nat_def Suc_le_lessD Suc_pred' add_gr_0 one_le_numeral one_le_power zero_less_numeral zero_less_power)
    ultimately show ?thesis by (subst unat_add_lem[THEN iffD1]) simp_all
  qed
  have "x AND NOT (2 ^ k - 1) = push_bit k (drop_bit k x)" for x :: u32
    by (rule bit_eqI) (auto simp: bit_simps mask_eq_exp_minus_1[symmetric])
  then have "round_up n (2 ^ k) = push_bit k (drop_bit k (n + (2 ^ k - 1)))" unfolding round_up_def eq .
  then have "unat (round_up n (2 ^ k)) = take_bit LENGTH(32) (push_bit k (drop_bit k (unat n + (2 ^ k - 1))))"
    by (simp only: unsigned_push_bit_eq unat_drop_bit_eq s)
  moreover have "push_bit k (drop_bit k (unat n + (2 ^ k - 1))) = (unat n + (2 ^ k - 1)) div 2 ^ k * 2 ^ k"
    by (simp only: push_bit_eq_mult drop_bit_eq_div)
  moreover have "(unat n + (2 ^ k - 1)) div 2 ^ k * 2 ^ k < 2 ^ 32"
    using s unat_lt2p[of "n + (2 ^ k - 1)"] by (intro le_less_trans[OF div_times_less_eq_dividend]) simp
  ultimately show ?thesis by (simp only: take_bit_nat_eq_self_iff len_num1 len_bit0 len_bit1) (simp add: take_bit_nat_eq_self)
qed

subsection \<open>The blocks of the VTCM\<close>

definition up_to :: "nat \<Rightarrow> nat \<Rightarrow> nat" where "up_to n a = (n + (a - 1)) div a * a"

lemma up_to_bounds: "0 < a \<Longrightarrow> n \<le> up_to n a" "a dvd up_to n a"
proof -
  assume a: "0 < a"
  have "(n + (a - 1)) div a * a = n + (a - 1) - (n + (a - 1)) mod a" by (rule minus_mod_eq_div_mult[symmetric])
  moreover have "(n + (a - 1)) mod a \<le> a - 1" using a by (simp add: less_Suc_eq_le[symmetric])
  ultimately show "n \<le> up_to n a" unfolding up_to_def by linarith
qed (simp add: up_to_def)

text \<open>A VTCM that lies in the 32 address bits and has at most 2 GB.\<close>

definition vtcm_wf :: "lab_vtcm \<Rightarrow> bool" where
  "vtcm_wf g \<longleftrightarrow> g_vtcm_base g \<noteq> 0 \<and> unat (g_vtcm_used g) \<le> unat (g_vtcm_size g) \<and> unat (g_vtcm_size g) \<le> 2 ^ 31 \<and>
     unat (g_vtcm_base g) + unat (g_vtcm_size g) \<le> 2 ^ 32"

lemma word_sub_le: "unat (b :: u32) \<le> unat a \<Longrightarrow> unat (a - b) = unat a - unat b"
  by (simp add: unat_sub word_le_nat_alt)

text \<open>One allocation.\<close>

lemma alloc_step:
  assumes "lab_vtcm_alloc bytes align g = (p, g')" "vtcm_wf g" "unat bytes \<noteq> 0"
  shows "p = 0 \<Longrightarrow> g' = g\<lparr>g_vtcm_overflow := True\<rparr>"
    "p \<noteq> 0 \<Longrightarrow> unat p = unat (g_vtcm_base g) + up_to (unat (g_vtcm_used g)) (unat align) \<and>
       unat (g_vtcm_used g') = up_to (unat (g_vtcm_used g)) (unat align) + unat bytes \<and>
       g' = g\<lparr>g_vtcm_used := g_vtcm_used g'\<rparr> \<and> vtcm_wf g'"
    "p \<noteq> 0 \<longleftrightarrow> (\<exists>k<32. unat align = 2 ^ k) \<and> up_to (unat (g_vtcm_used g)) (unat align) + unat bytes \<le> unat (g_vtcm_size g)"
proof -
  let ?off = "round_up (g_vtcm_used g) align" and ?u = "up_to (unat (g_vtcm_used g)) (unat align)"
  have wf: "g_vtcm_base g \<noteq> 0" "unat (g_vtcm_used g) \<le> unat (g_vtcm_size g)" "unat (g_vtcm_size g) \<le> 2 ^ 31"
    "unat (g_vtcm_base g) + unat (g_vtcm_size g) \<le> 2 ^ 32" using assms(2) by (auto simp: vtcm_wf_def)
  define good where "good \<longleftrightarrow> align \<noteq> 0 \<and> align AND (align - 1) = 0"
  have off: "unat ?off = ?u" if a: good
  proof -
    obtain k where k: "k < 32" "align = 2 ^ k" using align_power a by (auto simp: good_def)
    have "(2::nat) ^ k \<le> 2 ^ 31" using k(1) by (intro power_increasing) simp_all
    then have "unat (g_vtcm_used g) + 2 ^ k \<le> 2 ^ 32" using wf(2,3) by simp
    then show ?thesis using round_up_power[OF k(1)] k unat_pow32[OF k(1)] by (simp add: up_to_def)
  qed
  have goodk: "good \<longleftrightarrow> (\<exists>k<32. unat align = 2 ^ k)"
  proof
    show "good \<Longrightarrow> \<exists>k<32. unat align = 2 ^ k" using align_power unat_pow32 by (metis good_def)
    assume "\<exists>k<32. unat align = 2 ^ k"
    then obtain k where k: "k < 32" "unat align = 2 ^ k" by blast
    then have al: "align = 2 ^ k" using unat_pow32[OF k(1)] by (simp add: word_unat_eq_iff)
    moreover have "(2 ^ k :: u32) \<noteq> 0" using unat_pow32[OF k(1)] by (metis power_not_zero unsigned_0 zero_neq_numeral)
    moreover have "(2 ^ k :: u32) AND (2 ^ k - 1) = 0"
      by (rule bit_eqI) (auto simp: bit_and_iff bit_exp_iff bit_mask_iff mask_eq_exp_minus_1[symmetric])
    ultimately show good by (simp add: good_def)
  qed
  have fits: "\<not> (?off > g_vtcm_size g \<or> bytes > g_vtcm_size g - ?off) \<longleftrightarrow> ?u + unat bytes \<le> unat (g_vtcm_size g)" if a: good
  proof (cases "?u \<le> unat (g_vtcm_size g)")
    case True
    then have "unat (g_vtcm_size g - ?off) = unat (g_vtcm_size g) - ?u" using word_sub_le off[OF a] by simp
    then show ?thesis using True off[OF a] by (auto simp: word_less_nat_alt)
  qed (use off[OF a] in \<open>auto simp: word_less_nat_alt\<close>)
  have ok: "unat (g_vtcm_base g + ?off) = unat (g_vtcm_base g) + ?u \<and> unat (?off + bytes) = ?u + unat bytes \<and> g_vtcm_base g + ?off \<noteq> 0"
    if a: good and f: "?u + unat bytes \<le> unat (g_vtcm_size g)"
  proof -
    have "unat (g_vtcm_base g) + ?u < 2 ^ 32" "?u + unat bytes < 2 ^ 32" using f wf(3,4) assms(3) by simp_all
    then have s: "unat (g_vtcm_base g + ?off) = unat (g_vtcm_base g) + ?u" "unat (?off + bytes) = ?u + unat bytes"
      using off[OF a] by (subst unat_add_lem[THEN iffD1]; simp)+
    moreover have "0 < unat (g_vtcm_base g)" using wf(1) by (simp add: unat_gt_0)
    ultimately show ?thesis by (metis add_gr_0 less_numeral_extra(3) unsigned_0)
  qed
  have alloc: "lab_vtcm_alloc bytes align g = (if good \<and> ?u + unat bytes \<le> unat (g_vtcm_size g)
      then (g_vtcm_base g + ?off, g\<lparr>g_vtcm_used := ?off + bytes\<rparr>) else (0, g\<lparr>g_vtcm_overflow := True\<rparr>))"
    using fits wf(1) by (auto simp: lab_vtcm_alloc_def good_def Let_def)
  show "p = 0 \<Longrightarrow> g' = g\<lparr>g_vtcm_overflow := True\<rparr>"
    "p \<noteq> 0 \<Longrightarrow> unat p = unat (g_vtcm_base g) + ?u \<and> unat (g_vtcm_used g') = ?u + unat bytes \<and>
       g' = g\<lparr>g_vtcm_used := g_vtcm_used g'\<rparr> \<and> vtcm_wf g'"
    "p \<noteq> 0 \<longleftrightarrow> (\<exists>k<32. unat align = 2 ^ k) \<and> ?u + unat bytes \<le> unat (g_vtcm_size g)"
    using assms(1,2) ok unfolding alloc goodk[symmetric] by (auto simp: vtcm_wf_def split: if_splits)
qed

text \<open>The blocks of a sequence of requests, each with its size.\<close>

fun alloc_all :: "(u32 \<times> u32) list \<Rightarrow> lab_vtcm \<Rightarrow> (nat \<times> nat) option list \<times> lab_vtcm" where
  "alloc_all [] g = ([], g)"
| "alloc_all ((bytes, align) # reqs) g = (let (p, g) = lab_vtcm_alloc bytes align g; (ps, g) = alloc_all reqs g
     in ((if p = 0 then None else Some (unat p, unat bytes)) # ps, g))"

definition blocks :: "(nat \<times> nat) option list \<Rightarrow> (nat \<times> nat) list" where
  "blocks ps = List.map_filter (\<lambda>b. b) ps"

lemma blocks_simps [simp]: "blocks [] = []" "blocks (None # ps) = blocks ps" "blocks (Some b # ps) = b # blocks ps"
  by (simp_all add: blocks_def List.map_filter_def)

text \<open>The blocks that \<open>lab_vtcm_alloc\<close> gives lie in the VTCM, one after the other without an overlap, and each offset is a
  multiple of its alignment; the allocator tells a request that does not fit, or whose alignment is not a power of two, with
  \<open>NULL\<close> and the overflow flag, and such a request takes no space.\<close>

theorem lab_vtcm_blocks:
  assumes "alloc_all reqs g = (ps, g')" "vtcm_wf g" "\<forall>r\<in>set reqs. unat (fst r) \<noteq> 0"
  shows "sorted_wrt (\<lambda>(p, n) (q, m). p + n \<le> q) (blocks ps) \<and>
    (\<forall>(p, n)\<in>set (blocks ps). unat (g_vtcm_base g) + unat (g_vtcm_used g) \<le> p \<and> p + n \<le> unat (g_vtcm_base g) + unat (g_vtcm_used g')) \<and>
    list_all2 (\<lambda>(bytes, align) b. \<forall>x\<in>set_option b. snd x = unat bytes \<and> unat align dvd fst x - unat (g_vtcm_base g)) reqs ps \<and>
    g_vtcm_overflow g' = (g_vtcm_overflow g \<or> None \<in> set ps) \<and> vtcm_wf g' \<and> unat (g_vtcm_used g) \<le> unat (g_vtcm_used g') \<and>
    g_vtcm_base g' = g_vtcm_base g"
  using assms
proof (induction reqs arbitrary: g ps)
  case (Cons req reqs)
  obtain bytes align where req: "req = (bytes, align)" by (cases req)
  obtain p g1 where a: "lab_vtcm_alloc bytes align g = (p, g1)" by (cases "lab_vtcm_alloc bytes align g")
  obtain qs where r: "alloc_all reqs g1 = (qs, g')" "ps = (if p = 0 then None else Some (unat p, unat bytes)) # qs"
    using Cons.prems(1) by (auto simp: req a Let_def split: prod.splits)
  have nz: "unat bytes \<noteq> 0" using Cons.prems(3) by (simp add: req)
  note step = alloc_step[OF a Cons.prems(2) nz]
  show ?case
  proof (cases "p = 0")
    case True
    then have g1: "g1 = g\<lparr>g_vtcm_overflow := True\<rparr>" by (rule step(1))
    have "vtcm_wf g1" using Cons.prems(2) by (simp add: g1 vtcm_wf_def)
    from Cons.IH[OF r(1) this] Cons.prems(3) show ?thesis
      using True by (auto simp: g1 req r(2) blocks_def List.map_filter_def)
  next
    case False
    have al: "0 < unat align" "unat align dvd up_to (unat (g_vtcm_used g)) (unat align)" using step(3) False up_to_bounds(2) by auto
    note s = step(2)[OF False]
    have e: "g1 = g\<lparr>g_vtcm_used := g_vtcm_used g1\<rparr>" using s by blast
    have g1: "g_vtcm_base g1 = g_vtcm_base g" "g_vtcm_overflow g1 = g_vtcm_overflow g" by (subst e, simp)+
    have u: "unat (g_vtcm_used g) \<le> up_to (unat (g_vtcm_used g)) (unat align)" by (rule up_to_bounds(1)[OF al(1)])
    have ih: "sorted_wrt (\<lambda>(p, n) (q, m). p + n \<le> q) (blocks qs)"
      "\<forall>(p, n)\<in>set (blocks qs). unat (g_vtcm_base g) + unat (g_vtcm_used g1) \<le> p \<and> p + n \<le> unat (g_vtcm_base g) + unat (g_vtcm_used g')"
      "list_all2 (\<lambda>(bytes, align) b. \<forall>x\<in>set_option b. snd x = unat bytes \<and> unat align dvd fst x - unat (g_vtcm_base g)) reqs qs"
      "g_vtcm_overflow g' = (g_vtcm_overflow g \<or> None \<in> set qs)" "vtcm_wf g'" "unat (g_vtcm_used g1) \<le> unat (g_vtcm_used g')"
      "g_vtcm_base g' = g_vtcm_base g"
      using Cons.IH[OF r(1)] s Cons.prems(3) unfolding g1 by auto
    have ps: "ps = Some (unat p, unat bytes) # qs" using r(2) False by simp
    have p: "unat p = unat (g_vtcm_base g) + up_to (unat (g_vtcm_used g)) (unat align)"
      "unat (g_vtcm_used g1) = up_to (unat (g_vtcm_used g)) (unat align) + unat bytes" using s by blast+
    have top: "unat p + unat bytes = unat (g_vtcm_base g) + unat (g_vtcm_used g1)" using p by simp
    have "sorted_wrt (\<lambda>(p, n) (q, m). p + n \<le> q) (blocks ps)" using ih(1,2) top by (auto simp: ps)
    moreover have "\<forall>(p, n)\<in>set (blocks ps). unat (g_vtcm_base g) + unat (g_vtcm_used g) \<le> p \<and> p + n \<le> unat (g_vtcm_base g) + unat (g_vtcm_used g')"
      using ih(2,6) p u by (auto simp: ps)
    moreover have "unat align dvd unat p - unat (g_vtcm_base g)" using p al by simp
    ultimately show ?thesis using ih(3-7) p u by (simp add: ps req)
  qed
qed simp

text \<open>Three requests on a VTCM of 4096 bytes: the second one does not fit after its alignment.\<close>

definition small_vtcm :: lab_vtcm where
  "small_vtcm = \<lparr>g_vtcm_base = 65536, g_vtcm_size = 4096, g_vtcm_used = 0, g_vtcm_overflow = False\<rparr>"

lemma lab_vtcm_blocks_witness:
  "case alloc_all [(100, 128), (4000, 2048), (256, 256)] small_vtcm of (ps, g') \<Rightarrow>
     ps = [Some (65536, 100), None, Some (65792, 256)] \<and> sorted_wrt (\<lambda>(p, n) (q, m). p + n \<le> q) (blocks ps) \<and> g_vtcm_overflow g'"
proof -
  have a: "alloc_all [(100, 128), (4000, 2048), (256, 256)] small_vtcm
      = ([Some (65536, 100), None, Some (65792, 256)], small_vtcm\<lparr>g_vtcm_used := 512, g_vtcm_overflow := True\<rparr>)"
    by (simp add: lab_vtcm_alloc_def round_up_def small_vtcm_def)
  then show ?thesis
    using lab_vtcm_blocks[OF a] by (simp add: vtcm_wf_def small_vtcm_def)
qed

subsection \<open>The result of a census op\<close>

text \<open>An input as the kernel sees it: \<open>NULL\<close> when it is empty, else its bytes and at least 16 KB of zeros.\<close>

definition padded :: "input \<Rightarrow> u8 list option" where
  "padded i = (if unat (snd i) = 0 then None
     else Some (map (fst i) [0..<unat (snd i)] @ replicate (up_to (unat (snd i)) 128 - unat (snd i) + 16384) 0))"

lemma sint_nonneg: "0 \<le> sint (n :: u32) \<Longrightarrow> sint n = int (unat n) \<and> unat n < 2 ^ 31"
proof -
  assume n: "0 \<le> sint n"
  have lt: "sint n < 2 ^ 31" using sint_lt[of n] by simp
  have "uint n = uint (word_of_int (sint n) :: u32)" by simp
  also have "\<dots> = sint n mod 2 ^ 32" by (simp only: uint_word_of_int len_num1 len_bit0) simp
  finally have "uint n = sint n" using n lt by simp
  then show ?thesis using lt by (metis nat_int nat_less_numeral_power_cancel_iff uint_nat unat_eq_nat_uint)
qed

lemma copy_input_padded:
  assumes "copy_input E (fst i) (snd i) fail h = (b, False, h')" "0 \<le> sint (snd i)"
  shows "input_of b = padded i"
proof -
  note n = sint_nonneg[OF assms(2)]
  have z: "sint (snd i) \<le> 0 \<longleftrightarrow> unat (snd i) = 0" using n by linarith
  have r: "unat (round_up (snd i) 128) = up_to (unat (snd i)) 128"
    using round_up_power[of 7 "snd i"] n by (simp add: up_to_def)
  have u: "unat (snd i) \<le> up_to (unat (snd i)) 128" "up_to (unat (snd i)) 128 \<le> unat (snd i) + 127"
    using up_to_bounds(1)[of 128 "unat (snd i)"] div_times_less_eq_dividend[of "unat (snd i) + 127" 128] by (auto simp: up_to_def)
  have d: "unat (round_up (snd i) 128 - snd i) = up_to (unat (snd i)) 128 - unat (snd i)" using word_sub_le[of "snd i" "round_up (snd i) 128"] r u by simp
  have "unat (round_up (snd i) 128 - snd i + 16384) = up_to (unat (snd i)) 128 - unat (snd i) + 16384"
    using d u by (subst unat_add_lem[THEN iffD1]) simp_all
  then show ?thesis
    using assms(1) unfolding copy_input_def z
    by (auto simp: Let_def case_prod_beta input_of_def padded_def ISAPROBE_ALIGN_def ISAPROBE_INPUT_TAIL_def split: if_splits)
qed

text \<open>The output buffer at the start of the work.\<close>

definition fresh_output :: "nat \<Rightarrow> u8 list" where
  "fresh_output n = replicate n 0 @ replicate 16384 0xA5"

lemma run_guarded_result:
  assumes "run_guarded E ctx fn none dst n g h = (AEE_SUCCESS, res, x, g', h')"
  obtains (locked) st where "st \<in> {ISAPROBE_STATUS_HVX_LOCK, ISAPROBE_STATUS_HMX_LOCK}" "res = Some (st, replicate (unat n) 0)" "x = none"
  | (work) g0 h0 st out h1 where "fn (fresh_output (unat n)) g0 h0 = (st, x, out, g', h1)" "g_vtcm_used g0 = 0" "\<not> g_vtcm_overflow g0"
      "res = Some (guarded_status st out (unat n) g', take (unat n) out)"
proof -
  let ?g = "g\<lparr>g_vtcm_used := 0, g_vtcm_overflow := False\<rparr>"
  have f: "replicate (unat n) 0 @ replicate (unat ISAPROBE_OUTPUT_GUARD) ISAPROBE_GUARD_BYTE = fresh_output (unat n)"
    by (simp add: fresh_output_def ISAPROBE_OUTPUT_GUARD_def ISAPROBE_GUARD_BYTE_def)
  obtain r st rs out g1 h1 where t: "run_on_thread E ctx fn none (fresh_output (unat n)) ?g h = (r, st, rs, out, g1, h1)"
    by (cases "run_on_thread E ctx fn none (fresh_output (unat n)) ?g h")
  have e: "r = AEE_SUCCESS" "res = Some (guarded_status st out (unat n) g1, take (unat n) out)" "x = rs" "g' = g1"
    using assms by (auto simp: run_guarded_def f t Let_def split: if_splits)
  show thesis
    using t
  proof (cases rule: run_on_thread_cases)
    case failed
    then show thesis using e(1) by (auto simp: aee_codes)
  next
    case (ran h2 h3)
    show thesis
      using ran(1)
    proof (cases rule: probe_thread_cases)
      case hvx
      then show thesis using locked e by (simp add: guarded_status_def fresh_output_def)
    next
      case hmx
      then show thesis using locked e by (simp add: guarded_status_def fresh_output_def)
    next
      case (work h4 h5)
      then show thesis using that(2)[of ?g h4 st out h5] e by simp
    qed
  qed
qed


text \<open>A copy of 128 bytes on a DSP on which each call succeeds.\<close>

definition copy_op :: isa_run_fn where
  "copy_op op ins n out g = (0, (case ins ! 0 of Some i \<Rightarrow> take 128 i | None \<Rightarrow> []) @ drop 128 out, g)"

definition copy_call :: "aee \<times> (u32 \<times> u8 list) option \<times> probe_ctx option \<times> lab_vtcm \<times> hist" where
  "copy_call = isaprobe_run ready_env copy_op (Some ctx_zero) True 3 (\<lambda>i. 7, 128) (\<lambda>i. 0, 0) (\<lambda>i. 0, 0) 8192 128 1 no_vtcm []"

lemma copy_call_setup:
  "probe_setup ready_env ctx_zero no_vtcm [] = (0, ctx, g, h) \<Longrightarrow> p_hmx_held ctx" "fst (probe_setup ready_env ctx_zero no_vtcm []) = 0"
  by (auto simp: probe_setup_def setup_power_def setup_resources_def acquire_any_def acquire_hmx_def acquire_vtcm_def ask_def
      ready_env_def ctx_zero_def Let_def split: if_splits prod.splits)

lemma ready_ans [simp]: "ask ready_env c h = (\<lparr>re_err = 0, re_ptr = 4096, re_size = 1024, re_time = 0\<rparr>,
    h @ [(c, \<lparr>re_err = 0, re_ptr = 4096, re_size = 1024, re_time = 0\<rparr>)])" "QURT_EOK ready_env = 0"
  by (simp_all add: ask_def ready_env_def)

lemma copy_call_succeeds: "fst copy_call = AEE_SUCCESS"
proof -
  obtain e c g h where s: "probe_setup ready_env ctx_zero no_vtcm [] = (e, c, g, h)" by (cases "probe_setup ready_env ctx_zero no_vtcm []")
  then have e: "e = 0" using copy_call_setup(2) by simp
  have "fst (run_guarded ready_env c fn none dst n g1 h1) = AEE_SUCCESS" for fn :: "unit work" and none dst n g1 h1
    by (auto simp: run_guarded_def run_on_thread_def Let_def case_prod_beta aee_codes)
  then show ?thesis
    by (simp add: copy_call_def isaprobe_run_def s e copy_input_def alloc_output_def Let_def case_prod_beta)
qed


end
