(* ===== verification/Q8Ref.thy ===== *)
theory Q8Ref
  imports Oracle IsaprobeRun
begin

text \<open>
  The scalar reference of the Q8_0 matrix-vector product, \<open>tools/htp-lab/probe/q8_0_ref.c\<close>, and the table of the candidate
  kernels of the DSP library, \<open>probe/dsp/candidates.c\<close>. The code is compiled without fused operations and without fast
  math, thus each operation of \<open>float\<close> is the one of \<open>SoftFloat\<close>, rounded one time.
\<close>

subsection \<open>Operations of float\<close>

text \<open>The environment of the C code: the patterns of a NaN result, and the result of a conversion from \<open>float\<close> to
  \<open>int8_t\<close> that C does not define.\<close>

record q8_env = fenv +
  i8_undefined :: "u32 \<Rightarrow> u8"

definition f_div :: "('a fenv_scheme) \<Rightarrow> u32 \<Rightarrow> u32 \<Rightarrow> u32" where
  "f_div E a b = f32_result (nan_op (fenv.truncate E) a b) (fp_div F32 (f32_of a) (f32_of b))"

text \<open>\<open>roundf\<close> rounds to the nearest integer, halves away from zero.\<close>

fun roundf_fp :: "fp \<Rightarrow> fp" where
  "roundf_fp (Fin s m e) = (if 0 \<le> e then Fin s m e else round_fp F32 s ((m + 2 ^ (nat (- e) - 1)) div 2 ^ nat (- e)) 0)"
| "roundf_fp x = x"

definition f_roundf :: "fenv \<Rightarrow> u32 \<Rightarrow> u32" where
  "f_roundf E x = f32_result (nan_op E x x) (roundf_fp (f32_of x))"

definition f_to_i8 :: "q8_env \<Rightarrow> u32 \<Rightarrow> u8" where
  "f_to_i8 E x = (case f32_of x of
     Fin s m e \<Rightarrow> (let v = trunc_int (Fin s m e) in if -128 \<le> v \<and> v \<le> 127 then word_of_int v else i8_undefined E x)
   | _ \<Rightarrow> i8_undefined E x)"

subsection \<open>The conversions of fp16\<close>

definition ggml_compute_fp16_to_fp32 :: "fenv \<Rightarrow> u16 \<Rightarrow> u32" where
  "ggml_compute_fp16_to_fp32 E h =
     (let w = push_bit 16 (ucast h);
          sign = w AND 0x80000000;
          two_w = w + w;
          exp_offset = push_bit 23 0xE0;
          exp_scale = 0x07800000;
          normalized_value = f_mul E (drop_bit 4 two_w + exp_offset) exp_scale;
          magic_mask = push_bit 23 126;
          magic_bias = 0x3F000000;
          denormalized_value = f_sub E (drop_bit 17 two_w OR magic_mask) magic_bias;
          denormalized_cutoff = push_bit 27 1
      in sign OR (if two_w < denormalized_cutoff then denormalized_value else normalized_value))"

definition ggml_compute_fp32_to_fp16 :: "fenv \<Rightarrow> u32 \<Rightarrow> u16" where
  "ggml_compute_fp32_to_fp16 E f =
     (let scale_to_inf = 0x77800000; scale_to_zero = 0x08800000;
          base = f_mul E (f_mul E (f_abs f) scale_to_inf) scale_to_zero;
          shl1_w = f + f;
          sign = f AND 0x80000000;
          bias = shl1_w AND 0xFF000000;
          bias = (if bias < 0x71000000 then 0x71000000 else bias);
          base = f_add E (drop_bit 1 bias + 0x07800000) base;
          exp_bits = drop_bit 13 base AND 0x00007C00;
          mantissa_bits = base AND 0x00000FFF;
          nonsign = exp_bits + mantissa_bits
      in ucast (drop_bit 16 sign OR (if shl1_w > 0xFF000000 then 0x7E00 else nonsign)))"

definition ggml_ref_fp16_to_fp32 :: "fenv \<Rightarrow> u16 \<Rightarrow> u32" where
  "ggml_ref_fp16_to_fp32 E h = ggml_compute_fp16_to_fp32 E h"

definition ggml_ref_fp32_to_fp16 :: "fenv \<Rightarrow> u32 \<Rightarrow> u16" where
  "ggml_ref_fp32_to_fp16 E f = ggml_compute_fp32_to_fp16 E f"

subsection \<open>The quantizer and the dot product\<close>

definition QK8_0 :: nat where "QK8_0 = 32"

record block_q8_0 =
  q_d :: u16
  q_qs :: "u8 list"

definition abs_max :: "u32 list \<Rightarrow> u32" where
  "abs_max xs = fold (\<lambda>v amax. if f_gt amax (f_abs v) then amax else f_abs v) xs 0"

text \<open>\<open>0x42FE0000\<close> is 127 and \<open>0x3F800000\<close> is 1.\<close>

definition quantize_block :: "q8_env \<Rightarrow> u32 list \<Rightarrow> block_q8_0" where
  "quantize_block E xs =
     (let d = f_div E (abs_max xs) 0x42FE0000;
          id = (if \<not> f_eq d 0 then f_div E 0x3F800000 d else 0)
      in \<lparr>q_d = ggml_compute_fp32_to_fp16 (fenv.truncate E) d,
          q_qs = map (\<lambda>x. f_to_i8 E (f_roundf (fenv.truncate E) (f_mul (fenv.truncate E) x id))) xs\<rparr>)"

definition quantize_row_q8_0_ref :: "q8_env \<Rightarrow> (nat \<Rightarrow> u32) \<Rightarrow> nat \<Rightarrow> block_q8_0 list" where
  "quantize_row_q8_0_ref E x k = map (\<lambda>i. quantize_block E (map (\<lambda>j. x (i * QK8_0 + j)) [0..<QK8_0])) [0..<k div QK8_0]"

definition dot_block :: "block_q8_0 \<Rightarrow> block_q8_0 \<Rightarrow> i32" where
  "dot_block x y = fold (\<lambda>j sumi. sumi + scast (q_qs x ! j) * scast (q_qs y ! j)) [0..<QK8_0] 0"

definition ggml_vec_dot_q8_0_q8_0_generic :: "fenv \<Rightarrow> nat \<Rightarrow> (nat \<Rightarrow> block_q8_0) \<Rightarrow> (nat \<Rightarrow> block_q8_0) \<Rightarrow> u32" where
  "ggml_vec_dot_q8_0_q8_0_generic E n x y =
     fold (\<lambda>ib sumf. f_add E sumf (f_mul E (f_of_int (sint (dot_block (x ib) (y ib))))
         (f_mul E (ggml_compute_fp16_to_fp32 E (q_d (x ib))) (ggml_compute_fp16_to_fp32 E (q_d (y ib))))))
       [0..<n div QK8_0] 0"

text \<open>The result holds \<open>y\<close> and the scratch blocks \<open>q\<close>.\<close>

definition q8_0_ref_matvec :: "q8_env \<Rightarrow> (nat \<Rightarrow> block_q8_0) \<Rightarrow> (nat \<Rightarrow> u32) \<Rightarrow> nat \<Rightarrow> nat \<Rightarrow> u32 list \<times> block_q8_0 list" where
  "q8_0_ref_matvec E w x rows cols =
     (let blocks = cols div QK8_0; q = quantize_row_q8_0_ref E x cols in
      (map (\<lambda>r. ggml_vec_dot_q8_0_q8_0_generic (fenv.truncate E) cols (\<lambda>i. w (r * blocks + i)) (nth q)) [0..<rows], q))"

subsection \<open>Kernel 0\<close>

text \<open>The blocks of 34 bytes and the words of a buffer.\<close>

definition block_at :: "u8 list \<Rightarrow> nat \<Rightarrow> block_q8_0" where
  "block_at bs i = \<lparr>q_d = u16_of (take 2 (drop (34 * i) bs)), q_qs = take QK8_0 (drop (34 * i + 2) bs)\<rparr>"

definition float_at :: "u8 list \<Rightarrow> nat \<Rightarrow> u32" where
  "float_at bs i = u32_of (take 4 (drop (4 * i) bs))"

text \<open>The state of the kernel is the pointer to the scratch blocks. \<open>roundf\<close> is a weak symbol.\<close>

definition ref_prepare :: "bool \<Rightarrow> penv \<Rightarrow> cand_problem \<Rightarrow> hist \<Rightarrow> u32 \<times> u32 \<times> hist" where
  "ref_prepare roundf_linked E p h =
     (if c_op p \<noteq> CAND_OP_MATVEC_Q8_0 \<or> c_cols p = 0 \<or> c_cols p mod 32 \<noteq> 0 then (CAND_ERR_SHAPE, 0, h)
      else if \<not> roundf_linked then (CAND_ERR_RUNTIME, 0, h)
      else let (r, h) = ask E (C_malloc (c_cols p div 32 * 34)) h in
        (if re_ptr r \<noteq> 0 then CAND_OK else CAND_ERR_MEMORY, re_ptr r, h))"

definition ref_output :: "q8_env \<Rightarrow> cand_problem \<Rightarrow> u8 list" where
  "ref_output F p = concat (map le32 (fst (q8_0_ref_matvec F (block_at (c_w p)) (float_at (c_x p)) (unat (c_rows p)) (unat (c_cols p)))))"

definition ref_run :: "q8_env \<Rightarrow> cand_problem \<Rightarrow> u32 \<Rightarrow> u8 list \<Rightarrow> u32 \<times> u32 \<times> u8 list" where
  "ref_run F p st out = (CAND_OK, st, ref_output F p @ drop (length (ref_output F p)) out)"

definition ref_release :: "penv \<Rightarrow> u32 \<Rightarrow> hist \<Rightarrow> hist" where
  "ref_release E st h = free E st h"

definition cand_kernels :: "q8_env \<Rightarrow> bool \<Rightarrow> u32 cand_kernel list" where
  "cand_kernels F roundf_linked = [\<lparr>k_name = ''ref.q8_0_generic'', k_op = CAND_OP_MATVEC_Q8_0, k_prepare = ref_prepare roundf_linked,
     k_run = ref_run F, k_release = ref_release\<rparr>]"

definition ref_kernel :: "q8_env \<Rightarrow> bool \<Rightarrow> u32 cand_kernel" where
  "ref_kernel F roundf_linked = hd (cand_kernels F roundf_linked)"

text \<open>Kernel 0 keeps the contract of a candidate kernel.\<close>

lemma ref_kernel_fields [simp]: "k_prepare (ref_kernel F l) = ref_prepare l" "k_run (ref_kernel F l) = ref_run F"
  "k_release (ref_kernel F l) = ref_release" "k_op (ref_kernel F l) = CAND_OP_MATVEC_Q8_0" "cand_kernels F l = [ref_kernel F l]"
  by (simp_all add: ref_kernel_def cand_kernels_def)

lemma ref_prepare_moved:
  assumes "ref_prepare l E p h = (err, st, h')"
  shows "moved E s (if err = CAND_OK then with_mem st s else s) h h'"
  using assms moved_malloc[of E s s h h "c_cols p div 32 * 34"]
  by (auto simp: ref_prepare_def case_prod_beta cand_codes with_mem_def block_def[of 0] split: if_splits)

interpretation ref: candidate "ref_kernel F l" "\<lambda>st. st"
  by unfold_locales (auto simp: ref_prepare_moved ref_run_def ref_release_def intro: free_moved)

lemma cand_kernels_keep: "k \<in> set (cand_kernels F l) \<Longrightarrow> keeps E (kernel_call_fn E k p n)"
  using ref.call_keeps by simp

end
