(* ===== verification/Q8Fp16.thy ===== *)
theory Q8Fp16
  imports Q8Ref HvxExact FloatJam
begin

text \<open>
  The fp16 conversions of ggml. They use the rounding of a \<open>float\<close> addition; they are the IEEE conversions, and
  the narrowing one agrees bit for bit with the integer routine of the HVX kernels.
\<close>

subsection \<open>Patterns and signs\<close>

fun set_sign :: "bool \<Rightarrow> fp \<Rightarrow> fp" where
  "set_sign t (Fin s m e) = Fin t m e"
| "set_sign t (Inf s) = Inf t"
| "set_sign t NaN = NaN"

lemma round_set_sign: "round_fp f t m e = set_sign t (round_fp f s m e)"
  by (simp add: round_fp_def Let_def split: prod.splits)

lemma round_not_nan [simp]: "round_fp f s m e \<noteq> NaN"
  by (simp add: round_fp_def Let_def split: prod.splits)

text \<open>The pattern of a value without a sign.\<close>

lemma f32_bits_value:
  assumes "in_fmt F32 x" "x \<noteq> NaN" "set_sign False x = x"
  shows "unat (f32_bits x) < 2 ^ 31" "decode F32 t (unat (f32_bits x)) = set_sign t x"
proof -
  have "unat (f32_bits x) < 2 ^ 31 \<and> decode F32 t (unat (f32_bits x)) = set_sign t x"
  proof (cases x)
    case (Fin s m e)
    then have f: "\<not> s" "m < 2 ^ 24" "-149 \<le> e" "e \<le> 104" "e = -149 \<or> 2 ^ 23 \<le> m"
      using assms by (auto simp: in_fmt_def F32_def)
    show ?thesis
    proof (cases "m < 2 ^ 23")
      case True
      have "unat (f32_bits x) = m" using True f(1) by (simp add: Fin f32_bits_def encode_def F32_def unat_of_nat_less)
      then show ?thesis using True f by (simp add: Fin decode_f32)
    next
      case False
      define E M where "E = nat (e + 149) + 1" and "M = m - 2 ^ 23"
      have E: "0 < E" "E < 255" "int E = e + 150" using f(3,4) by (auto simp: E_def)
      have M: "M < 2 ^ 23" "m = M + 2 ^ 23" using False f(2) by (simp_all add: M_def)
      have c: "nat (e + 149) * 2 ^ 23 + m = E * 2 ^ 23 + M" by (simp add: E_def M)
      have lt: "E * 2 ^ 23 + M < 2 ^ 31" using E M by simp
      have "encode F32 x = (False, E * 2 ^ 23 + M)" using False f(1) c by (simp add: Fin encode_def F32_def)
      then have "f32_bits x = of_nat (E * 2 ^ 23 + M)" unfolding f32_bits_def by (simp only: Let_def prod.case if_False add_0_right)
      moreover have "E * 2 ^ 23 + M < 2 ^ LENGTH(32)" using lt by simp
      ultimately have "unat (f32_bits x) = E * 2 ^ 23 + M" by (simp only: unat_of_nat_less)
      then show ?thesis using lt E M div_mod_code[OF M(1), of E] by (simp add: Fin decode_f32)
    qed
  next
    case (Inf s)
    then have "unat (f32_bits x) = 255 * 2 ^ 23"
      using assms(3) by (simp add: f32_bits_def encode_def F32_def top_exp_def)
    then show ?thesis by (simp add: Inf decode_f32)
  qed (use assms in simp)
  then show "unat (f32_bits x) < 2 ^ 31" "decode F32 t (unat (f32_bits x)) = set_sign t x" by blast+
qed

lemma or_sign_value:
  assumes "unat r < 2 ^ 31"
  shows "f32_of ((w AND 0x80000000) OR r) = decode F32 (2 ^ 31 \<le> unat w) (unat r)"
proof -
  have "unat (r OR (w AND 0x80000000)) = unat r + (if 2 ^ 31 \<le> unat w then 2 ^ 31 else 0)"
    by (rule unat_or_sign[OF assms sign_bit])
  then show ?thesis using assms by (subst or.commute) (rule f32_of_signed)
qed

lemma or_sign_nan:
  assumes "is_nan r"
  shows "f32_of ((w AND 0x80000000) OR r) = NaN"
proof -
  have "take_bit 31 ((w AND 0x80000000) OR r) = take_bit 31 r"
    by (rule bit_eqI) (auto simp: bit_simps bit_numeral_iff simp flip: bit_numeral_word_iff)
  then have "unat ((w AND 0x80000000) OR r) mod 2 ^ 31 = unat r mod 2 ^ 31"
    by (metis take_bit_eq_mod unsigned_take_bit_eq)
  then show ?thesis using assms unfolding is_nan_def f32_of_def decode_f32 by (auto split: if_splits)
qed


subsection \<open>From fp16\<close>

text \<open>The arithmetic that stays in the range of the numbers gives a NaN pattern for a NaN.\<close>

definition nan_ok :: "fenv \<Rightarrow> bool" where
  "nan_ok E \<longleftrightarrow> (\<forall>a b. is_nan (nan_op E a b))"

lemma f32_result_or:
  assumes "in_fmt F32 v" "set_sign False v = v" "is_nan nan"
  shows "f32_of ((w AND 0x80000000) OR f32_result nan v) = set_sign (2 ^ 31 \<le> unat w) v"
proof (cases "v = NaN")
  case True
  then show ?thesis using or_sign_nan[OF assms(3)] by (simp add: f32_result_def)
next
  case False
  then show ?thesis
    using or_sign_value[OF f32_bits_value(1)[OF assms(1) False assms(2)]] f32_bits_value(2)[OF assms(1) False assms(2)]
    by (simp add: f32_result_def)
qed

lemma in_fmt_special [simp]: "in_fmt f (Inf s)" "in_fmt f NaN"
  by (simp_all add: in_fmt_def)

lemma scale_112: "f32_of 0x07800000 = Fin False (2 ^ 23) (-135)" "f32_of 0x3F000000 = Fin False (2 ^ 23) (-24)"
  by (simp_all add: f32_of_def decode_f32)

lemma round_pos: "set_sign False (round_fp F32 False m e) = round_fp F32 False m e"
  by (rule round_set_sign[symmetric])

lemma fp16_words:
  fixes h :: u16
  defines "w \<equiv> push_bit 16 (ucast h) :: u32" and "c \<equiv> unat h mod 2 ^ 15"
  shows "2 ^ 31 \<le> unat w \<longleftrightarrow> 2 ^ 15 \<le> unat h" "unat (w + w) = c * 2 ^ 17"
proof -
  have h: "unat h < 2 ^ 16" using unsigned_less[of h] by simp
  have w: "unat w = unat h * 2 ^ 16" using h unfolding w_def unat_push by (simp add: unat_ucast_up)
  show "2 ^ 31 \<le> unat w \<longleftrightarrow> 2 ^ 15 \<le> unat h" unfolding w by simp
  have "unat (w + w) = (unat w + unat w) mod 2 ^ LENGTH(32)" by (subst word_arith_nat_add) (simp only: unat_of_nat)
  also have "\<dots> = unat h * 2 ^ 17 mod (2 ^ 15 * 2 ^ 17)" unfolding w by (rule arg_cong2[where f = "(mod)"]) simp_all
  also have "\<dots> = c * 2 ^ 17" unfolding c_def by (rule mod_mult_mult2)
  finally show "unat (w + w) = c * 2 ^ 17" .
qed

lemma normalized_value:
  assumes "unat x = (E + 224) * 2 ^ 23 + M * 2 ^ 13" "E \<le> 31" "M < 2 ^ 10"
  shows "fp_mul F32 (f32_of x) (f32_of 0x07800000) =
    (if E = 31 then (if M = 0 then Inf False else NaN) else round_fp F32 False (M + 2 ^ 10) (int E - 25))"
proof -
  have m: "M * 2 ^ 13 < 2 ^ 23" using assms(3) by simp
  have lt: "(E + 224) * 2 ^ 23 + M * 2 ^ 13 < 2 ^ 31" using assms(2,3) by simp
  have "f32_of x = decode F32 False ((E + 224) * 2 ^ 23 + M * 2 ^ 13)"
    using f32_of_signed[OF lt, of x False] assms(1) by simp
  then have x: "f32_of x = (if E = 31 then (if M = 0 then Inf False else NaN) else Fin False (M * 2 ^ 13 + 2 ^ 23) (int E + 74))"
    unfolding decode_f32 div_mod_code[OF m, THEN conjunct1] div_mod_code[OF m, THEN conjunct2] by auto
  have "(M * 2 ^ 13 + 2 ^ 23) * 2 ^ 23 = (M + 2 ^ 10) * 2 ^ 36" by simp
  moreover have "round_fp F32 False ((M + 2 ^ 10) * 2 ^ 36) (int E - 25 - int 36) = round_fp F32 False (M + 2 ^ 10) (int E - 25)"
    by (rule round_fp_scale) simp
  ultimately have r: "round_fp F32 False ((M * 2 ^ 13 + 2 ^ 23) * 2 ^ 23) (int E - 61) = round_fp F32 False (M + 2 ^ 10) (int E - 25)"
    by (simp only: of_nat_numeral) simp
  have "fp_mul F32 (Fin False (M * 2 ^ 13 + 2 ^ 23) (int E + 74)) (Fin False (2 ^ 23) (-135))
      = round_fp F32 False ((M * 2 ^ 13 + 2 ^ 23) * 2 ^ 23) (int E - 61)"
  proof -
    have "int E + 74 + -135 = int E - 61" by simp
    then show ?thesis by (simp only: fp_mul.simps simp_thms)
  qed
  then show ?thesis unfolding x scale_112 r by (cases "E = 31") simp_all
qed

lemma denormalized_value:
  assumes "unat x = c + 126 * 2 ^ 23" "c < 2 ^ 10"
  shows "fp_sub F32 (f32_of x) (f32_of 0x3F000000) = round_fp F32 False c (-24)"
proof -
  have "f32_of x = decode F32 False (126 * 2 ^ 23 + c)"
    using f32_of_signed[of "126 * 2 ^ 23 + c" x False] assms by simp
  also have "\<dots> = Fin False (c + 2 ^ 23) (-24)"
    using div_mod_code[of c 23 126] assms(2) unfolding decode_f32 by simp
  finally show ?thesis
    unfolding scale_112 fp_sub_def by (cases "c = 0") (simp_all add: signed_def align_def Let_def F32_def)
qed

text \<open>C39. \<open>ggml_compute_fp16_to_fp32\<close> is the exact IEEE conversion for each of the 65536 patterns, also for the subnormal
  ones, which it converts by a subtraction of 0.5.\<close>

theorem ggml_fp16_to_fp32_exact:
  assumes "nan_ok E"
  shows "f32_of (ggml_compute_fp16_to_fp32 E h) = fp_cvt F32 (f16_of h)"
proof -
  define w :: u32 where "w = push_bit 16 (ucast h)"
  define c X M where "c = unat h mod 2 ^ 15" and "X = c div 2 ^ 10" and "M = c mod 2 ^ 10"
  let ?s = "2 ^ 15 \<le> unat h"
  have c: "c = X * 2 ^ 10 + M" "M < 2 ^ 10" unfolding X_def M_def by simp_all
  have "c < 2 ^ 15" unfolding c_def by simp
  then have X: "X \<le> 31" using c by simp
  note ww = fp16_words[of h, folded w_def c_def]
  have h: "f16_of h = (if X = 31 then (if M = 0 then Inf ?s else NaN) else if X = 0 then Fin ?s M (-24) else Fin ?s (M + 2 ^ 10) (int X - 25))"
    unfolding f16_of_def decode_f16 c_def[symmetric] X_def[symmetric] M_def[symmetric] ..
  have small: "w + w < push_bit 27 1 \<longleftrightarrow> X = 0" unfolding word_less_nat_alt ww(2) unat_push using c X by auto
  have n: "unat (drop_bit 4 (w + w) + push_bit 23 0xE0) = (X + 224) * 2 ^ 23 + M * 2 ^ 13"
  proof -
    have d: "unat (drop_bit 4 (w + w)) = X * 2 ^ 23 + M * 2 ^ 13" unfolding unat_drop ww(2) using c(1) by simp
    moreover have "unat (push_bit 23 0xE0 :: u32) = 224 * 2 ^ 23" unfolding unat_push by simp
    ultimately show ?thesis using X c(2) by (subst unat_add_lem[THEN iffD1]) simp_all
  qed
  have d: "unat (drop_bit 17 (w + w) OR push_bit 23 126) = c + 126 * 2 ^ 23" if "X = 0"
  proof -
    have "unat (drop_bit 17 (w + w)) = c" unfolding unat_drop ww(2) by simp
    moreover have "unat (push_bit 23 126 :: u32) = 126 * 2 ^ 23" unfolding unat_push by simp
    ultimately show ?thesis using unat_or_add[of "drop_bit 17 (w + w)" 23 "push_bit 23 126"] c that by simp
  qed
  have nan: "is_nan (nan_op E a b)" for a b using assms by (simp add: nan_ok_def)
  have ggml: "ggml_compute_fp16_to_fp32 E h = (w AND 0x80000000) OR (if X = 0
      then f_sub E (drop_bit 17 (w + w) OR push_bit 23 126) 0x3F000000 else f_mul E (drop_bit 4 (w + w) + push_bit 23 0xE0) 0x07800000)"
    unfolding ggml_compute_fp16_to_fp32_def Let_def w_def[symmetric] small ..
  show ?thesis
  proof (cases "X = 0")
    case True
    then have cs: "c < 2 ^ 10" using c by simp
    have "f32_of ((w AND 0x80000000) OR f_sub E (drop_bit 17 (w + w) OR push_bit 23 126) 0x3F000000) = set_sign ?s (round_fp F32 False c (-24))"
      unfolding f_sub_def denormalized_value[OF d[OF True] cs] ww(1)[symmetric]
      by (rule f32_result_or[OF _ round_pos nan]) (simp add: round_fp_in_fmt)
    then show ?thesis
      using True c(1) unfolding ggml h by (simp flip: round_set_sign)
  next
    case False
    have "f32_of ((w AND 0x80000000) OR f_mul E (drop_bit 4 (w + w) + push_bit 23 0xE0) 0x07800000)
        = set_sign ?s (if X = 31 then (if M = 0 then Inf False else NaN) else round_fp F32 False (M + 2 ^ 10) (int X - 25))"
      unfolding f_mul_def normalized_value[OF n X c(2)] ww(1)[symmetric]
      by (rule f32_result_or[OF _ _ nan]) (auto simp: round_fp_in_fmt round_pos)
    then show ?thesis using False unfolding ggml h by (simp flip: round_set_sign)
  qed
qed


text \<open>A processor with one NaN pattern, and the least positive fp16 value.\<close>

definition one_nan_env :: fenv where
  "one_nan_env = \<lparr>nan_op = (\<lambda>a b. 0x7fc00000), nan_of_half = (\<lambda>h. 0x7fc00000), nan_to_half = (\<lambda>x. 0x7e00), exp2f = (\<lambda>x. x)\<rparr>"

lemma ggml_fp16_to_fp32_exact_witness:
  "nan_ok one_nan_env \<and> f32_of (ggml_compute_fp16_to_fp32 one_nan_env 1) = fp_cvt F32 (Fin False 1 (-24))"
proof -
  have "nan_ok one_nan_env" by (simp add: nan_ok_def one_nan_env_def is_nan_def f32_of_def decode_f32)
  moreover have "f16_of 1 = Fin False 1 (-24)" by (simp add: f16_of_def decode_f16)
  ultimately show ?thesis using ggml_fp16_to_fp32_exact[of one_nan_env 1] by simp
qed

subsection \<open>To fp16\<close>

text \<open>A pattern and its value.\<close>

lemma f32_bits_decode:
  assumes "c \<le> 255 * 2 ^ 23"
  shows "unat (f32_bits (decode F32 False c)) = c"
proof -
  define X M where "X = c div 2 ^ 23" and "M = c mod 2 ^ 23"
  have c: "c = X * 2 ^ 23 + M" "M < 2 ^ 23" unfolding X_def M_def by simp_all
  have lt: "X * 2 ^ 23 + M < 2 ^ LENGTH(32)" using assms c by simp
  have "X \<le> 255" "X = 255 \<Longrightarrow> M = 0" using assms c by auto
  then consider "X = 255" "M = 0" | "X = 0" | "0 < X" "X < 255" by fastforce
  then have "encode F32 (decode F32 False c) = (False, X * 2 ^ 23 + M)"
  proof cases
    case 3
    then have "nat (int X - 150 + 149) * 2 ^ 23 + (M + 2 ^ 23) = X * 2 ^ 23 + M" by (cases X) simp_all
    then show ?thesis
      using 3 unfolding decode_f32 X_def[symmetric] M_def[symmetric] by (simp add: encode_def F32_def)
  next
    case 1
    then show ?thesis
      unfolding decode_f32 X_def[symmetric] M_def[symmetric] by (simp add: encode_def F32_def top_exp_def)
  next
    case 2
    then show ?thesis
      using c unfolding decode_f32 X_def[symmetric] M_def[symmetric] by (simp add: encode_def F32_def)
  qed
  then have "f32_bits (decode F32 False c) = of_nat (X * 2 ^ 23 + M)"
    unfolding f32_bits_def by (simp only: Let_def prod.case if_False add_0_right)
  then show ?thesis using lt c(1) by (simp only: unat_of_nat_less)
qed

lemma f32_result_value:
  assumes "in_fmt F32 v" "set_sign False v = v" "v \<noteq> NaN"
  shows "f32_of (f32_result nan v) = v"
proof -
  have "f32_of (f32_bits v) = decode F32 False (unat (f32_bits v))"
    using f32_bits_value(1)[OF assms(1,3,2)] by (intro f32_of_signed) simp_all
  then show ?thesis using f32_bits_value(2)[OF assms(1,3,2), of False] assms(2,3) by (simp add: f32_result_def)
qed

lemma f32_of_abs: "f32_of (f_abs x) = decode F32 False (unat x mod 2 ^ 31)"
  by (rule f32_of_signed) (simp_all only: f_abs_def lane_masks, simp_all)

lemma scale_factors: "f32_of 0x77800000 = Fin False (2 ^ 23) 89" "f32_of 0x08800000 = Fin False (2 ^ 23) (-133)"
  by (simp_all add: f32_of_def decode_f32)

text \<open>\<open>base\<close> before the addition: 4 times the absolute value, or infinity from \<open>2 ^ 16\<close>.\<close>

definition ggml_base :: "fenv \<Rightarrow> u32 \<Rightarrow> u32" where
  "ggml_base E x = f_mul E (f_mul E (f_abs x) 0x77800000) 0x08800000"

lemma mul_value:
  assumes "fp_mul F32 (f32_of x) (f32_of y) = v" "v \<noteq> NaN" "in_fmt F32 v" "set_sign False v = v"
  shows "f32_of (f_mul E x y) = v"
  unfolding f_mul_def assms(1) using assms by (intro f32_result_value)

lemma base_normal:
  assumes "unat x mod 2 ^ 31 = X * 2 ^ 23 + M" "0 < X" "X \<le> 142" "M < 2 ^ 23"
  shows "f32_of (ggml_base E x) = Fin False (M + 2 ^ 23) (int X - 148)"
proof -
  have fmt: "in_fmt F32 (Fin False (M + 2 ^ 23) (int X - 38))" "in_fmt F32 (Fin False (M + 2 ^ 23) (int X - 148))"
    using assms by (simp_all add: in_fmt_def F32_def)
  have id: "in_fmt F32 (Fin False (M + 2 ^ 23) e) \<Longrightarrow> round_fp F32 False ((M + 2 ^ 23) * 2 ^ 23) (e - int 23) = Fin False (M + 2 ^ 23) e" for e
    by (subst round_fp_exact) simp_all
  have a: "f32_of (f_abs x) = Fin False (M + 2 ^ 23) (int X - 150)"
    unfolding f32_of_abs assms(1) decode_f32 using div_mod_code[OF assms(4), of X] assms(2,3) by simp
  have one: "f32_of (f_mul E (f_abs x) 0x77800000) = Fin False (M + 2 ^ 23) (int X - 38)"
  proof (rule mul_value)
    have "int X - 150 + 89 = int X - 38 - int 23" by simp
    then show "fp_mul F32 (f32_of (f_abs x)) (f32_of 0x77800000) = Fin False (M + 2 ^ 23) (int X - 38)"
      using id[OF fmt(1)] by (simp only: a scale_factors fp_mul.simps simp_thms)
  qed (use fmt in simp_all)
  show ?thesis
    unfolding ggml_base_def
  proof (rule mul_value)
    have "int X - 38 + - 133 = int X - 148 - int 23" by simp
    then show "fp_mul F32 (f32_of (f_mul E (f_abs x) 0x77800000)) (f32_of 0x08800000) = Fin False (M + 2 ^ 23) (int X - 148)"
      using id[OF fmt(2)] by (simp only: one scale_factors fp_mul.simps simp_thms)
  qed (use fmt in simp_all)
qed

lemma base_big:
  assumes "143 * 2 ^ 23 \<le> unat x mod 2 ^ 31" "unat x mod 2 ^ 31 \<le> 255 * 2 ^ 23"
  shows "f32_of (ggml_base E x) = Inf False"
proof -
  have "fp_mul F32 (f32_of (f_abs x)) (f32_of 0x77800000) = Inf False"
  proof (cases x rule: f32_cases)
    case (normal X M)
    have X: "143 \<le> X" using assms(1) normal(1,4) by simp
    have "f32_of (f_abs x) = Fin False (M + 2 ^ 23) (int X - 150)"
      unfolding f32_of_abs normal(1) decode_f32 using div_mod_code[OF normal(4), of X] normal(2,3) by simp
    moreover have "bit_length ((M + 2 ^ 23) * 2 ^ 23) = 24 + 23"
      using bit_length_hidden[OF normal(4)] by (subst bit_length_shift) simp_all
    then have "round_fp F32 False ((M + 2 ^ 23) * 2 ^ 23) (int X - 150 + 89) = Inf False"
      using X by (intro round_fp_overflow) (simp_all only: good_fmts, simp_all add: F32_def)
    ultimately show ?thesis by (simp only: scale_factors fp_mul.simps simp_thms)
  next
    case inf
    have "f32_of (f_abs x) = Inf False" unfolding f32_of_abs inf(1) by (simp add: decode_f32)
    then show ?thesis by (simp add: scale_factors)
  qed (use assms in simp_all)
  then have one: "f32_of (f_mul E (f_abs x) 0x77800000) = Inf False" by (rule mul_value) simp_all
  show ?thesis
    unfolding ggml_base_def by (rule mul_value) (simp_all add: one scale_factors)
qed

lemma base_subnormal:
  assumes "unat x mod 2 ^ 31 = a" "a < 2 ^ 23"
  obtains m e where "f32_of (ggml_base E x) = Fin False m e" "m < 2 ^ 24" "-149 \<le> e" "e \<le> -148"
proof -
  have a: "f32_of (f_abs x) = Fin False a (-149)" unfolding f32_of_abs assms(1) decode_f32 using assms(2) by simp
  show thesis
  proof (cases "a = 0")
    case True
    have one: "f32_of (f_mul E (f_abs x) 0x77800000) = Fin False 0 (-149)"
      by (rule mul_value) (simp_all add: a scale_factors True in_fmt_def, simp_all add: F32_def)
    have "f32_of (ggml_base E x) = Fin False 0 (-149)"
      unfolding ggml_base_def by (rule mul_value) (simp_all add: one scale_factors in_fmt_def, simp_all add: F32_def)
    then show thesis using that by simp
  next
    case False
    define L where "L = bit_length a"
    have L: "0 < L" "L \<le> 23" using bit_length_bounds[of a] False bit_length_le[OF assms(2)] by (simp_all add: L_def)
    have q: "2 ^ 23 \<le> a * 2 ^ (24 - L)" "a * 2 ^ (24 - L) < 2 ^ 24" using normalise[of a 24] False L by (simp_all add: L_def)
    have fmt: "in_fmt F32 (Fin False (a * 2 ^ (24 - L)) (int L - 61))" using q L by (simp add: in_fmt_def F32_def)
    have "round_fp F32 False (a * 2 ^ 23) (-149 + 89) = round_fp F32 False a (-37)"
      using round_fp_scale[of a F32 False 23 "-37"] False by simp
    also have "\<dots> = round_fp F32 False (a * 2 ^ (24 - L)) (-37 - int (24 - L))"
      using round_fp_scale[of a F32 False "24 - L" "-37"] False by simp
    also have "-37 - int (24 - L) = int L - 61" using L by simp
    also have "round_fp F32 False (a * 2 ^ (24 - L)) (int L - 61) = Fin False (a * 2 ^ (24 - L)) (int L - 61)"
      using fmt False by (intro round_fp_id) simp_all
    finally have r: "round_fp F32 False (a * 2 ^ 23) (-149 + 89) = Fin False (a * 2 ^ (24 - L)) (int L - 61)" .
    have one: "f32_of (f_mul E (f_abs x) 0x77800000) = Fin False (a * 2 ^ (24 - L)) (int L - 61)"
      by (rule mul_value) (use r fmt in \<open>simp_all only: a scale_factors fp_mul.simps simp_thms\<close>, simp_all)
    define m e where "m = (if L \<le> 22 then a * 4 else a * 2)" and "e = (if L \<le> 22 then -149 else -148 :: int)"
    have lt: "a < 2 ^ L" using bit_length_bounds[of a] False by (simp add: L_def)
    have "a * 4 < 2 ^ 24" if "L \<le> 22" using lt power_increasing[OF that, of "2::nat"] by simp
    then have m: "m < 2 ^ 24" using assms(2) by (simp add: m_def)
    have fmt2: "in_fmt F32 (Fin False m e)"
    proof (cases "L \<le> 22")
      case big: False
      then have "L = 23" using L by simp
      then have "2 ^ 22 \<le> a" using bit_length_bounds[of a] False by (simp add: L_def)
      then show ?thesis using big m by (simp add: in_fmt_def F32_def m_def e_def)
    qed (use m in \<open>simp add: in_fmt_def F32_def m_def e_def\<close>)
    have "(2::nat) ^ (24 - L) * 2 ^ 23 = 2 ^ (47 - L)" using L by (simp only: power_add[symmetric]) simp
    then have pw: "a * 2 ^ (24 - L) * 2 ^ 23 = a * 2 ^ (47 - L)" by (simp only: mult.assoc)
    have "round_fp F32 False (a * 2 ^ (24 - L) * 2 ^ 23) (int L - 61 + -133) = round_fp F32 False (a * 2 ^ (47 - L)) (-147 - int (47 - L))"
      using L pw by (intro arg_cong2[where f = "round_fp F32 False"]) simp_all
    also have "\<dots> = round_fp F32 False a (-147)" using round_fp_scale[of a F32 False "47 - L" "-147"] False by simp
    also have "\<dots> = round_fp F32 False m e"
      using round_fp_scale[of a F32 False 2 "-147"] round_fp_scale[of a F32 False 1 "-147"] False by (simp add: m_def e_def)
    also have "\<dots> = Fin False m e" using fmt2 False by (intro round_fp_id) (simp_all add: m_def)
    finally have r2: "round_fp F32 False (a * 2 ^ (24 - L) * 2 ^ 23) (int L - 61 + -133) = Fin False m e" .
    have "f32_of (ggml_base E x) = Fin False m e"
      unfolding ggml_base_def
      by (rule mul_value) (use r2 fmt2 in \<open>simp_all only: one scale_factors fp_mul.simps simp_thms\<close>, simp_all)
    then show thesis using that m by (simp add: e_def)
  qed
qed

end
