(* ===== verification/Q8Narrow.thy ===== *)
theory Q8Narrow
  imports Q8Fp16
begin

text \<open>
  The narrowing conversion of ggml, \<open>ggml_compute_fp32_to_fp16\<close> of \<open>tools/htp-lab/probe/q8_0_ref.c\<close>. It adds a power of
  two that is 2 ^ 13 times the last bit of the f16 result, thus the rounding of the addition is the rounding to f16. The result
  is the pattern that the integer routine of the HVX kernels gives.
\<close>

subsection \<open>The words\<close>

lemma and_field: "(y :: u32) AND push_bit n (mask k) = push_bit n (drop_bit n y AND mask k)"
  by (rule bit_word_eqI) (auto simp: bit_simps)

lemma unat_and_fields:
  "unat ((y :: u32) AND 0xFF000000) = unat y div 2 ^ 24 * 2 ^ 24" "unat (y AND 0xFFF) = unat y mod 2 ^ 12"
  "unat (y AND 0x7C00) = unat y div 2 ^ 10 mod 2 ^ 5 * 2 ^ 10"
proof -
  have "(0xFF000000 :: u32) = push_bit 24 (mask 8)" "(0x7C00 :: u32) = push_bit 10 (mask 5)" by (simp_all add: mask_eq_exp_minus_1)
  note f = this
  have "unat y < 2 ^ 32" using unat_lt2p[of y] by simp
  then have "unat y div 2 ^ 24 < 2 ^ 8" by simp
  then have "unat y div 2 ^ 24 mod 2 ^ 8 = unat y div 2 ^ 24" by (rule mod_less)
  then show "unat (y AND 0xFF000000) = unat y div 2 ^ 24 * 2 ^ 24"
    using \<open>unat y div 2 ^ 24 < 2 ^ 8\<close> by (simp only: f and_field unat_push unat_drop unat_mask) simp
  show "unat (y AND 0xFFF) = unat y mod 2 ^ 12" using unat_mask[of y 12] by (simp add: mask_eq_exp_minus_1)
  have "unat y div 2 ^ 10 mod 2 ^ 5 < 2 ^ 5" by simp
  then have "unat y div 2 ^ 10 mod 2 ^ 5 * 2 ^ 10 < 2 ^ 5 * 2 ^ 10" by (rule mult_strict_right_mono) simp
  also have "(2::nat) ^ 5 * 2 ^ 10 < 2 ^ 32" by simp
  finally have "unat y div 2 ^ 10 mod 2 ^ 5 * 2 ^ 10 < 2 ^ 32" .
  then show "unat (y AND 0x7C00) = unat y div 2 ^ 10 mod 2 ^ 5 * 2 ^ 10"
    by (simp only: f and_field unat_push unat_drop unat_mask mod_less)
qed

lemma unat_double: "unat (x + x :: u32) = unat x mod 2 ^ 31 * 2"
proof -
  have "unat (x + x) = (unat x + unat x) mod 2 ^ LENGTH(32)" by (subst word_arith_nat_add) (simp only: unat_of_nat)
  also have "\<dots> = (unat x * 2) mod (2 ^ 31 * 2)" by (simp add: mult_2_right)
  finally show ?thesis by (simp only: mult_mod_left)
qed

text \<open>The addend: its exponent is 15 more than that of the value, and at least that of the smallest normal f16 value.\<close>

definition narrow_bias :: "u32 \<Rightarrow> u32" where
  "narrow_bias x = (let b = (x + x) AND 0xFF000000 in drop_bit 1 (if b < 0x71000000 then 0x71000000 else b) + 0x07800000)"

lemma unat_narrow_bias: "unat (narrow_bias x) = (max (unat x mod 2 ^ 31 div 2 ^ 23) 113 + 15) * 2 ^ 23"
proof -
  define b where "b = (x + x) AND 0xFF000000"
  define X where "X = unat x mod 2 ^ 31 div 2 ^ 23"
  have X: "X < 256" unfolding X_def by (simp add: less_mult_imp_div_less)
  have "unat x mod 2 ^ 31 * 2 div 2 ^ 24 = X" unfolding X_def by (simp add: div_mult2_eq[of _ 2, symmetric])
  then have b: "unat b = X * 2 ^ 24" unfolding b_def unat_and_fields unat_double by simp
  have c: "b < 0x71000000 \<longleftrightarrow> X < 113" unfolding word_less_nat_alt b by simp
  have d: "unat (drop_bit 1 (if b < 0x71000000 then 0x71000000 else b)) = max X 113 * 2 ^ 23"
    unfolding c unat_drop using b by simp
  then have "unat (drop_bit 1 (if b < 0x71000000 then 0x71000000 else b) + 0x07800000) = max X 113 * 2 ^ 23 + 15 * 2 ^ 23"
    using X by (subst unat_add_le) simp_all
  then show ?thesis unfolding narrow_bias_def b_def[symmetric] X_def[symmetric] Let_def by simp
qed

subsection \<open>The sum\<close>

lemma narrow_sum:
  assumes w: "unat w = Y * 2 ^ 23" "0 < Y" "Y < 255" and b: "f32_of base = Fin False m e" "m < 2 ^ 24"
    and k: "e = int Y - 150 - int k" "13 \<le> k"
  shows "unat (f_add E w base) = Y * 2 ^ 23 + shift_rne m k" "shift_rne m k \<le> 2 ^ 11"
proof -
  show r: "shift_rne m k \<le> 2 ^ 11"
    using b(2) power_increasing[OF k(2), of "2::nat"] by (intro shift_rne_le) simp
  have w': "f32_of w = Fin False (2 ^ 23) (int Y - 150)"
    using w f32_of_signed[of "Y * 2 ^ 23" w False] by (simp add: decode_f32)
  define v where "v = 2 ^ 22 * 2 ^ (k + 1) + m"
  have sum: "fp_add F32 (f32_of w) (f32_of base) = round_fp F32 False v e"
  proof -
    have m: "min (int Y - 150) e = e" "nat (int Y - 150 - e) = k" "nat (e - e) = 0" using k by simp_all
    have v: "signed False (2 ^ 23 * 2 ^ k) + signed False (m * 2 ^ 0) = int v" by (simp add: signed_def v_def)
    have p: "int v \<noteq> 0" "\<not> int v < 0" "nat \<bar>int v\<bar> = v" unfolding v_def by (simp_all only: nat_int abs_of_nat of_nat_less_0_iff of_nat_eq_0_iff) simp_all
    show ?thesis unfolding w' b(1) fp_add.simps Let_def m(1) align_def m(2,3) v using p by (simp only: if_False)
  qed
  have "(2::nat) ^ 24 \<le> 2 ^ (23 + k)" using k(2) by (intro power_increasing) simp_all
  then have "bit_length v = 24 + k" using b(2) by (intro bit_length_eq) (simp_all add: v_def power_add)
  then have "round_fp F32 False v e = decode F32 False (nat (int Y - 150 - e_min F32) * 2 ^ (prec F32 - 1) + shift_rne v (nat (int Y - 150 - e)))"
    using w(2,3) k by (intro round_fp_code) (simp_all add: v_def, simp_all add: F32_def)
  also have "nat (int Y - 150 - e) = k" using k by simp
  also have "shift_rne v k = 2 ^ 23 + shift_rne m k" using shift_rne_add[of k "2 ^ 22" m] k(2) unfolding v_def by simp
  also have "nat (int Y - 150 - e_min F32) * 2 ^ (prec F32 - 1) + (2 ^ 23 + shift_rne m k) = Y * 2 ^ 23 + shift_rne m k"
    using w(2) by (cases Y) (simp_all add: F32_def)
  finally have s: "fp_add F32 (f32_of w) (f32_of base) = decode F32 False (Y * 2 ^ 23 + shift_rne m k)" unfolding sum .
  have lt: "shift_rne m k < 2 ^ 23" using r by simp
  have "decode F32 False (Y * 2 ^ 23 + shift_rne m k) \<noteq> NaN" using div_mod_code[OF lt, of Y] w(3) by (simp add: decode_f32)
  moreover have "Y * 2 ^ 23 + shift_rne m k \<le> 255 * 2 ^ 23" using lt w(3) by simp
  ultimately show "unat (f_add E w base) = Y * 2 ^ 23 + shift_rne m k"
    unfolding f_add_def s f32_result_def by (simp only: f32_bits_decode if_False)
qed

lemma narrow_inf:
  assumes "f32_of base = Inf False" "unat w = Y * 2 ^ 23" "Y < 511"
  shows "unat (f_add E w base) = 255 * 2 ^ 23 + 0"
proof -
  have "\<exists>v. f32_of w = v \<and> v \<noteq> NaN \<and> v \<noteq> Inf True"
  proof (cases "Y < 256")
    case True
    have "f32_of w = decode F32 False (Y * 2 ^ 23)" using assms(2) True by (intro f32_of_signed) simp_all
    then show ?thesis by (simp add: decode_f32)
  next
    case False
    define Z where "Z = Y - 256"
    have "unat w = Z * 2 ^ 23 + 2 ^ 31" "Z < 255" using assms(2,3) False by (simp_all add: Z_def algebra_simps)
    then have "f32_of w = decode F32 True (Z * 2 ^ 23)" by (intro f32_of_signed) simp_all
    then show ?thesis using \<open>Z < 255\<close> by (simp add: decode_f32)
  qed
  then have "fp_add F32 (f32_of w) (f32_of base) = Inf False" unfolding assms(1) by (cases "f32_of w") auto
  moreover have "unat (f32_bits (Inf False)) = 255 * 2 ^ 23" using f32_bits_decode[of "255 * 2 ^ 23"] by (simp add: decode_f32)
  ultimately show ?thesis by (simp add: f_add_def f32_result_def)
qed

text \<open>The fields of the sum.\<close>

lemma narrow_fields:
  fixes b :: u32
  assumes "unat b = Y * 2 ^ 23 + r" "r \<le> 2 ^ 11" "Y < 512"
  shows "unat ((drop_bit 13 b AND 0x7C00) + (b AND 0xFFF)) = Y mod 32 * 2 ^ 10 + r"
proof -
  have "(Y * 2 ^ 23 + r) div 2 ^ 13 div 2 ^ 10 = Y" using assms(2) by (simp add: div_mult2_eq[symmetric])
  then have e: "unat (drop_bit 13 b AND 0x7C00) = Y mod 32 * 2 ^ 10" unfolding unat_and_fields unat_drop assms(1) by (rule arg_cong2[where f = "\<lambda>z n. z mod n * 2 ^ 10"]) simp
  have "Y * 2 ^ 23 + r = r + 2 ^ 12 * (Y * 2 ^ 11)" by simp
  then have "(Y * 2 ^ 23 + r) mod 2 ^ 12 = r" using assms(2) by (simp only: mod_mult_self2) simp
  then have m: "unat (b AND 0xFFF) = r" unfolding unat_and_fields assms(1) .
  have "Y mod 32 < 32" by simp
  then show ?thesis using e m assms(2) by (subst unat_add_le) simp_all
qed

subsection \<open>The result\<close>

definition nonsign :: "fenv \<Rightarrow> u32 \<Rightarrow> u32" where
  "nonsign E x = (let b = f_add E (narrow_bias x) (ggml_base E x) in (drop_bit 13 b AND 0x7C00) + (b AND 0xFFF))"

lemma nonsign_of:
  assumes "unat (f_add E (narrow_bias x) (ggml_base E x)) = Y * 2 ^ 23 + r" "r \<le> 2 ^ 11" "Y < 512"
  shows "unat (nonsign E x) = Y mod 32 * 2 ^ 10 + r"
  unfolding nonsign_def Let_def by (rule narrow_fields[OF assms])

lemma nonsign_normal:
  assumes "unat x mod 2 ^ 31 = X * 2 ^ 23 + M" "0 < X" "X < 255" "M < 2 ^ 23"
  shows "unat (nonsign E x) = hf_code (X * 2 ^ 23 + M)"
proof -
  have bias: "unat (narrow_bias x) = (max X 113 + 15) * 2 ^ 23"
    unfolding unat_narrow_bias assms(1) using div_mod_code[OF assms(4), of X] by simp
  note c = hf_code_fields[OF assms(4), of X]
  consider "X \<le> 112" | "113 \<le> X" "X \<le> 142" | "143 \<le> X" by linarith
  then show ?thesis
  proof cases
    case 1
    note n = narrow_sum[OF _ _ _ base_normal[OF assms(1,2) _ assms(4)], where w = "narrow_bias x" and Y = 128 and k = "126 - X"]
    have "unat (nonsign E x) = 128 mod 32 * 2 ^ 10 + shift_rne (M + 2 ^ 23) (126 - X)"
      by (rule nonsign_of) (use n 1 bias assms(4) in \<open>simp_all add: max_absorb2\<close>)
    then show ?thesis using c(1) 1 by simp
  next
    case 2
    note n = narrow_sum[OF _ _ _ base_normal[OF assms(1,2) _ assms(4)], where w = "narrow_bias x" and Y = "X + 15" and k = 13]
    have "unat (nonsign E x) = (X + 15) mod 32 * 2 ^ 10 + shift_rne (M + 2 ^ 23) 13"
      by (rule nonsign_of) (use n 2 bias assms(4) in \<open>simp_all add: max_absorb1\<close>)
    moreover have "(X - 113 + 4 * 32) mod 32 = X - 113" using 2 by (subst mod_mult_self1) simp
    then have "(X + 15) mod 32 = X - 113" using 2 by (simp add: add.commute)
    ultimately show ?thesis using c(2) 2 by simp
  next
    case 3
    have "unat (f_add E (narrow_bias x) (ggml_base E x)) = 255 * 2 ^ 23 + 0"
      by (rule narrow_inf[OF base_big bias]) (use 3 assms in simp_all)
    then have "unat (nonsign E x) = 255 mod 32 * 2 ^ 10 + 0" by (rule nonsign_of) simp_all
    then show ?thesis using c(3) 3 assms(3) by simp
  qed
qed

lemma nonsign_value:
  assumes "unat x mod 2 ^ 31 \<le> 0x7f800000"
  shows "unat (nonsign E x) = hf_code (unat x mod 2 ^ 31)"
proof (cases x rule: f32_cases)
  case nan
  then show ?thesis using assms by simp
next
  case inf
  have "unat (narrow_bias x) = 270 * 2 ^ 23" unfolding unat_narrow_bias inf(1) by simp
  moreover have "f32_of (ggml_base E x) = Inf False" by (rule base_big) (simp_all only: inf(1), simp_all)
  ultimately have "unat (f_add E (narrow_bias x) (ggml_base E x)) = 255 * 2 ^ 23 + 0"
    by (intro narrow_inf[where Y = 270]) simp_all
  then have "unat (nonsign E x) = 255 mod 32 * 2 ^ 10 + 0" by (rule nonsign_of) simp_all
  then show ?thesis unfolding inf(1) by (simp add: hf_code_def shift_rne_def)
next
  case (normal X M)
  then show ?thesis using nonsign_normal[OF normal(1-4)] by simp
next
  case subnormal
  obtain m e where b: "f32_of (ggml_base E x) = Fin False m e" "m < 2 ^ 24" "-149 \<le> e" "e \<le> -148"
    using base_subnormal[OF refl subnormal(1)] by blast
  define k where "k = nat (-22 - e)"
  have k: "e = int 128 - 150 - int k" "126 \<le> k" using b(3,4) by (auto simp: k_def)
  have "(2::nat) ^ 24 \<le> 2 ^ (k - 1)" using k(2) by (intro power_increasing) simp_all
  then have z: "shift_rne m k = 0" using b(2) k(2) by (intro shift_rne_small) simp_all
  have "unat x mod 2 ^ 31 div 2 ^ 23 = 0" using subnormal(1) by simp
  then have "unat (narrow_bias x) = 128 * 2 ^ 23" unfolding unat_narrow_bias by simp
  then have "unat (f_add E (narrow_bias x) (ggml_base E x)) = 128 * 2 ^ 23 + shift_rne m k"
    using k(2) by (intro narrow_sum(1)[OF _ _ _ b(1,2) k(1)]) simp_all
  then have "unat (nonsign E x) = 128 mod 32 * 2 ^ 10 + 0" unfolding z by (rule nonsign_of) simp_all
  then show ?thesis using hf_code_fields(1)[OF subnormal(1), of 0] z
    by (simp add: shift_rne_small)
qed

lemma nan_word: "(0xFF000000 :: u32) < x + x \<longleftrightarrow> 0x7f800000 < unat x mod 2 ^ 31"
  unfolding word_less_nat_alt unat_double by simp

text \<open>C17. \<open>ggml_compute_fp32_to_fp16\<close> gives, for each of the 2 ^ 32 patterns of a \<open>float\<close>, the same 16 bits as the
  integer routine \<open>isa_hvx_exact_sf_to_hf\<close>, and its value is the IEEE conversion to f16: rounded to nearest, ties to even.
  It does not depend on the NaN patterns of the processor.\<close>

theorem ggml_fp32_to_fp16_exact:
  "ggml_compute_fp32_to_fp16 E x = ucast (isa_hvx_exact_sf_to_hf sh x) \<and> f16_of (ggml_compute_fp32_to_fp16 E x) = fp_cvt F16 (f32_of x)"
proof -
  let ?a = "unat x mod 2 ^ 31"
  have sign: "drop_bit 16 (x AND 0x80000000) = drop_bit 16 x AND 0x8000"
    unfolding drop_bit_and by simp
  define r where "r = (if x + x > 0xFF000000 then 0x7E00 else nonsign E x)"
  have ggml: "ggml_compute_fp32_to_fp16 E x = ucast (r OR (drop_bit 16 x AND 0x8000))"
    unfolding ggml_compute_fp32_to_fp16_def Let_def r_def nonsign_def narrow_bias_def ggml_base_def sign
    by (subst or.commute) (rule refl)
  have r: "unat r = hf_code ?a"
    using nonsign_value[of x E] unfolding r_def nan_word by (auto simp: hf_code_def)
  have "hf_code ?a < 2 ^ 15" by (rule hf_code_bound) simp
  then have "unat (r OR (drop_bit 16 x AND 0x8000)) = unat r + unat (drop_bit 16 x AND 0x8000)"
    by (intro unat_or_add[of _ 15]) (simp_all add: r sign16)
  then have "r OR (drop_bit 16 x AND 0x8000) = isa_hvx_exact_sf_to_hf sh x"
    unfolding r sign16 by (intro iffD2[OF word_unat_eq_iff]) (simp only: sf_to_hf_word)
  then have "ggml_compute_fp32_to_fp16 E x = ucast (isa_hvx_exact_sf_to_hf sh x)" unfolding ggml by simp
  moreover have "f16_of (ucast (isa_hvx_exact_sf_to_hf sh x)) = fp_cvt F16 (f32_of x)"
    using f16_of_signed[OF \<open>hf_code ?a < 2 ^ 15\<close> sf_to_hf_word[of sh x]] by (simp only: hf_code_value)
  ultimately show ?thesis by simp
qed

end
