(* ===== verification/IsaprobeHost.thy ===== *)
theory IsaprobeHost
  imports CText CensusIO Oracle Q8Ref
begin

text \<open>
  The host program of the ISA probe, \<open>tools/htp-lab/probe/host/isaprobe.c\<close>, in the build with the census: the session
  with the DSP library, the version gate, and the census. \<open>IsaprobeMain\<close> has the kernels and \<open>main\<close>.

  As in \<open>IsaprobeDsp\<close>, the environment is a function from the history of the calls to the reply: FastRPC, the C allocator,
  the files and the clock. The history is the state of the model, thus the theorems can tell which calls the program makes
  and in which order. A result \<^const>\<open>None\<close> is a run that does not return: a loop that does not end or a read outside an object.
  The messages are not modelled, except the table of kernels and the comparison of a kernel with the reference.
\<close>

subsection \<open>The environment\<close>

text \<open>The facts of the DSP. The library gives all but the first two.\<close>

record dsp_info =
  di_chip_arch :: nat
  di_chip_arch_dsp :: nat
  di_arch_raw :: u32
  di_skel_arch :: u32
  di_hvx_threads :: u32
  di_hmx_count :: u32
  di_vtcm_bytes :: u32
  di_setup_status :: i32
  di_setup_error :: i32
  di_n_ops :: u32
  di_n_streams :: u32

text \<open>The lines of the record.\<close>

datatype record_line = Rec_header dsp_info bool "string option" | Rec_run u32 string | Rec_ok u32 string u32 | Rec_status u32 string u32
  | Rec_rpc_error u32 string u32 | Rec_unavailable u32 string | Rec_oracle u32 string string u32 | Rec_totals nat nat nat nat

datatype host_call = H_load | H_capability u32 | H_unsigned | H_open | H_close u64
  | H_info u64 | H_op_info u64 u32 | H_stream_name u64 u32
  | H_run u64 u32 "u8 list option list" nat u32
  | H_kernel_info u64 u32 | H_kernel_run u64 u32 kparams "u8 list" "u8 list" nat
  | H_alloc nat | H_free u64 | H_free_stream nat | H_free_problem
  | H_read_file string | H_write_file string "u8 list"
  | H_record_open string | H_record record_line | H_record_close
  | H_now | H_print_kernels u32 | H_print_kernel u32 string u32 | H_print_report u32 nat int nat

text \<open>\<open>hr_n\<close> is the number of kernels that \<open>isaprobe_kernel_info\<close> gives, if it gives it.\<close>

record host_reply =
  hr_err :: i32
  hr_handle :: u64
  hr_value :: u32
  hr_info :: dsp_info
  hr_op :: isaprobe_op
  hr_name :: string
  hr_n :: "u32 option"
  hr_status :: i32
  hr_bytes :: "u8 list"
  hr_times :: times
  hr_addr :: u64
  hr_file :: file_in
  hr_out :: file_out
  hr_ok :: bool
  hr_time :: u64

type_synonym host_log = "(host_call \<times> host_reply) list"

record host_env =
  hans :: "host_log \<Rightarrow> host_call \<Rightarrow> host_reply"
  enc_error :: bool
  ARCH_VER :: u32
  UNSIGNED_PD_SUPPORT :: u32
  host_float :: q8_env

definition hask :: "host_env \<Rightarrow> host_call \<Rightarrow> host_log \<Rightarrow> host_reply \<times> host_log" where
  "hask E c h = (hans E h c, h @ [(c, hans E h c)])"

definition tell :: "host_env \<Rightarrow> host_call \<Rightarrow> host_log \<Rightarrow> host_log" where
  "tell E c h = snd (hask E c h)"

subsection \<open>The codes\<close>

definition PROBE_EXIT_USAGE :: nat where "PROBE_EXIT_USAGE = 1"
definition PROBE_EXIT_RPC :: nat where "PROBE_EXIT_RPC = 2"
definition PROBE_EXIT_GATE :: nat where "PROBE_EXIT_GATE = 3"
definition PROBE_EXIT_OP_FAIL :: nat where "PROBE_EXIT_OP_FAIL = 4"

lemmas probe_exits = PROBE_EXIT_USAGE_def PROBE_EXIT_RPC_def PROBE_EXIT_GATE_def PROBE_EXIT_OP_FAIL_def

definition RECORD_NAME :: string where "RECORD_NAME = ''isaprobe.txt''"
definition NAME_BYTES :: nat where "NAME_BYTES = 256"
definition MAX_REOPEN :: nat where "MAX_REOPEN = 3"
definition INT_MAX :: nat where "INT_MAX = 2 ^ 31 - 1"
definition ISA_N_OPS :: nat where "ISA_N_OPS = 383"
definition ISA_S_COUNT :: nat where "ISA_S_COUNT = 24"
definition CENSUS_SOURCE_CHIP :: u32 where "CENSUS_SOURCE_CHIP = 1"
definition CENSUS_SOURCE_ORACLE :: u32 where "CENSUS_SOURCE_ORACLE = 2"

definition aee_base :: "i32 \<Rightarrow> i32" where
  "aee_base err = (if err AND 0xFFFFFC00 = 0x80000400 then err AND 0x3FF else err)"

text \<open>The text that \<open>snprintf\<close> puts into a buffer of \<open>n\<close> bytes.\<close>

definition snprintf_s :: "nat \<Rightarrow> string \<Rightarrow> string" where
  "snprintf_s n s = take (n - 1) s"

subsection \<open>The session\<close>

definition decode_arch_byte :: "u32 \<Rightarrow> nat" where
  "decode_arch_byte v = (let hi = drop_bit 4 v AND 0xF; lo = v AND 0xF in
     if hi > 9 \<or> lo > 9 \<or> hi = 0 then 0 else unat (hi * 10 + lo))"

definition dsp_capability :: "host_env \<Rightarrow> u32 \<Rightarrow> host_log \<Rightarrow> i32 \<times> u32 option \<times> host_log" where
  "dsp_capability E attribute h = (let (r, h) = hask E (H_capability attribute) h in
     (hr_err r, if hr_err r = AEE_SUCCESS then Some (hr_value r) else None, h))"

text \<open>An open that fails leaves the handle 0.\<close>

definition probe_open :: "host_env \<Rightarrow> host_log \<Rightarrow> nat \<times> u64 \<times> host_log" where
  "probe_open E h =
     (let (r, h) = hask E H_unsigned h in
      if hr_err r \<noteq> AEE_SUCCESS then (PROBE_EXIT_RPC, 0, h)
      else let (r, h) = hask E H_open h in
        if hr_err r \<noteq> AEE_SUCCESS then (PROBE_EXIT_RPC, 0, h) else (0, hr_handle r, h))"

definition probe_close :: "host_env \<Rightarrow> u64 \<Rightarrow> host_log \<Rightarrow> host_log" where
  "probe_close E hnd h = tell E (H_close hnd) h"

text \<open>The steps 1 and 2 are the votes for the application type and for the HVX power.\<close>

definition setup_is_fatal :: "i32 \<Rightarrow> bool" where
  "setup_is_fatal step \<longleftrightarrow> step = 1 \<or> step = 2"

definition host_info :: "host_env \<Rightarrow> u64 \<Rightarrow> host_log \<Rightarrow> nat \<times> dsp_info option \<times> host_log" where
  "host_info E hnd h =
     (let (err, cap, h) = dsp_capability E (ARCH_VER E) h;
          chip = (case cap of Some v \<Rightarrow> decode_arch_byte (v AND 0xFF) | None \<Rightarrow> 0);
          (r, h) = hask E (H_info hnd) h
      in if hr_err r \<noteq> AEE_SUCCESS then (PROBE_EXIT_RPC, None, h)
         else let info = (hr_info r)\<lparr>di_chip_arch := chip, di_chip_arch_dsp := decode_arch_byte (di_arch_raw (hr_info r) AND 0xFF)\<rparr> in
           (if setup_is_fatal (di_setup_status info) then PROBE_EXIT_RPC else 0, Some info, h))"

definition chip_arch :: "dsp_info \<Rightarrow> nat" where
  "chip_arch info = (if di_chip_arch info \<noteq> 0 then di_chip_arch info else di_chip_arch_dsp info)"

definition library_too_new :: "dsp_info \<Rightarrow> bool" where
  "library_too_new info \<longleftrightarrow> chip_arch info = 0 \<or> int (chip_arch info) < sint (di_skel_arch info)"

definition version_gate :: "dsp_info \<Rightarrow> bool \<Rightarrow> nat" where
  "version_gate info allow_newer = (if library_too_new info \<and> \<not> allow_newer then PROBE_EXIT_GATE else 0)"

subsection \<open>The census\<close>

text \<open>A loaded stream is the full file and the number of bytes of its vectors.\<close>

type_synonym corpus = "nat \<Rightarrow> (u8 list \<times> nat) option"

record census_run =
  r_handle :: u64
  r_corpus :: corpus
  r_n_ok :: nat
  r_n_bad :: nat
  r_n_unavailable :: nat
  r_n_oracle :: nat
  r_restarts :: nat

text \<open>What does not change in a census.\<close>

record census_setup =
  cs_corpus_dir :: string
  cs_out_dir :: string
  cs_skel_arch :: u32
  cs_oracle :: bool

definition load_stream :: "host_env \<Rightarrow> string \<Rightarrow> u64 \<Rightarrow> u32 \<Rightarrow> corpus \<Rightarrow> host_log \<Rightarrow> bool \<times> corpus \<times> host_log" where
  "load_stream E dir hnd ident c h =
     (if c (unat ident) \<noteq> None then (True, c, h)
      else let (r, h) = hask E (H_stream_name hnd ident) h in
        if hr_err r \<noteq> AEE_SUCCESS then (False, c, h)
        else case census_join (enc_error E) 4096 dir (snprintf_s (NAME_BYTES + 16) (''corpus_'' @ hr_name r @ ''.bin'')) of
          None \<Rightarrow> (False, c, h)
        | Some path \<Rightarrow> let (r, h) = hask E (H_read_file path) h in
            case census_read_stream (hr_file r) ident of
              None \<Rightarrow> (False, c, h) | Some f \<Rightarrow> (True, c(unat ident \<mapsto> f), h))"

text \<open>The write of an output file: \<open>census_join\<close> and \<open>census_write_output\<close>.\<close>

definition write_file :: "host_env \<Rightarrow> string \<Rightarrow> string \<Rightarrow> u32 \<Rightarrow> string \<Rightarrow> isaprobe_op \<Rightarrow> u32 \<Rightarrow> u32 \<Rightarrow> u8 list \<Rightarrow> nat \<Rightarrow> host_log \<Rightarrow>
    bool \<times> host_log" where
  "write_file E dir file op_id name d arch source bs len h =
     (case census_join (enc_error E) 4096 dir file of None \<Rightarrow> (False, h)
      | Some path \<Rightarrow> let hdr = output_header op_id name (o_n_vectors d) (o_out_bytes d) arch source bs len;
            (r, h) = hask E (H_write_file path (header_bytes hdr @ take len bs)) h
          in (fst (census_write_output (hr_out r) op_id name (o_n_vectors d) (o_out_bytes d) arch source bs len) = 0, h))"

definition kind_code :: "kind \<Rightarrow> nat" where
  "kind_code k = (case k of K_COPY \<Rightarrow> 1 | K_ABS \<Rightarrow> 2 | K_NEG \<Rightarrow> 3 | K_ADD \<Rightarrow> 4 | K_SUB \<Rightarrow> 5 | K_MUL \<Rightarrow> 6 | K_MAX \<Rightarrow> 7 | K_MIN \<Rightarrow> 8
     | K_MUL_ADD \<Rightarrow> 9 | K_ADD_ADD \<Rightarrow> 10 | K_MUL_MUL \<Rightarrow> 11 | K_DMPY \<Rightarrow> 12 | K_DMPY_ACC \<Rightarrow> 13 | K_CVT \<Rightarrow> 14 | K_CMP_GT \<Rightarrow> 15
     | K_CMP_EQ \<Rightarrow> 16 | K_EXP2 \<Rightarrow> 17)"

definition oracle_op_of :: "string \<Rightarrow> isaprobe_op \<Rightarrow> oracle_op" where
  "oracle_op_of name d = \<lparr>op_name = name, in_type = map unat (take 3 (o_in_type d)), in_bytes = map unat (take 3 (o_in_bytes d)),
     out_type = unat (o_out_type d), out_bytes = unat (o_out_bytes d), n_vectors = unat (o_n_vectors d)\<rparr>"

text \<open>The value is 1 when the oracle is written, 0 when the op has none, and -1 after an error.\<close>

definition write_oracle :: "host_env \<Rightarrow> string \<Rightarrow> u32 \<Rightarrow> string \<Rightarrow> isaprobe_op \<Rightarrow> u8 list option list \<Rightarrow> nat \<Rightarrow> host_log \<Rightarrow>
    (int \<times> host_log) option" where
  "write_oracle E out_dir op_id name d ins out_len h =
     (case oracle_find (oracle_op_of name d) of None \<Rightarrow> None | Some None \<Rightarrow> Some (0, h)
      | Some (Some spec) \<Rightarrow> let (r, h) = hask E (H_alloc (if out_len > 0 then out_len else 1)) h in
        if hr_addr r = 0 then Some (-1, h)
        else case oracle_run (fenv.truncate (host_float E)) (oracle_op_of name d) spec ins (replicate out_len 0) of None \<Rightarrow> None
          | Some buf \<Rightarrow>
            let (ok, h) = write_file E out_dir (snprintf_s (NAME_BYTES + 16) (''out_'' @ name @ ''.oracle.bin'')) op_id name d 0
                  CENSUS_SOURCE_ORACLE buf out_len h;
                h = (if ok then tell E (H_record (Rec_oracle op_id name (oracle_kind_name (kind_code (s_kind spec))) (isa_hash buf out_len))) h
                     else h)
            in Some (if ok then 1 else -1, tell E (H_free (hr_addr r)) h))"

text \<open>The inputs of an op, in the order of the code. A result \<^const>\<open>None\<close> is a corpus error. Each input is the vectors from
  its pointer on and the number of bytes that the op reads.\<close>

fun census_inputs :: "host_env \<Rightarrow> string \<Rightarrow> u64 \<Rightarrow> isaprobe_op \<Rightarrow> nat list \<Rightarrow> corpus \<Rightarrow> host_log \<Rightarrow>
    (u8 list \<times> nat) option list option \<times> corpus \<times> host_log" where
  "census_inputs E dir hnd d [] c h = (Some [], c, h)"
| "census_inputs E dir hnd d (j # js) c h =
     (let s = o_in_stream d ! j; n = o_in_bytes d ! j in
      if s = 0 \<or> n = 0 then let (r, c, h) = census_inputs E dir hnd d js c h in (map_option ((#) None) r, c, h)
      else if ISA_S_COUNT \<le> unat s then (None, c, h)
      else let (ok, c, h) = load_stream E dir hnd s c h in
        if \<not> ok then (None, c, h)
        else let (file, bytes) = the (c (unat s)); len = unat (o_n_vectors d) * unat n in
          if bytes < len \<or> INT_MAX < len then (None, c, h)
          else let (r, c, h) = census_inputs E dir hnd d js c h in (map_option ((#) (Some (drop 128 file, len))) r, c, h))"

text \<open>The run of the op on the DSP and its record: the code, the new state, and the output.\<close>

definition census_call :: "host_env \<Rightarrow> census_setup \<Rightarrow> u32 \<Rightarrow> string \<Rightarrow> isaprobe_op \<Rightarrow> (u8 list \<times> nat) option list \<Rightarrow> nat \<Rightarrow> census_run \<Rightarrow>
    host_log \<Rightarrow> nat \<times> census_run \<times> host_log" where
  "census_call E cs op_id name d ins out_len run h =
     (let h = tell E (H_record (Rec_run op_id name)) h;
          (r, h) = hask E (H_run (r_handle run) op_id (map (map_option (\<lambda>(b, n). take n b)) ins) out_len (o_n_vectors d)) h;
          out = take out_len (hr_bytes r @ replicate out_len 0)
      in if hr_err r = AEE_SUCCESS \<and> hr_status r = 0 then
           let (ok, h) = write_file E (cs_out_dir cs) (snprintf_s (NAME_BYTES + 16) (''out_'' @ name @ ''.bin'')) op_id name d
                 (cs_skel_arch cs) CENSUS_SOURCE_CHIP out out_len h in
           if ok then (0, run\<lparr>r_n_ok := r_n_ok run + 1, r_restarts := 0\<rparr>, tell E (H_record (Rec_ok op_id name (isa_hash out out_len))) h)
           else (PROBE_EXIT_USAGE, run, h)
         else if hr_err r = AEE_SUCCESS then
           (0, run\<lparr>r_n_bad := r_n_bad run + 1, r_restarts := 0\<rparr>, tell E (H_record (Rec_status op_id name (hr_status r))) h)
         else
           let h = tell E (H_record (Rec_rpc_error op_id name (hr_err r))) h;
               run = run\<lparr>r_n_bad := r_n_bad run + 1, r_restarts := r_restarts run + 1\<rparr>
           in if MAX_REOPEN < r_restarts run then (PROBE_EXIT_RPC, run, h)
              else let (code, hnd, h) = probe_open E (probe_close E (r_handle run) h) in (code, run\<lparr>r_handle := hnd\<rparr>, h))"

definition contains :: "string \<Rightarrow> string \<Rightarrow> bool" where
  "contains t s = list_ex (\<lambda>k. take (length t) (drop k s) = t) [0..<length s + 1]"

text \<open>The part of \<open>census_op\<close> that has the inputs: the run, and the oracle.\<close>

definition census_exec :: "host_env \<Rightarrow> census_setup \<Rightarrow> u32 \<Rightarrow> string \<Rightarrow> isaprobe_op \<Rightarrow> (u8 list \<times> nat) option list \<Rightarrow> census_run \<Rightarrow> host_log \<Rightarrow>
    (nat \<times> census_run \<times> host_log) option" where
  "census_exec E cs op_id name d ins run h =
     (let out_len = unat (o_n_vectors d) * unat (o_out_bytes d) in
      if INT_MAX < out_len \<or> INT_MAX < unat (o_n_vectors d) then Some (PROBE_EXIT_USAGE, run, h)
      else let (r, h) = hask E (H_alloc (if out_len > 0 then out_len else 1)) h in
        if hr_addr r = 0 then Some (PROBE_EXIT_USAGE, run, h)
        else let (code, run, h) = census_call E cs op_id name d ins out_len run h; h = tell E (H_free (hr_addr r)) h in
          if code \<noteq> 0 \<or> \<not> cs_oracle cs then Some (code, run, h)
          else Option.bind (write_oracle E (cs_out_dir cs) op_id name d (map (map_option fst) ins) out_len h)
            (\<lambda>(w, h). Some (if w < 0 then (PROBE_EXIT_USAGE, run, h) else (0, run\<lparr>r_n_oracle := r_n_oracle run + nat w\<rparr>, h))))"

definition census_op :: "host_env \<Rightarrow> census_setup \<Rightarrow> string option \<Rightarrow> u32 \<Rightarrow> census_run \<Rightarrow> host_log \<Rightarrow> (nat \<times> census_run \<times> host_log) option" where
  "census_op E cs only op_id run h =
     (let (r, h) = hask E (H_op_info (r_handle run) op_id) h; d = hr_op r; name = hr_name r in
      if hr_err r \<noteq> AEE_SUCCESS then Some (PROBE_EXIT_RPC, run, h)
      else if (case only of None \<Rightarrow> False | Some t \<Rightarrow> \<not> contains t name) then Some (0, run, h)
      else if CHR ''/'' \<in> set name then Some (PROBE_EXIT_USAGE, run, h)
      else if o_available d = 0 then
        Some (0, run\<lparr>r_n_unavailable := r_n_unavailable run + 1\<rparr>, tell E (H_record (Rec_unavailable op_id name)) h)
      else let (ins, c, h) = census_inputs E (cs_corpus_dir cs) (r_handle run) d [0, 1, 2] (r_corpus run) h; run = run\<lparr>r_corpus := c\<rparr> in
        case ins of None \<Rightarrow> Some (PROBE_EXIT_USAGE, run, h)
        | Some ins \<Rightarrow> census_exec E cs op_id name d ins run h)"

fun census_loop :: "host_env \<Rightarrow> census_setup \<Rightarrow> string option \<Rightarrow> nat list \<Rightarrow> census_run \<Rightarrow> host_log \<Rightarrow> (nat \<times> census_run \<times> host_log) option" where
  "census_loop E cs only [] run h = Some (0, run, h)"
| "census_loop E cs only (k # ks) run h = Option.bind (census_op E cs only (of_nat k) run h)
     (\<lambda>(code, run, h). if code \<noteq> 0 then Some (code, run, h) else census_loop E cs only ks run h)"

definition free_corpus :: "host_env \<Rightarrow> corpus \<Rightarrow> host_log \<Rightarrow> host_log" where
  "free_corpus E c h = fold (\<lambda>s. if c s = None then (\<lambda>h. h) else tell E (H_free_stream s)) [0..<ISA_S_COUNT] h"

text \<open>The value is the exit code and the handle after the census.\<close>

definition run_census :: "host_env \<Rightarrow> u64 \<Rightarrow> dsp_info \<Rightarrow> string \<Rightarrow> string \<Rightarrow> string option \<Rightarrow> bool \<Rightarrow> bool \<Rightarrow> host_log \<Rightarrow>
    (nat \<times> u64 \<times> host_log) option" where
  "run_census E hnd info corpus_dir out_dir only negative_test oracle h =
     (if di_n_ops info = 0 then Some (PROBE_EXIT_USAGE, hnd, h)
      else if di_n_ops info \<noteq> of_nat ISA_N_OPS \<or> di_n_streams info \<noteq> of_nat ISA_S_COUNT then Some (PROBE_EXIT_USAGE, hnd, h)
      else case census_join (enc_error E) 4096 out_dir RECORD_NAME of None \<Rightarrow> Some (PROBE_EXIT_USAGE, hnd, h)
      | Some path \<Rightarrow> let (r, h) = hask E (H_record_open path) h in
        if \<not> hr_ok r then Some (PROBE_EXIT_USAGE, hnd, h)
        else let h = tell E (H_record (Rec_header info negative_test only)) h;
                 cs = \<lparr>cs_corpus_dir = corpus_dir, cs_out_dir = out_dir, cs_skel_arch = di_skel_arch info, cs_oracle = oracle\<rparr>
          in Option.bind (census_loop E cs only [0..<unat (di_n_ops info)] \<lparr>r_handle = hnd, r_corpus = (\<lambda>_. None), r_n_ok = 0, r_n_bad = 0,
                 r_n_unavailable = 0, r_n_oracle = 0, r_restarts = 0\<rparr> h)
             (\<lambda>(code, run, h).
               let h = tell E (H_record (Rec_totals (r_n_ok run) (r_n_bad run) (r_n_unavailable run) (r_n_oracle run))) h;
                   (r, h) = hask E H_record_close h;
                   code = (if \<not> hr_ok r then (if code \<noteq> 0 then code else PROBE_EXIT_USAGE) else code);
                   h = free_corpus E (r_corpus run) h
               in Some (if code = 0 \<and> 0 < r_n_bad run then PROBE_EXIT_OP_FAIL else code, r_handle run, h)))"

end
