(* ===== verification/IsaprobeMain.thy ===== *)
theory IsaprobeMain
  imports IsaprobeHost
begin

text \<open>
  The mode \<open>kernel\<close> and \<open>main\<close> of the host program of the ISA probe, \<open>tools/htp-lab/probe/host/isaprobe.c\<close>, with the
  file format of \<open>mv_format.h\<close>.
\<close>

subsection \<open>The candidate kernels\<close>

text \<open>\<open>n\<close> is the number that the last call gave, and the loop goes to it.\<close>

function list_kernels_from :: "host_env \<Rightarrow> u64 \<Rightarrow> u32 \<Rightarrow> u32 \<Rightarrow> host_log \<Rightarrow> nat \<times> host_log" where
  "list_kernels_from E hnd k n h =
     (if k < n then
        let (r, h) = hask E (H_kernel_info hnd k) h; n = (case hr_n r of Some m \<Rightarrow> m | None \<Rightarrow> n) in
        if hr_err r \<noteq> AEE_SUCCESS then (PROBE_EXIT_RPC, h)
        else list_kernels_from E hnd (k + 1) n (tell E (H_print_kernel k (hr_name r) (hr_value r)) h)
      else (0, h))"
  by pat_completeness auto
termination
proof (relation "measure (\<lambda>(E, hnd, k, n, h). 2 ^ 32 - unat k)", goal_cases)
  case (2 E hnd k n h)
  then have "unat k + 1 < 2 ^ 32" using unat_lt2p[of n] by (simp add: word_less_nat_alt)
  moreover from this have "unat (k + 1) = unat k + 1" by (subst unat_add_le) simp_all
  ultimately show ?case by simp
qed simp

declare list_kernels_from.simps [simp del]

definition list_kernels :: "host_env \<Rightarrow> u64 \<Rightarrow> host_log \<Rightarrow> nat \<times> host_log" where
  "list_kernels E hnd h =
     (let (r, h) = hask E (H_kernel_info hnd 0) h; n = (case hr_n r of Some m \<Rightarrow> m | None \<Rightarrow> 0) in
      if hr_err r \<noteq> AEE_SUCCESS \<and> n \<noteq> 0 then (PROBE_EXIT_RPC, h)
      else list_kernels_from E hnd 0 n (tell E (H_print_kernels n) h))"

text \<open>The number that \<open>strtoul\<close> reads from the whole key, without an overflow.\<close>

definition kernel_number :: "string \<Rightarrow> u64 option" where
  "kernel_number key = (case scan_number key of
     Some (neg, n, rest) \<Rightarrow> if n < 2 ^ 64 \<and> rest = [] then Some (fst (strtoul key)) else None | None \<Rightarrow> None)"

partial_function (option) find_kernel_from :: "host_env \<Rightarrow> u64 \<Rightarrow> string \<Rightarrow> u32 \<Rightarrow> host_log \<Rightarrow> ((u32 \<times> u32 \<times> string) option \<times> host_log) option" where
  "find_kernel_from E hnd key k h =
     (let (r, h) = hask E (H_kernel_info hnd k) h in
      if hr_err r \<noteq> AEE_SUCCESS then Some (None, h)
      else if (case kernel_number key of Some want \<Rightarrow> ucast k = want | None \<Rightarrow> hr_name r = key)
        then Some (Some (k, hr_value r, hr_name r), h)
      else find_kernel_from E hnd key (k + 1) h)"

definition find_kernel :: "host_env \<Rightarrow> u64 \<Rightarrow> string \<Rightarrow> host_log \<Rightarrow> ((u32 \<times> u32 \<times> string) option \<times> host_log) option" where
  "find_kernel E hnd key h = find_kernel_from E hnd key 0 h"

text \<open>An integer with the order of the values of \<open>float\<close>.\<close>

definition ordered_f32 :: "u32 \<Rightarrow> int" where
  "ordered_f32 f = (let i = sint f in if i < 0 then - (2 ^ 31) - i else i)"

record mv_header =
  mv_magic :: "u8 list"
  mv_version :: u32
  mv_op :: u32
  mv_rows :: u32
  mv_cols :: u32
  mv_kernel_id :: u32
  mv_source :: u32
  mv_iters :: u32
  mv_pcycles :: u64
  mv_usecs :: u64
  mv_status :: i32
  mv_seed :: u32
  mv_name :: "u8 list"
  mv_reserved :: "u8 list"

definition MV_MAGIC_PROBLEM :: "u8 list" where "MV_MAGIC_PROBLEM = chars ''IPMV''"
definition MV_MAGIC_RESULT :: "u8 list" where "MV_MAGIC_RESULT = chars ''IPMR''"
definition MV_VERSION :: u32 where "MV_VERSION = 1"
definition MV_KERNEL_ORACLE :: u32 where "MV_KERNEL_ORACLE = 0xFFFFFFFF"
definition MV_SOURCE_CHIP :: u32 where "MV_SOURCE_CHIP = 1"
definition MV_SOURCE_ORACLE :: u32 where "MV_SOURCE_ORACLE = 2"

definition le64 :: "u64 \<Rightarrow> u8 list" where
  "le64 v = le32 (ucast v) @ le32 (ucast (drop_bit 32 v))"

definition ld64 :: "mem \<Rightarrow> nat \<Rightarrow> u64" where
  "ld64 m a = ucast (ld32 m a) OR push_bit 32 (ucast (ld32 m (a + 4)))"

definition mv_bytes :: "mv_header \<Rightarrow> u8 list" where
  "mv_bytes h = mv_magic h @ le32 (mv_version h) @ le32 (mv_op h) @ le32 (mv_rows h) @ le32 (mv_cols h) @ le32 (mv_kernel_id h) @
     le32 (mv_source h) @ le32 (mv_iters h) @ le64 (mv_pcycles h) @ le64 (mv_usecs h) @ le32 (mv_status h) @ le32 (mv_seed h) @
     mv_name h @ mv_reserved h"

definition mv_header_of :: "u8 list \<Rightarrow> mv_header" where
  "mv_header_of b = \<lparr>mv_magic = take 4 b, mv_version = ld32 (nth b) 4, mv_op = ld32 (nth b) 8, mv_rows = ld32 (nth b) 12,
     mv_cols = ld32 (nth b) 16, mv_kernel_id = ld32 (nth b) 20, mv_source = ld32 (nth b) 24, mv_iters = ld32 (nth b) 28,
     mv_pcycles = ld64 (nth b) 32, mv_usecs = ld64 (nth b) 40, mv_status = ld32 (nth b) 48, mv_seed = ld32 (nth b) 52,
     mv_name = take 64 (drop 56 b), mv_reserved = take 8 (drop 120 b)\<rparr>"

text \<open>The sizes of the two inputs, as 64-bit numbers. The length of a file is a \<open>long\<close>, thus it is below \<open>2 ^ 63\<close>.\<close>

definition mv_w_bytes :: "mv_header \<Rightarrow> u64" where
  "mv_w_bytes h = ucast (mv_rows h) * ucast (mv_cols h div 32) * 34"

definition mv_x_bytes :: "mv_header \<Rightarrow> u64" where
  "mv_x_bytes h = ucast (mv_cols h) * 4"

definition problem_ok :: "u8 list \<Rightarrow> bool" where
  "problem_ok b = (let h = mv_header_of b in
     mv_magic h = MV_MAGIC_PROBLEM \<and> mv_version h = MV_VERSION \<and> mv_op h = CAND_OP_MATVEC_Q8_0 \<and>
     mv_rows h \<noteq> 0 \<and> mv_cols h \<noteq> 0 \<and> mv_cols h mod 32 = 0 \<and>
     unat (128 + mv_w_bytes h + mv_x_bytes h) = length b \<and> unat (mv_w_bytes h) \<le> INT_MAX \<and> unat (mv_x_bytes h) \<le> INT_MAX)"

definition read_problem :: "file_in \<Rightarrow> (mv_header \<times> u8 list) option" where
  "read_problem f = (if \<not> f_opens f then None
     else let sz = if f_seek_end f then f_ftell f else -1 in
       if sz < 128 \<or> \<not> f_seek_set f \<or> \<not> f_malloc f \<or> length (f_fread f) \<noteq> nat sz then None
       else if problem_ok (f_fread f) then Some (mv_header_of (f_fread f), f_fread f) else None)"

definition write_result :: "host_env \<Rightarrow> string \<Rightarrow> string \<Rightarrow> mv_header \<Rightarrow> u32 list \<Rightarrow> host_log \<Rightarrow> bool \<times> host_log" where
  "write_result E dir file hdr y h =
     (case census_join (enc_error E) 4096 dir file of None \<Rightarrow> (False, h)
      | Some path \<Rightarrow> let (r, h) = hask E (H_write_file path (mv_bytes hdr @ concat (map le32 y))) h; f = hr_out r
          in (o_opens f \<and> o_header_ok f \<and> (y = [] \<or> o_data_ok f) \<and> o_closes f, h))"

text \<open>The reference on the CPU, and the least time of the iterations.\<close>

fun cpu_reference :: "host_env \<Rightarrow> nat \<Rightarrow> u64 \<Rightarrow> host_log \<Rightarrow> u64 \<times> host_log" where
  "cpu_reference E 0 cpu_us h = (cpu_us, h)"
| "cpu_reference E (Suc n) cpu_us h =
     (let (t0, h) = hask E H_now h; (t1, h) = hask E H_now h; dt = hr_time t1 - hr_time t0
      in cpu_reference E n (if dt < cpu_us then dt else cpu_us) h)"

text \<open>The number of equal rows, the largest distance and its row.\<close>

definition compare_rows :: "u32 list \<Rightarrow> u32 list \<Rightarrow> nat \<times> int \<times> nat" where
  "compare_rows ys zs = fold (\<lambda>i (same, worst, worst_row).
     let dist = \<bar>ordered_f32 (ys ! i) - ordered_f32 (zs ! i)\<bar> in
     (if dist = 0 then same + 1 else same, if dist > worst then dist else worst, if dist > worst then i else worst_row))
     [0..<length ys] (0, 0, 0)"

definition result_header :: "mv_header \<Rightarrow> u32 \<Rightarrow> u32 \<Rightarrow> u32 \<Rightarrow> times \<Rightarrow> i32 \<Rightarrow> string \<Rightarrow> mv_header" where
  "result_header p ident source iters ts status name =
     \<lparr>mv_magic = MV_MAGIC_RESULT, mv_version = MV_VERSION, mv_op = mv_op p, mv_rows = mv_rows p, mv_cols = mv_cols p,
      mv_kernel_id = ident, mv_source = source, mv_iters = iters, mv_pcycles = fst ts, mv_usecs = snd ts, mv_status = status,
      mv_seed = mv_seed p, mv_name = name_field name, mv_reserved = replicate 8 0\<rparr>"

definition free_all :: "host_env \<Rightarrow> u64 list \<Rightarrow> host_log \<Rightarrow> host_log" where
  "free_all E addrs h = fold (\<lambda>a. if a = 0 then (\<lambda>h. h) else tell E (H_free a)) addrs (tell E H_free_problem h)"

text \<open>The part of \<open>run_kernel\<close> with the buffers: the run on the DSP, the reference, the two result files, and the comparison.\<close>

definition kernel_compare :: "host_env \<Rightarrow> u64 \<Rightarrow> u32 \<Rightarrow> string \<Rightarrow> mv_header \<Rightarrow> u8 list \<Rightarrow> string \<Rightarrow> u32 \<Rightarrow> host_log \<Rightarrow> nat \<times> host_log" where
  "kernel_compare E hnd ident kname p file out_dir iters h =
     (let rows = unat (mv_rows p); cols = unat (mv_cols p); w_bytes = rows * (cols div 32) * 34;
          w = drop 128 file; x = take (cols * 4) (drop (128 + w_bytes) file);
          params = \<lparr>kp_op = mv_op p, kp_rows = mv_rows p, kp_cols = mv_cols p, kp_iters = iters\<rparr>;
          (r, h) = hask E (H_kernel_run hnd ident params (take w_bytes w) x (rows * 4)) h
      in if hr_err r \<noteq> AEE_SUCCESS then (PROBE_EXIT_RPC, h)
         else let y_dsp = map (float_at (hr_bytes r @ replicate (rows * 4) 0)) [0..<rows];
             y_cpu = (if iters = 0 then replicate rows 0 else fst (q8_0_ref_matvec (host_float E) (block_at w) (float_at x) rows cols));
             (cpu_us, h) = cpu_reference E (unat iters) (-1) h;
             (ok, h) = write_result E out_dir (snprintf_s (NAME_BYTES + 16) (kname @ ''.bin''))
               (result_header p ident MV_SOURCE_CHIP iters (hr_times r) (hr_status r) kname) y_dsp h
           in if \<not> ok then (PROBE_EXIT_USAGE, h)
              else let (ok, h) = write_result E out_dir ''ggml-ref.bin''
                  (result_header p MV_KERNEL_ORACLE MV_SOURCE_ORACLE iters (0, cpu_us) 0 ''ggml-ref'') y_cpu h
                in if \<not> ok then (PROBE_EXIT_USAGE, h)
                   else let (same, worst, worst_row) = compare_rows y_dsp y_cpu;
                       h = tell E (H_print_report (hr_status r) same worst worst_row) h
                     in (if hr_status r = 0 then 0 else PROBE_EXIT_OP_FAIL, h))"

text \<open>The part with the four buffers.\<close>

definition solve_problem :: "host_env \<Rightarrow> u64 \<Rightarrow> u32 \<Rightarrow> string \<Rightarrow> mv_header \<Rightarrow> u8 list \<Rightarrow> string \<Rightarrow> u32 \<Rightarrow> host_log \<Rightarrow> nat \<times> host_log" where
  "solve_problem E hnd ident kname p file out_dir iters h =
     (let rows = unat (mv_rows p); cols = unat (mv_cols p);
          (a, h) = hask E (H_alloc (rows * 4)) h; (b, h) = hask E (H_alloc (rows * 4)) h;
          (c, h) = hask E (H_alloc (cols div 32 * 34)) h; (d, h) = hask E (H_alloc (cols * 4)) h;
          (code, h) = (if hr_addr a = 0 \<or> hr_addr b = 0 \<or> hr_addr c = 0 \<or> hr_addr d = 0 then (PROBE_EXIT_USAGE, h)
             else kernel_compare E hnd ident kname p file out_dir iters h)
      in (code, free_all E [hr_addr a, hr_addr b, hr_addr c, hr_addr d] h))"

definition run_kernel :: "host_env \<Rightarrow> u64 \<Rightarrow> string \<Rightarrow> string \<Rightarrow> string \<Rightarrow> u32 \<Rightarrow> host_log \<Rightarrow> (nat \<times> host_log) option" where
  "run_kernel E hnd key problem_path out_dir iters h =
     Option.bind (find_kernel E hnd key h) (\<lambda>(found, h). case found of
       None \<Rightarrow> Some (PROBE_EXIT_USAGE, h)
     | Some (ident, op, kname) \<Rightarrow>
       let (r, h) = hask E (H_read_file problem_path) h in
       Some (case read_problem (hr_file r) of
         None \<Rightarrow> (PROBE_EXIT_USAGE, h)
       | Some (p, file) \<Rightarrow>
         if op \<noteq> mv_op p then (PROBE_EXIT_USAGE, tell E H_free_problem h)
         else solve_problem E hnd ident kname p file out_dir iters h))"

subsection \<open>The program\<close>

record probe_args =
  pa_allow_newer :: bool
  pa_oracle :: bool
  pa_iters :: int
  pa_only :: "string option"
  pa_args :: "string list"

definition probe_args0 :: probe_args where
  "probe_args0 = \<lparr>pa_allow_newer = False, pa_oracle = True, pa_iters = 10, pa_only = None, pa_args = []\<rparr>"

function probe_options :: "string list \<Rightarrow> probe_args \<Rightarrow> probe_args option" where
  "probe_options [] p = Some p"
| "probe_options (a # as) p =
     (if a = ''--allow-newer-skel'' then probe_options as (p\<lparr>pa_allow_newer := True\<rparr>)
      else if a = ''--no-oracle'' then probe_options as (p\<lparr>pa_oracle := False\<rparr>)
      else if a = ''--only'' \<and> as \<noteq> [] then probe_options (tl as) (p\<lparr>pa_only := Some (hd as)\<rparr>)
      else if a = ''--iters'' \<and> as \<noteq> [] then
        let (n, rest) = strtol (hd as) in
        if rest \<noteq> [] \<or> n < 1 \<or> n > 100000 then None else probe_options (tl as) (p\<lparr>pa_iters := n\<rparr>)
      else if (a \<noteq> [] \<and> hd a = CHR ''-'') \<or> length (pa_args p) = 4 then None
      else probe_options as (p\<lparr>pa_args := pa_args p @ [a]\<rparr>))"
  by pat_completeness auto
termination by (relation "measure (\<lambda>(as, p). length as)") auto

datatype probe_mode = M_info | M_census string string | M_kernel string string string

definition probe_mode_of :: "string list \<Rightarrow> probe_mode option" where
  "probe_mode_of args = (case args of
     [m] \<Rightarrow> if m = ''info'' then Some M_info else None
   | [m, a, b] \<Rightarrow> if m = ''census'' then Some (M_census a b) else None
   | [m, a, b, c] \<Rightarrow> if m = ''kernel'' then Some (M_kernel a b c) else None
   | _ \<Rightarrow> None)"

text \<open>The three modes, after \<open>probe_info\<close> and \<open>version_gate\<close>. The value has the handle that is open after the mode.\<close>

definition probe_work :: "host_env \<Rightarrow> probe_args \<Rightarrow> probe_mode \<Rightarrow> dsp_info \<Rightarrow> u64 \<Rightarrow> host_log \<Rightarrow> (nat \<times> u64 \<times> host_log) option" where
  "probe_work E p mode info hnd h = (case mode of
     M_info \<Rightarrow> Some (0, hnd, h)
   | M_census corpus_dir out_dir \<Rightarrow> run_census E hnd info corpus_dir out_dir (pa_only p) (library_too_new info) (pa_oracle p) h
   | M_kernel key problem out_dir \<Rightarrow> map_option (\<lambda>(code, h). (code, hnd, h))
       (run_kernel E hnd key problem out_dir (of_int (pa_iters p)) h))"

definition probe_session :: "host_env \<Rightarrow> probe_args \<Rightarrow> probe_mode \<Rightarrow> u64 \<Rightarrow> host_log \<Rightarrow> (nat \<times> u64 \<times> host_log) option" where
  "probe_session E p mode hnd h =
     (let (code, info, h) = host_info E hnd h;
          (code, h) = (if code = 0 \<and> mode = M_info then list_kernels E hnd h else (code, h));
          code = (if code = 0 then version_gate (the info) (pa_allow_newer p) else code)
      in if code = 0 then probe_work E p mode (the info) hnd h else Some (code, hnd, h))"

definition probe_main :: "host_env \<Rightarrow> string list \<Rightarrow> host_log \<Rightarrow> (nat \<times> host_log) option" where
  "probe_main E argv h =
     (case probe_options (tl argv) probe_args0 of None \<Rightarrow> Some (PROBE_EXIT_USAGE, h)
      | Some p \<Rightarrow>
        case probe_mode_of (pa_args p) of None \<Rightarrow> Some (PROBE_EXIT_USAGE, h)
        | Some mode \<Rightarrow>
          let (r, h) = hask E H_load h in
          if hr_err r \<noteq> 0 then Some (PROBE_EXIT_RPC, h)
          else let (err, cap, h) = dsp_capability E (UNSIGNED_PD_SUPPORT E) h in
            if cap = Some 0 then Some (PROBE_EXIT_RPC, h)
            else let (code, hnd, h) = probe_open E h in
              if code \<noteq> 0 then Some (code, h)
              else map_option (\<lambda>(code, hnd, h). (code, if hnd \<noteq> 0 then probe_close E hnd h else h)) (probe_session E p mode hnd h))"

end
