(* ===== verification/IsaprobeProblem.thy ===== *)
theory IsaprobeProblem
  imports IsaprobeMain
begin

text \<open>
  The files of the kernel harness: the header of \<open>mv_format.h\<close>, and the problems that \<open>read_problem\<close> of the host program of the
  ISA probe accepts.
\<close>

subsection \<open>The header\<close>

definition wf_mv :: "mv_header \<Rightarrow> bool" where
  "wf_mv h \<longleftrightarrow> length (mv_magic h) = 4 \<and> length (mv_name h) = 64 \<and> length (mv_reserved h) = 8"

lemma length_le64 [simp]: "length (le64 v) = 8"
  by (simp add: le64_def)

lemma ld64_le64: "length a = k \<Longrightarrow> ld64 (nth (a @ le64 v @ b)) k = v"
proof -
  assume k: "length a = k"
  have "ld32 (nth (a @ le64 v @ b)) k = ucast v" "ld32 (nth (a @ le64 v @ b)) (k + 4) = ucast (drop_bit 32 v)"
    using ld32_le32[of a k "ucast v" "le32 (ucast (drop_bit 32 v)) @ b"] ld32_le32[of "a @ le32 (ucast v)" "k + 4" "ucast (drop_bit 32 v)" b] k
    by (simp_all add: le64_def)
  moreover have "ucast (ucast v :: u32) OR push_bit 32 (ucast (ucast (drop_bit 32 v) :: u32)) = v"
    by (rule bit_word_eqI) (auto simp: bit_simps)
  ultimately show ?thesis by (simp add: ld64_def)
qed

lemma length_mv_bytes [simp]: "wf_mv h \<Longrightarrow> length (mv_bytes h) = 128"
  by (simp add: wf_mv_def mv_bytes_def)

lemma mv_header_of_bytes:
  assumes "wf_mv h"
  shows "mv_header_of (mv_bytes h @ d) = h"
proof -
  have len: "length (mv_magic h) = 4" "length (mv_name h) = 64" "length (mv_reserved h) = 8" using assms by (auto simp: wf_mv_def)
  let ?a = "mv_magic h @ le32 (mv_version h) @ le32 (mv_op h)"
  let ?b = "?a @ le32 (mv_rows h) @ le32 (mv_cols h) @ le32 (mv_kernel_id h)"
  let ?c = "?b @ le32 (mv_source h) @ le32 (mv_iters h)"
  let ?d = "?c @ le64 (mv_pcycles h) @ le64 (mv_usecs h)"
  note fields = ld32_le32[of "mv_magic h" 4 "mv_version h"] ld32_le32[of "mv_magic h @ le32 (mv_version h)" 8 "mv_op h"]
    ld32_le32[of ?a 12 "mv_rows h"] ld32_le32[of "?a @ le32 (mv_rows h)" 16 "mv_cols h"]
    ld32_le32[of "?a @ le32 (mv_rows h) @ le32 (mv_cols h)" 20 "mv_kernel_id h"]
    ld32_le32[of ?b 24 "mv_source h"] ld32_le32[of "?b @ le32 (mv_source h)" 28 "mv_iters h"]
    ld64_le64[of ?c 32 "mv_pcycles h"] ld64_le64[of "?c @ le64 (mv_pcycles h)" 40 "mv_usecs h"]
    ld32_le32[of ?d 48 "mv_status h"] ld32_le32[of "?d @ le32 (mv_status h)" 52 "mv_seed h"]
  show ?thesis using fields len by (simp add: mv_header_of_def mv_bytes_def)
qed

lemma le64_ld64: "k + 8 \<le> length b \<Longrightarrow> le64 (ld64 (nth b) k) = take 8 (drop k b)"
proof -
  assume k: "k + 8 \<le> length b"
  have "ucast (ld64 (nth b) k) = ld32 (nth b) k" "ucast (drop_bit 32 (ld64 (nth b) k)) = ld32 (nth b) (k + 4)"
    unfolding ld64_def by (rule bit_word_eqI; auto simp: bit_simps dest: bit_imp_le_length)+
  then show ?thesis using k by (simp add: le64_def le32_ld32 take_drop_add[of 4 k b 4])
qed

lemma mv_bytes_of:
  assumes "128 \<le> length b"
  shows "mv_bytes (mv_header_of b) = take 128 b" "wf_mv (mv_header_of b)"
proof -
  have "mv_bytes (mv_header_of b) = take 4 (drop 0 b) @ take 4 (drop 4 b) @ take 4 (drop 8 b) @ take 4 (drop 12 b) @
     take 4 (drop 16 b) @ take 4 (drop 20 b) @ take 4 (drop 24 b) @ take 4 (drop 28 b) @ take 8 (drop 32 b) @ take 8 (drop 40 b) @
     take 4 (drop 48 b) @ take 4 (drop 52 b) @ take 64 (drop 56 b) @ take 8 (drop 120 b)"
    using assms by (simp add: mv_bytes_def mv_header_of_def le32_ld32 le64_ld64)
  also have "\<dots> = take 128 b"
    using take_drop_add[of 64 56 b 8] take_drop_add[of 4 52 b 72] take_drop_add[of 4 48 b 76] take_drop_add[of 8 40 b 80]
      take_drop_add[of 8 32 b 88] take_drop_add[of 4 28 b 96] take_drop_add[of 4 24 b 100] take_drop_add[of 4 20 b 104]
      take_drop_add[of 4 16 b 108] take_drop_add[of 4 12 b 112] take_drop_add[of 4 8 b 116] take_drop_add[of 4 4 b 120]
      take_drop_add[of 4 0 b 124]
    by simp
  finally show "mv_bytes (mv_header_of b) = take 128 b" .
  show "wf_mv (mv_header_of b)" using assms by (simp add: wf_mv_def mv_header_of_def)
qed

subsection \<open>The problem\<close>

definition problem_w :: "mv_header \<Rightarrow> nat" where
  "problem_w h = unat (mv_rows h) * (unat (mv_cols h) div 32) * 34"

definition problem_x :: "mv_header \<Rightarrow> nat" where
  "problem_x h = unat (mv_cols h) * 4"

text \<open>An accepted number of columns keeps each 64-bit size in its range.\<close>

lemma unat_mv_x: "unat (mv_x_bytes h) = problem_x h"
proof -
  have "unat (mv_cols h) < 2 ^ 32" using unat_lt2p[of "mv_cols h"] by simp
  then show ?thesis unfolding mv_x_bytes_def problem_x_def by (subst unat_mult_le) (simp_all add: unat_ucast_up)
qed

lemma unat_mv_w:
  assumes "problem_x h \<le> INT_MAX"
  shows "unat (mv_w_bytes h) = problem_w h" "problem_w h < 2 ^ 62"
proof -
  have r: "unat (mv_rows h) < 2 ^ 32" using unat_lt2p[of "mv_rows h"] by simp
  have "unat (mv_cols h) < 2 ^ 29" using assms by (simp add: problem_x_def INT_MAX_def)
  then have c: "unat (mv_cols h) div 32 < 2 ^ 24" by simp
  have "unat (mv_rows h) * (unat (mv_cols h) div 32) \<le> (2 ^ 32) * (2 ^ 24)" using r c by (intro mult_le_mono) simp_all
  then have p: "unat (mv_rows h) * (unat (mv_cols h) div 32) \<le> 2 ^ 56" by simp
  then show "problem_w h < 2 ^ 62" by (simp add: problem_w_def)
  have d: "unat (ucast (mv_cols h div 32) :: u64) = unat (mv_cols h) div 32" by (simp add: unat_ucast_up unat_div)
  have m: "unat (ucast (mv_rows h) * ucast (mv_cols h div 32) :: u64) = unat (mv_rows h) * (unat (mv_cols h) div 32)"
    using p d by (subst unat_mult_le) (simp_all add: unat_ucast_up)
  show "unat (mv_w_bytes h) = problem_w h"
    unfolding mv_w_bytes_def problem_w_def using p m by (subst unat_mult_le) simp_all
qed

lemma problem_size:
  assumes "problem_x h \<le> INT_MAX"
  shows "unat (128 + mv_w_bytes h + mv_x_bytes h) = 128 + problem_w h + problem_x h"
proof -
  note w = unat_mv_w[OF assms]
  have x: "problem_x h < 2 ^ 31" using assms by (simp add: INT_MAX_def)
  have "unat (128 + mv_w_bytes h) = 128 + problem_w h" using w by (subst unat_add_le) simp_all
  then show ?thesis using w(2) x by (subst unat_add_le) (simp_all add: unat_mv_x)
qed

lemma read_problem_cases: "read_problem f = Some (h, b) \<longleftrightarrow>
    f_opens f \<and> f_seek_end f \<and> f_seek_set f \<and> f_malloc f \<and> f_fread f = b \<and> f_ftell f = int (length b) \<and>
    128 \<le> length b \<and> problem_ok b \<and> h = mv_header_of b"
  by (auto simp: read_problem_def Let_def split: if_splits)

lemma problem_ok_iff:
  assumes "128 \<le> length b" "h = mv_header_of b"
  shows "problem_ok b \<longleftrightarrow> mv_magic h = MV_MAGIC_PROBLEM \<and> mv_version h = MV_VERSION \<and> mv_op h = CAND_OP_MATVEC_Q8_0 \<and>
    0 < unat (mv_rows h) \<and> 0 < unat (mv_cols h) \<and> 32 dvd unat (mv_cols h) \<and>
    length b = 128 + problem_w h + problem_x h \<and> problem_w h \<le> INT_MAX \<and> problem_x h \<le> INT_MAX"
proof -
  have m: "mv_cols h mod 32 = 0 \<longleftrightarrow> 32 dvd unat (mv_cols h)"
    using unat_mod[of "mv_cols h" 32] by (simp add: dvd_eq_mod_eq_0 unat_eq_zero[symmetric])
  show ?thesis
  proof (cases "problem_x h \<le> INT_MAX")
    case True
    then show ?thesis using m unat_mv_w(1)[OF True] problem_size[OF True]
      by (auto simp: problem_ok_def Let_def assms(2)[symmetric] unat_mv_x unat_gt_0)
  qed (simp add: problem_ok_def Let_def assms(2)[symmetric] unat_mv_x)
qed

lemma problem_parts:
  assumes "128 \<le> length b" "h = mv_header_of b" "length b = 128 + m + n"
  obtains w x where "b = mv_bytes h @ w @ x" "length w = m" "length x = n" "wf_mv h"
proof
  show "b = mv_bytes h @ take m (drop 128 b) @ drop (128 + m) b"
    using mv_bytes_of(1)[OF assms(1)] by (simp add: assms(2) drop_drop[symmetric] add.commute del: drop_drop)
qed (use assms mv_bytes_of(2)[OF assms(1)] in auto)

text \<open>C40. \<open>read_problem\<close> accepts exactly the well-formed problem files: the header, the weights and the activation, with no byte
  before, between or after them, whose sizes are those of the header and fit in an \<open>int\<close>. No size wraps in 64 bits, and the
  header that it gives has the bytes of the file.\<close>

theorem read_problem_exact:
  "read_problem f = Some (h, b) \<longleftrightarrow>
    f_opens f \<and> f_seek_end f \<and> f_seek_set f \<and> f_malloc f \<and> f_fread f = b \<and> f_ftell f = int (length b) \<and>
    (\<exists>w x. wf_mv h \<and> b = mv_bytes h @ w @ x \<and> mv_magic h = MV_MAGIC_PROBLEM \<and> mv_version h = MV_VERSION \<and>
      mv_op h = CAND_OP_MATVEC_Q8_0 \<and> 0 < unat (mv_rows h) \<and> 0 < unat (mv_cols h) \<and> 32 dvd unat (mv_cols h) \<and>
      length w = unat (mv_rows h) * (unat (mv_cols h) div 32) * 34 \<and> length x = unat (mv_cols h) * 4 \<and>
      length w \<le> INT_MAX \<and> length x \<le> INT_MAX)" (is "?l \<longleftrightarrow> ?r")
proof
  assume "?l"
  then have r: "f_opens f \<and> f_seek_end f \<and> f_seek_set f \<and> f_malloc f \<and> f_fread f = b \<and> f_ftell f = int (length b)"
      "128 \<le> length b" "problem_ok b" "h = mv_header_of b"
    unfolding read_problem_cases by blast+
  note ok = problem_ok_iff[OF r(2,4), THEN iffD1, OF r(3)]
  obtain w x where p: "b = mv_bytes h @ w @ x" "length w = problem_w h" "length x = problem_x h" "wf_mv h"
    using problem_parts[OF r(2,4)] ok by blast
  then have "length w = unat (mv_rows h) * (unat (mv_cols h) div 32) * 34" "length x = unat (mv_cols h) * 4"
    by (simp_all only: problem_w_def problem_x_def)
  then show "?r" using r(1) ok p by metis
next
  assume r: "?r"
  then obtain w x where p: "wf_mv h" "b = mv_bytes h @ w @ x" "length w = problem_w h" "length x = problem_x h"
    unfolding problem_w_def problem_x_def by blast
  have b: "128 \<le> length b" "h = mv_header_of b" using p(1) mv_header_of_bytes[OF p(1), of "w @ x"] by (simp_all add: p(2))
  have "problem_ok b"
    unfolding problem_ok_iff[OF b] using r p(1,3,4) by (auto simp: p(2) problem_w_def problem_x_def)
  then show "?l" unfolding read_problem_cases using r b by blast
qed

end
