(* ===== verification/IsaprobeHandles.thy ===== *)
theory IsaprobeHandles
  imports IsaprobeProblem
begin

text \<open>
  The session of the host program of the ISA probe as a state machine on the history of the calls: which handle is open, and
  that each call uses the open handle. The lemmas follow the program, from the single calls to \<open>probe_main\<close>.
\<close>

subsection \<open>The state machine\<close>

definition target :: "host_call \<Rightarrow> u64 option" where
  "target c = (case c of H_info a \<Rightarrow> Some a | H_op_info a _ \<Rightarrow> Some a | H_stream_name a _ \<Rightarrow> Some a | H_run a _ _ _ _ \<Rightarrow> Some a
     | H_kernel_info a _ \<Rightarrow> Some a | H_kernel_run a _ _ _ _ _ \<Rightarrow> Some a | _ \<Rightarrow> None)"

text \<open>The open handle after a call, or \<^const>\<open>None\<close> when the call breaks the order.\<close>

definition handle_step :: "u64 option \<Rightarrow> host_call \<times> host_reply \<Rightarrow> u64 option option" where
  "handle_step s e = (case fst e of
     H_open \<Rightarrow> if s \<noteq> None then None else Some (if hr_err (snd e) = AEE_SUCCESS then Some (hr_handle (snd e)) else None)
   | H_close a \<Rightarrow> if s = Some a then Some None else None
   | c \<Rightarrow> if target c = None \<or> target c = s then Some s else None)"

fun handle_run :: "u64 option \<Rightarrow> host_log \<Rightarrow> u64 option option" where
  "handle_run s [] = Some s"
| "handle_run s (e # l) = Option.bind (handle_step s e) (\<lambda>s. handle_run s l)"

definition at :: "host_log \<Rightarrow> u64 option \<Rightarrow> bool" where
  "at h s \<longleftrightarrow> handle_run None h = Some s"

lemma handle_run_append: "handle_run s (l @ m) = Option.bind (handle_run s l) (\<lambda>s. handle_run s m)"
  by (induction l arbitrary: s) (simp_all add: Option.bind_assoc)

lemma hask_tell: "hask E c h = (hans E h c, tell E c h)"
  by (simp add: tell_def hask_def)

lemma at_tell: "at h s \<Longrightarrow> handle_step s (c, hans E h c) = Some s' \<Longrightarrow> at (tell E c h) s'"
  by (simp add: at_def tell_def hask_def handle_run_append)

subsection \<open>The calls of a part of the program\<close>

definition logs :: "(host_call \<Rightarrow> bool) \<Rightarrow> host_log \<Rightarrow> host_log \<Rightarrow> bool" where
  "logs P h h' \<longleftrightarrow> (\<exists>x. h' = h @ x \<and> (\<forall>e\<in>set x. P (fst e)))"

definition runs :: "host_call \<Rightarrow> bool" where
  "runs c = (case c of H_run _ _ _ _ _ \<Rightarrow> True | H_kernel_run _ _ _ _ _ _ \<Rightarrow> True | _ \<Rightarrow> False)"

text \<open>A call that keeps the session and uses only the handle \<open>a\<close>.\<close>

definition uses :: "u64 \<Rightarrow> host_call \<Rightarrow> bool" where
  "uses a c = (case c of H_open \<Rightarrow> False | H_close _ \<Rightarrow> False | _ \<Rightarrow> target c = None \<or> target c = Some a)"

definition quiet :: "u64 \<Rightarrow> host_call \<Rightarrow> bool" where
  "quiet a c \<longleftrightarrow> uses a c \<and> \<not> runs c"

lemma logs_refl [simp]: "logs P h h"
  by (simp add: logs_def)

lemma logs_trans [trans]: "logs P h h' \<Longrightarrow> logs P h' h'' \<Longrightarrow> logs P h h''"
  unfolding logs_def by (metis Un_iff append.assoc set_append)

lemma logs_mono: "logs P h h' \<Longrightarrow> (\<And>c. P c \<Longrightarrow> Q c) \<Longrightarrow> logs Q h h'"
  unfolding logs_def by blast

lemma logs_tell: "logs P h h' \<Longrightarrow> P c \<Longrightarrow> logs P h (tell E c h')"
  unfolding logs_def tell_def hask_def by fastforce

lemma quiet_uses: "logs (quiet a) h h' \<Longrightarrow> logs (uses a) h h'"
  by (erule logs_mono) (simp add: quiet_def)

lemma uses_step: "uses a c \<Longrightarrow> handle_step (Some a) (c, r) = Some (Some a)"
  by (cases c) (simp_all add: uses_def handle_step_def target_def split: if_splits)

lemma uses_at:
  assumes "logs (uses a) h h'" "at h (Some a)"
  shows "at h' (Some a)"
proof -
  have "\<forall>e\<in>set x. uses a (fst e) \<Longrightarrow> handle_run (Some a) x = Some (Some a)" for x
    by (induction x) (auto simp: uses_step)
  then show ?thesis using assms by (auto simp: logs_def at_def handle_run_append)
qed

lemma logs_before: "logs P (tell E c h) h' \<Longrightarrow> P c \<Longrightarrow> logs P h h'"
  by (rule logs_trans[OF logs_tell[OF logs_refl]])

lemma quiet_calls [simp]:
  "quiet a H_load" "quiet a (H_capability u)" "quiet a H_unsigned" "quiet a (H_info a)" "quiet a (H_op_info a u)"
  "quiet a (H_stream_name a u)" "quiet a (H_kernel_info a u)" "quiet a (H_alloc n)" "quiet a (H_free b)" "quiet a (H_free_stream n)"
  "quiet a H_free_problem" "quiet a (H_read_file f)" "quiet a (H_write_file f bs)" "quiet a (H_record_open f)" "quiet a (H_record l)"
  "quiet a H_record_close" "quiet a H_now" "quiet a (H_print_kernels u)" "quiet a (H_print_kernel u f v)"
  "quiet a (H_print_report v n i m)"
  by (simp_all add: quiet_def uses_def runs_def target_def)

lemma quiet_is_used [simp]: "quiet a c \<Longrightarrow> uses a c"
  by (simp add: quiet_def)

lemma run_calls [simp]: "uses a (H_run a u ins n v)" "uses a (H_kernel_run a u ps w x n)"
  by (simp_all add: uses_def target_def)

subsection \<open>The parts\<close>

lemma load_stream_logs: "load_stream E dir a ident c h = (ok, c', h') \<Longrightarrow> logs (quiet a) h h'"
  unfolding load_stream_def hask_tell Let_def
  by (auto split: if_splits option.splits intro!: logs_tell)

lemma write_file_logs: "write_file E dir file op_id name d arch source bs len h = (ok, h') \<Longrightarrow> logs (quiet a) h h'"
  unfolding write_file_def hask_tell Let_def
  by (auto split: option.splits intro!: logs_tell)

lemma write_oracle_logs: "write_oracle E dir op_id name d ins n h = Some (w, h') \<Longrightarrow> logs (quiet a) h h'"
  unfolding write_oracle_def hask_tell Let_def
  by (auto split: option.splits if_splits prod.splits intro!: logs_tell dest!: write_file_logs[where a = a] logs_before)

lemma census_inputs_logs: "census_inputs E dir a d js c h = (ins, c', h') \<Longrightarrow> logs (quiet a) h h'"
proof (induction js arbitrary: ins c c' h h')
  case (Cons j js)
  then show ?case
    by (auto simp: Let_def split: if_splits prod.splits dest!: load_stream_logs Cons.IH intro: logs_trans)
qed simp

lemma list_kernels_from_logs: "list_kernels_from E a k n h = (code, h') \<Longrightarrow> logs (quiet a) h h'"
proof (induction E a k n h rule: list_kernels_from.induct)
  case (1 E a k n h)
  show ?case
    using 1(2) 1(1)[OF _ prod.collapse refl]
    by (subst (asm) list_kernels_from.simps)
      (auto simp: hask_tell Let_def split: if_splits option.splits intro!: logs_tell dest!: logs_before)
qed

lemma list_kernels_logs: "list_kernels E a h = (code, h') \<Longrightarrow> logs (quiet a) h h'"
  unfolding list_kernels_def hask_tell Let_def
  by (auto split: if_splits option.splits intro!: logs_tell dest!: list_kernels_from_logs logs_before)

lemma find_kernel_from_logs:
  assumes "find_kernel_from E a key k h = Some (f, h')"
  shows "logs (quiet a) h h'"
proof -
  have "logs (quiet a) h (snd (f, h'))"
  proof (rule find_kernel_from.raw_induct[OF _ assms, where P = "\<lambda>E a key k h r. logs (quiet a) h (snd r)"], goal_cases)
    case (1 rec E a key k h r)
    from 1(2) show ?case
      by (auto simp: hask_tell Let_def split: if_splits option.splits intro!: logs_tell dest!: 1(1) logs_before)
  qed
  then show ?thesis by simp
qed

lemma write_result_logs: "write_result E dir file hdr y h = (ok, h') \<Longrightarrow> logs (quiet a) h h'"
  unfolding write_result_def hask_tell Let_def
  by (auto split: option.splits intro!: logs_tell)

lemma cpu_reference_logs: "cpu_reference E n m h = (us, h') \<Longrightarrow> logs (quiet a) h h'"
proof (induction n arbitrary: m h)
  case (Suc n)
  from Suc.prems show ?case by (auto simp: hask_tell Let_def dest!: Suc.IH logs_before)
qed simp

lemma free_all_logs: "logs P h h' \<Longrightarrow> (\<And>b. P (H_free b)) \<Longrightarrow> P H_free_problem \<Longrightarrow> logs P h (free_all E addrs h')"
proof -
  assume P: "logs P h h'" "\<And>b. P (H_free b)" "P H_free_problem"
  have "logs P h h1 \<Longrightarrow> logs P h (fold (\<lambda>a. if a = 0 then (\<lambda>h. h) else tell E (H_free a)) addrs h1)" for h1
    by (induction addrs arbitrary: h1) (simp_all add: logs_tell P(2))
  then show ?thesis unfolding free_all_def by (simp add: logs_tell P)
qed

lemma free_corpus_logs: "logs P h h' \<Longrightarrow> (\<And>n. P (H_free_stream n)) \<Longrightarrow> logs P h (free_corpus E c h')"
proof -
  assume P: "logs P h h'" "\<And>n. P (H_free_stream n)"
  have "logs P h h1 \<Longrightarrow> logs P h (fold (\<lambda>s. if c s = None then (\<lambda>h. h) else tell E (H_free_stream s)) ns h1)" for ns h1
    by (induction ns arbitrary: h1) (simp_all add: logs_tell P(2))
  then show ?thesis unfolding free_corpus_def using P(1) by simp
qed

lemma host_info_logs: "host_info E a h = (code, info, h') \<Longrightarrow> logs (quiet a) h h'"
  unfolding host_info_def dsp_capability_def hask_tell Let_def
  by (auto split: if_splits option.splits intro!: logs_tell)

lemma kernel_compare_logs: "kernel_compare E a ident kname p file dir iters h = (code, h') \<Longrightarrow> logs (uses a) h h'"
  unfolding kernel_compare_def hask_tell Let_def
  by (auto split: if_splits prod.splits intro!: logs_tell
      dest!: write_result_logs[where a = a, THEN quiet_uses] cpu_reference_logs[where a = a, THEN quiet_uses] logs_before
      intro: logs_trans)

lemma solve_problem_logs: "solve_problem E a ident kname p file dir iters h = (code, h') \<Longrightarrow> logs (uses a) h h'"
  unfolding solve_problem_def hask_tell Let_def
  by (auto split: if_splits prod.splits intro!: logs_tell free_all_logs dest!: kernel_compare_logs logs_before)

lemma run_kernel_logs:
  assumes "run_kernel E a key path dir iters h = Some (code, h')"
  shows "logs (uses a) h h'"
proof -
  obtain f h1 where f: "find_kernel_from E a key 0 h = Some (f, h1)"
    using assms by (auto simp: run_kernel_def find_kernel_def bind_eq_Some_conv)
  have "logs (uses a) h1 h'"
    using assms f unfolding run_kernel_def find_kernel_def hask_tell Let_def
    by (auto split: if_splits option.splits intro!: logs_tell dest!: solve_problem_logs logs_before)
  then show ?thesis using find_kernel_from_logs[OF f] by (blast intro: logs_trans quiet_uses)
qed

subsection \<open>The census\<close>

text \<open>A successful open gives a handle other than 0, as FastRPC documents it.\<close>

definition opens_ok :: "host_env \<Rightarrow> bool" where
  "opens_ok E \<longleftrightarrow> (\<forall>h. hr_err (hans E h H_open) = AEE_SUCCESS \<longrightarrow> hr_handle (hans E h H_open) \<noteq> 0)"

definition open_at :: "host_log \<Rightarrow> u64 \<Rightarrow> bool" where
  "open_at h a \<longleftrightarrow> at h (if a = 0 then None else Some a)"

lemma probe_open_at:
  assumes "probe_open E h = (code, a, h')" "at h None" "opens_ok E"
  shows "open_at h' a" "code = 0 \<longleftrightarrow> a \<noteq> 0"
proof -
  have u: "at (tell E H_unsigned h) None" using assms(2) by (rule at_tell) (simp add: handle_step_def target_def)
  then have "at (tell E H_open (tell E H_unsigned h))
      (if hr_err (hans E (tell E H_unsigned h) H_open) = AEE_SUCCESS then Some (hr_handle (hans E (tell E H_unsigned h) H_open)) else None)"
    by (rule at_tell) (simp add: handle_step_def)
  then show "open_at h' a" "code = 0 \<longleftrightarrow> a \<noteq> 0"
    using assms(1,3) u by (auto simp: probe_open_def hask_tell open_at_def opens_ok_def probe_exits split: if_splits)
qed

lemma probe_close_at: "at h (Some a) \<Longrightarrow> at (probe_close E a h) None"
  unfolding probe_close_def by (rule at_tell) (simp_all add: handle_step_def)

lemma probe_open_logs: "probe_open E h = (code, a, h') \<Longrightarrow> (\<And>c. \<not> runs c \<Longrightarrow> P c) \<Longrightarrow> logs P h h'"
  unfolding probe_open_def hask_tell Let_def by (auto split: if_splits intro!: logs_tell simp: runs_def)

text \<open>After an op with the code 0 a handle is open; else the program closes what is left.\<close>

lemma census_call_at:
  assumes "census_call E cs op_id name d ins n run h = (code, run', h')" "at h (Some (r_handle run))" "r_handle run \<noteq> 0" "opens_ok E"
  shows "open_at h' (r_handle run')" "code = 0 \<Longrightarrow> r_handle run' \<noteq> 0"
proof -
  let ?a = "r_handle run"
  define h1 where "h1 = tell E (H_run ?a op_id (map (map_option (\<lambda>(b, n). take n b)) ins) n (o_n_vectors d)) (tell E (H_record (Rec_run op_id name)) h)"
  have l1: "logs (uses ?a) h h1" unfolding h1_def by (intro logs_tell logs_refl) simp_all
  have same: "open_at h2 ?a" if "logs (uses ?a) h1 h2" for h2
    using uses_at[OF logs_trans[OF l1 that] assms(2)] assms(3) by (simp add: open_at_def)
  have reopen: "open_at h3 b \<and> (c = 0 \<longrightarrow> b \<noteq> 0)" if "logs (uses ?a) h1 h2" "probe_open E (probe_close E ?a h2) = (c, b, h3)" for h2 h3 b c
    using probe_open_at[OF that(2) probe_close_at assms(4)] uses_at[OF logs_trans[OF l1 that(1)] assms(2)] by blast
  show "open_at h' (r_handle run')" "code = 0 \<Longrightarrow> r_handle run' \<noteq> 0"
    using assms(1,3) unfolding census_call_def hask_tell Let_def h1_def[symmetric]
    by (auto split: if_splits prod.splits simp: probe_exits intro!: same logs_tell
        dest!: write_file_logs[where a = ?a, THEN quiet_uses] reopen[OF logs_tell[OF logs_refl], rotated])
      (use same in blast)
qed

lemma census_call_ext: "census_call E cs op_id name d ins n run h = (code, run', h') \<Longrightarrow> logs (\<lambda>_. True) h h'"
proof -
  have w: "logs (\<lambda>_. True) h1 h2" if "write_file E dir f op_id name d arch source bs len h1 = (ok, h2)" for dir f op_id name d arch source bs len h1 ok h2
    using write_file_logs[OF that] by (rule logs_mono) simp
  assume "census_call E cs op_id name d ins n run h = (code, run', h')"
  then show ?thesis
    unfolding census_call_def hask_tell Let_def probe_close_def
    by (auto split: if_splits prod.splits intro!: logs_tell
        dest!: w logs_before[where P = "\<lambda>_. True"] probe_open_logs[where P = "\<lambda>_. True"])
qed

lemma census_exec_at:
  assumes "census_exec E cs op_id name d ins run h = Some (code, run', h')" "at h (Some (r_handle run))" "r_handle run \<noteq> 0" "opens_ok E"
  shows "open_at h' (r_handle run') \<and> (code = 0 \<longrightarrow> r_handle run' \<noteq> 0)"
proof -
  have q: "open_at h2 a" if "logs (quiet a) h1 h2" "open_at h1 a" "a \<noteq> 0" for h1 h2 a
    using uses_at[OF quiet_uses[OF that(1)]] that by (simp add: open_at_def)
  have f: "open_at (tell E (H_free b) h1) a" if "open_at h1 a" for h1 a b
    using that unfolding open_at_def by (rule at_tell) (simp add: handle_step_def target_def)
  have h: "open_at h (r_handle run)" using assms(2,3) by (simp add: open_at_def)
  have c: "open_at h2 (r_handle run2) \<and> (code1 = 0 \<longrightarrow> r_handle run2 \<noteq> 0)"
    if "census_call E cs op_id name d ins n run (tell E (H_alloc m) h) = (code1, run2, h2)" for n m code1 run2 h2
    using census_call_at[OF that _ assms(3,4)] uses_at[OF logs_tell[OF logs_refl] assms(2)] by simp
  have w: "open_at h3 a" if "write_oracle E dir op_id name d is n h2 = Some (x, h3)" "open_at h2 a" "a \<noteq> 0" for dir "is" n h2 x h3 a
    using q[OF write_oracle_logs[OF that(1)] that(2,3)] .
  have m: "open_at (tell E (H_alloc m) h) (r_handle run)" for m using q[OF logs_tell[OF logs_refl] h assms(3)] by simp
  show ?thesis
    using assms(1,3) h m unfolding census_exec_def hask_tell Let_def
    by (auto simp: bind_eq_Some_conv probe_exits split: if_splits prod.splits intro!: f dest!: c intro: w f)
qed

lemma census_exec_ext: "census_exec E cs op_id name d ins run h = Some (code, run', h') \<Longrightarrow> logs (\<lambda>_. True) h h'"
  unfolding census_exec_def hask_tell Let_def
  by (auto simp: bind_eq_Some_conv split: if_splits prod.splits intro!: logs_tell
      dest!: census_call_ext logs_before[where P = "\<lambda>_. True"] write_oracle_logs[THEN quiet_uses, THEN logs_mono[where Q = "\<lambda>_. True"]]
      intro: logs_trans)

text \<open>The ways in which an op can end.\<close>

lemma census_op_cases:
  assumes "census_op E cs only op_id run h = Some (code, run', h')"
  obtains (failed) "code \<noteq> 0" "logs (quiet (r_handle run)) h h'" "r_handle run' = r_handle run"
  | (skipped) t where "code = 0" "only = Some t" "\<not> contains t (hr_name (hans E h (H_op_info (r_handle run) op_id)))" "run' = run"
      "h' = tell E (H_op_info (r_handle run) op_id) h"
  | (unavailable) "code = 0" "run' = run\<lparr>r_n_unavailable := r_n_unavailable run + 1\<rparr>"
      "h' = tell E (H_record (Rec_unavailable op_id (hr_name (hans E h (H_op_info (r_handle run) op_id))))) (tell E (H_op_info (r_handle run) op_id) h)"
  | (ran) d name ins c h1 where "d = hr_op (hans E h (H_op_info (r_handle run) op_id))" "name = hr_name (hans E h (H_op_info (r_handle run) op_id))"
      "census_inputs E (cs_corpus_dir cs) (r_handle run) d [0, 1, 2] (r_corpus run) (tell E (H_op_info (r_handle run) op_id) h) = (Some ins, c, h1)"
      "census_exec E cs op_id name d ins (run\<lparr>r_corpus := c\<rparr>) h1 = Some (code, run', h')" "logs (quiet (r_handle run)) h h1"
proof -
  let ?r = "hans E h (H_op_info (r_handle run) op_id)" and ?h = "tell E (H_op_info (r_handle run) op_id) h"
  obtain ins c h1 where i: "census_inputs E (cs_corpus_dir cs) (r_handle run) (hr_op ?r) [0, 1, 2] (r_corpus run) ?h = (ins, c, h1)"
    by (metis prod_cases3)
  have l: "logs (quiet (r_handle run)) h ?h" by (intro logs_tell logs_refl quiet_calls)
  have l1: "logs (quiet (r_handle run)) h h1" using logs_trans[OF l census_inputs_logs[OF i]] .
  show thesis
    using assms i l l1 unfolding census_op_def hask_tell Let_def prod.case i
    by (auto split: if_splits option.splits simp: probe_exits
        intro: failed skipped unavailable ran[OF refl refl i[THEN trans]])
qed

lemma census_op_at:
  assumes "census_op E cs only op_id run h = Some (code, run', h')" "at h (Some (r_handle run))" "r_handle run \<noteq> 0" "opens_ok E"
  shows "open_at h' (r_handle run') \<and> (code = 0 \<longrightarrow> r_handle run' \<noteq> 0)"
  using assms(1)
proof (cases rule: census_op_cases)
  case failed
  then show ?thesis using uses_at[OF quiet_uses[OF failed(2)] assms(2)] assms(3) by (simp add: open_at_def)
next
  case skipped
  then show ?thesis using uses_at[OF logs_tell[OF logs_refl] assms(2)] assms(3) by (simp add: open_at_def)
next
  case unavailable
  then show ?thesis using uses_at[OF logs_tell[OF logs_tell[OF logs_refl]] assms(2)] assms(3) by (simp add: open_at_def)
next
  case (ran d name ins c h1)
  then show ?thesis using census_exec_at[OF ran(4)] uses_at[OF quiet_uses[OF ran(5)] assms(2)] assms(3,4) by simp
qed

lemma census_op_ext: "census_op E cs only op_id run h = Some (code, run', h') \<Longrightarrow> logs (\<lambda>_. True) h h'"
proof (erule census_op_cases, goal_cases)
  case (4 d name ins c h1)
  then show ?case by (blast intro: logs_trans logs_mono[where Q = "\<lambda>_. True"] census_exec_ext)
qed (auto intro!: logs_tell elim: logs_mono)

lemma census_loop_at:
  "census_loop E cs only ks run h = Some (code, run', h') \<Longrightarrow> at h (Some (r_handle run)) \<Longrightarrow> r_handle run \<noteq> 0 \<Longrightarrow> opens_ok E \<Longrightarrow>
    open_at h' (r_handle run') \<and> logs (\<lambda>_. True) h h'"
proof (induction ks arbitrary: run h)
  case (Cons k ks)
  then obtain code1 run1 h1 where o: "census_op E cs only (of_nat k) run h = Some (code1, run1, h1)"
    "if code1 \<noteq> 0 then (code, run', h') = (code1, run1, h1) else census_loop E cs only ks run1 h1 = Some (code, run', h')"
    by (auto simp: bind_eq_Some_conv split: if_splits)
  note n = census_op_at[OF o(1) Cons.prems(2-4)] and e = census_op_ext[OF o(1)]
  show ?case
  proof (cases "code1 = 0")
    case True
    then show ?thesis using Cons.IH[OF _ _ _ Cons.prems(4), of run1 h1] o(2) n e by (auto simp: open_at_def intro: logs_trans)
  qed (use o(2) n e in auto)
qed (simp add: open_at_def)

text \<open>A call that does not use the session.\<close>

definition silent :: "host_call \<Rightarrow> bool" where
  "silent c = (case c of H_open \<Rightarrow> False | H_close _ \<Rightarrow> False | _ \<Rightarrow> target c = None)"

lemma silent_calls [simp]:
  "silent H_load" "silent (H_capability u)" "silent (H_free_stream n)" "silent (H_record_open f)" "silent (H_record l)" "silent H_record_close"
  by (simp_all add: silent_def target_def)

lemma silent_at:
  assumes "logs silent h h'" "at h s"
  shows "at h' s"
proof -
  have "silent c \<Longrightarrow> handle_step s (c, r) = Some s" for c r
    by (cases c) (simp_all add: silent_def handle_step_def target_def)
  then have "\<forall>e\<in>set x. silent (fst e) \<Longrightarrow> handle_run s x = Some s" for x
    by (induction x) auto
  then show ?thesis using assms by (auto simp: logs_def at_def handle_run_append)
qed

definition census_start :: "u64 \<Rightarrow> census_run" where
  "census_start a = \<lparr>r_handle = a, r_corpus = (\<lambda>_. None), r_n_ok = 0, r_n_bad = 0, r_n_unavailable = 0, r_n_oracle = 0, r_restarts = 0\<rparr>"

text \<open>The log at the start of the ops.\<close>

definition census_log :: "host_env \<Rightarrow> dsp_info \<Rightarrow> bool \<Rightarrow> string option \<Rightarrow> string \<Rightarrow> host_log \<Rightarrow> host_log" where
  "census_log E info neg only path h = tell E (H_record (Rec_header info neg only)) (tell E (H_record_open path) h)"

lemma run_census_cases:
  assumes "run_census E a info dir out only neg orc h = Some (code, a', h')"
  obtains (early) "code \<noteq> 0" "a' = a" "logs silent h h'"
  | (ran) path run code1 h2 r h3 where "unat (di_n_ops info) = ISA_N_OPS"
      "census_loop E \<lparr>cs_corpus_dir = dir, cs_out_dir = out, cs_skel_arch = di_skel_arch info, cs_oracle = orc\<rparr> only [0..<ISA_N_OPS]
        (census_start a) (census_log E info neg only path h) = Some (code1, run, h2)"
      "a' = r_handle run" "h3 = tell E H_record_close (tell E (H_record r) h2)" "h' = free_corpus E (r_corpus run) h3"
      "code = 0 \<Longrightarrow> code1 = 0 \<and> r_n_bad run = 0"
proof (cases "di_n_ops info = 0 \<or> di_n_ops info \<noteq> of_nat ISA_N_OPS \<or> di_n_streams info \<noteq> of_nat ISA_S_COUNT")
  case True
  then show thesis using assms early by (auto simp: run_census_def probe_exits split: if_splits)
next
  case False
  note go = assms[unfolded run_census_def if_not_P[OF False[unfolded de_Morgan_disj, THEN conjunct1]]
      if_not_P[OF False[unfolded de_Morgan_disj, THEN conjunct2, folded de_Morgan_disj]]]
  have n: "unat (di_n_ops info) = ISA_N_OPS" using False by (simp add: ISA_N_OPS_def)
  show thesis
  proof (cases "census_join (enc_error E) 4096 out RECORD_NAME")
    case None
    then show thesis using go early by (simp add: probe_exits)
  next
    case (Some path)
    note go = go[unfolded Some option.case hask_tell Let_def prod.case]
    show thesis
    proof (cases "hr_ok (hans E h (H_record_open path))")
      case True
      note go = go[unfolded census_log_def[symmetric] census_start_def[symmetric] n, simplified True, simplified]
      obtain code1 run h2 where l: "census_loop E \<lparr>cs_corpus_dir = dir, cs_out_dir = out, cs_skel_arch = di_skel_arch info, cs_oracle = orc\<rparr>
          only [0..<ISA_N_OPS] (census_start a) (census_log E info neg only path h) = Some (code1, run, h2)"
        using go by (auto simp: bind_eq_Some_conv)
      show thesis using go[unfolded l] by (intro ran[OF n l _ refl]) (auto simp: probe_exits split: if_splits)
    qed (use go early in \<open>auto simp: probe_exits logs_tell\<close>)
  qed
qed

lemma run_census_at:
  assumes "run_census E a info dir out only neg orc h = Some (code, a', h')" "at h (Some a)" "a \<noteq> 0" "opens_ok E"
  shows "open_at h' a' \<and> logs (\<lambda>_. True) h h'"
  using assms(1)
proof (cases rule: run_census_cases)
  case early
  then show ?thesis using silent_at[OF _ assms(2)] assms(3) by (auto simp: open_at_def elim: logs_mono)
next
  case (ran path run code1 h2 r h3)
  have l: "logs silent h (census_log E info neg only path h)" unfolding census_log_def by (intro logs_tell logs_refl silent_calls)
  have e: "logs silent h2 h'" unfolding ran by (intro free_corpus_logs logs_tell logs_refl silent_calls)
  have "open_at h2 a' \<and> logs (\<lambda>_. True) (census_log E info neg only path h) h2"
    using census_loop_at[OF ran(2)] silent_at[OF l assms(2)] assms(3,4) ran(3) by (simp add: census_start_def)
  then show ?thesis
    using silent_at[OF e] l e unfolding open_at_def by (blast intro: logs_trans logs_mono[where Q = "\<lambda>_. True"])
qed

subsection \<open>The program\<close>

text \<open>The work runs only after \<open>probe_info\<close> and the version gate.\<close>

lemma probe_session_cases:
  assumes "probe_session E p mode a h = Some (code, a', h')"
  obtains (stopped) "code \<noteq> 0" "a' = a" "logs (quiet a) h h'"
  | (worked) info h1 h2 where "host_info E a h = (0, Some info, h1)" "logs (quiet a) h h2" "logs (quiet a) h1 h2"
      "version_gate info (pa_allow_newer p) = 0" "probe_work E p mode info a h2 = Some (code, a', h')"
proof -
  obtain c info h1 where i: "host_info E a h = (c, info, h1)" by (metis prod_cases3)
  obtain c2 h2 where k: "(if c = 0 \<and> mode = M_info then list_kernels E a h1 else (c, h1)) = (c2, h2)" by (metis prod.exhaust)
  have l: "logs (quiet a) h h1" "logs (quiet a) h1 h2"
    using host_info_logs[OF i] k by (auto split: if_splits dest: list_kernels_logs)
  note l2 = logs_trans[OF l]
  have ps: "probe_session E p mode a h = (let code = if c2 = 0 then version_gate (the info) (pa_allow_newer p) else c2
      in if code = 0 then probe_work E p mode (the info) a h2 else Some (code, a, h2))"
    unfolding probe_session_def i Let_def prod.case k by simp
  show thesis
  proof (cases "c2 = 0 \<and> version_gate (the info) (pa_allow_newer p) = 0")
    case True
    then have "c = 0" using k by (auto split: if_splits)
    then obtain j where "info = Some j" using i by (auto simp: host_info_def Let_def probe_exits split: prod.splits if_splits)
    then show thesis using worked[of j h1 h2] True ps assms i k l l2 \<open>c = 0\<close> by simp
  next
    case False
    then show thesis using stopped assms ps l2 by (auto split: if_splits)
  qed
qed

lemma probe_work_at:
  assumes "probe_work E p mode info a h = Some (code, a', h')" "at h (Some a)" "a \<noteq> 0" "opens_ok E"
  shows "open_at h' a' \<and> logs (\<lambda>_. True) h h'"
proof (cases mode)
  case (M_kernel key problem out)
  then have "logs (uses a) h h'" "a' = a" using assms(1) by (auto simp: probe_work_def dest: run_kernel_logs)
  then show ?thesis using uses_at[OF _ assms(2)] assms(3) by (auto simp: open_at_def elim: logs_mono)
next
  case M_info
  then show ?thesis using assms by (auto simp: probe_work_def open_at_def)
next
  case (M_census dir out)
  then show ?thesis using assms(1) run_census_at[OF _ assms(2-4)] by (auto simp: probe_work_def)
qed

text \<open>The ways in which \<open>main\<close> can end.\<close>

lemma probe_main_cases:
  assumes "probe_main E argv h = Some (code, h')"
  obtains (early) "code \<noteq> 0" "logs (\<lambda>c. silent c \<and> \<not> runs c) h h'"
  | (no_session) h1 a where "logs (\<lambda>c. silent c \<and> \<not> runs c) h h1" "probe_open E h1 = (code, a, h')" "code \<noteq> 0"
  | (session) p mode h1 a h2 a' h3 where "probe_options (tl argv) probe_args0 = Some p" "probe_mode_of (pa_args p) = Some mode"
      "logs (\<lambda>c. silent c \<and> \<not> runs c) h h1" "probe_open E h1 = (0, a, h2)" "probe_session E p mode a h2 = Some (code, a', h3)"
      "h' = (if a' \<noteq> 0 then probe_close E a' h3 else h3)"
proof -
  have l: "logs (\<lambda>c. silent c \<and> \<not> runs c) h (tell E H_load h)"
    "logs (\<lambda>c. silent c \<and> \<not> runs c) h (tell E (H_capability u) (tell E H_load h))" for u
    by (intro logs_tell logs_refl; simp add: runs_def)+
  have go: thesis if "probe_options (tl argv) probe_args0 = Some p" "probe_mode_of (pa_args p) = Some mode"
      "logs (\<lambda>c. silent c \<and> \<not> runs c) h h1" "(case probe_open E h1 of (code, hnd, h) \<Rightarrow> if code \<noteq> 0 then Some (code, h)
        else map_option (\<lambda>(code, hnd, h). (code, if hnd \<noteq> 0 then probe_close E hnd h else h)) (probe_session E p mode hnd h)) = Some (code, h')"
    for p mode h1
  proof -
    note t = that
    obtain c a h2 where o: "probe_open E h1 = (c, a, h2)" by (metis prod_cases3)
    show thesis
    proof (cases "c = 0")
      case True
      then obtain a' h3 where "probe_session E p mode a h2 = Some (code, a', h3)" "h' = (if a' \<noteq> 0 then probe_close E a' h3 else h3)"
        using t(4) o by auto
      then show thesis using session[OF t(1-3)] o True by simp
    next
      case False
      then show thesis using no_session[OF t(3)] t(4) o by simp
    qed
  qed
  show thesis
    using assms l unfolding probe_main_def hask_tell Let_def dsp_capability_def prod.case
    by (auto simp del: neq0_conv simp: probe_exits split: option.splits if_splits intro: early go)
qed

text \<open>C15. The host program of the ISA probe closes each session that it opens, exactly one time, and each call uses the
  session that is open at that time. This holds on each path: also when a call fails, and when the census opens new sessions
  after a fault of the DSP process.\<close>

theorem probe_main_closes:
  assumes "probe_main E argv [] = Some (code, h)" "opens_ok E"
  shows "handle_run None h = Some None"
proof -
  have start: "at h1 None" if "logs (\<lambda>c. silent c \<and> \<not> runs c) [] h1" for h1
    by (rule silent_at[OF logs_mono[OF that]]) (simp_all add: at_def)
  have "at h None"
    using assms(1)
  proof (cases rule: probe_main_cases)
    case early
    then show ?thesis using start by blast
  next
    case (no_session h1 a)
    then show ?thesis using probe_open_at[OF no_session(2) start assms(2)] by (simp add: open_at_def)
  next
    case (session p mode h1 a h2 a' h3)
    have a: "at h2 (Some a)" "a \<noteq> 0" using probe_open_at[OF session(4) start[OF session(3)] assms(2)] by (simp_all add: open_at_def)
    have "open_at h3 a'"
      using session(5)
    proof (cases rule: probe_session_cases)
      case stopped
      then show ?thesis using uses_at[OF quiet_uses[OF stopped(3)] a(1)] a(2) by (simp add: open_at_def)
    next
      case (worked info h4 h5)
      then show ?thesis using probe_work_at[OF worked(5) uses_at[OF quiet_uses[OF worked(2)] a(1)] a(2) assms(2)] by simp
    qed
    then show ?thesis using probe_close_at[of h3 a'] by (auto simp: session(6) open_at_def)
  qed
  then show ?thesis by (simp add: at_def)
qed

lemma no_run: "logs P h h' \<Longrightarrow> (\<And>c. P c \<Longrightarrow> \<not> runs c) \<Longrightarrow> \<forall>e\<in>set h. \<not> runs (fst e) \<Longrightarrow> \<forall>e\<in>set h'. \<not> runs (fst e)"
  unfolding logs_def by fastforce

lemma quiet_no_run: "quiet a c \<Longrightarrow> \<not> runs c"
  by (simp add: quiet_def)

text \<open>C16. The version gate: the program runs an op of the census or a kernel on the DSP only after the DSP told its facts, and
  then the library is not newer than the chip, whose version is known, or the command line has \<open>--allow-newer-skel\<close>.\<close>

theorem probe_gate:
  assumes "probe_main E argv [] = Some (code, h)" "(c, r) \<in> set h" "runs c" "opens_ok E"
  shows "\<exists>p a h0 info h1. probe_options (tl argv) probe_args0 = Some p \<and> host_info E a h0 = (0, Some info, h1) \<and>
    take (length h1) h = h1 \<and> (\<forall>e\<in>set h1. \<not> runs (fst e)) \<and>
    (pa_allow_newer p \<or> (chip_arch info \<noteq> 0 \<and> sint (di_skel_arch info) \<le> int (chip_arch info)))"
  using assms(1)
proof (cases rule: probe_main_cases)
  case early
  then show ?thesis using no_run[OF early(2)] assms(2,3) by fastforce
next
  case (no_session h1 a)
  have "\<forall>e\<in>set h1. \<not> runs (fst e)" using no_run[OF no_session(1)] by simp
  then show ?thesis using no_run[OF probe_open_logs[OF no_session(2), of "\<lambda>c. \<not> runs c"]] assms(2,3) by fastforce
next
  case (session p mode h1 a h2 a' h3)
  have "\<forall>e\<in>set h1. \<not> runs (fst e)" using no_run[OF session(3)] by simp
  then have n2: "\<forall>e\<in>set h2. \<not> runs (fst e)" using no_run[OF probe_open_logs[OF session(4), of "\<lambda>c. \<not> runs c"]] by simp
  have h: "logs (\<lambda>_. True) h3 h" "set h \<subseteq> set h3 \<union> {(H_close a', hans E h3 (H_close a'))}"
    unfolding session(6) probe_close_def by (auto simp: logs_tell) (auto simp: tell_def hask_def)
  show ?thesis
    using session(5)
  proof (cases rule: probe_session_cases)
    case stopped
    have "\<forall>e\<in>set h3. \<not> runs (fst e)" by (rule no_run[OF stopped(3) quiet_no_run n2])
    then show ?thesis using assms(2,3) h(2) by (fastforce simp: runs_def)
  next
    case (worked info h4 h5)
    have n4: "\<forall>e\<in>set h4. \<not> runs (fst e)" by (rule no_run[OF host_info_logs[OF worked(1)] quiet_no_run n2])
    have "at h2 (Some a)" "a \<noteq> 0"
      using probe_open_at[OF session(4) silent_at[OF logs_mono[OF session(3)]] assms(4)] by (simp_all add: at_def open_at_def)
    then have "logs (\<lambda>_. True) h5 h3"
      using probe_work_at[OF worked(5) uses_at[OF quiet_uses[OF worked(2)]] _ assms(4)] by simp
    then have "logs (\<lambda>_. True) h4 h" using worked(3) h(1) by (blast intro: logs_trans logs_mono)
    then have "take (length h4) h = h4" by (auto simp: logs_def)
    then show ?thesis using session(1) worked(1,4) n4
      by (intro exI[of _ p] exI[of _ a] exI[of _ h2] exI[of _ info] exI[of _ h4])
        (auto simp: version_gate_def library_too_new_def probe_exits split: if_splits)
  qed
qed

subsection \<open>A concrete session\<close>

text \<open>A chip of the version 79 with a library of the same version, one kernel, and a DSP on which the run of the kernel fails.\<close>

definition problem_header :: mv_header where
  "problem_header = \<lparr>mv_magic = MV_MAGIC_PROBLEM, mv_version = MV_VERSION, mv_op = CAND_OP_MATVEC_Q8_0, mv_rows = 1, mv_cols = 32,
     mv_kernel_id = 0, mv_source = 0, mv_iters = 0, mv_pcycles = 0, mv_usecs = 0, mv_status = 0, mv_seed = 0,
     mv_name = replicate 64 0, mv_reserved = replicate 8 0\<rparr>"

definition problem_file :: "u8 list" where
  "problem_file = mv_bytes problem_header @ replicate 162 0"

definition calm_reply :: host_reply where
  "calm_reply = \<lparr>hr_err = 0, hr_handle = 7, hr_value = 0x79, hr_info = \<lparr>di_chip_arch = 0, di_chip_arch_dsp = 0, di_arch_raw = 0x79,
       di_skel_arch = 79, di_hvx_threads = 4, di_hmx_count = 1, di_vtcm_bytes = 8388608, di_setup_status = 0, di_setup_error = 0,
       di_n_ops = 383, di_n_streams = 24\<rparr>,
     hr_op = \<lparr>o_kind = 0, o_min_arch = 0, o_out_type = 0, o_in_type = [], o_in_stream = [], o_in_bytes = [], o_out_bytes = 0,
       o_n_vectors = 0, o_available = 0\<rparr>,
     hr_name = ''ref'', hr_n = Some 1, hr_status = 0, hr_bytes = [], hr_times = (0, 0), hr_addr = 4096,
     hr_file = \<lparr>f_opens = True, f_seek_end = True, f_ftell = 290, f_seek_set = True, f_malloc = True, f_fread = problem_file\<rparr>,
     hr_out = \<lparr>o_opens = True, o_header_ok = True, o_data_ok = True, o_closes = True\<rparr>, hr_ok = True, hr_time = 0\<rparr>"

definition faulty_host :: host_env where
  "faulty_host = \<lparr>hans = (\<lambda>h c. case c of H_kernel_run _ _ _ _ _ _ \<Rightarrow> calm_reply\<lparr>hr_err := 0x27\<rparr> | H_kernel_info _ k \<Rightarrow>
        (if k = 0 then calm_reply\<lparr>hr_value := 1\<rparr> else calm_reply\<lparr>hr_err := 0x8000040E\<rparr>)
       | _ \<Rightarrow> calm_reply), enc_error = False, ARCH_VER = 1, UNSIGNED_PD_SUPPORT = 2,
     host_float = \<lparr>nan_op = (\<lambda>a b. 0x7fc00000), nan_of_half = (\<lambda>h. 0x7fc00000), nan_to_half = (\<lambda>x. 0x7e00), exp2f = (\<lambda>x. x),
       i8_undefined = (\<lambda>x. 0)\<rparr>\<rparr>"

definition kernel_argv :: "string list" where
  "kernel_argv = [''isaprobe'', ''kernel'', ''0'', ''problem.bin'', ''out'']"

lemma faulty_opens: "opens_ok faulty_host"
  by (simp add: opens_ok_def faulty_host_def calm_reply_def)

lemma problem_read: "read_problem (hr_file calm_reply) = Some (problem_header, problem_file)"
proof -
  have w: "wf_mv problem_header" by (simp add: wf_mv_def problem_header_def MV_MAGIC_PROBLEM_def chars_def)
  have h: "128 \<le> length problem_file" "problem_header = mv_header_of problem_file" "length problem_file = 290"
    using mv_header_of_bytes[OF w, of "replicate 162 0"] w by (simp_all add: problem_file_def)
  have "problem_ok problem_file"
    unfolding problem_ok_iff[OF h(1,2)] h(3) by (simp add: problem_header_def problem_w_def problem_x_def INT_MAX_def)
  then show ?thesis using h by (simp add: read_problem_cases calm_reply_def)
qed

lemma faulty_answers [simp]:
  "hans faulty_host h (H_kernel_run a b c d e f) = calm_reply\<lparr>hr_err := 0x27\<rparr>"
  "hans faulty_host h (H_kernel_info a 0) = calm_reply\<lparr>hr_value := 1\<rparr>" "hans faulty_host h H_load = calm_reply"
  "hans faulty_host h (H_capability u) = calm_reply" "hans faulty_host h H_unsigned = calm_reply" "hans faulty_host h H_open = calm_reply"
  "hans faulty_host h (H_info a) = calm_reply" "hans faulty_host h (H_read_file n) = calm_reply" "hans faulty_host h (H_alloc m) = calm_reply"
  "hans faulty_host h (H_close a) = calm_reply"
  by (simp_all add: faulty_host_def)

lemma calm_fields [simp]: "hr_err calm_reply = 0" "hr_handle calm_reply = 7" "hr_value calm_reply = 0x79" "hr_addr calm_reply = 4096"
  "hr_name calm_reply = ''ref''"
  by (simp_all add: calm_reply_def)

lemma faulty_find: "find_kernel faulty_host 7 ''0'' h = Some (Some (0, 1, ''ref''), tell faulty_host (H_kernel_info 7 0) h)"
  unfolding find_kernel_def
  by (subst find_kernel_from.simps)
    (simp add: hask_tell kernel_number_def scan_number_def strtoul_def is_space_def is_digit_def char_code_def skip_sign_def digits_val_def
      digit_val_def AEE_SUCCESS_def)

definition faulty_info :: dsp_info where
  "faulty_info = (hr_info calm_reply)\<lparr>di_chip_arch := 79, di_chip_arch_dsp := 79\<rparr>"

lemma faulty_host_info: "\<exists>h1. host_info faulty_host 7 h = (0, Some faulty_info, h1)" "version_gate faulty_info a = 0"
  by (simp_all add: host_info_def dsp_capability_def hask_tell decode_arch_byte_def AEE_SUCCESS_def setup_is_fatal_def faulty_info_def
      calm_reply_def version_gate_def library_too_new_def chip_arch_def)

lemma faulty_compare: "\<exists>h1. kernel_compare faulty_host 7 0 ''ref'' problem_header problem_file out iters h = (PROBE_EXIT_RPC, h1) \<and> (\<exists>e\<in>set h1. runs (fst e))"
  by (simp add: kernel_compare_def hask_tell Let_def AEE_SUCCESS_def) (simp add: tell_def hask_def runs_def)

lemma faulty_solve: "\<exists>h1. solve_problem faulty_host 7 0 ''ref'' problem_header problem_file out iters h = (PROBE_EXIT_RPC, h1) \<and> (\<exists>e\<in>set h1. runs (fst e))"
proof -
  define h0 where "h0 = tell faulty_host (H_alloc (unat (mv_cols problem_header) * 4)) (tell faulty_host (H_alloc (unat (mv_cols problem_header) div 32 * 34))
    (tell faulty_host (H_alloc (unat (mv_rows problem_header) * 4)) (tell faulty_host (H_alloc (unat (mv_rows problem_header) * 4)) h)))"
  obtain h1 e where k: "kernel_compare faulty_host 7 0 ''ref'' problem_header problem_file out iters h0 = (PROBE_EXIT_RPC, h1)" "e \<in> set h1" "runs (fst e)"
    using faulty_compare by blast
  have "solve_problem faulty_host 7 0 ''ref'' problem_header problem_file out iters h = (PROBE_EXIT_RPC, free_all faulty_host [4096, 4096, 4096, 4096] h1)"
    by (simp add: solve_problem_def hask_tell Let_def h0_def[symmetric] k(1))
  moreover have "logs (\<lambda>_. True) h1 (free_all faulty_host [4096, 4096, 4096, 4096] h1)" by (rule free_all_logs) simp_all
  ultimately show ?thesis using k(2,3) by (auto simp: logs_def)
qed

lemma faulty_kernel: "\<exists>h1. run_kernel faulty_host 7 ''0'' f out iters h = Some (PROBE_EXIT_RPC, h1) \<and> (\<exists>e\<in>set h1. runs (fst e))"
proof -
  have "mv_op problem_header = 1" by (simp add: problem_header_def CAND_OP_MATVEC_Q8_0_def)
  then show ?thesis using faulty_solve[of out iters] by (simp add: run_kernel_def faulty_find hask_tell problem_read)
qed

lemma faulty_main: "\<exists>h e. probe_main faulty_host kernel_argv [] = Some (PROBE_EXIT_RPC, h) \<and> e \<in> set h \<and> runs (fst e)"
proof -
  have o: "probe_options (tl kernel_argv) probe_args0 = Some (probe_args0\<lparr>pa_args := tl kernel_argv\<rparr>)"
    "probe_mode_of (tl kernel_argv) = Some (M_kernel ''0'' ''problem.bin'' ''out'')"
    by (simp_all add: kernel_argv_def probe_args0_def probe_mode_of_def)
  have s: "\<exists>h1. probe_session faulty_host p (M_kernel ''0'' ''problem.bin'' ''out'') 7 h = Some (PROBE_EXIT_RPC, 7, h1) \<and> (\<exists>e\<in>set h1. runs (fst e))"
    for p h
  proof -
    obtain h1 where i: "host_info faulty_host 7 h = (0, Some faulty_info, h1)" using faulty_host_info(1) by blast
    obtain h2 where k: "run_kernel faulty_host 7 ''0'' ''problem.bin'' ''out'' (of_int (pa_iters p)) h1 = Some (PROBE_EXIT_RPC, h2)" "\<exists>e\<in>set h2. runs (fst e)"
      using faulty_kernel by blast
    then show ?thesis using faulty_host_info(2) by (simp add: probe_session_def i probe_work_def)
  qed
  define h0 where "h0 = tell faulty_host H_open (tell faulty_host H_unsigned (tell faulty_host (H_capability (UNSIGNED_PD_SUPPORT faulty_host)) (tell faulty_host H_load [])))"
  obtain h1 e where k: "probe_session faulty_host (probe_args0\<lparr>pa_args := tl kernel_argv\<rparr>) (M_kernel ''0'' ''problem.bin'' ''out'') 7 h0
      = Some (PROBE_EXIT_RPC, 7, h1)" "e \<in> set h1" "runs (fst e)"
    using s by blast
  have "probe_main faulty_host kernel_argv [] = Some (PROBE_EXIT_RPC, probe_close faulty_host 7 h1)"
    by (simp add: probe_main_def o dsp_capability_def probe_open_def hask_tell AEE_SUCCESS_def h0_def[symmetric] k(1))
  then show ?thesis using k(2,3) by (intro exI[of _ "probe_close faulty_host 7 h1"] exI[of _ e]) (simp add: probe_close_def tell_def hask_def)
qed

lemma probe_main_closes_witness:
  "case probe_main faulty_host kernel_argv [] of Some (code, h) \<Rightarrow> code = PROBE_EXIT_RPC \<and> handle_run None h = Some None | None \<Rightarrow> False"
  using faulty_main probe_main_closes[OF _ faulty_opens, of kernel_argv PROBE_EXIT_RPC] by auto

lemma probe_gate_witness:
  "case probe_main faulty_host kernel_argv [] of None \<Rightarrow> False | Some (code, h) \<Rightarrow>
    \<exists>p a h0 info h1. probe_options (tl kernel_argv) probe_args0 = Some p \<and> host_info faulty_host a h0 = (0, Some info, h1) \<and>
      take (length h1) h = h1 \<and> (pa_allow_newer p \<or> (chip_arch info \<noteq> 0 \<and> sint (di_skel_arch info) \<le> int (chip_arch info)))"
proof -
  obtain h e where m: "probe_main faulty_host kernel_argv [] = Some (PROBE_EXIT_RPC, h)" "(fst e, snd e) \<in> set h" "runs (fst e)"
    using faulty_main by auto
  show ?thesis using probe_gate[OF m faulty_opens] by (simp only: m(1) option.case prod.case) blast
qed

end
