(* ===== verification/IsaprobeCompare.thy ===== *)
theory IsaprobeCompare
  imports IsaprobeMain FloatBits HvxLanes
begin

text \<open>
  The comparison of two results in the host program of the ISA probe: \<open>ordered_f32\<close> has the order of the values of
  \<open>float\<close>, thus the distance that \<open>run_kernel\<close> prints counts the values between two results.
\<close>

text \<open>The significand of a finite pattern without its sign, as a multiple of the least positive value.\<close>

definition mag :: "nat \<Rightarrow> nat" where
  "mag c = (if c div 2 ^ 23 = 0 then c else (c mod 2 ^ 23 + 2 ^ 23) * 2 ^ (c div 2 ^ 23 - 1))"

lemma mag_0 [simp]: "mag 0 = 0"
  by (simp add: mag_def)

lemma mag_less:
  assumes "c < d"
  shows "mag c < mag d"
proof -
  define E F where "E = c div 2 ^ 23" and "F = d div 2 ^ 23"
  have EF: "E \<le> F" using assms unfolding E_def F_def by (intro div_le_mono) simp
  have c: "c = E * 2 ^ 23 + c mod 2 ^ 23" and d: "d = F * 2 ^ 23 + d mod 2 ^ 23" unfolding E_def F_def by simp_all
  have lt: "c mod 2 ^ 23 < 2 ^ 23" by simp
  show ?thesis
  proof (cases "E = F")
    case True
    then have "c mod 2 ^ 23 < d mod 2 ^ 23" using c d assms by (metis nat_add_left_cancel_less)
    then show ?thesis using True assms unfolding mag_def E_def F_def by auto
  next
    case False
    then have EF: "E < F" using EF by simp
    then have md: "mag d = (d mod 2 ^ 23 + 2 ^ 23) * 2 ^ (F - 1)" unfolding mag_def F_def by auto
    show ?thesis
    proof (cases "E = 0")
      case True
      then have "mag c < 2 ^ 23 * 1" using lt c unfolding mag_def E_def[symmetric] by simp
      also have "\<dots> \<le> mag d" unfolding md by (intro mult_le_mono) simp_all
      finally show ?thesis .
    next
      case False
      then have "mag c = (c mod 2 ^ 23 + 2 ^ 23) * 2 ^ (E - 1)" unfolding mag_def E_def by simp
      also have "\<dots> < (2 * 2 ^ 23) * 2 ^ (E - 1)" using lt by (intro mult_strict_right_mono) simp_all
      also have "\<dots> = 2 ^ 23 * 2 ^ E" using False by (cases E) simp_all
      also have "\<dots> \<le> 2 ^ 23 * 2 ^ (F - 1)" using EF by (intro mult_le_mono power_increasing) simp_all
      also have "\<dots> \<le> mag d" unfolding md by (intro mult_le_mono) simp_all
      finally show ?thesis .
    qed
  qed
qed

lemma mag_order: "mag c < mag d \<longleftrightarrow> c < d" "mag c = mag d \<longleftrightarrow> c = d"
  using mag_less[of c d] mag_less[of d c] by (metis less_asym linorder_neqE_nat, metis less_irrefl linorder_neqE_nat)

lemma signed_mag: "signed s (mag c) < signed t (mag d) \<longleftrightarrow> signed s c < signed t d" "signed s (mag c) = signed t (mag d) \<longleftrightarrow> signed s c = signed t d"
  using mag_order[of c d] mag_order[of d c] mag_order[of c 0] mag_order[of d 0] mag_order[of 0 c] mag_order[of 0 d]
  by (auto simp: signed_def)

lemma decode_fin:
  assumes "c < 255 * 2 ^ 23"
  obtains m e where "decode F32 s c = Fin s m e" "-149 \<le> e" "align m e (-149) = mag c"
proof (cases "c div 2 ^ 23 = 0")
  case True
  then show thesis using that[of "c mod 2 ^ 23" "-149"] assms by (simp add: decode_f32 mag_def align_def)
next
  case False
  have "nat (int (c div 2 ^ 23) - 150 - -149) = c div 2 ^ 23 - 1" using False by simp
  moreover have "c div 2 ^ 23 < 255" using assms by (simp add: less_mult_imp_div_less)
  ultimately show thesis using that[of "c mod 2 ^ 23 + 2 ^ 23" "int (c div 2 ^ 23) - 150"] False unfolding decode_f32 mag_def align_def by simp
qed

lemma decode_order:
  assumes "c \<le> 255 * 2 ^ 23" "d \<le> 255 * 2 ^ 23"
  shows "fp_less (decode F32 s c) (decode F32 t d) \<longleftrightarrow> signed s c < signed t d" "fp_eq (decode F32 s c) (decode F32 t d) \<longleftrightarrow> signed s c = signed t d"
proof -
  have inf: "decode F32 u (255 * 2 ^ 23) = Inf u" for u by (simp add: decode_f32)
  consider "c < 255 * 2 ^ 23" "d < 255 * 2 ^ 23" | "c = 255 * 2 ^ 23" "d < 255 * 2 ^ 23" | "c < 255 * 2 ^ 23" "d = 255 * 2 ^ 23"
    | "c = 255 * 2 ^ 23" "d = 255 * 2 ^ 23" using assms by linarith
  then have "(fp_less (decode F32 s c) (decode F32 t d) \<longleftrightarrow> signed s c < signed t d) \<and> (fp_eq (decode F32 s c) (decode F32 t d) \<longleftrightarrow> signed s c = signed t d)"
  proof cases
    case 1
    obtain m e where c: "decode F32 s c = Fin s m e" "-149 \<le> e" "align m e (-149) = mag c" using decode_fin[OF 1(1)] .
    obtain n k where d: "decode F32 t d = Fin t n k" "-149 \<le> k" "align n k (-149) = mag d" using decode_fin[OF 1(2)] .
    show ?thesis unfolding c(1) d(1) fin_order[OF c(2) d(2)] c(3) d(3) signed_mag by simp
  next
    case 2
    obtain n k where d: "decode F32 t d = Fin t n k" using decode_fin[OF 2(2)] by metis
    show ?thesis using 2 unfolding 2(1) inf d by (auto simp: signed_def)
  next
    case 3
    obtain m e where c: "decode F32 s c = Fin s m e" using decode_fin[OF 3(1)] by metis
    show ?thesis using 3 unfolding 3(2) inf c by (auto simp: signed_def)
  next
    case 4
    show ?thesis unfolding 4 inf by (auto simp: signed_def)
  qed
  then show "fp_less (decode F32 s c) (decode F32 t d) \<longleftrightarrow> signed s c < signed t d" "fp_eq (decode F32 s c) (decode F32 t d) \<longleftrightarrow> signed s c = signed t d"
    by blast+
qed

lemma ordered_f32_code: "ordered_f32 x = signed (2 ^ 31 \<le> unat x) (unat x mod 2 ^ 31)"
proof (cases "2 ^ 31 \<le> unat x")
  case True
  define n where "n = unat x - 2 ^ 31"
  have x: "unat x = n + 2 ^ 31" "n < 2 ^ 31" using True unat_lt2p[of x] by (simp_all add: n_def)
  have "sint x = int (unat x) - 2 ^ 32" using True by (rule sint_big)
  then show ?thesis unfolding ordered_f32_def x(1) using x(2) by (simp add: signed_def)
next
  case False
  then have "sint x = int (unat x)" by (intro sint_small) simp
  then show ?thesis using False by (simp add: ordered_f32_def signed_def)
qed

lemma not_nan_code: "f32_of x \<noteq> NaN \<Longrightarrow> unat x mod 2 ^ 31 \<le> 255 * 2 ^ 23"
  by (cases x rule: f32_cases) simp_all

text \<open>\<open>ordered_f32\<close> maps the patterns of \<open>float\<close> to integers in the order of their values, from the negative infinity to
  the positive one, and gives one integer to +0 and -0: the comparisons of IEEE 754 are those of the integers.\<close>

theorem ordered_f32_order:
  assumes "f32_of x \<noteq> NaN" "f32_of y \<noteq> NaN"
  shows "(fp_less (f32_of x) (f32_of y) \<longleftrightarrow> ordered_f32 x < ordered_f32 y) \<and> (fp_eq (f32_of x) (f32_of y) \<longleftrightarrow> ordered_f32 x = ordered_f32 y)"
  unfolding ordered_f32_code f32_of_def using decode_order[OF not_nan_code[OF assms(1)] not_nan_code[OF assms(2)]] by simp

lemma ordered_f32_order_witness:
  "(fp_less (Fin False (2 ^ 23) (-23)) (Inf False) \<longleftrightarrow> ordered_f32 0x3f800000 < ordered_f32 0x7f800000) \<and>
   (fp_eq (Fin False (2 ^ 23) (-23)) (Inf False) \<longleftrightarrow> ordered_f32 0x3f800000 = ordered_f32 0x7f800000)"
proof -
  have "f32_of 0x3f800000 = Fin False (2 ^ 23) (-23)" "f32_of 0x7f800000 = Inf False" by (simp_all add: f32_of_def decode_f32)
  then show ?thesis using ordered_f32_order[of "0x3f800000" "0x7f800000"] by simp
qed

end
