(* ===== verification/IsaprobeAgree.thy ===== *)
theory IsaprobeAgree
  imports IsaprobeHandles IsaprobeResult HvxLanes
begin

text \<open>
  The mode \<open>kernel\<close> of the host program with the DSP library of the repository: the search of a kernel ends, and kernel 0
  gives the bits of the reference that the host computes.
\<close>

subsection \<open>The search of a kernel\<close>

lemma find_kernel_from_returns:
  assumes fails: "\<And>k h. n \<le> unat k \<Longrightarrow> hr_err (hans E h (H_kernel_info a k)) \<noteq> AEE_SUCCESS" and n: "n < 2 ^ 32"
  shows "unat k \<le> n \<Longrightarrow> \<exists>f h'. find_kernel_from E a key k h = Some (f, h') \<and> length h' \<le> length h + (n - unat k) + 1 \<and>
    (case f of None \<Rightarrow> True | Some (j, _, _) \<Rightarrow> unat j < n)"
proof (induction "n - unat k" arbitrary: k h)
  case 0
  then have "hr_err (hans E h (H_kernel_info a k)) \<noteq> AEE_SUCCESS" by (intro fails) simp
  then show ?case by (subst find_kernel_from.simps) (simp add: hask_def)
next
  case (Suc m)
  let ?r = "hans E h (H_kernel_info a k)"
  have k: "unat k < n" using Suc.hyps(2) by simp
  then have s: "unat (k + 1) = unat k + 1" using n by (subst unat_add_le) simp_all
  show ?case
  proof (cases "hr_err ?r \<noteq> AEE_SUCCESS \<or> (case kernel_number key of Some want \<Rightarrow> ucast k = want | None \<Rightarrow> hr_name ?r = key)")
    case True
    then show ?thesis using k by (subst find_kernel_from.simps) (auto simp: hask_def)
  next
    case False
    have "m = n - unat (k + 1)" "unat (k + 1) \<le> n" using Suc.hyps(2) k s by simp_all
    from Suc.hyps(1)[OF this, of "h @ [(H_kernel_info a k, ?r)]"] False s k show ?thesis
      by (subst find_kernel_from.simps) (auto simp: hask_def)
  qed
qed

text \<open>\<open>find_kernel\<close> returns: when the library refuses each ID from \<open>n\<close> on, as \<open>isaprobe_kernel_info\<close> does with the number
  of its kernels, the search makes at most \<open>n + 1\<close> calls, and it finds only an ID below \<open>n\<close>.\<close>

theorem find_kernel_returns:
  assumes "\<And>k h. n \<le> unat k \<Longrightarrow> hr_err (hans E h (H_kernel_info a k)) \<noteq> AEE_SUCCESS" "n < 2 ^ 32"
  shows "\<exists>f h'. find_kernel E a key h = Some (f, h') \<and> length h' \<le> length h + n + 1 \<and>
    (case f of None \<Rightarrow> True | Some (j, _, _) \<Rightarrow> unat j < n)"
  using find_kernel_from_returns[of n E a 0 key h] assms by (simp add: find_kernel_def)

lemma find_kernel_returns_witness:
  "\<exists>f h'. find_kernel faulty_host 7 ''none'' [] = Some (f, h') \<and> length h' \<le> length ([] :: host_log) + 1 + 1 \<and>
    (case f of None \<Rightarrow> True | Some (j, _, _) \<Rightarrow> unat j < 1)"
  by (rule find_kernel_returns) (auto simp: faulty_host_def AEE_SUCCESS_def)

subsection \<open>The reference does not read after its inputs\<close>

lemma block_at_append: "34 * i + 34 \<le> length w \<Longrightarrow> block_at (w @ z) i = block_at w i"
  by (simp add: block_at_def QK8_0_def)

lemma float_at_append: "4 * i + 4 \<le> length x \<Longrightarrow> float_at (x @ z) i = float_at x i"
  by (simp add: float_at_def)

lemma index_bound: "r < rows \<Longrightarrow> i < n \<Longrightarrow> r * n + i < rows * (n::nat)"
proof -
  assume "r < rows" "i < n"
  then have "r * n + i < (r + 1) * n" "(r + 1) * n \<le> rows * n" by (simp, intro mult_le_mono1) simp
  then show ?thesis by linarith
qed

lemma matvec_append:
  assumes "rows * (cols div 32) * 34 \<le> length w" "cols * 4 \<le> length x"
  shows "q8_0_ref_matvec F (block_at (w @ y)) (float_at (x @ z)) rows cols = q8_0_ref_matvec F (block_at w) (float_at x) rows cols"
proof -
  have f: "float_at (x @ z) (i * QK8_0 + j) = float_at x (i * QK8_0 + j)" if "i < cols div QK8_0" "j < QK8_0" for i j
  proof (rule float_at_append)
    have "i * 32 + j < cols div 32 * 32" using index_bound[of i "cols div 32" j 32] that by (simp add: QK8_0_def)
    then have "i * 32 + j < cols" by (metis div_times_less_eq_dividend less_le_trans)
    then show "4 * (i * QK8_0 + j) + 4 \<le> length x" using assms(2) by (simp add: QK8_0_def)
  qed
  have q: "quantize_row_q8_0_ref F (float_at (x @ z)) cols = quantize_row_q8_0_ref F (float_at x) cols"
    unfolding quantize_row_q8_0_ref_def using f by (intro map_cong arg_cong2[where f = quantize_block] refl) simp_all
  have b: "block_at (w @ y) (r * (cols div QK8_0) + i) = block_at w (r * (cols div QK8_0) + i)" if "r < rows" "i < cols div QK8_0" for r i
  proof (rule block_at_append)
    have "r * (cols div 32) + i < rows * (cols div 32)" using index_bound that by (simp add: QK8_0_def)
    then show "34 * (r * (cols div QK8_0) + i) + 34 \<le> length w" using assms(1) by (simp add: QK8_0_def)
  qed
  have d: "ggml_vec_dot_q8_0_q8_0_generic G cols (\<lambda>i. block_at (w @ y) (r * (cols div QK8_0) + i)) v =
      ggml_vec_dot_q8_0_q8_0_generic G cols (\<lambda>i. block_at w (r * (cols div QK8_0) + i)) v" if "r < rows" for r v G
    unfolding ggml_vec_dot_q8_0_q8_0_generic_def using b[OF that] by (intro fold_cong) simp_all
  show ?thesis unfolding q8_0_ref_matvec_def q Let_def using d by (simp cong: map_cong)
qed

subsection \<open>The run on the DSP\<close>

text \<open>The bytes of the reference.\<close>

definition ref_bytes :: "q8_env \<Rightarrow> u8 list \<Rightarrow> u8 list \<Rightarrow> nat \<Rightarrow> nat \<Rightarrow> u8 list" where
  "ref_bytes F w x rows cols = concat (map le32 (fst (q8_0_ref_matvec F (block_at w) (float_at x) rows cols)))"

lemma length_matvec [simp]: "length (fst (q8_0_ref_matvec F w x rows cols)) = rows"
  by (simp add: q8_0_ref_matvec_def Let_def)

lemma length_concat_le32 [simp]: "length (concat (map le32 ys)) = 4 * length ys"
  by (induction ys) simp_all

lemma float_at_concat: "i < length ys \<Longrightarrow> float_at (concat (map le32 ys) @ z) i = ys ! i"
proof (induction ys arbitrary: i)
  case (Cons y ys)
  show ?case
  proof (cases i)
    case 0
    then show ?thesis using ld32_le32[of "[]" 0 y "[]"] by (simp add: float_at_def u32_of_def)
  next
    case (Suc j)
    then show ?thesis using Cons by (simp add: float_at_def)
  qed
qed simp

lemma ref_output_bytes: "ref_output F p = ref_bytes F (c_w p) (c_x p) (unat (c_rows p)) (unat (c_cols p))"
  by (simp add: ref_output_def ref_bytes_def)

lemma kernel_loop_ref:
  assumes "length (ref_output F p) \<le> length out"
  shows "kernel_loop E (ref_kernel F l) p n st out mins h = (err, st', out', mins', h') \<Longrightarrow>
    err = CAND_OK \<and> out' = (if n = 0 then out else ref_output F p @ drop (length (ref_output F p)) out)"
  using assms
proof (induction n arbitrary: st out mins h)
  case (Suc n)
  let ?out = "ref_output F p @ drop (length (ref_output F p)) out"
  obtain st1 mins1 h1 where m: "kernel_measure E (ref_kernel F l) p st out mins h = (CAND_OK, st1, ?out, mins1, h1)"
    by (auto simp: kernel_measure_def ref_run_def Let_def ask_def)
  have l: "kernel_loop E (ref_kernel F l) p n st1 ?out mins1 h1 = (err, st', out', mins', h')" using Suc.prems(1) by (simp add: m)
  show ?case using Suc.IH[OF l] by (auto split: if_splits)
qed simp

lemma copy_input_bytes:
  assumes "copy_input E (nth w) (of_nat (length w)) fail h = (b, False, h')" "length w < 2 ^ 31"
  shows "\<exists>z. snd b = w @ z" "\<not> fail"
proof -
  have "unat (of_nat (length w) :: u32) = length w" using assms(2) by (simp add: unat_of_nat_less)
  moreover from this have "sint (of_nat (length w) :: u32) = int (length w)" using assms(2) by (simp add: sint_small)
  ultimately show "\<exists>z. snd b = w @ z" "\<not> fail"
    using assms(1) by (auto simp: copy_input_def Let_def map_nth split: if_splits prod.splits)
qed

text \<open>A run of kernel 0 with the status 0 gives the bits of the reference.\<close>

lemma kernel_run_bytes:
  assumes "isaprobe_kernel_run E (cand_kernels F l) (Some ctx) True ident ps (nth w, of_nat (length w)) (nth x, of_nat (length x)) dst
      (of_nat n) g h = (AEE_SUCCESS, Some (0, bytes), ts, ctx', g', h')"
    and w: "length w < 2 ^ 31" "unat (kp_rows ps) * (unat (kp_cols ps) div 32) * 34 \<le> length w"
    and x: "length x < 2 ^ 31" "unat (kp_cols ps) * 4 \<le> length x" and n: "n = unat (kp_rows ps) * 4" "n < 2 ^ 31"
  shows "bytes = ref_bytes F w x (unat (kp_rows ps)) (unat (kp_cols ps))"
proof -
  have k0: "\<not> 1 \<le> unat ident" "kp_iters ps \<noteq> 0"
    using assms(1) by (auto simp: isaprobe_kernel_run_def aee_codes split: if_splits)
  then have k: "[ref_kernel F l] ! unat ident = ref_kernel F l" by (cases "unat ident") simp_all
  obtain err ctx1 g1 h1 where s: "probe_setup E ctx g h = (err, ctx1, g1, h1)" by (metis prod_cases4)
  obtain bw f1 h2 where cw: "copy_input E (nth w) (of_nat (length w)) False h1 = (bw, f1, h2)" by (metis prod_cases3)
  obtain bx f2 h3 where cx: "copy_input E (nth x) (of_nat (length x)) f1 h2 = (bx, f2, h3)" by (metis prod_cases3)
  obtain bo h4 where co: "alloc_output E (of_nat n) h3 = (bo, h4)" by (metis prod.exhaust)
  define prob where "prob = problem_of ps bw bx ctx1"
  obtain res2 mins g2 h5 where run: "run_guarded E ctx1 (kernel_call_fn E (ref_kernel F l) prob (kp_iters ps)) (0, 0) dst (of_nat n) g1 h4
      = (AEE_SUCCESS, Some (0, bytes), mins, g2, h5)" and ok: "\<not> f2"
    using assms(1) k0 by (auto simp: isaprobe_kernel_run_def s cw cx co prob_def k aee_codes Let_def split: if_splits prod.splits)
  obtain zx where zx: "snd bx = x @ zx" "\<not> f1" using copy_input_bytes[of E x f1 h2 bx h3] cx x(1) ok by auto
  obtain zw where zw: "snd bw = w @ zw" using copy_input_bytes[of E w False h1 bw h2] cw w(1) zx(2) by auto
  have un: "unat (of_nat n :: u32) = n" using n(2) by (simp add: unat_of_nat_less)
  have ro: "ref_output F prob = ref_bytes F w x (unat (kp_rows ps)) (unat (kp_cols ps))"
    using matvec_append[OF w(2) x(2), of F zw zx] by (simp add: ref_output_bytes prob_def problem_of_def zw zx(1) ref_bytes_def)
  have len: "length (ref_output F prob) = n" by (simp add: ro ref_bytes_def n(1))
  show ?thesis
    using run
  proof (cases rule: run_guarded_result)
    case (locked st)
    then show ?thesis by (auto simp: probe_statuses)
  next
    case (work g0 h0 st out h1)
    have st: "st = 0" using work(4) by (auto simp: guarded_status_def probe_statuses split: if_splits)
    have fo: "length (ref_output F prob) \<le> length (fresh_output n)" using len by (simp add: fresh_output_def)
    obtain st1 h2 st2 mins2 h3 err where kl: "kernel_loop E (ref_kernel F l) prob (unat (kp_iters ps)) st1 (fresh_output n) (-1, -1) h2 = (err, st2, out, mins2, h3)"
      using work(1) st by (auto simp: un kernel_call_fn_def Let_def cand_codes split: if_splits prod.splits)
    have "out = ref_output F prob @ drop n (fresh_output n)"
      using kernel_loop_ref[OF fo kl] k0(2) len by (simp add: unat_eq_zero)
    then show ?thesis using work(4) len un ro by simp
  qed
qed

subsection \<open>The kernel mode\<close>

text \<open>The DSP side of \<open>isaprobe_kernel_run\<close> is the model of the library with the kernels of the repository, on some
  DSP and in some state of its handle; FastRPC carries the arguments and the results.\<close>

definition library_runs :: "host_env \<Rightarrow> bool" where
  "library_runs E \<longleftrightarrow> (\<forall>h a k ps w x n. let r = hans E h (H_kernel_run a k ps w x n) in hr_err r = AEE_SUCCESS \<longrightarrow>
     (\<exists>P l ctx dst g d ts ctx' g' d'. isaprobe_kernel_run P (cand_kernels (host_float E) l) (Some ctx) True k ps (nth w, of_nat (length w))
        (nth x, of_nat (length x)) dst (of_nat n) g d = (AEE_SUCCESS, Some (hr_status r, hr_bytes r), ts, ctx', g', d')))"

lemma compare_rows_same: "compare_rows ys ys = (length ys, 0, 0)"
proof -
  have "fold (\<lambda>i (same, worst, worst_row). let dist = \<bar>ordered_f32 (ys ! i) - ordered_f32 (ys ! i)\<bar> in
      (if dist = 0 then same + 1 else same, if dist > worst then dist else worst, if dist > worst then i else worst_row)) is (n, 0, 0)
    = (n + length is, 0, 0)" for "is" n
    by (induction "is" arbitrary: n) (simp_all add: Let_def)
  from this[of "[0..<length ys]" 0] show ?thesis by (simp add: compare_rows_def)
qed

lemma write_result_log:
  assumes "write_result E dir f hdr y h = (True, h')"
  shows "\<exists>path r. h' = h @ [(H_write_file path (mv_bytes hdr @ concat (map le32 y)), r)]"
  using assms by (auto simp: write_result_def hask_def Let_def split: option.splits)

lemma problem_inputs:
  assumes "read_problem f = Some (p, file)"
  defines "w \<equiv> take (problem_w p) (drop 128 file)" and "x \<equiv> take (problem_x p) (drop (128 + problem_w p) file)"
  shows "length w = problem_w p" "length x = problem_x p" "problem_w p \<le> INT_MAX" "problem_x p \<le> INT_MAX"
    "\<exists>z. drop 128 file = w @ z" "unat (mv_rows p) * 4 \<le> problem_w p" "0 < unat (mv_rows p)"
proof -
  have b: "128 \<le> length file" "p = mv_header_of file" "problem_ok file" using assms(1) unfolding read_problem_cases by blast+
  note ok = problem_ok_iff[OF b(1,2), THEN iffD1, OF b(3)]
  show "length w = problem_w p" "length x = problem_x p" "problem_w p \<le> INT_MAX" "problem_x p \<le> INT_MAX" "0 < unat (mv_rows p)"
    using ok by (simp_all add: w_def x_def)
  show "\<exists>z. drop 128 file = w @ z" unfolding w_def by (metis append_take_drop_id)
  have "unat (mv_cols p) div 32 \<noteq> 0" using ok by (auto simp: dvd_def)
  then have "1 \<le> unat (mv_cols p) div 32" by linarith
  then have "unat (mv_rows p) * 1 \<le> unat (mv_rows p) * (unat (mv_cols p) div 32)" by (rule mult_le_mono2)
  then show "unat (mv_rows p) * 4 \<le> problem_w p" unfolding problem_w_def by linarith
qed

text \<open>The results are equal: the two files have the bytes of the reference, and the report counts each row as equal.\<close>

definition agreed :: "host_env \<Rightarrow> mv_header \<Rightarrow> u8 list \<Rightarrow> host_log \<Rightarrow> bool" where
  "agreed E p file h \<longleftrightarrow>
     (let rows = unat (mv_rows p); bytes = ref_bytes (host_float E) (drop 128 file) (drop (128 + problem_w p) file) rows (unat (mv_cols p)) in
      H_print_report 0 rows 0 0 \<in> fst ` set h \<and>
      (\<exists>path hdr. mv_source hdr = MV_SOURCE_CHIP \<and> H_write_file path (mv_bytes hdr @ bytes) \<in> fst ` set h) \<and>
      (\<exists>path hdr. mv_source hdr = MV_SOURCE_ORACLE \<and> H_write_file path (mv_bytes hdr @ bytes) \<in> fst ` set h))"

lemma logs_calls: "logs P h h' \<Longrightarrow> fst ` set h \<subseteq> fst ` set h'"
  by (auto simp: logs_def)

lemma agreed_mono: "agreed E p file h \<Longrightarrow> fst ` set h \<subseteq> fst ` set h' \<Longrightarrow> agreed E p file h'"
  unfolding agreed_def Let_def by blast

lemma kernel_compare_agrees:
  assumes "kernel_compare E hnd ident kname p file dir iters h = (0, h')" "read_problem f = Some (p, file)" "library_runs E" "iters \<noteq> 0"
  shows "agreed E p file h'"
proof -
  let ?rows = "unat (mv_rows p)" and ?cols = "unat (mv_cols p)"
  define w where "w = take (problem_w p) (drop 128 file)"
  define x where "x = take (problem_x p) (drop (128 + problem_w p) file)"
  note i = problem_inputs[OF assms(2), folded w_def x_def]
  obtain zw where zw: "drop 128 file = w @ zw" using i(5) by blast
  obtain zx where zx: "drop (128 + problem_w p) file = x @ zx" unfolding x_def by (metis append_take_drop_id)
  define ps where "ps = \<lparr>kp_op = mv_op p, kp_rows = mv_rows p, kp_cols = mv_cols p, kp_iters = iters\<rparr>"
  define r where "r = hans E h (H_kernel_run hnd ident ps w x (?rows * 4))"
  define h1 where "h1 = tell E (H_kernel_run hnd ident ps w x (?rows * 4)) h"
  define y where "y = fst (q8_0_ref_matvec (host_float E) (block_at w) (float_at x) ?rows ?cols)"
  have sizes: "?rows * (?cols div 32) * 34 \<le> length w" "?cols * 4 \<le> length x" using i(1,2) by (simp_all add: problem_w_def problem_x_def)
  have m: "fst (q8_0_ref_matvec (host_float E) (block_at (drop 128 file)) (float_at x) ?rows ?cols) = y"
    using matvec_append[OF sizes, of "host_float E" zw "[]"] by (simp add: zw y_def)
  have bytes: "ref_bytes (host_float E) (drop 128 file) (drop (128 + problem_w p) file) ?rows ?cols = concat (map le32 y)"
    unfolding ref_bytes_def zw zx matvec_append[OF sizes] y_def ..
  have w31: "length w < 2 ^ 31" "length x < 2 ^ 31" "?rows * 4 < 2 ^ 31" using i(1-4,6) by (simp_all add: INT_MAX_def)
  note k = assms(1)[unfolded kernel_compare_def Let_def hask_tell prod.case]
  have k': "(if hr_err r \<noteq> AEE_SUCCESS then (PROBE_EXIT_RPC, h1)
     else case cpu_reference E (unat iters) (-1) h1 of (cpu_us, h2) \<Rightarrow>
       case write_result E dir (snprintf_s (NAME_BYTES + 16) (kname @ ''.bin'')) (result_header p ident MV_SOURCE_CHIP iters (hr_times r) (hr_status r) kname)
           (map (float_at (hr_bytes r @ replicate (?rows * 4) 0)) [0..<?rows]) h2 of (ok, h3) \<Rightarrow>
       if \<not> ok then (PROBE_EXIT_USAGE, h3)
       else case write_result E dir ''ggml-ref.bin'' (result_header p MV_KERNEL_ORACLE MV_SOURCE_ORACLE iters (0, cpu_us) 0 ''ggml-ref'') y h3 of (ok, h4) \<Rightarrow>
         if \<not> ok then (PROBE_EXIT_USAGE, h4)
         else case compare_rows (map (float_at (hr_bytes r @ replicate (?rows * 4) 0)) [0..<?rows]) y of (same, worst, worst_row) \<Rightarrow>
           (if hr_status r = 0 then 0 else PROBE_EXIT_OP_FAIL, tell E (H_print_report (hr_status r) same worst worst_row) h4)) = (0, h')"
    using k assms(4) unfolding problem_w_def[symmetric] problem_x_def[symmetric] w_def[symmetric] x_def[symmetric] m ps_def[symmetric]
      r_def[symmetric] h1_def[symmetric] by (simp cong: if_cong)
  have err: "hr_err r = AEE_SUCCESS" using k' by (auto simp: probe_exits split: if_splits)
  obtain cpu_us h2 where c: "cpu_reference E (unat iters) (-1) h1 = (cpu_us, h2)" by (metis prod.exhaust)
  have st: "hr_status r = 0" using k' err by (auto simp: probe_exits split: if_splits prod.splits)
  have lb: "hr_bytes r = concat (map le32 y)"
  proof -
    obtain P l ctx dst g d ts ctx' g' d' where "isaprobe_kernel_run P (cand_kernels (host_float E) l) (Some ctx) True ident ps (nth w, of_nat (length w))
        (nth x, of_nat (length x)) dst (of_nat (?rows * 4)) g d = (AEE_SUCCESS, Some (0, hr_bytes r), ts, ctx', g', d')"
      using assms(3) err st unfolding library_runs_def Let_def r_def by metis
    from kernel_run_bytes[OF this w31(1) _ w31(2) _ _ w31(3)] sizes show ?thesis by (simp add: ps_def ref_bytes_def y_def)
  qed
  have ly: "length y = ?rows" by (simp add: y_def)
  have yd: "map (float_at (hr_bytes r @ replicate (?rows * 4) 0)) [0..<?rows] = y"
    unfolding lb using ly by (intro nth_equalityI) (simp_all add: float_at_concat)
  define hc where "hc = result_header p ident MV_SOURCE_CHIP iters (hr_times r) (hr_status r) kname"
  define ho where "ho = result_header p MV_KERNEL_ORACLE MV_SOURCE_ORACLE iters (0, cpu_us) 0 ''ggml-ref''"
  obtain h3 h4 where w1: "write_result E dir (snprintf_s (NAME_BYTES + 16) (kname @ ''.bin'')) hc y h2 = (True, h3)"
    and w2: "write_result E dir ''ggml-ref.bin'' ho y h3 = (True, h4)" and h': "h' = tell E (H_print_report 0 ?rows 0 0) h4"
    using k'[unfolded yd c prod.case compare_rows_same ly hc_def[symmetric] ho_def[symmetric]] err st
    by (auto simp: probe_exits split: if_splits prod.splits)
  obtain p1 r1 where e1: "h3 = h2 @ [(H_write_file p1 (mv_bytes hc @ concat (map le32 y)), r1)]" using write_result_log[OF w1] by blast
  obtain p2 r2 where e2: "h4 = h3 @ [(H_write_file p2 (mv_bytes ho @ concat (map le32 y)), r2)]" using write_result_log[OF w2] by blast
  have "mv_source hc = MV_SOURCE_CHIP" "mv_source ho = MV_SOURCE_ORACLE" by (simp_all add: hc_def ho_def result_header_def)
  then show ?thesis unfolding agreed_def Let_def bytes h' e2 e1 tell_def hask_def by auto
qed

lemma solve_problem_agrees:
  assumes "solve_problem E hnd ident kname p file dir iters h = (0, h')" "read_problem f = Some (p, file)" "library_runs E" "iters \<noteq> 0"
  shows "agreed E p file h'"
proof -
  define h0 where "h0 = tell E (H_alloc (unat (mv_cols p) * 4)) (tell E (H_alloc (unat (mv_cols p) div 32 * 34))
    (tell E (H_alloc (unat (mv_rows p) * 4)) (tell E (H_alloc (unat (mv_rows p) * 4)) h)))"
  obtain code h1 where k0: "kernel_compare E hnd ident kname p file dir iters h0 = (code, h1)" by (metis prod.exhaust)
  define bad where "bad \<longleftrightarrow> hr_addr (hans E h (H_alloc (unat (mv_rows p) * 4))) = 0 \<or>
    hr_addr (hans E (tell E (H_alloc (unat (mv_rows p) * 4)) h) (H_alloc (unat (mv_rows p) * 4))) = 0 \<or>
    hr_addr (hans E (tell E (H_alloc (unat (mv_rows p) * 4)) (tell E (H_alloc (unat (mv_rows p) * 4)) h)) (H_alloc (unat (mv_cols p) div 32 * 34))) = 0 \<or>
    hr_addr (hans E (tell E (H_alloc (unat (mv_cols p) div 32 * 34)) (tell E (H_alloc (unat (mv_rows p) * 4)) (tell E (H_alloc (unat (mv_rows p) * 4)) h)))
      (H_alloc (unat (mv_cols p) * 4))) = 0"
  note r = assms(1)[unfolded solve_problem_def hask_tell Let_def prod.case h0_def[symmetric] k0 bad_def[symmetric]]
  have k: "code = 0" "\<exists>as. h' = free_all E as h1" using r by (cases bad; auto simp: probe_exits)+
  obtain as where as: "h' = free_all E as h1" using k(2) by blast
  have l: "logs (\<lambda>_. True) h1 h'" unfolding as by (rule free_all_logs) simp_all
  show ?thesis by (rule agreed_mono[OF kernel_compare_agrees[OF k0[unfolded k(1)] assms(2-4)] logs_calls[OF l]])
qed

lemma run_kernel_agrees:
  assumes "run_kernel E a key path dir iters h = Some (0, h')" "library_runs E" "iters \<noteq> 0"
  shows "\<exists>r p file. (H_read_file path, r) \<in> set h' \<and> read_problem (hr_file r) = Some (p, file) \<and> agreed E p file h'"
proof -
  obtain ident op kname h1 where f: "find_kernel_from E a key 0 h = Some (Some (ident, op, kname), h1)"
    using assms(1) by (auto simp: run_kernel_def find_kernel_def bind_eq_Some_conv probe_exits split: option.splits)
  let ?r = "hans E h1 (H_read_file path)"
  obtain p b where p: "read_problem (hr_file ?r) = Some (p, b)"
      "solve_problem E a ident kname p b dir iters (tell E (H_read_file path) h1) = (0, h')"
    using assms(1) f by (auto simp: run_kernel_def find_kernel_def hask_tell probe_exits split: option.splits if_splits)
  have "(H_read_file path, ?r) \<in> set (tell E (H_read_file path) h1)" by (simp add: tell_def hask_def)
  then have "(H_read_file path, ?r) \<in> set h'" using solve_problem_logs[OF p(2)] by (auto simp: logs_def)
  then show ?thesis using solve_problem_agrees[OF p(2,1) assms(2,3)] p(1) by blast
qed


subsection \<open>An example\<close>


text \<open>A DSP on which each call succeeds runs the kernel of the repository with the status 0.\<close>

lemma ready_thread: "\<exists>h0 f. run_on_thread ready_env ctx fn none out g h =
    (let (st, rs, out, g, h) = fn out g h0 in (AEE_SUCCESS, st, rs, out, g, f h))"
proof -
  define h0 where "h0 = snd (ask ready_env C_work (snd (hmx_lock ready_env ctx (snd (hvx_lock ready_env
     (snd (ask ready_env C_thread_create (snd (ask ready_env (C_memalign 4096 ISAPROBE_STACK_BYTES) h)))))))))"
  define f where "f h1 = free ready_env 4096 (snd (ask ready_env C_thread_join (hvx_unlock ready_env (hmx_unlock ready_env ctx h1))))" for h1
  have "run_on_thread ready_env ctx fn none out g h = (let (st, rs, out, g, h) = fn out g h0 in (AEE_SUCCESS, st, rs, out, g, f h))"
    by (simp add: run_on_thread_def probe_thread_def Let_def h0_def f_def hvx_lock_def hmx_lock_def split: prod.splits)
  then show ?thesis by blast
qed

lemma ready_call:
  assumes "c_op p = CAND_OP_MATVEC_Q8_0" "c_cols p = 32" "length (ref_output F p) \<le> length out" "0 < unat n"
  shows "\<exists>mins h'. kernel_call_fn ready_env (ref_kernel F True) p n out g h =
    (0, mins, ref_output F p @ drop (length (ref_output F p)) out, g, h')"
proof -
  obtain h1 where pre: "ref_prepare True ready_env p h = (CAND_OK, 4096, h1)" using assms(1,2) by (simp add: ref_prepare_def)
  obtain err st out' mins h' where l: "kernel_loop ready_env (ref_kernel F True) p (unat n) 4096 out (-1, -1) h1 = (err, st, out', mins, h')"
    by (metis prod_cases5)
  show ?thesis using kernel_loop_ref[OF assms(3) l] assms(4) by (simp add: kernel_call_fn_def pre l CAND_OK_def)
qed

lemma ready_guarded:
  assumes "c_op p = CAND_OP_MATVEC_Q8_0" "c_cols p = 32" "length (ref_output F p) = unat m" "0 < unat n"
  shows "\<exists>bytes mins g' h'. run_guarded ready_env ctx (kernel_call_fn ready_env (ref_kernel F True) p n) none dst m g h =
    (AEE_SUCCESS, Some (0, bytes), mins, g', h')"
proof -
  let ?out = "replicate (unat m) (0::u8) @ replicate (unat ISAPROBE_OUTPUT_GUARD) ISAPROBE_GUARD_BYTE" and ?g = "g\<lparr>g_vtcm_used := 0, g_vtcm_overflow := False\<rparr>"
  let ?fn = "kernel_call_fn ready_env (ref_kernel F True) p n"
  obtain h0 f where t: "run_on_thread ready_env ctx ?fn none ?out ?g h = (let (st, rs, out, g, h) = ?fn ?out ?g h0 in (AEE_SUCCESS, st, rs, out, g, f h))"
    using ready_thread[of ctx ?fn none ?out ?g h] by blast
  obtain mins h' where c: "?fn ?out ?g h0 = (0, mins, ref_output F p @ drop (length (ref_output F p)) ?out, ?g, h')"
    using ready_call[OF assms(1,2), of F ?out n ?g h0] assms(3,4) by auto
  have "guard_intact (ref_output F p @ drop (length (ref_output F p)) ?out) (unat m)"
    unfolding guard_intact_def assms(3)[symmetric] list_all_iff by (simp add: nth_append)
  then show ?thesis by (simp add: run_guarded_def t c guarded_status_def Let_def ISAPROBE_STATUS_HVX_LOCK_def ISAPROBE_STATUS_HMX_LOCK_def)
qed

lemma ready_kernel_run:
  assumes "kp_op ps = 1" "kp_rows ps = 1" "kp_cols ps = 32" "kp_iters ps \<noteq> 0"
  shows "\<exists>bytes r. isaprobe_kernel_run ready_env (cand_kernels F True) (Some ctx_zero) True 0 ps (w, 34) (x, 128) 8192 4 no_vtcm [] =
    (AEE_SUCCESS, Some (0, bytes), r)"
proof -
  obtain e c g h where s: "probe_setup ready_env ctx_zero no_vtcm [] = (e, c, g, h)" by (cases "probe_setup ready_env ctx_zero no_vtcm []")
  then have e: "e = 0" using copy_call_setup(2) by simp
  have len: "length (ref_output F (problem_of ps bw bx c)) = unat (4 :: u32)" for bw bx
    using assms(2) by (simp add: ref_output_bytes ref_bytes_def problem_of_def)
  have "\<exists>bytes mins g' h'. run_guarded ready_env c (kernel_call_fn ready_env (ref_kernel F True) (problem_of ps bw bx c) (kp_iters ps)) (0, 0) 8192 4 g h1
     = (AEE_SUCCESS, Some (0, bytes), mins, g', h')" for bw bx h1
    by (rule ready_guarded[OF _ _ len]) (use assms in \<open>simp_all add: problem_of_def CAND_OP_MATVEC_Q8_0_def unat_gt_0\<close>)
  then obtain bytes mins g' h' where run: "\<And>bw bx h1. run_guarded ready_env c (kernel_call_fn ready_env (ref_kernel F True) (problem_of ps bw bx c) (kp_iters ps)) (0, 0) 8192 4 g h1
     = (AEE_SUCCESS, Some (0, bytes bw bx h1), mins bw bx h1, g' bw bx h1, h' bw bx h1)" by metis
  have "\<not> sizes_differ ps CAND_OP_MATVEC_Q8_0 34 128 4"
    using assms by (simp add: sizes_differ_def CAND_OP_MATVEC_Q8_0_def)
  then show ?thesis using assms
    by (simp add: isaprobe_kernel_run_def s e copy_input_def alloc_output_def Let_def case_prod_beta run)
qed

text \<open>The host of the example, with that DSP.\<close>

definition library_reply :: "u32 \<Rightarrow> kparams \<Rightarrow> u8 list \<Rightarrow> u8 list \<Rightarrow> nat \<Rightarrow> host_reply" where
  "library_reply k ps w x n =
     (case isaprobe_kernel_run ready_env (cand_kernels (host_float faulty_host) True) (Some ctx_zero) True k ps (nth w, of_nat (length w))
        (nth x, of_nat (length x)) 8192 (of_nat n) no_vtcm [] of
        (err, Some (st, bytes), _) \<Rightarrow> if err = AEE_SUCCESS then calm_reply\<lparr>hr_status := st, hr_bytes := bytes\<rparr> else calm_reply\<lparr>hr_err := 1\<rparr>
      | _ \<Rightarrow> calm_reply\<lparr>hr_err := 1\<rparr>)"

definition library_host :: host_env where
  "library_host = faulty_host\<lparr>hans := (\<lambda>h c. case c of H_kernel_run a k ps w x n \<Rightarrow> library_reply k ps w x n | _ \<Rightarrow> hans faulty_host h c)\<rparr>"

lemma library_answers [simp]:
  "hans library_host h (H_kernel_run a k ps w x n) = library_reply k ps w x n"
  "hans library_host h (H_kernel_info a 0) = calm_reply\<lparr>hr_value := 1\<rparr>" "hans library_host h H_load = calm_reply"
  "hans library_host h (H_capability u) = calm_reply" "hans library_host h H_unsigned = calm_reply" "hans library_host h H_open = calm_reply"
  "hans library_host h (H_info a) = calm_reply" "hans library_host h (H_read_file f) = calm_reply" "hans library_host h (H_alloc m) = calm_reply"
  "hans library_host h (H_close a) = calm_reply" "hans library_host h (H_write_file f bs) = calm_reply"
  "host_float library_host = host_float faulty_host" "enc_error library_host = False" "UNSIGNED_PD_SUPPORT library_host = 2"
  by (simp_all add: library_host_def) (simp_all add: faulty_host_def)

lemma library_host_runs: "library_runs library_host"
  unfolding library_runs_def Let_def library_answers
proof (intro allI impI)
  fix k ps w x n assume e: "hr_err (library_reply k ps w x n) = AEE_SUCCESS"
  obtain err res ts c g h where r: "isaprobe_kernel_run ready_env (cand_kernels (host_float faulty_host) True) (Some ctx_zero) True k ps
      (nth w, of_nat (length w)) (nth x, of_nat (length x)) 8192 (of_nat n) no_vtcm [] = (err, res, ts, c, g, h)" by (metis prod_cases6)
  have "err = AEE_SUCCESS \<and> res = Some (hr_status (library_reply k ps w x n), hr_bytes (library_reply k ps w x n))"
    using e unfolding library_reply_def r by (auto simp: AEE_SUCCESS_def split: option.splits if_splits)
  with r show "\<exists>P l ctx dst g d ts ctx' g' d'. isaprobe_kernel_run P (cand_kernels (host_float faulty_host) l) (Some ctx) True k ps
      (nth w, of_nat (length w)) (nth x, of_nat (length x)) dst (of_nat n) g d =
      (AEE_SUCCESS, Some (hr_status (library_reply k ps w x n), hr_bytes (library_reply k ps w x n)), ts, ctx', g', d')" by blast
qed

lemma library_run_ok:
  assumes "kp_op ps = 1" "kp_rows ps = 1" "kp_cols ps = 32" "kp_iters ps \<noteq> 0" "length w = 34" "length x = 128"
  shows "hr_err (library_reply 0 ps w x 4) = 0" "hr_status (library_reply 0 ps w x 4) = 0"
proof -
  obtain bytes r where "isaprobe_kernel_run ready_env (cand_kernels (host_float faulty_host) True) (Some ctx_zero) True 0 ps (nth w, 34) (nth x, 128)
      8192 4 no_vtcm [] = (AEE_SUCCESS, Some (0, bytes), r)" using ready_kernel_run[OF assms(1-4)] by blast
  then show "hr_err (library_reply 0 ps w x 4) = 0" "hr_status (library_reply 0 ps w x 4) = 0"
    using assms(5,6) by (simp_all add: library_reply_def)
qed

lemma library_write [simp]: "write_result library_host ''out'' ''ref.bin'' hdr y h = (True, tell library_host (H_write_file ''out/ref.bin'' (mv_bytes hdr @ concat (map le32 y))) h)"
  "write_result library_host ''out'' ''ggml-ref.bin'' hdr y h = (True, tell library_host (H_write_file ''out/ggml-ref.bin'' (mv_bytes hdr @ concat (map le32 y))) h)"
  by (simp_all add: write_result_def census_join_def hask_tell calm_reply_def)

lemma library_compare: "iters \<noteq> 0 \<Longrightarrow> \<exists>h1. kernel_compare library_host 7 0 ''ref'' problem_header problem_file ''out'' iters h = (0, h1)"
proof -
  assume it: "iters \<noteq> 0"
  have fl: "length (take 34 (drop 128 problem_file)) = 34" "length (take 128 (drop 162 problem_file)) = 128"
    using problem_inputs(1,2)[OF problem_read] by (simp_all add: problem_w_def problem_x_def problem_header_def)
  have r: "hr_err (library_reply 0 \<lparr>kp_op = 1, kp_rows = 1, kp_cols = 32, kp_iters = iters\<rparr> (take 34 (drop 128 problem_file)) (take 128 (drop 162 problem_file)) 4) = 0"
    "hr_status (library_reply 0 \<lparr>kp_op = 1, kp_rows = 1, kp_cols = 32, kp_iters = iters\<rparr> (take 34 (drop 128 problem_file)) (take 128 (drop 162 problem_file)) 4) = 0"
    using library_run_ok[OF _ _ _ _ fl] it by simp_all
  have s: "snprintf_s (NAME_BYTES + 16) ''ref.bin'' = ''ref.bin''" by (simp add: snprintf_s_def NAME_BYTES_def)
  have f: "mv_op problem_header = 1" "mv_rows problem_header = 1" "mv_cols problem_header = 32" by (simp_all add: problem_header_def CAND_OP_MATVEC_Q8_0_def)
  show ?thesis by (simp add: kernel_compare_def f hask_tell Let_def r s AEE_SUCCESS_def case_prod_beta)
qed

lemma library_find: "find_kernel library_host 7 ''0'' h = Some (Some (0, 1, ''ref''), tell library_host (H_kernel_info 7 0) h)"
  unfolding find_kernel_def
  by (subst find_kernel_from.simps)
    (simp add: hask_tell kernel_number_def scan_number_def strtoul_def is_space_def is_digit_def char_code_def skip_sign_def digits_val_def
      digit_val_def AEE_SUCCESS_def)

lemma library_kernel: "iters \<noteq> 0 \<Longrightarrow> \<exists>h1. run_kernel library_host 7 ''0'' f ''out'' iters h = Some (0, h1)"
proof -
  assume it: "iters \<noteq> 0"
  have op: "mv_op problem_header = 1" by (simp add: problem_header_def CAND_OP_MATVEC_Q8_0_def)
  define h0 where "h0 h = tell library_host (H_alloc (unat (mv_cols problem_header) * 4)) (tell library_host (H_alloc (unat (mv_cols problem_header) div 32 * 34))
    (tell library_host (H_alloc (unat (mv_rows problem_header) * 4)) (tell library_host (H_alloc (unat (mv_rows problem_header) * 4)) h)))" for h
  have "\<exists>h1. solve_problem library_host 7 0 ''ref'' problem_header problem_file ''out'' iters h = (0, h1)" for h
    using library_compare[OF it, of "h0 h"] by (auto simp: solve_problem_def hask_tell Let_def h0_def[symmetric])
  then show ?thesis by (simp add: run_kernel_def library_find hask_tell problem_read op)
qed

lemma library_info: "\<exists>h1. host_info library_host 7 h = (0, Some faulty_info, h1)"
  by (simp add: host_info_def dsp_capability_def hask_tell decode_arch_byte_def AEE_SUCCESS_def setup_is_fatal_def faulty_info_def
      calm_reply_def)

lemma library_main: "\<exists>h. probe_main library_host kernel_argv [] = Some (0, h)"
  "probe_options (tl kernel_argv) probe_args0 = Some (probe_args0\<lparr>pa_args := tl kernel_argv\<rparr>)"
proof -
  show o: "probe_options (tl kernel_argv) probe_args0 = Some (probe_args0\<lparr>pa_args := tl kernel_argv\<rparr>)"
    by (simp add: kernel_argv_def probe_args0_def)
  have m: "probe_mode_of (tl kernel_argv) = Some (M_kernel ''0'' ''problem.bin'' ''out'')"
    by (simp add: kernel_argv_def probe_mode_of_def)
  have s: "\<exists>h1. probe_session library_host (probe_args0\<lparr>pa_args := as\<rparr>) (M_kernel ''0'' ''problem.bin'' ''out'') 7 h = Some (0, 7, h1)" for as h
  proof -
    obtain h1 where i: "host_info library_host 7 h = (0, Some faulty_info, h1)" using library_info by blast
    have it: "(10 :: u32) \<noteq> 0" by simp
    obtain h2 where "run_kernel library_host 7 ''0'' ''problem.bin'' ''out'' 10 h1 = Some (0, h2)" using library_kernel[OF it] by blast
    then show ?thesis using faulty_host_info(2) by (simp add: probe_session_def i probe_work_def probe_args0_def)
  qed
  define h0 where "h0 = tell library_host H_open (tell library_host H_unsigned (tell library_host (H_capability 2) (tell library_host H_load [])))"
  obtain h1 where k: "probe_session library_host (probe_args0\<lparr>pa_args := tl kernel_argv\<rparr>) (M_kernel ''0'' ''problem.bin'' ''out'') 7 h0
      = Some (0, 7, h1)" using s by blast
  have "probe_main library_host kernel_argv [] = Some (0, probe_close library_host 7 h1)"
    by (simp add: probe_main_def o m dsp_capability_def probe_open_def hask_tell AEE_SUCCESS_def h0_def[symmetric] k)
  then show "\<exists>h. probe_main library_host kernel_argv [] = Some (0, h)" by blast
qed


end
