(* ===== verification/Spec2Isabelle.thy ===== *)
theory Spec2Isabelle
  imports Buffers DmaQueue LabDma Readers DmaReader DspEnv DspMaps DspPower DspQueue DspRead Fence
    CText HostArgs SoftFloat HostRun HostCpu HostSession HostLatency HostRtt HostClock HostMain
    FloatOrder SpecPolicy SpecProps CacheHash TaskThread CacheFiles
    RpcLoader CensusIO FloatBits FloatJam HvxLanes HvxExact HvxMul HvxAdd Oracle OracleLanes OracleRun OracleFloat
    IsaprobeDsp IsaprobeKernel IsaprobeProps IsaprobeRun IsaprobeSession IsaprobeResult Q8Ref Q8Fp16 Q8Narrow
    IsaprobeHost IsaprobeMain IsaprobeProblem IsaprobeHandles IsaprobeCompare IsaprobeAgree
begin

text \<open>
  This library models the measuring programs of the repository: the DRAM bandwidth program \<open>tools/ddrbw\<close> (a host program
  on the ARM CPU and a library on the Hexagon DSP), the ISA probe \<open>tools/htp-lab/probe\<close> (again a host program and a DSP
  library) with the file formats and the CPU oracle of its census, and the shared code of \<open>tools/htp-lab\<close> that they use: the
  DMA shim \<open>lab/lab-dma.h\<close> and the integer routines of \<open>isa/isa_kernels.c\<close> that compute IEEE results on HVX. It also models
  three parts of the chat engine of the application, \<open>android/app/src/main/cpp\<close>, that do not depend on llama.cpp.

  \<^bold>\<open>How the parts interact.\<close> \<open>ddrbw\<close> fills a buffer in shared memory with words from a hash, maps it on the DSP, and asks the
  DSP for read runs through a queue of packets. A run splits the buffer between HVX threads, which read it with vector loads or
  with the DMA engine, and gives one checksum for each thread; the host computes the checksums that it expects from prefix
  sums of the fill. \<open>isaprobe\<close> opens a session with its DSP library, tests the version of the library against the chip, and
  runs either each op of the HVX census on the corpus streams, or one candidate kernel on a problem file. For the census it
  writes the DSP output and the result of the IEEE oracle, and for a kernel it compares the result with the ggml reference.

  \<^bold>\<open>Conventions.\<close> A C integer is a word of its width, with the wrap-around of C, except a counter that the code bounds, which
  is a \<open>nat\<close>. A C \<open>struct\<close> is a record. A C string is a list of characters without the null byte. Memory is a function from
  addresses to bytes, or the list of the bytes of one buffer. A \<open>float\<close> is its 32-bit pattern, and \<open>SoftFloat\<close> gives the
  exact value of a pattern and the IEEE operation with one rounding. A loop that may not end is a
  \<^theory_text>\<open>partial_function (option)\<close>, and a result \<^const>\<open>None\<close> of a loop or of a run is a run that does not return; the theorems show
  where the result is \<^const>\<open>Some\<close>. No definition of the program uses fuel. Services that are not in the repository (FastRPC, HAP, QuRT,
  the DMA engine, the C library, the clock) are parameters: a record of functions on the state of the world in \<open>ddrbw\<close>, and a
  function from the history of the calls to the reply in the ISA probe. The laws that a theorem needs are its hypotheses, and
  a witness shows a world in which they hold.

  \<^bold>\<open>The memory test program (\<open>tools/ddrbw\<close>).\<close>
  \<^item> \<open>Prelude\<close>: word types, bytes of a word in memory, sums of words, lemmas on \<open>unat\<close>.
  \<^item> \<open>Buffers\<close> (\<open>host/ddrbw.c\<close>: \<open>mix32\<close>, \<open>fill_main\<close>, \<open>fill_buffer\<close>, \<open>sum_range\<close>, \<open>expected_sum\<close>): the fill is the
    same for each order of the eight threads, and the expected checksum is the sum of the words that a reader visits.
  \<^item> \<open>DmaQueue\<close> and \<open>LabDma\<close> (\<open>lab/lab-dma.h\<close>): the locale \<open>dma_engine\<close> states what a client of a DMA queue relies on; the ring
    of the shim is an interpretation of it. \<open>LabDma\<close> also has the line cache.
  \<^item> \<open>Readers\<close> and \<open>DmaReader\<close> (\<open>dsp/ddrbw_dsp.c\<close>: \<open>run_hvx\<close>, \<open>run_dma\<close>, \<open>sum_slot\<close>, \<open>reduce4\<close>): each reader returns and
    its checksum is that of the chunks it read. The DMA reader is proved in the locale of the queue.
  \<^item> \<open>DspEnv\<close>, \<open>DspMaps\<close>, \<open>DspPower\<close>, \<open>DspQueue\<close>, \<open>DspRead\<close> (\<open>dsp/ddrbw_dsp.c\<close>): the handle, the table of mappings as a
    refinement of a finite map, the power votes, the queue thread, \<open>check_run\<close> and \<open>ddrbw_read\<close>. An accepted run reads disjoint parts and
    slots in bounds, and its checksums are the expected ones.
  \<^item> \<open>Fence\<close>: the fence test of host and DSP as a step relation with its reachable states.
  \<^item> \<open>CText\<close> and \<open>HostArgs\<close> (\<open>host/ddrbw.c\<close>): \<open>strtol\<close>, \<open>strtoul\<close>, the options, the core sets and the table of plans.
  \<^item> \<open>HostRun\<close>, \<open>HostCpu\<close>, \<open>HostSession\<close> (\<open>host/ddrbw.c\<close>): a run on the DSP, the readers on the CPU cores, the session and
    the modes \<open>nsp\<close>, \<open>cpu\<close> and \<open>both\<close>. The checks of a built-in plan succeed on a DSP that reads the memory.
  \<^item> \<open>HostLatency\<close>, \<open>HostRtt\<close> (\<open>host/ddrbw.c\<close>): the modes \<open>rtt\<close> and \<open>mapcost\<close>. The packets of a queue test are those that the
    queue thread of \<open>DspQueue\<close> serves, the samples fit their array, and the percentiles are ordered.
  \<^item> \<open>HostClock\<close> (\<open>host/ddrbw.c\<close>): the modes \<open>freqlist\<close>, \<open>now\<close> and \<open>freq\<close>: what the sample file holds, and that the mode ends.
  \<^item> \<open>HostMain\<close> (\<open>host/ddrbw.c\<close>): \<open>main\<close> with all modes. Each path gives back what it acquired, except one mapping of \<open>rtt\<close>.
  \<^item> \<open>RpcLoader\<close> (\<open>ddrbw/host/rpc.c\<close>, \<open>probe/host/cdsprpc.c\<close>): the loaders of the FastRPC library and their wrappers.

  \<^bold>\<open>Floating point.\<close>
  \<^item> \<open>SoftFloat\<close>, \<open>FloatBits\<close>, \<open>FloatJam\<close>: formats, rounding to nearest with ties to even, patterns, and the rounding of a
    significand whose low bits are replaced by a sticky bit.
  \<^item> \<open>HvxLanes\<close>, \<open>HvxExact\<close>, \<open>HvxMul\<close>, \<open>HvxAdd\<close> (\<open>isa/isa_kernels.c\<close>: \<open>isa_hvx_exact_*\<close>, \<open>isa_sf_to_w_rne\<close>): each routine
    computes the IEEE result with integer instructions. The lane is a word; the shift of a lane by its own size or more, which the
    instruction set does not define for all amounts, is a parameter.
  \<^item> \<open>Oracle\<close>, \<open>OracleLanes\<close>, \<open>OracleRun\<close>, \<open>OracleFloat\<close> (\<open>probe/host/oracle.c\<close>): the table of ops, the lane layouts, the
    computation, its bounds and its conversions.
  \<^item> \<open>CensusIO\<close> (\<open>probe/host/census_io.c\<close>, \<open>isa/isa_kernels.h\<close>): the hash and the files of the census.

  \<^bold>\<open>The ISA probe (\<open>tools/htp-lab/probe\<close>).\<close>
  \<^item> \<open>IsaprobeDsp\<close>, \<open>IsaprobeKernel\<close> (\<open>dsp/isaprobe_dsp.c\<close>): setup, locks, threads, guards, the run of an op or a kernel, the
    VTCM allocator.
  \<^item> \<open>IsaprobeProps\<close>, \<open>IsaprobeRun\<close>, \<open>IsaprobeSession\<close>, \<open>IsaprobeResult\<close>: what a call acquires and releases, as a difference of
    multisets between two histories; the locale \<open>candidate\<close> is the contract of a kernel. A session gives back all that it got, and a run gives the result of
    one call of the op on the inputs of the host.
  \<^item> \<open>Q8Ref\<close>, \<open>Q8Fp16\<close>, \<open>Q8Narrow\<close> (\<open>q8_0_ref.c\<close>, \<open>dsp/candidates.c\<close>): the ggml reference and kernel 0, which is an
    interpretation of the locale; its conversions of fp16 are the IEEE ones, for each pattern.
  \<^item> \<open>IsaprobeHost\<close>, \<open>IsaprobeMain\<close> (\<open>host/isaprobe.c\<close>), \<open>IsaprobeProblem\<close> (\<open>mv_format.h\<close>): the host program.
  \<^item> \<open>IsaprobeHandles\<close>: the open handle as a state machine on the history; the version gate. \<open>IsaprobeCompare\<close>: the order of
    the patterns. \<open>IsaprobeAgree\<close>: the host program on the DSP library, and the search of a kernel.

  \<^bold>\<open>The chat engine (\<open>android/app/src/main/cpp\<close>).\<close>
  \<^item> \<open>FloatOrder\<close>, \<open>SpecPolicy\<close>, \<open>SpecProps\<close> (\<open>spec_policy.cpp\<close>): the policy that selects the number of draft tokens, with its
    arithmetic on IEEE doubles. The selected length has the highest predicted rate, the decayed means stay in their ranges, and the
    ring of the window holds the last 32 drafts.
  \<^item> \<open>CacheHash\<close> (\<open>cache_io.cpp\<close>): FNV-1a, XXH64, the hexadecimal texts, and SHA-256 as an equivalent of FIPS 180-4.
  \<^item> \<open>TaskThread\<close> (\<open>engine_tasks.cpp\<close>): the background thread as a step relation of its critical sections. The locale
    \<open>fifo_worker\<close> is the contract of such a thread: the order of the jobs, and that waiting for it ends.
  \<^item> \<open>CacheFiles\<close> (\<open>cache_io.cpp\<close>): the file helpers over the calls of POSIX, and the writer thread as the second instance of
    \<open>fifo_worker\<close>. An atomic write leaves the old file or the complete new file, also after a power loss; the files are those of the
    requests done in their order.

  \<^bold>\<open>Not modelled.\<close>
  \<^item> \<open>lab/lab.c\<close>, \<open>lab/target_*.c\<close> and \<open>hmx-bench\<close>: benchmarks that print cycle counts; \<open>lab\<close> keeps no state that the
    modelled programs use.
  \<^item> The functions of \<open>isa/isa_kernels.c\<close> after the exact routines: one generated function for each instruction, whose meaning is
    that of the HVX instruction set. \<open>isa_run\<close> is a parameter of the probe.
  \<^item> \<open>android/app/src/main/cpp/llama_jni.cpp\<close> and \<open>tools/memprobe/memprobe.cpp\<close>: C++ programs around llama.cpp and the Android runtime.
  \<^item> The other files of \<open>android/app/src/main/cpp\<close>: the caches of states and images, the prompt texts, the token rows, hints and
    traces.
  \<^item> The tests, fuzzers, scripts, patches and the Kotlin application.
  \<^item> In the modelled files: the text of messages, and \<open>__builtin_*\<close> barriers and cache operations as such (they keep the values).
\<close>

end
